(* ===== verification/Prelude.thy ===== *)
theory Prelude
  imports Main "HOL-Library.Word"
begin

text \<open>
  Shared vocabulary of the development: the machine integers of the C sources as words, the
  C idioms \<open>1 << n\<close>, \<open>x & mask\<close> and narrowing assignments, the error numbers the
  handlers return, and the lemmas on words, lists and function-valued arrays that the component
  theories use through the collection \<open>bv_simps\<close>.
\<close>

section \<open>Machine integers and return codes\<close>

unbundle bit_operations_syntax

named_theorems bv_simps "bit-level facts about the C mask and shift idioms"

type_synonym u8 = "8 word"
type_synonym u16 = "16 word"
type_synonym u32 = "32 word"
type_synonym u64 = "64 word"

text \<open>Handlers return a C \<open>int\<close>: 0 for success, \<open>-1\<close> or an \<open>errno\<close> value otherwise.\<close>

abbreviation (input) EINVAL :: int where "EINVAL \<equiv> 22"

datatype irqstate = IRQSTATE_ASSERT | IRQSTATE_DEASSERT | IRQSTATE_PULSE

section \<open>Bits\<close>

text \<open>The C test \<open>(x & (1 << n)) != 0\<close> and the updates \<open>x |= 1 << n\<close>,
  \<open>x &= ~(1 << n)\<close> are written with \<^const>\<open>bit\<close>, \<^const>\<open>set_bit\<close> and
  \<^const>\<open>unset_bit\<close>.\<close>

lemma and_push_bit_1:
  "w AND push_bit n 1 = of_bool (bit w n) * push_bit n 1" for w :: "'a::len word"
  by (rule bit_word_eqI) (auto simp: bit_and_iff bit_exp_iff)

lemma and_push_bit_1_neq_0:
  "(w AND push_bit n 1 \<noteq> 0) = bit w n" for w :: "'a::len word"
proof -
  have "push_bit n 1 \<noteq> (0 :: 'a word)" if "bit w n"
    using bit_imp_le_length [OF that] by (simp add: push_bit_eq_mult)
  then show ?thesis unfolding and_push_bit_1 by auto
qed

lemma or_push_bit_1: "w OR push_bit n 1 = set_bit n w" for w :: "'a::len word"
  by (simp add: set_bit_eq_or)

lemma and_not_push_bit_1: "w AND NOT (push_bit n 1) = unset_bit n w" for w :: "'a::len word"
  by (simp add: unset_bit_eq_and_not)

lemma bit_set_bit_word [bv_simps]:
  "bit (set_bit m w) n = (bit w n \<or> m = n \<and> n < LENGTH('a))" for w :: "'a::len word"
  by (auto simp: bit_set_bit_iff)

lemma bit_unset_bit_word [bv_simps]:
  "bit (unset_bit m w) n = (bit w n \<and> m \<noteq> n)" for w :: "'a::len word"
  by (auto simp: bit_unset_bit_iff)

lemma unat_and_mask_le: "unat (w AND m) \<le> unat m" for w m :: "'a::len word"
  by (rule word_and_le1 [THEN word_le_nat_alt [THEN iffD1]])

lemma unat_and_mask: "unat (w AND mask n) = unat w mod 2 ^ n" for w :: "'a::len word"
  unfolding take_bit_eq_mask [symmetric] unsigned_take_bit_eq by (simp add: take_bit_eq_mod)

lemma unat_less_pow: "unat w < 2 ^ LENGTH('a)" for w :: "'a::len word"
  by (rule unsigned_less)

lemma unat_u8_less: "unat w < 256" for w :: u8
  using unat_less_pow [of w] by simp

lemma unat_u32_less: "unat w < 4294967296" for w :: u32
  using unat_less_pow [of w] by simp

lemma unat_and_7_less [simp]: "unat (w AND 7) < 8" for w :: u8
  using unat_and_mask_le [of w 7] by simp

lemma word_nonzero_iff_bit: "w \<noteq> 0 \<longleftrightarrow> (\<exists>n < LENGTH('a). bit w n)" for w :: "'a::len word"
proof
  assume "w \<noteq> 0"
  then obtain n where "bit w n" by (auto simp: bit_eq_iff)
  then show "\<exists>n < LENGTH('a). bit w n" using bit_imp_le_length by blast
qed auto

end
