(* ===== verification/Pin_Counter.thy ===== *)
theory Pin_Counter
  imports Prelude
begin

text \<open>
  The contract that the two interrupt controllers (8259 pair and I/O APIC) share: every input pin
  carries a counter of asserts minus deasserts (\<open>acnt\<close> in \<^verbatim>\<open>vatpic.c\<close> and
  \<^verbatim>\<open>vioapic.c\<close>), so that several devices may share a line. The client side is a
  sequence of line changes made by the devices; the lemmas say what the counters hold after it.
\<close>

text \<open>One device-side line change: the pin and whether it is asserted.\<close>

type_synonym line_change = "nat \<times> bool"

definition line_delta :: "line_change \<Rightarrow> nat \<Rightarrow> int" where
  "line_delta c q = (if fst c = q then (if snd c then 1 else -1) else 0)"

definition net_asserts :: "line_change list \<Rightarrow> nat \<Rightarrow> int" where
  "net_asserts cs q = (\<Sum>c\<leftarrow>cs. line_delta c q)"

lemma net_asserts_simps [simp]:
  "net_asserts [] q = 0"
  "net_asserts (c # cs) q = line_delta c q + net_asserts cs q"
  by (simp_all add: net_asserts_def)

lemma net_asserts_append [simp]:
  "net_asserts (cs @ ds) q = net_asserts cs q + net_asserts ds q"
  by (simp add: net_asserts_def)

lemma net_asserts_count:
  "net_asserts cs q = int (count_list cs (q, True)) - int (count_list cs (q, False))"
proof (induction cs)
  case Nil
  then show ?case by simp
next
  case (Cons c cs)
  then show ?case by (cases c) (auto simp: line_delta_def)
qed

locale pin_counter =
  fixes set_pin :: "'s \<Rightarrow> nat \<Rightarrow> bool \<Rightarrow> 's"
    and cnt :: "'s \<Rightarrow> nat \<Rightarrow> int"
    and valid_pin :: "nat \<Rightarrow> bool"
  assumes cnt_set_pin:
    "valid_pin p \<Longrightarrow> valid_pin q \<Longrightarrow> cnt (set_pin s p b) q = cnt s q + line_delta (p, b) q"
begin

definition set_pins :: "'s \<Rightarrow> line_change list \<Rightarrow> 's" where
  "set_pins s cs = fold (\<lambda>(p, b) s. set_pin s p b) cs s"

lemma set_pins_simps [simp]:
  "set_pins s [] = s"
  "set_pins s ((p, b) # cs) = set_pins (set_pin s p b) cs"
  by (simp_all add: set_pins_def)

lemma cnt_set_pins:
  assumes "\<forall>c \<in> set cs. valid_pin (fst c)" and "valid_pin q"
  shows "cnt (set_pins s cs) q = cnt s q + net_asserts cs q"
  using assms(1)
proof (induction cs arbitrary: s)
  case Nil
  then show ?case by simp
next
  case (Cons c cs)
  obtain p b where c: "c = (p, b)" by (cases c)
  from Cons.prems have "valid_pin p" and "\<forall>c \<in> set cs. valid_pin (fst c)"
    by (auto simp: c)
  then show ?case using Cons.IH [of "set_pin s p b"] assms(2)
    by (simp add: c cnt_set_pin)
qed

lemma pulse_keeps_cnt:
  "valid_pin p \<Longrightarrow> valid_pin q \<Longrightarrow> cnt (set_pin (set_pin s p True) p False) q = cnt s q"
  by (simp add: cnt_set_pin line_delta_def)

lemma balanced_keeps_cnt:
  assumes "\<forall>c \<in> set cs. valid_pin (fst c)" and "valid_pin q"
    and "count_list cs (q, True) = count_list cs (q, False)"
  shows "cnt (set_pins s cs) q = cnt s q"
  using assms by (simp add: cnt_set_pins net_asserts_count)

end

end
