(* ===== verification/Vatpic.thy ===== *)
theory Vatpic
  imports Pin_Counter
begin

text \<open>
  The 8259 interrupt controller pair of \<^verbatim>\<open>vmm/io/vatpic.c\<close>. A \<open>struct atpic\<close> is the
  record \<open>atpic\<close>, the pair with its edge/level registers the record \<open>vatpic\<close>; chip 0 is
  the master, chip 1 the slave cascaded on pin 2. Locks and trace macros are left out (every entry
  point runs under \<^verbatim>\<open>VATPIC_LOCK\<close>). The calls that leave the component
  (\<^verbatim>\<open>lapic_set_local_intr\<close>, \<^verbatim>\<open>vioapic_pulse_irq\<close>) are appended, in order, to
  the field \<open>vp_out\<close>. Register constants are those of the 8259A data sheet.
\<close>

section \<open>State\<close>

record atpic =
  ap_ready :: bool
  ap_icw_num :: nat
  ap_rd_cmd_reg :: u8
  ap_aeoi :: bool
  ap_poll :: bool
  ap_rotate :: bool
  ap_sfn :: bool
  ap_irq_base :: nat
  ap_request :: u8
  ap_service :: u8
  ap_mask :: u8
  ap_smm :: bool
  ap_acnt :: "nat \<Rightarrow> int"
  ap_lowprio :: nat
  ap_intr_raised :: bool

datatype pic_call = Lapic_set_local_intr_LINT0 | Vioapic_pulse_irq nat

record vatpic =
  vp_atpic :: "nat \<Rightarrow> atpic"
  vp_elc :: "nat \<Rightarrow> u8"
  vp_out :: "pic_call list"

datatype vm_intr_trigger = EDGE_TRIGGER | LEVEL_TRIGGER

abbreviation (input) ICW1_IC4 :: u8 where "ICW1_IC4 \<equiv> 0x01"
abbreviation (input) ICW1_SNGL :: u8 where "ICW1_SNGL \<equiv> 0x02"
abbreviation (input) ICW4_8086 :: u8 where "ICW4_8086 \<equiv> 0x01"
abbreviation (input) ICW4_AEOI :: u8 where "ICW4_AEOI \<equiv> 0x02"
abbreviation (input) ICW4_SFNM :: u8 where "ICW4_SFNM \<equiv> 0x10"
abbreviation (input) OCW2_R :: u8 where "OCW2_R \<equiv> 0x80"
abbreviation (input) OCW2_SL :: u8 where "OCW2_SL \<equiv> 0x40"
abbreviation (input) OCW2_EOI :: u8 where "OCW2_EOI \<equiv> 0x20"
abbreviation (input) OCW3_ESMM :: u8 where "OCW3_ESMM \<equiv> 0x40"
abbreviation (input) OCW3_SMM :: u8 where "OCW3_SMM \<equiv> 0x20"
abbreviation (input) OCW3_P :: u8 where "OCW3_P \<equiv> 0x04"
abbreviation (input) OCW3_RR :: u8 where "OCW3_RR \<equiv> 0x02"
abbreviation (input) OCW3_RIS :: u8 where "OCW3_RIS \<equiv> 0x01"
abbreviation (input) IO_ELCR1 :: nat where "IO_ELCR1 \<equiv> 0x4d0"

text \<open>The fields as \<^verbatim>\<open>malloc(M_ZERO)\<close> leaves them.\<close>

definition atpic_zero :: atpic where
  "atpic_zero = \<lparr>ap_ready = False, ap_icw_num = 0, ap_rd_cmd_reg = 0, ap_aeoi = False,
     ap_poll = False, ap_rotate = False, ap_sfn = False, ap_irq_base = 0, ap_request = 0,
     ap_service = 0, ap_mask = 0, ap_smm = False, ap_acnt = (\<lambda>_. 0), ap_lowprio = 0,
     ap_intr_raised = False\<rparr>"

definition vatpic_init :: vatpic where
  "vatpic_init = \<lparr>vp_atpic = (\<lambda>_. atpic_zero), vp_elc = (\<lambda>_. 0), vp_out = []\<rparr>"

definition upd_atpic :: "nat \<Rightarrow> atpic \<Rightarrow> vatpic \<Rightarrow> vatpic" where
  "upd_atpic i a v = v\<lparr>vp_atpic := (vp_atpic v)(i := a)\<rparr>"

definition master_atpic :: "nat \<Rightarrow> bool" where
  "master_atpic i \<longleftrightarrow> i = 0"

section \<open>Priority resolution\<close>

text \<open>\<^verbatim>\<open>ATPIC_PIN_FOREACH\<close>: the pins from highest to lowest priority.\<close>

definition atpic_pins :: "atpic \<Rightarrow> nat list" where
  "atpic_pins a = map (\<lambda>i. (ap_lowprio a + 1 + i) mod 8) [0..<8]"

definition vatpic_get_highest_isrpin :: "atpic \<Rightarrow> nat option" where
  "vatpic_get_highest_isrpin a =
     find (\<lambda>pin. bit (ap_service a) pin \<and> \<not> (ap_smm a \<and> bit (ap_mask a) pin)) (atpic_pins a)"

definition atpic_serviced :: "atpic \<Rightarrow> u8" where
  "atpic_serviced a =
     (let serviced = ap_service a;
          serviced = (if ap_sfn a then unset_bit 2 serviced else serviced)
      in if ap_smm a then 0 else serviced)"

fun irrpin_scan :: "atpic \<Rightarrow> u8 \<Rightarrow> nat list \<Rightarrow> nat option" where
  "irrpin_scan a serviced [] = None"
| "irrpin_scan a serviced (pin # pins) =
     (if bit serviced pin then None
      else if bit (ap_request a) pin \<and> \<not> bit (ap_mask a) pin then Some pin
      else irrpin_scan a serviced pins)"

definition vatpic_get_highest_irrpin :: "atpic \<Rightarrow> nat option" where
  "vatpic_get_highest_irrpin a = irrpin_scan a (atpic_serviced a) (atpic_pins a)"

section \<open>Pin changes and notification\<close>

text \<open>The counter and request-register part of \<^verbatim>\<open>vatpic_set_pinstate\<close>, before its
  call of \<^verbatim>\<open>vatpic_notify_intr\<close>.\<close>

definition pin_latch :: "vatpic \<Rightarrow> nat \<Rightarrow> bool \<Rightarrow> vatpic" where
  "pin_latch v pin newstate =
     (let i = pin div 8; p = pin mod 8; a = vp_atpic v i;
          oldcnt = ap_acnt a p;
          newcnt = (if newstate then oldcnt + 1 else oldcnt - 1);
          a = a\<lparr>ap_acnt := (ap_acnt a)(p := newcnt)\<rparr>;
          level = bit (vp_elc v i) p;
          a = (if oldcnt = 0 \<and> newcnt = 1 \<or> newcnt > 0 \<and> level
               then a\<lparr>ap_request := set_bit p (ap_request a)\<rparr>
               else if oldcnt = 1 \<and> newcnt = 0
               then (if level then a\<lparr>ap_request := unset_bit p (ap_request a)\<rparr> else a)
               else a)
      in upd_atpic i a v)"

text \<open>The second half of \<^verbatim>\<open>vatpic_notify_intr\<close>: the check of the master.\<close>

definition notify_master :: "vatpic \<Rightarrow> vatpic" where
  "notify_master v =
     (let a = vp_atpic v 0
      in if \<not> ap_intr_raised a \<and> vatpic_get_highest_irrpin a \<noteq> None
         then (upd_atpic 0 (a\<lparr>ap_intr_raised := True\<rparr>) v)
                \<lparr>vp_out := vp_out v @ [Lapic_set_local_intr_LINT0, Vioapic_pulse_irq 0]\<rparr>
         else v)"

text \<open>
  \<^verbatim>\<open>vatpic_notify_intr\<close> and \<^verbatim>\<open>vatpic_set_pinstate\<close> call each other: the slave's
  request is cascaded by pulsing pin 2 of the master. The depth argument bounds the nesting; a
  depth of 1 is always enough, because the cascade sets the slave's \<open>intr_raised\<close> first
  (\<open>vatpic_depth_enough\<close> below), and the functions without the argument satisfy the
  equations of the source.
\<close>

function vatpic_notify_intr_n :: "nat \<Rightarrow> vatpic \<Rightarrow> vatpic"
  and vatpic_set_pinstate_n :: "nat \<Rightarrow> vatpic \<Rightarrow> nat \<Rightarrow> bool \<Rightarrow> vatpic" where
  "vatpic_notify_intr_n d v =
     notify_master
       (let a = vp_atpic v 1
        in if \<not> ap_intr_raised a \<and> vatpic_get_highest_irrpin a \<noteq> None
           then (let v = upd_atpic 1 (a\<lparr>ap_intr_raised := True\<rparr>) v
                 in case d of 0 \<Rightarrow> v
                    | Suc d' \<Rightarrow>
                        vatpic_set_pinstate_n d' (vatpic_set_pinstate_n d' v 2 True) 2 False)
           else v)"
| "vatpic_set_pinstate_n d v pin newstate = vatpic_notify_intr_n d (pin_latch v pin newstate)"
  by pat_completeness auto
termination
  by (relation "measure (\<lambda>x. case x of Inl (d, _) \<Rightarrow> 2 * d | Inr (d, _) \<Rightarrow> 2 * d + 1)") auto

declare vatpic_notify_intr_n.simps [simp del] vatpic_set_pinstate_n.simps [simp del]

definition vatpic_notify_intr :: "vatpic \<Rightarrow> vatpic" where
  "vatpic_notify_intr v = vatpic_notify_intr_n 1 v"

definition vatpic_set_pinstate :: "vatpic \<Rightarrow> nat \<Rightarrow> bool \<Rightarrow> vatpic" where
  "vatpic_set_pinstate v pin newstate = vatpic_set_pinstate_n 1 v pin newstate"

definition vatpic_set_irqstate :: "vatpic \<Rightarrow> int \<Rightarrow> irqstate \<Rightarrow> int \<times> vatpic" where
  "vatpic_set_irqstate v irq st =
     (if irq < 0 \<or> irq > 15 then (EINVAL, v)
      else let pin = nat irq
           in if \<not> ap_ready (vp_atpic v (pin div 8)) then (0, v)
              else (0, case st of
                   IRQSTATE_ASSERT \<Rightarrow> vatpic_set_pinstate v pin True
                 | IRQSTATE_DEASSERT \<Rightarrow> vatpic_set_pinstate v pin False
                 | IRQSTATE_PULSE \<Rightarrow>
                     vatpic_set_pinstate (vatpic_set_pinstate v pin True) pin False))"

definition vatpic_assert_irq :: "vatpic \<Rightarrow> int \<Rightarrow> int \<times> vatpic" where
  "vatpic_assert_irq v irq = vatpic_set_irqstate v irq IRQSTATE_ASSERT"

definition vatpic_deassert_irq :: "vatpic \<Rightarrow> int \<Rightarrow> int \<times> vatpic" where
  "vatpic_deassert_irq v irq = vatpic_set_irqstate v irq IRQSTATE_DEASSERT"

definition vatpic_pulse_irq :: "vatpic \<Rightarrow> int \<Rightarrow> int \<times> vatpic" where
  "vatpic_pulse_irq v irq = vatpic_set_irqstate v irq IRQSTATE_PULSE"

definition vatpic_set_irq_trigger :: "vatpic \<Rightarrow> int \<Rightarrow> vm_intr_trigger \<Rightarrow> int \<times> vatpic" where
  "vatpic_set_irq_trigger v irq trigger =
     (if irq < 0 \<or> irq > 15 then (EINVAL, v)
      else if trigger = LEVEL_TRIGGER \<and> irq \<in> {0, 1, 2, 8, 13} then (EINVAL, v)
      else let i = nat irq div 8; p = nat irq mod 8; e = vp_elc v i
           in (0, v\<lparr>vp_elc := (vp_elc v)
                      (i := if trigger = LEVEL_TRIGGER then set_bit p e else unset_bit p e)\<rparr>))"

section \<open>Command words\<close>

definition vatpic_icw1 :: "atpic \<Rightarrow> u8 \<Rightarrow> int \<times> atpic" where
  "vatpic_icw1 a val =
     (let a = a\<lparr>ap_ready := False, ap_icw_num := 1, ap_request := 0, ap_mask := 0,
                ap_lowprio := 7, ap_rd_cmd_reg := 0, ap_poll := False, ap_smm := False\<rparr>
      in if val AND ICW1_SNGL \<noteq> 0 then (-1, a)
         else if val AND ICW1_IC4 = 0 then (-1, a)
         else (0, a\<lparr>ap_icw_num := ap_icw_num a + 1\<rparr>))"

definition vatpic_icw2 :: "atpic \<Rightarrow> u8 \<Rightarrow> int \<times> atpic" where
  "vatpic_icw2 a val =
     (0, a\<lparr>ap_irq_base := unat (val AND 0xf8), ap_icw_num := ap_icw_num a + 1\<rparr>)"

definition vatpic_icw3 :: "atpic \<Rightarrow> u8 \<Rightarrow> int \<times> atpic" where
  "vatpic_icw3 a val = (0, a\<lparr>ap_icw_num := ap_icw_num a + 1\<rparr>)"

definition vatpic_icw4 :: "bool \<Rightarrow> atpic \<Rightarrow> u8 \<Rightarrow> int \<times> atpic" where
  "vatpic_icw4 master a val =
     (if val AND ICW4_8086 = 0 then (-1, a)
      else let a = (if val AND ICW4_AEOI \<noteq> 0 then a\<lparr>ap_aeoi := True\<rparr> else a);
               a = (if val AND ICW4_SFNM \<noteq> 0 \<and> master then a\<lparr>ap_sfn := True\<rparr> else a)
           in (0, a\<lparr>ap_icw_num := 0, ap_ready := True\<rparr>))"

definition vatpic_ocw1 :: "atpic \<Rightarrow> u8 \<Rightarrow> int \<times> atpic" where
  "vatpic_ocw1 a val = (0, a\<lparr>ap_mask := val AND 0xff\<rparr>)"

definition vatpic_ocw2 :: "atpic \<Rightarrow> u8 \<Rightarrow> int \<times> atpic" where
  "vatpic_ocw2 a val =
     (let a = a\<lparr>ap_rotate := (val AND OCW2_R \<noteq> 0)\<rparr>
      in (0,
          if val AND OCW2_EOI \<noteq> 0
          then (case (if val AND OCW2_SL \<noteq> 0 then Some (unat (val AND 7))
                      else vatpic_get_highest_isrpin a) of
                  None \<Rightarrow> a
                | Some isr_bit \<Rightarrow>
                    let a = a\<lparr>ap_service := unset_bit isr_bit (ap_service a)\<rparr>
                    in if ap_rotate a then a\<lparr>ap_lowprio := isr_bit\<rparr> else a)
          else if val AND OCW2_SL \<noteq> 0 \<and> ap_rotate a then a\<lparr>ap_lowprio := unat (val AND 7)\<rparr>
          else a))"

definition vatpic_ocw3 :: "atpic \<Rightarrow> u8 \<Rightarrow> int \<times> atpic" where
  "vatpic_ocw3 a val =
     (let a = (if val AND OCW3_ESMM \<noteq> 0 then a\<lparr>ap_smm := (val AND OCW3_SMM \<noteq> 0)\<rparr> else a);
          a = (if val AND OCW3_RR \<noteq> 0
               then a\<lparr>ap_rd_cmd_reg := val AND OCW3_RIS, ap_poll := (val AND OCW3_P \<noteq> 0)\<rparr>
               else a)
      in (0, a))"

section \<open>Interrupt acknowledge\<close>

definition vatpic_pending_intr :: "vatpic \<Rightarrow> nat" where
  "vatpic_pending_intr v =
     (let a = vp_atpic v 0; pin = vatpic_get_highest_irrpin a;
          (a, pin) = (if pin = Some 2
                      then (vp_atpic v 1, vatpic_get_highest_irrpin (vp_atpic v 1))
                      else (a, pin));
          pin = (case pin of None \<Rightarrow> 7 | Some p \<Rightarrow> p)
      in ap_irq_base a + pin)"

definition vatpic_pin_accepted :: "atpic \<Rightarrow> nat \<Rightarrow> atpic" where
  "vatpic_pin_accepted a pin =
     (let a = a\<lparr>ap_intr_raised := False\<rparr>;
          a = (if ap_acnt a pin = 0 then a\<lparr>ap_request := unset_bit pin (ap_request a)\<rparr> else a)
      in if ap_aeoi a then (if ap_rotate a then a\<lparr>ap_lowprio := pin\<rparr> else a)
         else a\<lparr>ap_service := set_bit pin (ap_service a)\<rparr>)"

definition vatpic_intr_accepted :: "vatpic \<Rightarrow> nat \<Rightarrow> vatpic" where
  "vatpic_intr_accepted v vector =
     (let pin = vector mod 8;
          v = (if vector - pin = ap_irq_base (vp_atpic v 1)
               then (let v = upd_atpic 1 (vatpic_pin_accepted (vp_atpic v 1) pin) v
                     in upd_atpic 0 (vatpic_pin_accepted (vp_atpic v 0) 2) v)
               else upd_atpic 0 (vatpic_pin_accepted (vp_atpic v 0) pin) v)
      in vatpic_notify_intr v)"

section \<open>Port handlers\<close>

definition vatpic_read :: "vatpic \<Rightarrow> nat \<Rightarrow> nat \<Rightarrow> u32 \<times> vatpic" where
  "vatpic_read v i port =
     (let a = vp_atpic v i
      in if ap_poll a
         then (let a = a\<lparr>ap_poll := False\<rparr>
               in case vatpic_get_highest_irrpin a of
                    Some pin \<Rightarrow> (0x80 OR of_nat pin, upd_atpic i (vatpic_pin_accepted a pin) v)
                  | None \<Rightarrow> (0, upd_atpic i a v))
         else if odd port then (ucast (ap_mask a), v)
         else if ap_rd_cmd_reg a = OCW3_RIS then (ucast (ap_service a), v)
         else (ucast (ap_request a), v))"

definition vatpic_write :: "vatpic \<Rightarrow> nat \<Rightarrow> nat \<Rightarrow> u32 \<Rightarrow> int \<times> vatpic" where
  "vatpic_write v i port eax =
     (let val = (ucast eax :: u8); a = vp_atpic v i;
          (error, a) =
            (if odd port
             then (if ap_icw_num a = 2 then vatpic_icw2 a val
                   else if ap_icw_num a = 3 then vatpic_icw3 a val
                   else if ap_icw_num a = 4 then vatpic_icw4 (master_atpic i) a val
                   else vatpic_ocw1 a val)
             else (let (error, a) = (if bit val 4 then vatpic_icw1 a val else (0, a))
                   in if ap_ready a
                      then (if bit val 3 then vatpic_ocw3 a val else vatpic_ocw2 a val)
                      else (error, a)));
          v = upd_atpic i a v
      in (error, if ap_ready a then vatpic_notify_intr v else v))"

text \<open>A handler gets the direction, the port, the access size and \<open>*eax\<close>; it returns the error
  code, the new \<open>*eax\<close> and the new state.\<close>

definition vatpic_chip_handler ::
    "nat \<Rightarrow> vatpic \<Rightarrow> bool \<Rightarrow> nat \<Rightarrow> nat \<Rightarrow> u32 \<Rightarrow> int \<times> u32 \<times> vatpic" where
  "vatpic_chip_handler i v is_in port bytes eax =
     (if bytes \<noteq> 1 then (-1, eax, v)
      else if is_in then (let (r, v) = vatpic_read v i port in (0, r, v))
      else (let (error, v) = vatpic_write v i port eax in (error, eax, v)))"

definition vatpic_master_handler ::
    "vatpic \<Rightarrow> bool \<Rightarrow> nat \<Rightarrow> nat \<Rightarrow> u32 \<Rightarrow> int \<times> u32 \<times> vatpic" where
  "vatpic_master_handler = vatpic_chip_handler 0"

definition vatpic_slave_handler ::
    "vatpic \<Rightarrow> bool \<Rightarrow> nat \<Rightarrow> nat \<Rightarrow> u32 \<Rightarrow> int \<times> u32 \<times> vatpic" where
  "vatpic_slave_handler = vatpic_chip_handler 1"

definition vatpic_elc_handler ::
    "vatpic \<Rightarrow> bool \<Rightarrow> nat \<Rightarrow> nat \<Rightarrow> u32 \<Rightarrow> int \<times> u32 \<times> vatpic" where
  "vatpic_elc_handler v is_in port bytes eax =
     (let is_master = (port = IO_ELCR1)
      in if bytes \<noteq> 1 then (-1, eax, v)
         else if is_in then (0, ucast (if is_master then vp_elc v 0 else vp_elc v 1), v)
         else if is_master
         then (0, eax, v\<lparr>vp_elc := (vp_elc v)(0 := ucast (eax AND 0xf8))\<rparr>)
         else (0, eax, v\<lparr>vp_elc := (vp_elc v)(1 := ucast (eax AND 0xde))\<rparr>))"


section \<open>Priority order\<close>

text \<open>The rank of a pin in the rotating priority order, 0 for the highest.\<close>

definition pin_rank :: "atpic \<Rightarrow> nat \<Rightarrow> nat" where
  "pin_rank a p = (p + 7 - ap_lowprio a mod 8) mod 8"

definition pin_eligible :: "atpic \<Rightarrow> nat \<Rightarrow> bool" where
  "pin_eligible a p \<longleftrightarrow> bit (ap_request a) p \<and> \<not> bit (ap_mask a) p"

lemma pin_rank_less [simp]: "pin_rank a p < 8"
  by (simp add: pin_rank_def)

lemma length_atpic_pins [simp]: "length (atpic_pins a) = 8"
  by (simp add: atpic_pins_def)

lemma nth_atpic_pins: "i < 8 \<Longrightarrow> atpic_pins a ! i = (ap_lowprio a + 1 + i) mod 8"
  by (simp add: atpic_pins_def)

text \<open>Rotation by a fixed amount and its inverse, on residues below 8.\<close>

lemma mod_8_wrap: "(k::nat) < 16 \<Longrightarrow> k mod 8 = (if k < 8 then k else k - 8)"
  by (simp add: mod_if)

lemma rotate_8_inverse:
  fixes m :: nat assumes "m < 8"
  shows "i < 8 \<Longrightarrow> ((m + 1 + i) mod 8 + 7 - m) mod 8 = i"
    and "p < 8 \<Longrightarrow> (m + 1 + (p + 7 - m) mod 8) mod 8 = p"
  using assms by (auto simp: mod_8_wrap)

lemma nth_atpic_pins_mod: "i < 8 \<Longrightarrow> atpic_pins a ! i = (ap_lowprio a mod 8 + 1 + i) mod 8"
  using mod_add_left_eq [of "ap_lowprio a" 8 "1 + i"] by (simp add: nth_atpic_pins)

lemma pin_rank_nth: "i < 8 \<Longrightarrow> pin_rank a (atpic_pins a ! i) = i"
  unfolding nth_atpic_pins_mod pin_rank_def by (rule rotate_8_inverse(1)) simp_all

lemma nth_pin_rank: "p < 8 \<Longrightarrow> atpic_pins a ! pin_rank a p = p"
  unfolding nth_atpic_pins_mod [OF pin_rank_less] unfolding pin_rank_def
  by (rule rotate_8_inverse(2)) simp_all

lemma nth_atpic_pins_less [simp]: "i < 8 \<Longrightarrow> atpic_pins a ! i < 8"
  by (simp add: nth_atpic_pins)

lemma set_atpic_pins: "set (atpic_pins a) = {..<8}"
proof -
  have "p \<in> set (atpic_pins a)" if "p < 8" for p
    using nth_pin_rank [OF that] nth_mem [of "pin_rank a p" "atpic_pins a"] by simp
  then show ?thesis by (auto simp: in_set_conv_nth)
qed

lemma irrpin_scan_Some:
  "irrpin_scan a s xs = Some p \<longleftrightarrow>
     (\<exists>i < length xs. xs ! i = p \<and> \<not> bit s p \<and> pin_eligible a p \<and>
        (\<forall>j < i. \<not> bit s (xs ! j) \<and> \<not> pin_eligible a (xs ! j)))"
proof (induction xs)
  case Nil
  then show ?case by simp
next
  case (Cons x xs)
  have ex: "(\<exists>i < Suc n. P i) \<longleftrightarrow> P 0 \<or> (\<exists>i < n. P (Suc i))" for n and P :: "nat \<Rightarrow> bool"
    by (metis Suc_less_eq Suc_less_eq2 not0_implies_Suc zero_less_Suc)
  have all: "(\<forall>j < Suc i. P j) \<longleftrightarrow> P 0 \<and> (\<forall>j < i. P (Suc j))" for i and P :: "nat \<Rightarrow> bool"
    by (metis Suc_less_eq Suc_less_eq2 not0_implies_Suc zero_less_Suc)
  show ?case using Cons by (auto simp: ex all pin_eligible_def)
qed

lemma irrpin_Some_less: "vatpic_get_highest_irrpin a = Some p \<Longrightarrow> p < 8"
  by (auto simp: vatpic_get_highest_irrpin_def irrpin_scan_Some)

lemma irrpin_eligible: "vatpic_get_highest_irrpin a = Some p \<Longrightarrow> pin_eligible a p"
  by (auto simp: vatpic_get_highest_irrpin_def irrpin_scan_Some)

lemma irrpin_iff_rank:
  "vatpic_get_highest_irrpin a = Some p \<longleftrightarrow>
     p < 8 \<and> pin_eligible a p \<and> \<not> bit (atpic_serviced a) p \<and>
     (\<forall>q < 8. pin_rank a q < pin_rank a p \<longrightarrow>
        \<not> bit (atpic_serviced a) q \<and> \<not> pin_eligible a q)"
  (is "?lhs \<longleftrightarrow> ?rhs")
proof
  assume ?lhs
  then obtain i where i: "i < 8" "atpic_pins a ! i = p" "\<not> bit (atpic_serviced a) p"
      "pin_eligible a p"
    and before: "\<And>j. j < i \<Longrightarrow> \<not> bit (atpic_serviced a) (atpic_pins a ! j) \<and>
      \<not> pin_eligible a (atpic_pins a ! j)"
    by (auto simp: vatpic_get_highest_irrpin_def irrpin_scan_Some)
  have rank_p: "pin_rank a p = i" using i(1,2) pin_rank_nth by blast
  have "\<not> bit (atpic_serviced a) q \<and> \<not> pin_eligible a q"
    if "q < 8" and "pin_rank a q < pin_rank a p" for q
    using before [of "pin_rank a q"] that by (simp add: rank_p nth_pin_rank)
  with i show ?rhs using irrpin_Some_less [OF \<open>?lhs\<close>] by simp
next
  assume r: ?rhs
  have "\<not> bit (atpic_serviced a) (atpic_pins a ! j) \<and> \<not> pin_eligible a (atpic_pins a ! j)"
    if "j < pin_rank a p" for j
  proof -
    have "j < 8" using that pin_rank_less [of a p] by linarith
    then show ?thesis using r that by (simp add: pin_rank_nth)
  qed
  then show ?lhs using r
    by (auto simp: vatpic_get_highest_irrpin_def irrpin_scan_Some nth_pin_rank
        intro!: exI [of _ "pin_rank a p"])
qed

lemma isrpin_Some: "vatpic_get_highest_isrpin a = Some p \<Longrightarrow> p < 8 \<and> bit (ap_service a) p"
  by (auto simp: vatpic_get_highest_isrpin_def find_Some_iff)

section \<open>The notification recursion\<close>

lemma upd_atpic_simps [simp]:
  "vp_atpic (upd_atpic i a v) = (vp_atpic v)(i := a)"
  "vp_elc (upd_atpic i a v) = vp_elc v"
  "vp_out (upd_atpic i a v) = vp_out v"
  by (simp_all add: upd_atpic_def)

lemma notify_master_slave [simp]: "vp_atpic (notify_master v) (Suc 0) = vp_atpic v (Suc 0)"
  by (simp add: notify_master_def Let_def)

lemma notify_master_elc [simp]: "vp_elc (notify_master v) = vp_elc v"
  by (simp add: notify_master_def Let_def)

lemma pin_latch_other [simp]: "i \<noteq> pin div 8 \<Longrightarrow> vp_atpic (pin_latch v pin b) i = vp_atpic v i"
  by (simp add: pin_latch_def Let_def)

lemma pin_latch_elc [simp]: "vp_elc (pin_latch v pin b) = vp_elc v"
  by (simp add: pin_latch_def Let_def)

lemma pin_latch_raised [simp]:
  "ap_intr_raised (vp_atpic (pin_latch v pin b) i) = ap_intr_raised (vp_atpic v i)"
  by (simp add: pin_latch_def Let_def)

lemma notify_n_raised:
  "ap_intr_raised (vp_atpic v 1) \<Longrightarrow> vatpic_notify_intr_n d v = notify_master v"
  by (simp add: vatpic_notify_intr_n.simps)

lemma set_pinstate_n_raised:
  "ap_intr_raised (vp_atpic v 1) \<Longrightarrow>
     vatpic_set_pinstate_n d v pin b = notify_master (pin_latch v pin b)"
  by (simp add: vatpic_set_pinstate_n.simps notify_n_raised)

lemma notify_n_Suc: "vatpic_notify_intr_n (Suc d) v = vatpic_notify_intr v"
  by (simp add: vatpic_notify_intr_def vatpic_notify_intr_n.simps Let_def set_pinstate_n_raised)

lemma set_pinstate_n_Suc: "vatpic_set_pinstate_n (Suc d) v pin b = vatpic_set_pinstate v pin b"
  by (simp add: vatpic_set_pinstate_def vatpic_set_pinstate_n.simps notify_n_Suc)

lemma vatpic_set_pinstate_eq:
  "vatpic_set_pinstate v pin b = vatpic_notify_intr (pin_latch v pin b)"
  by (simp add: vatpic_set_pinstate_def vatpic_set_pinstate_n.simps vatpic_notify_intr_def)

lemma vatpic_notify_intr_eq:
  "vatpic_notify_intr v =
     notify_master
       (let a = vp_atpic v 1
        in if \<not> ap_intr_raised a \<and> vatpic_get_highest_irrpin a \<noteq> None
           then (let v = upd_atpic 1 (a\<lparr>ap_intr_raised := True\<rparr>) v
                 in vatpic_set_pinstate (vatpic_set_pinstate v 2 True) 2 False)
           else v)"
  by (simp add: vatpic_notify_intr_def vatpic_notify_intr_n.simps Let_def set_pinstate_n_raised
      vatpic_set_pinstate_def)

text \<open>The non-recursive shape the proofs use: raise, then two latches of pin 2.\<close>

definition cascade :: "vatpic \<Rightarrow> vatpic" where
  "cascade v =
     (let v = upd_atpic 1 ((vp_atpic v 1)\<lparr>ap_intr_raised := True\<rparr>) v
      in notify_master (pin_latch (notify_master (pin_latch v 2 True)) 2 False))"

definition slave_wants :: "vatpic \<Rightarrow> bool" where
  "slave_wants v \<longleftrightarrow>
     \<not> ap_intr_raised (vp_atpic v 1) \<and> vatpic_get_highest_irrpin (vp_atpic v 1) \<noteq> None"

lemma vatpic_notify_intr_flat:
  "vatpic_notify_intr v = notify_master (if slave_wants v then cascade v else v)"
  by (simp add: vatpic_notify_intr_def vatpic_notify_intr_n.simps Let_def set_pinstate_n_raised
      cascade_def slave_wants_def)


section \<open>Frame of the notification path\<close>

text \<open>What pin changes and notification never touch: everything but the pin counters, the request
  register and the raised flag.\<close>

definition atpic_cfg :: "atpic \<Rightarrow> atpic" where
  "atpic_cfg a = a\<lparr>ap_acnt := (\<lambda>_. 0), ap_request := 0, ap_intr_raised := False\<rparr>"

lemma atpic_cfg_eqD:
  assumes "atpic_cfg a = atpic_cfg b"
  shows "ap_ready a = ap_ready b" "ap_icw_num a = ap_icw_num b" "ap_aeoi a = ap_aeoi b"
    "ap_sfn a = ap_sfn b" "ap_irq_base a = ap_irq_base b" "ap_service a = ap_service b"
    "ap_mask a = ap_mask b" "ap_smm a = ap_smm b" "ap_lowprio a = ap_lowprio b"
    "ap_rotate a = ap_rotate b" "ap_poll a = ap_poll b"
  using assms by (cases a; cases b; simp add: atpic_cfg_def)+

lemma cfg_pin_latch [simp]: "atpic_cfg (vp_atpic (pin_latch v pin b) i) = atpic_cfg (vp_atpic v i)"
  by (simp add: pin_latch_def Let_def atpic_cfg_def)

lemma cfg_notify_master [simp]:
  "atpic_cfg (vp_atpic (notify_master v) i) = atpic_cfg (vp_atpic v i)"
  by (simp add: notify_master_def Let_def atpic_cfg_def)

lemma cfg_cascade [simp]: "atpic_cfg (vp_atpic (cascade v) i) = atpic_cfg (vp_atpic v i)"
  by (simp add: cascade_def Let_def) (simp add: atpic_cfg_def)

lemma cfg_notify [simp]: "atpic_cfg (vp_atpic (vatpic_notify_intr v) i) = atpic_cfg (vp_atpic v i)"
  by (simp add: vatpic_notify_intr_flat)

lemma cfg_set_pinstate [simp]:
  "atpic_cfg (vp_atpic (vatpic_set_pinstate v pin b) i) = atpic_cfg (vp_atpic v i)"
  by (simp add: vatpic_set_pinstate_eq)

lemma elc_cascade [simp]: "vp_elc (cascade v) = vp_elc v"
  by (simp add: cascade_def Let_def)

lemma elc_notify [simp]: "vp_elc (vatpic_notify_intr v) = vp_elc v"
  by (simp add: vatpic_notify_intr_flat)

lemma elc_set_pinstate [simp]: "vp_elc (vatpic_set_pinstate v pin b) = vp_elc v"
  by (simp add: vatpic_set_pinstate_eq)

section \<open>Pin counters\<close>

definition vatpic_cnt :: "vatpic \<Rightarrow> nat \<Rightarrow> int" where
  "vatpic_cnt v q = ap_acnt (vp_atpic v (q div 8)) (q mod 8)"

lemma acnt_pin_latch:
  "ap_acnt (vp_atpic (pin_latch v p b) i) =
     (if i = p div 8
      then (ap_acnt (vp_atpic v i))
             (p mod 8 := ap_acnt (vp_atpic v i) (p mod 8) + (if b then 1 else -1))
      else ap_acnt (vp_atpic v i))"
  by (cases b) (auto simp: pin_latch_def Let_def)

lemma cnt_pin_latch: "vatpic_cnt (pin_latch v p b) q = vatpic_cnt v q + line_delta (p, b) q"
proof (cases "p = q")
  case True
  then show ?thesis by (simp add: vatpic_cnt_def acnt_pin_latch line_delta_def)
next
  case False
  then have "q div 8 = p div 8 \<Longrightarrow> q mod 8 \<noteq> p mod 8"
    by (metis mult_div_mod_eq)
  with False show ?thesis by (simp add: vatpic_cnt_def acnt_pin_latch line_delta_def)
qed

lemma cnt_notify_master [simp]: "vatpic_cnt (notify_master v) q = vatpic_cnt v q"
  by (simp add: vatpic_cnt_def notify_master_def Let_def)

lemma cnt_cascade [simp]: "vatpic_cnt (cascade v) q = vatpic_cnt v q"
proof -
  have "vatpic_cnt (upd_atpic 1 ((vp_atpic v 1)\<lparr>ap_intr_raised := True\<rparr>) v) q = vatpic_cnt v q"
    by (simp add: vatpic_cnt_def)
  then show ?thesis by (simp add: cascade_def Let_def cnt_pin_latch line_delta_def)
qed

lemma cnt_notify [simp]: "vatpic_cnt (vatpic_notify_intr v) q = vatpic_cnt v q"
  by (simp add: vatpic_notify_intr_flat)

interpretation pic_pins: pin_counter vatpic_set_pinstate vatpic_cnt "\<lambda>p. p < 16"
  by unfold_locales (simp add: vatpic_set_pinstate_eq cnt_pin_latch)

section \<open>No eligible interrupt goes unannounced\<close>

definition vatpic_notified :: "vatpic \<Rightarrow> bool" where
  "vatpic_notified v \<longleftrightarrow>
     (\<forall>i < 2. ap_intr_raised (vp_atpic v i) \<or> vatpic_get_highest_irrpin (vp_atpic v i) = None)"

lemma less_2_cases_nat: "(i::nat) < 2 \<Longrightarrow> i = 0 \<or> i = 1"
  by arith

lemma notify_master_raised:
  "ap_intr_raised (vp_atpic (notify_master v) 0) \<or>
     vatpic_get_highest_irrpin (vp_atpic (notify_master v) 0) = None"
  by (auto simp: notify_master_def Let_def)

lemma cascade_slave [simp]:
  "vp_atpic (cascade v) (Suc 0) = (vp_atpic v (Suc 0))\<lparr>ap_intr_raised := True\<rparr>"
  by (simp add: cascade_def Let_def)

lemma notified_notify: "vatpic_notified (vatpic_notify_intr v)"
  unfolding vatpic_notified_def
proof (intro allI impI)
  fix i :: nat assume "i < 2"
  then consider "i = 0" | "i = 1" using less_2_cases_nat by blast
  then show "ap_intr_raised (vp_atpic (vatpic_notify_intr v) i) \<or>
      vatpic_get_highest_irrpin (vp_atpic (vatpic_notify_intr v) i) = None"
  proof cases
    case 1
    then show ?thesis by (simp only: vatpic_notify_intr_flat notify_master_raised)
  next
    case 2
    then show ?thesis by (cases "slave_wants v") (simp_all add: vatpic_notify_intr_flat, simp add: slave_wants_def)
  qed
qed

lemma notified_set_pinstate: "vatpic_notified (vatpic_set_pinstate v pin b)"
  by (simp add: vatpic_set_pinstate_eq notified_notify)

lemma notified_intr_accepted: "vatpic_notified (vatpic_intr_accepted v vector)"
  by (simp add: vatpic_intr_accepted_def Let_def notified_notify)


section \<open>Reachable states and the invariant\<close>

text \<open>One rule per entry point of the component: the guest's port accesses, the devices' line
  changes, the trigger configuration and the acknowledge by the vcpu.\<close>

inductive vatpic_step :: "vatpic \<Rightarrow> vatpic \<Rightarrow> bool" where
  master_io: "vatpic_master_handler v is_in port bytes eax = (error, eax', v') \<Longrightarrow> vatpic_step v v'"
| slave_io: "vatpic_slave_handler v is_in port bytes eax = (error, eax', v') \<Longrightarrow> vatpic_step v v'"
| elc_io: "vatpic_elc_handler v is_in port bytes eax = (error, eax', v') \<Longrightarrow> vatpic_step v v'"
| irq_line: "vatpic_set_irqstate v irq st = (error, v') \<Longrightarrow> vatpic_step v v'"
| irq_trigger: "vatpic_set_irq_trigger v irq trigger = (error, v') \<Longrightarrow> vatpic_step v v'"
| intr_ack: "vatpic_step v (vatpic_intr_accepted v vector)"

inductive vatpic_reachable :: "vatpic \<Rightarrow> bool" where
  init: "vatpic_reachable vatpic_init"
| step: "vatpic_reachable v \<Longrightarrow> vatpic_step v v' \<Longrightarrow> vatpic_reachable v'"

definition atpic_ok :: "nat \<Rightarrow> atpic \<Rightarrow> bool" where
  "atpic_ok i a \<longleftrightarrow> ap_lowprio a < 8 \<and> ap_irq_base a mod 8 = 0 \<and> ap_irq_base a < 256 \<and>
     ap_icw_num a \<le> 4 \<and> (ap_ready a \<longrightarrow> ap_icw_num a = 0) \<and> (ap_sfn a \<longrightarrow> i = 0)"

definition elc_ok :: "(nat \<Rightarrow> u8) \<Rightarrow> bool" where
  "elc_ok e \<longleftrightarrow> (\<forall>irq \<in> {0, 1, 2, 8, 13}. \<not> bit (e (irq div 8)) (irq mod 8))"

definition vatpic_inv :: "vatpic \<Rightarrow> bool" where
  "vatpic_inv v \<longleftrightarrow> (\<forall>i < 2. atpic_ok i (vp_atpic v i)) \<and> elc_ok (vp_elc v)"

lemma atpic_ok_cfg: "atpic_cfg a = atpic_cfg b \<Longrightarrow> atpic_ok i a = atpic_ok i b"
  by (auto simp: atpic_ok_def dest: atpic_cfg_eqD)

lemma inv_cfg:
  assumes "\<And>i. atpic_cfg (vp_atpic v' i) = atpic_cfg (vp_atpic v i)" and "vp_elc v' = vp_elc v"
  shows "vatpic_inv v' = vatpic_inv v"
  using assms by (simp add: vatpic_inv_def atpic_ok_cfg [OF assms(1)])

lemma inv_notify [simp]: "vatpic_inv (vatpic_notify_intr v) = vatpic_inv v"
  by (rule inv_cfg) simp_all

lemma inv_set_pinstate [simp]: "vatpic_inv (vatpic_set_pinstate v pin b) = vatpic_inv v"
  by (rule inv_cfg) simp_all

lemma inv_upd: "vatpic_inv v \<Longrightarrow> atpic_ok i a \<Longrightarrow> vatpic_inv (upd_atpic i a v)"
  by (simp add: vatpic_inv_def)

lemma inv_chip: "vatpic_inv v \<Longrightarrow> i < 2 \<Longrightarrow> atpic_ok i (vp_atpic v i)"
  by (simp add: vatpic_inv_def)

lemma unat_and_f8: "unat (val AND 0xf8 :: u8) mod 8 = 0" "unat (val AND 0xf8 :: u8) < 256"
proof -
  have "take_bit 3 (val AND 0xf8) = 0"
    by (simp add: take_bit_and)
  then have "take_bit 3 (unat (val AND 0xf8)) = 0"
    by (metis unsigned_0 unsigned_take_bit_eq)
  then show "unat (val AND 0xf8 :: u8) mod 8 = 0"
    by (simp add: take_bit_eq_mod)
  show "unat (val AND 0xf8 :: u8) < 256"
    using unsigned_less [of "val AND 0xf8", where 'a = nat] by simp
qed

lemma ok_pin_accepted: "atpic_ok i a \<Longrightarrow> p < 8 \<Longrightarrow> atpic_ok i (vatpic_pin_accepted a p)"
  by (simp add: atpic_ok_def vatpic_pin_accepted_def Let_def)

lemma ok_icw1: "atpic_ok i a \<Longrightarrow> vatpic_icw1 a val = (e, a') \<Longrightarrow> atpic_ok i a' \<and> \<not> ap_ready a'"
  by (auto simp: vatpic_icw1_def Let_def atpic_ok_def split: if_splits)

lemma ok_icw2: "atpic_ok i a \<Longrightarrow> ap_icw_num a = 2 \<Longrightarrow> vatpic_icw2 a val = (e, a') \<Longrightarrow> atpic_ok i a'"
  using unat_and_f8 by (auto simp: vatpic_icw2_def atpic_ok_def)

lemma ok_icw3: "atpic_ok i a \<Longrightarrow> ap_icw_num a = 3 \<Longrightarrow> vatpic_icw3 a val = (e, a') \<Longrightarrow> atpic_ok i a'"
  by (auto simp: vatpic_icw3_def atpic_ok_def)

lemma ok_icw4: "atpic_ok i a \<Longrightarrow> vatpic_icw4 (master_atpic i) a val = (e, a') \<Longrightarrow> atpic_ok i a'"
  by (auto simp: vatpic_icw4_def Let_def master_atpic_def atpic_ok_def split: if_splits)

lemma ok_ocw1: "atpic_ok i a \<Longrightarrow> vatpic_ocw1 a val = (e, a') \<Longrightarrow> atpic_ok i a'"
  by (auto simp: vatpic_ocw1_def atpic_ok_def)

lemma ok_ocw2: "atpic_ok i a \<Longrightarrow> vatpic_ocw2 a val = (e, a') \<Longrightarrow> atpic_ok i a'"
  using isrpin_Some
  by (auto simp: vatpic_ocw2_def Let_def atpic_ok_def split: if_splits option.splits)

lemma ok_ocw3: "atpic_ok i a \<Longrightarrow> vatpic_ocw3 a val = (e, a') \<Longrightarrow> atpic_ok i a'"
  by (auto simp: vatpic_ocw3_def Let_def atpic_ok_def split: if_splits)

lemmas ok_words = ok_icw1 ok_icw2 ok_icw3 ok_icw4 ok_ocw1 ok_ocw2 ok_ocw3

text \<open>The command-word dispatch of \<^verbatim>\<open>vatpic_write\<close>, separated from the notification.\<close>

definition write_chip :: "nat \<Rightarrow> atpic \<Rightarrow> nat \<Rightarrow> u8 \<Rightarrow> int \<times> atpic" where
  "write_chip i a port val =
     (if odd port
      then (if ap_icw_num a = 2 then vatpic_icw2 a val
            else if ap_icw_num a = 3 then vatpic_icw3 a val
            else if ap_icw_num a = 4 then vatpic_icw4 (master_atpic i) a val
            else vatpic_ocw1 a val)
      else (let (error, a) = (if bit val 4 then vatpic_icw1 a val else (0, a))
            in if ap_ready a
               then (if bit val 3 then vatpic_ocw3 a val else vatpic_ocw2 a val)
               else (error, a)))"

lemma vatpic_write_chip:
  "vatpic_write v i port eax =
     (case write_chip i (vp_atpic v i) port (ucast eax) of
        (error, a) \<Rightarrow> (error, if ap_ready a then vatpic_notify_intr (upd_atpic i a v)
                             else upd_atpic i a v))"
  by (simp add: vatpic_write_def write_chip_def Let_def)

lemma ok_write_chip: "atpic_ok i a \<Longrightarrow> write_chip i a port val = (e, a') \<Longrightarrow> atpic_ok i a'"
  by (auto simp: write_chip_def split: if_splits prod.splits dest: ok_words)

lemma inv_chip_handler:
  assumes "vatpic_inv v" and "i < 2"
    and "vatpic_chip_handler i v is_in port bytes eax = (error, eax', v')"
  shows "vatpic_inv v'"
proof -
  note ok = inv_chip [OF assms(1,2)]
  have ok_poll: "atpic_ok i ((vp_atpic v i)\<lparr>ap_poll := False\<rparr>)"
    using ok by (simp add: atpic_ok_def)
  have rd: "vatpic_inv (snd (vatpic_read v i port))"
    using assms(1) ok_poll
    by (auto simp: vatpic_read_def Let_def split: option.splits intro!: inv_upd ok_pin_accepted
        dest!: irrpin_Some_less)
  have wr: "vatpic_inv (snd (vatpic_write v i port eax))"
    using assms(1) ok_write_chip [OF ok]
    by (auto simp: vatpic_write_chip intro!: inv_upd split: prod.splits)
  show ?thesis using assms rd wr
    by (auto simp: vatpic_chip_handler_def split: if_splits prod.splits)
qed

lemma inv_elc_handler:
  assumes "vatpic_inv v" and "vatpic_elc_handler v is_in port bytes eax = (error, eax', v')"
  shows "vatpic_inv v'"
  using assms
  by (auto simp: vatpic_elc_handler_def vatpic_inv_def elc_ok_def Let_def bit_ucast_iff bit_and_iff
      split: if_splits)

lemma inv_set_irqstate:
  "vatpic_inv v \<Longrightarrow> vatpic_set_irqstate v irq st = (error, v') \<Longrightarrow> vatpic_inv v'"
  by (auto simp: vatpic_set_irqstate_def Let_def split: if_splits irqstate.splits)

lemma elc_ok_upd:
  assumes "elc_ok e" and "irq \<notin> {0, 1, 2, 8, 13}" and "irq < 16"
  shows "elc_ok (e(irq div 8 := set_bit (irq mod 8) (e (irq div 8))))"
proof -
  have "\<not> bit ((e(irq div 8 := set_bit (irq mod 8) (e (irq div 8)))) (q div 8)) (q mod 8)"
    if "q \<in> {0, 1, 2, 8, 13}" for q
  proof -
    have "\<not> bit (e (q div 8)) (q mod 8)" using assms(1) that unfolding elc_ok_def by blast
    moreover have "q \<noteq> irq" using that assms(2) by blast
    then have "q div 8 = irq div 8 \<Longrightarrow> irq mod 8 \<noteq> q mod 8" by (metis mult_div_mod_eq)
    ultimately show ?thesis by (auto simp: bv_simps)
  qed
  then show ?thesis unfolding elc_ok_def by blast
qed

lemma inv_set_irq_trigger:
  assumes "vatpic_inv v" and "vatpic_set_irq_trigger v irq trigger = (error, v')"
  shows "vatpic_inv v'"
proof (cases "0 \<le> irq \<and> irq \<le> 15 \<and> trigger = LEVEL_TRIGGER \<and> irq \<notin> {0, 1, 2, 8, 13}")
  case True
  then have "nat irq \<notin> {0, 1, 2, 8, 13}" "nat irq < 16" by auto
  from elc_ok_upd [OF _ this, of "vp_elc v"] show ?thesis using assms True
    by (auto simp: vatpic_set_irq_trigger_def vatpic_inv_def Let_def)
next
  case False
  then show ?thesis using assms
    by (auto simp: vatpic_set_irq_trigger_def vatpic_inv_def elc_ok_def Let_def bv_simps
        split: if_splits)
qed

lemma inv_intr_accepted: "vatpic_inv v \<Longrightarrow> vatpic_inv (vatpic_intr_accepted v vector)"
  by (auto simp: vatpic_intr_accepted_def Let_def intro!: inv_upd ok_pin_accepted inv_chip)

lemma inv_step: "vatpic_step v v' \<Longrightarrow> vatpic_inv v \<Longrightarrow> vatpic_inv v'"
  by (induction rule: vatpic_step.induct)
    (auto simp: vatpic_master_handler_def vatpic_slave_handler_def
      elim: inv_chip_handler [rotated 2] inv_elc_handler [rotated] inv_set_irqstate [rotated]
        inv_set_irq_trigger [rotated] intro: inv_intr_accepted)

lemma inv_init: "vatpic_inv vatpic_init"
  by (simp add: vatpic_inv_def vatpic_init_def atpic_zero_def atpic_ok_def elc_ok_def)

lemma inv_reachable: "vatpic_reachable v \<Longrightarrow> vatpic_inv v"
  by (induction rule: vatpic_reachable.induct) (auto intro: inv_init inv_step)


section \<open>Acknowledge and end of interrupt\<close>

lemma request_notify_slave:
  "ap_request (vp_atpic (vatpic_notify_intr v) (Suc 0)) = ap_request (vp_atpic v (Suc 0))"
  by (simp add: vatpic_notify_intr_flat)

lemma request_pin_latch_2:
  "p \<noteq> 2 \<Longrightarrow> bit (ap_request (vp_atpic (pin_latch v 2 b) 0)) p = bit (ap_request (vp_atpic v 0)) p"
  by (simp add: pin_latch_def Let_def bv_simps)

lemma request_notify_master [simp]:
  "ap_request (vp_atpic (notify_master v) i) = ap_request (vp_atpic v i)"
  by (simp add: notify_master_def Let_def)

lemma request_notify:
  "p \<noteq> 2 \<Longrightarrow>
     bit (ap_request (vp_atpic (vatpic_notify_intr v) 0)) p = bit (ap_request (vp_atpic v 0)) p"
  by (simp add: vatpic_notify_intr_flat cascade_def Let_def request_pin_latch_2)

lemma service_notify [simp]:
  "ap_service (vp_atpic (vatpic_notify_intr v) i) = ap_service (vp_atpic v i)"
  by (rule atpic_cfg_eqD(6)) simp

lemma vector_split: "(base::nat) mod 8 = 0 \<Longrightarrow> p < 8 \<Longrightarrow> (base + p) mod 8 = p"
  by (simp add: mod_add_eq [symmetric])

lemma accepted_service:
  "\<not> ap_aeoi a \<Longrightarrow> ap_service (vatpic_pin_accepted a p) = set_bit p (ap_service a)"
  by (simp add: vatpic_pin_accepted_def Let_def)

lemma accepted_request:
  "ap_request (vatpic_pin_accepted a p) =
     (if ap_acnt a p = 0 then unset_bit p (ap_request a) else ap_request a)"
  by (simp add: vatpic_pin_accepted_def Let_def)

lemma master_cycle:
  assumes "vatpic_get_highest_irrpin (vp_atpic v 0) = Some p" "p \<noteq> 2" "vatpic_inv v"
    and "ap_irq_base (vp_atpic v 0) \<noteq> ap_irq_base (vp_atpic v 1)"
  shows "vatpic_pending_intr v = ap_irq_base (vp_atpic v 0) + p"
    and "vatpic_intr_accepted v (vatpic_pending_intr v) =
      vatpic_notify_intr (upd_atpic 0 (vatpic_pin_accepted (vp_atpic v 0) p) v)"
proof -
  show vec: "vatpic_pending_intr v = ap_irq_base (vp_atpic v 0) + p"
    using assms by (simp add: vatpic_pending_intr_def)
  have "(ap_irq_base (vp_atpic v 0) + p) mod 8 = p"
    using irrpin_Some_less [OF assms(1)] inv_chip [OF assms(3), of 0]
    by (auto simp: atpic_ok_def intro: vector_split)
  then show "vatpic_intr_accepted v (vatpic_pending_intr v) =
      vatpic_notify_intr (upd_atpic 0 (vatpic_pin_accepted (vp_atpic v 0) p) v)"
    using assms(4) by (simp add: vec vatpic_intr_accepted_def Let_def)
qed

lemma slave_cycle:
  assumes "vatpic_get_highest_irrpin (vp_atpic v 0) = Some 2"
    and "vatpic_get_highest_irrpin (vp_atpic v 1) = Some p" "vatpic_inv v"
  shows "vatpic_pending_intr v = ap_irq_base (vp_atpic v 1) + p"
    and "vatpic_intr_accepted v (vatpic_pending_intr v) =
      vatpic_notify_intr (upd_atpic 0 (vatpic_pin_accepted (vp_atpic v 0) 2)
        (upd_atpic 1 (vatpic_pin_accepted (vp_atpic v 1) p) v))"
proof -
  show vec: "vatpic_pending_intr v = ap_irq_base (vp_atpic v 1) + p"
    using assms by (simp add: vatpic_pending_intr_def)
  have "(ap_irq_base (vp_atpic v 1) + p) mod 8 = p"
    using irrpin_Some_less [OF assms(2)] inv_chip [OF assms(3), of 1]
    by (auto simp: atpic_ok_def intro: vector_split)
  then show "vatpic_intr_accepted v (vatpic_pending_intr v) =
      vatpic_notify_intr (upd_atpic 0 (vatpic_pin_accepted (vp_atpic v 0) 2)
        (upd_atpic 1 (vatpic_pin_accepted (vp_atpic v 1) p) v))"
    by (simp add: vec vatpic_intr_accepted_def Let_def)
qed

lemma isrpin_None: "\<not> ap_smm a \<Longrightarrow> vatpic_get_highest_isrpin a = None \<Longrightarrow> ap_service a = 0"
  using word_nonzero_iff_bit [of "ap_service a"]
  by (auto simp: vatpic_get_highest_isrpin_def find_None_iff set_atpic_pins)

lemma isrpin_rank:
  assumes "vatpic_get_highest_isrpin a = Some p" "\<not> ap_smm a" "q < 8" "bit (ap_service a) q"
  shows "pin_rank a p \<le> pin_rank a q"
proof -
  obtain i where i: "i < 8" "p = atpic_pins a ! i"
    and before: "\<And>j. j < i \<Longrightarrow> \<not> bit (ap_service a) (atpic_pins a ! j)"
    using assms(1,2) by (auto simp: vatpic_get_highest_isrpin_def find_Some_iff)
  have "\<not> pin_rank a q < i"
    using before [of "pin_rank a q"] assms(3,4) by (auto simp: nth_pin_rank)
  then show ?thesis by (simp add: i pin_rank_nth)
qed

lemma ocw2_nonspecific_eoi:
  "snd (vatpic_ocw2 a 0x20) =
     (case vatpic_get_highest_isrpin a of
        None \<Rightarrow> a\<lparr>ap_rotate := False\<rparr>
      | Some p \<Rightarrow> a\<lparr>ap_rotate := False, ap_service := unset_bit p (ap_service a)\<rparr>)"
  by (simp add: vatpic_ocw2_def Let_def vatpic_get_highest_isrpin_def atpic_pins_def
      split: option.splits)

lemma write_ocw2_eoi:
  assumes "ap_ready (vp_atpic v i)" "even port"
  shows "ap_service (vp_atpic (snd (vatpic_write v i port 0x20)) i) =
    ap_service (snd (vatpic_ocw2 (vp_atpic v i) 0x20))"
  using assms by (simp add: vatpic_write_chip write_chip_def split: prod.splits)

lemma aeoi_write_chip: "ap_aeoi a \<Longrightarrow> write_chip i a port val = (e, a') \<Longrightarrow> ap_aeoi a'"
  by (auto simp: write_chip_def vatpic_icw1_def vatpic_icw2_def vatpic_icw3_def vatpic_icw4_def
      vatpic_ocw1_def vatpic_ocw2_def vatpic_ocw3_def Let_def split: if_splits option.splits)

lemma aeoi_notify [simp]: "ap_aeoi (vp_atpic (vatpic_notify_intr v) i) = ap_aeoi (vp_atpic v i)"
  by (rule atpic_cfg_eqD(3)) simp


section \<open>Properties\<close>

text \<open>A programmed pair for the witnesses: both chips initialised as a PC BIOS does, with
  \<open>r0\<close> and \<open>r1\<close> in their request registers.\<close>

definition pic_demo :: "u8 \<Rightarrow> u8 \<Rightarrow> vatpic" where
  "pic_demo r0 r1 = vatpic_init
     \<lparr>vp_atpic := (\<lambda>i. atpic_zero\<lparr>ap_ready := True, ap_lowprio := 7,
        ap_irq_base := (if i = 0 then 0x20 else 0x28), ap_request := (if i = 0 then r0 else r1)\<rparr>)\<rparr>"

lemma pic_demo_inv: "vatpic_inv (pic_demo r0 r1)"
  by (simp add: vatpic_inv_def pic_demo_def vatpic_init_def atpic_zero_def atpic_ok_def elc_ok_def)

lemma pic_demo_fields [simp]:
  "ap_ready (vp_atpic (pic_demo r0 r1) i)" "\<not> ap_aeoi (vp_atpic (pic_demo r0 r1) i)"
  "\<not> ap_smm (vp_atpic (pic_demo r0 r1) i)" "ap_service (vp_atpic (pic_demo r0 r1) i) = 0"
  "ap_irq_base (vp_atpic (pic_demo r0 r1) i) = (if i = 0 then 0x20 else 0x28)"
  "ap_acnt (vp_atpic (pic_demo r0 r1) i) p = 0" "ap_icw_num (vp_atpic (pic_demo r0 r1) i) = 0"
  by (simp_all add: pic_demo_def atpic_zero_def)

lemmas pic_demo_eval = pic_demo_def vatpic_init_def atpic_zero_def vatpic_get_highest_irrpin_def
  atpic_pins_def atpic_serviced_def upt_rec

text \<open>C24. Priority resolution. \<open>vatpic_get_highest_irrpin\<close> returns a pin exactly when that pin
  is requested and unmasked, is not itself in service, and every pin of higher priority in the
  rotating order is neither in service nor eligible (in service as adjusted for special fully
  nested and special mask mode).\<close>

theorem vatpic_priority_spec:
  "vatpic_get_highest_irrpin a = Some p \<longleftrightarrow>
     p < 8 \<and> bit (ap_request a) p \<and> \<not> bit (ap_mask a) p \<and> \<not> bit (atpic_serviced a) p \<and>
     (\<forall>q < 8. pin_rank a q < pin_rank a p \<longrightarrow>
        \<not> bit (atpic_serviced a) q \<and> \<not> (bit (ap_request a) q \<and> \<not> bit (ap_mask a) q))"
  using irrpin_iff_rank by (simp add: pin_eligible_def)

theorem vatpic_priority_spec_witness:
  "vatpic_get_highest_irrpin (vp_atpic (pic_demo 0x28 0) 0) = Some 3 \<and>
   pin_rank (vp_atpic (pic_demo 0x28 0) 0) 1 < pin_rank (vp_atpic (pic_demo 0x28 0) 0) 3 \<and>
   \<not> bit (atpic_serviced (vp_atpic (pic_demo 0x28 0) 0)) 1"
proof -
  let ?a = "vp_atpic (pic_demo 0x28 0) 0"
  have h: "vatpic_get_highest_irrpin ?a = Some 3"
    by (simp add: pic_demo_eval)
  moreover have r: "pin_rank ?a 1 < pin_rank ?a 3"
    by (simp add: pin_rank_def pic_demo_def)
  moreover have "\<not> bit (atpic_serviced ?a) 1"
    using vatpic_priority_spec [of ?a 3] h r by auto
  ultimately show ?thesis by blast
qed

text \<open>C31. The mutual recursion between \<open>vatpic_notify_intr\<close> and \<open>vatpic_set_pinstate\<close>
  terminates: any depth bound from 1 on gives the same result, and the two functions satisfy the
  equations of the source, in which the slave's request is cascaded by asserting and deasserting
  pin 2 of the master.\<close>

theorem vatpic_depth_enough:
  "vatpic_notify_intr_n (Suc d) v = vatpic_notify_intr v \<and>
   vatpic_set_pinstate_n (Suc d) v pin b = vatpic_set_pinstate v pin b \<and>
   vatpic_set_pinstate v pin b = vatpic_notify_intr (pin_latch v pin b) \<and>
   vatpic_notify_intr v =
     notify_master
       (let a = vp_atpic v 1
        in if \<not> ap_intr_raised a \<and> vatpic_get_highest_irrpin a \<noteq> None
           then (let v = upd_atpic 1 (a\<lparr>ap_intr_raised := True\<rparr>) v
                 in vatpic_set_pinstate (vatpic_set_pinstate v 2 True) 2 False)
           else v)"
  using notify_n_Suc set_pinstate_n_Suc vatpic_set_pinstate_eq vatpic_notify_intr_eq by blast

text \<open>C16. No interrupt is lost: after every line change of an initialised chip, after every
  acknowledge and after every command-word write that leaves the written chip initialised, each of
  the two chips has either raised its output or has no eligible request.\<close>

theorem vatpic_no_lost_interrupt:
  "(0 \<le> irq \<and> irq \<le> 15 \<and> ap_ready (vp_atpic v (nat irq div 8)) \<longrightarrow>
      vatpic_notified (snd (vatpic_set_irqstate v irq st))) \<and>
   vatpic_notified (vatpic_intr_accepted v vector) \<and>
   (ap_ready (vp_atpic (snd (vatpic_write v i port eax)) i) \<longrightarrow>
      vatpic_notified (snd (vatpic_write v i port eax)))"
  by (auto simp: vatpic_set_irqstate_def Let_def notified_set_pinstate notified_intr_accepted
      vatpic_write_chip notified_notify split: irqstate.splits prod.splits if_splits)

theorem vatpic_no_lost_interrupt_witness:
  "vatpic_notified (snd (vatpic_set_irqstate (pic_demo 0 0) 9 IRQSTATE_PULSE)) \<and>
   vatpic_notified (snd (vatpic_write (pic_demo 0 0) 0 0x21 0xfe))"
proof -
  have "ap_ready (vp_atpic (pic_demo 0 0) (nat 9 div 8))" by simp
  moreover have "ap_ready (vp_atpic (snd (vatpic_write (pic_demo 0 0) 0 0x21 0xfe)) 0)"
    by (simp add: vatpic_write_chip write_chip_def vatpic_ocw1_def atpic_cfg_eqD(1) [OF cfg_notify])
  ultimately show ?thesis
    using vatpic_no_lost_interrupt [where irq = 9 and v = "pic_demo 0 0" and st = IRQSTATE_PULSE
        and i = 0 and port = "0x21" and eax = "0xfe"]
    by simp
qed

text \<open>In every reachable state the lowest-priority pin is a pin, the vector bases are multiples of
  eight below 256, an initialised chip is not inside an ICW sequence, only the master is in special
  fully nested mode, and the IRQs 0, 1, 2, 8 and 13 are edge triggered.\<close>

theorem vatpic_reachable_inv: "vatpic_reachable v \<Longrightarrow> vatpic_inv v"
  by (rule inv_reachable)

theorem vatpic_reachable_inv_witness:
  "vatpic_inv (snd (vatpic_set_irq_trigger vatpic_init 5 LEVEL_TRIGGER)) \<and>
   bit (vp_elc (snd (vatpic_set_irq_trigger vatpic_init 5 LEVEL_TRIGGER)) 0) 5"
proof -
  have "vatpic_reachable (snd (vatpic_set_irq_trigger vatpic_init 5 LEVEL_TRIGGER))"
    by (rule vatpic_reachable.step [OF vatpic_reachable.init])
      (rule vatpic_step.irq_trigger, rule surjective_pairing)
  then show ?thesis
    using vatpic_reachable_inv by (auto simp: vatpic_set_irq_trigger_def vatpic_init_def)
qed

text \<open>Acknowledge cycle. In a well-formed pair with different vector bases and no automatic EOI,
  when the highest-priority request is on a master pin other than 2, the reported vector is the
  master's base plus the pin, and accepting it puts the pin in service and clears an edge request;
  when it is the cascade pin, the vector is the slave's base plus the slave's pin and accepting it
  puts that pin in service on the slave and pin 2 on the master.\<close>

theorem vatpic_ack_cycle:
  assumes "vatpic_inv v" "\<not> ap_aeoi (vp_atpic v 0)" "\<not> ap_aeoi (vp_atpic v 1)"
    and "ap_irq_base (vp_atpic v 0) \<noteq> ap_irq_base (vp_atpic v 1)"
    and "vatpic_get_highest_irrpin (vp_atpic v 0) = Some p"
    and "p = 2 \<longrightarrow> vatpic_get_highest_irrpin (vp_atpic v 1) = Some q"
  shows "let vec = vatpic_pending_intr v; v' = vatpic_intr_accepted v vec
    in if p = 2
       then vec = ap_irq_base (vp_atpic v 1) + q \<and>
            ap_service (vp_atpic v' 1) = set_bit q (ap_service (vp_atpic v 1)) \<and>
            ap_service (vp_atpic v' 0) = set_bit 2 (ap_service (vp_atpic v 0)) \<and>
            (ap_acnt (vp_atpic v 1) q = 0 \<longrightarrow> \<not> bit (ap_request (vp_atpic v' 1)) q)
       else vec = ap_irq_base (vp_atpic v 0) + p \<and>
            ap_service (vp_atpic v' 0) = set_bit p (ap_service (vp_atpic v 0)) \<and>
            ap_service (vp_atpic v' 1) = ap_service (vp_atpic v 1) \<and>
            (ap_acnt (vp_atpic v 0) p = 0 \<longrightarrow> \<not> bit (ap_request (vp_atpic v' 0)) p)"
proof (cases "p = 2")
  case True
  with assms show ?thesis
    using slave_cycle [of v q]
    by (simp add: Let_def accepted_service accepted_request request_notify_slave bv_simps)
next
  case False
  with assms show ?thesis
    using master_cycle [of v p]
    by (simp add: Let_def accepted_service accepted_request request_notify bv_simps)
qed

theorem vatpic_ack_cycle_witness:
  "vatpic_pending_intr (pic_demo 0x04 0x20) = 0x2d \<and>
   bit (ap_service (vp_atpic (vatpic_intr_accepted (pic_demo 0x04 0x20) 0x2d) 1)) 5 \<and>
   bit (ap_service (vp_atpic (vatpic_intr_accepted (pic_demo 0x04 0x20) 0x2d) 0)) 2"
proof -
  let ?v = "pic_demo 0x04 0x20"
  have "vatpic_get_highest_irrpin (vp_atpic ?v 0) = Some 2"
    and "vatpic_get_highest_irrpin (vp_atpic ?v 1) = Some 5"
    by (simp_all add: pic_demo_eval)
  with vatpic_ack_cycle [of ?v 2 5] have
    "vatpic_pending_intr ?v = ap_irq_base (vp_atpic ?v 1) + 5 \<and>
     ap_service (vp_atpic (vatpic_intr_accepted ?v (vatpic_pending_intr ?v)) 1) =
       set_bit 5 (ap_service (vp_atpic ?v 1)) \<and>
     ap_service (vp_atpic (vatpic_intr_accepted ?v (vatpic_pending_intr ?v)) 0) =
       set_bit 2 (ap_service (vp_atpic ?v 0))"
    by (auto simp: pic_demo_inv Let_def)
  then show ?thesis by (auto simp: bv_simps)
qed

text \<open>A non-specific EOI clears the in-service bit of the highest-priority pin in service and no
  other bit; with nothing in service it changes no in-service bit.\<close>

theorem vatpic_nonspecific_eoi:
  assumes "ap_ready (vp_atpic v i)" "\<not> ap_smm (vp_atpic v i)" "even port"
  shows "let a = vp_atpic v i; s = ap_service (vp_atpic (snd (vatpic_write v i port 0x20)) i)
    in if ap_service a = 0 then s = 0
       else \<exists>p < 8. bit (ap_service a) p \<and> s = unset_bit p (ap_service a) \<and>
              (\<forall>q < 8. bit (ap_service a) q \<longrightarrow> pin_rank a p \<le> pin_rank a q)"
proof (cases "vatpic_get_highest_isrpin (vp_atpic v i)")
  case None
  then show ?thesis using assms isrpin_None [OF assms(2) None]
    by (simp add: Let_def write_ocw2_eoi ocw2_nonspecific_eoi)
next
  case (Some p)
  then have "p < 8 \<and> bit (ap_service (vp_atpic v i)) p" by (rule isrpin_Some)
  moreover from this have "ap_service (vp_atpic v i) \<noteq> 0" by auto
  ultimately show ?thesis using assms isrpin_rank [OF Some assms(2)] Some
    by (auto simp: Let_def write_ocw2_eoi ocw2_nonspecific_eoi)
qed

theorem vatpic_nonspecific_eoi_witness:
  "let v = upd_atpic 0 ((vp_atpic (pic_demo 0 0) 0)\<lparr>ap_service := 0x08\<rparr>) (pic_demo 0 0)
   in ap_service (vp_atpic (snd (vatpic_write v 0 0x20 0x20)) 0) = 0"
proof -
  let ?v = "upd_atpic 0 ((vp_atpic (pic_demo 0 0) 0)\<lparr>ap_service := 0x08\<rparr>) (pic_demo 0 0)"
  have "ap_ready (vp_atpic ?v 0)" and "\<not> ap_smm (vp_atpic ?v 0)" and "even (0x20 :: nat)"
    by simp_all
  from vatpic_nonspecific_eoi [OF this] obtain p where
    "p < 8" "bit (0x08 :: u8) p"
    "ap_service (vp_atpic (snd (vatpic_write ?v 0 0x20 0x20)) 0) = unset_bit p 0x08"
    by (auto simp: Let_def)
  moreover from this(1,2) have "p = 3" by (auto simp: less_Suc_eq numeral_eq_Suc)
  ultimately show ?thesis by simp
qed

text \<open>Programming a chip with the four initialisation words (ICW1 asking for cascade mode and
  ICW4, ICW4 asking for 8086 mode) succeeds at each word and leaves the chip ready, outside the ICW
  sequence, with the base taken from the high five bits of ICW2 and an empty mask.\<close>

theorem vatpic_init_sequence:
  assumes "bit w1 4" "w1 AND 2 = 0" "w1 AND 1 \<noteq> 0" "w4 AND 1 \<noteq> 0" "even port" "i < 2"
  shows "let (e1, v1) = vatpic_write v i port (ucast (w1 :: u8));
             (e2, v2) = vatpic_write v1 i (port + 1) (ucast (w2 :: u8));
             (e3, v3) = vatpic_write v2 i (port + 1) (ucast (w3 :: u8));
             (e4, v4) = vatpic_write v3 i (port + 1) (ucast (w4 :: u8));
             a = vp_atpic v4 i
         in [e1, e2, e3, e4] = [0, 0, 0, 0] \<and> ap_ready a \<and> ap_icw_num a = 0 \<and>
            ap_irq_base a = unat (w2 AND 0xf8) \<and> ap_mask a = 0 \<and> ap_lowprio a = 7"
proof -
  note word_defs = write_chip_def vatpic_icw1_def vatpic_icw2_def vatpic_icw3_def vatpic_icw4_def
  show ?thesis using assms
    by (simp add: Let_def vatpic_write_chip word_defs ucast_up_ucast_id is_up
        atpic_cfg_eqD [OF cfg_notify] split: prod.splits)
qed

theorem vatpic_init_sequence_witness:
  "let (e1, v1) = vatpic_write vatpic_init 0 0x20 0x11;
       (e2, v2) = vatpic_write v1 0 0x21 0x08;
       (e3, v3) = vatpic_write v2 0 0x21 0x04;
       (e4, v4) = vatpic_write v3 0 0x21 0x01
   in e4 = 0 \<and> ap_ready (vp_atpic v4 0) \<and> ap_irq_base (vp_atpic v4 0) = 8"
  using vatpic_init_sequence [of "0x11" "0x01" "0x20" 0 vatpic_init "0x08" "0x04"]
  by (auto simp: Let_def split: prod.splits)

text \<open>Line sharing: for any sequence of line changes on the sixteen pins, a pin's counter grows
  by its asserts minus its deasserts, whatever cascading and notification happen in between; in
  particular a balanced sequence restores it.\<close>

theorem vatpic_line_counters:
  assumes "\<forall>c \<in> set cs. fst c < 16" "q < 16"
  shows "vatpic_cnt (fold (\<lambda>(p, b) v. vatpic_set_pinstate v p b) cs v) q =
    vatpic_cnt v q + int (count_list cs (q, True)) - int (count_list cs (q, False))"
  using pic_pins.cnt_set_pins [OF assms, of v]
  by (simp add: pic_pins.set_pins_def net_asserts_count)

theorem vatpic_line_counters_witness:
  "vatpic_cnt (fold (\<lambda>(p, b) v. vatpic_set_pinstate v p b) [(9, True), (3, True), (9, True)]
     (pic_demo 0 0)) 9 = 2"
  using vatpic_line_counters [of "[(9, True), (3, True), (9, True)]" 9 "pic_demo 0 0"]
  by (simp add: vatpic_cnt_def)

text \<open>Automatic EOI cannot be switched off: once a chip is in AEOI mode, no access to its ports
  leaves that mode, not even a complete re-initialisation whose ICW4 does not ask for it.\<close>

theorem vatpic_aeoi_sticky:
  assumes "ap_aeoi (vp_atpic v i)" "vatpic_chip_handler i v is_in port bytes eax = (e, eax', v')"
  shows "ap_aeoi (vp_atpic v' i)"
proof -
  have "ap_aeoi (vp_atpic (snd (vatpic_write v i port eax)) i)"
    using aeoi_write_chip [OF assms(1)] by (auto simp: vatpic_write_chip split: prod.splits)
  moreover have "ap_aeoi (vp_atpic (snd (vatpic_read v i port)) i)"
    using assms(1)
    by (auto simp: vatpic_read_def vatpic_pin_accepted_def Let_def split: option.splits)
  ultimately show ?thesis using assms
    by (auto simp: vatpic_chip_handler_def split: if_splits prod.splits)
qed

theorem vatpic_aeoi_sticky_witness:
  "let v = upd_atpic 0 (atpic_zero\<lparr>ap_aeoi := True, ap_icw_num := 4\<rparr>) vatpic_init;
       (e, eax, v') = vatpic_chip_handler 0 v False 0x21 1 0x01
   in ap_aeoi (vp_atpic v' 0)"
  using vatpic_aeoi_sticky
    [of "upd_atpic 0 (atpic_zero\<lparr>ap_aeoi := True, ap_icw_num := 4\<rparr>) vatpic_init" 0]
  by (auto simp: Let_def split: prod.splits)

end
