(* ===== verification/Kernel_Time.thy ===== *)
theory Kernel_Time
  imports Prelude
begin

text \<open>
  The kernel services the timer devices call: uptime stamps (\<open>struct bintime\<close>) and callouts.
  The arithmetic on uptime stamps (\<^verbatim>\<open>bintime_add\<close>, \<^verbatim>\<open>bintime_sub\<close>,
  \<^verbatim>\<open>bintime_mul\<close>, \<^verbatim>\<open>bintime_cmp\<close>, \<^verbatim>\<open>bttosbt\<close>,
  \<^verbatim>\<open>FREQ2BT\<close>, \<^verbatim>\<open>BT2FREQ\<close>) is kernel code outside the repository: it is a
  parameter, the record \<open>time_ops\<close>, of every operation that uses it, and so is the uptime that
  \<^verbatim>\<open>binuptime\<close> returns during the operation. A callout is what \<^verbatim>\<open>callout(9)\<close>
  documents of it: whether it is active, whether it is pending, and the time it was last set to.
\<close>

record bintime =
  bt_sec :: u64
  bt_frac :: u64

record time_ops =
  bintime_add :: "bintime \<Rightarrow> bintime \<Rightarrow> bintime"
  bintime_sub :: "bintime \<Rightarrow> bintime \<Rightarrow> bintime"
  bintime_mul :: "bintime \<Rightarrow> u32 \<Rightarrow> bintime"
  bintime_lt :: "bintime \<Rightarrow> bintime \<Rightarrow> bool"
  bttosbt :: "bintime \<Rightarrow> int"
  FREQ2BT :: "nat \<Rightarrow> bintime"
  BT2FREQ :: "bintime \<Rightarrow> u64"

record callout =
  co_active :: bool
  co_pending :: bool
  co_sbt :: int

definition bintime_zero :: bintime where
  "bintime_zero = \<lparr>bt_sec = 0, bt_frac = 0\<rparr>"

definition callout_init :: callout where
  "callout_init = \<lparr>co_active = False, co_pending = False, co_sbt = 0\<rparr>"

definition callout_reset_sbt :: "callout \<Rightarrow> int \<Rightarrow> callout" where
  "callout_reset_sbt c sbt = c\<lparr>co_active := True, co_pending := True, co_sbt := sbt\<rparr>"

definition callout_stop :: "callout \<Rightarrow> callout" where
  "callout_stop c = c\<lparr>co_active := False, co_pending := False\<rparr>"

definition callout_deactivate :: "callout \<Rightarrow> callout" where
  "callout_deactivate c = c\<lparr>co_active := False\<rparr>"

text \<open>A concrete instance for witnesses: 64.64 fixed-point time as one natural number.\<close>

definition bt_nat :: "bintime \<Rightarrow> nat" where
  "bt_nat b = unat (bt_sec b) * 2 ^ 64 + unat (bt_frac b)"

definition nat_bt :: "nat \<Rightarrow> bintime" where
  "nat_bt n = \<lparr>bt_sec = of_nat (n div 2 ^ 64), bt_frac = of_nat n\<rparr>"

definition fixed_point_time :: time_ops where
  "fixed_point_time =
     \<lparr>bintime_add = (\<lambda>a b. nat_bt (bt_nat a + bt_nat b)),
      bintime_sub = (\<lambda>a b. nat_bt (bt_nat a - bt_nat b)),
      bintime_mul = (\<lambda>a k. nat_bt (bt_nat a * unat k)),
      bintime_lt = (\<lambda>a b. bt_nat a < bt_nat b),
      bttosbt = (\<lambda>a. int (bt_nat a div 2 ^ 32)),
      FREQ2BT = (\<lambda>f. nat_bt (2 ^ 64 div f)),
      BT2FREQ = (\<lambda>a. of_nat (2 ^ 64 div bt_nat a))\<rparr>"

end
