(* ===== verification/Vlapic.thy ===== *)
theory Vlapic
  imports Kernel_Time "HOL-Library.Monad_Syntax"
begin

text \<open>
  The local APIC of \<^verbatim>\<open>vmm/io/vlapic.c\<close> (structure in \<^verbatim>\<open>vlapic_priv.h\<close>) for one
  vcpu: registers, vector bookkeeping, local vector table, timer and the register read/write
  switch, without the operations that reach other vcpus (theory \<open>Lapic_Vm\<close>). It is the path
  with software interrupt delivery, that is with the hooks of \<^verbatim>\<open>vlapic->ops\<close> NULL, as
  on AMD hosts and on Intel hosts without virtual interrupt delivery. A \<^verbatim>\<open>panic\<close> of the
  source is the result \<open>None\<close>. What the operations ask of the vcpu and of the I/O APIC
  (\<^verbatim>\<open>vcpu_notify_event\<close>, \<^verbatim>\<open>vm_inject_nmi\<close>, \<^verbatim>\<open>vm_inject_extint\<close>,
  \<^verbatim>\<open>vm_inject_gp\<close>, \<^verbatim>\<open>vioapic_process_eoi\<close>) is appended in order to
  \<open>vl_events\<close>. Locks, traces and statistics counters are left out. Register constants are those
  of the Intel SDM.
\<close>

section \<open>State\<close>

datatype lvt = LVT_LINT0 | LVT_LINT1 | LVT_TIMER | LVT_ERROR | LVT_PMC | LVT_THERMAL | LVT_CMCI

datatype boot_state = BS_INIT | BS_SIPI | BS_RUNNING

datatype vcpu_event =
    Vcpu_notify_event
  | Inject_nmi
  | Inject_extint
  | Inject_gp
  | Ioapic_eoi nat

text \<open>The register page (\<open>struct LAPIC\<close>); the 256-bit ISR, TMR and IRR as eight 32-bit words.\<close>

record lapic_page =
  lp_id :: u32
  lp_version :: u32
  lp_tpr :: u32
  lp_apr :: u32
  lp_ppr :: u32
  lp_eoi :: u32
  lp_ldr :: u32
  lp_dfr :: u32
  lp_svr :: u32
  lp_isr :: "nat \<Rightarrow> u32"
  lp_tmr :: "nat \<Rightarrow> u32"
  lp_irr :: "nat \<Rightarrow> u32"
  lp_esr :: u32
  lp_icr_lo :: u32
  lp_icr_hi :: u32
  lp_lvt :: "lvt \<Rightarrow> u32"
  lp_icr_timer :: u32
  lp_dcr_timer :: u32

record vlapic =
  vl_vcpuid :: nat
  vl_page :: lapic_page
  vl_esr_pending :: u32
  vl_callout :: callout
  vl_timer_fire_bt :: bintime
  vl_timer_freq_bt :: bintime
  vl_timer_period_bt :: bintime
  vl_isrvec_stk :: "nat \<Rightarrow> nat"
  vl_isrvec_stk_top :: nat
  vl_msr_apicbase :: u64
  vl_boot_state :: boot_state
  vl_svr_last :: u32
  vl_lvt_last :: "lvt \<Rightarrow> u32"
  vl_events :: "vcpu_event list"

abbreviation (input) ISRVEC_STK_SIZE :: nat where "ISRVEC_STK_SIZE \<equiv> 17"
abbreviation (input) VLAPIC_VERSION :: u32 where "VLAPIC_VERSION \<equiv> 16"
abbreviation (input) VLAPIC_MAXLVT_INDEX :: u32 where "VLAPIC_MAXLVT_INDEX \<equiv> 6"
abbreviation (input) VLAPIC_BUS_FREQ :: nat where "VLAPIC_BUS_FREQ \<equiv> 128 * 1024 * 1024"
abbreviation (input) APIC_SVR_ENABLE :: u32 where "APIC_SVR_ENABLE \<equiv> 0x100"
abbreviation (input) APIC_SVR_VECTOR :: u32 where "APIC_SVR_VECTOR \<equiv> 0xff"
abbreviation (input) APIC_LVT_VECTOR :: u32 where "APIC_LVT_VECTOR \<equiv> 0xff"
abbreviation (input) APIC_LVT_DM :: u32 where "APIC_LVT_DM \<equiv> 0x700"
abbreviation (input) APIC_LVT_DM_NMI :: u32 where "APIC_LVT_DM_NMI \<equiv> 0x400"
abbreviation (input) APIC_LVT_DM_EXTINT :: u32 where "APIC_LVT_DM_EXTINT \<equiv> 0x700"
abbreviation (input) APIC_LVT_DS :: u32 where "APIC_LVT_DS \<equiv> 0x1000"
abbreviation (input) APIC_LVT_IIPP :: u32 where "APIC_LVT_IIPP \<equiv> 0x2000"
abbreviation (input) APIC_LVT_RIRR :: u32 where "APIC_LVT_RIRR \<equiv> 0x4000"
abbreviation (input) APIC_LVT_TM :: u32 where "APIC_LVT_TM \<equiv> 0x8000"
abbreviation (input) APIC_LVT_M :: u32 where "APIC_LVT_M \<equiv> 0x10000"
abbreviation (input) APIC_LVTT_TM :: u32 where "APIC_LVTT_TM \<equiv> 0x60000"
abbreviation (input) APIC_LVTT_TM_PERIODIC :: u32 where "APIC_LVTT_TM_PERIODIC \<equiv> 0x20000"
abbreviation (input) APIC_ESR_SEND_ILLEGAL_VECTOR :: u32 where
  "APIC_ESR_SEND_ILLEGAL_VECTOR \<equiv> 0x20"
abbreviation (input) APIC_ESR_RECEIVE_ILLEGAL_VECTOR :: u32 where
  "APIC_ESR_RECEIVE_ILLEGAL_VECTOR \<equiv> 0x40"
abbreviation (input) APIC_DFR_MODEL_MASK :: u32 where "APIC_DFR_MODEL_MASK \<equiv> 0xf0000000"
abbreviation (input) APIC_DFR_RESERVED :: u32 where "APIC_DFR_RESERVED \<equiv> 0x0fffffff"
abbreviation (input) APIC_LDR_RESERVED :: u32 where "APIC_LDR_RESERVED \<equiv> 0x00ffffff"
abbreviation (input) APICBASE_ENABLED :: u64 where "APICBASE_ENABLED \<equiv> 0x800"
abbreviation (input) APICBASE_X2APIC :: u64 where "APICBASE_X2APIC \<equiv> 0x400"
abbreviation (input) APICBASE_BSP :: u64 where "APICBASE_BSP \<equiv> 0x100"
abbreviation (input) DEFAULT_APIC_BASE :: u64 where "DEFAULT_APIC_BASE \<equiv> 0xfee00000"

definition PRIO :: "nat \<Rightarrow> nat" where
  "PRIO x = x div 16"

definition x2apic :: "vlapic \<Rightarrow> bool" where
  "x2apic vl \<longleftrightarrow> vl_msr_apicbase vl AND APICBASE_X2APIC \<noteq> 0"

definition upd_page :: "(lapic_page \<Rightarrow> lapic_page) \<Rightarrow> vlapic \<Rightarrow> vlapic" where
  "upd_page f vl = vl\<lparr>vl_page := f (vl_page vl)\<rparr>"

definition emit :: "vcpu_event \<Rightarrow> vlapic \<Rightarrow> vlapic" where
  "emit e vl = vl\<lparr>vl_events := vl_events vl @ [e]\<rparr>"

section \<open>Vector registers\<close>

text \<open>The C idiom for a bit of ISR, TMR or IRR: word \<open>vector / 32\<close>, mask
  \<open>1 << (vector % 32)\<close>.\<close>

definition vec_test :: "(nat \<Rightarrow> u32) \<Rightarrow> nat \<Rightarrow> bool" where
  "vec_test r vector = bit (r (vector div 32)) (vector mod 32)"

definition vec_set :: "nat \<Rightarrow> (nat \<Rightarrow> u32) \<Rightarrow> (nat \<Rightarrow> u32)" where
  "vec_set vector r = r(vector div 32 := set_bit (vector mod 32) (r (vector div 32)))"

definition vec_clear :: "nat \<Rightarrow> (nat \<Rightarrow> u32) \<Rightarrow> (nat \<Rightarrow> u32)" where
  "vec_clear vector r = r(vector div 32 := unset_bit (vector mod 32) (r (vector div 32)))"

text \<open>\<^verbatim>\<open>fls\<close> of libkern: one plus the index of the most significant set bit, 0 for 0.\<close>

definition fls :: "u32 \<Rightarrow> nat" where
  "fls w = (case find (bit w) (rev [0..<32]) of None \<Rightarrow> 0 | Some n \<Rightarrow> Suc n)"

text \<open>The downward scan over the eight words shared by \<^verbatim>\<open>vlapic_process_eoi\<close> and
  \<^verbatim>\<open>vlapic_pending_intr\<close>: the first non-empty word from the top gives the vector.\<close>

definition highest_vector :: "(nat \<Rightarrow> u32) \<Rightarrow> nat option" where
  "highest_vector r =
     map_option (\<lambda>i. i * 32 + (fls (r i) - 1)) (find (\<lambda>i. fls (r i) \<noteq> 0) (rev [0..<8]))"

section \<open>Identification and destination registers\<close>

definition vlapic_get_id :: "vlapic \<Rightarrow> u32" where
  "vlapic_get_id vl =
     (if x2apic vl then of_nat (vl_vcpuid vl) else push_bit 24 (of_nat (vl_vcpuid vl)))"

definition x2apic_ldr :: "vlapic \<Rightarrow> u32" where
  "x2apic_ldr vl =
     (let apicid = vlapic_get_id vl
      in push_bit (unat (apicid AND 0xf)) 1 OR push_bit 12 (apicid AND 0xffff0))"

definition vlapic_dfr_write_handler :: "vlapic \<Rightarrow> vlapic" where
  "vlapic_dfr_write_handler vl =
     (if x2apic vl then upd_page (\<lambda>p. p\<lparr>lp_dfr := 0\<rparr>) vl
      else upd_page (\<lambda>p. p\<lparr>lp_dfr := (lp_dfr p AND APIC_DFR_MODEL_MASK) OR APIC_DFR_RESERVED\<rparr>) vl)"

definition vlapic_ldr_write_handler :: "vlapic \<Rightarrow> vlapic" where
  "vlapic_ldr_write_handler vl =
     (if x2apic vl then upd_page (\<lambda>p. p\<lparr>lp_ldr := x2apic_ldr vl\<rparr>) vl
      else upd_page (\<lambda>p. p\<lparr>lp_ldr := lp_ldr p AND NOT APIC_LDR_RESERVED\<rparr>) vl)"

definition vlapic_id_write_handler :: "vlapic \<Rightarrow> vlapic" where
  "vlapic_id_write_handler vl = upd_page (\<lambda>p. p\<lparr>lp_id := vlapic_get_id vl\<rparr>) vl"

section \<open>Timer configuration\<close>

definition vlapic_timer_divisor :: "u32 \<Rightarrow> nat option" where
  "vlapic_timer_divisor dcr =
     (let d = dcr AND 0xB
      in if d = 0xB then Some 1 else if d = 0 then Some 2 else if d = 1 then Some 4
         else if d = 2 then Some 8 else if d = 3 then Some 16 else if d = 8 then Some 32
         else if d = 9 then Some 64 else if d = 0xA then Some 128 else None)"

definition vlapic_get_ccr :: "time_ops \<Rightarrow> bintime \<Rightarrow> vlapic \<Rightarrow> u32" where
  "vlapic_get_ccr T now vl =
     (if co_active (vl_callout vl) \<and> bintime_lt T now (vl_timer_fire_bt vl)
      then let bt_rem = bintime_sub T (vl_timer_fire_bt vl) now
           in ucast (bt_sec bt_rem * BT2FREQ T (vl_timer_freq_bt vl)) +
              ucast (bt_frac bt_rem div bt_frac (vl_timer_freq_bt vl))
      else 0)"

definition vlapic_dcr_write_handler :: "time_ops \<Rightarrow> vlapic \<Rightarrow> vlapic option" where
  "vlapic_dcr_write_handler T vl = do {
     divisor \<leftarrow> vlapic_timer_divisor (lp_dcr_timer (vl_page vl));
     let freq = FREQ2BT T (VLAPIC_BUS_FREQ div divisor);
     Some (vl\<lparr>vl_timer_freq_bt := freq,
              vl_timer_period_bt := bintime_mul T freq (lp_icr_timer (vl_page vl))\<rparr>)
   }"

definition vlapic_esr_write_handler :: "vlapic \<Rightarrow> vlapic" where
  "vlapic_esr_write_handler vl =
     (upd_page (\<lambda>p. p\<lparr>lp_esr := vl_esr_pending vl\<rparr>) vl)\<lparr>vl_esr_pending := 0\<rparr>"

section \<open>Local vector table\<close>

definition lvt_off_to_idx :: "nat \<Rightarrow> lvt option" where
  "lvt_off_to_idx offset =
     (if offset = 0x2F0 then Some LVT_CMCI else if offset = 0x320 then Some LVT_TIMER
      else if offset = 0x330 then Some LVT_THERMAL else if offset = 0x340 then Some LVT_PMC
      else if offset = 0x350 then Some LVT_LINT0 else if offset = 0x360 then Some LVT_LINT1
      else if offset = 0x370 then Some LVT_ERROR else None)"

definition vlapic_get_lvt :: "vlapic \<Rightarrow> lvt \<Rightarrow> u32" where
  "vlapic_get_lvt vl idx = vl_lvt_last vl idx"

definition lvt_write_mask :: "lvt \<Rightarrow> u32" where
  "lvt_write_mask idx =
     (let mask = APIC_LVT_M OR APIC_LVT_DS OR APIC_LVT_VECTOR
      in case idx of
           LVT_TIMER \<Rightarrow> mask OR APIC_LVTT_TM
         | LVT_ERROR \<Rightarrow> mask
         | LVT_LINT0 \<Rightarrow> mask OR APIC_LVT_TM OR APIC_LVT_RIRR OR APIC_LVT_IIPP OR APIC_LVT_DM
         | LVT_LINT1 \<Rightarrow> mask OR APIC_LVT_TM OR APIC_LVT_RIRR OR APIC_LVT_IIPP OR APIC_LVT_DM
         | _ \<Rightarrow> mask OR APIC_LVT_DM)"

definition vlapic_lvt_write_handler :: "lvt \<Rightarrow> vlapic \<Rightarrow> vlapic" where
  "vlapic_lvt_write_handler idx vl =
     (let p = vl_page vl; val = lp_lvt p idx;
          val = (if lp_svr p AND APIC_SVR_ENABLE = 0 then val OR APIC_LVT_M else val);
          val = val AND lvt_write_mask idx
      in vl\<lparr>vl_page := p\<lparr>lp_lvt := (lp_lvt p)(idx := val)\<rparr>,
            vl_lvt_last := (vl_lvt_last vl)(idx := val)\<rparr>)"

definition mask_lvt :: "lvt \<Rightarrow> vlapic \<Rightarrow> vlapic" where
  "mask_lvt idx vl =
     vlapic_lvt_write_handler idx
       (upd_page (\<lambda>p. p\<lparr>lp_lvt := (lp_lvt p)(idx := lp_lvt p idx OR APIC_LVT_M)\<rparr>) vl)"

definition vlapic_mask_lvts :: "vlapic \<Rightarrow> vlapic" where
  "vlapic_mask_lvts vl =
     fold mask_lvt [LVT_CMCI, LVT_TIMER, LVT_THERMAL, LVT_PMC, LVT_LINT0, LVT_LINT1, LVT_ERROR] vl"

text \<open>
  \<^verbatim>\<open>vlapic_set_intr_ready\<close>, \<^verbatim>\<open>vlapic_fire_lvt\<close> and \<^verbatim>\<open>vlapic_set_error\<close>
  call each other: an illegal vector is reported by firing the error LVT, which may itself carry an
  illegal vector. The recursion ends because of the \<open>lvt_error\<close> flag the source passes for this.
  The Boolean result of the first two is the C return value.
\<close>

function vlapic_set_intr_ready :: "vlapic \<Rightarrow> nat \<Rightarrow> bool \<Rightarrow> bool \<times> vlapic"
  and vlapic_fire_lvt :: "vlapic \<Rightarrow> lvt \<Rightarrow> bool \<times> vlapic"
  and vlapic_set_error :: "vlapic \<Rightarrow> u32 \<Rightarrow> bool \<Rightarrow> vlapic" where
  "vlapic_set_intr_ready vl vector level =
     (if lp_svr (vl_page vl) AND APIC_SVR_ENABLE = 0 then (False, vl)
      else if vector < 16
      then (True, vlapic_set_error vl APIC_ESR_RECEIVE_ILLEGAL_VECTOR False)
      else (True, upd_page (\<lambda>p. p\<lparr>lp_irr := vec_set vector (lp_irr p)\<rparr>) vl))"
| "vlapic_fire_lvt vl lvt =
     (let reg = vl_lvt_last vl lvt
      in if reg AND APIC_LVT_M \<noteq> 0 then (False, vl)
         else let vec = unat (reg AND APIC_LVT_VECTOR); mode = reg AND APIC_LVT_DM
              in if mode = 0
                 then (if vec < 16
                       then (False, vlapic_set_error vl APIC_ESR_SEND_ILLEGAL_VECTOR
                                      (lvt = LVT_ERROR))
                       else (True, let (r, vl) = vlapic_set_intr_ready vl vec False
                                   in if r then emit Vcpu_notify_event vl else vl))
                 else if mode = APIC_LVT_DM_NMI then (True, emit Inject_nmi vl)
                 else if mode = APIC_LVT_DM_EXTINT then (True, emit Inject_extint vl)
                 else (False, vl))"
| "vlapic_set_error vl esr_bits lvt_error =
     (let vl = vl\<lparr>vl_esr_pending := vl_esr_pending vl OR esr_bits\<rparr>
      in if lvt_error then vl else snd (vlapic_fire_lvt vl LVT_ERROR))"
  by pat_completeness auto
termination
  by (relation "measure (\<lambda>x. case x of
        Inl (_, vector, _) \<Rightarrow> if vector < 16 then 3 else 0
      | Inr (Inl (_, lvt)) \<Rightarrow> if lvt = LVT_ERROR then 1 else 3
      | Inr (Inr (_, _, lvt_error)) \<Rightarrow> if lvt_error then 0 else 2)") auto

declare vlapic_set_intr_ready.simps [simp del] vlapic_fire_lvt.simps [simp del]
  vlapic_set_error.simps [simp del]

definition vlapic_fire_timer :: "vlapic \<Rightarrow> vlapic" where
  "vlapic_fire_timer vl = snd (vlapic_fire_lvt vl LVT_TIMER)"

definition vlapic_fire_cmci :: "vlapic \<Rightarrow> vlapic" where
  "vlapic_fire_cmci vl = snd (vlapic_fire_lvt vl LVT_CMCI)"

definition vlapic_enabled :: "vlapic \<Rightarrow> bool" where
  "vlapic_enabled vl \<longleftrightarrow>
     vl_msr_apicbase vl AND APICBASE_ENABLED \<noteq> 0 \<and> lp_svr (vl_page vl) AND APIC_SVR_ENABLE \<noteq> 0"

text \<open>The LVT numbers (\<open>APIC_LVT_LINT0\<close> = 0 and so on) a caller may pass.\<close>

definition lvt_of_vector :: "int \<Rightarrow> lvt option" where
  "lvt_of_vector vector =
     (if vector = 0 then Some LVT_LINT0 else if vector = 1 then Some LVT_LINT1
      else if vector = 2 then Some LVT_TIMER else if vector = 3 then Some LVT_ERROR
      else if vector = 4 then Some LVT_PMC else if vector = 5 then Some LVT_THERMAL
      else if vector = 6 then Some LVT_CMCI else None)"

definition vlapic_trigger_lvt :: "vlapic \<Rightarrow> int \<Rightarrow> int \<times> vlapic" where
  "vlapic_trigger_lvt vl vector =
     (if \<not> vlapic_enabled vl
      then (0, case lvt_of_vector vector of
                 Some LVT_LINT0 \<Rightarrow> emit Inject_extint vl
               | Some LVT_LINT1 \<Rightarrow> emit Inject_nmi vl
               | _ \<Rightarrow> vl)
      else case lvt_of_vector vector of
             Some lvt \<Rightarrow> (0, snd (vlapic_fire_lvt vl lvt))
           | None \<Rightarrow> (EINVAL, vl))"

section \<open>Processor priority\<close>

text \<open>The consistency checks of \<^verbatim>\<open>vlapic_update_ppr\<close> that end in \<^verbatim>\<open>panic\<close>.\<close>

fun prio_increasing :: "nat option \<Rightarrow> nat list \<Rightarrow> bool" where
  "prio_increasing lastprio [] = True"
| "prio_increasing lastprio (v # vs) =
     ((case lastprio of None \<Rightarrow> True | Some l \<Rightarrow> \<not> PRIO v \<le> l) \<and> prio_increasing (Some (PRIO v)) vs)"

fun isr_in_sync :: "(nat \<Rightarrow> u32) \<Rightarrow> (nat \<Rightarrow> nat) \<Rightarrow> nat \<Rightarrow> nat \<Rightarrow> nat list \<Rightarrow> bool" where
  "isr_in_sync isr stk stk_top i [] = True"
| "isr_in_sync isr stk stk_top i (vector # vs) =
     (if vec_test isr vector
      then \<not> (i > stk_top \<or> stk i \<noteq> vector) \<and> isr_in_sync isr stk stk_top (i + 1) vs
      else isr_in_sync isr stk stk_top i vs)"

definition vlapic_update_ppr :: "vlapic \<Rightarrow> vlapic option" where
  "vlapic_update_ppr vl =
     (let stk_top = vl_isrvec_stk_top vl; stk = vl_isrvec_stk vl; isrvec = stk stk_top;
          tpr = lp_tpr (vl_page vl)
      in if stk_top = 0 \<and> isrvec \<noteq> 0 then None
         else if \<not> prio_increasing None (map stk [1..<stk_top + 1]) then None
         else if \<not> isr_in_sync (lp_isr (vl_page vl)) stk stk_top 1 [0..<256] then None
         else let ppr = (if PRIO (unat tpr) \<ge> PRIO isrvec then tpr
                         else of_nat isrvec AND 0xf0)
              in Some (upd_page (\<lambda>p. p\<lparr>lp_ppr := ppr\<rparr>) vl))"

definition vlapic_sync_tpr :: "vlapic \<Rightarrow> vlapic option" where
  "vlapic_sync_tpr vl = vlapic_update_ppr vl"

definition vlapic_set_tpr :: "vlapic \<Rightarrow> u8 \<Rightarrow> vlapic option" where
  "vlapic_set_tpr vl val =
     (if lp_tpr (vl_page vl) \<noteq> ucast val
      then vlapic_update_ppr (upd_page (\<lambda>p. p\<lparr>lp_tpr := ucast val\<rparr>) vl)
      else Some vl)"

definition vlapic_get_tpr :: "vlapic \<Rightarrow> u8" where
  "vlapic_get_tpr vl = ucast (lp_tpr (vl_page vl))"

definition vlapic_set_cr8 :: "vlapic \<Rightarrow> u64 \<Rightarrow> vlapic option" where
  "vlapic_set_cr8 vl val =
     (if val AND NOT 0xf \<noteq> 0 then Some (emit Inject_gp vl)
      else vlapic_set_tpr vl (ucast (push_bit 4 val)))"

definition vlapic_get_cr8 :: "vlapic \<Rightarrow> u64" where
  "vlapic_get_cr8 vl = ucast (drop_bit 4 (vlapic_get_tpr vl))"

section \<open>Interrupt delivery to the vcpu and EOI\<close>

definition vlapic_process_eoi :: "vlapic \<Rightarrow> vlapic option" where
  "vlapic_process_eoi vl =
     (case highest_vector (lp_isr (vl_page vl)) of
        None \<Rightarrow> Some vl
      | Some vector \<Rightarrow>
          if vl_isrvec_stk_top vl = 0 then None
          else do {
            let vl = upd_page (\<lambda>p. p\<lparr>lp_isr := vec_clear vector (lp_isr p)\<rparr>) vl;
            let vl = vl\<lparr>vl_isrvec_stk_top := vl_isrvec_stk_top vl - 1\<rparr>;
            vl \<leftarrow> vlapic_update_ppr vl;
            Some (if vec_test (lp_tmr (vl_page vl)) vector then emit (Ioapic_eoi vector) vl else vl)
          })"

text \<open>The result carries the vector (\<open>*vecptr\<close>), \<open>None\<close> when the C function returns 0.\<close>

definition vlapic_pending_intr :: "vlapic \<Rightarrow> (nat option \<times> vlapic) option" where
  "vlapic_pending_intr vl = do {
     vl \<leftarrow> vlapic_update_ppr vl;
     Some (case highest_vector (lp_irr (vl_page vl)) of
             None \<Rightarrow> None
           | Some vector \<Rightarrow>
               if PRIO vector > PRIO (unat (lp_ppr (vl_page vl))) then Some vector else None, vl)
   }"

definition vlapic_intr_accepted :: "vlapic \<Rightarrow> nat \<Rightarrow> vlapic option" where
  "vlapic_intr_accepted vl vector =
     (let vl = upd_page (\<lambda>p. p\<lparr>lp_irr := vec_clear vector (lp_irr p),
                              lp_isr := vec_set vector (lp_isr p)\<rparr>) vl;
          stk_top = vl_isrvec_stk_top vl + 1;
          vl = vl\<lparr>vl_isrvec_stk_top := stk_top\<rparr>
      in if stk_top \<ge> ISRVEC_STK_SIZE then None
         else Some (vl\<lparr>vl_isrvec_stk := (vl_isrvec_stk vl)(stk_top := vector)\<rparr>))"

section \<open>Timer\<close>

definition vlapic_periodic_timer :: "vlapic \<Rightarrow> bool" where
  "vlapic_periodic_timer vl \<longleftrightarrow> vlapic_get_lvt vl LVT_TIMER AND APIC_LVTT_TM_PERIODIC \<noteq> 0"

definition vlapic_icrtmr_write_handler :: "time_ops \<Rightarrow> bintime \<Rightarrow> vlapic \<Rightarrow> vlapic" where
  "vlapic_icrtmr_write_handler T now vl =
     (let icr_timer = lp_icr_timer (vl_page vl);
          period = bintime_mul T (vl_timer_freq_bt vl) icr_timer;
          vl = vl\<lparr>vl_timer_period_bt := period\<rparr>
      in if icr_timer \<noteq> 0
         then vl\<lparr>vl_timer_fire_bt := bintime_add T now period,
                 vl_callout := callout_reset_sbt (vl_callout vl) (bttosbt T period)\<rparr>
         else vl\<lparr>vl_callout := callout_stop (vl_callout vl)\<rparr>)"

text \<open>The handler the callout runs; the callout mechanism clears \<open>co_pending\<close> before it.\<close>

definition vlapic_callout_handler :: "time_ops \<Rightarrow> bintime \<Rightarrow> vlapic \<Rightarrow> vlapic" where
  "vlapic_callout_handler T btnow vl =
     (if co_pending (vl_callout vl) then vl
      else if \<not> co_active (vl_callout vl) then vl
      else let vl = vl\<lparr>vl_callout := callout_deactivate (vl_callout vl)\<rparr>;
               vl = vlapic_fire_timer vl
           in if vlapic_periodic_timer vl
              then let bt = bintime_sub T btnow (vl_timer_fire_bt vl);
                       period = vl_timer_period_bt vl;
                       (rem_sbt, base) =
                         (if bintime_lt T bt period
                          then (bttosbt T period - bttosbt T bt, vl_timer_fire_bt vl)
                          else (bttosbt T period, btnow))
                   in vl\<lparr>vl_timer_fire_bt := bintime_add T base period,
                         vl_callout := callout_reset_sbt (vl_callout vl) rem_sbt\<rparr>
              else vl)"

definition vlapic_svr_write_handler :: "time_ops \<Rightarrow> bintime \<Rightarrow> vlapic \<Rightarrow> vlapic" where
  "vlapic_svr_write_handler T now vl =
     (let new = lp_svr (vl_page vl); old = vl_svr_last vl;
          vl = vl\<lparr>vl_svr_last := new\<rparr>; changed = old XOR new
      in if changed AND APIC_SVR_ENABLE \<noteq> 0
         then (if new AND APIC_SVR_ENABLE = 0
               then vlapic_mask_lvts (vl\<lparr>vl_callout := callout_stop (vl_callout vl)\<rparr>)
               else if vlapic_periodic_timer vl then vlapic_icrtmr_write_handler T now vl
               else vl)
         else vl)"

section \<open>Trigger-mode register\<close>

definition vlapic_set_tmr :: "vlapic \<Rightarrow> nat \<Rightarrow> bool \<Rightarrow> vlapic" where
  "vlapic_set_tmr vl vector level =
     upd_page (\<lambda>p. p\<lparr>lp_tmr := (if level then vec_set else vec_clear) vector (lp_tmr p)\<rparr>) vl"

definition vlapic_reset_tmr :: "vlapic \<Rightarrow> vlapic" where
  "vlapic_reset_tmr vl = fold (\<lambda>vector vl. vlapic_set_tmr vl vector False) [0..<256] vl"

section \<open>Register reads\<close>

definition vlapic_read_reg :: "time_ops \<Rightarrow> bintime \<Rightarrow> vlapic \<Rightarrow> nat \<Rightarrow> u64" where
  "vlapic_read_reg T now vl offset =
     (let p = vl_page vl
      in if offset = 0x20 then ucast (lp_id p)
         else if offset = 0x30 then ucast (lp_version p)
         else if offset = 0x80 then ucast (vlapic_get_tpr vl)
         else if offset = 0x90 then ucast (lp_apr p)
         else if offset = 0xA0 then ucast (lp_ppr p)
         else if offset = 0xB0 then ucast (lp_eoi p)
         else if offset = 0xD0 then ucast (lp_ldr p)
         else if offset = 0xE0 then ucast (lp_dfr p)
         else if offset = 0xF0 then ucast (lp_svr p)
         else if 0x100 \<le> offset \<and> offset \<le> 0x170 then ucast (lp_isr p ((offset - 0x100) div 16))
         else if 0x180 \<le> offset \<and> offset \<le> 0x1F0 then ucast (lp_tmr p ((offset - 0x180) div 16))
         else if 0x200 \<le> offset \<and> offset \<le> 0x270 then ucast (lp_irr p ((offset - 0x200) div 16))
         else if offset = 0x280 then ucast (lp_esr p)
         else if offset = 0x300
         then (if x2apic vl then ucast (lp_icr_lo p) OR push_bit 32 (ucast (lp_icr_hi p))
               else ucast (lp_icr_lo p))
         else if offset = 0x310 then ucast (lp_icr_hi p)
         else case lvt_off_to_idx offset of
                Some idx \<Rightarrow> ucast (vlapic_get_lvt vl idx)
              | None \<Rightarrow>
                  if offset = 0x380 then ucast (lp_icr_timer p)
                  else if offset = 0x390 then ucast (vlapic_get_ccr T now vl)
                  else if offset = 0x3E0 then ucast (lp_dcr_timer p)
                  else 0)"

text \<open>Offsets are multiples of 16: both callers (\<^verbatim>\<open>lapic_mmio_read\<close> and
  \<^verbatim>\<open>lapic_rdmsr\<close>) pass only those.\<close>

definition vlapic_read :: "time_ops \<Rightarrow> bintime \<Rightarrow> vlapic \<Rightarrow> bool \<Rightarrow> nat \<Rightarrow> u64" where
  "vlapic_read T now vl mmio_access offset =
     (if x2apic vl \<and> mmio_access then 0
      else if \<not> x2apic vl \<and> \<not> mmio_access then 0
      else if offset > 0x400 then 0
      else vlapic_read_reg T now vl offset)"

section \<open>Initialisation\<close>

definition lapic_page_zero :: lapic_page where
  "lapic_page_zero = \<lparr>lp_id = 0, lp_version = 0, lp_tpr = 0, lp_apr = 0, lp_ppr = 0, lp_eoi = 0,
     lp_ldr = 0, lp_dfr = 0, lp_svr = 0, lp_isr = (\<lambda>_. 0), lp_tmr = (\<lambda>_. 0), lp_irr = (\<lambda>_. 0),
     lp_esr = 0, lp_icr_lo = 0, lp_icr_hi = 0, lp_lvt = (\<lambda>_. 0), lp_icr_timer = 0,
     lp_dcr_timer = 0\<rparr>"

definition vlapic_reset :: "time_ops \<Rightarrow> vlapic \<Rightarrow> vlapic option" where
  "vlapic_reset T vl = do {
     let vl = vl\<lparr>vl_page := lapic_page_zero\<lparr>lp_id := vlapic_get_id vl,
                lp_version := VLAPIC_VERSION OR push_bit 16 VLAPIC_MAXLVT_INDEX,
                lp_dfr := 0xffffffff, lp_svr := APIC_SVR_VECTOR\<rparr>\<rparr>;
     let vl = vlapic_mask_lvts vl;
     let vl = vlapic_reset_tmr vl;
     let vl = upd_page (\<lambda>p. p\<lparr>lp_dcr_timer := 0\<rparr>) vl;
     vl \<leftarrow> vlapic_dcr_write_handler T vl;
     Some (vl\<lparr>vl_boot_state := (if vl_vcpuid vl = 0 then BS_RUNNING else BS_INIT),
              vl_svr_last := lp_svr (vl_page vl)\<rparr>)
   }"

text \<open>\<^verbatim>\<open>vlapic_init\<close> on a zeroed structure for vcpu \<open>vcpuid\<close>.\<close>

definition vlapic_init :: "time_ops \<Rightarrow> nat \<Rightarrow> vlapic option" where
  "vlapic_init T vcpuid =
     vlapic_reset T
       \<lparr>vl_vcpuid = vcpuid, vl_page = lapic_page_zero, vl_esr_pending = 0,
        vl_callout = callout_init, vl_timer_fire_bt = bintime_zero,
        vl_timer_freq_bt = bintime_zero, vl_timer_period_bt = bintime_zero,
        vl_isrvec_stk = (\<lambda>_. 0), vl_isrvec_stk_top = 0,
        vl_msr_apicbase = (let b = DEFAULT_APIC_BASE OR APICBASE_ENABLED
                           in if vcpuid = 0 then b OR APICBASE_BSP else b),
        vl_boot_state = BS_INIT, vl_svr_last = 0, vl_lvt_last = (\<lambda>_. 0), vl_events = []\<rparr>"

definition vlapic_get_apicbase :: "vlapic \<Rightarrow> u64" where
  "vlapic_get_apicbase vl = vl_msr_apicbase vl"

definition vlapic_set_apicbase :: "vlapic \<Rightarrow> u64 \<Rightarrow> int" where
  "vlapic_set_apicbase vl new = (if vl_msr_apicbase vl \<noteq> new then -1 else 0)"

datatype x2apic_state = X2APIC_DISABLED | X2APIC_ENABLED

definition vlapic_set_x2apic_state :: "vlapic \<Rightarrow> x2apic_state \<Rightarrow> vlapic" where
  "vlapic_set_x2apic_state vl state =
     (let vl = vl\<lparr>vl_msr_apicbase :=
            (if state = X2APIC_DISABLED then vl_msr_apicbase vl AND NOT APICBASE_X2APIC
             else vl_msr_apicbase vl OR APICBASE_X2APIC)\<rparr>;
          vl = upd_page (\<lambda>p. p\<lparr>lp_id := vlapic_get_id vl\<rparr>) vl
      in if x2apic vl then upd_page (\<lambda>p. p\<lparr>lp_ldr := x2apic_ldr vl, lp_dfr := 0\<rparr>) vl
         else upd_page (\<lambda>p. p\<lparr>lp_ldr := 0, lp_dfr := 0xffffffff\<rparr>) vl)"


section \<open>Vector registers as sets\<close>

text \<open>The contract of a 256-bit vector register: membership after setting and clearing a vector, and
  the highest vector found by the downward scan.\<close>

locale vector_bitmap =
  fixes vtest :: "'r \<Rightarrow> nat \<Rightarrow> bool"
    and vins :: "nat \<Rightarrow> 'r \<Rightarrow> 'r"
    and vdel :: "nat \<Rightarrow> 'r \<Rightarrow> 'r"
    and vhighest :: "'r \<Rightarrow> nat option"
  assumes vtest_ins: "v < 256 \<Longrightarrow> w < 256 \<Longrightarrow> vtest (vins v r) w \<longleftrightarrow> w = v \<or> vtest r w"
    and vtest_del: "v < 256 \<Longrightarrow> w < 256 \<Longrightarrow> vtest (vdel v r) w \<longleftrightarrow> w \<noteq> v \<and> vtest r w"
    and vhighest_None: "vhighest r = None \<longleftrightarrow> (\<forall>w < 256. \<not> vtest r w)"
    and vhighest_Some:
      "vhighest r = Some v \<longleftrightarrow> v < 256 \<and> vtest r v \<and> (\<forall>w < 256. vtest r w \<longrightarrow> w \<le> v)"
begin

definition members :: "'r \<Rightarrow> nat set" where
  "members r = {v. v < 256 \<and> vtest r v}"

lemma finite_members [simp]: "finite (members r)"
  by (simp add: members_def)

lemma members_ins: "v < 256 \<Longrightarrow> members (vins v r) = insert v (members r)"
  by (auto simp: members_def vtest_ins)

lemma members_del: "v < 256 \<Longrightarrow> members (vdel v r) = members r - {v}"
  by (auto simp: members_def vtest_del)

lemma highest_members:
  "vhighest r = (if members r = {} then None else Some (Max (members r)))"
proof (cases "vhighest r")
  case None
  then show ?thesis by (auto simp: vhighest_None members_def)
next
  case (Some v)
  then have "v \<in> members r" and "\<And>w. w \<in> members r \<Longrightarrow> w \<le> v"
    by (auto simp: vhighest_Some members_def)
  then have "Max (members r) = v" by (intro Max_eqI) auto
  with Some \<open>v \<in> members r\<close> show ?thesis by auto
qed

end

lemma vec_div_mod_eq: "(v::nat) = w \<longleftrightarrow> v div 32 = w div 32 \<and> v mod 32 = w mod 32"
  by (metis mult_div_mod_eq)

lemma vec_test_set: "vec_test (vec_set v r) w \<longleftrightarrow> w = v \<or> vec_test r w"
proof (cases "w div 32 = v div 32")
  case True
  then have "w = v \<longleftrightarrow> w mod 32 = v mod 32" by (simp add: vec_div_mod_eq [of w v])
  with True show ?thesis by (auto simp: vec_test_def vec_set_def bv_simps)
next
  case False
  then show ?thesis by (auto simp: vec_test_def vec_set_def)
qed

lemma vec_test_clear: "vec_test (vec_clear v r) w \<longleftrightarrow> w \<noteq> v \<and> vec_test r w"
proof (cases "w div 32 = v div 32")
  case True
  then have "w = v \<longleftrightarrow> w mod 32 = v mod 32" by (simp add: vec_div_mod_eq [of w v])
  with True show ?thesis by (auto simp: vec_test_def vec_clear_def bv_simps)
next
  case False
  then show ?thesis by (auto simp: vec_test_def vec_clear_def)
qed

lemma find_rev_upt_Some:
  "find P (rev [0..<n]) = Some i \<longleftrightarrow> i < n \<and> P i \<and> (\<forall>j < n. P j \<longrightarrow> j \<le> i)"
proof (induction n)
  case 0
  then show ?case by simp
next
  case (Suc n)
  then show ?case by (auto simp: less_Suc_eq)
qed

lemma find_rev_upt_None: "find P (rev [0..<n]) = None \<longleftrightarrow> (\<forall>j < n. \<not> P j)"
  by (auto simp: find_None_iff)

lemma fls_eq_0_iff: "fls w = 0 \<longleftrightarrow> (\<forall>n < 32. \<not> bit w n)"
  using find_rev_upt_None [of "bit w" 32] by (auto simp: fls_def split: option.splits)

lemma fls_Suc: "fls w = Suc n \<longleftrightarrow> n < 32 \<and> bit w n \<and> (\<forall>m < 32. bit w m \<longrightarrow> m \<le> n)"
  using find_rev_upt_Some [of "bit w" 32]
  by (auto simp: fls_def split: option.splits intro: order_antisym)

lemma highest_vector_None: "highest_vector r = None \<longleftrightarrow> (\<forall>w < 256. \<not> vec_test r w)"
proof -
  have "highest_vector r = None \<longleftrightarrow> (\<forall>i < 8. \<forall>n < 32. \<not> bit (r i) n)"
    using find_rev_upt_None [of "\<lambda>i. fls (r i) \<noteq> 0" 8] by (auto simp: highest_vector_def fls_eq_0_iff)
  also have "\<dots> \<longleftrightarrow> (\<forall>w < 256. \<not> vec_test r w)"
  proof
    assume a: "\<forall>i < 8. \<forall>n < 32. \<not> bit (r i) n"
    then show "\<forall>w < 256. \<not> vec_test r w"
      by (auto simp: vec_test_def less_mult_imp_div_less)
  next
    assume a: "\<forall>w < 256. \<not> vec_test r w"
    show "\<forall>i < 8. \<forall>n < 32. \<not> bit (r i) n"
    proof (intro allI impI)
      fix i n :: nat assume "i < 8" "n < 32"
      then have "\<not> vec_test r (i * 32 + n)" using a by auto
      with \<open>n < 32\<close> show "\<not> bit (r i) n" by (simp add: vec_test_def)
    qed
  qed
  finally show ?thesis .
qed

lemma highest_vector_Some_imp:
  assumes "highest_vector r = Some v"
  shows "v < 256 \<and> vec_test r v \<and> (\<forall>w < 256. vec_test r w \<longrightarrow> w \<le> v)"
proof -
  from assms obtain i where i: "i < 8" "fls (r i) \<noteq> 0" "v = i * 32 + (fls (r i) - 1)"
    and above: "\<And>j. j < 8 \<Longrightarrow> fls (r j) \<noteq> 0 \<Longrightarrow> j \<le> i"
    using find_rev_upt_Some [of "\<lambda>i. fls (r i) \<noteq> 0" 8] by (auto simp: highest_vector_def)
  then obtain n where n: "fls (r i) = Suc n" by (cases "fls (r i)") auto
  then have bits: "n < 32" "bit (r i) n" "\<And>m. m < 32 \<Longrightarrow> bit (r i) m \<Longrightarrow> m \<le> n"
    by (auto simp: fls_Suc)
  have v: "v = i * 32 + n" using i n by simp
  have "w \<le> v" if "w < 256" "vec_test r w" for w
  proof -
    have "bit (r (w div 32)) (w mod 32)" and "w mod 32 < 32"
      using that by (simp_all add: vec_test_def)
    then have "fls (r (w div 32)) \<noteq> 0" unfolding fls_eq_0_iff by blast
    then have le: "w div 32 \<le> i" using above that(1) by (simp add: less_mult_imp_div_less)
    show ?thesis
    proof (cases "w div 32 = i")
      case True
      with that bits(3) [of "w mod 32"] have "w mod 32 \<le> n" by (simp add: vec_test_def)
      with True v show ?thesis using mult_div_mod_eq [of 32 w] by linarith
    next
      case False
      with le have "w div 32 + 1 \<le> i" by simp
      with v show ?thesis using mult_div_mod_eq [of 32 w] mod_less_divisor [of 32 w] by linarith
    qed
  qed
  with i(1) v bits(1,2) show ?thesis by (auto simp: vec_test_def)
qed

lemma highest_vector_Some:
  "highest_vector r = Some v \<longleftrightarrow> v < 256 \<and> vec_test r v \<and> (\<forall>w < 256. vec_test r w \<longrightarrow> w \<le> v)"
proof
  assume rhs: "v < 256 \<and> vec_test r v \<and> (\<forall>w < 256. vec_test r w \<longrightarrow> w \<le> v)"
  then obtain u where u: "highest_vector r = Some u"
    using highest_vector_None [of r] by (cases "highest_vector r") auto
  from highest_vector_Some_imp [OF this] rhs have "u = v" by (meson order_antisym)
  with u show "highest_vector r = Some v" by simp
qed (rule highest_vector_Some_imp)

interpretation vecs: vector_bitmap vec_test vec_set vec_clear highest_vector
  by unfold_locales (simp_all add: vec_test_set vec_test_clear highest_vector_None highest_vector_Some)

section \<open>The in-service stack\<close>

definition isr_stack :: "vlapic \<Rightarrow> nat list" where
  "isr_stack vl = map (vl_isrvec_stk vl) [1..<vl_isrvec_stk_top vl + 1]"

definition isr_set :: "vlapic \<Rightarrow> nat set" where
  "isr_set vl = {v. v < 256 \<and> vec_test (lp_isr (vl_page vl)) v}"

lemma isr_set_members: "isr_set vl = vecs.members (lp_isr (vl_page vl))"
  by (simp add: isr_set_def vecs.members_def)

definition prio_less :: "nat \<Rightarrow> nat \<Rightarrow> bool" where
  "prio_less a b \<longleftrightarrow> PRIO a < PRIO b"

text \<open>Stack and ISR hold the same vectors, in strictly increasing priority class.\<close>

definition isr_inv :: "vlapic \<Rightarrow> bool" where
  "isr_inv vl \<longleftrightarrow> vl_isrvec_stk vl 0 = 0 \<and> sorted_wrt prio_less (isr_stack vl) \<and>
     set (isr_stack vl) = isr_set vl \<and> (\<forall>v \<in> isr_set vl. 16 \<le> v)"

lemma prio_less_imp_less: "prio_less a b \<Longrightarrow> a < b"
  by (auto simp: prio_less_def PRIO_def)

lemma stack_length_le:
  assumes "sorted_wrt prio_less xs" "\<forall>v \<in> set xs. 16 \<le> v \<and> v < 256"
  shows "length xs \<le> 15"
proof -
  have "sorted_wrt (<) (map PRIO xs)"
    unfolding sorted_wrt_map by (rule sorted_wrt_mono_rel [OF _ assms(1)]) (simp add: prio_less_def)
  then have "distinct (map PRIO xs)"
    by (simp add: strict_sorted_iff)
  moreover have "1 \<le> PRIO v \<and> PRIO v \<le> 15" if "v \<in> set xs" for v
    using assms(2) that div_le_mono [of 16 v 16] div_le_mono [of v 255 16]
    by (auto simp: PRIO_def)
  then have "set (map PRIO xs) \<subseteq> {1..15}" by auto
  ultimately show ?thesis
    using card_mono [of "{1..15::nat}" "set (map PRIO xs)"] distinct_card by fastforce
qed

lemma length_isr_stack [simp]: "length (isr_stack vl) = vl_isrvec_stk_top vl"
  by (simp add: isr_stack_def del: upt_Suc)

lemma isr_inv_top: "isr_inv vl \<Longrightarrow> vl_isrvec_stk_top vl \<le> 15"
  using stack_length_le [of "isr_stack vl"] by (simp add: isr_inv_def) (simp add: isr_set_def)

lemma prio_increasing_sorted:
  "sorted_wrt prio_less xs \<Longrightarrow> (\<forall>l. lp = Some l \<longrightarrow> (\<forall>x \<in> set xs. l < PRIO x)) \<Longrightarrow>
     prio_increasing lp xs"
  by (induction xs arbitrary: lp) (auto simp: prio_less_def split: option.splits)

lemma isr_in_sync_suffix:
  assumes "sorted_wrt (<) (map stk [i..<stk_top + 1])"
    and "set (map stk [i..<stk_top + 1]) = {v. n \<le> v \<and> v < m \<and> vec_test isr v}"
  shows "isr_in_sync isr stk stk_top i [n..<m]"
  using assms
proof (induction "m - n" arbitrary: n i)
  case 0
  then show ?case by simp
next
  case (Suc k)
  then have nm: "n < m" and k: "k = m - Suc n" by auto
  let ?xs = "map stk [i..<stk_top + 1]"
  show ?case
  proof (cases "vec_test isr n")
    case False
    have "{v. n \<le> v \<and> v < m \<and> vec_test isr v} = {v. Suc n \<le> v \<and> v < m \<and> vec_test isr v}"
      using False by (auto simp: Suc_le_eq order_le_less)
    with Suc.hyps(1) [OF k, of i] Suc.prems False nm show ?thesis by (simp add: upt_conv_Cons)
  next
    case True
    have n_in: "n \<in> set ?xs" using Suc.prems(2) True nm by blast
    then have i: "i < stk_top + 1" by (auto dest: in_set_conv_nth [THEN iffD1])
    define ys where "ys = map stk [i + 1..<stk_top + 1]"
    have xs: "?xs = stk i # ys"
      using i unfolding ys_def by (simp only: upt_conv_Cons list.map Suc_eq_plus1)
    have mem: "v = stk i \<or> v \<in> set ys \<longleftrightarrow> n \<le> v \<and> v < m \<and> vec_test isr v" for v
      using Suc.prems(2) unfolding xs set_eq_iff by simp
    have tail_gt: "\<And>v. v \<in> set ys \<Longrightarrow> stk i < v"
      using Suc.prems(1) unfolding xs by simp
    have stk_i: "stk i = n"
      using mem [of n] mem [of "stk i"] tail_gt [of n] True nm by (meson leD order_refl)
    have "set ys = {v. Suc n \<le> v \<and> v < m \<and> vec_test isr v}"
    proof (rule set_eqI)
      fix v
      show "v \<in> set ys \<longleftrightarrow> v \<in> {v. Suc n \<le> v \<and> v < m \<and> vec_test isr v}"
        using mem [of v] tail_gt [of v] unfolding stk_i by (cases "v = n") auto
    qed
    then have "set (map stk [i + 1..<stk_top + 1]) = {v. Suc n \<le> v \<and> v < m \<and> vec_test isr v}"
      unfolding ys_def .
    moreover have "sorted_wrt (<) (map stk [i + 1..<stk_top + 1])"
      using Suc.prems(1) unfolding xs ys_def by simp
    ultimately have "isr_in_sync isr stk stk_top (i + 1) [Suc n..<m]"
      by (rule Suc.hyps(1) [OF k, rotated])
    with True stk_i i nm show ?thesis by (simp add: upt_conv_Cons)
  qed
qed


section \<open>No reachable consistency panic\<close>

lemma upd_page_simps [simp]:
  "vl_page (upd_page f vl) = f (vl_page vl)" "vl_isrvec_stk (upd_page f vl) = vl_isrvec_stk vl"
  "vl_isrvec_stk_top (upd_page f vl) = vl_isrvec_stk_top vl"
  "vl_lvt_last (upd_page f vl) = vl_lvt_last vl" "vl_vcpuid (upd_page f vl) = vl_vcpuid vl"
  "vl_msr_apicbase (upd_page f vl) = vl_msr_apicbase vl" "vl_events (upd_page f vl) = vl_events vl"
  "vl_esr_pending (upd_page f vl) = vl_esr_pending vl" "vl_svr_last (upd_page f vl) = vl_svr_last vl"
  "vl_boot_state (upd_page f vl) = vl_boot_state vl" "vl_callout (upd_page f vl) = vl_callout vl"
  by (simp_all add: upd_page_def)

lemma emit_simps [simp]:
  "vl_page (emit e vl) = vl_page vl" "vl_isrvec_stk (emit e vl) = vl_isrvec_stk vl"
  "vl_isrvec_stk_top (emit e vl) = vl_isrvec_stk_top vl"
  "vl_events (emit e vl) = vl_events vl @ [e]" "vl_lvt_last (emit e vl) = vl_lvt_last vl"
  "vl_vcpuid (emit e vl) = vl_vcpuid vl" "vl_msr_apicbase (emit e vl) = vl_msr_apicbase vl"
  "vl_boot_state (emit e vl) = vl_boot_state vl"
  by (simp_all add: emit_def)

text \<open>The part of the state the in-service invariant speaks about.\<close>

definition isr_part :: "vlapic \<Rightarrow> (nat \<Rightarrow> u32) \<times> (nat \<Rightarrow> nat) \<times> nat" where
  "isr_part vl = (lp_isr (vl_page vl), vl_isrvec_stk vl, vl_isrvec_stk_top vl)"

lemma isr_inv_part: "isr_part vl = isr_part vl' \<Longrightarrow> isr_inv vl = isr_inv vl'"
  by (simp add: isr_part_def isr_inv_def isr_stack_def isr_set_def)

lemma stack_top:
  assumes "0 < vl_isrvec_stk_top vl"
  shows "isr_stack vl \<noteq> []" "last (isr_stack vl) = vl_isrvec_stk vl (vl_isrvec_stk_top vl)"
  using assms by (auto simp: isr_stack_def)

lemma top_prio_max:
  assumes "isr_inv vl" "v \<in> isr_set vl"
  shows "v \<le> vl_isrvec_stk vl (vl_isrvec_stk_top vl)" "0 < vl_isrvec_stk_top vl"
proof -
  from assms have v: "v \<in> set (isr_stack vl)" by (simp add: isr_inv_def)
  then show pos: "0 < vl_isrvec_stk_top vl"
    by (metis length_isr_stack length_pos_if_in_set)
  obtain ys where ys: "isr_stack vl = ys @ [vl_isrvec_stk vl (vl_isrvec_stk_top vl)]"
    using stack_top [OF pos] by (metis append_butlast_last_id)
  from assms(1) have "sorted_wrt prio_less (isr_stack vl)" by (simp add: isr_inv_def)
  with v show "v \<le> vl_isrvec_stk vl (vl_isrvec_stk_top vl)"
    unfolding ys by (auto simp: sorted_wrt_append intro: less_imp_le prio_less_imp_less)
qed

lemma update_ppr_ok:
  assumes "isr_inv vl"
  shows "vlapic_update_ppr vl =
    (let isrvec = vl_isrvec_stk vl (vl_isrvec_stk_top vl); tpr = lp_tpr (vl_page vl)
     in Some (upd_page (\<lambda>p. p\<lparr>lp_ppr := if PRIO (unat tpr) \<ge> PRIO isrvec then tpr
                                        else of_nat isrvec AND 0xf0\<rparr>) vl))"
proof -
  have "prio_increasing None (isr_stack vl)"
    using assms by (auto simp: isr_inv_def intro: prio_increasing_sorted)
  moreover have "isr_in_sync (lp_isr (vl_page vl)) (vl_isrvec_stk vl) (vl_isrvec_stk_top vl) 1 [0..<256]"
  proof (rule isr_in_sync_suffix)
    show "sorted_wrt (<) (map (vl_isrvec_stk vl) [1..<vl_isrvec_stk_top vl + 1])"
      using assms unfolding isr_inv_def isr_stack_def
      by (auto intro: sorted_wrt_mono_rel [OF prio_less_imp_less])
    show "set (map (vl_isrvec_stk vl) [1..<vl_isrvec_stk_top vl + 1]) =
        {v. 0 \<le> v \<and> v < 256 \<and> vec_test (lp_isr (vl_page vl)) v}"
      using assms unfolding isr_inv_def isr_stack_def isr_set_def by simp
  qed
  moreover have "\<not> (vl_isrvec_stk_top vl = 0 \<and> vl_isrvec_stk vl (vl_isrvec_stk_top vl) \<noteq> 0)"
    using assms unfolding isr_inv_def by metis
  ultimately show ?thesis
    by (simp only: vlapic_update_ppr_def isr_stack_def Let_def not_True_eq_False if_False)
qed

lemma PRIO_and_f0: "v < 256 \<Longrightarrow> PRIO (unat (of_nat v AND 0xf0 :: u32)) = PRIO v"
proof -
  assume v: "v < 256"
  have "unat (of_nat v AND 0xf0 :: u32) = v AND 240"
    using v by (simp add: unsigned_and_eq unat_of_nat)
  then have "PRIO (unat (of_nat v AND 0xf0 :: u32)) = drop_bit 4 (v AND 240)"
    by (simp add: PRIO_def drop_bit_eq_div)
  also have "\<dots> = drop_bit 4 v AND mask 4"
    by (simp add: drop_bit_and mask_eq_exp_minus_1)
  also have "\<dots> = take_bit 4 (PRIO v)"
    by (simp add: PRIO_def drop_bit_eq_div take_bit_eq_mask)
  also have "\<dots> = PRIO v"
    using v div_le_mono [of v 255 16] by (simp add: PRIO_def take_bit_nat_eq_self_iff)
  finally show ?thesis .
qed


lemma isr_part_frame:
  "isr_part (upd_page (\<lambda>p. p\<lparr>lp_ppr := x\<rparr>) vl) = isr_part vl"
  "isr_part (upd_page (\<lambda>p. p\<lparr>lp_tpr := x\<rparr>) vl) = isr_part vl"
  "isr_part (emit e vl) = isr_part vl"
  by (simp_all add: isr_part_def)

lemma update_ppr_frame:
  assumes "vlapic_update_ppr vl = Some vl'"
  shows "isr_part vl' = isr_part vl" "lp_irr (vl_page vl') = lp_irr (vl_page vl)"
    "lp_tmr (vl_page vl') = lp_tmr (vl_page vl)" "vl_events vl' = vl_events vl"
  using assms by (auto simp: vlapic_update_ppr_def Let_def isr_part_def split: if_splits)

lemma update_ppr_prio:
  assumes "isr_inv vl" "vlapic_update_ppr vl = Some vl'"
  shows "PRIO (unat (lp_ppr (vl_page vl'))) =
    max (PRIO (unat (lp_tpr (vl_page vl)))) (PRIO (vl_isrvec_stk vl (vl_isrvec_stk_top vl)))"
proof -
  have "vl_isrvec_stk vl (vl_isrvec_stk_top vl) < 256"
  proof (cases "vl_isrvec_stk_top vl = 0")
    case True
    then show ?thesis using assms(1) by (simp add: isr_inv_def)
  next
    case False
    then have "vl_isrvec_stk vl (vl_isrvec_stk_top vl) \<in> isr_set vl"
      using stack_top [of vl] last_in_set [of "isr_stack vl"] assms(1) by (simp add: isr_inv_def)
    then show ?thesis by (simp add: isr_set_def)
  qed
  then show ?thesis using assms
    by (auto simp: update_ppr_ok Let_def PRIO_and_f0 max_def)
qed

lemma set_tpr_ok: "isr_inv vl \<Longrightarrow> \<exists>vl'. vlapic_set_tpr vl val = Some vl' \<and> isr_inv vl'"
proof -
  assume inv: "isr_inv vl"
  let ?vl = "upd_page (\<lambda>p. p\<lparr>lp_tpr := ucast val\<rparr>) vl"
  have inv': "isr_inv ?vl" using inv isr_inv_part [OF isr_part_frame(2)] by blast
  then obtain vl' where "vlapic_update_ppr ?vl = Some vl'" by (simp add: update_ppr_ok Let_def)
  moreover from this have "isr_inv vl'" using isr_inv_part update_ppr_frame(1) inv' by blast
  ultimately show ?thesis using inv by (simp add: vlapic_set_tpr_def)
qed

lemma pending_ok:
  assumes "isr_inv vl"
  obtains r vl' where "vlapic_pending_intr vl = Some (r, vl')" "isr_inv vl'"
    "isr_part vl' = isr_part vl"
    "\<And>v. r = Some v \<Longrightarrow> v < 256 \<and> vec_test (lp_irr (vl_page vl)) v \<and>
       PRIO (vl_isrvec_stk vl (vl_isrvec_stk_top vl)) < PRIO v"
proof -
  obtain vl' where u: "vlapic_update_ppr vl = Some vl'"
    using assms by (simp add: update_ppr_ok Let_def)
  note prio = update_ppr_prio [OF assms u]
  show ?thesis
  proof (rule that)
    show "isr_part vl' = isr_part vl" by (rule update_ppr_frame(1) [OF u])
    then show "isr_inv vl'" using assms isr_inv_part by blast
  qed (use u update_ppr_frame(2) [OF u] prio in
      \<open>auto simp: vlapic_pending_intr_def vecs.vhighest_Some split: option.splits if_splits\<close>)
qed

lemma accepted_ok:
  assumes inv: "isr_inv vl" and v: "v < 256"
    and prio: "PRIO (vl_isrvec_stk vl (vl_isrvec_stk_top vl)) < PRIO v"
  obtains vl' where "vlapic_intr_accepted vl v = Some vl'" "isr_inv vl'"
    "isr_stack vl' = isr_stack vl @ [v]" "isr_set vl' = insert v (isr_set vl)"
    "\<not> vec_test (lp_irr (vl_page vl')) v"
proof -
  let ?n = "vl_isrvec_stk_top vl"
  obtain vl' where vl': "vlapic_intr_accepted vl v = Some vl'"
    using isr_inv_top [OF inv] by (simp add: vlapic_intr_accepted_def Let_def)
  then have f: "vl_isrvec_stk_top vl' = ?n + 1"
      "vl_isrvec_stk vl' = (vl_isrvec_stk vl)(?n + 1 := v)"
      "lp_isr (vl_page vl') = vec_set v (lp_isr (vl_page vl))"
      "lp_irr (vl_page vl') = vec_clear v (lp_irr (vl_page vl))"
    by (auto simp: vlapic_intr_accepted_def Let_def split: if_splits)
  have stk: "isr_stack vl' = isr_stack vl @ [v]"
    unfolding isr_stack_def f by (simp del: upt_Suc add: upt_Suc_append)
  have set: "isr_set vl' = insert v (isr_set vl)"
    using v by (simp add: isr_set_members f vecs.members_ins)
  have "prio_less x v" if "x \<in> set (isr_stack vl)" for x
  proof -
    have "x \<in> isr_set vl" using that inv by (simp add: isr_inv_def)
    then have "x \<le> vl_isrvec_stk vl ?n" by (rule top_prio_max(1) [OF inv])
    then show ?thesis using prio div_le_mono [of x _ 16] by (auto simp: prio_less_def PRIO_def)
  qed
  moreover have "16 \<le> v" using prio by (auto simp: PRIO_def)
  moreover have "vl_isrvec_stk vl' 0 = 0" using inv by (simp add: isr_inv_def f)
  ultimately have "isr_inv vl'"
    using inv unfolding isr_inv_def stk set by (auto simp: sorted_wrt_append)
  moreover have "\<not> vec_test (lp_irr (vl_page vl')) v"
    unfolding f(4) vec_test_clear by simp
  ultimately show ?thesis using that [OF vl'] stk set by blast
qed

lemma eoi_ok:
  assumes inv: "isr_inv vl" and ne: "isr_set vl \<noteq> {}"
  obtains vl' where "vlapic_process_eoi vl = Some vl'" "isr_inv vl'"
    "isr_set vl' = isr_set vl - {Max (isr_set vl)}" "isr_stack vl' = butlast (isr_stack vl)"
    "vl_events vl' = vl_events vl @
       (if vec_test (lp_tmr (vl_page vl)) (Max (isr_set vl)) then [Ioapic_eoi (Max (isr_set vl))]
        else [])"
proof -
  let ?n = "vl_isrvec_stk_top vl" and ?v = "Max (isr_set vl)"
  have fin: "finite (isr_set vl)" by (simp add: isr_set_members)
  have vin: "?v \<in> isr_set vl" using fin ne by (rule Max_in)
  have vlt: "?v < 256" using vin by (simp add: isr_set_def)
  have pos: "0 < ?n" using top_prio_max(2) [OF inv vin] .
  have last: "last (isr_stack vl) = ?v" "isr_stack vl \<noteq> []"
  proof -
    have "vl_isrvec_stk vl ?n \<in> isr_set vl"
      using stack_top [OF pos] last_in_set [of "isr_stack vl"] inv by (simp add: isr_inv_def)
    then have "?v = vl_isrvec_stk vl ?n"
      using top_prio_max(1) [OF inv vin] Max_ge [OF fin] by (simp add: order_antisym)
    then show "last (isr_stack vl) = ?v" "isr_stack vl \<noteq> []" using stack_top [OF pos] by auto
  qed
  have hi: "highest_vector (lp_isr (vl_page vl)) = Some ?v"
    using ne by (simp add: vecs.highest_members isr_set_members)
  define vl1 where "vl1 = (upd_page (\<lambda>p. p\<lparr>lp_isr := vec_clear ?v (lp_isr p)\<rparr>) vl)
    \<lparr>vl_isrvec_stk_top := ?n - 1\<rparr>"
  have set1: "isr_set vl1 = isr_set vl - {?v}"
    using vlt by (simp add: isr_set_members vl1_def vecs.members_del)
  have stk1: "isr_stack vl1 = butlast (isr_stack vl)"
    using pos by (cases ?n) (simp_all add: isr_stack_def vl1_def del: upt_Suc add: upt_Suc_append)
  have sorted: "sorted_wrt prio_less (butlast (isr_stack vl) @ [?v])"
    using inv last append_butlast_last_id [of "isr_stack vl"] by (simp add: isr_inv_def)
  have "?v \<notin> set (butlast (isr_stack vl))"
    using sorted by (auto simp: sorted_wrt_append prio_less_def)
  then have "set (butlast (isr_stack vl)) = isr_set vl - {?v}"
    using last inv append_butlast_last_id [of "isr_stack vl"]
    by (metis Diff_insert_absorb isr_inv_def list.set(2) list.set(1) set_append Un_insert_right
        sup_bot_right)
  with inv sorted have inv1: "isr_inv vl1"
    unfolding isr_inv_def set1 stk1 by (auto simp: sorted_wrt_append vl1_def)
  then obtain vl2 where u: "vlapic_update_ppr vl1 = Some vl2"
    by (simp add: update_ppr_ok Let_def)
  note fr = update_ppr_frame [OF u]
  have eoi: "vlapic_process_eoi vl =
      Some (if vec_test (lp_tmr (vl_page vl2)) ?v then emit (Ioapic_eoi ?v) vl2 else vl2)"
    using pos hi u by (simp add: vlapic_process_eoi_def vl1_def Let_def)
  have part: "isr_part (if b then emit e vl2 else vl2) = isr_part vl1" for b e
    using fr(1) by (simp add: isr_part_frame)
  show ?thesis
  proof (rule that [OF eoi])
    show "isr_inv (if vec_test (lp_tmr (vl_page vl2)) ?v then emit (Ioapic_eoi ?v) vl2 else vl2)"
      using isr_inv_part [OF part] inv1 by blast
  qed (use part set1 stk1 fr in
      \<open>auto simp: isr_part_def isr_set_def isr_stack_def vl1_def split: if_splits\<close>)
qed


section \<open>What the other handlers leave alone\<close>

text \<open>The fields that only reset and boot touch, and the in-service part.\<close>

definition lapic_frame :: "vlapic \<Rightarrow> nat \<times> u64 \<times> boot_state" where
  "lapic_frame vl = (vl_vcpuid vl, vl_msr_apicbase vl, vl_boot_state vl)"

definition keeps :: "vlapic \<Rightarrow> vlapic \<Rightarrow> bool" where
  "keeps vl vl' \<longleftrightarrow> isr_part vl' = isr_part vl \<and> lapic_frame vl' = lapic_frame vl"

lemma keeps_refl [simp]: "keeps vl vl"
  by (simp add: keeps_def)

lemma keeps_trans: "keeps a b \<Longrightarrow> keeps b c \<Longrightarrow> keeps a c"
  by (simp add: keeps_def)

lemma keeps_isr_inv: "keeps vl vl' \<Longrightarrow> isr_inv vl' = isr_inv vl"
  unfolding keeps_def by (rule isr_inv_part) simp

lemma keeps_emit [simp]: "keeps vl (emit e vl') = keeps vl vl'"
  by (simp add: keeps_def lapic_frame_def isr_part_def)

lemmas keeps_defs = keeps_def lapic_frame_def isr_part_def

lemma fire_keeps:
  "keeps vl (snd (vlapic_set_intr_ready vl vector level))"
  "keeps vl (snd (vlapic_fire_lvt vl lvt))"
  "keeps vl (vlapic_set_error vl esr_bits lvt_error)"
proof (induction vl vector level and vl lvt and vl esr_bits lvt_error
    rule: vlapic_set_intr_ready_vlapic_fire_lvt_vlapic_set_error.induct)
  case (1 vl vector level)
  then show ?case
    by (subst vlapic_set_intr_ready.simps) (simp add: keeps_defs)
next
  case (2 vl lvt)
  then show ?case
    by (subst vlapic_fire_lvt.simps) (auto simp: Let_def split: prod.splits)
next
  case (3 vl esr_bits lvt_error)
  let ?vl = "vl\<lparr>vl_esr_pending := vl_esr_pending vl OR esr_bits\<rparr>"
  have "keeps vl ?vl" by (simp add: keeps_defs)
  then show ?case using 3
    by (subst vlapic_set_error.simps) (auto simp: Let_def intro: keeps_trans)
qed

lemma keeps_irr_tmr_upd:
  "keeps vl (upd_page (\<lambda>p. p\<lparr>lp_tmr := f p\<rparr>) vl)"
  "keeps vl (upd_page (\<lambda>p. p\<lparr>lp_irr := f p\<rparr>) vl)"
  by (simp_all add: keeps_defs)

lemma lvt_write_keeps: "keeps vl (vlapic_lvt_write_handler idx vl)"
  by (simp add: vlapic_lvt_write_handler_def Let_def keeps_defs)

lemma mask_lvt_keeps: "keeps vl (mask_lvt idx vl)"
  unfolding mask_lvt_def by (rule keeps_trans [OF _ lvt_write_keeps]) (simp add: keeps_defs)

lemma fold_keeps: "(\<And>x s. keeps s (f x s)) \<Longrightarrow> keeps s (fold f xs s)"
  by (induction xs arbitrary: s) (auto intro: keeps_trans)

lemma mask_lvts_keeps: "keeps vl (vlapic_mask_lvts vl)"
  unfolding vlapic_mask_lvts_def by (rule fold_keeps) (rule mask_lvt_keeps)

lemma icrtmr_keeps: "keeps vl (vlapic_icrtmr_write_handler T now vl)"
  by (simp add: vlapic_icrtmr_write_handler_def Let_def keeps_defs)

lemma svr_keeps: "keeps vl (vlapic_svr_write_handler T now vl)"
proof -
  let ?vl = "vl\<lparr>vl_svr_last := lp_svr (vl_page vl)\<rparr>"
  have 1: "keeps vl ?vl" "keeps vl (?vl\<lparr>vl_callout := callout_stop (vl_callout ?vl)\<rparr>)"
    by (simp_all add: keeps_defs)
  show ?thesis unfolding vlapic_svr_write_handler_def Let_def
    using 1(1) keeps_trans [OF 1(2) mask_lvts_keeps] keeps_trans [OF 1(1) icrtmr_keeps]
    by (simp split: if_splits)
qed

lemma keeps_timer_upd [simp]:
  "keeps vl (vl'\<lparr>vl_timer_fire_bt := t, vl_callout := c\<rparr>) = keeps vl vl'"
  by (simp add: keeps_defs)

lemma callout_keeps: "keeps vl (vlapic_callout_handler T now vl)"
proof -
  let ?vl = "vl\<lparr>vl_callout := callout_deactivate (vl_callout vl)\<rparr>"
  have "keeps vl (vlapic_fire_timer ?vl)" unfolding vlapic_fire_timer_def
    by (rule keeps_trans [OF _ fire_keeps(2)]) (simp add: keeps_defs)
  then show ?thesis
    unfolding vlapic_callout_handler_def Let_def by (simp add: case_prod_beta)
qed

lemma trigger_lvt_keeps: "keeps vl (snd (vlapic_trigger_lvt vl vector))"
  using fire_keeps(2) by (simp add: vlapic_trigger_lvt_def split: option.splits lvt.splits)

lemma timer_divisor_total: "\<exists>d. vlapic_timer_divisor dcr = Some d \<and> 1 \<le> d \<and> d \<le> 128"
proof -
  have "0xB = (push_bit 0 1 OR push_bit 1 1 OR push_bit 3 1 :: u32)" by simp
  then have "dcr AND 0xB = (of_bool (bit dcr 0) * push_bit 0 1 OR of_bool (bit dcr 1) * push_bit 1 1
      OR of_bool (bit dcr 3) * push_bit 3 1)"
    by (simp only: bit.conj_disj_distrib and_push_bit_1)
  then have "dcr AND 0xB \<in> {0, 1, 2, 3, 8, 9, 0xA, 0xB}" by (auto simp: of_bool_def)
  then show ?thesis by (auto simp: vlapic_timer_divisor_def Let_def)
qed


section \<open>Masking by the software-enable bit\<close>

definition lvts_masked :: "vlapic \<Rightarrow> bool" where
  "lvts_masked vl \<longleftrightarrow> (\<forall>idx. vl_lvt_last vl idx AND APIC_LVT_M \<noteq> 0)"

lemma lvt_write_last:
  "vl_lvt_last (vlapic_lvt_write_handler idx vl) =
     (vl_lvt_last vl)(idx := (if lp_svr (vl_page vl) AND APIC_SVR_ENABLE = 0
        then lp_lvt (vl_page vl) idx OR APIC_LVT_M else lp_lvt (vl_page vl) idx) AND lvt_write_mask idx)"
  by (simp add: vlapic_lvt_write_handler_def Let_def)

lemma lvt_write_mask_bit16: "bit (lvt_write_mask idx) 16"
  by (cases idx) (simp_all add: lvt_write_mask_def Let_def)

lemma and_LVT_M_iff: "x AND APIC_LVT_M \<noteq> 0 \<longleftrightarrow> bit x 16"
  using and_push_bit_1_neq_0 [of x 16] by simp

lemma mask_lvt_last:
  "bit (vl_lvt_last (mask_lvt idx vl) j) 16 = (j = idx \<or> bit (vl_lvt_last vl j) 16)"
proof -
  have "bit APIC_LVT_M 16" by simp
  then show ?thesis
    by (auto simp: mask_lvt_def lvt_write_last lvt_write_mask_bit16 bit_and_iff bit_or_iff)
qed

lemma fold_mask_lvt_last:
  "bit (vl_lvt_last (fold mask_lvt xs vl) j) 16 = (j \<in> set xs \<or> bit (vl_lvt_last vl j) 16)"
  by (induction xs arbitrary: vl) (auto simp: mask_lvt_last)

lemma mask_lvts_masked: "lvts_masked (vlapic_mask_lvts vl)"
proof -
  have "idx \<in> set [LVT_CMCI, LVT_TIMER, LVT_THERMAL, LVT_PMC, LVT_LINT0, LVT_LINT1, LVT_ERROR]" for idx
    by (cases idx) simp_all
  then show ?thesis
    unfolding lvts_masked_def and_LVT_M_iff vlapic_mask_lvts_def fold_mask_lvt_last by blast
qed

lemma mask_lvts_frame:
  "lp_svr (vl_page (vlapic_mask_lvts vl)) = lp_svr (vl_page vl)"
  "vl_callout (vlapic_mask_lvts vl) = vl_callout vl"
  by (simp_all add: vlapic_mask_lvts_def mask_lvt_def vlapic_lvt_write_handler_def Let_def)

lemma masked_fire_lvt: "lvts_masked vl \<Longrightarrow> vlapic_fire_lvt vl lvt = (False, vl)"
  by (subst vlapic_fire_lvt.simps) (simp add: lvts_masked_def Let_def)

lemma disabled_set_intr_ready:
  "lp_svr (vl_page vl) AND APIC_SVR_ENABLE = 0 \<Longrightarrow> vlapic_set_intr_ready vl v level = (False, vl)"
  by (subst vlapic_set_intr_ready.simps) simp

section \<open>Properties\<close>

text \<open>A local APIC with the enable bit set, vectors 0x30 (level) and 0x41 (edge) requested and
  nothing in service.\<close>

definition lapic_demo :: vlapic where
  "lapic_demo =
     \<lparr>vl_vcpuid = 0,
      vl_page = lapic_page_zero\<lparr>lp_svr := 0x1ff, lp_irr := vec_set 0x41 (vec_set 0x30 (\<lambda>_. 0)),
                                lp_tmr := vec_set 0x30 (\<lambda>_. 0)\<rparr>,
      vl_esr_pending = 0, vl_callout = callout_init, vl_timer_fire_bt = bintime_zero,
      vl_timer_freq_bt = bintime_zero, vl_timer_period_bt = bintime_zero,
      vl_isrvec_stk = (\<lambda>_. 0), vl_isrvec_stk_top = 0, vl_msr_apicbase = 0xfee00900,
      vl_boot_state = BS_RUNNING, vl_svr_last = 0x1ff, vl_lvt_last = (\<lambda>_. 0x31), vl_events = []\<rparr>"

lemma isr_inv_empty:
  "lp_isr (vl_page vl) = (\<lambda>_. 0) \<Longrightarrow> vl_isrvec_stk vl = (\<lambda>_. 0) \<Longrightarrow> vl_isrvec_stk_top vl = 0 \<Longrightarrow>
     isr_inv vl"
  by (simp add: isr_inv_def isr_stack_def isr_set_def vec_test_def)

lemma lapic_demo_inv [simp]: "isr_inv lapic_demo"
  by (rule isr_inv_empty) (simp_all add: lapic_demo_def lapic_page_zero_def)

text \<open>The same with the level-triggered vector 0x30 in service instead of requested.\<close>

definition lapic_demo_busy :: vlapic where
  "lapic_demo_busy =
     lapic_demo\<lparr>vl_page := (vl_page lapic_demo)\<lparr>lp_irr := vec_set 0x41 (\<lambda>_. 0),
         lp_isr := vec_set 0x30 (\<lambda>_. 0)\<rparr>,
       vl_isrvec_stk := (\<lambda>_. 0)(1 := 0x30), vl_isrvec_stk_top := 1\<rparr>"

definition irr_set :: "vlapic \<Rightarrow> nat set" where
  "irr_set vl = {v. v < 256 \<and> vec_test (lp_irr (vl_page vl)) v}"

lemma irr_set_members: "irr_set vl = vecs.members (lp_irr (vl_page vl))"
  by (simp add: irr_set_def vecs.members_def)

text \<open>The processor priority class: the higher of the TPR class and the class of the highest
  in-service vector.\<close>

definition ppr_class :: "vlapic \<Rightarrow> nat" where
  "ppr_class vl = max (PRIO (unat (lp_tpr (vl_page vl)))) (PRIO (Max (insert 0 (isr_set vl))))"

lemma vec_test_zero [simp]: "\<not> vec_test (\<lambda>_. 0) v"
  by (simp add: vec_test_def)

lemma lapic_demo_sets:
  "irr_set lapic_demo = {0x30, 0x41}" "isr_set lapic_demo = {}" "ppr_class lapic_demo = 0"
  by (auto simp: irr_set_def isr_set_def ppr_class_def PRIO_def lapic_demo_def lapic_page_zero_def
      vec_test_set)

lemma lapic_demo_busy_sets:
  "irr_set lapic_demo_busy = {0x41}" "isr_set lapic_demo_busy = {0x30}"
  "vl_events lapic_demo_busy = []" "vec_test (lp_tmr (vl_page lapic_demo_busy)) 0x30"
  "lp_tpr (vl_page lapic_demo_busy) = 0"
  by (auto simp: irr_set_def isr_set_def lapic_demo_busy_def lapic_demo_def lapic_page_zero_def
      vec_test_set)

lemma lapic_demo_busy_inv [simp]: "isr_inv lapic_demo_busy"
  unfolding isr_inv_def lapic_demo_busy_sets isr_stack_def by (simp add: lapic_demo_busy_def)

lemma lapic_demo_busy_pending:
  "\<exists>vl1. vlapic_pending_intr lapic_demo_busy = Some (Some 0x41, vl1)"
proof -
  have "highest_vector (lp_irr (vl_page lapic_demo_busy)) = Some 0x41"
    using lapic_demo_busy_sets(1) by (simp add: vecs.highest_members irr_set_members)
  moreover have "PRIO (unat (0x30 :: u32)) = 3" by (simp add: PRIO_def)
  moreover have "vl_isrvec_stk lapic_demo_busy (vl_isrvec_stk_top lapic_demo_busy) = 0x30"
    by (simp add: lapic_demo_busy_def)
  ultimately show ?thesis
    using lapic_demo_busy_sets(5)
    by (simp add: vlapic_pending_intr_def update_ppr_ok [OF lapic_demo_busy_inv] Let_def PRIO_def)
qed

lemma stack_top_Max:
  assumes "isr_inv vl"
  shows "vl_isrvec_stk vl (vl_isrvec_stk_top vl) = Max (insert 0 (isr_set vl))"
proof (cases "isr_set vl = {}")
  case True
  then have "isr_stack vl = []" using assms by (simp add: isr_inv_def)
  then have "vl_isrvec_stk_top vl = 0" by (metis length_isr_stack list.size(3))
  then show ?thesis using assms True by (simp add: isr_inv_def)
next
  case False
  then obtain v where v: "v \<in> isr_set vl" by blast
  let ?t = "vl_isrvec_stk vl (vl_isrvec_stk_top vl)"
  have "?t \<in> isr_set vl"
    using stack_top [OF top_prio_max(2) [OF assms v]] last_in_set [of "isr_stack vl"] assms
    by (simp add: isr_inv_def)
  then show ?thesis using top_prio_max(1) [OF assms]
    by (intro Max_eqI [symmetric]) (auto simp: isr_set_members)
qed

lemma pending_offer:
  assumes "isr_inv vl"
  shows "\<exists>vl'. vlapic_pending_intr vl =
      Some (if irr_set vl \<noteq> {} \<and> ppr_class vl < PRIO (Max (irr_set vl)) then Some (Max (irr_set vl))
            else None, vl') \<and>
    isr_inv vl' \<and> isr_set vl' = isr_set vl \<and> irr_set vl' = irr_set vl"
proof -
  obtain vl' where u: "vlapic_update_ppr vl = Some vl'"
    using assms by (simp add: update_ppr_ok Let_def)
  note fr = update_ppr_frame [OF u]
  have "PRIO (unat (lp_ppr (vl_page vl'))) = ppr_class vl"
    using update_ppr_prio [OF assms u] by (simp add: ppr_class_def stack_top_Max [OF assms])
  moreover have "isr_inv vl'" using assms isr_inv_part [OF fr(1)] by blast
  ultimately show ?thesis using u fr
    by (auto simp: vlapic_pending_intr_def vecs.highest_members irr_set_members isr_set_members
        isr_part_def)
qed

text \<open>C25. The interrupt offered to the vcpu: \<^verbatim>\<open>vlapic_pending_intr\<close> never panics on a
  consistent local APIC and offers the highest requested vector exactly when its class is above the
  processor priority class; the request and in-service registers are left as they were.\<close>

theorem vlapic_pending_spec:
  assumes "isr_inv vl"
  shows "\<exists>vl'. vlapic_pending_intr vl =
      Some (if irr_set vl \<noteq> {} \<and> ppr_class vl < PRIO (Max (irr_set vl)) then Some (Max (irr_set vl))
            else None, vl') \<and>
    isr_inv vl' \<and> isr_set vl' = isr_set vl \<and> irr_set vl' = irr_set vl"
  by (rule pending_offer [OF assms])

theorem vlapic_pending_spec_witness:
  "ppr_class lapic_demo = 0 \<and> irr_set lapic_demo = {0x30, 0x41} \<and>
   (\<exists>vl'. vlapic_pending_intr lapic_demo = Some (Some 0x41, vl') \<and> irr_set vl' = {0x30, 0x41})"
proof -
  have irr: "irr_set lapic_demo = {0x30, 0x41}" by (rule lapic_demo_sets)
  have ppr: "ppr_class lapic_demo = 0" by (rule lapic_demo_sets)
  show ?thesis using vlapic_pending_spec [of lapic_demo, OF lapic_demo_inv]
    unfolding irr ppr by (auto simp: PRIO_def)
qed

text \<open>End of interrupt: the highest in-service vector leaves the in-service register, no other
  bit changes, the I/O APIC hears of it exactly when the vector is level-triggered in the TMR, an
  EOI with nothing in service does nothing, and no consistency panic is reached.\<close>

theorem vlapic_eoi_spec:
  assumes "isr_inv vl"
  shows "\<exists>vl'. vlapic_process_eoi vl = Some vl' \<and> isr_inv vl' \<and>
    isr_set vl' = isr_set vl - {Max (isr_set vl)} \<and>
    vl_events vl' = vl_events vl @
      (if isr_set vl \<noteq> {} \<and> vec_test (lp_tmr (vl_page vl)) (Max (isr_set vl))
       then [Ioapic_eoi (Max (isr_set vl))] else [])"
proof (cases "isr_set vl = {}")
  case True
  then have "vlapic_process_eoi vl = Some vl"
    by (simp add: vlapic_process_eoi_def vecs.highest_members isr_set_members)
  then show ?thesis using assms True by simp
next
  case False
  obtain vl' where "vlapic_process_eoi vl = Some vl'" "isr_inv vl'"
    "isr_set vl' = isr_set vl - {Max (isr_set vl)}"
    "vl_events vl' = vl_events vl @
       (if vec_test (lp_tmr (vl_page vl)) (Max (isr_set vl)) then [Ioapic_eoi (Max (isr_set vl))]
        else [])"
    using eoi_ok [OF assms False] by blast
  with False show ?thesis by simp
qed

theorem vlapic_eoi_spec_witness:
  "isr_set lapic_demo_busy = {0x30} \<and>
   (\<exists>vl'. vlapic_process_eoi lapic_demo_busy = Some vl' \<and> isr_set vl' = {} \<and>
      vl_events vl' = [Ioapic_eoi 0x30])"
  using vlapic_eoi_spec [of lapic_demo_busy, OF lapic_demo_busy_inv] lapic_demo_busy_sets
  by auto

lemma service_cycle:
  assumes "isr_inv vl" and "vlapic_pending_intr vl = Some (Some v, vl1)"
  shows "\<exists>vl2 vl3. vlapic_intr_accepted vl1 v = Some vl2 \<and> isr_inv vl2 \<and>
    isr_set vl2 = insert v (isr_set vl) \<and> Max (isr_set vl2) = v \<and> v \<notin> irr_set vl2 \<and>
    vlapic_process_eoi vl2 = Some vl3 \<and> isr_inv vl3 \<and> isr_set vl3 = isr_set vl"
proof -
  obtain r vl' where p: "vlapic_pending_intr vl = Some (r, vl')" "isr_inv vl'"
      "isr_part vl' = isr_part vl"
      "\<And>v. r = Some v \<Longrightarrow> v < 256 \<and> vec_test (lp_irr (vl_page vl)) v \<and>
         PRIO (vl_isrvec_stk vl (vl_isrvec_stk_top vl)) < PRIO v"
    using pending_ok [OF assms(1)] by blast
  with assms(2) have v: "v < 256" "PRIO (vl_isrvec_stk vl (vl_isrvec_stk_top vl)) < PRIO v"
    and inv1: "isr_inv vl1" and part: "isr_part vl1 = isr_part vl" by auto
  have set1: "isr_set vl1 = isr_set vl" using part by (simp add: isr_part_def isr_set_def)
  have "PRIO (vl_isrvec_stk vl1 (vl_isrvec_stk_top vl1)) < PRIO v"
    using v part by (simp add: isr_part_def)
  then obtain vl2 where a: "vlapic_intr_accepted vl1 v = Some vl2" "isr_inv vl2"
      "isr_set vl2 = insert v (isr_set vl1)" "\<not> vec_test (lp_irr (vl_page vl2)) v"
    using accepted_ok [OF inv1 v(1)] by blast
  have above: "w < v" if "w \<in> isr_set vl1" for w
  proof -
    have "w \<le> vl_isrvec_stk vl1 (vl_isrvec_stk_top vl1)" by (rule top_prio_max(1) [OF inv1 that])
    then have "PRIO w \<le> PRIO (vl_isrvec_stk vl1 (vl_isrvec_stk_top vl1))"
      unfolding PRIO_def by (rule div_le_mono)
    then have "PRIO w < PRIO v" using v(2) part by (simp add: isr_part_def)
    then show ?thesis using prio_less_imp_less by (simp add: prio_less_def)
  qed
  have max: "Max (isr_set vl2) = v" unfolding a(3)
    using above by (intro Max_eqI) (auto simp: isr_set_members intro: less_imp_le)
  have "isr_set vl2 \<noteq> {}" using a(3) by blast
  then obtain vl3 where e: "vlapic_process_eoi vl2 = Some vl3" "isr_inv vl3"
      "isr_set vl3 = isr_set vl2 - {Max (isr_set vl2)}"
    using eoi_ok [OF a(2)] by blast
  have "isr_set vl3 = isr_set vl" using e(3) max a(3) above set1 by auto
  with a e max set1 show ?thesis by (auto simp: irr_set_def)
qed

text \<open>C14. Service cycle: a vector offered by \<^verbatim>\<open>vlapic_pending_intr\<close> can be accepted
  (the stack of in-service vectors never overflows), moves from the request to the in-service register
  and becomes the highest vector there; an EOI right after brings the in-service set back.\<close>

theorem vlapic_service_cycle:
  assumes "isr_inv vl" and "vlapic_pending_intr vl = Some (Some v, vl1)"
  shows "\<exists>vl2 vl3. vlapic_intr_accepted vl1 v = Some vl2 \<and> isr_inv vl2 \<and>
    isr_set vl2 = insert v (isr_set vl) \<and> Max (isr_set vl2) = v \<and> v \<notin> irr_set vl2 \<and>
    vlapic_process_eoi vl2 = Some vl3 \<and> isr_inv vl3 \<and> isr_set vl3 = isr_set vl"
  by (rule service_cycle [OF assms])

theorem vlapic_service_cycle_witness:
  "\<exists>vl1 vl2 vl3. vlapic_pending_intr lapic_demo_busy = Some (Some 0x41, vl1) \<and>
     vlapic_intr_accepted vl1 0x41 = Some vl2 \<and> isr_set vl2 = {0x30, 0x41} \<and>
     vlapic_process_eoi vl2 = Some vl3 \<and> isr_set vl3 = {0x30}"
proof -
  obtain vl1 where p: "vlapic_pending_intr lapic_demo_busy = Some (Some 0x41, vl1)"
    using lapic_demo_busy_pending by blast
  show ?thesis
    using vlapic_service_cycle [OF lapic_demo_busy_inv p] p
      lapic_demo_busy_sets by (auto simp: insert_commute)
qed

text \<open>Software disable: a write of the spurious vector register that clears the enable bit
  masks every entry of the local vector table and stops the timer; from then on no local source and
  no incoming interrupt changes the local APIC.\<close>

theorem vlapic_svr_disable:
  assumes "vl_svr_last vl AND APIC_SVR_ENABLE \<noteq> 0" "lp_svr (vl_page vl) AND APIC_SVR_ENABLE = 0"
  shows "let vl' = vlapic_svr_write_handler T now vl
    in \<not> co_active (vl_callout vl') \<and> (\<forall>lvt. vlapic_fire_lvt vl' lvt = (False, vl')) \<and>
       (\<forall>v level. vlapic_set_intr_ready vl' v level = (False, vl'))"
proof -
  let ?vl = "vl\<lparr>vl_svr_last := lp_svr (vl_page vl), vl_callout := callout_stop (vl_callout vl)\<rparr>"
  have "(vl_svr_last vl XOR lp_svr (vl_page vl)) AND APIC_SVR_ENABLE \<noteq> 0"
    using assms by (simp add: word_bw_assocs bit.conj_xor_distrib2 and.commute [of _ APIC_SVR_ENABLE]
        bit.conj_xor_distrib)
  then have "vlapic_svr_write_handler T now vl = vlapic_mask_lvts ?vl"
    using assms by (simp add: vlapic_svr_write_handler_def Let_def)
  moreover have "lp_svr (vl_page (vlapic_mask_lvts ?vl)) AND APIC_SVR_ENABLE = 0"
    using assms by (simp add: mask_lvts_frame)
  ultimately show ?thesis
    by (simp add: mask_lvts_masked masked_fire_lvt disabled_set_intr_ready mask_lvts_frame
        callout_stop_def)
qed

theorem vlapic_svr_disable_witness:
  "let vl = upd_page (\<lambda>p. p\<lparr>lp_svr := 0xff\<rparr>) lapic_demo;
       vl' = vlapic_svr_write_handler fixed_point_time bintime_zero vl
   in vl_svr_last vl AND 0x100 \<noteq> 0 \<and>
      vlapic_fire_lvt vl' LVT_TIMER = (False, vl') \<and> vlapic_set_intr_ready vl' 0x41 False = (False, vl')"
proof -
  let ?vl = "upd_page (\<lambda>p. p\<lparr>lp_svr := 0xff\<rparr>) lapic_demo"
  have "vl_svr_last ?vl AND 0x100 \<noteq> 0" "lp_svr (vl_page ?vl) AND 0x100 = 0"
    by (simp_all add: lapic_demo_def)
  from this vlapic_svr_disable [OF this, of fixed_point_time bintime_zero]
  show ?thesis by (simp add: Let_def)
qed

text \<open>CR8 and TPR: a legal CR8 write is read back unchanged and leaves the local APIC consistent;
  an illegal one only injects a general-protection fault.\<close>

theorem vlapic_cr8_roundtrip:
  assumes "isr_inv vl"
  shows "\<exists>vl'. vlapic_set_cr8 vl val = Some vl' \<and> isr_inv vl' \<and>
    (if val AND NOT 0xf = 0 then vlapic_get_cr8 vl' = val \<and> vl_events vl' = vl_events vl
     else vl' = emit Inject_gp vl)"
proof (cases "val AND NOT 0xf = 0")
  case False
  then show ?thesis using assms isr_inv_part [OF isr_part_frame(3)]
    by (simp add: vlapic_set_cr8_def)
next
  case True
  let ?t = "ucast (push_bit 4 val) :: u8"
  obtain vl' where s: "vlapic_set_tpr vl ?t = Some vl'" "isr_inv vl'"
    using set_tpr_ok [OF assms] by blast
  have tpr: "lp_tpr (vl_page vl') = ucast ?t" "vl_events vl' = vl_events vl"
    using s(1) by (auto simp: vlapic_set_tpr_def vlapic_update_ppr_def Let_def split: if_splits)
  have low: "n < 4" if "bit val n" for n
  proof (rule ccontr)
    assume "\<not> n < 4"
    then have "bit (val AND NOT (mask 4)) n"
      using that bit_imp_le_length [OF that] by (simp add: bit_simps)
    moreover have "mask 4 = (0xf :: u64)" by (simp add: mask_eq_exp_minus_1)
    ultimately show False using True by simp
  qed
  have "ucast (drop_bit 4 (ucast (ucast ?t :: u32) :: u8)) = val"
    by (rule bit_word_eqI) (use low in \<open>force simp: bit_simps\<close>)
  then show ?thesis using s tpr True by (auto simp: vlapic_set_cr8_def vlapic_get_cr8_def vlapic_get_tpr_def)
qed

theorem vlapic_cr8_roundtrip_witness:
  "\<exists>vl'. vlapic_set_cr8 lapic_demo 9 = Some vl' \<and> vlapic_get_cr8 vl' = 9"
  using vlapic_cr8_roundtrip [of lapic_demo 9, OF lapic_demo_inv] by auto

end
