(* ===== verification/Lapic_Vm.thy ===== *)
theory Lapic_Vm
  imports Vlapic
begin

text \<open>
  The local APICs of one virtual machine: the operations of \<^verbatim>\<open>vmm/io/vlapic.c\<close> that reach
  other vcpus (destination computation, interrupt commands, the register write switch) and the entry
  points of \<^verbatim>\<open>vmm/vmm_lapic.c\<close> (message-signalled interrupts, local interrupts, MSR and
  MMIO accesses). The state is the array of local APICs, the set of active vcpus and the exits to
  user space that a start-up interprocessor interrupt asks for. A cpuset is a predicate on vcpu
  numbers; the loops over \<^verbatim>\<open>CPU_FFS\<close> visit its members in increasing order. \<open>None\<close>
  is a panic of the source or an access outside a cpuset.
\<close>

section \<open>State\<close>

type_synonym cpuset = "nat \<Rightarrow> bool"

record lapic_vm =
  vm_lapics :: "nat \<Rightarrow> vlapic"
  vm_active_cpus :: cpuset
  vm_maxcpus :: nat
  vm_spinups :: "(nat \<times> u64) list"

abbreviation (input) APIC_VECTOR_MASK :: u32 where "APIC_VECTOR_MASK \<equiv> 0xff"
abbreviation (input) APIC_DELMODE_MASK :: u32 where "APIC_DELMODE_MASK \<equiv> 0x700"
abbreviation (input) APIC_DELMODE_FIXED :: u32 where "APIC_DELMODE_FIXED \<equiv> 0"
abbreviation (input) APIC_DELMODE_LOWPRIO :: u32 where "APIC_DELMODE_LOWPRIO \<equiv> 0x100"
abbreviation (input) APIC_DELMODE_NMI :: u32 where "APIC_DELMODE_NMI \<equiv> 0x400"
abbreviation (input) APIC_DELMODE_INIT :: u32 where "APIC_DELMODE_INIT \<equiv> 0x500"
abbreviation (input) APIC_DELMODE_STARTUP :: u32 where "APIC_DELMODE_STARTUP \<equiv> 0x600"
abbreviation (input) APIC_DELMODE_EXINT :: u32 where "APIC_DELMODE_EXINT \<equiv> 0x700"
abbreviation (input) APIC_DESTMODE_LOG :: u32 where "APIC_DESTMODE_LOG \<equiv> 0x800"
abbreviation (input) APIC_DELSTAT_PEND :: u32 where "APIC_DELSTAT_PEND \<equiv> 0x1000"
abbreviation (input) APIC_LEVEL_MASK :: u32 where "APIC_LEVEL_MASK \<equiv> 0x4000"
abbreviation (input) APIC_DEST_MASK :: u32 where "APIC_DEST_MASK \<equiv> 0xc0000"
abbreviation (input) APIC_DEST_DESTFLD :: u32 where "APIC_DEST_DESTFLD \<equiv> 0"
abbreviation (input) APIC_DEST_SELF :: u32 where "APIC_DEST_SELF \<equiv> 0x40000"
abbreviation (input) APIC_DEST_ALLISELF :: u32 where "APIC_DEST_ALLISELF \<equiv> 0x80000"
abbreviation (input) APIC_DEST_ALLESELF :: u32 where "APIC_DEST_ALLESELF \<equiv> 0xc0000"
abbreviation (input) MSR_APICBASE :: u32 where "MSR_APICBASE \<equiv> 0x1b"

definition upd_lapic :: "nat \<Rightarrow> (vlapic \<Rightarrow> vlapic) \<Rightarrow> lapic_vm \<Rightarrow> lapic_vm" where
  "upd_lapic i f vm = vm\<lparr>vm_lapics := (vm_lapics vm)(i := f (vm_lapics vm i))\<rparr>"

text \<open>The members of a cpuset in the order in which \<^verbatim>\<open>CPU_FFS\<close> finds them.\<close>

definition cpu_list :: "lapic_vm \<Rightarrow> cpuset \<Rightarrow> nat list" where
  "cpu_list vm dmask = filter dmask [0..<vm_maxcpus vm]"

definition vm_apicid2vcpuid :: "u32 \<Rightarrow> int" where
  "vm_apicid2vcpuid apicid = sint apicid"

definition vm_activate_cpu :: "lapic_vm \<Rightarrow> int \<Rightarrow> int \<times> lapic_vm" where
  "vm_activate_cpu vm vcpuid =
     (if vcpuid < 0 \<or> vcpuid \<ge> int (vm_maxcpus vm) then (EINVAL, vm)
      else if vm_active_cpus vm (nat vcpuid) then (16, vm)
      else (0, vm\<lparr>vm_active_cpus := (vm_active_cpus vm)(nat vcpuid := True)\<rparr>))"

section \<open>Destinations\<close>

text \<open>The body of the loop of the logical mode: whether the local APIC is addressed by
  \<open>dest\<close>.\<close>

definition logical_match :: "u32 \<Rightarrow> bool \<Rightarrow> vlapic \<Rightarrow> bool" where
  "logical_match dest x2apic_dest vl =
     (let mda_flat_ldest = dest AND 0xff;
          (mda_cluster_id, mda_cluster_ldest) =
            (if x2apic_dest then (drop_bit 16 dest, dest AND 0xffff)
             else (drop_bit 4 dest AND 0xf, dest AND 0xf));
          dfr = lp_dfr (vl_page vl); ldr = lp_ldr (vl_page vl)
      in if dfr AND APIC_DFR_MODEL_MASK = 0xf0000000
         then mda_flat_ldest AND drop_bit 24 ldr \<noteq> 0
         else if dfr AND APIC_DFR_MODEL_MASK = 0
         then let (cluster, ldest) =
                    (if x2apic vl then (drop_bit 16 ldr, ldr AND 0xffff)
                     else (drop_bit 28 ldr, drop_bit 24 ldr AND 0xf))
              in cluster = mda_cluster_id \<and> mda_cluster_ldest AND ldest \<noteq> 0
         else False)"

text \<open>In physical mode the APIC id, an unsigned 32-bit number, becomes a signed vcpu number that is
  compared with the number of vcpus and then indexes the cpuset: a negative one reads outside it.\<close>

definition vlapic_calcdest :: "lapic_vm \<Rightarrow> u32 \<Rightarrow> bool \<Rightarrow> bool \<Rightarrow> bool \<Rightarrow> cpuset option" where
  "vlapic_calcdest vm dest phys lowprio x2apic_dest =
     (if x2apic_dest \<and> dest = 0xffffffff \<or> \<not> x2apic_dest \<and> dest = 0xff
      then Some (vm_active_cpus vm)
      else if phys
      then let vcpuid = vm_apicid2vcpuid dest
           in if vcpuid < 0 then None
              else Some (\<lambda>i. i = nat vcpuid \<and> vcpuid < int (vm_maxcpus vm) \<and> vm_active_cpus vm i)
      else let ms = filter (\<lambda>i. logical_match dest x2apic_dest (vm_lapics vm i))
                      (cpu_list vm (vm_active_cpus vm));
               ms = (if lowprio then take 1 ms else ms)
           in Some (\<lambda>i. i \<in> set ms))"

section \<open>Interrupt delivery\<close>

definition lapic_set_intr :: "lapic_vm \<Rightarrow> int \<Rightarrow> nat \<Rightarrow> bool \<Rightarrow> int \<times> lapic_vm" where
  "lapic_set_intr vm cpu vector level =
     (if cpu < 0 \<or> cpu \<ge> int (vm_maxcpus vm) then (EINVAL, vm)
      else if vector < 16 \<or> vector > 255 then (EINVAL, vm)
      else (0, upd_lapic (nat cpu)
                 (\<lambda>vl. let (r, vl) = vlapic_set_intr_ready vl vector level
                       in if r then emit Vcpu_notify_event vl else vl) vm))"

definition lapic_intr_edge :: "lapic_vm \<Rightarrow> int \<Rightarrow> nat \<Rightarrow> int \<times> lapic_vm" where
  "lapic_intr_edge vm cpu vector = lapic_set_intr vm cpu vector False"

text \<open>The loop stops at the first error, as \<^verbatim>\<open>break\<close> does.\<close>

fun trigger_lvts :: "lapic_vm \<Rightarrow> nat list \<Rightarrow> int \<Rightarrow> int \<times> lapic_vm" where
  "trigger_lvts vm [] vector = (0, vm)"
| "trigger_lvts vm (cpu # cpus) vector =
     (let (error, vl) = vlapic_trigger_lvt (vm_lapics vm cpu) vector;
          vm = upd_lapic cpu (\<lambda>_. vl) vm
      in if error \<noteq> 0 then (error, vm) else trigger_lvts vm cpus vector)"

definition lapic_set_local_intr :: "lapic_vm \<Rightarrow> int \<Rightarrow> int \<Rightarrow> int \<times> lapic_vm" where
  "lapic_set_local_intr vm cpu vector =
     (if cpu < -1 \<or> cpu \<ge> int (vm_maxcpus vm) then (EINVAL, vm)
      else let dmask = (if cpu = -1 then vm_active_cpus vm else (\<lambda>i. i = nat cpu))
           in trigger_lvts vm (cpu_list vm dmask) vector)"

definition vlapic_deliver_intr ::
    "lapic_vm \<Rightarrow> bool \<Rightarrow> u32 \<Rightarrow> bool \<Rightarrow> u32 \<Rightarrow> nat \<Rightarrow> lapic_vm option" where
  "vlapic_deliver_intr vm level dest phys delmode vec =
     (if delmode \<noteq> APIC_DELMODE_FIXED \<and> delmode \<noteq> APIC_DELMODE_LOWPRIO \<and> delmode \<noteq> APIC_DELMODE_EXINT
      then Some vm
      else do {
        dmask \<leftarrow> vlapic_calcdest vm dest phys (delmode = APIC_DELMODE_LOWPRIO) False;
        Some (fold (\<lambda>vcpuid vm.
                if delmode = APIC_DELMODE_EXINT then upd_lapic vcpuid (emit Inject_extint) vm
                else snd (lapic_set_intr vm (int vcpuid) vec level))
              (cpu_list vm dmask) vm)
      })"

definition lapic_intr_msi :: "lapic_vm \<Rightarrow> u64 \<Rightarrow> u64 \<Rightarrow> (int \<times> lapic_vm) option" where
  "lapic_intr_msi vm addr msg =
     (if addr AND 0xfff00000 \<noteq> 0xfee00000 then Some (-1, vm)
      else do {
        let dest = ucast (drop_bit 12 addr AND 0xff);
        let phys = (addr AND (0x8 OR 0x4) \<noteq> 0x8 OR 0x4);
        let delmode = ucast (msg AND ucast APIC_DELMODE_MASK);
        let vec = unat (msg AND 0xff);
        vm \<leftarrow> vlapic_deliver_intr vm False dest phys delmode vec;
        Some (0, vm)
      })"

definition vlapic_set_tmr_level ::
    "lapic_vm \<Rightarrow> nat \<Rightarrow> u32 \<Rightarrow> bool \<Rightarrow> u32 \<Rightarrow> nat \<Rightarrow> lapic_vm option" where
  "vlapic_set_tmr_level vm i dest phys delmode vector =
     (if delmode \<noteq> APIC_DELMODE_FIXED \<and> delmode \<noteq> APIC_DELMODE_LOWPRIO then Some vm
      else do {
        dmask \<leftarrow> vlapic_calcdest vm dest phys (delmode = APIC_DELMODE_LOWPRIO) False;
        Some (if \<not> dmask (vl_vcpuid (vm_lapics vm i)) then vm
              else upd_lapic i (\<lambda>vl. vlapic_set_tmr vl vector True) vm)
      })"

section \<open>Interprocessor interrupts\<close>

definition send_ipis :: "u32 \<Rightarrow> nat \<Rightarrow> nat list \<Rightarrow> lapic_vm \<Rightarrow> lapic_vm" where
  "send_ipis mode vec cpus vm =
     fold (\<lambda>i vm. if mode = APIC_DELMODE_FIXED then snd (lapic_intr_edge vm (int i) vec)
                  else upd_lapic i (emit Inject_nmi) vm) cpus vm"

definition icr_dmask :: "lapic_vm \<Rightarrow> nat \<Rightarrow> u32 \<Rightarrow> u32 \<Rightarrow> cpuset option" where
  "icr_dmask vm self icr_lo dest =
     (let shorthand = icr_lo AND APIC_DEST_MASK
      in if shorthand = APIC_DEST_DESTFLD
         then vlapic_calcdest vm dest (icr_lo AND APIC_DESTMODE_LOG = 0) False
                (x2apic (vm_lapics vm self))
         else if shorthand = APIC_DEST_SELF then Some (\<lambda>i. i = vl_vcpuid (vm_lapics vm self))
         else if shorthand = APIC_DEST_ALLISELF then Some (vm_active_cpus vm)
         else Some ((vm_active_cpus vm)(vl_vcpuid (vm_lapics vm self) := False)))"

text \<open>The result: return value (1 asks for a return to user space), \<open>*retu\<close>, and the machine.
  \<open>self\<close> is the vcpu whose register was written; \<open>icr_dispatch\<close> is the part of the handler after
  the command and the destination are decoded.\<close>

definition icr_dispatch :: "lapic_vm \<Rightarrow> nat \<Rightarrow> u32 \<Rightarrow> u32 \<Rightarrow> (int \<times> bool \<times> lapic_vm) option" where
  "icr_dispatch vm self icr_lo dest =
     (let vec = unat (icr_lo AND APIC_VECTOR_MASK);
          mode = icr_lo AND APIC_DELMODE_MASK;
          to_ap = (vl_vcpuid (vm_lapics vm self) = 0 \<and> dest \<noteq> 0 \<and> unat dest < vm_maxcpus vm);
          ap = unat dest
      in if mode = APIC_DELMODE_FIXED \<and> vec < 16
         then Some (0, False, upd_lapic self
                (\<lambda>vl. vlapic_set_error vl APIC_ESR_SEND_ILLEGAL_VECTOR False) vm)
         else if mode = APIC_DELMODE_FIXED \<or> mode = APIC_DELMODE_NMI
         then do {
           dmask \<leftarrow> icr_dmask vm self icr_lo dest;
           Some (0, False, send_ipis mode vec (cpu_list vm dmask) vm)
         }
         else if mode = APIC_DELMODE_INIT \<and> icr_lo AND APIC_LEVEL_MASK = 0 then Some (0, False, vm)
         else if mode = APIC_DELMODE_INIT \<and> to_ap
         then Some (0, False,
                if vl_boot_state (vm_lapics vm ap) = BS_INIT
                then upd_lapic ap (\<lambda>vl. vl\<lparr>vl_boot_state := BS_SIPI\<rparr>) vm else vm)
         else if mode = APIC_DELMODE_STARTUP \<and> to_ap
         then (if vl_boot_state (vm_lapics vm ap) \<noteq> BS_SIPI then Some (0, False, vm)
               else Some (0, True,
                 (upd_lapic ap (\<lambda>vl. vl\<lparr>vl_boot_state := BS_RUNNING\<rparr>) vm)
                   \<lparr>vm_spinups := vm_spinups vm @ [(ap, push_bit 12 (of_nat vec))]\<rparr>))
         else Some (1, False, vm))"

definition vlapic_icrlo_write_handler :: "lapic_vm \<Rightarrow> nat \<Rightarrow> (int \<times> bool \<times> lapic_vm) option" where
  "vlapic_icrlo_write_handler vm self =
     (let vm = upd_lapic self (upd_page (\<lambda>p. p\<lparr>lp_icr_lo := lp_icr_lo p AND NOT APIC_DELSTAT_PEND\<rparr>)) vm;
          vl = vm_lapics vm self;
          icr_hi = lp_icr_hi (vl_page vl)
      in icr_dispatch vm self (lp_icr_lo (vl_page vl))
           (if x2apic vl then icr_hi else drop_bit 24 icr_hi))"

definition vlapic_self_ipi_handler :: "lapic_vm \<Rightarrow> nat \<Rightarrow> u64 \<Rightarrow> lapic_vm" where
  "vlapic_self_ipi_handler vm self val =
     snd (lapic_intr_edge vm (int (vl_vcpuid (vm_lapics vm self))) (unat (val AND 0xff)))"

section \<open>Register writes\<close>

text \<open>The cases of the switch that touch only the local APIC written to; \<open>data\<close> is truncated
  to the 32-bit register.\<close>

definition vlapic_write_local ::
    "time_ops \<Rightarrow> bintime \<Rightarrow> nat \<Rightarrow> u64 \<Rightarrow> vlapic \<Rightarrow> vlapic option" where
  "vlapic_write_local T now offset data vl =
     (let d = (ucast data :: u32)
      in if offset = 0x20 then Some (vlapic_id_write_handler (upd_page (\<lambda>p. p\<lparr>lp_id := d\<rparr>) vl))
         else if offset = 0x80 then vlapic_set_tpr vl (ucast data)
         else if offset = 0xB0 then vlapic_process_eoi vl
         else if offset = 0xD0 then Some (vlapic_ldr_write_handler (upd_page (\<lambda>p. p\<lparr>lp_ldr := d\<rparr>) vl))
         else if offset = 0xE0 then Some (vlapic_dfr_write_handler (upd_page (\<lambda>p. p\<lparr>lp_dfr := d\<rparr>) vl))
         else if offset = 0xF0
         then Some (vlapic_svr_write_handler T now (upd_page (\<lambda>p. p\<lparr>lp_svr := d\<rparr>) vl))
         else if offset = 0x310 then Some (upd_page (\<lambda>p. p\<lparr>lp_icr_hi := d\<rparr>) vl)
         else if offset = 0x380
         then Some (vlapic_icrtmr_write_handler T now (upd_page (\<lambda>p. p\<lparr>lp_icr_timer := d\<rparr>) vl))
         else if offset = 0x3E0
         then vlapic_dcr_write_handler T (upd_page (\<lambda>p. p\<lparr>lp_dcr_timer := d\<rparr>) vl)
         else if offset = 0x280 then Some (vlapic_esr_write_handler vl)
         else case lvt_off_to_idx offset of
                Some idx \<Rightarrow> Some (vlapic_lvt_write_handler idx
                  (upd_page (\<lambda>p. p\<lparr>lp_lvt := (lp_lvt p)(idx := d)\<rparr>) vl))
              | None \<Rightarrow> Some vl)"

definition vlapic_write ::
    "time_ops \<Rightarrow> bintime \<Rightarrow> lapic_vm \<Rightarrow> nat \<Rightarrow> bool \<Rightarrow> nat \<Rightarrow> u64 \<Rightarrow>
      (int \<times> bool \<times> lapic_vm) option" where
  "vlapic_write T now vm self mmio_access offset data =
     (let vl = vm_lapics vm self
      in if offset > 0x400 then Some (0, False, vm)
         else if x2apic vl \<and> mmio_access then Some (0, False, vm)
         else if \<not> x2apic vl \<and> \<not> mmio_access then Some (0, False, vm)
         else if offset = 0x300
         then vlapic_icrlo_write_handler
                (upd_lapic self (upd_page (\<lambda>p. p\<lparr>lp_icr_lo := ucast data,
                   lp_icr_hi := (if x2apic vl then ucast (drop_bit 32 data) else lp_icr_hi p)\<rparr>)) vm) self
         else if offset = 0x3F0
         then Some (0, False, if x2apic vl then vlapic_self_ipi_handler vm self data else vm)
         else do {
           vl \<leftarrow> vlapic_write_local T now offset data vl;
           Some (0, False, upd_lapic self (\<lambda>_. vl) vm)
         })"

section \<open>MSR and MMIO accesses\<close>

definition x2apic_msr :: "u32 \<Rightarrow> bool" where
  "x2apic_msr msr \<longleftrightarrow> msr \<ge> 0x800 \<and> msr \<le> 0xBFF"

definition x2apic_msr_to_regoff :: "u32 \<Rightarrow> nat" where
  "x2apic_msr_to_regoff msr = unat (push_bit 4 (msr - 0x800))"

definition lapic_msr :: "u32 \<Rightarrow> bool" where
  "lapic_msr msr \<longleftrightarrow> x2apic_msr msr \<or> msr = MSR_APICBASE"

definition lapic_rdmsr :: "time_ops \<Rightarrow> bintime \<Rightarrow> lapic_vm \<Rightarrow> nat \<Rightarrow> u32 \<Rightarrow> int \<times> u64" where
  "lapic_rdmsr T now vm cpu msr =
     (let vl = vm_lapics vm cpu
      in if msr = MSR_APICBASE then (0, vlapic_get_apicbase vl)
         else (0, vlapic_read T now vl False (x2apic_msr_to_regoff msr)))"

definition lapic_wrmsr ::
    "time_ops \<Rightarrow> bintime \<Rightarrow> lapic_vm \<Rightarrow> nat \<Rightarrow> u32 \<Rightarrow> u64 \<Rightarrow> (int \<times> bool \<times> lapic_vm) option" where
  "lapic_wrmsr T now vm cpu msr val =
     (if msr = MSR_APICBASE then Some (vlapic_set_apicbase (vm_lapics vm cpu) val, False, vm)
      else vlapic_write T now vm cpu False (x2apic_msr_to_regoff msr) val)"

definition lapic_mmio_write ::
    "time_ops \<Rightarrow> bintime \<Rightarrow> lapic_vm \<Rightarrow> nat \<Rightarrow> u64 \<Rightarrow> u64 \<Rightarrow> nat \<Rightarrow>
      (int \<times> bool \<times> lapic_vm) option" where
  "lapic_mmio_write T now vm cpu gpa wval sz =
     (let off = gpa - DEFAULT_APIC_BASE
      in if sz \<noteq> 4 \<or> off AND 0xf \<noteq> 0 then Some (EINVAL, False, vm)
         else vlapic_write T now vm cpu True (unat off) wval)"

definition lapic_mmio_read ::
    "time_ops \<Rightarrow> bintime \<Rightarrow> lapic_vm \<Rightarrow> nat \<Rightarrow> u64 \<Rightarrow> int \<times> u64 option" where
  "lapic_mmio_read T now vm cpu gpa =
     (let off = (gpa - DEFAULT_APIC_BASE) AND NOT 3
      in if off AND 0xf \<noteq> 0 then (EINVAL, None)
         else (0, Some (vlapic_read T now (vm_lapics vm cpu) True (unat off))))"


section \<open>Operations that keep the in-service state of every vcpu\<close>

definition vm_keeps :: "lapic_vm \<Rightarrow> lapic_vm \<Rightarrow> bool" where
  "vm_keeps vm vm' \<longleftrightarrow> (\<forall>i. keeps (vm_lapics vm i) (vm_lapics vm' i)) \<and>
     vm_active_cpus vm' = vm_active_cpus vm \<and> vm_maxcpus vm' = vm_maxcpus vm \<and>
     vm_spinups vm' = vm_spinups vm"

lemma upd_lapic_simps [simp]:
  "vm_lapics (upd_lapic i f vm) = (vm_lapics vm)(i := f (vm_lapics vm i))"
  "vm_active_cpus (upd_lapic i f vm) = vm_active_cpus vm"
  "vm_maxcpus (upd_lapic i f vm) = vm_maxcpus vm" "vm_spinups (upd_lapic i f vm) = vm_spinups vm"
  by (simp_all add: upd_lapic_def)

lemma vm_keeps_refl [simp]: "vm_keeps vm vm"
  by (simp add: vm_keeps_def)

lemma vm_keeps_trans: "vm_keeps a b \<Longrightarrow> vm_keeps b c \<Longrightarrow> vm_keeps a c"
  unfolding vm_keeps_def by (metis keeps_trans)

lemma vm_keeps_upd: "keeps (vm_lapics vm i) (f (vm_lapics vm i)) \<Longrightarrow> vm_keeps vm (upd_lapic i f vm)"
  by (simp add: vm_keeps_def)

lemma fold_vm_keeps: "(\<And>x s. vm_keeps s (f x s)) \<Longrightarrow> vm_keeps s (fold f xs s)"
  by (induction xs arbitrary: s) (auto intro: vm_keeps_trans)

lemma set_intr_vm_keeps: "vm_keeps vm (snd (lapic_set_intr vm cpu vector level))"
proof -
  have "keeps vl (let (r, vl) = vlapic_set_intr_ready vl vector level
      in if r then emit Vcpu_notify_event vl else vl)" for vl
    using fire_keeps(1) [of vl vector level] by (simp add: case_prod_beta Let_def)
  then show ?thesis by (simp add: lapic_set_intr_def vm_keeps_upd)
qed

lemma trigger_lvts_vm_keeps: "vm_keeps vm (snd (trigger_lvts vm cpus vector))"
proof (induction cpus arbitrary: vm)
  case Nil
  then show ?case by simp
next
  case (Cons cpu cpus)
  let ?vm = "upd_lapic cpu (\<lambda>_. snd (vlapic_trigger_lvt (vm_lapics vm cpu) vector)) vm"
  have "vm_keeps vm ?vm" by (rule vm_keeps_upd) (rule trigger_lvt_keeps)
  then show ?case using Cons.IH [of ?vm]
    by (auto simp: case_prod_beta Let_def intro: vm_keeps_trans)
qed

lemma set_local_intr_vm_keeps: "vm_keeps vm (snd (lapic_set_local_intr vm cpu vector))"
  by (simp add: lapic_set_local_intr_def trigger_lvts_vm_keeps Let_def)

lemma deliver_vm_keeps:
  assumes "vlapic_deliver_intr vm level dest phys delmode vec = Some vm'"
  shows "vm_keeps vm vm'"
proof -
  have "vm_keeps vm (fold (\<lambda>vcpuid vm.
          if delmode = APIC_DELMODE_EXINT then upd_lapic vcpuid (emit Inject_extint) vm
          else snd (lapic_set_intr vm (int vcpuid) vec level)) cpus vm)" for cpus
    by (rule fold_vm_keeps) (simp add: vm_keeps_upd set_intr_vm_keeps)
  then show ?thesis using assms
    by (auto simp: vlapic_deliver_intr_def split: if_splits bind_splits)
qed

lemma send_ipis_vm_keeps: "vm_keeps vm (send_ipis mode vec cpus vm)"
  unfolding send_ipis_def
  by (rule fold_vm_keeps) (simp add: vm_keeps_upd set_intr_vm_keeps lapic_intr_edge_def)

lemma set_tmr_level_vm_keeps:
  assumes "vlapic_set_tmr_level vm i dest phys delmode vector = Some vm'"
  shows "vm_keeps vm vm'"
proof -
  have "vm_keeps vm (upd_lapic i (\<lambda>vl. vlapic_set_tmr vl vector True) vm)"
    by (rule vm_keeps_upd) (simp add: vlapic_set_tmr_def keeps_irr_tmr_upd)
  then show ?thesis using assms
    by (auto simp: vlapic_set_tmr_level_def split: if_splits bind_splits)
qed

section \<open>Destinations of interrupts from devices\<close>

lemma u32_sint_neg: "sint w < 0 \<longleftrightarrow> 2 ^ 31 \<le> unat w" for w :: u32
proof -
  have "sint w < 0 \<longleftrightarrow> bit (uint w) 31"
    by (simp add: sint_uint signed_take_bit_negative_iff)
  also have "\<dots> \<longleftrightarrow> bit (unat w) 31" by (simp add: bit_unsigned_iff)
  also have "\<dots> \<longleftrightarrow> odd (unat w div 2 ^ 31)" by (rule bit_iff_odd)
  also have "\<dots> \<longleftrightarrow> 2 ^ 31 \<le> unat w"
  proof -
    have "unat w < 2 ^ 31 * 2" using unat_u32_less [of w] by simp
    then have "unat w div 2 ^ 31 < 2" by (simp add: less_mult_imp_div_less)
    then have "unat w div 2 ^ 31 = 0 \<or> unat w div 2 ^ 31 = 1" by linarith
    then show ?thesis by (auto simp: div_eq_0_iff)
  qed
  finally show ?thesis .
qed

lemma calcdest_None:
  "vlapic_calcdest vm dest phys lowprio x2 = None \<longleftrightarrow>
     phys \<and> 2 ^ 31 \<le> unat dest \<and> \<not> (x2 \<and> dest = 0xffffffff)"
proof -
  have "unat dest = 255" if "dest = 0xff" using that by simp
  then show ?thesis
    by (auto simp: vlapic_calcdest_def vm_apicid2vcpuid_def u32_sint_neg Let_def)
qed

lemma deliver_device_Some:
  assumes "unat dest < 2 ^ 31"
  shows "\<exists>vm'. vlapic_deliver_intr vm level dest phys delmode vec = Some vm'"
proof -
  obtain dmask where
    "vlapic_calcdest vm dest phys (delmode = APIC_DELMODE_LOWPRIO) False = Some dmask"
    using assms calcdest_None [of vm dest phys "delmode = APIC_DELMODE_LOWPRIO" False]
    by (meson linorder_not_less not_None_eq)
  then show ?thesis by (simp add: vlapic_deliver_intr_def)
qed

lemma set_tmr_level_Some:
  assumes "unat dest < 2 ^ 31"
  shows "\<exists>vm'. vlapic_set_tmr_level vm i dest phys delmode vector = Some vm'"
proof -
  obtain dmask where
    "vlapic_calcdest vm dest phys (delmode = APIC_DELMODE_LOWPRIO) False = Some dmask"
    using assms calcdest_None [of vm dest phys "delmode = APIC_DELMODE_LOWPRIO" False]
    by (meson linorder_not_less not_None_eq)
  then show ?thesis by (simp add: vlapic_set_tmr_level_def)
qed


section \<open>Reachable machines\<close>

text \<open>One call of an entry point. \<open>Run\<close> is the injection path of the vcpu run loop: ask for a
  pending vector and accept it. \<open>Ioapic_intr\<close> and \<open>Tmr_level\<close> are the calls the I/O APIC makes;
  its destinations have eight bits. \<open>Timer\<close> is the callout firing, which clears its pending flag
  first. An MSR write comes here only when \<^verbatim>\<open>lapic_msr\<close> holds of it.\<close>

datatype lapic_op =
    Mmio_write nat u64 u64 nat
  | Wrmsr nat u32 u64
  | Msi u64 u64
  | Set_intr int nat bool
  | Local_intr int int
  | Ioapic_intr bool u8 bool u32 nat
  | Tmr_level nat u8 bool u32 nat
  | Reset_tmr nat
  | Run nat
  | Set_cr8 nat u64
  | Sync_tpr nat
  | Timer nat
  | Cmci nat
  | Activate int
  | X2apic_state nat x2apic_state

definition on_lapic :: "nat \<Rightarrow> (vlapic \<Rightarrow> vlapic option) \<Rightarrow> lapic_vm \<Rightarrow> lapic_vm option" where
  "on_lapic i f vm = map_option (\<lambda>vl. upd_lapic i (\<lambda>_. vl) vm) (f (vm_lapics vm i))"

definition run_inject :: "vlapic \<Rightarrow> vlapic option" where
  "run_inject vl = do {
     (r, vl) \<leftarrow> vlapic_pending_intr vl;
     case r of None \<Rightarrow> Some vl | Some v \<Rightarrow> vlapic_intr_accepted vl v
   }"

fun lapic_exec :: "time_ops \<Rightarrow> bintime \<Rightarrow> lapic_op \<Rightarrow> lapic_vm \<Rightarrow> lapic_vm option" where
  "lapic_exec T now (Mmio_write i gpa val sz) vm =
     map_option (\<lambda>(_, _, vm). vm) (lapic_mmio_write T now vm i gpa val sz)"
| "lapic_exec T now (Wrmsr i msr val) vm =
     (if lapic_msr msr then map_option (\<lambda>(_, _, vm). vm) (lapic_wrmsr T now vm i msr val)
      else Some vm)"
| "lapic_exec T now (Msi addr msg) vm = map_option snd (lapic_intr_msi vm addr msg)"
| "lapic_exec T now (Set_intr cpu v level) vm = Some (snd (lapic_set_intr vm cpu v level))"
| "lapic_exec T now (Local_intr cpu v) vm = Some (snd (lapic_set_local_intr vm cpu v))"
| "lapic_exec T now (Ioapic_intr level dest phys delmode v) vm =
     vlapic_deliver_intr vm level (ucast dest) phys delmode v"
| "lapic_exec T now (Tmr_level i dest phys delmode v) vm =
     vlapic_set_tmr_level vm i (ucast dest) phys delmode v"
| "lapic_exec T now (Reset_tmr i) vm = Some (upd_lapic i vlapic_reset_tmr vm)"
| "lapic_exec T now (Run i) vm = on_lapic i run_inject vm"
| "lapic_exec T now (Set_cr8 i val) vm = on_lapic i (\<lambda>vl. vlapic_set_cr8 vl val) vm"
| "lapic_exec T now (Sync_tpr i) vm = on_lapic i vlapic_sync_tpr vm"
| "lapic_exec T now (Timer i) vm =
     Some (upd_lapic i (\<lambda>vl. vlapic_callout_handler T now
       (vl\<lparr>vl_callout := (vl_callout vl)\<lparr>co_pending := False\<rparr>\<rparr>)) vm)"
| "lapic_exec T now (Cmci i) vm = Some (upd_lapic i vlapic_fire_cmci vm)"
| "lapic_exec T now (Activate cpu) vm = Some (snd (vm_activate_cpu vm cpu))"
| "lapic_exec T now (X2apic_state i st) vm = Some (upd_lapic i (\<lambda>vl. vlapic_set_x2apic_state vl st) vm)"

text \<open>The machine right after the local APICs of all vcpus were initialised.\<close>

definition lapic_vm_init :: "time_ops \<Rightarrow> nat \<Rightarrow> lapic_vm \<Rightarrow> bool" where
  "lapic_vm_init T maxcpus vm \<longleftrightarrow> (\<forall>i. vlapic_init T i = Some (vm_lapics vm i)) \<and>
     vm_active_cpus vm = (\<lambda>_. False) \<and> vm_maxcpus vm = maxcpus \<and> vm_spinups vm = []"

inductive lapic_reachable :: "time_ops \<Rightarrow> nat \<Rightarrow> lapic_vm \<Rightarrow> bool" for T maxcpus where
  init: "lapic_vm_init T maxcpus vm \<Longrightarrow> lapic_reachable T maxcpus vm"
| step: "lapic_reachable T maxcpus vm \<Longrightarrow> lapic_exec T now op vm = Some vm' \<Longrightarrow>
    lapic_reachable T maxcpus vm'"

section \<open>The invariant\<close>

text \<open>Start-up: the application processors that were asked to start are exactly the running ones, each
  asked once.\<close>

definition boot_inv :: "lapic_vm \<Rightarrow> bool" where
  "boot_inv vm \<longleftrightarrow> distinct (map fst (vm_spinups vm)) \<and>
     (\<forall>i. i \<in> fst ` set (vm_spinups vm) \<longleftrightarrow> i \<noteq> 0 \<and> vl_boot_state (vm_lapics vm i) = BS_RUNNING)"

definition lapic_vm_inv :: "lapic_vm \<Rightarrow> bool" where
  "lapic_vm_inv vm \<longleftrightarrow> (\<forall>i. isr_inv (vm_lapics vm i) \<and> vl_vcpuid (vm_lapics vm i) = i) \<and>
     (\<forall>i. vm_active_cpus vm i \<longrightarrow> i < vm_maxcpus vm) \<and> boot_inv vm"

lemma keeps_fields:
  assumes "keeps vl vl'"
  shows "isr_inv vl' = isr_inv vl" "vl_vcpuid vl' = vl_vcpuid vl" "vl_boot_state vl' = vl_boot_state vl"
  by (rule keeps_isr_inv [OF assms]) (use assms in \<open>simp_all add: keeps_def lapic_frame_def\<close>)

lemma vm_keeps_inv: "vm_keeps vm vm' \<Longrightarrow> lapic_vm_inv vm' = lapic_vm_inv vm"
proof -
  assume k: "vm_keeps vm vm'"
  then have "isr_inv (vm_lapics vm' i) = isr_inv (vm_lapics vm i)"
    "vl_vcpuid (vm_lapics vm' i) = vl_vcpuid (vm_lapics vm i)"
    "vl_boot_state (vm_lapics vm' i) = vl_boot_state (vm_lapics vm i)" for i
    unfolding vm_keeps_def by (simp_all only: keeps_fields)
  with k show ?thesis by (simp add: vm_keeps_def lapic_vm_inv_def boot_inv_def)
qed

lemma upd_lapic_inv:
  assumes "lapic_vm_inv vm" "isr_inv (f (vm_lapics vm i))"
    "vl_vcpuid (f (vm_lapics vm i)) = vl_vcpuid (vm_lapics vm i)"
    "vl_boot_state (f (vm_lapics vm i)) = vl_boot_state (vm_lapics vm i)"
  shows "lapic_vm_inv (upd_lapic i f vm)"
  using assms unfolding lapic_vm_inv_def boot_inv_def by simp

definition lapic_ids :: "vlapic \<Rightarrow> nat \<times> boot_state" where
  "lapic_ids vl = (vl_vcpuid vl, vl_boot_state vl)"

lemma on_lapic_inv:
  assumes "lapic_vm_inv vm"
    and "\<And>vl. isr_inv vl \<Longrightarrow> \<exists>vl'. f vl = Some vl' \<and> isr_inv vl' \<and> lapic_ids vl' = lapic_ids vl"
  shows "\<exists>vm'. on_lapic i f vm = Some vm' \<and> lapic_vm_inv vm'"
proof -
  have "isr_inv (vm_lapics vm i)" using assms(1) by (simp add: lapic_vm_inv_def)
  from assms(2) [OF this] obtain vl' where "f (vm_lapics vm i) = Some vl'" "isr_inv vl'"
    "lapic_ids vl' = lapic_ids (vm_lapics vm i)" by blast
  then show ?thesis
    using upd_lapic_inv [OF assms(1), of "\<lambda>_. vl'" i] by (simp add: on_lapic_def lapic_ids_def)
qed

lemma update_ppr_ids: "vlapic_update_ppr vl = Some vl' \<Longrightarrow> lapic_ids vl' = lapic_ids vl"
  by (auto simp: vlapic_update_ppr_def Let_def lapic_ids_def split: if_splits)

lemma process_eoi_ids: "vlapic_process_eoi vl = Some vl' \<Longrightarrow> lapic_ids vl' = lapic_ids vl"
  by (auto simp: vlapic_process_eoi_def Let_def lapic_ids_def dest!: update_ppr_ids
      split: option.splits if_splits bind_splits)

lemma set_tpr_ids: "vlapic_set_tpr vl val = Some vl' \<Longrightarrow> lapic_ids vl' = lapic_ids vl"
  by (auto simp: vlapic_set_tpr_def lapic_ids_def dest!: update_ppr_ids split: if_splits)

lemma eoi_inv:
  "isr_inv vl \<Longrightarrow> \<exists>vl'. vlapic_process_eoi vl = Some vl' \<and> isr_inv vl' \<and> lapic_ids vl' = lapic_ids vl"
proof (cases "isr_set vl = {}")
  case True
  assume "isr_inv vl"
  with True show ?thesis by (simp add: vlapic_process_eoi_def vecs.highest_members isr_set_members)
next
  case False
  assume "isr_inv vl"
  with eoi_ok [OF this False] process_eoi_ids show ?thesis by metis
qed

lemma set_tpr_inv:
  "isr_inv vl \<Longrightarrow> \<exists>vl'. vlapic_set_tpr vl val = Some vl' \<and> isr_inv vl' \<and> lapic_ids vl' = lapic_ids vl"
  using set_tpr_ok set_tpr_ids by metis

lemma set_cr8_inv:
  "isr_inv vl \<Longrightarrow> \<exists>vl'. vlapic_set_cr8 vl val = Some vl' \<and> isr_inv vl' \<and> lapic_ids vl' = lapic_ids vl"
  using set_tpr_inv isr_inv_part [OF isr_part_frame(3)]
  by (simp add: vlapic_set_cr8_def lapic_ids_def)

lemma sync_tpr_inv:
  "isr_inv vl \<Longrightarrow> \<exists>vl'. vlapic_sync_tpr vl = Some vl' \<and> isr_inv vl' \<and> lapic_ids vl' = lapic_ids vl"
proof -
  assume inv: "isr_inv vl"
  then obtain vl' where u: "vlapic_update_ppr vl = Some vl'" by (simp add: update_ppr_ok Let_def)
  with inv show ?thesis
    using update_ppr_ids [OF u] isr_inv_part [OF update_ppr_frame(1) [OF u]]
    by (simp add: vlapic_sync_tpr_def)
qed

lemma run_inject_inv:
  "isr_inv vl \<Longrightarrow> \<exists>vl'. run_inject vl = Some vl' \<and> isr_inv vl' \<and> lapic_ids vl' = lapic_ids vl"
proof -
  assume inv: "isr_inv vl"
  obtain r vl1 where p: "vlapic_pending_intr vl = Some (r, vl1)" "isr_inv vl1"
      "isr_part vl1 = isr_part vl"
      "\<And>v. r = Some v \<Longrightarrow> v < 256 \<and> vec_test (lp_irr (vl_page vl)) v \<and>
         PRIO (vl_isrvec_stk vl (vl_isrvec_stk_top vl)) < PRIO v"
    using pending_ok [OF inv] by blast
  have ids: "lapic_ids vl1 = lapic_ids vl"
    using p(1) update_ppr_ids by (auto simp: vlapic_pending_intr_def split: bind_splits)
  show ?thesis
  proof (cases r)
    case None
    with p ids show ?thesis by (simp add: run_inject_def)
  next
    case (Some v)
    with p(4) have "v < 256" "PRIO (vl_isrvec_stk vl1 (vl_isrvec_stk_top vl1)) < PRIO v"
      using p(3) by (auto simp: isr_part_def)
    with accepted_ok [OF p(2), of v] obtain vl2
      where a: "vlapic_intr_accepted vl1 v = Some vl2" "isr_inv vl2" by metis
    have "lapic_ids vl2 = lapic_ids vl1"
      using a(1) by (auto simp: vlapic_intr_accepted_def Let_def lapic_ids_def split: if_splits)
    with a ids p(1) Some show ?thesis by (simp add: run_inject_def)
  qed
qed


lemma keeps_ids: "keeps vl vl' \<Longrightarrow> isr_inv vl \<Longrightarrow> isr_inv vl' \<and> lapic_ids vl' = lapic_ids vl"
  by (simp add: keeps_fields lapic_ids_def)

lemma keeps_page:
  "(\<And>p. lp_isr (f p) = lp_isr p) \<Longrightarrow> keeps vl (upd_page f vl)"
  by (simp add: keeps_defs)

lemma write_local_inv:
  assumes "isr_inv vl"
  shows "\<exists>vl'. vlapic_write_local T now offset data vl = Some vl' \<and> isr_inv vl' \<and>
    lapic_ids vl' = lapic_ids vl"
proof -
  let ?d = "ucast data :: u32"
  define ok where "ok r \<longleftrightarrow> (\<exists>vl'. r = Some vl' \<and> isr_inv vl' \<and> lapic_ids vl' = lapic_ids vl)" for r
  have k: "ok (Some v)" if "keeps vl v" for v using keeps_ids [OF that assms] by (simp add: ok_def)
  have lvt: "keeps vl (vlapic_lvt_write_handler idx
      (upd_page (\<lambda>p. p\<lparr>lp_lvt := (lp_lvt p)(idx := ?d)\<rparr>) vl))" for idx
    by (rule keeps_trans [OF keeps_page lvt_write_keeps]) simp
  have svr: "keeps vl (vlapic_svr_write_handler T now (upd_page (\<lambda>p. p\<lparr>lp_svr := ?d\<rparr>) vl))"
    by (rule keeps_trans [OF keeps_page svr_keeps]) simp
  have tmr: "keeps vl (vlapic_icrtmr_write_handler T now (upd_page (\<lambda>p. p\<lparr>lp_icr_timer := ?d\<rparr>) vl))"
    by (rule keeps_trans [OF keeps_page icrtmr_keeps]) simp
  have id: "keeps vl (vlapic_id_write_handler (upd_page (\<lambda>p. p\<lparr>lp_id := ?d\<rparr>) vl))"
    by (simp add: vlapic_id_write_handler_def keeps_defs)
  have ldr: "keeps vl (vlapic_ldr_write_handler (upd_page (\<lambda>p. p\<lparr>lp_ldr := ?d\<rparr>) vl))"
    by (simp add: vlapic_ldr_write_handler_def keeps_defs)
  have dfr: "keeps vl (vlapic_dfr_write_handler (upd_page (\<lambda>p. p\<lparr>lp_dfr := ?d\<rparr>) vl))"
    by (simp add: vlapic_dfr_write_handler_def keeps_defs)
  have icr_hi: "keeps vl (upd_page (\<lambda>p. p\<lparr>lp_icr_hi := ?d\<rparr>) vl)" by (rule keeps_page) simp
  have esr: "keeps vl (vlapic_esr_write_handler vl)"
    by (simp add: vlapic_esr_write_handler_def keeps_defs)
  obtain dcr where dcr: "vlapic_dcr_write_handler T (upd_page (\<lambda>p. p\<lparr>lp_dcr_timer := ?d\<rparr>) vl) = Some dcr"
    "keeps vl dcr"
    using timer_divisor_total [of ?d] by (auto simp: vlapic_dcr_write_handler_def keeps_defs Let_def)
  have "ok (vlapic_set_tpr vl (ucast data))" "ok (vlapic_process_eoi vl)"
    using set_tpr_inv [OF assms] eoi_inv [OF assms] by (simp_all add: ok_def)
  then have "ok (vlapic_write_local T now offset data vl)" unfolding vlapic_write_local_def Let_def
    using k lvt svr tmr id ldr dfr icr_hi esr dcr by (simp split: option.split)
  then show ?thesis by (simp add: ok_def)
qed

text \<open>The interrupt command that indexes a cpuset with a negative number.\<close>

definition bad_icr :: "vlapic \<Rightarrow> u32 \<Rightarrow> u32 \<Rightarrow> bool" where
  "bad_icr vl icr_lo icr_hi \<longleftrightarrow> x2apic vl \<and>
     (icr_lo AND APIC_DELMODE_MASK = APIC_DELMODE_NMI \<or>
      icr_lo AND APIC_DELMODE_MASK = APIC_DELMODE_FIXED \<and> 16 \<le> unat (icr_lo AND APIC_VECTOR_MASK)) \<and>
     icr_lo AND APIC_DEST_MASK = APIC_DEST_DESTFLD \<and> icr_lo AND APIC_DESTMODE_LOG = 0 \<and>
     2 ^ 31 \<le> unat icr_hi \<and> icr_hi \<noteq> 0xffffffff"

lemma and_not_and:
  fixes w :: "'a::len word"
  assumes "m AND k = 0"
  shows "(w AND NOT m) AND k = w AND k"
proof (rule bit_word_eqI)
  fix n
  assume "n < LENGTH('a)"
  moreover have "\<not> bit (m AND k) n" using assms by simp
  ultimately show "bit ((w AND NOT m) AND k) n = bit (w AND k) n"
    by (auto simp: bit_and_iff bit_not_iff)
qed

lemma and_not_disjoint:
  fixes w :: "'a::len word"
  assumes "w AND m = 0"
  shows "w AND NOT m = w"
proof (rule bit_word_eqI)
  fix n
  assume "n < LENGTH('a)"
  moreover have "\<not> bit (w AND m) n" using assms by simp
  ultimately show "bit (w AND NOT m) n = bit w n" by (auto simp: bit_and_iff bit_not_iff)
qed

lemma and_not_pend:
  "(w AND NOT APIC_DELSTAT_PEND) AND APIC_DELMODE_MASK = w AND APIC_DELMODE_MASK"
  "(w AND NOT APIC_DELSTAT_PEND) AND APIC_VECTOR_MASK = w AND APIC_VECTOR_MASK"
  "(w AND NOT APIC_DELSTAT_PEND) AND APIC_DEST_MASK = w AND APIC_DEST_MASK"
  "(w AND NOT APIC_DELSTAT_PEND) AND APIC_DESTMODE_LOG = w AND APIC_DESTMODE_LOG"
  "(w AND NOT APIC_DELSTAT_PEND) AND APIC_LEVEL_MASK = w AND APIC_LEVEL_MASK"
  by (rule and_not_and; simp)+

lemma drop_bit_24_less: "unat (drop_bit 24 w) < 2 ^ 31" for w :: u32
proof -
  have "unat (drop_bit 24 w) = drop_bit 24 (unat w)" by (rule unat_drop_bit_eq)
  also have "\<dots> \<le> unat w div 2 ^ 24" by (simp add: drop_bit_eq_div)
  also have "\<dots> < 2 ^ 31"
    using unat_u32_less [of w] by (intro less_mult_imp_div_less) simp
  finally show ?thesis .
qed


lemma if_eq_None: "((if b then x else y) = None) = (if b then x = None else y = None)"
  by simp

lemma icr_dmask_None:
  "icr_dmask vm self icr_lo dest = None \<longleftrightarrow>
     icr_lo AND APIC_DEST_MASK = 0 \<and> icr_lo AND APIC_DESTMODE_LOG = 0 \<and> 2 ^ 31 \<le> unat dest \<and>
     \<not> (x2apic (vm_lapics vm self) \<and> dest = 0xffffffff)"
  by (auto simp: icr_dmask_def Let_def calcdest_None)

lemma x2apic_upd_page [simp]: "x2apic (upd_page f vl) = x2apic vl"
  by (simp add: x2apic_def)

lemma set_boot_state_inv:
  assumes inv: "lapic_vm_inv vm" and old: "vl_boot_state (vm_lapics vm ap) \<noteq> BS_RUNNING"
  shows "st \<noteq> BS_RUNNING \<Longrightarrow> lapic_vm_inv (upd_lapic ap (\<lambda>vl. vl\<lparr>vl_boot_state := st\<rparr>) vm)"
    and "ap \<noteq> 0 \<Longrightarrow> lapic_vm_inv ((upd_lapic ap (\<lambda>vl. vl\<lparr>vl_boot_state := BS_RUNNING\<rparr>) vm)
           \<lparr>vm_spinups := vm_spinups vm @ [(ap, rip)]\<rparr>)"
proof -
  have part: "isr_inv (vl\<lparr>vl_boot_state := st\<rparr>) = isr_inv vl" for vl st
    by (rule isr_inv_part) (simp add: isr_part_def)
  have "ap \<notin> fst ` set (vm_spinups vm)"
    using inv old by (simp add: lapic_vm_inv_def boot_inv_def)
  then show "st \<noteq> BS_RUNNING \<Longrightarrow> lapic_vm_inv (upd_lapic ap (\<lambda>vl. vl\<lparr>vl_boot_state := st\<rparr>) vm)"
    and "ap \<noteq> 0 \<Longrightarrow> lapic_vm_inv ((upd_lapic ap (\<lambda>vl. vl\<lparr>vl_boot_state := BS_RUNNING\<rparr>) vm)
           \<lparr>vm_spinups := vm_spinups vm @ [(ap, rip)]\<rparr>)"
    using inv by (simp_all add: lapic_vm_inv_def boot_inv_def part)
qed

lemma icrlo_None:
  "vlapic_icrlo_write_handler vm self = None \<longleftrightarrow>
     bad_icr (vm_lapics vm self) (lp_icr_lo (vl_page (vm_lapics vm self)))
       (lp_icr_hi (vl_page (vm_lapics vm self)))"
proof -
  define vl where "vl = vm_lapics vm self"
  define lo where "lo = lp_icr_lo (vl_page vl)"
  define dest where "dest = (if x2apic vl then lp_icr_hi (vl_page vl)
    else drop_bit 24 (lp_icr_hi (vl_page vl)))"
  define vm1 where "vm1 = upd_lapic self
    (upd_page (\<lambda>p. p\<lparr>lp_icr_lo := lp_icr_lo p AND NOT APIC_DELSTAT_PEND\<rparr>)) vm"
  have x2: "x2apic (vm_lapics vm1 self) = x2apic vl" by (simp add: vm1_def vl_def)
  have xapic: "\<not> 2147483648 \<le> unat (drop_bit 24 w)" for w :: u32
    using drop_bit_24_less [of w] by simp
  have "vlapic_icrlo_write_handler vm self = None \<longleftrightarrow>
    \<not> (lo AND APIC_DELMODE_MASK = 0 \<and> unat (lo AND APIC_VECTOR_MASK) < 16) \<and>
    (lo AND APIC_DELMODE_MASK = 0 \<or> lo AND APIC_DELMODE_MASK = APIC_DELMODE_NMI) \<and>
    icr_dmask vm1 self (lo AND NOT APIC_DELSTAT_PEND) dest = None"
    unfolding vlapic_icrlo_write_handler_def icr_dispatch_def Let_def vm1_def lo_def dest_def vl_def
    by (simp add: if_eq_None and_not_pend [simplified] Option.bind_eq_None_conv cong: if_cong)
  then show ?thesis
    unfolding icr_dmask_None and_not_pend x2 bad_icr_def vl_def [symmetric] lo_def [symmetric]
    by (cases "x2apic vl") (auto simp: dest_def xapic)
qed

lemma icrlo_inv:
  assumes inv: "lapic_vm_inv vm" and r: "vlapic_icrlo_write_handler vm self = Some (ret, retu, vm')"
  shows "lapic_vm_inv vm'"
proof -
  define vm1 where "vm1 = upd_lapic self
    (upd_page (\<lambda>p. p\<lparr>lp_icr_lo := lp_icr_lo p AND NOT APIC_DELSTAT_PEND\<rparr>)) vm"
  have "vm_keeps vm vm1" unfolding vm1_def by (rule vm_keeps_upd) (simp add: keeps_page)
  then have inv1: "lapic_vm_inv vm1" using inv vm_keeps_inv by blast
  have err: "lapic_vm_inv (upd_lapic self (\<lambda>vl. vlapic_set_error vl bits False) vm1)" for bits
    using vm_keeps_inv [OF vm_keeps_upd, of vm1 self "\<lambda>vl. vlapic_set_error vl bits False"]
      fire_keeps(3) inv1 by blast
  have ipis: "lapic_vm_inv (send_ipis mode vec cpus vm1)" for mode vec cpus
    using vm_keeps_inv [OF send_ipis_vm_keeps] inv1 by blast
  have spin: "lapic_vm_inv ((upd_lapic (unat d) (\<lambda>vl. vl\<lparr>vl_boot_state := BS_RUNNING\<rparr>) vm1)
      \<lparr>vm_spinups := vm_spinups vm1 @ [(unat d, rip)]\<rparr>)"
    if "vl_boot_state (vm_lapics vm1 (unat d)) = BS_SIPI" "d \<noteq> 0" for d :: u32 and rip
    using set_boot_state_inv(2) [OF inv1, of "unat d"] that by (simp add: unat_eq_0)
  have sipi: "lapic_vm_inv (upd_lapic ap (\<lambda>vl. vl\<lparr>vl_boot_state := BS_SIPI\<rparr>) vm1)"
    if "vl_boot_state (vm_lapics vm1 ap) = BS_INIT" for ap
    using set_boot_state_inv(1) [OF inv1, of ap BS_SIPI] that by simp
  show ?thesis
    using r inv1 err ipis spin sipi
    unfolding vlapic_icrlo_write_handler_def icr_dispatch_def Let_def vm1_def [symmetric]
    by (auto split: if_splits bind_splits)
qed


lemma write_None:
  assumes "lapic_vm_inv vm"
  shows "vlapic_write T now vm self mmio offset data = None \<longleftrightarrow>
    offset = 0x300 \<and> \<not> mmio \<and> bad_icr (vm_lapics vm self) (ucast data) (ucast (drop_bit 32 data))"
proof -
  have "isr_inv (vm_lapics vm self)" using assms by (simp add: lapic_vm_inv_def)
  then obtain vl' where "vlapic_write_local T now offset data (vm_lapics vm self) = Some vl'"
    using write_local_inv by blast
  moreover have "bad_icr (upd_page f vl) = bad_icr vl" for f vl by (simp add: bad_icr_def fun_eq_iff)
  moreover have "bad_icr vl a b \<Longrightarrow> x2apic vl" for vl a b by (simp add: bad_icr_def)
  ultimately show ?thesis
    by (auto simp: vlapic_write_def Let_def icrlo_None if_eq_None simp del: not_None_eq split: if_splits)
qed

lemma write_inv:
  assumes inv: "lapic_vm_inv vm"
    and w: "vlapic_write T now vm self mmio offset data = Some (ret, retu, vm')"
  shows "lapic_vm_inv vm'"
proof -
  have "isr_inv (vm_lapics vm self)" using inv by (simp add: lapic_vm_inv_def)
  then obtain vl' where l: "vlapic_write_local T now offset data (vm_lapics vm self) = Some vl'"
      "isr_inv vl'" "lapic_ids vl' = lapic_ids (vm_lapics vm self)"
    using write_local_inv by blast
  then have loc: "lapic_vm_inv (upd_lapic self (\<lambda>_. vl') vm)"
    using upd_lapic_inv [OF inv, of "\<lambda>_. vl'" self] by (simp add: lapic_ids_def)
  let ?icr = "upd_lapic self (upd_page (\<lambda>p. p\<lparr>lp_icr_lo := ucast data, lp_icr_hi :=
    (if x2apic (vm_lapics vm self) then ucast (drop_bit 32 data) else lp_icr_hi p)\<rparr>)) vm"
  have "vm_keeps vm ?icr" by (rule vm_keeps_upd) (simp add: keeps_page)
  then have "lapic_vm_inv ?icr" using vm_keeps_inv inv by blast
  note icr = icrlo_inv [OF this]
  have "lapic_vm_inv (vlapic_self_ipi_handler vm self data)"
    unfolding vlapic_self_ipi_handler_def lapic_intr_edge_def
    using vm_keeps_inv [OF set_intr_vm_keeps] inv by blast
  with w inv loc l(1) icr show ?thesis
    by (auto simp: vlapic_write_def Let_def split: if_splits)
qed

lemma reset_tmr_keeps: "keeps vl (vlapic_reset_tmr vl)"
  unfolding vlapic_reset_tmr_def
  by (rule fold_keeps) (simp add: vlapic_set_tmr_def keeps_irr_tmr_upd)

lemma x2apic_state_inv:
  "isr_inv vl \<Longrightarrow> isr_inv (vlapic_set_x2apic_state vl st) \<and>
     lapic_ids (vlapic_set_x2apic_state vl st) = lapic_ids vl"
proof -
  have "isr_part (vlapic_set_x2apic_state vl st) = isr_part vl"
    by (simp add: vlapic_set_x2apic_state_def Let_def isr_part_def)
  then have "isr_inv (vlapic_set_x2apic_state vl st) = isr_inv vl" by (rule isr_inv_part)
  moreover assume "isr_inv vl"
  ultimately show ?thesis by (simp add: vlapic_set_x2apic_state_def Let_def lapic_ids_def)
qed

lemma x2apic_msr_icr: "x2apic_msr 0x830"
  by (simp add: x2apic_msr_def)

lemma regoff_icr: "x2apic_msr msr \<Longrightarrow> x2apic_msr_to_regoff msr = 0x300 \<longleftrightarrow> msr = 0x830"
proof -
  assume r: "x2apic_msr msr"
  then have "unat (msr - 0x800) = unat msr - 0x800" "unat msr \<le> 0xBFF" "0x800 \<le> unat msr"
    by (simp_all add: x2apic_msr_def word_le_nat_alt unat_sub)
  moreover have "x2apic_msr_to_regoff msr = take_bit LENGTH(32) (push_bit 4 (unat (msr - 0x800)))"
    unfolding x2apic_msr_to_regoff_def by (rule unsigned_push_bit_eq)
  moreover from calculation
  have "take_bit LENGTH(32) (push_bit 4 (unat (msr - 0x800))) = 16 * (unat msr - 0x800)"
    by (simp add: take_bit_nat_eq_self push_bit_eq_mult)
  moreover have "msr = 0x830 \<longleftrightarrow> unat msr = 0x830" by (simp add: word_unat_eq_iff)
  ultimately show ?thesis by auto
qed


lemma keeps_upd_inv:
  "lapic_vm_inv vm \<Longrightarrow> (\<And>vl. keeps vl (f vl)) \<Longrightarrow> lapic_vm_inv (upd_lapic i f vm)"
  using vm_keeps_inv [OF vm_keeps_upd] by blast

lemma activate_inv: "lapic_vm_inv vm \<Longrightarrow> lapic_vm_inv (snd (vm_activate_cpu vm cpu))"
  by (auto simp: vm_activate_cpu_def lapic_vm_inv_def boot_inv_def)

lemma timer_keeps:
  "keeps vl (vlapic_callout_handler T now (vl\<lparr>vl_callout := (vl_callout vl)\<lparr>co_pending := False\<rparr>\<rparr>))"
  by (rule keeps_trans [OF _ callout_keeps]) (simp add: keeps_defs)

lemma unat_ucast_u8: "unat (ucast d :: u32) = unat d" for d :: u8
  using unat_u8_less [of d] by (simp add: unsigned_ucast_eq take_bit_nat_eq_self)

lemma ucast_u8_less: "unat (ucast d :: u32) < 2 ^ 31" for d :: u8
  using unat_u8_less [of d] by (simp add: unat_ucast_u8)

lemma msi_Some: "\<exists>r vm'. lapic_intr_msi vm addr msg = Some (r, vm')"
proof -
  have "unat (ucast (drop_bit 12 addr AND 0xff :: u64) :: u32) \<le> unat (drop_bit 12 addr AND 0xff)"
    by (simp add: unsigned_ucast_eq take_bit_nat_less_eq_self)
  also have "\<dots> \<le> unat (0xff :: u64)" by (rule unat_and_mask_le)
  finally have "unat (ucast (drop_bit 12 addr AND 0xff :: u64) :: u32) < 2 ^ 31" by simp
  from deliver_device_Some [OF this] show ?thesis unfolding lapic_intr_msi_def Let_def
    by (metis (no_types, lifting) bind.bind_lunit)
qed

lemma exec_None:
  assumes inv: "lapic_vm_inv vm"
  shows "lapic_exec T now op vm = None \<longleftrightarrow>
    (\<exists>i val. op = Wrmsr i 0x830 val \<and>
       bad_icr (vm_lapics vm i) (ucast val) (ucast (drop_bit 32 val)))"
proof (cases op)
  case (Mmio_write i gpa val sz)
  then show ?thesis using write_None [OF inv]
    by (simp add: lapic_mmio_write_def Let_def if_eq_None)
next
  case (Wrmsr i msr val)
  then show ?thesis using write_None [OF inv] regoff_icr [of msr] x2apic_msr_icr
    by (auto simp: lapic_wrmsr_def lapic_msr_def if_eq_None simp del: not_None_eq split: if_splits)
next
  case (Msi addr msg)
  then show ?thesis using msi_Some [of vm addr msg] by auto
next
  case (Ioapic_intr level dest phys delmode v)
  then show ?thesis using deliver_device_Some [OF ucast_u8_less, of vm level dest phys delmode v]
    by auto
next
  case (Tmr_level i dest phys delmode v)
  then show ?thesis using set_tmr_level_Some [OF ucast_u8_less, of vm i dest phys delmode v]
    by auto
next
  case (Run i)
  then show ?thesis using on_lapic_inv [OF inv run_inject_inv, of i] by auto
next
  case (Set_cr8 i val)
  then show ?thesis using on_lapic_inv [OF inv, of "\<lambda>vl. vlapic_set_cr8 vl val" i] set_cr8_inv
    by auto
next
  case (Sync_tpr i)
  then show ?thesis using on_lapic_inv [OF inv sync_tpr_inv, of i] by auto
qed simp_all

lemma exec_inv:
  assumes inv: "lapic_vm_inv vm" and e: "lapic_exec T now op vm = Some vm'"
  shows "lapic_vm_inv vm'"
proof (cases op)
  case (Mmio_write i gpa val sz)
  then show ?thesis using e inv write_inv [OF inv]
    by (auto simp: lapic_mmio_write_def Let_def split: if_splits)
next
  case (Wrmsr i msr val)
  then show ?thesis using e inv write_inv [OF inv]
    by (auto simp: lapic_wrmsr_def split: if_splits)
next
  case (Msi addr msg)
  then show ?thesis using e inv vm_keeps_inv [OF deliver_vm_keeps]
    by (auto simp: lapic_intr_msi_def Let_def split: if_splits bind_splits)
next
  case (Set_intr cpu v level)
  then show ?thesis using e inv vm_keeps_inv [OF set_intr_vm_keeps] by auto
next
  case (Local_intr cpu v)
  then show ?thesis using e inv vm_keeps_inv [OF set_local_intr_vm_keeps] by auto
next
  case (Ioapic_intr level dest phys delmode v)
  then show ?thesis using e inv vm_keeps_inv [OF deliver_vm_keeps] by auto
next
  case (Tmr_level i dest phys delmode v)
  then show ?thesis using e inv vm_keeps_inv [OF set_tmr_level_vm_keeps] by auto
next
  case (Reset_tmr i)
  then show ?thesis using e keeps_upd_inv [OF inv reset_tmr_keeps] by auto
next
  case (Run i)
  then show ?thesis using e on_lapic_inv [OF inv run_inject_inv, of i] by auto
next
  case (Set_cr8 i val)
  then show ?thesis using e on_lapic_inv [OF inv, of "\<lambda>vl. vlapic_set_cr8 vl val" i] set_cr8_inv
    by auto
next
  case (Sync_tpr i)
  then show ?thesis using e on_lapic_inv [OF inv sync_tpr_inv, of i] by auto
next
  case (Timer i)
  then show ?thesis using e keeps_upd_inv [OF inv timer_keeps] by auto
next
  case (Cmci i)
  then show ?thesis using e keeps_upd_inv [OF inv, of vlapic_fire_cmci] fire_keeps(2)
    by (auto simp: vlapic_fire_cmci_def)
next
  case (Activate cpu)
  then show ?thesis using e activate_inv [OF inv] by auto
next
  case (X2apic_state i st)
  have "isr_inv (vm_lapics vm i)" using inv by (simp add: lapic_vm_inv_def)
  then show ?thesis using X2apic_state e x2apic_state_inv [of "vm_lapics vm i" st]
      upd_lapic_inv [OF inv, of "\<lambda>vl. vlapic_set_x2apic_state vl st" i]
    by (auto simp: lapic_ids_def)
qed

lemma reset_inv:
  assumes "vl_isrvec_stk vl = (\<lambda>_. 0)" "vl_isrvec_stk_top vl = 0"
  shows "\<exists>vl'. vlapic_reset T vl = Some vl' \<and> isr_inv vl' \<and> vl_vcpuid vl' = vl_vcpuid vl \<and>
    vl_boot_state vl' = (if vl_vcpuid vl = 0 then BS_RUNNING else BS_INIT)"
proof -
  define vl0 where "vl0 = vl\<lparr>vl_page := lapic_page_zero\<lparr>lp_id := vlapic_get_id vl,
    lp_version := VLAPIC_VERSION OR push_bit 16 VLAPIC_MAXLVT_INDEX,
    lp_dfr := 0xffffffff, lp_svr := APIC_SVR_VECTOR\<rparr>\<rparr>"
  define vl1 where "vl1 = upd_page (\<lambda>p. p\<lparr>lp_dcr_timer := 0\<rparr>) (vlapic_reset_tmr (vlapic_mask_lvts vl0))"
  have inv0: "isr_inv vl0"
    by (rule isr_inv_empty) (simp_all add: vl0_def assms lapic_page_zero_def)
  have k1: "keeps vl0 vl1" unfolding vl1_def
    by (intro keeps_trans [OF keeps_trans [OF mask_lvts_keeps reset_tmr_keeps] keeps_page]) simp
  obtain vl2 where d: "vlapic_dcr_write_handler T vl1 = Some vl2" "keeps vl1 vl2"
    using timer_divisor_total [of "lp_dcr_timer (vl_page vl1)"]
    by (auto simp: vlapic_dcr_write_handler_def keeps_defs Let_def)
  have k2: "keeps vl0 vl2" by (rule keeps_trans [OF k1 d(2)])
  let ?vl = "vl2\<lparr>vl_boot_state := if vl_vcpuid vl2 = 0 then BS_RUNNING else BS_INIT,
    vl_svr_last := lp_svr (vl_page vl2)\<rparr>"
  have "vlapic_reset T vl = Some ?vl"
    using d(1) by (simp add: vlapic_reset_def vl0_def vl1_def Let_def)
  moreover have "isr_inv ?vl = isr_inv vl2" by (rule isr_inv_part) (simp add: isr_part_def)
  moreover have "isr_inv vl2" using keeps_fields(1) [OF k2] inv0 by simp
  moreover have "vl_vcpuid vl2 = vl_vcpuid vl" using keeps_fields(2) [OF k2] by (simp add: vl0_def)
  ultimately show ?thesis by simp
qed

lemma init_lapic:
  "\<exists>vl. vlapic_init T i = Some vl \<and> isr_inv vl \<and> vl_vcpuid vl = i \<and>
     vl_boot_state vl = (if i = 0 then BS_RUNNING else BS_INIT)"
proof -
  obtain vl0 where "vlapic_init T i = vlapic_reset T vl0" "vl_isrvec_stk vl0 = (\<lambda>_. 0)"
      "vl_isrvec_stk_top vl0 = 0" "vl_vcpuid vl0 = i"
    using vlapic_init_def [of T i] by (metis vlapic.select_convs(1,8,9))
  then show ?thesis using reset_inv [of vl0 T] by simp
qed

lemma reachable_inv: "lapic_reachable T maxcpus vm \<Longrightarrow> lapic_vm_inv vm"
proof (induction rule: lapic_reachable.induct)
  case (init vm)
  then have "isr_inv (vm_lapics vm i) \<and> vl_vcpuid (vm_lapics vm i) = i \<and>
      vl_boot_state (vm_lapics vm i) = (if i = 0 then BS_RUNNING else BS_INIT)" for i
    using init_lapic [of T i] by (auto simp: lapic_vm_init_def)
  with init show ?case by (simp add: lapic_vm_inv_def boot_inv_def lapic_vm_init_def)
next
  case (step vm now op vm')
  then show ?case using exec_inv by blast
qed


section \<open>Delivery and start-up\<close>

lemma set_take1_filter_upt:
  "j \<in> set (take 1 (filter P [0..<n])) \<longleftrightarrow> j < n \<and> P j \<and> (\<forall>k < j. \<not> P k)"
proof (induction n)
  case 0
  then show ?case by simp
next
  case (Suc n)
  show ?case
  proof (cases "filter P [0..<n]")
    case Nil
    then have "\<not> P k" if "k < n" for k using that by (auto simp: filter_empty_conv)
    with Nil show ?thesis by (auto simp: less_Suc_eq)
  next
    case (Cons x xs)
    then have "x < n \<and> P x" by (metis (no_types, lifting) atLeastLessThan_iff filter_set
        list.set_intros(1) mem_Collect_eq set_filter set_upt)
    with Cons Suc show ?thesis by (auto simp: less_Suc_eq)
  qed
qed

lemma set_intr_upd:
  assumes "i < vm_maxcpus vm" "16 \<le> vec" "vec \<le> 255"
  shows "snd (lapic_set_intr vm (int i) vec level) =
    upd_lapic i (\<lambda>vl. if lp_svr (vl_page vl) AND APIC_SVR_ENABLE = 0 then vl
      else emit Vcpu_notify_event (upd_page (\<lambda>p. p\<lparr>lp_irr := vec_set vec (lp_irr p)\<rparr>) vl)) vm"
proof -
  have "(let (r, vl) = vlapic_set_intr_ready vl vec level in if r then emit Vcpu_notify_event vl else vl) =
    (if lp_svr (vl_page vl) AND APIC_SVR_ENABLE = 0 then vl
     else emit Vcpu_notify_event (upd_page (\<lambda>p. p\<lparr>lp_irr := vec_set vec (lp_irr p)\<rparr>) vl))" for vl
    using assms by (simp add: vlapic_set_intr_ready.simps)
  then show ?thesis using assms by (simp add: lapic_set_intr_def)
qed

lemma fold_upd_lapic:
  assumes "distinct cpus" "\<And>i. i \<in> set cpus \<Longrightarrow> i < n" "vm_maxcpus vm = n"
    and "\<And>i vm. i < n \<Longrightarrow> vm_maxcpus vm = n \<Longrightarrow> g i vm = upd_lapic i f vm"
  shows "vm_lapics (fold g cpus vm) j = (if j \<in> set cpus then f (vm_lapics vm j) else vm_lapics vm j)"
  using assms(1-3)
proof (induction cpus arbitrary: vm)
  case Nil
  then show ?case by simp
next
  case (Cons i cpus)
  have "g i vm = upd_lapic i f vm" using Cons.prems by (simp add: assms(4))
  with Cons show ?case by auto
qed

text \<open>Two active vcpus of four, flat logical ids 1 and 2, both enabled; the second one still in
  reset.\<close>

definition vm_demo :: lapic_vm where
  "vm_demo = \<lparr>vm_lapics = (\<lambda>i. lapic_demo\<lparr>vl_vcpuid := i,
       vl_boot_state := (if i = 0 then BS_RUNNING else BS_INIT),
       vl_page := (vl_page lapic_demo)\<lparr>lp_dfr := 0xffffffff,
         lp_ldr := (if i = 0 then 0x01000000 else 0x02000000)\<rparr>\<rparr>),
     vm_active_cpus = (\<lambda>i. i < 2), vm_maxcpus = 4, vm_spinups = []\<rparr>"

lemma vm_demo_inv: "lapic_vm_inv vm_demo"
proof -
  have "isr_inv (vm_lapics vm_demo i)" for i
    by (rule isr_inv_empty) (simp_all add: vm_demo_def lapic_demo_def lapic_page_zero_def)
  then show ?thesis by (simp add: lapic_vm_inv_def boot_inv_def) (simp add: vm_demo_def)
qed

lemma vm_demo_match: "logical_match 3 False (vm_lapics vm_demo i)"
  by (simp add: logical_match_def Let_def vm_demo_def)

text \<open>Who is addressed: the destinations of a device interrupt are the active vcpus that the
  broadcast id, the APIC id (physical mode) or the logical destination registers select; a
  lowest-priority interrupt in logical mode goes to the first match only.\<close>

theorem lapic_dest_spec:
  assumes "lapic_vm_inv vm" and "unat dest < 2 ^ 31"
  shows "\<exists>dmask. vlapic_calcdest vm dest phys lowprio False = Some dmask \<and>
    (\<forall>j. dmask j \<longleftrightarrow> vm_active_cpus vm j \<and> (dest = 0xff \<or>
       (if phys then j = unat dest
        else logical_match dest False (vm_lapics vm j) \<and>
          (lowprio \<longrightarrow> (\<forall>k < j. \<not> (vm_active_cpus vm k \<and> logical_match dest False (vm_lapics vm k)))))))"
proof -
  have act: "vm_active_cpus vm j \<Longrightarrow> j < vm_maxcpus vm" for j
    using assms(1) by (simp add: lapic_vm_inv_def)
  have s: "sint dest = int (unat dest)"
  proof -
    have u: "int (unat dest) = uint dest" by simp
    have "int (unat dest) < int (2 ^ 31)" using assms(2) by (simp only: of_nat_less_iff)
    then have "uint dest < 2 ^ 31" unfolding u by simp
    moreover have "- (2 ^ 31) \<le> uint dest" by (rule order.trans [of _ 0]) simp_all
    ultimately have "signed_take_bit 31 (uint dest) = uint dest"
      by (intro signed_take_bit_int_eq_self)
    then show ?thesis unfolding u by (simp add: sint_uint)
  qed
  let ?P = "\<lambda>i. vm_active_cpus vm i \<and> logical_match dest False (vm_lapics vm i)"
  have l: "filter (\<lambda>i. logical_match dest False (vm_lapics vm i)) (cpu_list vm (vm_active_cpus vm)) =
      filter ?P [0..<vm_maxcpus vm]" by (simp add: cpu_list_def conj_commute)
  consider "dest = 0xff" | "dest \<noteq> 0xff" phys | "dest \<noteq> 0xff" "\<not> phys" by blast
  then show ?thesis
  proof cases
    case 1
    then show ?thesis by (simp add: vlapic_calcdest_def)
  next
    case 2
    have "int (unat dest) < int (vm_maxcpus vm)" if "vm_active_cpus vm (unat dest)"
      using act [OF that] by (simp only: of_nat_less_iff)
    with 2 show ?thesis
      by (auto simp: vlapic_calcdest_def vm_apicid2vcpuid_def s)
  next
    case 3
    have "set (if lowprio then take 1 (filter ?P [0..<vm_maxcpus vm]) else filter ?P [0..<vm_maxcpus vm]) =
        {j. ?P j \<and> (lowprio \<longrightarrow> (\<forall>k < j. \<not> ?P k))}"
      using set_take1_filter_upt [of _ ?P "vm_maxcpus vm"] act by auto
    with 3 show ?thesis by (simp add: vlapic_calcdest_def l)
  qed
qed

theorem lapic_dest_spec_witness:
  "\<exists>dmask. vlapic_calcdest vm_demo 3 False True False = Some dmask \<and> dmask 0 \<and> \<not> dmask 1"
proof -
  have act: "vm_active_cpus vm_demo 0" by (simp add: vm_demo_def)
  have "unat (3 :: u32) < 2 ^ 31" by simp
  from lapic_dest_spec [OF vm_demo_inv this, of False True] obtain dmask
    where d: "vlapic_calcdest vm_demo 3 False True False = Some dmask"
      "\<And>j. dmask j = (vm_active_cpus vm_demo j \<and> (\<forall>k < j. \<not> vm_active_cpus vm_demo k))"
    using vm_demo_match by auto
  have "dmask 0" "\<not> dmask 1" using act by (simp_all add: d(2))
  with d(1) show ?thesis by blast
qed

lemma deliver_spec:
  assumes "16 \<le> vec" "vec \<le> 255" "delmode = APIC_DELMODE_FIXED \<or> delmode = APIC_DELMODE_LOWPRIO"
    and "vlapic_calcdest vm dest phys (delmode = APIC_DELMODE_LOWPRIO) False = Some dmask"
  shows "\<exists>vm'. vlapic_deliver_intr vm level dest phys delmode vec = Some vm' \<and>
    (\<forall>j. vm_lapics vm' j =
      (if dmask j \<and> j < vm_maxcpus vm \<and> lp_svr (vl_page (vm_lapics vm j)) AND APIC_SVR_ENABLE \<noteq> 0
       then emit Vcpu_notify_event
              (upd_page (\<lambda>p. p\<lparr>lp_irr := vec_set vec (lp_irr p)\<rparr>) (vm_lapics vm j))
       else vm_lapics vm j))"
proof -
  let ?g = "\<lambda>vcpuid vm. if delmode = APIC_DELMODE_EXINT then upd_lapic vcpuid (emit Inject_extint) vm
                else snd (lapic_set_intr vm (int vcpuid) vec level)"
  have g: "?g i vm' = upd_lapic i (\<lambda>vl. if lp_svr (vl_page vl) AND APIC_SVR_ENABLE = 0 then vl
      else emit Vcpu_notify_event (upd_page (\<lambda>p. p\<lparr>lp_irr := vec_set vec (lp_irr p)\<rparr>) vl)) vm'"
    if "i < vm_maxcpus vm" "vm_maxcpus vm' = vm_maxcpus vm" for i vm'
    using that assms(1-3) set_intr_upd [of i vm' vec level] by auto
  have "vlapic_deliver_intr vm level dest phys delmode vec =
      Some (fold ?g (cpu_list vm dmask) vm)"
    using assms(3,4) by (auto simp: vlapic_deliver_intr_def)
  moreover have "vm_lapics (fold ?g (cpu_list vm dmask) vm) j = (if j \<in> set (cpu_list vm dmask)
      then (if lp_svr (vl_page (vm_lapics vm j)) AND APIC_SVR_ENABLE = 0 then vm_lapics vm j
        else emit Vcpu_notify_event
          (upd_page (\<lambda>p. p\<lparr>lp_irr := vec_set vec (lp_irr p)\<rparr>) (vm_lapics vm j)))
      else vm_lapics vm j)" for j
    by (rule fold_upd_lapic [OF _ _ refl g]) (simp_all add: cpu_list_def)
  ultimately show ?thesis by (simp add: cpu_list_def)
qed

text \<open>Delivery: a fixed or lowest-priority interrupt with a legal vector sets exactly that vector
  in the request register of every addressed vcpu whose local APIC is software-enabled, notifies
  exactly these vcpus and leaves every other local APIC unchanged.\<close>

theorem lapic_deliver_spec:
  assumes "16 \<le> vec" "vec \<le> 255" "delmode = APIC_DELMODE_FIXED \<or> delmode = APIC_DELMODE_LOWPRIO"
    and "vlapic_calcdest vm dest phys (delmode = APIC_DELMODE_LOWPRIO) False = Some dmask"
  shows "\<exists>vm'. vlapic_deliver_intr vm level dest phys delmode vec = Some vm' \<and>
    (\<forall>j. vm_lapics vm' j =
      (if dmask j \<and> j < vm_maxcpus vm \<and> lp_svr (vl_page (vm_lapics vm j)) AND APIC_SVR_ENABLE \<noteq> 0
       then emit Vcpu_notify_event
              (upd_page (\<lambda>p. p\<lparr>lp_irr := vec_set vec (lp_irr p)\<rparr>) (vm_lapics vm j))
       else vm_lapics vm j))"
  by (rule deliver_spec [OF assms])

theorem lapic_deliver_spec_witness:
  "\<exists>vm'. vlapic_deliver_intr vm_demo True 1 True 0 0x50 = Some vm' \<and>
     vec_test (lp_irr (vl_page (vm_lapics vm' 1))) 0x50 \<and> vl_events (vm_lapics vm' 1) = [Vcpu_notify_event] \<and>
     vm_lapics vm' 0 = vm_lapics vm_demo 0"
proof -
  have d: "vlapic_calcdest vm_demo 1 True ((0 :: u32) = APIC_DELMODE_LOWPRIO) False =
      Some (\<lambda>i. i = 1 \<and> 1 < int (vm_maxcpus vm_demo) \<and> vm_active_cpus vm_demo i)"
    by (simp add: vlapic_calcdest_def vm_apicid2vcpuid_def)
  have v: "(16 :: nat) \<le> 0x50" "(0x50 :: nat) \<le> 255"
    "(0 :: u32) = APIC_DELMODE_FIXED \<or> (0 :: u32) = APIC_DELMODE_LOWPRIO" by simp_all
  show ?thesis using lapic_deliver_spec [OF v d, of True]
    by (auto simp: vm_demo_def lapic_demo_def vec_test_set)
qed


definition lapic_vm_new :: "time_ops \<Rightarrow> nat \<Rightarrow> lapic_vm" where
  "lapic_vm_new T maxcpus = \<lparr>vm_lapics = (\<lambda>i. the (vlapic_init T i)), vm_active_cpus = (\<lambda>_. False),
     vm_maxcpus = maxcpus, vm_spinups = []\<rparr>"

lemma new_reachable: "lapic_reachable T maxcpus (lapic_vm_new T maxcpus)"
proof (rule lapic_reachable.init)
  have "vlapic_init T i = Some (the (vlapic_init T i))" for i
    using init_lapic [of T i] by auto
  then show "lapic_vm_init T maxcpus (lapic_vm_new T maxcpus)"
    by (simp add: lapic_vm_init_def lapic_vm_new_def)
qed

definition x2apic_demo :: lapic_vm where
  "x2apic_demo = upd_lapic 0 (\<lambda>vl. vlapic_set_x2apic_state vl X2APIC_ENABLED)
     (lapic_vm_new fixed_point_time 2)"

lemma x2apic_demo_reachable: "lapic_reachable fixed_point_time 2 x2apic_demo"
  unfolding x2apic_demo_def
  by (rule lapic_reachable.step [OF new_reachable, where now = bintime_zero and op = "X2apic_state 0 X2APIC_ENABLED"])
    simp

lemma x2apic_demo_x2apic: "x2apic (vm_lapics x2apic_demo 0)"
proof -
  have "x2apic (vlapic_set_x2apic_state vl X2APIC_ENABLED)" for vl
  proof -
    have "(b OR APICBASE_X2APIC) AND APICBASE_X2APIC \<noteq> 0" for b :: u64
      using and_push_bit_1_neq_0 [of "b OR APICBASE_X2APIC" 10] by (simp add: bit_or_iff)
    then show ?thesis by (simp add: vlapic_set_x2apic_state_def Let_def x2apic_def)
  qed
  then show ?thesis by (simp add: x2apic_demo_def)
qed


text \<open>C32. In-service state: on every reachable machine the stack of in-service vectors of each vcpu
  holds exactly the vectors of its in-service register, in strictly increasing priority class and
  with legal vectors only, so its depth stays below the capacity that \<^verbatim>\<open>isrvec_stk\<close>
  has.\<close>

theorem lapic_stack_in_sync:
  assumes "lapic_reachable T maxcpus vm"
  shows "set (isr_stack (vm_lapics vm i)) = isr_set (vm_lapics vm i) \<and>
    sorted_wrt prio_less (isr_stack (vm_lapics vm i)) \<and> vl_isrvec_stk_top (vm_lapics vm i) \<le> 15"
proof -
  have "isr_inv (vm_lapics vm i)" using reachable_inv [OF assms] by (simp add: lapic_vm_inv_def)
  then show ?thesis using isr_inv_top by (simp add: isr_inv_def)
qed

theorem lapic_stack_in_sync_witness:
  "vl_isrvec_stk_top (vm_lapics x2apic_demo 1) \<le> 15"
  using lapic_stack_in_sync [OF x2apic_demo_reachable, of 1] by simp

text \<open>Application processors: on every reachable machine each application processor has been
  handed to user space for start-up at most once, and exactly those that run have been.\<close>

theorem lapic_ap_started_once:
  assumes "lapic_reachable T maxcpus vm"
  shows "distinct (map fst (vm_spinups vm)) \<and>
    (i \<in> fst ` set (vm_spinups vm) \<longleftrightarrow> i \<noteq> 0 \<and> vl_boot_state (vm_lapics vm i) = BS_RUNNING)"
  using reachable_inv [OF assms] by (simp add: lapic_vm_inv_def boot_inv_def)

theorem lapic_ap_started_once_witness:
  "1 \<notin> fst ` set (vm_spinups x2apic_demo) \<and> vl_boot_state (vm_lapics x2apic_demo 1) \<noteq> BS_RUNNING"
  using lapic_ap_started_once [OF x2apic_demo_reachable, of 1]
  by (simp add: x2apic_demo_def lapic_vm_new_def)

text \<open>The boot processor writes an interrupt command.\<close>

definition send_icr :: "lapic_vm \<Rightarrow> u32 \<Rightarrow> u32 \<Rightarrow> (int \<times> bool \<times> lapic_vm) option" where
  "send_icr vm lo hi = vlapic_icrlo_write_handler
     (upd_lapic 0 (upd_page (\<lambda>p. p\<lparr>lp_icr_lo := lo, lp_icr_hi := hi\<rparr>)) vm) 0"

lemma ucast_u8_mask: "(0x600 OR ucast v) AND 0x700 = (0x600 :: u32)" "(0x600 OR ucast v) AND 0xff = (ucast v :: u32)"
    "(0x600 OR ucast v) AND NOT 0x1000 = (0x600 OR ucast v :: u32)" for v :: u8
proof -
  have hi: "\<not> bit (ucast v :: u32) n" if "8 \<le> n" for n
    using that bit_imp_le_length [of v n] by (auto simp: bit_ucast_iff)
  have m: "ucast v = (ucast v AND 0xff :: u32)"
  proof (rule bit_word_eqI)
    fix n
    assume "n < LENGTH(32)"
    moreover have "(0xff :: u32) = mask 8" by (simp add: mask_eq_exp_minus_1)
    ultimately show "bit (ucast v :: u32) n = bit (ucast v AND 0xff :: u32) n"
      using hi [of n] by (simp only: bit_and_iff bit_mask_iff) (auto simp: not_le [symmetric])
  qed
  have z: "ucast v AND k = (0 :: u32)" if "0xff AND k = (0 :: u32)" for k
    by (subst m) (simp only: and.assoc that and_zero_eq)
  show "(0x600 OR ucast v) AND 0x700 = (0x600 :: u32)"
    by (simp add: bit.conj_disj_distrib2 z)
  show "(0x600 OR ucast v) AND 0xff = (ucast v :: u32)"
    by (simp add: bit.conj_disj_distrib2 m [symmetric])
  have "(0x600 OR ucast v) AND 0x1000 = (0 :: u32)" by (simp add: bit.conj_disj_distrib2 z)
  then show "(0x600 OR ucast v) AND NOT 0x1000 = (0x600 OR ucast v :: u32)"
    by (rule and_not_disjoint)
qed

lemma send_icr_dispatch:
  assumes "lo AND NOT APIC_DELSTAT_PEND = lo"
  obtains vm' where "send_icr vm lo hi = icr_dispatch vm' 0 lo
      (if x2apic (vm_lapics vm 0) then hi else drop_bit 24 hi)"
    "\<And>i. lapic_frame (vm_lapics vm' i) = lapic_frame (vm_lapics vm i)"
    "vm_maxcpus vm' = vm_maxcpus vm" "vm_spinups vm' = vm_spinups vm"
proof -
  let ?vm = "upd_lapic 0 (upd_page (\<lambda>p. p\<lparr>lp_icr_lo := lp_icr_lo p AND NOT APIC_DELSTAT_PEND\<rparr>))
    (upd_lapic 0 (upd_page (\<lambda>p. p\<lparr>lp_icr_lo := lo, lp_icr_hi := hi\<rparr>)) vm)"
  have "send_icr vm lo hi = icr_dispatch ?vm 0 (lo AND NOT APIC_DELSTAT_PEND)
      (if x2apic (vm_lapics vm 0) then hi else drop_bit 24 hi)"
    by (simp add: send_icr_def vlapic_icrlo_write_handler_def Let_def)
  then show ?thesis unfolding assms by (rule that) (simp_all add: lapic_frame_def)
qed

lemma frame_fields:
  "lapic_frame vl' = lapic_frame vl \<Longrightarrow>
     vl_vcpuid vl' = vl_vcpuid vl \<and> vl_boot_state vl' = vl_boot_state vl \<and> x2apic vl' = x2apic vl"
  by (simp add: lapic_frame_def x2apic_def)

text \<open>The INIT, start-up, start-up sequence of the boot processor: INIT moves a reset application
  processor to wait-for-SIPI, the first start-up command exits to user space once with the entry
  point given by its vector, and a second one is ignored.\<close>

theorem lapic_init_sipi_sipi:
  assumes "vl_vcpuid (vm_lapics vm 0) = 0"
    and "ap = unat (if x2apic (vm_lapics vm 0) then hi else drop_bit 24 hi)"
    and "ap \<noteq> 0" "ap < vm_maxcpus vm" "vl_boot_state (vm_lapics vm ap) = BS_INIT"
  shows "\<exists>vm1 vm2 vm3. send_icr vm 0x4500 hi = Some (0, False, vm1) \<and>
    vl_boot_state (vm_lapics vm1 ap) = BS_SIPI \<and>
    send_icr vm1 (0x600 OR ucast (vec :: u8)) hi = Some (0, True, vm2) \<and>
    vm_spinups vm2 = vm_spinups vm @ [(ap, push_bit 12 (ucast vec))] \<and>
    vl_boot_state (vm_lapics vm2 ap) = BS_RUNNING \<and>
    send_icr vm2 (0x600 OR ucast vec) hi = Some (0, False, vm3) \<and> vm_spinups vm3 = vm_spinups vm2"
proof -
  let ?d = "if x2apic (vm_lapics vm 0) then hi else drop_bit 24 hi"
  let ?sipi = "0x600 OR ucast vec :: u32"
  have d: "?d \<noteq> 0" "ap = unat ?d" using assms(2,3) by (auto simp: unat_eq_0)
  have m: "(0x4500 :: u32) AND NOT 0x1000 = 0x4500" by simp
  obtain vm0 where 0: "send_icr vm 0x4500 hi = icr_dispatch vm0 0 0x4500 ?d"
      "\<And>i. lapic_frame (vm_lapics vm0 i) = lapic_frame (vm_lapics vm i)"
      "vm_maxcpus vm0 = vm_maxcpus vm" "vm_spinups vm0 = vm_spinups vm"
    using send_icr_dispatch [OF m] by blast
  note f0 = frame_fields [OF 0(2)]
  define vm1 where "vm1 = upd_lapic ap (\<lambda>vl. vl\<lparr>vl_boot_state := BS_SIPI\<rparr>) vm0"
  have s1: "send_icr vm 0x4500 hi = Some (0, False, vm1)"
    unfolding 0(1) vm1_def using assms(1,3-5) f0 0(3) d(1)
    by (simp add: icr_dispatch_def Let_def d(2) [symmetric])
  have x1: "x2apic (vm_lapics vm1 0) = x2apic (vm_lapics vm 0)"
    using f0 [of 0] assms(3) by (simp add: vm1_def)
  obtain vm1' where 1: "send_icr vm1 ?sipi hi = icr_dispatch vm1' 0 ?sipi ?d"
      "\<And>i. lapic_frame (vm_lapics vm1' i) = lapic_frame (vm_lapics vm1 i)"
      "vm_maxcpus vm1' = vm_maxcpus vm1" "vm_spinups vm1' = vm_spinups vm1"
    using send_icr_dispatch [OF ucast_u8_mask(3) [of vec], where vm = vm1 and hi = hi]
    unfolding x1 by blast
  note f1 = frame_fields [OF 1(2)]
  define vm2 where "vm2 = (upd_lapic ap (\<lambda>vl. vl\<lparr>vl_boot_state := BS_RUNNING\<rparr>) vm1')
    \<lparr>vm_spinups := vm_spinups vm1' @ [(ap, push_bit 12 (ucast vec))]\<rparr>"
  have "of_nat (unat (ucast vec :: u32)) = (ucast vec :: u64)"
    unfolding unat_ucast_u8 by simp
  then have v: "ucast (ucast vec :: u32) = (ucast vec :: u64)" by simp
  have s2: "send_icr vm1 ?sipi hi = Some (0, True, vm2)"
    unfolding 1(1) vm2_def using assms(1,3,4) f0 f1 0(3) 1(3) d(1)
    by (simp add: icr_dispatch_def Let_def d(2) [symmetric] ucast_u8_mask vm1_def v)
  have x2: "x2apic (vm_lapics vm2 0) = x2apic (vm_lapics vm 0)"
    using f1 [of 0] x1 assms(3) by (simp add: vm2_def)
  obtain vm2' where 2: "send_icr vm2 ?sipi hi = icr_dispatch vm2' 0 ?sipi ?d"
      "\<And>i. lapic_frame (vm_lapics vm2' i) = lapic_frame (vm_lapics vm2 i)"
      "vm_maxcpus vm2' = vm_maxcpus vm2" "vm_spinups vm2' = vm_spinups vm2"
    using send_icr_dispatch [OF ucast_u8_mask(3) [of vec], where vm = vm2 and hi = hi]
    unfolding x2 by blast
  note f2 = frame_fields [OF 2(2)]
  have s3: "send_icr vm2 ?sipi hi = Some (0, False, vm2')"
    unfolding 2(1) using assms(1,3,4) f0 f1 f2 0(3) 1(3) 2(3) d(1)
    by (simp add: icr_dispatch_def Let_def d(2) [symmetric] ucast_u8_mask vm1_def vm2_def)
  have "vm_spinups vm2 = vm_spinups vm @ [(ap, push_bit 12 (ucast vec))]"
    using 0(4) 1(4) by (simp add: vm1_def vm2_def)
  then show ?thesis using s1 s2 s3 2(4) by (auto simp: vm1_def vm2_def)
qed

theorem lapic_init_sipi_sipi_witness:
  "\<exists>vm1 vm2. send_icr vm_demo 0x4500 0x01000000 = Some (0, False, vm1) \<and>
     send_icr vm1 0x69f 0x01000000 = Some (0, True, vm2) \<and> vm_spinups vm2 = [(1, 0x9f000)]"
proof -
  have x: "x2apic (vm_lapics vm_demo 0) = False" by (simp add: x2apic_def vm_demo_def lapic_demo_def)
  have a: "vl_vcpuid (vm_lapics vm_demo 0) = 0"
    "1 = unat (if x2apic (vm_lapics vm_demo 0) then 0x01000000 else drop_bit 24 0x01000000 :: u32)"
    "(1 :: nat) \<noteq> 0" "1 < vm_maxcpus vm_demo" "vl_boot_state (vm_lapics vm_demo 1) = BS_INIT"
    "vm_spinups vm_demo = []"
    unfolding x by (simp_all add: vm_demo_def)
  show ?thesis using lapic_init_sipi_sipi [OF a(1-5), of "0x9f"] a(6) by auto
qed

end
