(* ===== verification/Vioapic.thy ===== *)
theory Vioapic
  imports Lapic_Vm Pin_Counter
begin

text \<open>
  The I/O APIC of \<^verbatim>\<open>vmm/io/vioapic.c\<close>: redirection table, pin counters, delivery to the
  local APICs of theory \<open>Lapic_Vm\<close> and the memory-mapped register window. The structure
  keeps, as the C one does, the machine it belongs to. \<open>None\<close> is a failing delivery of the
  local APICs, which does not occur here: destinations have eight bits
  (lemma \<open>vioapic_send_intr_Some\<close>). The rendezvous that updates the trigger-mode registers runs
  \<^verbatim>\<open>vioapic_update_tmr\<close> once per active vcpu; it is modelled as the run in increasing
  vcpu order. The spin lock is left out.
\<close>

section \<open>State\<close>

record rtbl_entry =
  rt_reg :: u64
  rt_acnt :: int

record vioapic =
  vi_vm :: lapic_vm
  vi_id :: u32
  vi_ioregsel :: u32
  vi_rtbl :: "nat \<Rightarrow> rtbl_entry"

abbreviation (input) REDIR_ENTRIES :: nat where "REDIR_ENTRIES \<equiv> 32"
abbreviation (input) IOART_INTMASK :: u64 where "IOART_INTMASK \<equiv> 0x10000"
abbreviation (input) IOART_TRGRLVL :: u64 where "IOART_TRGRLVL \<equiv> 0x8000"
abbreviation (input) IOART_REM_IRR :: u64 where "IOART_REM_IRR \<equiv> 0x4000"
abbreviation (input) IOART_INTPOL :: u64 where "IOART_INTPOL \<equiv> 0x2000"
abbreviation (input) IOART_DELIVS :: u64 where "IOART_DELIVS \<equiv> 0x1000"
abbreviation (input) IOART_DESTMOD :: u64 where "IOART_DESTMOD \<equiv> 0x800"
abbreviation (input) IOART_DELMOD :: u64 where "IOART_DELMOD \<equiv> 0x700"
abbreviation (input) IOART_INTVEC :: u64 where "IOART_INTVEC \<equiv> 0xff"
abbreviation (input) RTBL_RO_BITS :: u64 where "RTBL_RO_BITS \<equiv> IOART_REM_IRR OR IOART_DELIVS"
abbreviation (input) IOAPIC_REDTBL :: nat where "IOAPIC_REDTBL \<equiv> 0x10"
abbreviation (input) VIOAPIC_BASE :: u64 where "VIOAPIC_BASE \<equiv> 0xfec00000"

definition upd_reg :: "nat \<Rightarrow> (u64 \<Rightarrow> u64) \<Rightarrow> vioapic \<Rightarrow> vioapic" where
  "upd_reg pin f vio =
     vio\<lparr>vi_rtbl := (vi_rtbl vio)(pin := (vi_rtbl vio pin)\<lparr>rt_reg := f (rt_reg (vi_rtbl vio pin))\<rparr>)\<rparr>"

text \<open>The destination field, \<open>high >> APIC_ID_SHIFT\<close>, and the other fields of an entry.\<close>

definition rtbl_dest :: "u64 \<Rightarrow> u32" where
  "rtbl_dest reg = drop_bit 24 (ucast (drop_bit 32 reg))"

definition rtbl_delmode :: "u64 \<Rightarrow> u32" where
  "rtbl_delmode reg = ucast (reg AND IOART_DELMOD)"

definition rtbl_vector :: "u64 \<Rightarrow> nat" where
  "rtbl_vector reg = unat (reg AND IOART_INTVEC)"

section \<open>Pins\<close>

definition vioapic_send_intr :: "vioapic \<Rightarrow> nat \<Rightarrow> vioapic option" where
  "vioapic_send_intr vio pin =
     (let reg = rt_reg (vi_rtbl vio pin)
      in if reg AND IOART_INTMASK \<noteq> 0 then Some vio
         else do {
           let phys = (reg AND IOART_DESTMOD = 0);
           let level = (reg AND IOART_TRGRLVL \<noteq> 0);
           let vio = (if level then upd_reg pin (\<lambda>r. r OR IOART_REM_IRR) vio else vio);
           vm \<leftarrow> vlapic_deliver_intr (vi_vm vio) level (rtbl_dest reg) phys (rtbl_delmode reg)
                  (rtbl_vector reg);
           Some (vio\<lparr>vi_vm := vm\<rparr>)
         })"

definition vioapic_set_pinstate :: "vioapic \<Rightarrow> nat \<Rightarrow> bool \<Rightarrow> vioapic option" where
  "vioapic_set_pinstate vio pin newstate =
     (let oldcnt = rt_acnt (vi_rtbl vio pin);
          newcnt = (if newstate then oldcnt + 1 else oldcnt - 1);
          vio = vio\<lparr>vi_rtbl := (vi_rtbl vio)(pin := (vi_rtbl vio pin)\<lparr>rt_acnt := newcnt\<rparr>)\<rparr>;
          needintr = (oldcnt = 0 \<and> newcnt = 1)
      in if needintr then vioapic_send_intr vio pin else Some vio)"

definition vioapic_set_irqstate :: "vioapic \<Rightarrow> int \<Rightarrow> irqstate \<Rightarrow> (int \<times> vioapic) option" where
  "vioapic_set_irqstate vio irq irqstate =
     (if irq < 0 \<or> irq \<ge> int REDIR_ENTRIES then Some (EINVAL, vio)
      else do {
        vio \<leftarrow> (case irqstate of
                 IRQSTATE_ASSERT \<Rightarrow> vioapic_set_pinstate vio (nat irq) True
               | IRQSTATE_DEASSERT \<Rightarrow> vioapic_set_pinstate vio (nat irq) False
               | IRQSTATE_PULSE \<Rightarrow> do {
                   vio \<leftarrow> vioapic_set_pinstate vio (nat irq) True;
                   vioapic_set_pinstate vio (nat irq) False
                 });
        Some (0, vio)
      })"

definition vioapic_assert_irq :: "vioapic \<Rightarrow> int \<Rightarrow> (int \<times> vioapic) option" where
  "vioapic_assert_irq vio irq = vioapic_set_irqstate vio irq IRQSTATE_ASSERT"

definition vioapic_deassert_irq :: "vioapic \<Rightarrow> int \<Rightarrow> (int \<times> vioapic) option" where
  "vioapic_deassert_irq vio irq = vioapic_set_irqstate vio irq IRQSTATE_DEASSERT"

definition vioapic_pulse_irq :: "vioapic \<Rightarrow> int \<Rightarrow> (int \<times> vioapic) option" where
  "vioapic_pulse_irq vio irq = vioapic_set_irqstate vio irq IRQSTATE_PULSE"

section \<open>Trigger modes\<close>

fun update_tmr_pins :: "vioapic \<Rightarrow> nat \<Rightarrow> nat list \<Rightarrow> lapic_vm \<Rightarrow> lapic_vm option" where
  "update_tmr_pins vio vcpuid [] vm = Some vm"
| "update_tmr_pins vio vcpuid (pin # pins) vm =
     (let reg = rt_reg (vi_rtbl vio pin)
      in if reg AND IOART_TRGRLVL = 0 then update_tmr_pins vio vcpuid pins vm
         else do {
           vm \<leftarrow> vlapic_set_tmr_level vm vcpuid (rtbl_dest reg) (reg AND IOART_DESTMOD = 0)
                  (rtbl_delmode reg) (rtbl_vector reg);
           update_tmr_pins vio vcpuid pins vm
         })"

definition vioapic_update_tmr :: "nat \<Rightarrow> vioapic \<Rightarrow> vioapic option" where
  "vioapic_update_tmr vcpuid vio = do {
     vm \<leftarrow> update_tmr_pins vio vcpuid [0..<REDIR_ENTRIES]
            (upd_lapic vcpuid vlapic_reset_tmr (vi_vm vio));
     Some (vio\<lparr>vi_vm := vm\<rparr>)
   }"

fun rendezvous_update_tmr :: "nat list \<Rightarrow> vioapic \<Rightarrow> vioapic option" where
  "rendezvous_update_tmr [] vio = Some vio"
| "rendezvous_update_tmr (cpu # cpus) vio =
     do { vio \<leftarrow> vioapic_update_tmr cpu vio; rendezvous_update_tmr cpus vio }"

section \<open>Registers\<close>

definition vioapic_read :: "vioapic \<Rightarrow> u32 \<Rightarrow> u32" where
  "vioapic_read vio addr =
     (let regnum = unat (addr AND 0xff)
      in if regnum = 0 then vi_id vio
         else if regnum = 1 then (push_bit 16 (of_nat (REDIR_ENTRIES - 1)) OR 0x11)
         else if regnum = 2 then vi_id vio
         else if regnum \<ge> IOAPIC_REDTBL \<and> regnum < IOAPIC_REDTBL + REDIR_ENTRIES * 2
         then let pin = (regnum - IOAPIC_REDTBL) div 2;
                  rshift = (if (regnum - IOAPIC_REDTBL) mod 2 \<noteq> 0 then 32 else 0)
              in ucast (drop_bit rshift (rt_reg (vi_rtbl vio pin)))
         else 0)"

text \<open>The new value of a redirection entry, half of which is written.\<close>

definition rtbl_merge :: "u64 \<Rightarrow> nat \<Rightarrow> u32 \<Rightarrow> u64" where
  "rtbl_merge old lshift data =
     (let data64 = push_bit lshift (ucast data); mask64 = push_bit lshift 0xffffffff
      in (old AND (NOT mask64 OR RTBL_RO_BITS)) OR (data64 AND NOT RTBL_RO_BITS))"

definition rtbl_write :: "vioapic \<Rightarrow> nat \<Rightarrow> nat \<Rightarrow> u32 \<Rightarrow> vioapic option" where
  "rtbl_write vio pin lshift data = do {
     let old = rt_reg (vi_rtbl vio pin);
     let vio = upd_reg pin (\<lambda>r. rtbl_merge r lshift data) vio;
     let changed = old XOR rt_reg (vi_rtbl vio pin);
     vio \<leftarrow> (if changed AND NOT (IOART_INTMASK OR IOART_INTPOL) \<noteq> 0
            then rendezvous_update_tmr (cpu_list (vi_vm vio) (vm_active_cpus (vi_vm vio))) vio
            else Some vio);
     let reg = rt_reg (vi_rtbl vio pin);
     if reg AND IOART_INTMASK = 0 \<and> reg AND IOART_REM_IRR = 0 \<and> rt_acnt (vi_rtbl vio pin) > 0
     then vioapic_send_intr vio pin
     else Some vio
   }"

definition vioapic_write :: "vioapic \<Rightarrow> u32 \<Rightarrow> u32 \<Rightarrow> vioapic option" where
  "vioapic_write vio addr data =
     (let regnum = unat (addr AND 0xff);
          vio = (if regnum = 0 then vio\<lparr>vi_id := data AND 0xff000000\<rparr> else vio)
      in if regnum \<ge> IOAPIC_REDTBL \<and> regnum < IOAPIC_REDTBL + REDIR_ENTRIES * 2
         then rtbl_write vio ((regnum - IOAPIC_REDTBL) div 2)
                (if (regnum - IOAPIC_REDTBL) mod 2 \<noteq> 0 then 32 else 0) data
         else Some vio)"

text \<open>A read returns the value in \<open>*data\<close>; a write takes its low 32 bits.\<close>

definition vioapic_mmio_rw ::
    "vioapic \<Rightarrow> u64 \<Rightarrow> u64 \<Rightarrow> nat \<Rightarrow> bool \<Rightarrow> (int \<times> u64 \<times> vioapic) option" where
  "vioapic_mmio_rw vio gpa data sz doread =
     (let offset = gpa - VIOAPIC_BASE
      in if sz \<noteq> 4 \<or> offset \<noteq> 0 \<and> offset \<noteq> 0x10
         then Some (0, if doread then 0 else data, vio)
         else if offset = 0
         then (if doread then Some (0, ucast (vi_ioregsel vio), vio)
               else Some (0, data, vio\<lparr>vi_ioregsel := ucast data\<rparr>))
         else if doread then Some (0, ucast (vioapic_read vio (vi_ioregsel vio)), vio)
         else do {
           vio \<leftarrow> vioapic_write vio (vi_ioregsel vio) (ucast data);
           Some (0, data, vio)
         })"

definition vioapic_mmio_read :: "vioapic \<Rightarrow> u64 \<Rightarrow> nat \<Rightarrow> (int \<times> u64) option" where
  "vioapic_mmio_read vio gpa sz =
     map_option (\<lambda>(error, rval, _). (error, rval)) (vioapic_mmio_rw vio gpa 0 sz True)"

definition vioapic_mmio_write :: "vioapic \<Rightarrow> u64 \<Rightarrow> u64 \<Rightarrow> nat \<Rightarrow> (int \<times> vioapic) option" where
  "vioapic_mmio_write vio gpa wval sz =
     map_option (\<lambda>(error, _, vio). (error, vio)) (vioapic_mmio_rw vio gpa wval sz False)"

section \<open>End of interrupt\<close>

fun eoi_pins :: "nat \<Rightarrow> nat list \<Rightarrow> vioapic \<Rightarrow> vioapic option" where
  "eoi_pins vector [] vio = Some vio"
| "eoi_pins vector (pin # pins) vio =
     (if rt_reg (vi_rtbl vio pin) AND IOART_REM_IRR = 0 then eoi_pins vector pins vio
      else if rtbl_vector (rt_reg (vi_rtbl vio pin)) \<noteq> vector then eoi_pins vector pins vio
      else do {
        let vio = upd_reg pin (\<lambda>r. r AND NOT IOART_REM_IRR) vio;
        vio \<leftarrow> (if rt_acnt (vi_rtbl vio pin) > 0 then vioapic_send_intr vio pin else Some vio);
        eoi_pins vector pins vio
      })"

definition vioapic_process_eoi :: "vioapic \<Rightarrow> nat \<Rightarrow> vioapic option" where
  "vioapic_process_eoi vio vector = eoi_pins vector [0..<REDIR_ENTRIES] vio"

section \<open>Initialisation\<close>

definition vioapic_init :: "lapic_vm \<Rightarrow> vioapic" where
  "vioapic_init vm = \<lparr>vi_vm = vm, vi_id = 0, vi_ioregsel = 0,
     vi_rtbl = (\<lambda>i. if i < REDIR_ENTRIES then \<lparr>rt_reg = 0x0001000000010000, rt_acnt = 0\<rparr>
                   else \<lparr>rt_reg = 0, rt_acnt = 0\<rparr>)\<rparr>"

definition vioapic_pincount :: nat where
  "vioapic_pincount = REDIR_ENTRIES"


section \<open>What one delivery changes\<close>

lemma rtbl_dest_less: "unat (rtbl_dest reg) < 2 ^ 31"
  unfolding rtbl_dest_def by (rule drop_bit_24_less)

text \<open>Masked, level-triggered, waiting for an EOI.\<close>

definition masked :: "u64 \<Rightarrow> bool" where
  "masked reg \<longleftrightarrow> reg AND IOART_INTMASK \<noteq> 0"

definition level_trig :: "u64 \<Rightarrow> bool" where
  "level_trig reg \<longleftrightarrow> reg AND IOART_TRGRLVL \<noteq> 0"

definition rem_irr :: "u64 \<Rightarrow> bool" where
  "rem_irr reg \<longleftrightarrow> reg AND IOART_REM_IRR \<noteq> 0"

lemma rtbl_bits:
  "masked reg = bit reg 16" "level_trig reg = bit reg 15" "rem_irr reg = bit reg 14"
  using and_push_bit_1_neq_0 [of reg 16] and_push_bit_1_neq_0 [of reg 15]
    and_push_bit_1_neq_0 [of reg 14]
  by (simp_all add: masked_def level_trig_def rem_irr_def)

definition sent_reg :: "u64 \<Rightarrow> u64" where
  "sent_reg reg = (if \<not> masked reg \<and> level_trig reg then reg OR IOART_REM_IRR else reg)"

lemma bit_or_REM_IRR: "bit (reg OR IOART_REM_IRR) n = (bit reg n \<or> n = 14)" for reg :: u64
proof -
  have "reg OR IOART_REM_IRR = set_bit 14 reg" by (simp add: set_bit_eq_or)
  then show ?thesis by (auto simp: bv_simps)
qed

lemma bit_and_not_REM_IRR: "bit (reg AND NOT IOART_REM_IRR) n = (bit reg n \<and> n \<noteq> 14)" for reg :: u64
proof -
  have "reg AND NOT IOART_REM_IRR = unset_bit 14 reg" by (simp add: unset_bit_eq_and_not)
  then show ?thesis by (auto simp: bv_simps)
qed

definition pin_deliver :: "lapic_vm \<Rightarrow> u64 \<Rightarrow> lapic_vm option" where
  "pin_deliver vm reg = (if masked reg then Some vm
     else vlapic_deliver_intr vm (level_trig reg) (rtbl_dest reg) (reg AND IOART_DESTMOD = 0)
            (rtbl_delmode reg) (rtbl_vector reg))"

lemma pin_deliver_Some: "\<exists>vm'. pin_deliver vm reg = Some vm'"
  using deliver_device_Some [OF rtbl_dest_less] by (simp add: pin_deliver_def)

lemma upd_reg_simps [simp]:
  "vi_vm (upd_reg pin f vio) = vi_vm vio" "vi_id (upd_reg pin f vio) = vi_id vio"
  "vi_ioregsel (upd_reg pin f vio) = vi_ioregsel vio"
  "rt_acnt (vi_rtbl (upd_reg pin f vio) q) = rt_acnt (vi_rtbl vio q)"
  "rt_reg (vi_rtbl (upd_reg pin f vio) q) =
     (if q = pin then f (rt_reg (vi_rtbl vio q)) else rt_reg (vi_rtbl vio q))"
  by (simp_all add: upd_reg_def)

lemma send_intr_spec:
  obtains vm' vio' where "vioapic_send_intr vio pin = Some vio'"
    "pin_deliver (vi_vm vio) (rt_reg (vi_rtbl vio pin)) = Some vm'" "vi_vm vio' = vm'"
    "\<And>q. rt_acnt (vi_rtbl vio' q) = rt_acnt (vi_rtbl vio q)"
    "\<And>q. rt_reg (vi_rtbl vio' q) =
       (if q = pin then sent_reg (rt_reg (vi_rtbl vio q)) else rt_reg (vi_rtbl vio q))"
proof -
  let ?reg = "rt_reg (vi_rtbl vio pin)"
  obtain vm' where d: "pin_deliver (vi_vm vio) ?reg = Some vm'" using pin_deliver_Some by blast
  show ?thesis
  proof (cases "masked ?reg")
    case True
    then have "vioapic_send_intr vio pin = Some vio"
      by (simp add: vioapic_send_intr_def masked_def Let_def)
    moreover from True d have "vi_vm vio = vm'" by (simp add: pin_deliver_def)
    ultimately show ?thesis using that [of vio vm'] d True by (simp add: sent_reg_def)
  next
    case False
    let ?vio = "if level_trig ?reg then upd_reg pin (\<lambda>r. r OR IOART_REM_IRR) vio else vio"
    have "vioapic_send_intr vio pin = Some (?vio\<lparr>vi_vm := vm'\<rparr>)"
      using False d
      by (cases "level_trig ?reg")
        (simp_all add: vioapic_send_intr_def pin_deliver_def masked_def level_trig_def Let_def)
    then show ?thesis using that [of "?vio\<lparr>vi_vm := vm'\<rparr>" vm'] d False
      by (simp add: sent_reg_def split: if_splits)
  qed
qed

lemma set_pinstate_spec:
  obtains vio' where "vioapic_set_pinstate vio pin b = Some vio'"
    "\<And>q. rt_acnt (vi_rtbl vio' q) = rt_acnt (vi_rtbl vio q) + line_delta (pin, b) q"
    "\<And>q. rt_reg (vi_rtbl vio' q) =
       (if q = pin \<and> b \<and> rt_acnt (vi_rtbl vio q) = 0 then sent_reg (rt_reg (vi_rtbl vio q))
        else rt_reg (vi_rtbl vio q))"
    "if b \<and> rt_acnt (vi_rtbl vio pin) = 0
     then pin_deliver (vi_vm vio) (rt_reg (vi_rtbl vio pin)) = Some (vi_vm vio')
     else vi_vm vio' = vi_vm vio"
proof -
  let ?old = "rt_acnt (vi_rtbl vio pin)"
  let ?new = "if b then ?old + 1 else ?old - 1"
  define vio1 where
    "vio1 = vio\<lparr>vi_rtbl := (vi_rtbl vio)(pin := (vi_rtbl vio pin)\<lparr>rt_acnt := ?new\<rparr>)\<rparr>"
  have cnt: "rt_acnt (vi_rtbl vio1 q) = rt_acnt (vi_rtbl vio q) + line_delta (pin, b) q" for q
    by (simp add: line_delta_def vio1_def)
  have reg: "rt_reg (vi_rtbl vio1 q) = rt_reg (vi_rtbl vio q)" and vm: "vi_vm vio1 = vi_vm vio" for q
    by (simp_all add: vio1_def)
  have step: "vioapic_set_pinstate vio pin b =
      (if ?old = 0 \<and> ?new = 1 then vioapic_send_intr vio1 pin else Some vio1)"
    by (simp only: vioapic_set_pinstate_def Let_def vio1_def)
  show ?thesis
  proof (cases "b \<and> ?old = 0")
    case True
    obtain vm' vio' where s: "vioapic_send_intr vio1 pin = Some vio'"
        "pin_deliver (vi_vm vio1) (rt_reg (vi_rtbl vio1 pin)) = Some vm'" "vi_vm vio' = vm'"
        "\<And>q. rt_acnt (vi_rtbl vio' q) = rt_acnt (vi_rtbl vio1 q)"
        "\<And>q. rt_reg (vi_rtbl vio' q) =
          (if q = pin then sent_reg (rt_reg (vi_rtbl vio1 q)) else rt_reg (vi_rtbl vio1 q))"
      by (rule send_intr_spec [of vio1 pin]) (rule that)
    have "vioapic_set_pinstate vio pin b = Some vio'"
      using True s(1) step by simp
    then show ?thesis
      by (rule that) (use True s(2,3) in \<open>simp_all add: s(4,5) cnt reg vm\<close>)
  next
    case False
    then have "\<not> (?old = 0 \<and> ?new = 1)" by auto
    then have "vioapic_set_pinstate vio pin b = Some vio1" by (simp only: step if_False)
    then show ?thesis by (rule that) (use False in \<open>auto simp: cnt reg vm\<close>)
  qed
qed


lemma update_tmr_pins_Some: "\<exists>vm'. update_tmr_pins vio cpu pins vm = Some vm'"
proof (induction pins arbitrary: vm)
  case Nil
  then show ?case by simp
next
  case (Cons pin pins)
  let ?reg = "rt_reg (vi_rtbl vio pin)"
  obtain vm1 where "vlapic_set_tmr_level vm cpu (rtbl_dest ?reg) (?reg AND IOART_DESTMOD = 0)
      (rtbl_delmode ?reg) (rtbl_vector ?reg) = Some vm1"
    using set_tmr_level_Some [OF rtbl_dest_less] by blast
  then show ?case using Cons.IH by (simp add: Let_def)
qed

lemma rendezvous_spec:
  "\<exists>vm'. rendezvous_update_tmr cpus vio = Some (vio\<lparr>vi_vm := vm'\<rparr>)"
proof (induction cpus arbitrary: vio)
  case Nil
  then show ?case by (metis rendezvous_update_tmr.simps(1) vioapic.surjective vioapic.update_convs(1))
next
  case (Cons cpu cpus)
  obtain vm1 where "vioapic_update_tmr cpu vio = Some (vio\<lparr>vi_vm := vm1\<rparr>)"
    using update_tmr_pins_Some
    by (metis (no_types, lifting) bind.bind_lunit vioapic_update_tmr_def)
  then show ?case using Cons.IH [of "vio\<lparr>vi_vm := vm1\<rparr>"] by simp
qed

text \<open>The entry after a register write: the merged value, with the remote IRR set when the write
  re-delivers a level interrupt.\<close>

definition written_reg :: "rtbl_entry \<Rightarrow> nat \<Rightarrow> u32 \<Rightarrow> u64" where
  "written_reg e lshift data =
     (let m = rtbl_merge (rt_reg e) lshift data
      in if \<not> rem_irr m \<and> rt_acnt e > 0 then sent_reg m else m)"

lemma rtbl_write_spec:
  obtains vio' where "rtbl_write vio pin lshift data = Some vio'"
    "\<And>q. rt_acnt (vi_rtbl vio' q) = rt_acnt (vi_rtbl vio q)"
    "\<And>q. rt_reg (vi_rtbl vio' q) =
       (if q = pin then written_reg (vi_rtbl vio q) lshift data else rt_reg (vi_rtbl vio q))"
proof -
  let ?m = "rtbl_merge (rt_reg (vi_rtbl vio pin)) lshift data"
  define vio1 where "vio1 = upd_reg pin (\<lambda>r. rtbl_merge r lshift data) vio"
  obtain vio2 where 2: "(if (rt_reg (vi_rtbl vio pin) XOR rt_reg (vi_rtbl vio1 pin)) AND
        NOT (IOART_INTMASK OR IOART_INTPOL) \<noteq> 0
      then rendezvous_update_tmr (cpu_list (vi_vm vio1) (vm_active_cpus (vi_vm vio1))) vio1
      else Some vio1) = Some vio2" "vi_rtbl vio2 = vi_rtbl vio1"
    using rendezvous_spec [of "cpu_list (vi_vm vio1) (vm_active_cpus (vi_vm vio1))" vio1]
    by (cases "(rt_reg (vi_rtbl vio pin) XOR rt_reg (vi_rtbl vio1 pin)) AND
        NOT (IOART_INTMASK OR IOART_INTPOL) \<noteq> 0") auto
  have cnt: "rt_acnt (vi_rtbl vio2 q) = rt_acnt (vi_rtbl vio q)"
    and reg: "rt_reg (vi_rtbl vio2 q) = (if q = pin then ?m else rt_reg (vi_rtbl vio q))" for q
    unfolding 2(2) vio1_def by simp_all
  have w: "rtbl_write vio pin lshift data =
      (if \<not> masked ?m \<and> \<not> rem_irr ?m \<and> rt_acnt (vi_rtbl vio pin) > 0
       then vioapic_send_intr vio2 pin else Some vio2)"
    unfolding rtbl_write_def Let_def vio1_def [symmetric] 2(1) bind.bind_lunit reg cnt
    by (simp add: masked_def rem_irr_def)
  show ?thesis
  proof (cases "\<not> masked ?m \<and> \<not> rem_irr ?m \<and> rt_acnt (vi_rtbl vio pin) > 0")
    case True
    show ?thesis
    proof (rule send_intr_spec [of vio2 pin])
      fix vm' vio'
      assume s: "vioapic_send_intr vio2 pin = Some vio'"
        "\<And>q. rt_acnt (vi_rtbl vio' q) = rt_acnt (vi_rtbl vio2 q)"
        "\<And>q. rt_reg (vi_rtbl vio' q) =
          (if q = pin then sent_reg (rt_reg (vi_rtbl vio2 q)) else rt_reg (vi_rtbl vio2 q))"
      have "rtbl_write vio pin lshift data = Some vio'" using True w s(1) by simp
      then show ?thesis
        by (rule that) (use True in \<open>simp_all add: s(2,3) cnt reg written_reg_def Let_def\<close>)
    qed
  next
    case False
    then have "rtbl_write vio pin lshift data = Some vio2" using w by auto
    then show ?thesis
      by (rule that) (use False in \<open>auto simp: cnt reg written_reg_def Let_def sent_reg_def\<close>)
  qed
qed

definition eoi_reg :: "nat \<Rightarrow> rtbl_entry \<Rightarrow> u64" where
  "eoi_reg vector e =
     (if rem_irr (rt_reg e) \<and> rtbl_vector (rt_reg e) = vector
      then let r = rt_reg e AND NOT IOART_REM_IRR in if rt_acnt e > 0 then sent_reg r else r
      else rt_reg e)"

lemma eoi_pins_spec:
  assumes "distinct pins"
  obtains vio' where "eoi_pins vector pins vio = Some vio'"
    "\<And>q. rt_acnt (vi_rtbl vio' q) = rt_acnt (vi_rtbl vio q)"
    "\<And>q. rt_reg (vi_rtbl vio' q) =
       (if q \<in> set pins then eoi_reg vector (vi_rtbl vio q) else rt_reg (vi_rtbl vio q))"
  using assms
proof (induction pins arbitrary: vio thesis)
  case Nil
  show ?case by (rule Nil.prems(1) [of vio]) simp_all
next
  case (Cons pin pins)
  let ?e = "vi_rtbl vio pin"
  have "\<exists>vio1. eoi_pins vector (pin # pins) vio = eoi_pins vector pins vio1 \<and>
    (\<forall>q. rt_acnt (vi_rtbl vio1 q) = rt_acnt (vi_rtbl vio q)) \<and>
    (\<forall>q. rt_reg (vi_rtbl vio1 q) =
       (if q = pin then eoi_reg vector (vi_rtbl vio q) else rt_reg (vi_rtbl vio q)))"
  proof (cases "rem_irr (rt_reg ?e) \<and> rtbl_vector (rt_reg ?e) = vector")
    case False
    then show ?thesis by (intro exI [of _ vio]) (auto simp: rem_irr_def eoi_reg_def)
  next
    case True
    define vio0 where "vio0 = upd_reg pin (\<lambda>r. r AND NOT IOART_REM_IRR) vio"
    have u: "eoi_pins vector (pin # pins) vio =
        (if rt_acnt ?e > 0 then vioapic_send_intr vio0 pin else Some vio0) \<bind> eoi_pins vector pins"
      using True by (simp add: rem_irr_def vio0_def)
    have cnt: "rt_acnt (vi_rtbl vio0 q) = rt_acnt (vi_rtbl vio q)"
      and reg: "rt_reg (vi_rtbl vio0 q) = (if q = pin then rt_reg (vi_rtbl vio q) AND NOT IOART_REM_IRR
        else rt_reg (vi_rtbl vio q))" for q by (simp_all add: vio0_def)
    show ?thesis
    proof (cases "rt_acnt ?e > 0")
      case acnt: True
      show ?thesis
      proof (rule send_intr_spec [of vio0 pin])
        fix vm' vio'
        assume s: "vioapic_send_intr vio0 pin = Some vio'"
          "\<And>q. rt_acnt (vi_rtbl vio' q) = rt_acnt (vi_rtbl vio0 q)"
          "\<And>q. rt_reg (vi_rtbl vio' q) =
            (if q = pin then sent_reg (rt_reg (vi_rtbl vio0 q)) else rt_reg (vi_rtbl vio0 q))"
        have "eoi_pins vector (pin # pins) vio = eoi_pins vector pins vio'"
          unfolding u using acnt s(1) by simp
        with True acnt show ?thesis
          by (intro exI [of _ vio']) (simp add: s(2,3) cnt reg eoi_reg_def)
      qed
    next
      case acnt: False
      then have "eoi_pins vector (pin # pins) vio = eoi_pins vector pins vio0" unfolding u by simp
      with True acnt show ?thesis
        by (intro exI [of _ vio0]) (simp add: cnt reg eoi_reg_def)
    qed
  qed
  then obtain vio1 where 1: "eoi_pins vector (pin # pins) vio = eoi_pins vector pins vio1"
    "\<And>q. rt_acnt (vi_rtbl vio1 q) = rt_acnt (vi_rtbl vio q)"
    "\<And>q. rt_reg (vi_rtbl vio1 q) =
       (if q = pin then eoi_reg vector (vi_rtbl vio q) else rt_reg (vi_rtbl vio q))" by blast
  have e: "eoi_reg vector (vi_rtbl vio1 q) = eoi_reg vector (vi_rtbl vio q)" if "q \<noteq> pin" for q
    using that by (simp add: eoi_reg_def 1)
  show ?case
  proof (rule Cons.IH [of vio1])
    fix vio'
    assume 2: "eoi_pins vector pins vio1 = Some vio'"
      "\<And>q. rt_acnt (vi_rtbl vio' q) = rt_acnt (vi_rtbl vio1 q)"
      "\<And>q. rt_reg (vi_rtbl vio' q) =
         (if q \<in> set pins then eoi_reg vector (vi_rtbl vio1 q) else rt_reg (vi_rtbl vio1 q))"
    have np: "pin \<notin> set pins" using Cons.prems(2) by simp
    show thesis
    proof (rule Cons.prems(1))
      show "eoi_pins vector (pin # pins) vio = Some vio'" unfolding 1(1) by (rule 2(1))
      show "rt_acnt (vi_rtbl vio' q) = rt_acnt (vi_rtbl vio q)" for q by (simp only: 1(2) 2(2))
      show "rt_reg (vi_rtbl vio' q) = (if q \<in> set (pin # pins) then eoi_reg vector (vi_rtbl vio q)
          else rt_reg (vi_rtbl vio q))" for q
        unfolding 2(3) using np e by (cases "q = pin") (simp_all add: 1(3))
    qed
  qed (use Cons.prems(2) in simp)
qed

lemma process_eoi_spec:
  obtains vio' where "vioapic_process_eoi vio vector = Some vio'"
    "\<And>q. rt_acnt (vi_rtbl vio' q) = rt_acnt (vi_rtbl vio q)"
    "\<And>q. rt_reg (vi_rtbl vio' q) =
       (if q < 32 then eoi_reg vector (vi_rtbl vio q) else rt_reg (vi_rtbl vio q))"
  unfolding vioapic_process_eoi_def
  by (rule eoi_pins_spec [of "[0..<REDIR_ENTRIES]" vector vio]) (simp_all add: that)

section \<open>Pin counters\<close>

definition set_pin :: "vioapic \<Rightarrow> nat \<Rightarrow> bool \<Rightarrow> vioapic" where
  "set_pin vio pin b = (case vioapic_set_pinstate vio pin b of Some v \<Rightarrow> v | None \<Rightarrow> vio)"

definition pin_acnt :: "vioapic \<Rightarrow> nat \<Rightarrow> int" where
  "pin_acnt vio pin = rt_acnt (vi_rtbl vio pin)"

interpretation vio_pins: pin_counter set_pin pin_acnt "\<lambda>p. p < 32"
proof
  fix p q s b
  show "pin_acnt (set_pin s p b) q = pin_acnt s q + line_delta (p, b) q"
    by (rule set_pinstate_spec [of s p b]) (simp add: set_pin_def pin_acnt_def)
qed


section \<open>Reachable states\<close>

text \<open>One call of an entry point of the I/O APIC, or a step of the local APICs beside it.\<close>

inductive vioapic_step :: "vioapic \<Rightarrow> vioapic \<Rightarrow> bool" where
  irq: "vioapic_set_irqstate vio irq st = Some (ret, vio') \<Longrightarrow> vioapic_step vio vio'"
| mmio: "vioapic_mmio_write vio gpa wval sz = Some (ret, vio') \<Longrightarrow> vioapic_step vio vio'"
| eoi: "vioapic_process_eoi vio vector = Some vio' \<Longrightarrow> vioapic_step vio vio'"
| lapic: "lapic_exec T now op (vi_vm vio) = Some vm' \<Longrightarrow> vioapic_step vio (vio\<lparr>vi_vm := vm'\<rparr>)"

inductive vioapic_reachable :: "vioapic \<Rightarrow> bool" where
  init: "vioapic_reachable (vioapic_init vm)"
| step: "vioapic_reachable vio \<Longrightarrow> vioapic_step vio vio' \<Longrightarrow> vioapic_reachable vio'"

text \<open>No asserted, unmasked level-triggered pin without a delivered interrupt that awaits its EOI.\<close>

definition level_ok :: "rtbl_entry \<Rightarrow> bool" where
  "level_ok e \<longleftrightarrow> (\<not> masked (rt_reg e) \<and> level_trig (rt_reg e) \<and> rt_acnt e > 0 \<longrightarrow> rem_irr (rt_reg e))"

definition level_inv :: "vioapic \<Rightarrow> bool" where
  "level_inv vio \<longleftrightarrow> (\<forall>pin. level_ok (vi_rtbl vio pin))"

lemma sent_reg_bits:
  "masked (sent_reg r) = masked r" "level_trig (sent_reg r) = level_trig r"
  "rem_irr (sent_reg r) = (rem_irr r \<or> \<not> masked r \<and> level_trig r)"
  by (auto simp: rtbl_bits sent_reg_def bit_or_REM_IRR [simplified])

lemma set_pinstate_level_inv:
  assumes "level_inv vio" "vioapic_set_pinstate vio pin b = Some vio'"
  shows "level_inv vio'"
proof (rule set_pinstate_spec [of vio pin b])
  fix v
  assume v: "vioapic_set_pinstate vio pin b = Some v"
    "\<And>q. rt_acnt (vi_rtbl v q) = rt_acnt (vi_rtbl vio q) + line_delta (pin, b) q"
    "\<And>q. rt_reg (vi_rtbl v q) =
       (if q = pin \<and> b \<and> rt_acnt (vi_rtbl vio q) = 0 then sent_reg (rt_reg (vi_rtbl vio q))
        else rt_reg (vi_rtbl vio q))"
  have "level_ok (vi_rtbl v q)" for q
  proof (cases "q = pin \<and> b \<and> rt_acnt (vi_rtbl vio q) = 0")
    case True
    then show ?thesis by (auto simp: level_ok_def v(3) sent_reg_bits)
  next
    case False
    have "level_ok (vi_rtbl vio q)" using assms(1) by (simp add: level_inv_def)
    moreover have "rt_acnt (vi_rtbl v q) > 0 \<Longrightarrow> rt_acnt (vi_rtbl vio q) > 0"
      using False by (auto simp: v(2) line_delta_def split: if_splits)
    moreover have "rt_reg (vi_rtbl v q) = rt_reg (vi_rtbl vio q)" using False by (auto simp: v(3))
    ultimately show ?thesis by (auto simp: level_ok_def)
  qed
  then show ?thesis using v(1) assms(2) by (simp add: level_inv_def)
qed

lemma set_irqstate_level_inv:
  assumes "level_inv vio" "vioapic_set_irqstate vio irq st = Some (ret, vio')"
  shows "level_inv vio'"
  using assms
  by (cases st) (auto simp: vioapic_set_irqstate_def split: if_splits bind_splits
      dest: set_pinstate_level_inv)

lemma written_reg_level_ok:
  "level_ok \<lparr>rt_reg = written_reg e sh data, rt_acnt = rt_acnt e\<rparr>"
  by (auto simp: level_ok_def written_reg_def Let_def sent_reg_bits)

lemma level_ok_cong:
  "rt_reg e = rt_reg e' \<Longrightarrow> rt_acnt e = rt_acnt e' \<Longrightarrow> level_ok e = level_ok e'"
  by (simp add: level_ok_def)

lemma rtbl_write_level_inv:
  assumes "level_inv vio" "rtbl_write vio pin sh data = Some vio'"
  shows "level_inv vio'"
proof (rule rtbl_write_spec [of vio pin sh data])
  fix v
  assume v: "rtbl_write vio pin sh data = Some v"
    "\<And>q. rt_acnt (vi_rtbl v q) = rt_acnt (vi_rtbl vio q)"
    "\<And>q. rt_reg (vi_rtbl v q) =
       (if q = pin then written_reg (vi_rtbl vio q) sh data else rt_reg (vi_rtbl vio q))"
  have "level_ok (vi_rtbl v q)" for q
  proof (cases "q = pin")
    case True
    then show ?thesis using written_reg_level_ok [of "vi_rtbl vio q" sh data]
      by (simp add: level_ok_def v)
  next
    case False
    then show ?thesis using assms(1) level_ok_cong [of "vi_rtbl v q" "vi_rtbl vio q"]
      by (simp add: level_inv_def v(2,3))
  qed
  then show ?thesis using v(1) assms(2) by (simp add: level_inv_def)
qed

lemma write_level_inv:
  assumes "level_inv vio" "vioapic_write vio addr data = Some vio'"
  shows "level_inv vio'"
proof -
  have "level_inv (vio\<lparr>vi_id := x\<rparr>)" for x using assms(1) by (simp add: level_inv_def)
  then show ?thesis using assms rtbl_write_level_inv [OF assms(1)]
    by (auto simp: vioapic_write_def Let_def split: if_splits)
qed

lemma mmio_write_level_inv:
  assumes "level_inv vio" "vioapic_mmio_write vio gpa wval sz = Some (ret, vio')"
  shows "level_inv vio'"
proof -
  have "level_inv (vio\<lparr>vi_ioregsel := x\<rparr>)" for x using assms(1) by (simp add: level_inv_def)
  then show ?thesis using assms write_level_inv [OF assms(1)]
    by (auto simp: vioapic_mmio_write_def vioapic_mmio_rw_def Let_def split: if_splits bind_splits)
qed

lemma eoi_reg_bits:
  "masked (eoi_reg v e) = masked (rt_reg e)" "level_trig (eoi_reg v e) = level_trig (rt_reg e)"
  "rem_irr (eoi_reg v e) = (rem_irr (rt_reg e) \<and>
     (rtbl_vector (rt_reg e) = v \<longrightarrow> rt_acnt e > 0 \<and> \<not> masked (rt_reg e) \<and> level_trig (rt_reg e)))"
proof -
  have b: "masked (r AND NOT IOART_REM_IRR) = masked r"
    "level_trig (r AND NOT IOART_REM_IRR) = level_trig r"
    "\<not> rem_irr (r AND NOT IOART_REM_IRR)" for r
    unfolding rtbl_bits bit_and_not_REM_IRR by simp_all
  show "masked (eoi_reg v e) = masked (rt_reg e)" "level_trig (eoi_reg v e) = level_trig (rt_reg e)"
    "rem_irr (eoi_reg v e) = (rem_irr (rt_reg e) \<and>
     (rtbl_vector (rt_reg e) = v \<longrightarrow> rt_acnt e > 0 \<and> \<not> masked (rt_reg e) \<and> level_trig (rt_reg e)))"
    unfolding eoi_reg_def Let_def using b [of "rt_reg e"] by (auto simp only: sent_reg_bits split: if_splits)
qed

lemma eoi_level_inv:
  assumes "level_inv vio" "vioapic_process_eoi vio vector = Some vio'"
  shows "level_inv vio'"
proof (rule process_eoi_spec [of vio vector])
  fix v
  assume v: "vioapic_process_eoi vio vector = Some v"
    "\<And>q. rt_acnt (vi_rtbl v q) = rt_acnt (vi_rtbl vio q)"
    "\<And>q. rt_reg (vi_rtbl v q) =
       (if q < 32 then eoi_reg vector (vi_rtbl vio q) else rt_reg (vi_rtbl vio q))"
  have "level_ok (vi_rtbl v q)" for q
  proof -
    have "level_ok (vi_rtbl vio q)" using assms(1) by (simp add: level_inv_def)
    then show ?thesis by (auto simp: level_ok_def v eoi_reg_bits)
  qed
  then show ?thesis using v(1) assms(2) by (simp add: level_inv_def)
qed

lemma reachable_level_inv: "vioapic_reachable vio \<Longrightarrow> level_inv vio"
proof (induction rule: vioapic_reachable.induct)
  case (init vm)
  then show ?case by (simp add: level_inv_def level_ok_def vioapic_init_def)
next
  case (step vio vio')
  from step.hyps(2) step.IH show ?case
    by cases (blast intro: set_irqstate_level_inv mmio_write_level_inv eoi_level_inv,
      blast intro: set_irqstate_level_inv mmio_write_level_inv eoi_level_inv,
      blast intro: set_irqstate_level_inv mmio_write_level_inv eoi_level_inv, simp add: level_inv_def)
qed


section \<open>Properties\<close>

lemma set_irqstate_Some: "\<exists>ret vio'. vioapic_set_irqstate vio irq st = Some (ret, vio')"
proof -
  have p: "\<exists>vio'. vioapic_set_pinstate v pin b = Some vio'" for v pin b
    by (rule set_pinstate_spec [of v pin b]) blast
  obtain v1 where v1: "vioapic_set_pinstate vio (nat irq) True = Some v1" using p by blast
  show ?thesis
    using p [of vio "nat irq" False] p [of v1 "nat irq" False] v1
    by (cases st) (auto simp: vioapic_set_irqstate_def)
qed

lemma mmio_write_Some: "\<exists>ret vio'. vioapic_mmio_write vio gpa wval sz = Some (ret, vio')"
proof -
  have "\<exists>vio'. rtbl_write v pin sh data = Some vio'" for v pin sh data
    by (rule rtbl_write_spec [of v pin sh data]) blast
  then have "\<exists>vio'. vioapic_write v addr data = Some vio'" for v addr data
    by (simp add: vioapic_write_def Let_def)
  then obtain v where "vioapic_write vio (vi_ioregsel vio) (ucast wval) = Some v" by blast
  then show ?thesis by (simp add: vioapic_mmio_write_def vioapic_mmio_rw_def Let_def)
qed


text \<open>A machine with pin 4 configured as unmasked level-triggered, vector 0x50, physical destination
  0, written through the register window.\<close>

definition vio_demo :: vioapic where
  "vio_demo = (vioapic_init vm_demo)\<lparr>vi_ioregsel := 0x18\<rparr>"

lemma vio_demo_reachable: "vioapic_reachable vio_demo"
proof (rule vioapic_reachable.step [OF vioapic_reachable.init [of vm_demo]])
  show "vioapic_step (vioapic_init vm_demo) vio_demo"
    by (rule vioapic_step.mmio [of _ "0xfec00000" "0x18" 4 0])
      (simp add: vioapic_mmio_write_def vioapic_mmio_rw_def vio_demo_def)
qed


text \<open>Line changes and delivery: an assert that takes the counter of a pin from zero to one
  delivers the entry of the redirection table (nothing when it is masked) and sets the remote IRR
  exactly when the entry is unmasked and level-triggered; every other change of the line only counts.
  The other pins keep entry and counter.\<close>

theorem vioapic_pin_delivery:
  "\<exists>vio'. vioapic_set_pinstate vio pin b = Some vio' \<and>
    (if b \<and> rt_acnt (vi_rtbl vio pin) = 0
     then pin_deliver (vi_vm vio) (rt_reg (vi_rtbl vio pin)) = Some (vi_vm vio') \<and>
       rt_reg (vi_rtbl vio' pin) = sent_reg (rt_reg (vi_rtbl vio pin))
     else vi_vm vio' = vi_vm vio \<and> rt_reg (vi_rtbl vio' pin) = rt_reg (vi_rtbl vio pin)) \<and>
    rt_acnt (vi_rtbl vio' pin) = rt_acnt (vi_rtbl vio pin) + (if b then 1 else -1) \<and>
    (\<forall>q. q \<noteq> pin \<longrightarrow> vi_rtbl vio' q = vi_rtbl vio q)"
proof (rule set_pinstate_spec [of vio pin b])
  fix v
  assume v: "vioapic_set_pinstate vio pin b = Some v"
    "\<And>q. rt_acnt (vi_rtbl v q) = rt_acnt (vi_rtbl vio q) + line_delta (pin, b) q"
    "\<And>q. rt_reg (vi_rtbl v q) =
       (if q = pin \<and> b \<and> rt_acnt (vi_rtbl vio q) = 0 then sent_reg (rt_reg (vi_rtbl vio q))
        else rt_reg (vi_rtbl vio q))"
    "if b \<and> rt_acnt (vi_rtbl vio pin) = 0
     then pin_deliver (vi_vm vio) (rt_reg (vi_rtbl vio pin)) = Some (vi_vm v)
     else vi_vm v = vi_vm vio"
  have "vi_rtbl v q = vi_rtbl vio q" if "q \<noteq> pin" for q
    using that by (intro rtbl_entry.equality) (simp_all add: v(2,3) line_delta_def)
  then show ?thesis using v(1,4)
    by (intro exI [of _ v]) (auto simp: v(2,3) line_delta_def)
qed

theorem vioapic_pin_delivery_witness:
  "\<exists>vio'. vioapic_set_pinstate vio_demo 3 True = Some vio' \<and> vi_vm vio' = vm_demo \<and>
     rt_acnt (vi_rtbl vio' 3) = 1"
  using vioapic_pin_delivery [of vio_demo 3 True]
  by (auto simp: vio_demo_def vioapic_init_def pin_deliver_def masked_def)

lemma bit_RO: "bit IOART_REM_IRR n = (n = 14)" "bit IOART_DELIVS n = (n = 12)"
proof -
  have e: "IOART_REM_IRR = set_bit 14 0" "IOART_DELIVS = set_bit 12 0" by (simp_all add: set_bit_eq_or)
  show "bit IOART_REM_IRR n = (n = 14)" "bit IOART_DELIVS n = (n = 12)"
    by (simp_all only: e bit_set_bit_word) auto
qed

lemma bit_rtbl_merge:
  assumes "n < 64"
  shows "bit (rtbl_merge old sh data) n =
    (if n \<noteq> 12 \<and> n \<noteq> 14 \<and> sh \<le> n \<and> n < sh + 32 then bit data (n - sh) else bit old n)"
proof -
  have m: "(0xffffffff :: u64) = mask 32" by (simp add: mask_eq_exp_minus_1)
  have "bit (push_bit sh (0xffffffff :: u64)) n = (sh \<le> n \<and> n < sh + 32)"
    unfolding m using assms by (auto simp: bit_push_bit_iff bit_mask_iff)
  moreover have "bit (push_bit sh (ucast data :: u64)) n = (sh \<le> n \<and> bit data (n - sh))"
    using assms by (auto simp: bit_push_bit_iff bit_ucast_iff)
  moreover have "bit data (n - sh) \<Longrightarrow> n - sh < 32" using bit_imp_le_length [of data "n - sh"] by simp
  ultimately show ?thesis
    unfolding rtbl_merge_def Let_def bit_and_iff bit_or_iff bit_not_iff_eq bit_RO
    using assms by auto
qed

text \<open>Register writes: a write to half of a redirection entry replaces exactly the writable bits
  of that half, keeps the two read-only status bits, except that the remote IRR is set when the write
  itself delivers an asserted level interrupt, and leaves the other entries alone; reading the register
  back returns the entry.\<close>

theorem vioapic_write_entry:
  assumes "unat (addr AND 0xff) = 0x10 + 2 * pin + h" "pin < 32" "h < 2"
  shows "\<exists>vio'. vioapic_write vio addr data = Some vio' \<and>
    (let old = rt_reg (vi_rtbl vio pin); new = rt_reg (vi_rtbl vio' pin)
     in (\<forall>n < 64. n \<noteq> 14 \<longrightarrow> bit new n =
          (if n \<noteq> 12 \<and> 32 * h \<le> n \<and> n < 32 * h + 32 then bit data (n - 32 * h) else bit old n)) \<and>
        rem_irr new = (rem_irr old \<or> rt_acnt (vi_rtbl vio pin) > 0 \<and> \<not> masked new \<and> level_trig new) \<and>
        vioapic_read vio' addr = ucast (drop_bit (32 * h) new) \<and>
        (\<forall>q. q \<noteq> pin \<longrightarrow> vi_rtbl vio' q = vi_rtbl vio q))"
proof -
  have h: "(0x10 + 2 * pin + h - IOAPIC_REDTBL) div 2 = pin"
    "(if (0x10 + 2 * pin + h - IOAPIC_REDTBL) mod 2 \<noteq> 0 then 32 else 0) = 32 * h"
    "0x10 + 2 * pin + h < 0x10 + REDIR_ENTRIES * 2"
    using assms(2,3) by (cases "h = 0"; simp; fail)+
  have w: "vioapic_write vio addr data = rtbl_write vio pin (32 * h) data"
    unfolding vioapic_write_def assms(1) Let_def h using assms(2,3) by simp
  show ?thesis
  proof (rule rtbl_write_spec [of vio pin "32 * h" data])
    fix v
    assume v: "rtbl_write vio pin (32 * h) data = Some v"
      "\<And>q. rt_acnt (vi_rtbl v q) = rt_acnt (vi_rtbl vio q)"
      "\<And>q. rt_reg (vi_rtbl v q) =
         (if q = pin then written_reg (vi_rtbl vio q) (32 * h) data else rt_reg (vi_rtbl vio q))"
    let ?m = "rtbl_merge (rt_reg (vi_rtbl vio pin)) (32 * h) data"
    have new: "rt_reg (vi_rtbl v pin) = written_reg (vi_rtbl vio pin) (32 * h) data" by (simp add: v(3))
    have "vi_rtbl v q = vi_rtbl vio q" if "q \<noteq> pin" for q
      using that by (intro rtbl_entry.equality) (simp_all add: v(2,3))
    moreover have "bit (rt_reg (vi_rtbl v pin)) n = bit ?m n" if "n \<noteq> 14" for n
      using that by (simp add: new written_reg_def Let_def sent_reg_def bit_or_REM_IRR [simplified])
    moreover have "rem_irr ?m = rem_irr (rt_reg (vi_rtbl vio pin))"
      by (simp add: rtbl_bits bit_rtbl_merge)
    then have "rem_irr (rt_reg (vi_rtbl v pin)) = (rem_irr (rt_reg (vi_rtbl vio pin)) \<or>
        rt_acnt (vi_rtbl vio pin) > 0 \<and> \<not> masked (rt_reg (vi_rtbl v pin)) \<and>
        level_trig (rt_reg (vi_rtbl v pin)))"
      by (auto simp: new written_reg_def Let_def sent_reg_bits)
    moreover have "vioapic_read v addr = ucast (drop_bit (32 * h) (rt_reg (vi_rtbl v pin)))"
      unfolding vioapic_read_def assms(1) Let_def h using assms(2,3) by simp
    ultimately show ?thesis using v(1) w by (intro exI [of _ v]) (auto simp: bit_rtbl_merge Let_def)
  qed
qed

theorem vioapic_write_entry_witness:
  "\<exists>vio'. vioapic_write vio_demo 0x18 0x8050 = Some vio' \<and>
     level_trig (rt_reg (vi_rtbl vio' 4)) \<and> \<not> masked (rt_reg (vi_rtbl vio' 4)) \<and>
     \<not> rem_irr (rt_reg (vi_rtbl vio' 4))"
proof -
  have "unat ((0x18 :: u32) AND 0xff) = 0x10 + 2 * 4 + 0" "(4 :: nat) < 32" "(0 :: nat) < 2" by simp_all
  from vioapic_write_entry [OF this, of vio_demo "0x8050"] show ?thesis
    by (auto simp: Let_def rtbl_bits vio_demo_def vioapic_init_def)
qed

text \<open>End of interrupt: the EOI broadcast of a vector clears the remote IRR of exactly the pins
  that carry this vector and wait for it, and keeps it (by delivering again) exactly on those of them
  whose line is still asserted, unmasked and level-triggered; nothing else of the entries changes.\<close>

theorem vioapic_eoi_pins:
  assumes "pin < 32"
  shows "\<exists>vio'. vioapic_process_eoi vio vector = Some vio' \<and>
    (let old = rt_reg (vi_rtbl vio pin); new = rt_reg (vi_rtbl vio' pin)
     in rem_irr new = (rem_irr old \<and> (rtbl_vector old = vector \<longrightarrow>
          rt_acnt (vi_rtbl vio pin) > 0 \<and> \<not> masked old \<and> level_trig old)) \<and>
        (\<forall>n. n \<noteq> 14 \<longrightarrow> bit new n = bit old n) \<and>
        rt_acnt (vi_rtbl vio' pin) = rt_acnt (vi_rtbl vio pin))"
proof (rule process_eoi_spec [of vio vector])
  fix v
  assume v: "vioapic_process_eoi vio vector = Some v"
    "\<And>q. rt_acnt (vi_rtbl v q) = rt_acnt (vi_rtbl vio q)"
    "\<And>q. rt_reg (vi_rtbl v q) =
       (if q < 32 then eoi_reg vector (vi_rtbl vio q) else rt_reg (vi_rtbl vio q))"
  have "bit (eoi_reg vector e) n = bit (rt_reg e) n" if "n \<noteq> 14" for e n
    using that by (simp add: eoi_reg_def Let_def sent_reg_def bit_or_REM_IRR [simplified]
        bit_and_not_REM_IRR [simplified])
  with v(1) show ?thesis using assms
    by (intro exI [of _ v]) (simp add: v(2,3) Let_def eoi_reg_bits)
qed

theorem vioapic_eoi_pins_witness:
  "\<exists>vio'. vioapic_process_eoi (vio_demo\<lparr>vi_rtbl := (\<lambda>_. \<lparr>rt_reg = 0xc050, rt_acnt = 1\<rparr>)\<rparr>) 0x50 = Some vio' \<and>
     rem_irr (rt_reg (vi_rtbl vio' 4))"
proof -
  have "(4 :: nat) < 32" by simp
  from vioapic_eoi_pins [OF this, of "vio_demo\<lparr>vi_rtbl := (\<lambda>_. \<lparr>rt_reg = 0xc050, rt_acnt = 1\<rparr>)\<rparr>" "0x50"]
  show ?thesis by (auto simp: Let_def rem_irr_def masked_def level_trig_def)
qed

text \<open>Shared lines: after any sequence of line changes the counter of a pin has grown by its
  asserts minus its deasserts, so a line that every device released is released.\<close>

theorem vioapic_line_counters:
  assumes "\<forall>c \<in> set cs. fst c < 32" and "q < 32"
  shows "pin_acnt (fold (\<lambda>(p, b) s. set_pin s p b) cs vio) q =
    pin_acnt vio q + int (count_list cs (q, True)) - int (count_list cs (q, False))"
  using vio_pins.cnt_set_pins [OF assms, of vio] by (simp add: vio_pins.set_pins_def net_asserts_count)

theorem vioapic_line_counters_witness:
  "pin_acnt (fold (\<lambda>(p, b) s. set_pin s p b) [(3, True), (5, True), (3, True), (3, False)] vio_demo) 3 = 1"
proof -
  have "\<forall>c \<in> set [(3, True), (5, True), (3, True), (3, False)]. fst c < (32 :: nat)" "(3 :: nat) < 32"
    by simp_all
  from vioapic_line_counters [OF this, of vio_demo] show ?thesis
    by (simp add: pin_acnt_def vio_demo_def vioapic_init_def)
qed

end
