(* ===== verification/Vatpit.thy ===== *)
theory Vatpit
  imports Kernel_Time "HOL-Library.Monad_Syntax"
begin

text \<open>
  The 8254 interval timer of \<^verbatim>\<open>vmm/io/vatpit.c\<close>: three counters, their latches, the
  port handlers and the callout that drives counter 0. Uptime arithmetic and the uptime read during
  an operation are parameters (theory \<open>Kernel_Time\<close>). \<open>None\<close> is a division by zero of the
  source. Interrupt pulses to the two interrupt controllers are appended to \<open>pit_pulses\<close>.
\<close>

section \<open>State\<close>

datatype pit_pulse = Vatpic_pulse_irq nat | Vioapic_pulse_irq nat

record channel =
  ch_mode :: u8
  ch_initial :: u16
  ch_now_bt :: bintime
  ch_cr :: "nat \<Rightarrow> u8"
  ch_ol :: "nat \<Rightarrow> u8"
  ch_slatched :: bool
  ch_status :: u8
  ch_crbyte :: nat
  ch_olbyte :: nat
  ch_frbyte :: nat
  ch_callout :: callout
  ch_callout_bt :: bintime

record vatpit =
  pit_freq_bt :: bintime
  pit_channel :: "nat \<Rightarrow> channel"
  pit_pulses :: "pit_pulse list"

abbreviation (input) TIMER_INTTC :: u8 where "TIMER_INTTC \<equiv> 0x00"
abbreviation (input) TIMER_RATEGEN :: u8 where "TIMER_RATEGEN \<equiv> 0x04"
abbreviation (input) TIMER_SQWAVE :: u8 where "TIMER_SQWAVE \<equiv> 0x06"
abbreviation (input) TIMER_SWSTROBE :: u8 where "TIMER_SWSTROBE \<equiv> 0x08"
abbreviation (input) TIMER_LATCH :: u8 where "TIMER_LATCH \<equiv> 0x00"
abbreviation (input) TIMER_16BIT :: u8 where "TIMER_16BIT \<equiv> 0x30"
abbreviation (input) TIMER_SEL_MASK :: u8 where "TIMER_SEL_MASK \<equiv> 0xc0"
abbreviation (input) TIMER_RW_MASK :: u8 where "TIMER_RW_MASK \<equiv> 0x30"
abbreviation (input) TIMER_MODE_MASK :: u8 where "TIMER_MODE_MASK \<equiv> 0x0f"
abbreviation (input) TIMER_SEL_READBACK :: u8 where "TIMER_SEL_READBACK \<equiv> 0xc0"
abbreviation (input) TIMER_STS_OUT :: u8 where "TIMER_STS_OUT \<equiv> 0x80"
abbreviation (input) TIMER_STS_NULLCNT :: u8 where "TIMER_STS_NULLCNT \<equiv> 0x40"
abbreviation (input) TIMER_RB_LCTR :: u8 where "TIMER_RB_LCTR \<equiv> 0x20"
abbreviation (input) TIMER_RB_LSTATUS :: u8 where "TIMER_RB_LSTATUS \<equiv> 0x10"
abbreviation (input) TIMER_RB_CTR_2 :: u8 where "TIMER_RB_CTR_2 \<equiv> 0x08"
abbreviation (input) TIMER_RB_CTR_1 :: u8 where "TIMER_RB_CTR_1 \<equiv> 0x04"
abbreviation (input) TIMER_RB_CTR_0 :: u8 where "TIMER_RB_CTR_0 \<equiv> 0x02"
abbreviation (input) TMR2_OUT_STS :: u32 where "TMR2_OUT_STS \<equiv> 0x20"
abbreviation (input) PIT_8254_FREQ :: nat where "PIT_8254_FREQ \<equiv> 1193182"
abbreviation (input) TIMER_CNTR0 :: nat where "TIMER_CNTR0 \<equiv> 0x40"
abbreviation (input) TIMER_MODE :: nat where "TIMER_MODE \<equiv> 0x43"

definition TIMER_DIV :: "nat \<Rightarrow> nat \<Rightarrow> nat" where
  "TIMER_DIV freq hz = (freq + hz div 2) div hz"

definition upd_channel :: "nat \<Rightarrow> (channel \<Rightarrow> channel) \<Rightarrow> vatpit \<Rightarrow> vatpit" where
  "upd_channel i f pit = pit\<lparr>pit_channel := (pit_channel pit)(i := f (pit_channel pit i))\<rparr>"

section \<open>Counting\<close>

definition vatpit_delta_ticks :: "time_ops \<Rightarrow> bintime \<Rightarrow> vatpit \<Rightarrow> channel \<Rightarrow> u64" where
  "vatpit_delta_ticks T now pit c =
     (let delta = bintime_sub T now (ch_now_bt c)
      in bt_sec delta * of_nat PIT_8254_FREQ + bt_frac delta div bt_frac (pit_freq_bt pit))"

definition vatpit_get_out :: "time_ops \<Rightarrow> bintime \<Rightarrow> vatpit \<Rightarrow> nat \<Rightarrow> bool option" where
  "vatpit_get_out T now pit i =
     (let c = pit_channel pit i; delta_ticks = vatpit_delta_ticks T now pit c
      in if ch_mode c = TIMER_INTTC then Some (delta_ticks \<ge> ucast (ch_initial c))
         else if ch_mode c = TIMER_SQWAVE
         then (if ch_initial c = 0 then None
               else Some (delta_ticks mod ucast (ch_initial c) < ucast (ch_initial c div 2)))
         else Some False)"

definition pit_timer_start_cntr0 :: "time_ops \<Rightarrow> bintime \<Rightarrow> vatpit \<Rightarrow> vatpit" where
  "pit_timer_start_cntr0 T now pit =
     (let c = pit_channel pit 0
      in if ch_initial c \<noteq> 0
         then let delta = \<lparr>bt_sec = 0, bt_frac = bt_frac (pit_freq_bt pit) * ucast (ch_initial c)\<rparr>;
                  bt = bintime_add T (ch_callout_bt c) delta;
                  bt = (if bintime_lt T bt now then bintime_add T now delta else bt)
              in upd_channel 0 (\<lambda>c. c\<lparr>ch_callout_bt := bt,
                   ch_callout := callout_reset_sbt (ch_callout c) (bttosbt T bt)\<rparr>) pit
         else pit)"

text \<open>Run by the callout of channel \<open>i\<close>; only counter 0 ever starts one.\<close>

definition vatpit_callout_handler :: "time_ops \<Rightarrow> bintime \<Rightarrow> nat \<Rightarrow> vatpit \<Rightarrow> vatpit" where
  "vatpit_callout_handler T now i pit =
     (let c = pit_channel pit i
      in if co_pending (ch_callout c) then pit
         else if \<not> co_active (ch_callout c) then pit
         else let pit = upd_channel i (\<lambda>c. c\<lparr>ch_callout := callout_deactivate (ch_callout c)\<rparr>) pit;
                  pit = (if ch_mode c = TIMER_RATEGEN \<or> ch_mode c = TIMER_SQWAVE
                         then pit_timer_start_cntr0 T now pit else pit)
              in pit\<lparr>pit_pulses := pit_pulses pit @ [Vatpic_pulse_irq 0, Vioapic_pulse_irq 2]\<rparr>)"

text \<open>The result: the count (0 when the latch is still full) and the channel.\<close>

definition pit_update_counter ::
    "time_ops \<Rightarrow> bintime \<Rightarrow> vatpit \<Rightarrow> channel \<Rightarrow> bool \<Rightarrow> u16 \<times> channel" where
  "pit_update_counter T now pit c latch =
     (if latch \<and> ch_olbyte c \<noteq> 0 then (0, c)
      else let c = (if ch_initial c = 0
                    then c\<lparr>ch_initial := of_nat (TIMER_DIV PIT_8254_FREQ 100), ch_now_bt := now,
                           ch_status := ch_status c AND NOT TIMER_STS_NULLCNT\<rparr>
                    else c);
               delta_ticks = vatpit_delta_ticks T now pit c;
               lval = (if ch_mode c = TIMER_SQWAVE
                       then (ch_initial c - ucast ((delta_ticks * 2) mod ucast (ch_initial c))) AND NOT 1
                       else ch_initial c - ucast (delta_ticks mod ucast (ch_initial c)));
               c = (if latch
                    then c\<lparr>ch_olbyte := 2,
                           ch_ol := (ch_ol c)(1 := ucast lval, 0 := ucast (drop_bit 8 lval))\<rparr>
                    else c)
           in (lval, c))"

section \<open>Commands\<close>

definition pit_readback1 :: "time_ops \<Rightarrow> bintime \<Rightarrow> nat \<Rightarrow> u8 \<Rightarrow> vatpit \<Rightarrow> vatpit option" where
  "pit_readback1 T now i cmd pit = do {
     let pit = (if cmd AND TIMER_RB_LCTR = 0 \<and> ch_olbyte (pit_channel pit i) = 0
                then upd_channel i (\<lambda>c. snd (pit_update_counter T now pit c True)) pit else pit);
     let c = pit_channel pit i;
     if cmd AND TIMER_RB_LSTATUS = 0 \<and> \<not> ch_slatched c
     then do {
       out \<leftarrow> (if ch_mode c = TIMER_INTTC \<or> ch_mode c = TIMER_SQWAVE then vatpit_get_out T now pit i
              else Some False);
       Some (upd_channel i (\<lambda>c. c\<lparr>ch_slatched := True,
               ch_status := (if out then ch_status c OR TIMER_STS_OUT
                             else ch_status c AND NOT TIMER_STS_OUT)\<rparr>) pit)
     }
     else Some pit
   }"

definition pit_readback :: "time_ops \<Rightarrow> bintime \<Rightarrow> u8 \<Rightarrow> vatpit \<Rightarrow> (int \<times> vatpit) option" where
  "pit_readback T now cmd pit = do {
     pit \<leftarrow> (if cmd AND TIMER_RB_CTR_0 \<noteq> 0 then pit_readback1 T now 0 cmd pit else Some pit);
     pit \<leftarrow> (if cmd AND TIMER_RB_CTR_1 \<noteq> 0 then pit_readback1 T now 1 cmd pit else Some pit);
     pit \<leftarrow> (if cmd AND TIMER_RB_CTR_2 \<noteq> 0 then pit_readback1 T now 2 cmd pit else Some pit);
     Some (0, pit)
   }"

definition vatpit_update_mode :: "time_ops \<Rightarrow> bintime \<Rightarrow> u8 \<Rightarrow> vatpit \<Rightarrow> (int \<times> vatpit) option" where
  "vatpit_update_mode T now val pit =
     (let sel = val AND TIMER_SEL_MASK; rw = val AND TIMER_RW_MASK; mode = val AND TIMER_MODE_MASK;
          i = unat (drop_bit 6 sel)
      in if sel = TIMER_SEL_READBACK then pit_readback T now val pit
         else if rw \<noteq> TIMER_LATCH \<and> rw \<noteq> TIMER_16BIT then Some (-1, pit)
         else if rw \<noteq> TIMER_LATCH \<and> mode \<noteq> TIMER_INTTC \<and> mode \<noteq> TIMER_RATEGEN \<and>
                 mode \<noteq> TIMER_SQWAVE \<and> mode \<noteq> TIMER_SWSTROBE then Some (-1, pit)
         else if rw = TIMER_LATCH
         then Some (0, upd_channel i (\<lambda>c. snd (pit_update_counter T now pit c True)) pit)
         else Some (0, upd_channel i (\<lambda>c. c\<lparr>ch_mode := mode, ch_olbyte := 0,
                         ch_status := ch_status c OR TIMER_STS_NULLCNT\<rparr>) pit))"

section \<open>Ports\<close>

text \<open>The counter ports: a read gives the byte for \<open>*eax\<close>.\<close>

definition counter_in :: "time_ops \<Rightarrow> bintime \<Rightarrow> nat \<Rightarrow> vatpit \<Rightarrow> u32 \<times> vatpit" where
  "counter_in T now i pit =
     (let c = pit_channel pit i
      in if ch_slatched c
         then (ucast (ch_status c), upd_channel i (\<lambda>c. c\<lparr>ch_slatched := False, ch_status := 0\<rparr>) pit)
         else if ch_olbyte c = 0
         then let (tmp, c) = pit_update_counter T now pit c False;
                  tmp = (if ch_frbyte c \<noteq> 0 then drop_bit 8 tmp else tmp) AND 0xff
              in (ucast tmp, upd_channel i (\<lambda>_. c\<lparr>ch_frbyte := (if ch_frbyte c = 0 then 1 else 0)\<rparr>) pit)
         else (ucast (ch_ol c (ch_olbyte c - 1)),
               upd_channel i (\<lambda>c. c\<lparr>ch_olbyte := ch_olbyte c - 1\<rparr>) pit))"

definition counter_out :: "time_ops \<Rightarrow> bintime \<Rightarrow> nat \<Rightarrow> u8 \<Rightarrow> vatpit \<Rightarrow> vatpit" where
  "counter_out T now i val pit =
     (let pit = upd_channel i (\<lambda>c. c\<lparr>ch_cr := (ch_cr c)(ch_crbyte c := val),
                                    ch_crbyte := ch_crbyte c + 1\<rparr>) pit
      in if ch_crbyte (pit_channel pit i) = 2
         then let pit = upd_channel i (\<lambda>c. c\<lparr>ch_status := ch_status c AND NOT TIMER_STS_NULLCNT,
                      ch_frbyte := 0, ch_crbyte := 0,
                      ch_initial := ucast (ch_cr c 0) OR push_bit 8 (ucast (ch_cr c 1)),
                      ch_now_bt := now\<rparr>) pit;
                  pit = (if i = 0
                         then pit_timer_start_cntr0 T now
                                (upd_channel 0 (\<lambda>c. c\<lparr>ch_callout_bt := ch_now_bt c\<rparr>) pit)
                         else pit)
              in if ch_initial (pit_channel pit i) = 0
                 then upd_channel i (\<lambda>c. c\<lparr>ch_initial := 0xffff\<rparr>) pit else pit
         else pit)"

definition vatpit_handler ::
    "time_ops \<Rightarrow> bintime \<Rightarrow> bool \<Rightarrow> nat \<Rightarrow> nat \<Rightarrow> u32 \<Rightarrow> vatpit \<Rightarrow> (int \<times> u32 \<times> vatpit) option" where
  "vatpit_handler T now in_port port bytes eax pit =
     (if bytes \<noteq> 1 then Some (-1, eax, pit)
      else if port = TIMER_MODE
      then (if in_port then Some (-1, eax, pit)
            else map_option (\<lambda>(error, pit). (error, eax, pit)) (vatpit_update_mode T now (ucast eax) pit))
      else if in_port
      then let (v, pit) = counter_in T now (port - TIMER_CNTR0) pit in Some (0, v, pit)
      else Some (0, eax, counter_out T now (port - TIMER_CNTR0) (ucast eax) pit))"

definition vatpit_nmisc_handler ::
    "time_ops \<Rightarrow> bintime \<Rightarrow> bool \<Rightarrow> u32 \<Rightarrow> vatpit \<Rightarrow> (int \<times> u32) option" where
  "vatpit_nmisc_handler T now in_port eax pit =
     (if in_port
      then map_option (\<lambda>out. (0, if out then TMR2_OUT_STS else 0)) (vatpit_get_out T now pit 2)
      else Some (0, eax))"

definition channel_zero :: channel where
  "channel_zero = \<lparr>ch_mode = 0, ch_initial = 0, ch_now_bt = bintime_zero, ch_cr = (\<lambda>_. 0),
     ch_ol = (\<lambda>_. 0), ch_slatched = False, ch_status = 0, ch_crbyte = 0, ch_olbyte = 0, ch_frbyte = 0,
     ch_callout = callout_init, ch_callout_bt = bintime_zero\<rparr>"

definition vatpit_init :: "time_ops \<Rightarrow> vatpit" where
  "vatpit_init T = \<lparr>pit_freq_bt = FREQ2BT T PIT_8254_FREQ, pit_channel = (\<lambda>_. channel_zero),
     pit_pulses = []\<rparr>"


section \<open>Reachable timers\<close>

lemma upd_channel_simps [simp]:
  "pit_channel (upd_channel i f pit) j = (if j = i then f (pit_channel pit i) else pit_channel pit j)"
  "pit_freq_bt (upd_channel i f pit) = pit_freq_bt pit"
  "pit_pulses (upd_channel i f pit) = pit_pulses pit"
  by (simp_all add: upd_channel_def)

text \<open>The array indices of a channel are in range.\<close>

definition channel_ok :: "channel \<Rightarrow> bool" where
  "channel_ok c \<longleftrightarrow> ch_crbyte c < 2 \<and> ch_olbyte c \<le> 2 \<and> ch_frbyte c \<le> 1"

definition pit_ok :: "vatpit \<Rightarrow> bool" where
  "pit_ok pit \<longleftrightarrow> (\<forall>i. channel_ok (pit_channel pit i))"

inductive vatpit_step :: "time_ops \<Rightarrow> vatpit \<Rightarrow> vatpit \<Rightarrow> bool" for T where
  port: "vatpit_handler T now in_port port bytes eax pit = Some (error, eax', pit') \<Longrightarrow>
    vatpit_step T pit pit'"
| callout: "pit' = vatpit_callout_handler T now i (upd_channel i
      (\<lambda>c. c\<lparr>ch_callout := (ch_callout c)\<lparr>co_pending := False\<rparr>\<rparr>) pit) \<Longrightarrow> vatpit_step T pit pit'"

inductive vatpit_reachable :: "time_ops \<Rightarrow> vatpit \<Rightarrow> bool" for T where
  init: "vatpit_reachable T (vatpit_init T)"
| step: "vatpit_reachable T pit \<Longrightarrow> vatpit_step T pit pit' \<Longrightarrow> vatpit_reachable T pit'"

lemma pit_ok_upd: "pit_ok pit \<Longrightarrow> channel_ok (f (pit_channel pit i)) \<Longrightarrow> pit_ok (upd_channel i f pit)"
  by (simp add: pit_ok_def)

lemma update_counter_ok: "channel_ok c \<Longrightarrow> channel_ok (snd (pit_update_counter T now pit c latch))"
  by (simp add: pit_update_counter_def channel_ok_def Let_def)

lemma start_cntr0_ok: "pit_ok pit \<Longrightarrow> pit_ok (pit_timer_start_cntr0 T now pit)"
  by (simp add: pit_timer_start_cntr0_def Let_def pit_ok_def channel_ok_def)

lemma callout_ok: "pit_ok pit \<Longrightarrow> pit_ok (vatpit_callout_handler T now i pit)"
proof -
  assume ok: "pit_ok pit"
  let ?pit = "upd_channel i (\<lambda>c. c\<lparr>ch_callout := callout_deactivate (ch_callout c)\<rparr>) pit"
  have "pit_ok ?pit" using ok by (simp add: pit_ok_def channel_ok_def)
  moreover from this have "pit_ok (pit_timer_start_cntr0 T now ?pit)" by (rule start_cntr0_ok)
  moreover have "pit_ok (p\<lparr>pit_pulses := x\<rparr>) = pit_ok p" for p x by (simp add: pit_ok_def)
  ultimately show ?thesis using ok by (simp add: vatpit_callout_handler_def Let_def)
qed

lemma upd_channel_upd: "upd_channel i f (upd_channel i g pit) = upd_channel i (\<lambda>c. f (g c)) pit"
  by (simp add: upd_channel_def)

lemma readback1_ok:
  assumes "pit_ok pit" "pit_readback1 T now i cmd pit = Some pit'"
  shows "pit_ok pit'"
proof -
  define pit1 where "pit1 = (if cmd AND TIMER_RB_LCTR = 0 \<and> ch_olbyte (pit_channel pit i) = 0
    then upd_channel i (\<lambda>c. snd (pit_update_counter T now pit c True)) pit else pit)"
  have ok1: "pit_ok pit1" using assms(1) update_counter_ok by (simp add: pit_ok_def pit1_def)
  then have "pit_ok (upd_channel i (\<lambda>c. c\<lparr>ch_slatched := x, ch_status := f c\<rparr>) pit1)" for x f
    by (intro pit_ok_upd) (simp_all add: pit_ok_def channel_ok_def)
  with ok1 assms(2) show ?thesis
    unfolding pit_readback1_def Let_def pit1_def [symmetric] by (auto split: if_splits bind_splits)
qed

lemma readback_ok:
  assumes "pit_ok pit" "pit_readback T now cmd pit = Some (error, pit')"
  shows "pit_ok pit'"
  using assms unfolding pit_readback_def
  by (auto split: if_splits bind_splits intro: readback1_ok dest: readback1_ok [rotated])

lemma update_mode_ok:
  assumes "pit_ok pit" "vatpit_update_mode T now val pit = Some (error, pit')"
  shows "pit_ok pit'"
proof -
  have "pit_ok (upd_channel i (\<lambda>c. snd (pit_update_counter T now pit c True)) pit)" for i
    using assms(1) update_counter_ok by (simp add: pit_ok_def)
  moreover have "pit_ok (upd_channel i (\<lambda>c. c\<lparr>ch_mode := m, ch_olbyte := 0, ch_status := f c\<rparr>) pit)" for i m f
    using assms(1) by (simp add: pit_ok_def channel_ok_def)
  ultimately show ?thesis
    using assms readback_ok [OF assms(1)] unfolding vatpit_update_mode_def Let_def
    by (auto split: if_splits)
qed

lemma counter_in_ok: "pit_ok pit \<Longrightarrow> pit_ok (snd (counter_in T now i pit))"
proof -
  assume ok: "pit_ok pit"
  define c where "c = snd (pit_update_counter T now pit (pit_channel pit i) False)"
  have "channel_ok c" using ok update_counter_ok by (simp add: pit_ok_def c_def)
  then have "channel_ok (c\<lparr>ch_frbyte := if b then 1 else 0\<rparr>)" for b by (simp add: channel_ok_def)
  then have "pit_ok (upd_channel i (\<lambda>_. c\<lparr>ch_frbyte := if b then 1 else 0\<rparr>) pit)" for b
    by (intro pit_ok_upd [OF ok])
  moreover have c: "channel_ok (pit_channel pit i)" using ok by (simp add: pit_ok_def)
  then have "pit_ok (upd_channel i (\<lambda>c. c\<lparr>ch_slatched := False, ch_status := 0\<rparr>) pit)"
    by (intro pit_ok_upd [OF ok]) (simp add: channel_ok_def)
  moreover have "pit_ok (upd_channel i (\<lambda>c. c\<lparr>ch_olbyte := ch_olbyte c - 1\<rparr>) pit)"
    using c by (intro pit_ok_upd [OF ok]) (auto simp: channel_ok_def)
  ultimately show ?thesis
    unfolding counter_in_def Let_def case_prod_beta c_def [symmetric] by simp
qed

lemma counter_out_ok: "pit_ok pit \<Longrightarrow> pit_ok (counter_out T now i val pit)"
proof -
  assume ok: "pit_ok pit"
  let ?w = "\<lambda>c. c\<lparr>ch_cr := (ch_cr c)(ch_crbyte c := val), ch_crbyte := ch_crbyte c + 1\<rparr>"
  have c: "channel_ok (pit_channel pit i)" using ok by (simp add: pit_ok_def)
  define pit1 where "pit1 = upd_channel i (\<lambda>c. c\<lparr>ch_status := ch_status c AND NOT TIMER_STS_NULLCNT,
    ch_frbyte := 0, ch_crbyte := 0, ch_initial := ucast (ch_cr c 0) OR push_bit 8 (ucast (ch_cr c 1)),
    ch_now_bt := now\<rparr>) (upd_channel i ?w pit)"
  have ok1: "pit_ok pit1" unfolding pit1_def upd_channel_upd
    using c by (intro pit_ok_upd [OF ok]) (simp add: channel_ok_def)
  define pit2 where "pit2 = (if i = 0 then pit_timer_start_cntr0 T now
      (upd_channel 0 (\<lambda>c. c\<lparr>ch_callout_bt := ch_now_bt c\<rparr>) pit1) else pit1)"
  have "pit_ok (upd_channel 0 (\<lambda>c. c\<lparr>ch_callout_bt := ch_now_bt c\<rparr>) pit1)"
    using ok1 by (intro pit_ok_upd [OF ok1]) (simp add: pit_ok_def channel_ok_def)
  then have ok2: "pit_ok pit2" using ok1 start_cntr0_ok by (simp add: pit2_def)
  then have ok3: "pit_ok (upd_channel i (\<lambda>c. c\<lparr>ch_initial := 0xffff\<rparr>) pit2)"
    by (intro pit_ok_upd [OF ok2]) (simp add: pit_ok_def channel_ok_def)
  have "pit_ok (upd_channel i ?w pit)" if "ch_crbyte (pit_channel (upd_channel i ?w pit) i) \<noteq> 2"
    using that c by (intro pit_ok_upd [OF ok]) (simp add: channel_ok_def)
  then show ?thesis using ok2 ok3
    unfolding counter_out_def Let_def pit1_def [symmetric] pit2_def [symmetric] by (simp split: if_splits)
qed

lemma reachable_ok: "vatpit_reachable T pit \<Longrightarrow> pit_ok pit"
proof (induction rule: vatpit_reachable.induct)
  case init
  then show ?case by (simp add: pit_ok_def vatpit_init_def channel_ok_def channel_zero_def)
next
  case (step pit pit')
  from step.hyps(2) show ?case
  proof cases
    case (port now in_port port bytes eax error eax')
    then show ?thesis
      using step.IH update_mode_ok [OF step.IH] counter_out_ok [OF step.IH]
        counter_in_ok [OF step.IH, of T now "port - TIMER_CNTR0"]
      by (auto simp: vatpit_handler_def case_prod_beta split: if_splits)
  next
    case (callout now i)
    have "pit_ok (upd_channel i (\<lambda>c. c\<lparr>ch_callout := (ch_callout c)\<lparr>co_pending := False\<rparr>\<rparr>) pit)"
      using step.IH by (simp add: pit_ok_def channel_ok_def)
    with callout show ?thesis by (simp add: callout_ok)
  qed
qed


section \<open>Properties\<close>

text \<open>Bounds: in every reachable state the byte counters of each channel index the two-byte
  arrays \<^verbatim>\<open>cr\<close> and \<^verbatim>\<open>ol\<close> inside their bounds, for the next write and
  for the next read of a latched count.\<close>

theorem vatpit_bounds:
  assumes "vatpit_reachable T pit"
  shows "ch_crbyte (pit_channel pit i) < 2 \<and> ch_olbyte (pit_channel pit i) \<le> 2 \<and>
    ch_frbyte (pit_channel pit i) \<le> 1"
  using reachable_ok [OF assms] by (simp add: pit_ok_def channel_ok_def)

theorem vatpit_bounds_witness:
  "ch_crbyte (pit_channel (counter_out fixed_point_time bintime_zero 2 0x12
     (vatpit_init fixed_point_time)) 2) < 2"
proof -
  let ?pit = "counter_out fixed_point_time bintime_zero 2 0x12 (vatpit_init fixed_point_time)"
  have "vatpit_step fixed_point_time (vatpit_init fixed_point_time) ?pit"
    by (rule vatpit_step.port [of _ bintime_zero False "0x42" 1 "0x12" _ 0 "0x12"])
      (simp add: vatpit_handler_def)
  then have "vatpit_reachable fixed_point_time ?pit"
    by (rule vatpit_reachable.step [OF vatpit_reachable.init])
  from vatpit_bounds [OF this, of 2] show ?thesis by blast
qed

text \<open>A channel whose output level cannot be computed.\<close>

definition sqwave_unloaded :: "channel \<Rightarrow> bool" where
  "sqwave_unloaded c \<longleftrightarrow> ch_mode c = TIMER_SQWAVE \<and> ch_initial c = 0"

definition readback_traps :: "u8 \<Rightarrow> channel \<Rightarrow> bool" where
  "readback_traps cmd c \<longleftrightarrow> cmd AND TIMER_RB_LSTATUS = 0 \<and> \<not> ch_slatched c \<and> sqwave_unloaded c \<and>
     \<not> (cmd AND TIMER_RB_LCTR = 0 \<and> ch_olbyte c = 0)"

lemma get_out_None: "vatpit_get_out T now pit i = None \<longleftrightarrow> sqwave_unloaded (pit_channel pit i)"
  by (auto simp: vatpit_get_out_def Let_def sqwave_unloaded_def)

lemma update_counter_loaded:
  "\<not> (latch \<and> ch_olbyte c \<noteq> 0) \<Longrightarrow> ch_initial (snd (pit_update_counter T now pit c latch)) \<noteq> 0"
  by (simp add: pit_update_counter_def Let_def TIMER_DIV_def)

lemma update_counter_slatched:
  "ch_slatched (snd (pit_update_counter T now pit c latch)) = ch_slatched c"
  by (simp add: pit_update_counter_def Let_def)

lemma readback1_None:
  "pit_readback1 T now i cmd pit = None \<longleftrightarrow> readback_traps cmd (pit_channel pit i)"
proof (cases "cmd AND TIMER_RB_LCTR = 0 \<and> ch_olbyte (pit_channel pit i) = 0")
  case True
  let ?c = "snd (pit_update_counter T now pit (pit_channel pit i) True)"
  have "\<not> sqwave_unloaded ?c"
    using True update_counter_loaded [of True] by (simp add: sqwave_unloaded_def)
  then obtain out where "vatpit_get_out T now
      (upd_channel i (\<lambda>c. snd (pit_update_counter T now pit c True)) pit) i = Some out"
    using get_out_None [of T now "upd_channel i (\<lambda>c. snd (pit_update_counter T now pit c True)) pit" i]
    by auto
  with True show ?thesis
    by (simp add: pit_readback1_def Let_def readback_traps_def)
next
  case False
  then show ?thesis
    by (auto simp: pit_readback1_def Let_def readback_traps_def get_out_None bind_eq_None_conv
        sqwave_unloaded_def)
qed

lemma readback1_other: "pit_readback1 T now i cmd pit = Some pit' \<Longrightarrow> j \<noteq> i \<Longrightarrow>
    pit_channel pit' j = pit_channel pit j"
  by (auto simp: pit_readback1_def Let_def split: if_splits bind_splits)

lemma readback_None:
  "pit_readback T now cmd pit = None \<longleftrightarrow>
     cmd AND TIMER_RB_CTR_0 \<noteq> 0 \<and> readback_traps cmd (pit_channel pit 0) \<or>
     cmd AND TIMER_RB_CTR_1 \<noteq> 0 \<and> readback_traps cmd (pit_channel pit 1) \<or>
     cmd AND TIMER_RB_CTR_2 \<noteq> 0 \<and> readback_traps cmd (pit_channel pit 2)"
proof -
  define rb where "rb b i p = (if b then pit_readback1 T now i cmd p else Some p)" for b i p
  have none: "rb b i p = None \<longleftrightarrow> b \<and> readback_traps cmd (pit_channel p i)" for b i p
    by (simp add: rb_def readback1_None)
  have other: "rb b i p = Some p' \<Longrightarrow> j \<noteq> i \<Longrightarrow> pit_channel p' j = pit_channel p j" for b i p p' j
    using readback1_other by (auto simp: rb_def split: if_splits)
  have e: "pit_readback T now cmd pit = do {
      p \<leftarrow> rb (cmd AND TIMER_RB_CTR_0 \<noteq> 0) 0 pit; p \<leftarrow> rb (cmd AND TIMER_RB_CTR_1 \<noteq> 0) 1 p;
      p \<leftarrow> rb (cmd AND TIMER_RB_CTR_2 \<noteq> 0) 2 p; Some (0, p)}"
    unfolding pit_readback_def rb_def ..
  show ?thesis
  proof (cases "rb (cmd AND TIMER_RB_CTR_0 \<noteq> 0) 0 pit")
    case None
    then show ?thesis unfolding e using none [of "cmd AND TIMER_RB_CTR_0 \<noteq> 0" 0 pit] by simp
  next
    case 1: (Some p1)
    have c1: "pit_channel p1 1 = pit_channel pit 1" "pit_channel p1 2 = pit_channel pit 2"
      using other [OF 1] by simp_all
    show ?thesis
    proof (cases "rb (cmd AND TIMER_RB_CTR_1 \<noteq> 0) 1 p1")
      case None
      then show ?thesis unfolding e using 1 c1 none [of "cmd AND TIMER_RB_CTR_1 \<noteq> 0" 1 p1] by simp
    next
      case 2: (Some p2)
      have c2: "pit_channel p2 2 = pit_channel pit 2" using other [OF 2] c1 by simp
      have n: "\<not> (cmd AND TIMER_RB_CTR_0 \<noteq> 0 \<and> readback_traps cmd (pit_channel pit 0))"
        "\<not> (cmd AND TIMER_RB_CTR_1 \<noteq> 0 \<and> readback_traps cmd (pit_channel pit 1))"
        using 1 2 c1 none [of "cmd AND TIMER_RB_CTR_0 \<noteq> 0" 0 pit]
          none [of "cmd AND TIMER_RB_CTR_1 \<noteq> 0" 1 p1] by simp_all
      show ?thesis unfolding e 1 2 bind.bind_lunit
        using n c2 none [of "cmd AND TIMER_RB_CTR_2 \<noteq> 0" 2 p2]
        by (cases "rb (cmd AND TIMER_RB_CTR_2 \<noteq> 0) 2 p2") auto
    qed
  qed
qed


text \<open>C28. Division by zero: the port handlers fail exactly when they compute the output level of a
  counter that was put in square-wave mode and has no count yet: a read of the NMI status port with
  counter 2 in this state, or a read-back command that latches the status of such a counter without
  latching its count. A guest reaches such a state with one control word.\<close>

theorem vatpit_only_trap:
  "(vatpit_nmisc_handler T now in_port eax pit = None \<longleftrightarrow> in_port \<and> sqwave_unloaded (pit_channel pit 2)) \<and>
   (vatpit_handler T now in_port port bytes eax pit = None \<longleftrightarrow>
      \<not> in_port \<and> bytes = 1 \<and> port = TIMER_MODE \<and> ucast eax AND TIMER_SEL_MASK = TIMER_SEL_READBACK \<and>
      (ucast eax AND TIMER_RB_CTR_0 \<noteq> 0 \<and> readback_traps (ucast eax) (pit_channel pit 0) \<or>
       ucast eax AND TIMER_RB_CTR_1 \<noteq> 0 \<and> readback_traps (ucast eax) (pit_channel pit 1) \<or>
       ucast eax AND TIMER_RB_CTR_2 \<noteq> 0 \<and> readback_traps (ucast eax) (pit_channel pit 2))) \<and>
   (\<exists>pit. vatpit_reachable T pit \<and> sqwave_unloaded (pit_channel pit 2))"
proof -
  have "vatpit_update_mode T now val pit = None \<longleftrightarrow> val AND TIMER_SEL_MASK = TIMER_SEL_READBACK \<and>
      pit_readback T now val pit = None" for val
    by (simp add: vatpit_update_mode_def Let_def)
  then have h: "vatpit_handler T now in_port port bytes eax pit = None \<longleftrightarrow> \<not> in_port \<and> bytes = 1 \<and>
      port = TIMER_MODE \<and> ucast eax AND TIMER_SEL_MASK = TIMER_SEL_READBACK \<and>
      pit_readback T now (ucast eax) pit = None"
    by (auto simp: vatpit_handler_def case_prod_beta)
  let ?pit = "upd_channel 2 (\<lambda>c. c\<lparr>ch_mode := TIMER_SQWAVE, ch_olbyte := 0,
    ch_status := ch_status c OR TIMER_STS_NULLCNT\<rparr>) (vatpit_init T)"
  have "vatpit_step T (vatpit_init T) ?pit"
    by (rule vatpit_step.port [of _ bintime_zero False TIMER_MODE 1 "0xb6" _ 0 "0xb6"])
      (simp add: vatpit_handler_def vatpit_update_mode_def)
  then have "vatpit_reachable T ?pit" by (rule vatpit_reachable.step [OF vatpit_reachable.init])
  moreover have "sqwave_unloaded (pit_channel ?pit 2)"
    by (simp add: sqwave_unloaded_def vatpit_init_def channel_zero_def)
  moreover have "vatpit_nmisc_handler T now in_port eax pit = None \<longleftrightarrow>
      in_port \<and> sqwave_unloaded (pit_channel pit 2)"
    by (simp add: vatpit_nmisc_handler_def get_out_None)
  ultimately show ?thesis unfolding h readback_None by blast
qed

text \<open>Loading a count: two writes to a counter port with no byte pending load the 16-bit count,
  with 0 standing for 0xffff, clear the null-count status and restart the counter at the time of the
  second write; on counter 0 they arm the interval timer, except that a count of 0 leaves the callout
  as it was.\<close>

theorem vatpit_load_count:
  assumes "ch_crbyte (pit_channel pit i) = 0"
  shows "let pit' = counter_out T t2 i hi (counter_out T t1 i lo pit); c' = pit_channel pit' i;
      n = ucast lo OR push_bit 8 (ucast hi) :: u16
    in ch_initial c' = (if n = 0 then 0xffff else n) \<and> ch_crbyte c' = 0 \<and> \<not> bit (ch_status c') 6 \<and>
       ch_now_bt c' = t2 \<and> ch_mode c' = ch_mode (pit_channel pit i) \<and>
       co_active (ch_callout c') = (co_active (ch_callout (pit_channel pit i)) \<or> i = 0 \<and> n \<noteq> 0)"
proof -
  have "NOT TIMER_STS_NULLCNT = NOT (push_bit 6 1)" by simp
  then have nc: "\<not> bit (st AND NOT TIMER_STS_NULLCNT) 6" for st :: u8
    by (simp only: bit_and_iff) (simp add: bit_not_iff_eq)
  have 1: "counter_out T t1 i lo pit =
      upd_channel i (\<lambda>c. c\<lparr>ch_cr := (ch_cr c)(0 := lo), ch_crbyte := 1\<rparr>) pit"
    using assms by (simp add: counter_out_def Let_def upd_channel_def)
  show ?thesis unfolding 1 Let_def
    using nc
    by (simp add: counter_out_def Let_def pit_timer_start_cntr0_def callout_reset_sbt_def)
qed

theorem vatpit_load_count_witness:
  "ch_initial (pit_channel (counter_out fixed_point_time bintime_zero 0 0x2e
     (counter_out fixed_point_time bintime_zero 0 0x9c (vatpit_init fixed_point_time))) 0) = 0x2e9c \<and>
   \<not> co_active (ch_callout (pit_channel (counter_out fixed_point_time bintime_zero 0 0
     (counter_out fixed_point_time bintime_zero 0 0 (vatpit_init fixed_point_time))) 0))"
proof -
  have "ch_crbyte (pit_channel (vatpit_init fixed_point_time) 0) = 0"
    by (simp add: vatpit_init_def channel_zero_def)
  from vatpit_load_count [OF this, of fixed_point_time bintime_zero "0x2e" bintime_zero "0x9c"]
    vatpit_load_count [OF this, of fixed_point_time bintime_zero 0 bintime_zero 0]
  show ?thesis
    by (simp add: Let_def) (simp add: vatpit_init_def channel_zero_def callout_init_def)
qed

lemma split_bytes:
  fixes w :: u16
  shows "ucast (ucast w :: u8) OR push_bit 8 (ucast (ucast (drop_bit 8 w) :: u8)) = (ucast w :: u32)"
    and "ucast (ucast w :: u8) = (ucast w AND 0xff :: u32)"
proof -
  have len: "bit w n \<Longrightarrow> n < 16" for n using bit_imp_le_length [of w n] by simp
  show "ucast (ucast w :: u8) OR push_bit 8 (ucast (ucast (drop_bit 8 w) :: u8)) = (ucast w :: u32)"
    by (rule bit_word_eqI) (use len in \<open>force simp: bit_simps\<close>)
  have m: "(0xff :: u32) = mask 8" by (simp add: mask_eq_exp_minus_1)
  show "ucast (ucast w :: u8) = (ucast w AND 0xff :: u32)"
    unfolding m by (rule bit_word_eqI) (auto simp: bit_simps)
qed

lemma latch_channel:
  assumes "ch_olbyte c = 0"
  shows "ch_olbyte (snd (pit_update_counter T t pit c True)) = 2"
    "ch_ol (snd (pit_update_counter T t pit c True)) 1 = ucast (fst (pit_update_counter T t pit c True))"
    "ch_ol (snd (pit_update_counter T t pit c True)) 0 =
       ucast (drop_bit 8 (fst (pit_update_counter T t pit c True)))"
  using assms by (simp_all add: pit_update_counter_def Let_def)

text \<open>Latched reads: a latch command with an empty latch freezes the current count, and the next
  two reads of the counter port return its low and then its high byte whatever the time of the reads;
  after them the latch is empty again.\<close>

theorem vatpit_latch_read:
  assumes "i < 3" "ch_olbyte (pit_channel pit i) = 0" "\<not> ch_slatched (pit_channel pit i)"
  shows "\<exists>pit1. vatpit_update_mode T t0 (push_bit 6 (of_nat i)) pit = Some (0, pit1) \<and>
    (let count = fst (pit_update_counter T t0 pit (pit_channel pit i) True);
         (lsb, pit2) = counter_in T t1 i pit1; (msb, pit3) = counter_in T t2 i pit2
     in lsb OR push_bit 8 msb = ucast count \<and> lsb = ucast count AND 0xff \<and>
        ch_olbyte (pit_channel pit3 i) = 0)"
proof -
  define c1 where "c1 = snd (pit_update_counter T t0 pit (pit_channel pit i) True)"
  define pit1 where "pit1 = upd_channel i (\<lambda>c. snd (pit_update_counter T t0 pit c True)) pit"
  have "i = 0 \<or> i = 1 \<or> i = 2" using assms(1) by auto
  then have "vatpit_update_mode T t0 (push_bit 6 (of_nat i)) pit = Some (0, pit1)"
    by (auto simp: vatpit_update_mode_def pit1_def)
  moreover have c1: "pit_channel pit1 i = c1" by (simp add: pit1_def c1_def)
  moreover have l: "ch_olbyte c1 = 2" "\<not> ch_slatched c1"
    using latch_channel(1) [OF assms(2)] assms(3) by (simp_all add: c1_def update_counter_slatched)
  moreover have "counter_in T t1 i pit1 =
      (ucast (ch_ol c1 1), upd_channel i (\<lambda>c. c\<lparr>ch_olbyte := ch_olbyte c - 1\<rparr>) pit1)"
    using c1 l by (simp add: counter_in_def)
  moreover have "counter_in T t2 i (upd_channel i (\<lambda>c. c\<lparr>ch_olbyte := ch_olbyte c - 1\<rparr>) pit1) =
      (ucast (ch_ol c1 0), upd_channel i (\<lambda>c. c\<lparr>ch_olbyte := ch_olbyte c - 1\<rparr>)
         (upd_channel i (\<lambda>c. c\<lparr>ch_olbyte := ch_olbyte c - 1\<rparr>) pit1))"
    using c1 l by (simp add: counter_in_def)
  ultimately show ?thesis
    using latch_channel(2,3) [OF assms(2), of T t0 pit] split_bytes
    by (simp add: c1_def [symmetric])
qed

theorem vatpit_latch_read_witness:
  "\<exists>pit1. vatpit_update_mode fixed_point_time bintime_zero 0x80 (vatpit_init fixed_point_time) = Some (0, pit1)"
proof -
  have a: "(2 :: nat) < 3" "ch_olbyte (pit_channel (vatpit_init fixed_point_time) 2) = 0"
    "\<not> ch_slatched (pit_channel (vatpit_init fixed_point_time) 2)"
    by (simp_all add: vatpit_init_def channel_zero_def)
  show ?thesis using vatpit_latch_read [OF a, of fixed_point_time bintime_zero] by auto
qed

text \<open>Count range: the count a read or latch computes lies between 1 and the initial count, and in
  square-wave mode it is the even number at most one below such a value.\<close>

theorem vatpit_count_range:
  assumes "\<not> (latch \<and> ch_olbyte c \<noteq> 0)"
  shows "let (n, c') = pit_update_counter T now pit c latch
    in n \<le> ch_initial c' \<and> (if ch_mode c = TIMER_SQWAVE then \<not> bit n 0 else 1 \<le> n) \<and>
       ch_initial c' = (if ch_initial c = 0 then 11932 else ch_initial c)"
proof -
  define k where "k = (if ch_initial c = 0 then 11932 else ch_initial c)"
  have k0: "k \<noteq> 0" by (simp add: k_def)
  have sub: "k - ucast (d mod ucast k) \<le> k" "1 \<le> k - ucast (d mod ucast k)" for d :: u64
  proof -
    have uk: "unat (ucast k :: u64) = unat k"
      by (simp add: unsigned_ucast_eq take_bit_nat_eq_self unat_less_pow order_less_trans [OF unat_less_pow])
    have "unat (d mod ucast k) < unat k"
      using k0 by (simp add: unat_mod_distrib uk unat_gt_0)
    then have lt: "unat (ucast (d mod ucast k) :: u16) < unat k"
      by (simp add: unsigned_ucast_eq order.strict_trans1 [OF take_bit_nat_less_eq_self])
    then have le: "ucast (d mod ucast k) \<le> k" by (simp add: word_le_nat_alt)
    then have "unat (k - ucast (d mod ucast k)) = unat k - unat (ucast (d mod ucast k) :: u16)"
      by (rule unat_sub)
    with lt show "k - ucast (d mod ucast k) \<le> k" "1 \<le> k - ucast (d mod ucast k)"
      by (simp_all add: word_le_nat_alt)
  qed
  have even: "n AND NOT 1 \<le> n" "\<not> bit (n AND NOT 1) 0" for n :: u16
    by (rule word_and_le2) (simp add: bit_and_iff bit_not_iff)
  have td: "of_nat (TIMER_DIV PIT_8254_FREQ 100) = (11932 :: u16)" by (simp add: TIMER_DIV_def)
  define c0 where "c0 = (if ch_initial c = 0
    then c\<lparr>ch_initial := of_nat (TIMER_DIV PIT_8254_FREQ 100), ch_now_bt := now,
           ch_status := ch_status c AND NOT TIMER_STS_NULLCNT\<rparr> else c)"
  define d where "d = vatpit_delta_ticks T now pit c0"
  define n where "n = (if ch_mode c = TIMER_SQWAVE then (k - ucast ((d * 2) mod ucast k)) AND NOT 1
    else k - ucast (d mod ucast k))"
  have c0: "ch_initial c0 = k" "ch_mode c0 = ch_mode c" by (simp_all add: c0_def k_def td)
  have r: "pit_update_counter T now pit c latch = (n, if latch then c0\<lparr>ch_olbyte := 2,
      ch_ol := (ch_ol c0)(1 := ucast n, 0 := ucast (drop_bit 8 n))\<rparr> else c0)"
    using assms unfolding pit_update_counter_def Let_def c0_def [symmetric] c0 d_def [symmetric]
      n_def [symmetric] by auto
  have "n \<le> k" unfolding n_def using sub(1) order_trans [OF even(1) sub(1)] by simp
  moreover have "if ch_mode c = TIMER_SQWAVE then \<not> bit n 0 else 1 \<le> n"
    unfolding n_def using even(2) sub(2) by (simp only: if_True if_False split: if_split) simp
  ultimately show ?thesis unfolding r k_def [symmetric] using c0 by simp
qed

theorem vatpit_count_range_witness:
  "fst (pit_update_counter fixed_point_time bintime_zero (vatpit_init fixed_point_time) channel_zero False)
     \<le> 11932"
proof -
  have "\<not> (False \<and> ch_olbyte channel_zero \<noteq> 0)" by simp
  from vatpit_count_range [OF this, of fixed_point_time bintime_zero "vatpit_init fixed_point_time"]
  moreover have "ch_initial channel_zero = 0" by (simp add: channel_zero_def)
  ultimately show ?thesis unfolding case_prod_beta Let_def by (metis (no_types))
qed

text \<open>The interval timer: when the callout of counter 0 fires (active and no longer pending), one
  pulse goes to pin 0 of the 8259 pair and then one to pin 2 of the I/O APIC; in the periodic modes with
  a count the timer is armed again one period after the last target, or one period from now when that
  target is already past, and in the one-shot modes it stays off.\<close>

theorem vatpit_timer_fires:
  assumes "co_active (ch_callout (pit_channel pit 0))" "\<not> co_pending (ch_callout (pit_channel pit 0))"
  shows "let c = pit_channel pit 0; pit' = vatpit_callout_handler T now 0 pit; c' = pit_channel pit' 0;
      periodic = ((ch_mode c = TIMER_RATEGEN \<or> ch_mode c = TIMER_SQWAVE) \<and> ch_initial c \<noteq> 0);
      period = \<lparr>bt_sec = 0, bt_frac = bt_frac (pit_freq_bt pit) * ucast (ch_initial c)\<rparr>;
      target = bintime_add T (ch_callout_bt c) period
    in pit_pulses pit' = pit_pulses pit @ [Vatpic_pulse_irq 0, Vioapic_pulse_irq 2] \<and>
       co_active (ch_callout c') = periodic \<and>
       ch_callout_bt c' = (if periodic then if bintime_lt T target now then bintime_add T now period
                           else target else ch_callout_bt c) \<and>
       (\<forall>j. j \<noteq> 0 \<longrightarrow> pit_channel pit' j = pit_channel pit j)"
  using assms
  by (simp add: vatpit_callout_handler_def pit_timer_start_cntr0_def Let_def callout_deactivate_def
      callout_reset_sbt_def)

theorem vatpit_timer_fires_witness:
  "pit_pulses (vatpit_callout_handler fixed_point_time bintime_zero 0
     (upd_channel 0 (\<lambda>c. c\<lparr>ch_callout := \<lparr>co_active = True, co_pending = False, co_sbt = 0\<rparr>\<rparr>)
       (vatpit_init fixed_point_time))) = [Vatpic_pulse_irq 0, Vioapic_pulse_irq 2]"
proof -
  let ?pit = "upd_channel 0 (\<lambda>c. c\<lparr>ch_callout := \<lparr>co_active = True, co_pending = False, co_sbt = 0\<rparr>\<rparr>)
    (vatpit_init fixed_point_time)"
  have "co_active (ch_callout (pit_channel ?pit 0))" "\<not> co_pending (ch_callout (pit_channel ?pit 0))"
    by simp_all
  from vatpit_timer_fires [OF this, of fixed_point_time bintime_zero] show ?thesis
    by (simp add: Let_def) (simp add: vatpit_init_def)
qed

end
