(* ===== verification/Memdisk.thy ===== *)
theory Memdisk
  imports Prelude "HOL-Library.Sublist"
begin

text \<open>
  The memory-backed disks of \<^verbatim>\<open>bhyve/memdisk.c\<close>: creation from an image, geometry and
  block transfers. The table of disks is the list of those created so far. A failed
  \<^verbatim>\<open>assert\<close> and an access outside an array or buffer are values of \<open>fault\<close>. The
  image file is a parameter of creation: the bytes it has, or where the system calls on it fail.
\<close>

section \<open>Disks\<close>

datatype fault = Assertion_failed | Out_of_bounds

record mdisk =
  md_fname :: string
  md_buf :: "u8 list"
  md_sectsize :: nat

type_synonym mdisks = "mdisk list"

abbreviation (input) MAX_MDISKS :: nat where "MAX_MDISKS \<equiv> 8"

definition md_bufsize :: "mdisk \<Rightarrow> nat" where
  "md_bufsize md = length (md_buf md)"

definition md_num_disks :: "mdisks \<Rightarrow> nat" where
  "md_num_disks mds = length mds"

datatype image_file = Open_failed | Read_failed | Image "u8 list"

definition md_create :: "mdisks \<Rightarrow> string \<Rightarrow> image_file \<Rightarrow> fault + (int \<times> mdisks)" where
  "md_create mds src_img file =
     (if file = Open_failed then Inr (-1, mds)
      else if length mds \<ge> MAX_MDISKS then Inl Out_of_bounds
      else case file of
             Image bytes \<Rightarrow>
               Inr (int (length mds), mds @ [\<lparr>md_fname = src_img, md_buf = bytes,
                 md_sectsize = (if sublist ''.iso'' src_img then 2048 else 512)\<rparr>])
           | _ \<Rightarrow> Inr (-1, mds))"

section \<open>Geometry\<close>

text \<open>Cylinders, heads and sectors per track, with the 16-bit truncation of \<open>*c\<close>.\<close>

definition disk_chs :: "nat \<Rightarrow> nat \<Rightarrow> u16 \<times> u8 \<times> u8" where
  "disk_chs bufsize sectsize =
     (let sects = bufsize div sectsize
      in if bufsize \<le> 2880 * 512
         then (of_nat (sects div 18 div 2), 2, 18)
         else let sects = (if sects > 65535 * 16 * 255 then 65535 * 16 * 255 else sects)
              in if sects \<ge> 65536 * 16 * 63
                 then (of_nat (sects div 63 div 32), 32, 63)
                 else (of_nat (sects div 63 div 16), 16, 63))"

definition md_chs :: "mdisks \<Rightarrow> nat \<Rightarrow> fault + (u16 \<times> u8 \<times> u8)" where
  "md_chs mds mdunit =
     (if mdunit < length mds
      then Inr (disk_chs (md_bufsize (mds ! mdunit)) (md_sectsize (mds ! mdunit)))
      else Inl Assertion_failed)"

definition md_sectsz :: "mdisks \<Rightarrow> nat \<Rightarrow> fault + nat" where
  "md_sectsz mds mdunit =
     (if mdunit < length mds then Inr (md_sectsize (mds ! mdunit)) else Inl Assertion_failed)"

definition md_sectors :: "mdisks \<Rightarrow> nat \<Rightarrow> fault + nat" where
  "md_sectors mds mdunit =
     (if mdunit < length mds then Inr (md_bufsize (mds ! mdunit) div md_sectsize (mds ! mdunit))
      else Inl Assertion_failed)"

definition md_lba_to_offset :: "mdisks \<Rightarrow> nat \<Rightarrow> u64 \<Rightarrow> fault + u64" where
  "md_lba_to_offset mds mdunit lba =
     (if mdunit < length mds then Inr (of_nat (md_sectsize (mds ! mdunit)) * lba)
      else Inl Assertion_failed)"

section \<open>Transfers\<close>

text \<open>\<^verbatim>\<open>md_rw\<close> up to the \<^verbatim>\<open>memcpy\<close>: \<open>Some\<close> offset when the copy is
  made, \<open>None\<close> when it returns \<open>-1\<close>. The bound test adds two 64-bit numbers.\<close>

definition md_rw_check :: "mdisks \<Rightarrow> nat \<Rightarrow> u64 \<Rightarrow> u64 \<Rightarrow> fault + nat option" where
  "md_rw_check mds mdunit offset len =
     (if \<not> mdunit < length mds then Inl Assertion_failed
      else if len = 0 then Inl Assertion_failed
      else let md = mds ! mdunit
           in if unat len mod md_sectsize md \<noteq> 0 then Inl Assertion_failed
              else if offset + len > of_nat (md_bufsize md) then Inr None
              else if unat offset + unat len > md_bufsize md then Inl Out_of_bounds
              else Inr (Some (unat offset)))"

definition md_write :: "mdisks \<Rightarrow> nat \<Rightarrow> u64 \<Rightarrow> u8 list \<Rightarrow> fault + (int \<times> mdisks)" where
  "md_write mds mdunit offset buf =
     (case md_rw_check mds mdunit offset (of_nat (length buf)) of
        Inl f \<Rightarrow> Inl f
      | Inr None \<Rightarrow> Inr (-1, mds)
      | Inr (Some off) \<Rightarrow>
          let md = mds ! mdunit
          in Inr (0, mds[mdunit := md\<lparr>md_buf := take off (md_buf md) @ buf @
                                        drop (off + length buf) (md_buf md)\<rparr>]))"

text \<open>A read returns the bytes copied to \<open>buf\<close>.\<close>

definition md_read :: "mdisks \<Rightarrow> nat \<Rightarrow> u64 \<Rightarrow> u64 \<Rightarrow> fault + (int \<times> u8 list)" where
  "md_read mds mdunit offset len =
     (case md_rw_check mds mdunit offset len of
        Inl f \<Rightarrow> Inl f
      | Inr None \<Rightarrow> Inr (-1, [])
      | Inr (Some off) \<Rightarrow> Inr (0, take (unat len) (drop off (md_buf (mds ! mdunit)))))"

section \<open>Properties\<close>

text \<open>The disks a host can hold: fewer than 2 to the 63 bytes each (a signed size) and a sector size
  of 512 or 2048.\<close>

definition mdisks_ok :: "mdisks \<Rightarrow> bool" where
  "mdisks_ok mds \<longleftrightarrow> length mds \<le> MAX_MDISKS \<and>
     (\<forall>md \<in> set mds. md_bufsize md < 2 ^ 63 \<and> md_sectsize md \<in> {512, 2048})"

lemma unat_of_nat_u64: "n < 2 ^ 64 \<Longrightarrow> unat (of_nat n :: u64) = n"
  by (simp add: unsigned_of_nat take_bit_nat_eq_self)

lemma bufsize_word:
  assumes "mdisks_ok mds" "i < length mds"
  shows "unat (of_nat (md_bufsize (mds ! i)) :: u64) = md_bufsize (mds ! i)"
proof -
  have "md_bufsize (mds ! i) < 2 ^ 63" using assms by (simp add: mdisks_ok_def)
  then show ?thesis by (intro unat_of_nat_u64) simp
qed

lemma rw_check_Some:
  assumes "md_rw_check mds i offset len = Inr (Some off)"
  shows "i < length mds" "off = unat offset" "unat offset + unat len \<le> md_bufsize (mds ! i)" "len \<noteq> 0"
    "unat len mod md_sectsize (mds ! i) = 0"
  using assms by (auto simp: md_rw_check_def Let_def split: if_splits)

lemma rw_check_cong:
  "length mds' = length mds \<Longrightarrow> md_bufsize (mds' ! i) = md_bufsize (mds ! i) \<Longrightarrow>
     md_sectsize (mds' ! i) = md_sectsize (mds ! i) \<Longrightarrow>
     md_rw_check mds' i offset len = md_rw_check mds i offset len"
  by (simp add: md_rw_check_def Let_def)

text \<open>One disk of four sectors.\<close>

definition md_demo :: mdisks where
  "md_demo = [\<lparr>md_fname = ''fd.img'', md_buf = replicate 2048 0, md_sectsize = 512\<rparr>]"

lemma md_demo_ok: "mdisks_ok md_demo"
  by (simp add: mdisks_ok_def md_demo_def md_bufsize_def)

text \<open>The disk table has eight entries and creation does not look: with all of them in use the next
  image is stored beside the table; before that, creation keeps the table legal.\<close>

lemma md_create_full: "length mds = MAX_MDISKS \<Longrightarrow> md_create mds f (Image bytes) = Inl Out_of_bounds"
  by (simp add: md_create_def)

lemma md_create_ok:
  assumes "mdisks_ok mds" "length mds < MAX_MDISKS" "length bytes < 2 ^ 63"
  obtains mds' where "md_create mds f (Image bytes) = Inr (int (length mds), mds')" "mdisks_ok mds'"
    "md_buf (mds' ! length mds) = bytes"
  using assms by (auto simp: md_create_def mdisks_ok_def md_bufsize_def nth_append)

text \<open>Write then read: a write that succeeds on a disk is read back unchanged from the same place,
  changes no byte outside the range and no other disk, and keeps the sizes.\<close>

theorem md_write_read:
  assumes "mdisks_ok mds" "length buf < 2 ^ 64" "md_write mds i offset buf = Inr (0, mds')"
  shows "md_read mds' i offset (of_nat (length buf)) = Inr (0, buf) \<and> mdisks_ok mds' \<and>
    (\<forall>k < md_bufsize (mds ! i). k < unat offset \<or> unat offset + length buf \<le> k \<longrightarrow>
       md_buf (mds' ! i) ! k = md_buf (mds ! i) ! k) \<and>
    (\<forall>j. j \<noteq> i \<longrightarrow> mds' ! j = mds ! j) \<and> md_bufsize (mds' ! i) = md_bufsize (mds ! i)"
proof -
  have len: "unat (of_nat (length buf) :: u64) = length buf" by (rule unat_of_nat_u64 [OF assms(2)])
  from assms(3) obtain off where c: "md_rw_check mds i offset (of_nat (length buf)) = Inr (Some off)"
    and mds': "mds' = mds[i := (mds ! i)\<lparr>md_buf := take off (md_buf (mds ! i)) @ buf @
        drop (off + length buf) (md_buf (mds ! i))\<rparr>]"
    by (auto simp: md_write_def Let_def split: sum.splits option.splits)
  note r = rw_check_Some [OF c, unfolded len]
  have size: "md_bufsize (mds' ! i) = md_bufsize (mds ! i)"
    using r by (simp add: mds' md_bufsize_def)
  have "md_rw_check mds' i offset (of_nat (length buf)) = Inr (Some off)"
    unfolding c [symmetric] by (rule rw_check_cong [OF _ size]) (use r(1) in \<open>simp_all add: mds'\<close>)
  moreover have "take (length buf) (drop off (md_buf (mds' ! i))) = buf"
    using r by (simp add: mds' md_bufsize_def)
  moreover have "mdisks_ok mds'"
    using assms(1) size r(1) unfolding mdisks_ok_def mds'
    by (auto simp: in_set_conv_nth nth_list_update split: if_splits) (metis nth_mem)+
  moreover have "md_buf (mds' ! i) ! k = md_buf (mds ! i) ! k"
    if "k < md_bufsize (mds ! i)" "k < unat offset \<or> unat offset + length buf \<le> k" for k
    using that r by (auto simp: mds' md_bufsize_def nth_append min_def)
  ultimately show ?thesis using size by (simp add: md_read_def len mds')
qed

theorem md_write_read_witness:
  "\<exists>mds'. md_write md_demo 0 512 (replicate 512 0xaa) = Inr (0, mds') \<and>
     md_read mds' 0 512 512 = Inr (0, replicate 512 0xaa)"
proof -
  have "md_rw_check md_demo 0 512 512 = Inr (Some 512)"
    by (simp add: md_rw_check_def md_demo_def md_bufsize_def)
  then obtain mds' where w: "md_write md_demo 0 512 (replicate 512 0xaa) = Inr (0, mds')"
    by (simp add: md_write_def Let_def)
  from md_write_read [OF md_demo_ok _ w] show ?thesis using w by simp
qed

text \<open>Bounds: on a legal request a transfer leaves the disk buffer exactly when the 64-bit sum of
  offset and length wraps around to a value within the disk; whenever the sum does not wrap, the
  request is either refused with \<open>-1\<close> or made inside the buffer.\<close>

theorem md_rw_bounds:
  assumes "mdisks_ok mds" "i < length mds" "len \<noteq> 0" "unat len mod md_sectsize (mds ! i) = 0"
  shows "md_rw_check mds i offset len =
    (if unat offset + unat len \<le> md_bufsize (mds ! i) then Inr (Some (unat offset))
     else if 2 ^ 64 \<le> unat offset + unat len \<and> unat offset + unat len - 2 ^ 64 \<le> md_bufsize (mds ! i)
     then Inl Out_of_bounds else Inr None)"
proof -
  have sum: "unat (offset + len) = (if unat offset + unat len < 2 ^ 64 then unat offset + unat len
      else unat offset + unat len - 2 ^ 64)"
    using unat_less_pow [of offset] unat_less_pow [of len]
    by (simp add: unat_word_ariths take_bit_eq_mod mod_if)
  have size: "md_bufsize (mds ! i) < 2 ^ 63" using assms(1,2) by (simp add: mdisks_ok_def)
  have gt: "offset + len > of_nat (md_bufsize (mds ! i)) \<longleftrightarrow> unat (offset + len) > md_bufsize (mds ! i)"
    by (simp add: word_less_nat_alt bufsize_word [OF assms(1,2)])
  show ?thesis unfolding md_rw_check_def Let_def gt sum using assms(2-4) size by auto
qed

theorem md_rw_bounds_witness:
  "md_rw_check md_demo 0 0xfffffffffffffe00 1024 = Inl Out_of_bounds \<and> md_rw_check md_demo 0 1536 1024 = Inr None"
proof -
  have l: "0 < length md_demo" "(1024 :: u64) \<noteq> 0" "unat (1024 :: u64) mod md_sectsize (md_demo ! 0) = 0"
    by (simp_all add: md_demo_def)
  show ?thesis
    using md_rw_bounds [OF md_demo_ok l, of "0xfffffffffffffe00"] md_rw_bounds [OF md_demo_ok l, of 1536]
    by (simp add: md_demo_def md_bufsize_def)
qed

text \<open>Geometry: the cylinders, heads and sectors per track reported for a disk cover as many of its
  sectors as whole cylinders allow and never more than it has, as long as it has fewer than 65536
  cylinders of 32 heads and 63 sectors; from that size on the 16-bit cylinder count wraps, and a disk of
  exactly that size reports none.\<close>

theorem disk_chs_geometry:
  assumes "bufsize div sectsize < 65536 * 32 * 63" "sectsize \<in> {512, 2048}"
  shows "let (c, h, s) = disk_chs bufsize sectsize; n = bufsize div sectsize
    in unat c * unat h * unat s \<le> n \<and> n < (unat c + 1) * unat h * unat s \<and>
       fst (disk_chs (512 * (65536 * 32 * 63)) 512) = 0"
proof -
  have fit: "unat (of_nat k :: u16) = k" if "k < 65536" for k
    using that by (simp add: unsigned_of_nat take_bit_nat_eq_self)
  have cover: "n div b div a * a * b \<le> n \<and> n < (n div b div a + 1) * a * b"
    if "0 < a" "0 < b" for n a b :: nat
  proof -
    let ?q = "n div (b * a)"
    have "?q * (b * a) \<le> n" by (rule div_times_less_eq_dividend)
    moreover have "n < b * a + ?q * (b * a)" using that by (intro dividend_less_div_times) simp
    ultimately show ?thesis unfolding div_mult2_eq [symmetric]
      by (metis add.commute add_mult_distrib mult.assoc mult.commute mult_1)
  qed
  let ?n = "bufsize div sectsize"
  have wrap: "fst (disk_chs (512 * (65536 * 32 * 63)) 512) = 0" by (simp add: disk_chs_def)
  consider "bufsize \<le> 2880 * 512" | "\<not> bufsize \<le> 2880 * 512" "65536 * 16 * 63 \<le> ?n"
    | "\<not> bufsize \<le> 2880 * 512" "?n < 65536 * 16 * 63" by linarith
  then show ?thesis
  proof cases
    case 1
    have "?n \<le> 2880 * 512" using 1 div_le_dividend [of bufsize sectsize] by linarith
    then have "?n div 18 \<le> (2880 * 512) div 18" by (rule div_le_mono)
    then have "?n div 18 div 2 \<le> (2880 * 512) div 18 div 2" by (rule div_le_mono)
    then have "?n div 18 div 2 < 65536" by simp
    from fit [OF this] 1 cover [of 2 18 ?n] wrap show ?thesis by (simp add: disk_chs_def Let_def)
  next
    case 2
    have "?n div 63 div 32 < 65536"
      using assms(1) by (rule less_mult_imp_div_less [OF less_mult_imp_div_less])
    from fit [OF this] 2 cover [of 32 63 ?n] wrap assms(1) show ?thesis by (simp add: disk_chs_def Let_def)
  next
    case 3
    have "?n div 63 div 16 < 65536"
      using 3(2) by (rule less_mult_imp_div_less [OF less_mult_imp_div_less])
    from fit [OF this] 3 cover [of 16 63 ?n] wrap show ?thesis by (simp add: disk_chs_def Let_def)
  qed
qed

theorem disk_chs_geometry_witness:
  "disk_chs (1440 * 1024) 512 = (80, 2, 18) \<and>
   unat (80 :: u16) * unat (2 :: u8) * unat (18 :: u8) \<le> 1440 * 1024 div (512 :: nat)"
proof -
  have d: "(1440 * 1024) div 512 < (65536 * 32 * 63 :: nat)" "(512 :: nat) \<in> {512, 2048}" by simp_all
  have g: "disk_chs (1440 * 1024) 512 = (80, 2, 18)" by (simp add: disk_chs_def)
  from disk_chs_geometry [OF d] show ?thesis unfolding g by simp
qed

end
