(* ===== verification/Guest_Mem.thy ===== *)
theory Guest_Mem
  imports Prelude
begin

text \<open>
  Guest memory as the device models of user space see it: a byte per guest physical address, and
  little-endian fields of C structures at fixed offsets. \<open>peek\<close> and \<open>poke\<close> move whole buffers;
  \<open>mrd\<close> and \<open>mwr\<close> read and write one field of \<open>n\<close> bytes.
\<close>

section \<open>Bytes and fields\<close>

type_synonym gmem = "nat \<Rightarrow> u8"

definition peek :: "gmem \<Rightarrow> nat \<Rightarrow> nat \<Rightarrow> u8 list" where
  "peek m a n = map m [a..<a + n]"

definition poke :: "gmem \<Rightarrow> nat \<Rightarrow> u8 list \<Rightarrow> gmem" where
  "poke m a bs = (\<lambda>x. if a \<le> x \<and> x < a + length bs then bs ! (x - a) else m x)"

primrec le_bytes :: "nat \<Rightarrow> nat \<Rightarrow> u8 list" where
  "le_bytes 0 v = []"
| "le_bytes (Suc n) v = of_nat v # le_bytes n (v div 256)"

primrec le_val :: "u8 list \<Rightarrow> nat" where
  "le_val [] = 0"
| "le_val (b # bs) = unat b + 256 * le_val bs"

definition mrd :: "nat \<Rightarrow> gmem \<Rightarrow> nat \<Rightarrow> nat" where
  "mrd n m a = le_val (peek m a n)"

definition mwr :: "nat \<Rightarrow> gmem \<Rightarrow> nat \<Rightarrow> nat \<Rightarrow> gmem" where
  "mwr n m a v = poke m a (le_bytes n v)"

section \<open>Laws\<close>

lemma length_peek [simp]: "length (peek m a n) = n"
  by (simp add: peek_def)

lemma nth_peek [simp]: "i < n \<Longrightarrow> peek m a n ! i = m (a + i)"
  by (simp add: peek_def)

lemma length_le_bytes [simp]: "length (le_bytes n v) = n"
  by (induction n arbitrary: v) auto

lemma le_val_less: "le_val bs < 256 ^ length bs"
proof (induction bs)
  case (Cons b bs)
  then show ?case using unat_u8_less [of b] by simp
qed simp

lemma le_val_le_bytes: "le_val (le_bytes n v) = v mod 256 ^ n"
proof (induction n arbitrary: v)
  case (Suc n)
  have "unat (of_nat v :: u8) = v mod 256" by (simp add: unsigned_of_nat take_bit_eq_mod)
  then show ?case using Suc by (simp add: mod_mult2_eq)
qed simp

lemma poke_same: "peek (poke m a bs) a (length bs) = bs"
  by (rule nth_equalityI) (simp_all add: poke_def)

lemma poke_other: "x < a \<or> a + length bs \<le> x \<Longrightarrow> poke m a bs x = m x"
  by (auto simp: poke_def)

lemma peek_cong: "(\<And>x. a \<le> x \<Longrightarrow> x < a + n \<Longrightarrow> m x = m' x) \<Longrightarrow> peek m a n = peek m' a n"
  by (rule nth_equalityI) simp_all

lemma peek_poke_other:
  "a + n \<le> b \<or> b + length bs \<le> a \<Longrightarrow> peek (poke m b bs) a n = peek m a n"
  by (rule peek_cong) (auto simp: poke_def)

lemma poke_Nil [simp]: "poke m a [] = m"
  by (auto simp: poke_def fun_eq_iff)

lemma mwr_other: "x < a \<or> a + n \<le> x \<Longrightarrow> mwr n m a v x = m x"
  by (simp add: mwr_def poke_other)

lemma mrd_mwr_same: "mrd n (mwr n m a v) a = v mod 256 ^ n"
  using poke_same [of m a "le_bytes n v"] by (simp add: mrd_def mwr_def le_val_le_bytes)

lemma mrd_mwr_other: "a + n \<le> b \<or> b + k \<le> a \<Longrightarrow> mrd n (mwr k m b v) a = mrd n m a"
  by (simp add: mrd_def mwr_def peek_poke_other)

lemma peek_mwr_other: "a + n \<le> b \<or> b + k \<le> a \<Longrightarrow> peek (mwr k m b v) a n = peek m a n"
  by (simp add: mwr_def peek_poke_other)

lemma mrd_less: "mrd n m a < 256 ^ n"
  using le_val_less [of "peek m a n"] by (simp add: mrd_def)

lemma mrd_peek_poke: "b \<le> a \<Longrightarrow> a + n \<le> b + length bs \<Longrightarrow> mrd n (poke m b bs) a = le_val (take n (drop (a - b) bs))"
  unfolding mrd_def by (rule arg_cong [where f = le_val]) (rule nth_equalityI, auto simp: poke_def)

lemma le_val_append: "le_val (xs @ ys) = le_val xs + 256 ^ length xs * le_val ys"
  by (induction xs) (simp_all add: algebra_simps)

text \<open>Tables of fields of equal width.\<close>

lemma take_concat_width: "(\<And>x. length (f x) = w) \<Longrightarrow> take (w * n) (concat (map f xs)) = concat (map f (take n xs))"
proof (induction n arbitrary: xs)
  case (Suc n)
  then show ?case by (cases xs) simp_all
qed simp

lemma drop_concat_width: "(\<And>x. length (f x) = w) \<Longrightarrow> drop (w * n) (concat (map f xs)) = concat (map f (drop n xs))"
proof (induction n arbitrary: xs)
  case (Suc n)
  then show ?case by (cases xs) simp_all
qed simp

end
