(* ===== verification/Blockif.thy ===== *)
theory Blockif
  imports Prelude
begin

text \<open>
  The part of \<^verbatim>\<open>bhyve/block_if.c\<close> that the BIOS services use: size, sector size, geometry
  and the synchronous transfers \<^verbatim>\<open>blockif_read_sync\<close> and
  \<^verbatim>\<open>blockif_write_sync\<close>. The backing file is the list of its bytes, and the system calls
  \<^verbatim>\<open>pread\<close> and \<^verbatim>\<open>pwrite\<close> do what POSIX says of them on a regular file: short
  reads at the end of the file, writes that extend it, \<open>-1\<close> for a negative offset or a
  descriptor opened read-only. The request queues are not part of this theory.
\<close>

section \<open>Contexts\<close>

record blockif_ctxt =
  bc_rdonly :: bool
  bc_size :: nat
  bc_sectsz :: nat
  bc_file :: "u8 list"

definition blockif_size :: "blockif_ctxt \<Rightarrow> nat" where
  "blockif_size bc = bc_size bc"

definition blockif_sectsz :: "blockif_ctxt \<Rightarrow> nat" where
  "blockif_sectsz bc = bc_sectsz bc"

text \<open>The inner branch of the geometry for disks below the largest 16-head geometry: sectors per
  track, heads (an 8-bit variable) and cylinders times heads.\<close>

definition small_chs :: "nat \<Rightarrow> nat \<times> nat \<times> nat" where
  "small_chs sectors =
     (let secpt = 17; hcyl = sectors div secpt; heads = ((hcyl + 1023) div 1024) mod 256;
          heads = (if heads < 4 then 4 else heads);
          (secpt, heads, hcyl) = (if hcyl \<ge> heads * 1024 \<or> heads > 16 then (31, 16, sectors div 31)
                                  else (secpt, heads, hcyl))
      in if hcyl \<ge> heads * 1024 then (63, 32, sectors div 63) else (secpt, heads, hcyl))"

definition blockif_chs :: "blockif_ctxt \<Rightarrow> u16 \<times> u8 \<times> u8" where
  "blockif_chs bc =
     (let sectors = bc_size bc div bc_sectsz bc;
          (secpt, heads, hcyl) =
            (if bc_size bc \<le> 2880 * 512 then (18, 2, sectors div 18)
             else let sectors = (if sectors > 65535 * 16 * 255 then 65535 * 16 * 255 else sectors)
                  in if sectors \<ge> 65536 * 16 * 63 then (63, 32, sectors div 63)
                     else small_chs sectors)
      in (of_nat (hcyl div heads), of_nat heads, of_nat secpt))"

section \<open>Synchronous transfers\<close>

text \<open>The byte offset, a signed 64-bit number in the call.\<close>

definition lba_offset :: "blockif_ctxt \<Rightarrow> u64 \<Rightarrow> int" where
  "lba_offset bc lba = sint (lba * of_nat (bc_sectsz bc))"

definition blockif_read_sync :: "blockif_ctxt \<Rightarrow> nat \<Rightarrow> u64 \<Rightarrow> int \<times> u8 list" where
  "blockif_read_sync bc sectors lba =
     (let off = lba_offset bc lba
      in if off < 0 then (-1, [])
         else let bytes = take (sectors * bc_sectsz bc) (drop (nat off) (bc_file bc))
              in (int (length bytes), bytes))"

text \<open>\<open>buf\<close> holds the bytes of all the sectors.\<close>

definition blockif_write_sync :: "blockif_ctxt \<Rightarrow> u8 list \<Rightarrow> u64 \<Rightarrow> int \<times> blockif_ctxt" where
  "blockif_write_sync bc buf lba =
     (let off = lba_offset bc lba
      in if off < 0 \<or> bc_rdonly bc then (-1, bc)
         else let f = bc_file bc; f = f @ replicate (nat off - length f) 0
              in (int (length buf),
                  if buf = [] then bc
                  else bc\<lparr>bc_file := take (nat off) f @ buf @ drop (nat off + length buf) f\<rparr>))"

section \<open>The contract of a disk\<close>

text \<open>What the BIOS services rely on: a write that does not fail is read back, and writing one range
  leaves disjoint ranges alone. \<open>pos\<close> is the first byte of a block.\<close>

locale block_device =
  fixes rd :: "'d \<Rightarrow> nat \<Rightarrow> u64 \<Rightarrow> int \<times> u8 list"
    and wr :: "'d \<Rightarrow> u8 list \<Rightarrow> u64 \<Rightarrow> int \<times> 'd"
    and sectsz :: "'d \<Rightarrow> nat"
    and pos :: "'d \<Rightarrow> u64 \<Rightarrow> int"
  assumes rd_wr: "wr d buf lba = (r, d') \<Longrightarrow> 0 \<le> r \<Longrightarrow> length buf = sectors * sectsz d \<Longrightarrow>
      rd d' sectors lba = (int (length buf), buf)"
    and rd_wr_other: "wr d buf lba = (r, d') \<Longrightarrow> 0 \<le> r \<Longrightarrow> rd d sectors lba2 = (q, bytes) \<Longrightarrow> 0 \<le> q \<Longrightarrow>
      length bytes = sectors * sectsz d \<Longrightarrow>
      pos d lba2 + int (sectors * sectsz d) \<le> pos d lba \<or> pos d lba + int (length buf) \<le> pos d lba2 \<Longrightarrow>
      rd d' sectors lba2 = (q, bytes)"
    and wr_sectsz: "wr d buf lba = (r, d') \<Longrightarrow> sectsz d' = sectsz d"
    and wr_pos: "wr d buf lba = (r, d') \<Longrightarrow> pos d' = pos d"
begin

lemma overwrite:
  assumes "wr d buf lba = (r, d')" "wr d' buf2 lba = (r2, d2)" "0 \<le> r2" "length buf2 = sectors * sectsz d"
  shows "rd d2 sectors lba = (int (length buf2), buf2)"
  using rd_wr [OF assms(2,3)] assms(4) wr_sectsz [OF assms(1)] by simp

lemma two_writes:
  assumes w1: "wr d buf lba = (r, d')" "0 \<le> r" and w2: "wr d' buf2 lba2 = (r2, d2)" "0 \<le> r2"
    and len: "length buf = n * sectsz d" "length buf2 = n2 * sectsz d"
    and disj: "pos d lba + int (length buf) \<le> pos d lba2 \<or> pos d lba2 + int (length buf2) \<le> pos d lba"
  shows "rd d2 n lba = (int (length buf), buf) \<and> rd d2 n2 lba2 = (int (length buf2), buf2)"
proof
  have s: "sectsz d' = sectsz d" "pos d' = pos d" using wr_sectsz [OF w1(1)] wr_pos [OF w1(1)] by auto
  have "rd d' n lba = (int (length buf), buf)" by (rule rd_wr [OF w1 len(1)])
  from rd_wr_other [OF w2 this] len disj s
  show "rd d2 n lba = (int (length buf), buf)" by simp
  show "rd d2 n2 lba2 = (int (length buf2), buf2)" using rd_wr [OF w2] len(2) s by simp
qed

end

lemma write_sync_Some:
  assumes "blockif_write_sync bc buf lba = (r, bc')" "0 \<le> r"
  defines "off \<equiv> nat (lba_offset bc lba)"
  shows "0 \<le> lba_offset bc lba" "bc_sectsz bc' = bc_sectsz bc" "lba_offset bc' = lba_offset bc"
    "buf \<noteq> [] \<Longrightarrow> bc_file bc' = take off (bc_file bc @ replicate (off - length (bc_file bc)) 0) @ buf @
       drop (off + length buf) (bc_file bc @ replicate (off - length (bc_file bc)) 0)"
    "buf = [] \<Longrightarrow> bc' = bc"
  using assms
  by (auto simp: blockif_write_sync_def Let_def lba_offset_def fun_eq_iff split: if_splits)

text \<open>The bytes of the file after a write, seen through a window of it.\<close>

lemma splice_same:
  assumes "n \<le> length f"
  shows "take (length buf) (drop n (take n f @ buf @ drop (n + length buf) f)) = buf"
  using assms by (simp add: min_def)

lemma splice_other:
  assumes "n \<le> length f" "a + k \<le> length g" "a + k \<le> n \<or> n + length buf \<le> a"
    "f = g @ replicate (n - length g) 0"
  shows "take k (drop a (take n f @ buf @ drop (n + length buf) f)) = take k (drop a g)"
proof -
  define h where "h = take n f @ buf @ drop (n + length buf) f"
  have "h ! (a + i) = f ! (a + i)" if "i < k" for i
  proof (cases "a + i < n")
    case True
    then show ?thesis using assms(1) by (simp add: h_def nth_append)
  next
    case False
    then have "n + length buf \<le> a" using assms(3) that by linarith
    moreover from this have "\<not> a + i - n < length buf" by linarith
    ultimately show ?thesis using assms(1,2,4) that by (simp add: h_def nth_append min_def)
  qed
  then have "h ! (a + i) = g ! (a + i)" if "i < k" for i using that assms(2,4) by (simp add: nth_append)
  moreover have "a + k \<le> length h" using assms by (auto simp: h_def)
  ultimately show ?thesis unfolding h_def [symmetric] using assms(2) by (intro nth_equalityI) simp_all
qed

lemma read_sync_len:
  "blockif_read_sync bc n lba = (q, bytes) \<Longrightarrow> 0 \<le> q \<Longrightarrow>
     0 \<le> lba_offset bc lba \<and> bytes = take (n * bc_sectsz bc) (drop (nat (lba_offset bc lba)) (bc_file bc)) \<and>
     q = int (length bytes)"
  by (auto simp: blockif_read_sync_def Let_def split: if_splits)

interpretation bdev: block_device blockif_read_sync blockif_write_sync bc_sectsz lba_offset
proof
  fix d buf lba r d' sectors
  assume w: "blockif_write_sync d buf lba = (r, d')" "0 \<le> r" and len: "length buf = sectors * bc_sectsz d"
  note s = write_sync_Some [OF w]
  show "blockif_read_sync d' sectors lba = (int (length buf), buf)"
  proof (cases "buf = []")
    case True
    then show ?thesis using s len by (auto simp: blockif_read_sync_def)
  next
    case False
    let ?f = "bc_file d @ replicate (nat (lba_offset d lba) - length (bc_file d)) 0"
    have "nat (lba_offset d lba) \<le> length ?f" by simp
    from splice_same [OF this, of buf] s(1-3) s(4) [OF False] len
    show ?thesis by (simp add: blockif_read_sync_def Let_def del: drop_append take_append)
  qed
next
  fix d buf lba r d' sectors lba2 q bytes
  assume w: "blockif_write_sync d buf lba = (r, d')" "0 \<le> r"
    and rd: "blockif_read_sync d sectors lba2 = (q, bytes)" "0 \<le> q"
    and len: "length bytes = sectors * bc_sectsz d"
    and disj: "lba_offset d lba2 + int (sectors * bc_sectsz d) \<le> lba_offset d lba \<or>
      lba_offset d lba + int (length buf) \<le> lba_offset d lba2"
  note s = write_sync_Some [OF w] and r = read_sync_len [OF rd]
  show "blockif_read_sync d' sectors lba2 = (q, bytes)"
  proof (cases "buf = [] \<or> bytes = []")
    case True
    then show ?thesis
    proof
      assume "bytes = []"
      then show ?thesis using r s(2,3) len by (auto simp: blockif_read_sync_def Let_def)
    qed (use s(5) rd in simp)
  next
    case False
    let ?n = "nat (lba_offset d lba)" and ?a = "nat (lba_offset d lba2)" and ?k = "sectors * bc_sectsz d"
    let ?f = "bc_file d @ replicate (?n - length (bc_file d)) 0"
    have "?a + ?k \<le> length (bc_file d)" using r len False by (cases "?a \<le> length (bc_file d)") auto
    moreover have "?a + ?k \<le> ?n \<or> ?n + length buf \<le> ?a" using disj s(1) r by linarith
    ultimately have "take ?k (drop ?a (take ?n ?f @ buf @ drop (?n + length buf) ?f)) = take ?k (drop ?a (bc_file d))"
      by (intro splice_other) simp_all
    then have "take ?k (drop ?a (bc_file d')) = bytes" unfolding s(4) [OF conjunct1 [OF False [unfolded de_Morgan_disj]]]
      using r by simp
    then show ?thesis using r s(2,3) by (simp add: blockif_read_sync_def Let_def)
  qed
next
  fix d buf lba r d' assume w: "blockif_write_sync d buf lba = (r, d')"
  then have "bc_sectsz d' = bc_sectsz d" by (auto simp: blockif_write_sync_def Let_def split: if_splits)
  then show "bc_sectsz d' = bc_sectsz d" "lba_offset d' = lba_offset d" by (simp_all add: lba_offset_def fun_eq_iff)
qed

end
