(* ===== verification/Microbios.thy ===== *)
theory Microbios
  imports Guest_Mem Blockif
begin

text \<open>
  The host side of the BIOS (\<^verbatim>\<open>bhyve/microbios.c\<close>): the ROM traps to the hypervisor by writing
  port 0x100, either with four bytes (a BIOS interrupt: INT 13h disk services, INT 15h system
  services) or with fewer (a command left in the command block at 0xF6000). Guest memory holds the BIOS
  data area, the saved flags and registers and the command block, at the offsets of
  \<^verbatim>\<open>microbios.h\<close>; the handlers read and write it there.

  Code outside the repository is a parameter, \<open>env\<close>: which guest ranges \<^verbatim>\<open>vm_map_gpa\<close>
  maps, what \<^verbatim>\<open>vm_get_lowmem_size\<close> returns, and the error number of a failed system call.
  A failed assertion, a dereference of a null or stray pointer and \<^verbatim>\<open>exit\<close> are values of
  \<open>stop\<close>.
\<close>

section \<open>Data\<close>

datatype stop = Bad_pointer | Assert_failed | Exit_0

datatype greg = RAX | RBX | RCX | RDX | RSI | RDI | RSP | RBP | RIP | CS | SS | DS | ES

record env =
  env_mapped :: "nat \<Rightarrow> nat \<Rightarrow> bool"
  env_lowmem :: nat
  env_errno :: u32

record vga_mode =
  gc_width :: nat
  gc_height :: nat
  gc_bpp :: nat
  vga_mode :: u8

record bios =
  greg :: "greg \<Rightarrow> u64"
  gmem :: gmem
  mddisks :: "blockif_ctxt list"
  bda_set :: bool
  e820_entries :: nat
  e820_tbl :: "u8 list option"
  a20_mode :: nat
  vga :: vga_mode
  delays :: "nat list"

record inth_regs =
  r_eflags :: u16
  r_eax :: u32
  r_ecx :: u32
  r_edx :: u32
  r_ebx :: u32
  r_esp :: u32
  r_ebp :: u32
  r_esi :: u32
  r_edi :: u32
  r_eip :: u32
  r_cs :: u16
  r_ss :: u16
  r_ds :: u16
  r_es :: u16

abbreviation (input) BIOS_DATA_AREA :: nat where "BIOS_DATA_AREA \<equiv> 0x400"
abbreviation (input) BIOS_VARS_ADDR :: nat where "BIOS_VARS_ADDR \<equiv> 0xF5000"
abbreviation (input) E820_INFO_BLOCK :: nat where "E820_INFO_BLOCK \<equiv> 0xF5500"
abbreviation (input) BIOS_CMDS_ADDR :: nat where "BIOS_CMDS_ADDR \<equiv> 0xF6000"

text \<open>Sizes and field addresses: \<^verbatim>\<open>bda->\<close>, \<^verbatim>\<open>bios_vars->\<close>,
  \<^verbatim>\<open>guest_cmd->\<close>.\<close>

abbreviation (input) bda_com1 :: nat where "bda_com1 \<equiv> BIOS_DATA_AREA"
abbreviation (input) bda_mem_size :: nat where "bda_mem_size \<equiv> BIOS_DATA_AREA + 0x13"
abbreviation (input) bda_vid_mode :: nat where "bda_vid_mode \<equiv> BIOS_DATA_AREA + 0x49"
abbreviation (input) bda_text_columns :: nat where "bda_text_columns \<equiv> BIOS_DATA_AREA + 0x4A"
abbreviation (input) bda_disp_page :: nat where "bda_disp_page \<equiv> BIOS_DATA_AREA + 0x62"
abbreviation (input) bda_timer_counter :: nat where "bda_timer_counter \<equiv> BIOS_DATA_AREA + 0x6C"
abbreviation (input) bda_number_of_drives :: nat where "bda_number_of_drives \<equiv> BIOS_DATA_AREA + 0x75"
abbreviation (input) bda_text_rows_minus_one :: nat where
  "bda_text_rows_minus_one \<equiv> BIOS_DATA_AREA + 0x84"
abbreviation (input) sizeof_BDA :: nat where "sizeof_BDA \<equiv> 0x98"
abbreviation (input) vars_config_tbl :: nat where "vars_config_tbl \<equiv> BIOS_VARS_ADDR"
abbreviation (input) vars_flags :: nat where "vars_flags \<equiv> BIOS_VARS_ADDR + 2"
abbreviation (input) vars_eax :: nat where "vars_eax \<equiv> BIOS_VARS_ADDR + 4"
abbreviation (input) vars_edx :: nat where "vars_edx \<equiv> BIOS_VARS_ADDR + 8"
abbreviation (input) sizeof_BIOS_VARS :: nat where "sizeof_BIOS_VARS \<equiv> 36"
abbreviation (input) cmd_command :: nat where "cmd_command \<equiv> BIOS_CMDS_ADDR + 2"
abbreviation (input) cmd_results :: nat where "cmd_results \<equiv> BIOS_CMDS_ADDR + 4"
abbreviation (input) cmd_args :: nat where "cmd_args \<equiv> BIOS_CMDS_ADDR + 8"

definition SETREG :: "bios \<Rightarrow> greg \<Rightarrow> u64 \<Rightarrow> bios" where
  "SETREG st r v = st\<lparr>greg := (greg st)(r := v)\<rparr>"

definition put :: "nat \<Rightarrow> bios \<Rightarrow> nat \<Rightarrow> nat \<Rightarrow> bios" where
  "put n st a v = st\<lparr>gmem := mwr n (gmem st) a v\<rparr>"

definition REG_WORD :: "u32 \<Rightarrow> nat" where "REG_WORD x = unat (x AND 0xffff)"
definition REG_LOBYTE :: "u32 \<Rightarrow> nat" where "REG_LOBYTE x = unat (x AND 0xff)"
definition REG_HIBYTE :: "u32 \<Rightarrow> nat" where "REG_HIBYTE x = unat (drop_bit 8 x AND 0xff)"

abbreviation (input) EFLAGS_CF :: u16 where "EFLAGS_CF \<equiv> 1"

definition CLEAR_CF :: "inth_regs \<Rightarrow> inth_regs" where
  "CLEAR_CF regs = regs\<lparr>r_eflags := r_eflags regs AND NOT EFLAGS_CF\<rparr>"

definition SET_CF :: "inth_regs \<Rightarrow> inth_regs" where
  "SET_CF regs = regs\<lparr>r_eflags := r_eflags regs OR EFLAGS_CF\<rparr>"

section \<open>Disks\<close>

definition microbios_register_disk :: "bios \<Rightarrow> blockif_ctxt \<Rightarrow> bios" where
  "microbios_register_disk st md =
     (if length (mddisks st) < 32 then st\<lparr>mddisks := mddisks st @ [md]\<rparr> else st)"

text \<open>\<open>mddisks[i]\<close> followed by a dereference.\<close>

definition md_at :: "bios \<Rightarrow> nat \<Rightarrow> blockif_ctxt option" where
  "md_at st i = (if i < length (mddisks st) then Some (mddisks st ! i) else None)"

text \<open>The \<^verbatim>\<open>int\<close> that a callback returns for the \<^verbatim>\<open>ssize_t\<close> it got.\<close>

definition to_int :: "int \<Rightarrow> int" where
  "to_int r = sint (word_of_int r :: 32 word)"

text \<open>The read and write callbacks on the guest buffer at \<open>addr\<close>: \<^verbatim>\<open>vm_map_gpa\<close> has given a
  null pointer for an unmapped range, which makes the system call fail as soon as a byte is to be
  copied.\<close>

definition ahci_md_read :: "env \<Rightarrow> bios \<Rightarrow> nat \<Rightarrow> u64 \<Rightarrow> nat \<Rightarrow> nat \<Rightarrow> int \<times> bios" where
  "ahci_md_read env st i lba addr sectors =
     (let bc = mddisks st ! i; (r, bytes) = blockif_read_sync bc sectors lba
      in if bytes \<noteq> [] \<and> \<not> env_mapped env addr (sectors * bc_sectsz bc) then (-1, st)
         else (to_int r, st\<lparr>gmem := poke (gmem st) addr bytes\<rparr>))"

definition ahci_md_write :: "env \<Rightarrow> bios \<Rightarrow> nat \<Rightarrow> u64 \<Rightarrow> nat \<Rightarrow> nat \<Rightarrow> int \<times> bios" where
  "ahci_md_write env st i lba addr sectors =
     (let bc = mddisks st ! i; len = sectors * bc_sectsz bc
      in if len \<noteq> 0 \<and> \<not> env_mapped env addr len then (-1, st)
         else let (r, bc') = blockif_write_sync bc (peek (gmem st) addr len) lba
              in (to_int r, st\<lparr>mddisks := (mddisks st)[i := bc']\<rparr>))"

section \<open>Commands\<close>

text \<open>The four memory map entries, as five 32-bit words each.\<close>

definition e820_words :: "u32 \<Rightarrow> u32 list" where
  "e820_words memsize =
     [0x0, 0x0, 0x500, 0x0, 0x2,
      0x500, 0x0, 0xa0000 - 0x500, 0x0, 0x1,
      0xa0000, 0x0, 0x100000 - 0xa0000, 0x0, 0x2,
      0x100000, 0x0, memsize - 0x100000, 0x0, 0x1]"

definition microbios_setup_shared :: "env \<Rightarrow> bios \<Rightarrow> stop + bios" where
  "microbios_setup_shared env st =
     (let st = put 1 st bda_number_of_drives (length (mddisks st));
          st = put 2 st bda_com1 0x3f8;
          st = put 2 st bda_mem_size 640;
          st = put 1 st bda_text_rows_minus_one 24;
          st = put 2 st bda_text_columns 80;
          st = put 1 st bda_vid_mode 3
      in if \<not> env_mapped env E820_INFO_BLOCK 4096 then Inl Bad_pointer
         else let tbl = concat (map (\<lambda>w. le_bytes 4 (unat w)) (e820_words (of_nat (env_lowmem env))));
                  st = put 2 st E820_INFO_BLOCK 4;
                  st = put 2 st (E820_INFO_BLOCK + 2) (8 + 8 + 4);
                  st = st\<lparr>gmem := poke (gmem st) (E820_INFO_BLOCK + 4) tbl\<rparr>;
                  st = st\<lparr>e820_entries := 4\<rparr>
              in Inr (if e820_tbl st = None
                      then st\<lparr>e820_tbl := Some (peek (gmem st) (E820_INFO_BLOCK + 4) 80)\<rparr> else st))"

definition microbios_get_textpage :: "bios \<Rightarrow> u8" where
  "microbios_get_textpage st = (if bda_set st then gmem st bda_disp_page else 0)"

definition microbios_disk_params :: "bios \<Rightarrow> bios" where
  "microbios_disk_params st =
     (let disk = of_nat (mrd 4 (gmem st) cmd_args) :: u32; diskunit = unat (disk AND 0x7f)
      in if disk < 0x80 \<or> diskunit \<ge> length (mddisks st) then put 4 st cmd_results (nat EINVAL)
         else let blkctx = mddisks st ! diskunit; sectsz = blockif_sectsz blkctx;
                  size = blockif_size blkctx; (c, h, s) = blockif_chs blkctx;
                  st = put 4 st cmd_args (length (mddisks st));
                  st = put 4 st (cmd_args + 4) (unat h);
                  st = put 4 st (cmd_args + 8) (unat c);
                  st = put 4 st (cmd_args + 12) (unat s);
                  st = put 8 st (cmd_args + 16) (size div sectsz);
                  st = put 4 st (cmd_args + 24) sectsz
              in put 4 st cmd_results 0)"

text \<open>The 32-bit computation of a block number from cylinder, head and sector.\<close>

definition chs_lba :: "u16 \<times> u8 \<times> u8 \<Rightarrow> u32 \<Rightarrow> u32 \<Rightarrow> u32 \<Rightarrow> u64" where
  "chs_lba = (\<lambda>(c, h, s) cylinder head sector.
     ucast ((cylinder * ucast h + head) * ucast s + sector - 1 :: u32))"

definition microbios_disk_io_cmd :: "env \<Rightarrow> bios \<Rightarrow> stop + bios" where
  "microbios_disk_io_cmd env st =
     (let arg = (\<lambda>n off. mrd n (gmem st) (cmd_args + off));
          direction = arg 4 0; disk = of_nat (arg 4 4) :: u32; head = arg 4 8; cylinder = arg 4 12;
          sector = arg 4 16; sectors = arg 4 20; lba = of_nat (arg 8 24) :: u64; addr = arg 8 32
      in if disk < 0x80 then Inr (put 4 st cmd_results 1)
         else let i = unat (disk AND NOT 0x80)
              in case md_at st i of
                   None \<Rightarrow> Inl Bad_pointer
                 | Some blkctx \<Rightarrow>
                     let chs = lba = - 1;
                         lba = (if chs then chs_lba (blockif_chs blkctx) (of_nat cylinder) (of_nat head) (of_nat sector)
                                else lba);
                         st = (if chs then put 8 st (cmd_args + 24) (unat lba) else st);
                         (r, st) = (if direction \<noteq> 0 then ahci_md_write env st i lba addr sectors
                                    else ahci_md_read env st i lba addr sectors)
                     in if (if direction \<noteq> 0 then r < 0 else r \<le> 0)
                        then Inr (put 4 st cmd_results (unat (env_errno env)))
                        else let iodelay = mrd 4 (gmem st) (cmd_args + 40);
                                 st = (if 0 < iodelay \<and> iodelay \<le> 100000
                                       then st\<lparr>delays := delays st @ [iodelay]\<rparr> else st)
                             in Inr (put 4 st cmd_results 0))"

text \<open>\<^verbatim>\<open>vga_switchmode\<close> of \<^verbatim>\<open>vga.c\<close>.\<close>

definition vga_switchmode :: "vga_mode \<Rightarrow> u8 \<Rightarrow> int \<times> vga_mode" where
  "vga_switchmode v mode =
     (if mode = 0x03 then (0, \<lparr>gc_width = 640, gc_height = 400, gc_bpp = 4, vga_mode = mode\<rparr>)
      else if mode = 0x12 then (0, \<lparr>gc_width = 640, gc_height = 480, gc_bpp = 4, vga_mode = mode\<rparr>)
      else (-1, v\<lparr>gc_width := 320, gc_height := 200, gc_bpp := 8\<rparr>))"

abbreviation (input) BCMD_SETUP :: nat where "BCMD_SETUP \<equiv> 1"
abbreviation (input) BCMD_DISK_PARAMS :: nat where "BCMD_DISK_PARAMS \<equiv> 2"
abbreviation (input) BCMD_DISK_IO :: nat where "BCMD_DISK_IO \<equiv> 3"
abbreviation (input) BCMD_CHANGE_ISO_EJECT :: nat where "BCMD_CHANGE_ISO_EJECT \<equiv> 4"
abbreviation (input) BCMD_PRINTS :: nat where "BCMD_PRINTS \<equiv> 5"
abbreviation (input) BCMD_VIDEO :: nat where "BCMD_VIDEO \<equiv> 6"
abbreviation (input) BCMD_DBG_PRINT :: nat where "BCMD_DBG_PRINT \<equiv> 0xfe"
abbreviation (input) BMCD_POWER_OFF :: nat where "BMCD_POWER_OFF \<equiv> 0xff"
abbreviation (input) BVIDCMD_VIDMODE :: nat where "BVIDCMD_VIDMODE \<equiv> 1"
abbreviation (input) BVIDCMD_DISPLAY_PAGE :: nat where "BVIDCMD_DISPLAY_PAGE \<equiv> 2"

definition video_cmd :: "bios \<Rightarrow> bios" where
  "video_cmd st =
     (let vidcmd = mrd 4 (gmem st) cmd_args
      in if vidcmd = BVIDCMD_DISPLAY_PAGE
         then put 1 st bda_disp_page (mrd 4 (gmem st) (cmd_args + 4))
         else if vidcmd = BVIDCMD_VIDMODE
         then let (r, v) = vga_switchmode (vga st) (gmem st (cmd_args + 4))
              in put 4 (st\<lparr>vga := v\<rparr>) cmd_results (unat (word_of_int r :: u32))
         else st)"

definition microbios_cmd_handler :: "env \<Rightarrow> bios \<Rightarrow> stop + (int \<times> bios)" where
  "microbios_cmd_handler env st =
     (let command = mrd 2 (gmem st) cmd_command
      in if command = BCMD_SETUP
         then map_sum id (\<lambda>st. (0, put 4 st cmd_results 0)) (microbios_setup_shared env st)
         else if command = BCMD_DISK_PARAMS then Inr (0, microbios_disk_params st)
         else if command = BCMD_DISK_IO
         then if \<not> length (mddisks st) > 0 then Inl Assert_failed
              else map_sum id (\<lambda>st. (0, put 4 st cmd_results 0)) (microbios_disk_io_cmd env st)
         else if command = BCMD_CHANGE_ISO_EJECT then Inr (0, put 4 st cmd_results 0)
         else if command = BCMD_PRINTS \<or> command = BCMD_DBG_PRINT then Inr (0, st)
         else if command = BCMD_VIDEO then Inr (0, video_cmd st)
         else if command = BMCD_POWER_OFF then Inl Exit_0
         else Inr (1, st))"

section \<open>INT 13h: disk services\<close>

text \<open>Each case of the switch returns whether it ends in \<^verbatim>\<open>break\<close> (else in
  \<^verbatim>\<open>goto eflags_err\<close>), with the saved registers and the state it leaves.\<close>

type_synonym case_result = "stop + (bool \<times> inth_regs \<times> bios)"

definition eflags_err :: "inth_regs \<Rightarrow> bios \<Rightarrow> case_result" where
  "eflags_err regs st = Inr (False, SET_CF regs, st)"

definition disk_transfer ::
    "env \<Rightarrow> bool \<Rightarrow> inth_regs \<Rightarrow> bios \<Rightarrow> nat \<Rightarrow> u64 \<Rightarrow> nat \<Rightarrow> nat \<Rightarrow> case_result" where
  "disk_transfer env is_read regs st i lba addr sectors =
     (let (r, st) = (if is_read then ahci_md_read env st i lba addr sectors
                     else ahci_md_write env st i lba addr sectors)
      in if r < 0 then eflags_err regs st
         else Inr (True, CLEAR_CF (regs\<lparr>r_eax := r_eax regs AND 0xFFFF00FF\<rparr>), st))"

text \<open>Functions 02h and 03h: read and write by cylinder, head and sector.\<close>

definition int13_chs_io :: "env \<Rightarrow> bool \<Rightarrow> inth_regs \<Rightarrow> bios \<Rightarrow> case_result" where
  "int13_chs_io env is_read regs st =
     (let disknum = REG_LOBYTE (r_edx regs);
          head = (drop_bit 8 (r_edx regs) AND 0xff) AND 0x3F;
          cylinder = (drop_bit 8 (r_ecx regs) AND 0xff) OR
                     push_bit 2 ((r_ecx regs AND 0xff) AND 0xC0);
          sector = (r_ecx regs AND 0xff) AND 0x3F;
          sectors = REG_LOBYTE (r_eax regs);
          addr = unat (r_es regs) * 16 + REG_WORD (r_ebx regs)
      in if disknum < 0x80 then eflags_err regs st
         else let i = disknum mod 128
              in case md_at st i of
                   None \<Rightarrow> Inl Bad_pointer
                 | Some blkctx \<Rightarrow>
                     disk_transfer env is_read regs st i
                       (chs_lba (blockif_chs blkctx) cylinder head sector) addr sectors)"

abbreviation (input) sizeof_edd_drive_packet :: nat where "sizeof_edd_drive_packet \<equiv> 24"

text \<open>The fields of a drive packet: structure size, block count, block number and buffer address.\<close>

definition packet_lba :: "gmem \<Rightarrow> nat \<Rightarrow> u64" where
  "packet_lba m dp = of_nat (mrd 4 m (dp + 8)) OR push_bit 32 (of_nat (mrd 4 m (dp + 12)))"

definition packet_addr :: "gmem \<Rightarrow> nat \<Rightarrow> nat" where
  "packet_addr m dp =
     (let struct_size = m dp; buf_addr = of_nat (mrd 4 m (dp + 4)) :: u32
      in if struct_size = 16 \<or> buf_addr \<noteq> 0xffffffff
         then unat (drop_bit 12 (buf_addr AND 0xFFFF0000) + (buf_addr AND 0xFFFF))
         else mrd 4 m (dp + 16) + 2 ^ 32 * mrd 4 m (dp + 20))"

text \<open>Functions 42h and 43h: extended read and write.\<close>

definition int13_ext_io :: "env \<Rightarrow> bool \<Rightarrow> inth_regs \<Rightarrow> bios \<Rightarrow> case_result" where
  "int13_ext_io env is_read regs st =
     (let dp = unat (r_ds regs) * 16 + REG_WORD (r_esi regs); dl = REG_LOBYTE (r_edx regs)
      in if \<not> env_mapped env dp sizeof_edd_drive_packet
         then eflags_err (regs\<lparr>r_eax := (r_eax regs AND 0xffff00ff) OR 0x0700\<rparr>) st
         else if dl < 0x80 \<or> dl mod 128 \<ge> length (mddisks st) then eflags_err regs st
         else disk_transfer env is_read regs st (dl mod 128) (packet_lba (gmem st) dp)
                (packet_addr (gmem st) dp) (mrd 2 (gmem st) (dp + 2)))"

abbreviation (input) sizeof_edd_drive_params :: nat where "sizeof_edd_drive_params \<equiv> 30"

abbreviation (input) EDD_GEOMETRY_VALID :: nat where "EDD_GEOMETRY_VALID \<equiv> 2"

text \<open>Function 48h after the lookup of the disk: the extended parameter block.\<close>

definition int13_ext_params :: "env \<Rightarrow> inth_regs \<Rightarrow> bios \<Rightarrow> blockif_ctxt \<Rightarrow> case_result" where
  "int13_ext_params env regs st blkctx =
     (let p = unat (r_ds regs) * 16 + REG_WORD (r_esi regs); sectsz = blockif_sectsz blkctx;
          sectors = blockif_size blkctx div sectsz; (c, h, s) = blockif_chs blkctx
      in if \<not> env_mapped env p sizeof_edd_drive_params \<or> mrd 2 (gmem st) p < 26
         then eflags_err (regs\<lparr>r_eax := r_eax regs AND 0xFFFF00FF\<rparr>) st
         else let st = put 2 st p 0x1a;
                  st = put 2 st (p + 2) EDD_GEOMETRY_VALID;
                  st = put 4 st (p + 8) (unat h);
                  st = put 4 st (p + 4) (unat c);
                  st = put 4 st (p + 12) (unat s);
                  st = put 2 st (p + 24) sectsz;
                  st = put 4 st (p + 16) sectors;
                  st = put 4 st (p + 20) (sectors div 2 ^ 32)
              in Inr (True, CLEAR_CF (regs\<lparr>r_eax := r_eax regs AND 0xFFFF00FF\<rparr>), st))"

text \<open>Functions 08h and 48h: drive parameters.\<close>

definition int13_params :: "env \<Rightarrow> inth_regs \<Rightarrow> bios \<Rightarrow> case_result" where
  "int13_params env regs st =
     (if REG_LOBYTE (r_edx regs) < 0x80 then eflags_err regs st
      else case md_at st (REG_LOBYTE (r_edx regs AND 0x7F)) of
             None \<Rightarrow> Inl Bad_pointer
           | Some blkctx \<Rightarrow>
               if REG_HIBYTE (r_eax regs) = 0x08
               then let (c, h, s) = blockif_chs blkctx;
                        regs = CLEAR_CF (regs\<lparr>r_eax := r_eax regs AND 0xFFFF0000\<rparr>);
                        regs = regs\<lparr>r_edx := push_bit 8 (ucast h - 1) OR 0x01\<rparr>;
                        st = SETREG st RDX (ucast (r_edx regs));
                        regs = regs\<lparr>r_ecx := (push_bit 6 (ucast c - 1) AND 0xFFC0) OR (ucast s AND 0x3F)\<rparr>;
                        st = SETREG st RCX (ucast (r_ecx regs));
                        regs = regs\<lparr>r_ebx := r_ebx regs AND NOT 0xFF\<rparr>
                    in Inr (True, regs, SETREG st RBX (ucast (r_ebx regs)))
               else int13_ext_params env regs st blkctx)"

text \<open>Function 15h: disk type.\<close>

definition int13_disk_type :: "inth_regs \<Rightarrow> bios \<Rightarrow> case_result" where
  "int13_disk_type regs st =
     (let diskunit = REG_LOBYTE (r_edx regs)
      in if diskunit \<ge> 0x80 \<and> diskunit mod 128 < length (mddisks st)
         then let blkctx = mddisks st ! (diskunit mod 128);
                  sectors = blockif_size blkctx div blockif_sectsz blkctx;
                  regs = regs\<lparr>r_ecx := of_nat (sectors div 2 ^ 16) AND 0xFFFF\<rparr>;
                  st = SETREG st RCX (ucast (r_ecx regs));
                  regs = regs\<lparr>r_edx := of_nat sectors AND 0xFFFF\<rparr>;
                  st = SETREG st RDX (ucast (r_edx regs));
                  regs = regs\<lparr>r_eax := r_eax regs AND 0xFFFFFF00\<rparr>
              in Inr (True, CLEAR_CF regs, st)
         else Inr (True, CLEAR_CF (regs\<lparr>r_eax := (r_eax regs AND 0xffffff00) OR 0x03\<rparr>), st))"

text \<open>Function 41h: extensions present.\<close>

definition int13_extensions :: "inth_regs \<Rightarrow> bios \<Rightarrow> case_result" where
  "int13_extensions regs st =
     (let regs = CLEAR_CF regs;
          regs = regs\<lparr>r_eax := (r_eax regs AND 0xffff0000) OR 0x2100, r_ebx := 0xAA55\<rparr>;
          st = SETREG st RBX (ucast (r_ebx regs));
          regs = regs\<lparr>r_ecx := 0x05\<rparr>
      in Inr (True, regs, SETREG st RCX (ucast (r_ecx regs))))"

definition int13_switch :: "env \<Rightarrow> inth_regs \<Rightarrow> bios \<Rightarrow> case_result" where
  "int13_switch env regs st =
     (let ah = REG_HIBYTE (r_eax regs)
      in if ah \<in> {0x00, 0x01, 0x04, 0x05, 0x10, 0x0C, 0x16, 0x4b}
         then Inr (True, CLEAR_CF (regs\<lparr>r_eax := r_eax regs AND 0xffffff00\<rparr>), st)
         else if ah = 0x02 then int13_chs_io env True regs st
         else if ah = 0x03 then int13_chs_io env False regs st
         else if ah = 0x42 then int13_ext_io env True regs st
         else if ah = 0x43 then int13_ext_io env False regs st
         else if ah = 0x48 \<or> ah = 0x08 then int13_params env regs st
         else if ah = 0x15 then int13_disk_type regs st
         else if ah = 0x41 then int13_extensions regs st
         else eflags_err regs st)"

definition put_flags :: "bios \<Rightarrow> inth_regs \<Rightarrow> bios" where
  "put_flags st regs = put 2 st vars_flags (unat (r_eflags regs))"

text \<open>The two exits of the handlers, after the switch and at the label.\<close>

definition handler_exit :: "bool \<times> inth_regs \<times> bios \<Rightarrow> int \<times> bios" where
  "handler_exit = (\<lambda>(fell_out, regs, st).
     if fell_out then (0, put_flags (SETREG st RAX (ucast (r_eax regs))) regs) else (-1, put_flags st regs))"

definition handle_int13 :: "env \<Rightarrow> inth_regs \<Rightarrow> bios \<Rightarrow> stop + (int \<times> bios)" where
  "handle_int13 env regs st = map_sum id handler_exit (int13_switch env regs st)"

section \<open>INT 15h: system services\<close>

text \<open>Function 24h: the A20 gate.\<close>

definition int15_a20 :: "inth_regs \<Rightarrow> bios \<Rightarrow> case_result" where
  "int15_a20 regs st =
     (let al = REG_LOBYTE (r_eax regs);
          (regs, st) =
            (if al = 0 then (regs\<lparr>r_eax := r_eax regs AND 0xffff00ff\<rparr>, st\<lparr>a20_mode := 0\<rparr>)
             else if al = 1 then (regs\<lparr>r_eax := r_eax regs AND 0xffff00ff\<rparr>, st\<lparr>a20_mode := 1\<rparr>)
             else if al = 2
             then (regs\<lparr>r_eax := (r_eax regs AND 0xffff0000) OR of_nat (a20_mode st)\<rparr>, st)
             else if al = 3
             then let regs = regs\<lparr>r_eax := r_eax regs AND 0xffff0000,
                                   r_ebx := (r_ebx regs AND 0xffff0000) OR 0x03\<rparr>
                  in (regs, SETREG st RBX (ucast (r_ebx regs)))
             else (regs, st));
          regs = CLEAR_CF regs
      in Inr (True, regs, SETREG st RAX (ucast (r_eax regs))))"

text \<open>Function 87h: move a block. A copy between overlapping ranges, undefined for
  \<^verbatim>\<open>memcpy\<close>, is taken to read all of the source first.\<close>

definition int15_move :: "env \<Rightarrow> inth_regs \<Rightarrow> bios \<Rightarrow> case_result" where
  "int15_move env regs st =
     (let gdt = unat (r_es regs) * 16 + REG_WORD (r_esi regs); len = REG_WORD (r_ecx regs);
          paddr = (\<lambda>n. mrd 4 (gmem st) (gdt + 8 * n + 2) mod 2 ^ 24)
      in if \<not> env_mapped env gdt 48 then Inl Bad_pointer
         else if len \<noteq> 0 \<and> (\<not> env_mapped env (paddr 2) len \<or> \<not> env_mapped env (paddr 3) len)
         then Inl Bad_pointer
         else Inr (True, CLEAR_CF (regs\<lparr>r_eax := r_eax regs AND 0xffff00ff\<rparr>),
                   st\<lparr>gmem := poke (gmem st) (paddr 3) (peek (gmem st) (paddr 2) len)\<rparr>))"

text \<open>Function E8h: sizes (AL = 01h) and the memory map (AL = 20h).\<close>

definition int15_e801 :: "env \<Rightarrow> inth_regs \<Rightarrow> bios \<Rightarrow> case_result" where
  "int15_e801 env regs st =
     (let memsize = of_nat (env_lowmem env) :: u32;
          regs = regs\<lparr>r_eax := 0x3c00\<rparr>;
          regs = regs\<lparr>r_ecx := (r_ecx regs AND 0xffff0000) OR 0x3c00\<rparr>;
          regs = regs\<lparr>r_ebx := (r_ebx regs AND 0xffff0000) OR ((memsize - 16) * 1024 div 64 AND 0xffff)\<rparr>;
          regs = regs\<lparr>r_edx := (r_edx regs AND 0xffff0000) OR (r_ebx regs AND 0xffff)\<rparr>;
          regs = CLEAR_CF regs;
          st = SETREG st RBX (ucast (r_ebx regs));
          st = SETREG st RCX (ucast (r_ecx regs))
      in Inr (True, regs, SETREG st RDX (ucast (r_edx regs))))"

definition int15_e820 :: "env \<Rightarrow> inth_regs \<Rightarrow> bios \<Rightarrow> case_result" where
  "int15_e820 env regs st =
     (if REG_LOBYTE (r_eax regs) \<noteq> 0x20 \<or> r_edx regs \<noteq> 0x534D4150 \<or> REG_WORD (r_ecx regs) < 20 \<or>
         REG_WORD (r_ebx regs) \<ge> e820_entries st
      then Inr (True, SET_CF (regs\<lparr>r_eax := r_eax regs AND 0xffff0000\<rparr>), st)
      else let gbufaddr = unat (r_es regs) * 16 + REG_WORD (r_edi regs);
               continuation = REG_WORD (r_ebx regs)
           in case e820_tbl st of
                None \<Rightarrow> Inl Bad_pointer
              | Some tbl \<Rightarrow>
                  if \<not> env_mapped env gbufaddr 20 \<or> 20 * continuation + 20 > length tbl then Inl Bad_pointer
                  else let st = st\<lparr>gmem := poke (gmem st) gbufaddr (take 20 (drop (20 * continuation) tbl))\<rparr>;
                           regs = CLEAR_CF regs;
                           regs = regs\<lparr>r_ebx := of_nat ((continuation + 1) mod e820_entries st),
                                        r_eax := 0x534D4150, r_ecx := 20, r_edx := 0\<rparr>;
                           st = SETREG st RBX (ucast (r_ebx regs));
                           st = SETREG st RCX (ucast (r_ecx regs))
                       in Inr (True, regs, SETREG st RDX (ucast (r_edx regs))))"

text \<open>Function 53h: power management.\<close>

definition int15_apm :: "inth_regs \<Rightarrow> inth_regs" where
  "int15_apm regs =
     (let al = REG_LOBYTE (r_eax regs)
      in if al = 0x00 then (SET_CF regs)\<lparr>r_eax := 0x8600 OR (r_eax regs AND 0xFFFF00FF)\<rparr>
         else if al = 0x04 then (SET_CF regs)\<lparr>r_eax := (r_eax regs AND 0xFFFF0000) OR 0x03\<rparr>
         else regs)"

text \<open>Function 86h: wait for CX:DX microseconds.\<close>

definition int15_wait :: "inth_regs \<Rightarrow> bios \<Rightarrow> case_result" where
  "int15_wait regs st =
     (let usecs = unat (push_bit 16 (r_ecx regs) + r_edx regs);
          usecs = (if usecs > 2000000 then 2000000 else usecs)
      in Inr (True, CLEAR_CF (regs\<lparr>r_eax := r_eax regs AND 0xffffff00\<rparr>),
              if usecs > 50000 then st\<lparr>delays := delays st @ [usecs]\<rparr> else st))"

definition int15_switch :: "env \<Rightarrow> inth_regs \<Rightarrow> bios \<Rightarrow> case_result" where
  "int15_switch env regs st =
     (let ah = REG_HIBYTE (r_eax regs)
      in if ah = 0x00
         then let regs = regs\<lparr>r_eax := 0x8600 OR (r_eax regs AND 0xFFFF00FF)\<rparr>
              in eflags_err regs (SETREG st RAX (ucast (r_eax regs)))
         else if ah = 0x24 then int15_a20 regs st
         else if ah = 0x41 then Inr (True, SET_CF regs, st)
         else if ah = 0x53 then Inr (True, int15_apm regs, st)
         else if ah = 0x87 then int15_move env regs st
         else if ah = 0x88 then Inr (True, (CLEAR_CF regs)\<lparr>r_eax := 8 * 1024\<rparr>, st)
         else if ah = 0x8a
         then let extmem = of_nat (env_lowmem env) - 1024 * 1024 :: u32
              in Inr (True, SET_CF (regs\<lparr>r_eax := extmem AND 0xffff,
                                        r_edx := drop_bit 16 extmem AND 0xffff\<rparr>), st)
         else if ah = 0xc0
         then let regs = (CLEAR_CF regs)\<lparr>r_eax := r_eax regs AND 0xff, r_es := 0xF000,
                                         r_ebx := of_nat (mrd 2 (gmem st) vars_config_tbl)\<rparr>;
                  st = SETREG st ES (ucast (r_es regs))
              in Inr (True, regs, SETREG st RBX (ucast (r_ebx regs)))
         else if ah = 0xe8
         then if REG_LOBYTE (r_eax regs) = 0x01 then int15_e801 env regs st else int15_e820 env regs st
         else if ah = 0xec
         then let ok = REG_LOBYTE (r_eax regs) = 0 \<and> REG_LOBYTE (r_ebx regs) \<le> 3
              in Inr (True, (if ok then CLEAR_CF regs else SET_CF regs)
                              \<lparr>r_eax := r_eax regs AND 0xffff00ff\<rparr>, st)
         else if ah = 0x86 then int15_wait regs st
         else Inr (True, SET_CF regs, st))"

definition handle_int15 :: "env \<Rightarrow> inth_regs \<Rightarrow> bios \<Rightarrow> stop + (int \<times> bios)" where
  "handle_int15 env regs st = map_sum id handler_exit (int15_switch env regs st)"

section \<open>The port handler\<close>

text \<open>The registers collected for a BIOS interrupt.\<close>

definition load_regs :: "bios \<Rightarrow> inth_regs" where
  "load_regs st =
     \<lparr>r_eflags = of_nat (mrd 2 (gmem st) vars_flags), r_eax = of_nat (mrd 4 (gmem st) vars_eax),
      r_ecx = ucast (greg st RCX), r_edx = of_nat (mrd 4 (gmem st) vars_edx), r_ebx = ucast (greg st RBX),
      r_esp = ucast (greg st RSP), r_ebp = ucast (greg st RBP), r_esi = ucast (greg st RSI),
      r_edi = ucast (greg st RDI), r_eip = ucast (greg st RIP), r_cs = ucast (greg st CS),
      r_ss = ucast (greg st SS), r_ds = ucast (greg st DS), r_es = ucast (greg st ES)\<rparr>"

definition microbios_bios_inth_handler :: "env \<Rightarrow> bios \<Rightarrow> u32 \<Rightarrow> stop + (int \<times> bios)" where
  "microbios_bios_inth_handler env st eax =
     (let regs = load_regs st;
          st = SETREG st RDX (ucast (r_edx regs));
          st = put 4 st bda_timer_counter (mrd 4 (gmem st) bda_timer_counter + 1);
          vec = drop_bit 16 eax AND 0xffff
      in if vec = 0x13 then handle_int13 env regs st
         else if vec = 0x15 then handle_int15 env regs st
         else Inr (-1, put_flags st (SET_CF regs)))"

text \<open>A write to the port; \<open>inp\<close> is the direction, \<open>eax\<close> the value, and the result is the value left in
  \<^verbatim>\<open>*eax\<close>. The first access maps the BIOS areas; when that fails the pointers are null and
  the handlers fault on them.\<close>

definition microbios_io_handler :: "env \<Rightarrow> bios \<Rightarrow> bool \<Rightarrow> nat \<Rightarrow> u32 \<Rightarrow> stop + (u32 \<times> bios)" where
  "microbios_io_handler env st inp bytes eax =
     (if inp then Inl Assert_failed
      else if \<not> bda_set st \<and> (\<not> env_mapped env BIOS_DATA_AREA sizeof_BDA \<or>
                              \<not> env_mapped env BIOS_VARS_ADDR sizeof_BIOS_VARS \<or>
                              \<not> env_mapped env BIOS_CMDS_ADDR 52)
      then Inl Bad_pointer
      else let st = st\<lparr>bda_set := True\<rparr>
           in if bytes = 4
              then map_sum id (\<lambda>(_, st). (eax, st)) (microbios_bios_inth_handler env st eax)
              else map_sum id (\<lambda>(_, st). (0xff, st)) (microbios_cmd_handler env st))"

section \<open>Exits of INT 13h\<close>

definition disks_ok :: "blockif_ctxt list \<Rightarrow> bool" where
  "disks_ok ds \<longleftrightarrow> length ds \<le> 32 \<and> (\<forall>bc \<in> set ds. 0 < bc_sectsz bc \<and> bc_sectsz bc \<le> 32768)"

text \<open>What every case of the switch keeps: the carry flag says which exit is taken, the other flags are
  those of the caller, and the error exit leaves the state alone.\<close>

definition case_ok :: "inth_regs \<Rightarrow> bios \<Rightarrow> case_result \<Rightarrow> bool" where
  "case_ok regs st res \<longleftrightarrow> (\<forall>b regs' st'. res = Inr (b, regs', st') \<longrightarrow>
     (b \<longleftrightarrow> \<not> bit (r_eflags regs') 0) \<and> (\<forall>i. i \<noteq> 0 \<longrightarrow> bit (r_eflags regs') i = bit (r_eflags regs) i) \<and>
     (\<not> b \<longrightarrow> st' = st))"

lemma flags_SET_CF [simp]:
  "bit (r_eflags (SET_CF regs)) i \<longleftrightarrow> i = 0 \<or> bit (r_eflags regs) i"
  by (auto simp: SET_CF_def bit_or_iff bit_1_iff)

lemma flags_CLEAR_CF [simp]:
  "bit (r_eflags (CLEAR_CF regs)) i \<longleftrightarrow> i \<noteq> 0 \<and> bit (r_eflags regs) i"
  using bit_imp_le_length [of "r_eflags regs" i] by (auto simp: CLEAR_CF_def bit_and_iff bit_not_iff bit_1_iff)

lemma case_ok_err [simp]: "r_eflags regs' = r_eflags regs \<Longrightarrow> case_ok regs st (eflags_err regs' st)"
  by (simp add: case_ok_def eflags_err_def)

lemma case_ok_Inl [simp]: "case_ok regs st (Inl e)"
  by (simp add: case_ok_def)

lemma case_ok_break [simp]:
  "r_eflags regs' = r_eflags (CLEAR_CF regs) \<Longrightarrow> case_ok regs st (Inr (True, regs', st'))"
  by (simp add: case_ok_def)

lemma eflags_CLEAR_CF: "r_eflags (CLEAR_CF regs) = r_eflags regs AND NOT EFLAGS_CF"
  by (simp add: CLEAR_CF_def)

lemma to_int_small: "- (2 ^ 31) \<le> r \<Longrightarrow> r < 2 ^ 31 \<Longrightarrow> to_int r = r"
  by (simp add: to_int_def signed_of_int signed_take_bit_int_eq_self)

lemma read_sync_range:
  assumes "blockif_read_sync bc n lba = (r, bytes)" "n * bc_sectsz bc < 2 ^ 31"
  shows "to_int r = r" "r < 0 \<longleftrightarrow> lba_offset bc lba < 0" "r < 0 \<Longrightarrow> bytes = []"
proof -
  have "-1 \<le> r \<and> r < 2 ^ 31"
    using assms by (auto simp: blockif_read_sync_def Let_def min_def simp del: of_nat_mult split: if_splits)
  then show "to_int r = r" by (intro to_int_small) simp_all
  show "r < 0 \<longleftrightarrow> lba_offset bc lba < 0" "r < 0 \<Longrightarrow> bytes = []"
    using assms(1) by (auto simp: blockif_read_sync_def Let_def split: if_splits)
qed

lemma write_sync_range:
  assumes "blockif_write_sync bc buf lba = (r, bc')" "length buf < 2 ^ 31"
  shows "to_int r = r" "r < 0 \<Longrightarrow> bc' = bc" "r < 0 \<longleftrightarrow> lba_offset bc lba < 0 \<or> bc_rdonly bc"
proof -
  have "-1 \<le> r \<and> r < 2 ^ 31"
    using assms by (auto simp: blockif_write_sync_def Let_def split: if_splits)
  then show "to_int r = r" by (intro to_int_small) simp_all
  show "r < 0 \<Longrightarrow> bc' = bc" "r < 0 \<longleftrightarrow> lba_offset bc lba < 0 \<or> bc_rdonly bc"
    using assms(1) by (auto simp: blockif_write_sync_def Let_def split: if_splits)
qed

lemma transfer_size:
  assumes "disks_ok ds" "i < length ds" "sectors < 65536"
  shows "sectors * bc_sectsz (ds ! i) < 2 ^ 31"
proof -
  have "bc_sectsz (ds ! i) \<le> 32768" using assms(1,2) by (simp add: disks_ok_def)
  then have "sectors * bc_sectsz (ds ! i) \<le> 65535 * 32768" using assms(3) by (intro mult_le_mono) simp_all
  then show ?thesis by simp
qed

lemma case_ok_transfer:
  assumes "disks_ok (mddisks st)" "i < length (mddisks st)" "sectors < 65536"
  shows "case_ok regs st (disk_transfer env is_read regs st i lba addr sectors)"
proof -
  let ?bc = "mddisks st ! i"
  note size = transfer_size [OF assms]
  have "st' = st" if "ahci_md_read env st i lba addr sectors = (r, st')" "r < 0" for r st'
  proof -
    obtain x bytes where x: "blockif_read_sync ?bc sectors lba = (x, bytes)" by fastforce
    show ?thesis using that read_sync_range [OF x size] x by (auto simp: ahci_md_read_def Let_def split: if_splits)
  qed
  moreover have "st' = st" if "ahci_md_write env st i lba addr sectors = (r, st')" "r < 0" for r st'
  proof -
    define buf where "buf = peek (gmem st) addr (sectors * bc_sectsz ?bc)"
    obtain x bc' where x: "blockif_write_sync ?bc buf lba = (x, bc')" by fastforce
    have "length buf < 2 ^ 31" using size by (simp add: buf_def)
    from that write_sync_range [OF x this] x show ?thesis
      by (auto simp: ahci_md_write_def Let_def buf_def [symmetric] split: if_splits)
  qed
  ultimately have io: "st' = st" if "(if is_read then ahci_md_read env st i lba addr sectors
      else ahci_md_write env st i lba addr sectors) = (r, st')" "r < 0" for r st'
    using that by (metis (full_types))
  obtain r st' where x: "(if is_read then ahci_md_read env st i lba addr sectors
      else ahci_md_write env st i lba addr sectors) = (r, st')" by fastforce
  show ?thesis unfolding disk_transfer_def x using io [OF x] by (simp add: eflags_CLEAR_CF)
qed

lemma md_at_Some: "md_at st i = Some bc \<longleftrightarrow> i < length (mddisks st) \<and> bc = mddisks st ! i"
  by (auto simp: md_at_def)

lemma unat_and_127: "unat (x AND 0x7F) = unat x mod 128" for x :: u32
  using unat_and_mask [of x 7] by (simp add: mask_eq_exp_minus_1)

lemma lobyte_mod: "REG_LOBYTE x = unat x mod 256"
  using unat_and_mask [of x 8] by (simp add: REG_LOBYTE_def mask_eq_exp_minus_1)

lemma word_reg_mod: "REG_WORD x = unat x mod 65536"
  using unat_and_mask [of x 16] by (simp add: REG_WORD_def mask_eq_exp_minus_1)

lemma lobyte_less: "REG_LOBYTE x < 256"
  by (simp add: lobyte_mod)

lemma word_reg_less: "REG_WORD x < 65536"
  by (simp add: word_reg_mod)

lemma case_ok_chs_io:
  "disks_ok (mddisks st) \<Longrightarrow> case_ok regs st (int13_chs_io env is_read regs st)"
  using lobyte_less [of "r_eax regs"]
  by (auto simp: int13_chs_io_def Let_def md_at_Some split: option.split intro!: case_ok_transfer)

lemma case_ok_ext_io:
  "disks_ok (mddisks st) \<Longrightarrow> case_ok regs st (int13_ext_io env is_read regs st)"
  using mrd_less [of 2 "gmem st"]
  by (auto simp: int13_ext_io_def Let_def intro!: case_ok_transfer)

lemma case_ok_params: "case_ok regs st (int13_params env regs st)"
  by (auto simp: int13_params_def int13_ext_params_def Let_def eflags_CLEAR_CF split: option.split prod.split)

lemma case_ok_disk_type: "case_ok regs st (int13_disk_type regs st)"
  by (simp add: int13_disk_type_def Let_def eflags_CLEAR_CF)

lemma case_ok_extensions: "case_ok regs st (int13_extensions regs st)"
  by (simp add: int13_extensions_def Let_def eflags_CLEAR_CF)

lemma case_ok_switch:
  assumes "disks_ok (mddisks st)"
  shows "case_ok regs st (int13_switch env regs st)"
  unfolding int13_switch_def Let_def
  using case_ok_chs_io [OF assms] case_ok_ext_io [OF assms] case_ok_params case_ok_disk_type case_ok_extensions
  by (simp add: eflags_CLEAR_CF)

lemma greg_put [simp]: "greg (put n st a v) = greg st" "mddisks (put n st a v) = mddisks st"
    "gmem (put n st a v) = mwr n (gmem st) a v"
  by (simp_all add: put_def)

lemma greg_SETREG [simp]: "gmem (SETREG st r v) = gmem st" "mddisks (SETREG st r v) = mddisks st"
    "greg (SETREG st r v) = (greg st)(r := v)"
  by (simp_all add: SETREG_def)

definition saved_flags :: "bios \<Rightarrow> u16" where
  "saved_flags st = of_nat (mrd 2 (gmem st) vars_flags)"

lemma saved_flags_put [simp]: "saved_flags (put_flags st regs) = r_eflags regs"
proof -
  have "unat (r_eflags regs) < 65536" using unat_less_pow [of "r_eflags regs"] by simp
  then show ?thesis by (simp add: saved_flags_def put_flags_def mrd_mwr_same)
qed

lemma put_flags_frame [simp]: "greg (put_flags st regs) = greg st" "mddisks (put_flags st regs) = mddisks st"
    "gmem (put_flags st regs) = mwr 2 (gmem st) vars_flags (unat (r_eflags regs))"
  by (simp_all add: put_flags_def)

text \<open>The exits of INT 13h: the carry flag saved for the guest is clear when the service returns 0 and
  set when it returns \<open>-1\<close>, every other flag is the caller's, and a failed service changes no guest
  register, no disk and no byte of memory but the saved flags.\<close>

theorem int13_protocol:
  assumes "disks_ok (mddisks st)" "handle_int13 env regs st = Inr (r, st')"
  shows "(r = 0 \<longleftrightarrow> \<not> bit (saved_flags st') 0) \<and> (r = 0 \<or> r = -1) \<and>
    (\<forall>i. i \<noteq> 0 \<longrightarrow> bit (saved_flags st') i = bit (r_eflags regs) i) \<and>
    (r = -1 \<longrightarrow> greg st' = greg st \<and> mddisks st' = mddisks st \<and>
       (\<forall>a. a \<noteq> vars_flags \<and> a \<noteq> vars_flags + 1 \<longrightarrow> gmem st' a = gmem st a))"
proof -
  from assms(2) obtain b regs1 st1 where s: "int13_switch env regs st = Inr (b, regs1, st1)"
      and e: "(r, st') = handler_exit (b, regs1, st1)"
    by (cases "int13_switch env regs st") (auto simp: handle_int13_def)
  have ok: "(b \<longleftrightarrow> \<not> bit (r_eflags regs1) 0) \<and> (\<not> b \<longrightarrow> st1 = st) \<and>
      (\<forall>i. i \<noteq> 0 \<longrightarrow> bit (r_eflags regs1) i = bit (r_eflags regs) i)"
    using case_ok_switch [OF assms(1), of regs env] s unfolding case_ok_def by blast
  show ?thesis
  proof (cases b)
    case True
    then show ?thesis using e ok by (auto simp: handler_exit_def)
  next
    case False
    then have "st1 = st" using ok by auto
    moreover have "mwr 2 m vars_flags v a = m a" if "a \<noteq> vars_flags \<and> a \<noteq> vars_flags + 1" for m v a
      using that by (intro mwr_other) auto
    ultimately show ?thesis using False e ok by (simp add: handler_exit_def)
  qed
qed

text \<open>A machine with 2 MB of memory and one disk of four sectors, and registers for one call.\<close>

definition env_demo :: env where
  "env_demo = \<lparr>env_mapped = (\<lambda>a n. a + n \<le> 0x200000), env_lowmem = 0x200000, env_errno = 5\<rparr>"

definition bios_demo :: bios where
  "bios_demo = \<lparr>greg = (\<lambda>_. 0), gmem = (\<lambda>_. 0),
     mddisks = [\<lparr>bc_rdonly = False, bc_size = 2048, bc_sectsz = 512, bc_file = replicate 2048 0\<rparr>],
     bda_set = True, e820_entries = 0, e820_tbl = None, a20_mode = 1,
     vga = \<lparr>gc_width = 640, gc_height = 400, gc_bpp = 4, vga_mode = 3\<rparr>, delays = []\<rparr>"

definition regs_demo :: "u32 \<Rightarrow> u32 \<Rightarrow> u32 \<Rightarrow> u32 \<Rightarrow> u16 \<Rightarrow> inth_regs" where
  "regs_demo eax ebx ecx edx seg = \<lparr>r_eflags = 2, r_eax = eax, r_ecx = ecx, r_edx = edx, r_ebx = ebx, r_esp = 0,
     r_ebp = 0, r_esi = 0, r_edi = 0, r_eip = 0, r_cs = 0, r_ss = 0, r_ds = seg, r_es = seg\<rparr>"

lemma disks_ok_demo: "disks_ok (mddisks bios_demo)"
  by (simp add: disks_ok_def bios_demo_def)

theorem int13_protocol_witness:
  "\<exists>st'. handle_int13 env_demo (regs_demo 0x9900 0 0 0x80 0) bios_demo = Inr (-1, st') \<and> bit (saved_flags st') 0 \<and>
     bit (saved_flags st') 1 \<and> greg st' = greg bios_demo"
proof -
  let ?regs = "regs_demo 0x9900 0 0 0x80 0"
  obtain st' where h: "handle_int13 env_demo ?regs bios_demo = Inr (-1, st')"
    by (simp add: handle_int13_def int13_switch_def REG_HIBYTE_def regs_demo_def eflags_err_def handler_exit_def)
  have "bit (r_eflags ?regs) 1" by (simp add: regs_demo_def)
  with int13_protocol [OF disks_ok_demo h] h show ?thesis by auto
qed

text \<open>C27. When INT 13h brings the monitor down: exactly when read, write or parameters (functions 02h, 03h,
  08h and 48h) name a drive number of 80h or more that no disk is registered for. These functions do not
  compare the number with the count of disks as the extended transfers do; nothing else can fault.\<close>

theorem int13_faults:
  "handle_int13 env regs st = Inl e \<longleftrightarrow>
     e = Bad_pointer \<and> REG_HIBYTE (r_eax regs) \<in> {0x02, 0x03, 0x08, 0x48} \<and>
     0x80 \<le> REG_LOBYTE (r_edx regs) \<and> length (mddisks st) \<le> REG_LOBYTE (r_edx regs) mod 128"
proof -
  have transfer: "disk_transfer env rd regs st i lba addr n \<noteq> Inl e" for rd i lba addr n
    by (simp add: disk_transfer_def eflags_err_def split: prod.split)
  have "handle_int13 env regs st = Inl e \<longleftrightarrow> int13_switch env regs st = Inl e"
    by (cases "int13_switch env regs st") (simp_all add: handle_int13_def)
  moreover have chs: "int13_chs_io env rd regs st = Inl e \<longleftrightarrow> e = Bad_pointer \<and>
      0x80 \<le> REG_LOBYTE (r_edx regs) \<and> length (mddisks st) \<le> REG_LOBYTE (r_edx regs) mod 128" for rd
    using transfer by (auto simp: int13_chs_io_def Let_def md_at_def eflags_err_def)
  moreover have "int13_ext_io env rd regs st \<noteq> Inl e" for rd
    using transfer by (simp add: int13_ext_io_def Let_def eflags_err_def)
  moreover have "int13_disk_type regs st \<noteq> Inl e" "int13_extensions regs st \<noteq> Inl e" "eflags_err regs st \<noteq> Inl e"
    by (simp_all add: int13_disk_type_def int13_extensions_def Let_def eflags_err_def)
  moreover have "int13_params env regs st = Inl e \<longleftrightarrow> e = Bad_pointer \<and>
      0x80 \<le> REG_LOBYTE (r_edx regs) \<and> length (mddisks st) \<le> REG_LOBYTE (r_edx regs) mod 128"
  proof -
    have "REG_LOBYTE (r_edx regs AND 0x7F) = REG_LOBYTE (r_edx regs) mod 128"
      by (simp add: lobyte_mod unat_and_127 mod_mod_cancel)
    then show ?thesis
      by (auto simp: int13_params_def int13_ext_params_def Let_def md_at_def eflags_err_def split: prod.split)
  qed
  ultimately show ?thesis unfolding int13_switch_def Let_def by auto
qed

section \<open>Transfers\<close>

lemma transfer_write:
  assumes "disks_ok (mddisks st)" "i < length (mddisks st)" "n < 65536"
    and "env_mapped env addr (n * bc_sectsz (mddisks st ! i))"
    and "\<not> bc_rdonly (mddisks st ! i)" "0 \<le> lba_offset (mddisks st ! i) lba"
  obtains bc' where
    "blockif_write_sync (mddisks st ! i) (peek (gmem st) addr (n * bc_sectsz (mddisks st ! i))) lba =
       (int (n * bc_sectsz (mddisks st ! i)), bc')"
    "disk_transfer env False regs st i lba addr n =
       Inr (True, CLEAR_CF (regs\<lparr>r_eax := r_eax regs AND 0xFFFF00FF\<rparr>), st\<lparr>mddisks := (mddisks st)[i := bc']\<rparr>)"
proof -
  define buf where "buf = peek (gmem st) addr (n * bc_sectsz (mddisks st ! i))"
  have len: "length buf = n * bc_sectsz (mddisks st ! i)" by (simp add: buf_def)
  obtain bc' where w: "blockif_write_sync (mddisks st ! i) buf lba = (int (length buf), bc')"
    using assms(5,6) by (simp add: blockif_write_sync_def Let_def)
  have "length buf < 2 ^ 31" unfolding len by (rule transfer_size [OF assms(1-3)])
  from write_sync_range(1) [OF w this] w show thesis using assms(4)
    by (intro that [of bc'])
       (simp_all add: len disk_transfer_def ahci_md_write_def Let_def buf_def [symmetric] del: of_nat_mult)
qed

lemma transfer_read:
  assumes "disks_ok (mddisks st)" "i < length (mddisks st)" "n < 65536"
    and "env_mapped env addr (n * bc_sectsz (mddisks st ! i))"
    and "blockif_read_sync (mddisks st ! i) n lba = (q, bytes)" "0 \<le> q"
  shows "disk_transfer env True regs st i lba addr n =
    Inr (True, CLEAR_CF (regs\<lparr>r_eax := r_eax regs AND 0xFFFF00FF\<rparr>), st\<lparr>gmem := poke (gmem st) addr bytes\<rparr>)"
  using read_sync_range(1) [OF assms(5) transfer_size [OF assms(1-3)]] assms(4-6)
  by (simp add: disk_transfer_def ahci_md_read_def Let_def)

text \<open>An extended transfer request in registers and packet: function, disk, block number, block count and
  buffer, all within the disks and the memory there are.\<close>

definition edd_request :: "env \<Rightarrow> inth_regs \<Rightarrow> bios \<Rightarrow> nat \<Rightarrow> nat \<Rightarrow> u64 \<Rightarrow> nat \<Rightarrow> nat \<Rightarrow> bool" where
  "edd_request env regs st ah i lba n addr \<longleftrightarrow>
     (let dp = unat (r_ds regs) * 16 + REG_WORD (r_esi regs)
      in REG_HIBYTE (r_eax regs) = ah \<and> REG_LOBYTE (r_edx regs) = 0x80 + i \<and> i < length (mddisks st) \<and>
         env_mapped env dp sizeof_edd_drive_packet \<and> packet_lba (gmem st) dp = lba \<and>
         mrd 2 (gmem st) (dp + 2) = n \<and> packet_addr (gmem st) dp = addr \<and>
         env_mapped env addr (n * bc_sectsz (mddisks st ! i)))"

lemma edd_request_io:
  assumes "edd_request env regs st (if rd then 0x42 else 0x43) i lba n addr" "disks_ok (mddisks st)"
  shows "int13_switch env regs st = disk_transfer env rd regs st i lba addr n" "n < 65536" "i < length (mddisks st)"
    "env_mapped env addr (n * bc_sectsz (mddisks st ! i))"
proof -
  note r = assms(1) [unfolded edd_request_def Let_def]
  show i: "i < length (mddisks st)" "env_mapped env addr (n * bc_sectsz (mddisks st ! i))" "n < 65536"
    using r mrd_less [of 2 "gmem st" "unat (r_ds regs) * 16 + REG_WORD (r_esi regs) + 2"] by auto
  have "(0x80 + i) mod 128 = i" using i(1) assms(2) by (simp add: disks_ok_def)
  then show "int13_switch env regs st = disk_transfer env rd regs st i lba addr n"
    using r i(1) by (cases rd) (simp_all add: int13_switch_def int13_ext_io_def Let_def)
qed

lemma edd_write:
  assumes "disks_ok (mddisks st)" "edd_request env regs st 0x43 i lba n addr"
    "\<not> bc_rdonly (mddisks st ! i)" "0 \<le> lba_offset (mddisks st ! i) lba"
  obtains bc' st1 where
    "blockif_write_sync (mddisks st ! i) (peek (gmem st) addr (n * bc_sectsz (mddisks st ! i))) lba =
       (int (n * bc_sectsz (mddisks st ! i)), bc')"
    "handle_int13 env regs st = Inr (0, st1)" "mddisks st1 = (mddisks st)[i := bc']" "i < length (mddisks st)"
    "bc_sectsz bc' = bc_sectsz (mddisks st ! i)"
proof -
  note q = edd_request_io [where rd = False, simplified, OF assms(2,1)]
  from transfer_write [OF assms(1) q(3,2,4) assms(3,4)]
  obtain bc' where w: "blockif_write_sync (mddisks st ! i) (peek (gmem st) addr (n * bc_sectsz (mddisks st ! i))) lba =
       (int (n * bc_sectsz (mddisks st ! i)), bc')"
    and t: "disk_transfer env False regs st i lba addr n = Inr (True, CLEAR_CF (regs\<lparr>r_eax := r_eax regs AND
      0xFFFF00FF\<rparr>), st\<lparr>mddisks := (mddisks st)[i := bc']\<rparr>)" by metis
  show thesis
    by (rule that [OF w _ _ q(3) bdev.wr_sectsz [OF w]]) (simp add: handle_int13_def q(1) t handler_exit_def, simp)
qed


text \<open>A packet at 0x1000: one block, number 1, buffer at 2000:0000, and the buffer filled with one byte.\<close>

definition edd_demo :: "u8 \<Rightarrow> gmem" where
  "edd_demo b a = (if a = 0x1000 then 16 else if a = 0x1002 then 1 else if a = 0x1007 then 0x20
     else if a = 0x1008 then 1 else if 0x20000 \<le> a \<and> a < 0x20200 then b else 0)"

lemma edd_demo_request:
  assumes "gmem st = edd_demo b" "length (mddisks st) = 1" "bc_sectsz (mddisks st ! 0) = 512" "ah \<in> {0x42, 0x43}"
  shows "edd_request env_demo (regs_demo (of_nat (256 * ah)) 0 0 0x80 0x100) st ah 0 1 1 0x20000"
proof -
  have "REG_HIBYTE (of_nat (256 * ah)) = ah" using assms(4) by (auto simp: REG_HIBYTE_def)
  moreover have "packet_lba (edd_demo b) 0x1000 = 1"
    by (simp add: packet_lba_def mrd_def peek_def edd_demo_def)
  moreover have "mrd 2 (edd_demo b) 0x1002 = 1" "packet_addr (edd_demo b) 0x1000 = 0x20000"
    by (simp_all add: packet_addr_def mrd_def peek_def edd_demo_def)
  ultimately show ?thesis using assms(1-3)
    by (simp add: edd_request_def regs_demo_def REG_LOBYTE_def REG_WORD_def env_demo_def)
qed


section \<open>Geometry\<close>

definition ch_cylinder :: "inth_regs \<Rightarrow> nat" where
  "ch_cylinder regs = unat (r_ecx regs) div 256 mod 256 + 256 * (unat (r_ecx regs) mod 256 div 64)"

definition cl_sector :: "inth_regs \<Rightarrow> nat" where
  "cl_sector regs = unat (r_ecx regs) mod 64"

definition dh_head :: "inth_regs \<Rightarrow> nat" where
  "dh_head regs = unat (r_edx regs) div 256 mod 64"

lemma unat_and_0xff: "unat (x AND 0xff) = unat x mod 256" for x :: u32
  using unat_and_mask [of x 8] by (simp add: mask_eq_exp_minus_1)

lemma unat_and_0x3f: "unat (x AND 0x3F) = unat x mod 64" for x :: u32
  using unat_and_mask [of x 6] by (simp add: mask_eq_exp_minus_1)

lemma high_cylinder_bits:
  fixes y :: u32
  assumes "y = take_bit 8 y"
  shows "push_bit 2 (y AND 0xC0) = push_bit 8 (drop_bit 6 y)"
proof -
  have y: "bit y k \<Longrightarrow> k < 8" for k by (metis assms bit_take_bit_iff)
  have c: "(0xC0 :: u32) = push_bit 6 (mask 2)" by (simp add: mask_eq_exp_minus_1)
  have "push_bit 2 (y AND push_bit 6 (mask 2)) = push_bit 8 (drop_bit 6 y)"
  proof (rule bit_word_eqI)
    fix n assume "n < LENGTH(32)"
    have e: "8 \<le> n \<Longrightarrow> 6 + (n - 8) = n - 2" by simp
    show "bit (push_bit 2 (y AND push_bit 6 (mask 2))) n = bit (push_bit 8 (drop_bit 6 y)) n"
      using y [of "n - 2"] \<open>n < LENGTH(32)\<close>
      by (auto simp: bit_push_bit_iff bit_drop_bit_eq bit_and_iff bit_mask_iff e simp del: push_bit_mask_eq)
  qed
  then show ?thesis by (simp only: c)
qed

lemma chs_decode:
  fixes regs :: inth_regs
  defines "ecx \<equiv> r_ecx regs" and "edx \<equiv> r_edx regs"
  shows "unat ((drop_bit 8 ecx AND 0xff) OR push_bit 2 ((ecx AND 0xff) AND 0xC0)) = ch_cylinder regs"
    "unat ((ecx AND 0xff) AND 0x3F) = cl_sector regs" "unat ((drop_bit 8 edx AND 0xff) AND 0x3F) = dh_head regs"
proof -
  let ?a = "drop_bit 8 ecx AND 0xff" and ?y = "ecx AND 0xff" 
  have m: "(0xff :: u32) = mask 8" by (simp add: mask_eq_exp_minus_1)
  have yt: "?y = take_bit 8 ?y" unfolding m take_bit_eq_mask [symmetric] by simp
  have a8: "bit ?a k \<Longrightarrow> k < 8" for k unfolding m by (simp add: bit_and_iff bit_mask_iff)
  have disj: "a OR push_bit 8 z = a + push_bit 8 z" if "\<And>k. bit a k \<Longrightarrow> k < 8" for a z :: u32
    by (rule disjunctive_add [symmetric]) (auto simp: bit_push_bit_iff dest: that)
  have ua: "unat ?a = unat ecx div 256 mod 256"
    by (simp only: unat_and_0xff unat_drop_bit_eq) (simp add: drop_bit_eq_div)
  have uy: "unat (drop_bit 6 ?y) = unat ecx mod 256 div 64"
    by (simp only: unat_and_0xff unat_drop_bit_eq) (simp add: drop_bit_eq_div)
  have push: "unat (push_bit 8 z) = 256 * unat z" if "unat z < 4" for z :: u32
    using that by (simp add: push_bit_eq_mult unat_word_ariths)
  from uy have "unat (drop_bit 6 ?y) < 4" using less_mult_imp_div_less [of "unat ecx mod 256" 4 64] by simp
  then have ub: "unat (push_bit 8 (drop_bit 6 ?y)) = 256 * (unat ecx mod 256 div 64)"
    unfolding uy [symmetric] by (rule push)
  have "unat ecx div 256 mod 256 < 256" by simp
  with \<open>unat (drop_bit 6 ?y) < 4\<close>
  have bound: "unat ecx div 256 mod 256 + 256 * (unat ecx mod 256 div 64) < 4294967296" unfolding uy by linarith
  have "?a OR push_bit 8 (drop_bit 6 ?y) = ?a + push_bit 8 (drop_bit 6 ?y)"
    by (rule disj) (rule a8)
  then show "unat (?a OR push_bit 2 (?y AND 0xC0)) = ch_cylinder regs"
    unfolding high_cylinder_bits [OF yt] 
    using ua ub bound by (simp add: unat_word_ariths ch_cylinder_def ecx_def)
  show "unat ((ecx AND 0xff) AND 0x3F) = cl_sector regs"
    by (simp only: unat_and_0x3f unat_and_0xff cl_sector_def ecx_def) (simp add: mod_mod_cancel)
  show "unat ((drop_bit 8 edx AND 0xff) AND 0x3F) = dh_head regs"
    by (simp only: unat_and_0x3f unat_and_0xff dh_head_def edx_def unat_drop_bit_eq) (simp add: mod_mod_cancel drop_bit_eq_div)
qed

lemma small_chs_bounds:
  "small_chs n = (secpt, heads, hcyl) \<Longrightarrow>
     2 \<le> heads \<and> heads \<le> 32 \<and> secpt \<in> {17, 31, 63} \<and> hcyl = n div secpt"
  by (auto simp: small_chs_def Let_def split: if_splits)

lemma chs_cover: "n \<le> N \<Longrightarrow> unat (of_nat (n div s div h) :: u16) * h * s \<le> N"
proof -
  assume "n \<le> N"
  have "unat (of_nat (n div s div h) :: u16) \<le> n div s div h"
    by (simp add: unsigned_of_nat take_bit_eq_mod)
  then have "unat (of_nat (n div s div h) :: u16) * h * s \<le> n div s div h * h * s" by simp
  also have "\<dots> \<le> n div s * s" by (intro mult_le_mono1) simp
  also have "\<dots> \<le> n" by simp
  finally show ?thesis using \<open>n \<le> N\<close> by simp
qed

lemma blockif_chs_bounds:
  assumes "blockif_chs bc = (c, h, s)"
  shows "2 \<le> unat h \<and> unat h \<le> 32" "unat s \<in> {17, 18, 31, 63}"
    "unat c * unat h * unat s \<le> bc_size bc div bc_sectsz bc"
proof -
  define N where "N = bc_size bc div bc_sectsz bc"
  obtain n secpt heads hcyl where n: "n \<le> N" "hcyl = n div secpt" "2 \<le> heads \<and> heads \<le> 32" "secpt \<in> {17, 18, 31, 63}"
    and e: "(c, h, s) = (of_nat (hcyl div heads), of_nat heads, of_nat secpt)"
  proof -
    define n where "n = (if N > 65535 * 16 * 255 then 65535 * 16 * 255 else N)"
    have b: "blockif_chs bc = (let (secpt, heads, hcyl) =
        (if bc_size bc \<le> 2880 * 512 then (18, 2, N div 18)
         else if n \<ge> 65536 * 16 * 63 then (63, 32, n div 63) else small_chs n)
        in (of_nat (hcyl div heads), of_nat heads, of_nat secpt))"
      unfolding blockif_chs_def N_def n_def Let_def by (rule refl)
    have nN: "n \<le> N" by (simp add: n_def)
    obtain sp hd cy where sm: "small_chs n = (sp, hd, cy)" by (cases "small_chs n") auto
    consider "bc_size bc \<le> 2880 * 512" | "\<not> bc_size bc \<le> 2880 * 512" "65536 * 16 * 63 \<le> n"
      | "\<not> bc_size bc \<le> 2880 * 512" "\<not> 65536 * 16 * 63 \<le> n" by blast
    then show thesis
    proof cases
      case 1
      then show thesis using assms by (intro that [of N "N div 18" 18 2]) (simp_all add: b)
    next
      case 2
      then show thesis using assms nN by (intro that [of n "n div 63" 63 32]) (simp_all add: b)
    next
      case 3
      then show thesis using assms small_chs_bounds [OF sm] nN
        by (intro that [of n cy sp hd]) (auto simp: b sm)
    qed
  qed
  have u: "unat h = heads" "unat s = secpt" using e n(3,4) by (auto simp: unsigned_of_nat take_bit_nat_eq_self)
  show "2 \<le> unat h \<and> unat h \<le> 32" "unat s \<in> {17, 18, 31, 63}" using u n by auto
  show "unat c * unat h * unat s \<le> bc_size bc div bc_sectsz bc"
    using chs_cover [OF n(1), of secpt heads] e n(2) unfolding u N_def by simp
qed

lemma mixed_radix:
  fixes c h s H S :: nat
  assumes "h < H" "1 \<le> s" "s \<le> S" "h' < H" "1 \<le> s'" "s' \<le> S" "(c * H + h) * S + (s - 1) = (c' * H + h') * S + (s' - 1)"
  shows "c = c' \<and> h = h' \<and> s = s'"
proof -
  have split: "(q * B + t) div B = q" "(q * B + t) mod B = t" if "t < B" for q t B :: nat using that by simp_all
  from assms have "s - 1 < S" "s' - 1 < S" by simp_all
  with assms(7) split have "c * H + h = c' * H + h'" "s - 1 = s' - 1" by metis+
  moreover from this(1) assms(1,4) split have "c = c'" "h = h'" by metis+
  ultimately show ?thesis using assms by simp
qed

text \<open>Addressing by cylinder, head and sector: when functions 02h and 03h name a sector inside the
  geometry that the disk reports, the transfer is made at block (cylinder * heads + head) * sectors +
  sector - 1, computed without wrap-around; that block is on the disk, and no other cylinder, head and sector
  of the geometry has it.\<close>

theorem int13_chs_addressing:
  assumes dl: "REG_LOBYTE (r_edx regs) = 0x80 + i" "i < length (mddisks st)" "length (mddisks st) \<le> 32"
    and chs: "blockif_chs (mddisks st ! i) = (c, h, s)"
    and geo: "ch_cylinder regs < unat c" "dh_head regs < unat h" "1 \<le> cl_sector regs" "cl_sector regs \<le> unat s"
  defines "blk \<equiv> (ch_cylinder regs * unat h + dh_head regs) * unat s + (cl_sector regs - 1)"
  shows "int13_chs_io env is_read regs st = disk_transfer env is_read regs st i (of_nat blk)
      (unat (r_es regs) * 16 + REG_WORD (r_ebx regs)) (REG_LOBYTE (r_eax regs)) \<and>
    blk < bc_size (mddisks st ! i) div bc_sectsz (mddisks st ! i) \<and>
    (\<forall>c' h' s'. h' < unat h \<and> 1 \<le> s' \<and> s' \<le> unat s \<and> (c' * unat h + h') * unat s + (s' - 1) = blk \<longrightarrow>
       c' = ch_cylinder regs \<and> h' = dh_head regs \<and> s' = cl_sector regs)"
proof -
  note b = blockif_chs_bounds [OF chs]
  have cyl: "ch_cylinder regs < 1024" unfolding ch_cylinder_def
    using less_mult_imp_div_less [of "unat (r_ecx regs) mod 256" 4 64] by simp
  have "blk < unat c * unat h * unat s"
  proof -
    have "ch_cylinder regs * unat h + dh_head regs + 1 \<le> unat c * unat h"
      using geo(1,2) mult_le_mono1 [of "ch_cylinder regs + 1" "unat c" "unat h"] by simp
    then have "(ch_cylinder regs * unat h + dh_head regs + 1) * unat s \<le> unat c * unat h * unat s" by (rule mult_le_mono1)
    then show ?thesis using geo(3,4) by (simp add: blk_def)
  qed
  moreover have "blk < 2 ^ 32"
  proof -
    have "unat c * unat h * unat s \<le> 65535 * 32 * 63" 
      using b unat_less_pow [of c] by (intro mult_le_mono) auto
    then show ?thesis using \<open>blk < unat c * unat h * unat s\<close> by simp
  qed
  have widen: "ucast (of_nat k :: u32) = (of_nat k :: u64)" if "k < 2 ^ 32" for k
    using that by (simp add: word_unat_eq_iff unsigned_of_nat unsigned_ucast_eq take_bit_nat_eq_self)
  have "chs_lba (c, h, s) cw hw sw = of_nat ((unat cw * unat h + unat hw) * unat s + (unat sw - 1))"
    if "1 \<le> unat sw" "(unat cw * unat h + unat hw) * unat s + (unat sw - 1) < 2 ^ 32" for cw hw sw :: u32
  proof -
    have "(cw * ucast h + hw) * ucast s + sw - 1 = (of_nat ((unat cw * unat h + unat hw) * unat s + (unat sw - 1)) :: u32)"
      using that(1) by (simp add: of_nat_diff)
    then show ?thesis using widen [OF that(2)] by (simp only: chs_lba_def prod.case)
  qed
  note lba = this
  have "chs_lba (c, h, s) ((drop_bit 8 (r_ecx regs) AND 0xff) OR push_bit 2 ((r_ecx regs AND 0xff) AND 0xC0))
      ((drop_bit 8 (r_edx regs) AND 0xff) AND 0x3F) ((r_ecx regs AND 0xff) AND 0x3F) = of_nat blk"
    unfolding blk_def chs_decode [symmetric]
    by (rule lba) (use geo(3) \<open>blk < 2 ^ 32\<close> in \<open>simp_all only: chs_decode blk_def\<close>)
  moreover have "(128 + i) mod 128 = i" using dl(2,3) by simp
  ultimately have "int13_chs_io env is_read regs st = disk_transfer env is_read regs st i (of_nat blk)
      (unat (r_es regs) * 16 + REG_WORD (r_ebx regs)) (REG_LOBYTE (r_eax regs))"
    using dl unfolding int13_chs_io_def Let_def chs [symmetric] by (simp add: md_at_def)
  moreover have "blk < bc_size (mddisks st ! i) div bc_sectsz (mddisks st ! i)"
    using \<open>blk < unat c * unat h * unat s\<close> b(3) by simp
  ultimately show ?thesis using mixed_radix [OF _ _ _ geo(2-4)] unfolding blk_def by blast
qed

definition floppy_demo :: bios where
  "floppy_demo = bios_demo\<lparr>mddisks :=
     [\<lparr>bc_rdonly = False, bc_size = 1474560, bc_sectsz = 512, bc_file = replicate 1474560 0\<rparr>]\<rparr>"

theorem int13_chs_addressing_witness:
  "int13_chs_io env_demo True (regs_demo 0x0201 0 0x0102 0x0180 0x2000) floppy_demo =
     disk_transfer env_demo True (regs_demo 0x0201 0 0x0102 0x0180 0x2000) floppy_demo 0 55 0x20000 1"
proof -
  let ?r = "regs_demo 0x0201 0 0x0102 0x0180 0x2000"
  have d: "REG_LOBYTE (r_edx ?r) = 0x80 + 0" "0 < length (mddisks floppy_demo)" "length (mddisks floppy_demo) \<le> 32"
    by (simp_all add: regs_demo_def REG_LOBYTE_def floppy_demo_def)
  have c: "blockif_chs (mddisks floppy_demo ! 0) = (80, 2, 18)"
    by (simp add: floppy_demo_def blockif_chs_def)
  have g: "ch_cylinder ?r = 1" "dh_head ?r = 1" "cl_sector ?r = 2"
    by (simp_all add: regs_demo_def ch_cylinder_def dh_head_def cl_sector_def)
  have "REG_WORD (r_ebx ?r) = 0" "REG_LOBYTE (r_eax ?r) = 1" "unat (r_es ?r) * 16 = 0x20000"
    by (simp_all add: regs_demo_def REG_WORD_def REG_LOBYTE_def)
  then show ?thesis using int13_chs_addressing [OF d c, of env_demo True] unfolding g by simp
qed

section \<open>The memory map\<close>

text \<open>The map as base, size and type, and the two ways it is read back: the whole table, and one entry from
  the guest's buffer.\<close>

definition e820_map :: "nat \<Rightarrow> (nat \<times> nat \<times> nat) list" where
  "e820_map mem = [(0, 0x500, 2), (0x500, 0xa0000 - 0x500, 1), (0xa0000, 0x100000 - 0xa0000, 2),
     (0x100000, mem - 0x100000, 1)]"

definition e820_at :: "gmem \<Rightarrow> nat \<Rightarrow> nat \<times> nat \<times> nat" where
  "e820_at m a = (mrd 8 m a, mrd 8 m (a + 8), mrd 4 m (a + 16))"

definition e820_table :: "u32 \<Rightarrow> u8 list" where
  "e820_table memsize = concat (map (\<lambda>w. le_bytes 4 (unat w)) (e820_words memsize))"

lemma length_e820_table: "length (e820_table m) = 80"
  by (simp add: e820_table_def e820_words_def)

lemma e820_entry:
  assumes "k < 4" "0x100000 \<le> mem" "mem < 2 ^ 32"
  shows "e820_at (poke m a (take 20 (drop (20 * k) (e820_table (of_nat mem))))) a = e820_map mem ! k"
proof -
  let ?f = "\<lambda>w :: u32. le_bytes 4 (unat w)"
  have mem: "unat (of_nat mem - 0x100000 :: u32) = mem - 0x100000"
  proof -
    have "of_nat mem - 0x100000 = (of_nat (mem - 0x100000) :: u32)" using assms(2) by (simp add: of_nat_diff)
    then show ?thesis using assms(3) by (simp add: unsigned_of_nat take_bit_nat_eq_self)
  qed
  obtain a0 s0 t0 where e: "take 5 (drop (5 * k) (e820_words (of_nat mem))) = [a0, 0, s0, 0, t0]"
    and v: "e820_map mem ! k = (unat a0, unat s0, unat t0)"
  proof -
    consider "k = 0" | "k = 1" | "k = 2" | "k = 3" using assms(1) by linarith
    then show thesis using that mem by cases (simp_all add: e820_words_def e820_map_def)
  qed
  define bs where "bs = le_bytes 4 (unat a0) @ le_bytes 4 0 @ le_bytes 4 (unat s0) @ le_bytes 4 0 @ le_bytes 4 (unat t0)"
  have "take 20 (drop (20 * k) (e820_table (of_nat mem))) = concat (map ?f (take 5 (drop (5 * k) (e820_words (of_nat mem)))))"
    using take_concat_width [of ?f 4 5] drop_concat_width [of ?f 4 "5 * k"] by (simp add: e820_table_def)
  then have bs: "take 20 (drop (20 * k) (e820_table (of_nat mem))) = bs" unfolding e bs_def by simp
  have l: "length bs = 20" by (simp add: bs_def)
  have "take 8 bs = le_bytes 4 (unat a0) @ le_bytes 4 0" "take 8 (drop 8 bs) = le_bytes 4 (unat s0) @ le_bytes 4 0"
    "take 4 (drop 16 bs) = le_bytes 4 (unat t0)" by (simp_all add: bs_def)
  moreover have "unat w mod 4294967296 = unat w" for w :: u32 using unat_u32_less [of w] by simp
  ultimately show ?thesis unfolding bs v e820_at_def using l
    by (simp add: mrd_peek_poke le_val_append le_val_le_bytes)
qed

lemma setup_table:
  assumes "microbios_setup_shared env st = Inr st1" "e820_tbl st = None"
  shows "e820_tbl st1 = Some (e820_table (of_nat (env_lowmem env)))" "e820_entries st1 = 4"
proof -
  let ?t = "e820_table (of_nat (env_lowmem env))"
  have "peek (poke m a ?t) a 80 = ?t" for m a using poke_same [of m a ?t] by (simp only: length_e820_table)
  with assms show "e820_tbl st1 = Some ?t" "e820_entries st1 = 4"
    by (simp_all add: microbios_setup_shared_def Let_def put_def e820_table_def [symmetric] split: if_splits) auto
qed

primrec contiguous :: "nat \<Rightarrow> nat \<Rightarrow> (nat \<times> nat \<times> nat) list \<Rightarrow> bool" where
  "contiguous a b [] \<longleftrightarrow> a = b"
| "contiguous a b (e # es) \<longleftrightarrow> fst e = a \<and> contiguous (a + fst (snd e)) b es"

text \<open>The memory map: after the setup command on a machine with between 1 MB and 4 GB below the PCI hole,
  each legal call of INT 15h E820h with continuation \<open>k\<close> succeeds, puts entry \<open>k\<close> into the guest's
  buffer and returns the number of the next entry (0 after the last); the four entries are contiguous,
  start at 0 and end at the size of memory.\<close>

theorem int15_e820_walk:
  assumes ini: "microbios_setup_shared env st = Inr st1" "e820_tbl st = None"
    and mem: "0x100000 \<le> env_lowmem env" "env_lowmem env < 2 ^ 32"
    and later: "e820_tbl st2 = e820_tbl st1" "e820_entries st2 = e820_entries st1"
    and regs: "REG_HIBYTE (r_eax regs) = 0xe8" "REG_LOBYTE (r_eax regs) = 0x20" "r_edx regs = 0x534D4150"
      "20 \<le> REG_WORD (r_ecx regs)" "REG_WORD (r_ebx regs) = k" "k < 4"
    and buf: "buf = unat (r_es regs) * 16 + REG_WORD (r_edi regs)" "env_mapped env buf 20"
      "buf + 20 \<le> vars_flags \<or> vars_flags + 2 \<le> buf"
  shows "\<exists>st3. handle_int15 env regs st2 = Inr (0, st3) \<and> \<not> bit (saved_flags st3) 0 \<and>
      greg st3 RAX = 0x534D4150 \<and> greg st3 RBX = of_nat ((k + 1) mod 4) \<and>
      e820_at (gmem st3) buf = e820_map (env_lowmem env) ! k \<and>
      contiguous 0 (env_lowmem env) (e820_map (env_lowmem env))"
proof -
  let ?m = "poke (gmem st2) buf (take 20 (drop (20 * k) (e820_table (of_nat (env_lowmem env)))))"
  note t = setup_table [OF ini, folded later]
  have k: "20 * k + 20 \<le> 80" using regs(6) by simp
  have "(k + 1) mod 4 < 4" by simp
  then have u: "ucast (of_nat (Suc k mod 4) :: u32) = (of_nat (Suc k mod 4) :: u64)"
    by (simp add: word_unat_eq_iff unsigned_of_nat unsigned_ucast_eq take_bit_nat_eq_self)
  have frame: "e820_at (mwr 2 ?m vars_flags v) buf = e820_at ?m buf" for v
    using buf(3) by (auto simp: e820_at_def intro!: mrd_mwr_other)
  have "contiguous 0 (env_lowmem env) (e820_map (env_lowmem env))" using mem by (simp add: e820_map_def)
  moreover have "\<exists>st3. handle_int15 env regs st2 = Inr (0, st3) \<and> \<not> bit (saved_flags st3) 0 \<and>
      greg st3 RAX = 0x534D4150 \<and> greg st3 RBX = of_nat (Suc k mod 4) \<and>
      e820_at (gmem st3) buf = e820_at ?m buf"
    using regs buf(2) k t u frame
    by (simp add: handle_int15_def int15_switch_def int15_e820_def Let_def length_e820_table handler_exit_def
        buf(1) [symmetric] not_le)
  ultimately show ?thesis using e820_entry [OF regs(6) mem] by simp
qed

theorem int15_e820_walk_witness:
  "\<exists>st1 st3. microbios_setup_shared env_demo bios_demo = Inr st1 \<and>
     handle_int15 env_demo (regs_demo 0xe820 3 20 0x534D4150 0x2000) st1 = Inr (0, st3) \<and>
     e820_at (gmem st3) 0x20000 = (0x100000, 0x100000, 1) \<and> greg st3 RBX = 0"
proof -
  let ?r = "regs_demo 0xe820 3 20 0x534D4150 0x2000"
  obtain st1 where s: "microbios_setup_shared env_demo bios_demo = Inr st1"
    by (simp add: microbios_setup_shared_def Let_def env_demo_def)
  have n: "e820_tbl bios_demo = None" by (simp add: bios_demo_def)
  have m: "0x100000 \<le> env_lowmem env_demo" "env_lowmem env_demo < 2 ^ 32" by (simp_all add: env_demo_def)
  have r: "REG_HIBYTE (r_eax ?r) = 0xe8" "REG_LOBYTE (r_eax ?r) = 0x20" "r_edx ?r = 0x534D4150"
    "20 \<le> REG_WORD (r_ecx ?r)" "REG_WORD (r_ebx ?r) = 3" "(3 :: nat) < 4"
    by (simp_all add: regs_demo_def REG_HIBYTE_def REG_LOBYTE_def REG_WORD_def)
  have b: "0x20000 = unat (r_es ?r) * 16 + REG_WORD (r_edi ?r)" "env_mapped env_demo 0x20000 20"
    "0x20000 + 20 \<le> vars_flags \<or> vars_flags + 2 \<le> 0x20000"
    by (simp_all add: regs_demo_def REG_WORD_def env_demo_def)
  from int15_e820_walk [OF s n m refl refl r b] s show ?thesis by (auto simp: e820_map_def env_demo_def)
qed

section \<open>The disk command\<close>

text \<open>The result of a disk command is lost: the handler that ran it overwrites the status, so the guest sees
  success also when the transfer failed.\<close>

lemma disk_io_status:
  assumes "mrd 2 (gmem st) cmd_command = BCMD_DISK_IO" "microbios_cmd_handler env st = Inr (r, st')"
  shows "r = 0 \<and> mrd 4 (gmem st') cmd_results = 0"
  using assms
  by (cases "microbios_disk_io_cmd env st")
     (auto simp: microbios_cmd_handler_def Let_def mrd_mwr_same split: if_splits)

text \<open>The cylinder that function 08h reports is not the one function 02h would decode: 80 cylinders come back
  as a largest cylinder of 79 encoded in ten consecutive bits, which read as cylinder 787.\<close>

lemma params_not_inverse:
  "\<exists>regs' st'. int13_params env_demo (regs_demo 0x0800 0 0 0x80 0) floppy_demo = Inr (True, regs', st') \<and>
     ch_cylinder regs' = 787"
  by (simp add: int13_params_def regs_demo_def REG_LOBYTE_def REG_HIBYTE_def md_at_def floppy_demo_def blockif_chs_def
      ch_cylinder_def CLEAR_CF_def SETREG_def)

end
