(* ===== verification/Blockif_Queue.thy ===== *)
theory Blockif_Queue
  imports Prelude "HOL-Library.Multiset" "HOL-Library.Monad_Syntax"
begin

text \<open>
  The request queues of \<^verbatim>\<open>bhyve/block_if.c\<close> and the worker threads that serve them. A context
  has 136 request elements on three queues (free, pending, busy); a request that starts where a queued
  one ends is blocked until that one completes. Eight workers take pending requests under the mutex, run
  the transfer without it and complete the request under it again.

  An element is its index in \<^verbatim>\<open>bc_reqs\<close>, a request the number of its
  \<^verbatim>\<open>struct blockif_req\<close>; the requests themselves belong to the device models and are a parameter
  \<open>rq\<close>. \<open>None\<close> is a failed assertion. The code between taking and releasing \<^verbatim>\<open>bc_mtx\<close> is
  one step; condition variables wake at least one waiter when signalled, and possibly more.
\<close>

section \<open>Queues\<close>

datatype blockop = BOP_READ | BOP_WRITE | BOP_FLUSH | BOP_DELETE

datatype blockstat = BST_FREE | BST_BLOCK | BST_PEND | BST_BUSY | BST_DONE

record blockif_req =
  br_offset :: int
  br_iov_len :: "nat list"

record blockif_elem =
  be_req :: "nat option"
  be_op :: blockop
  be_status :: blockstat
  be_tid :: "nat option"
  be_block :: int

record bqueue =
  bc_reqs :: "nat \<Rightarrow> blockif_elem"
  bc_freeq :: "nat list"
  bc_pendq :: "nat list"
  bc_busyq :: "nat list"
  bc_closing :: bool
  bc_paused :: bool
  bc_work_count :: int

abbreviation (input) BLOCKIF_RING_MAX :: nat where "BLOCKIF_RING_MAX \<equiv> 128"
abbreviation (input) BLOCKIF_NUMTHR :: nat where "BLOCKIF_NUMTHR \<equiv> 8"
abbreviation (input) BLOCKIF_MAXREQ :: nat where "BLOCKIF_MAXREQ \<equiv> BLOCKIF_RING_MAX + BLOCKIF_NUMTHR"
abbreviation (input) OFF_MAX :: int where "OFF_MAX \<equiv> 2 ^ 63 - 1"
abbreviation (input) E2BIG :: int where "E2BIG \<equiv> 7"
abbreviation (input) EBUSY :: int where "EBUSY \<equiv> 16"

definition upd_elem :: "nat \<Rightarrow> (blockif_elem \<Rightarrow> blockif_elem) \<Rightarrow> bqueue \<Rightarrow> bqueue" where
  "upd_elem e f bc = bc\<lparr>bc_reqs := (bc_reqs bc)(e := f (bc_reqs bc e))\<rparr>"

text \<open>The end offset of a request.\<close>

definition req_block :: "blockif_req \<Rightarrow> blockop \<Rightarrow> int" where
  "req_block br op = (case op of BOP_FLUSH \<Rightarrow> OFF_MAX | _ \<Rightarrow> br_offset br + int (sum_list (br_iov_len br)))"

definition blockif_enqueue :: "(nat \<Rightarrow> blockif_req) \<Rightarrow> bqueue \<Rightarrow> nat \<Rightarrow> blockop \<Rightarrow> (bool \<times> bqueue) option" where
  "blockif_enqueue rq bc breq op =
     (case bc_freeq bc of
        [] \<Rightarrow> None
      | be # freeq \<Rightarrow>
          if be_status (bc_reqs bc be) \<noteq> BST_FREE then None
          else let tbe = find (\<lambda>t. be_block (bc_reqs bc t) = br_offset (rq breq)) (bc_pendq bc);
                   tbe = (if tbe = None
                          then find (\<lambda>t. be_block (bc_reqs bc t) = br_offset (rq breq)) (bc_busyq bc)
                          else tbe);
                   status = (if tbe = None then BST_PEND else BST_BLOCK);
                   bc = upd_elem be (\<lambda>x. x\<lparr>be_req := Some breq, be_op := op,
                          be_block := req_block (rq breq) op, be_status := status\<rparr>) bc
               in Some (status = BST_PEND, bc\<lparr>bc_freeq := freeq, bc_pendq := bc_pendq bc @ [be]\<rparr>))"

text \<open>The scan of the pending queue; the outer option is the assertion on the skipped elements.\<close>

fun dequeue_scan :: "(nat \<Rightarrow> blockif_elem) \<Rightarrow> nat list \<Rightarrow> nat option option" where
  "dequeue_scan reqs [] = Some None"
| "dequeue_scan reqs (e # es) =
     (if be_status (reqs e) = BST_PEND then Some (Some e)
      else if be_status (reqs e) = BST_BLOCK then dequeue_scan reqs es else None)"

definition blockif_dequeue :: "bqueue \<Rightarrow> nat \<Rightarrow> (nat option \<times> bqueue) option" where
  "blockif_dequeue bc t =
     (case dequeue_scan (bc_reqs bc) (bc_pendq bc) of
        None \<Rightarrow> None
      | Some None \<Rightarrow> Some (None, bc)
      | Some (Some be) \<Rightarrow>
          let bc = upd_elem be (\<lambda>x. x\<lparr>be_status := BST_BUSY, be_tid := Some t\<rparr>) bc
          in Some (Some be, bc\<lparr>bc_pendq := remove1 be (bc_pendq bc), bc_busyq := bc_busyq bc @ [be]\<rparr>))"

text \<open>Wake the requests that start where the completed one ends.\<close>

definition unblock :: "(nat \<Rightarrow> blockif_req) \<Rightarrow> int \<Rightarrow> nat list \<Rightarrow> (nat \<Rightarrow> blockif_elem) \<Rightarrow> nat \<Rightarrow> blockif_elem" where
  "unblock rq blk pendq reqs e =
     (if e \<in> set pendq \<and> map_option (\<lambda>r. br_offset (rq r)) (be_req (reqs e)) = Some blk
      then (reqs e)\<lparr>be_status := BST_PEND\<rparr> else reqs e)"

definition blockif_complete :: "(nat \<Rightarrow> blockif_req) \<Rightarrow> bqueue \<Rightarrow> nat \<Rightarrow> bqueue" where
  "blockif_complete rq bc be =
     (let x = bc_reqs bc be;
          bc = (if be_status x = BST_DONE \<or> be_status x = BST_BUSY
                then bc\<lparr>bc_busyq := remove1 be (bc_busyq bc)\<rparr>
                else bc\<lparr>bc_pendq := remove1 be (bc_pendq bc)\<rparr>);
          bc = bc\<lparr>bc_reqs := unblock rq (be_block x) (bc_pendq bc) (bc_reqs bc)\<rparr>;
          bc = upd_elem be (\<lambda>x. x\<lparr>be_tid := None, be_status := BST_FREE, be_req := None\<rparr>) bc
      in bc\<lparr>bc_freeq := bc_freeq bc @ [be]\<rparr>)"

text \<open>The result: the error, whether a waiter is signalled, and the queues.\<close>

definition blockif_request ::
    "(nat \<Rightarrow> blockif_req) \<Rightarrow> bqueue \<Rightarrow> nat \<Rightarrow> blockop \<Rightarrow> (int \<times> bool \<times> bqueue) option" where
  "blockif_request rq bc breq op =
     (if bc_freeq bc \<noteq> [] then do { (sig, bc) \<leftarrow> blockif_enqueue rq bc breq op; Some (0, sig, bc) }
      else Some (E2BIG, False, bc))"

datatype cancel_result = Cancelled nat | Not_found | Interrupted | Waiting

text \<open>\<^verbatim>\<open>blockif_cancel\<close> keeps the mutex while it waits for the worker of a busy request to
  leave the transfer, so it returns only once the element is done; \<open>Waiting\<close> is the state before.\<close>

definition blockif_cancel :: "(nat \<Rightarrow> blockif_req) \<Rightarrow> bqueue \<Rightarrow> nat \<Rightarrow> cancel_result \<times> bqueue" where
  "blockif_cancel rq bc breq =
     (case find (\<lambda>e. be_req (bc_reqs bc e) = Some breq) (bc_pendq bc) of
        Some be \<Rightarrow> (Cancelled be, blockif_complete rq bc be)
      | None \<Rightarrow>
          (case find (\<lambda>e. be_req (bc_reqs bc e) = Some breq) (bc_busyq bc) of
             None \<Rightarrow> (Not_found, bc)
           | Some be \<Rightarrow> (if be_status (bc_reqs bc be) = BST_BUSY then Waiting else Interrupted, bc)))"

definition cancel_errno :: "cancel_result \<Rightarrow> int option" where
  "cancel_errno r = (case r of Cancelled _ \<Rightarrow> Some 0 | Not_found \<Rightarrow> Some EINVAL | Interrupted \<Rightarrow> Some EBUSY
     | Waiting \<Rightarrow> None)"

definition elem_zero :: blockif_elem where
  "elem_zero = \<lparr>be_req = None, be_op = BOP_READ, be_status = BST_FREE, be_tid = None, be_block = 0\<rparr>"

text \<open>The queues as \<^verbatim>\<open>blockif_open\<close> leaves them: each element inserted at the head.\<close>

definition queue_init :: bqueue where
  "queue_init = \<lparr>bc_reqs = (\<lambda>_. elem_zero), bc_freeq = rev [0..<BLOCKIF_MAXREQ], bc_pendq = [], bc_busyq = [],
     bc_closing = False, bc_paused = False, bc_work_count = 0\<rparr>"

section \<open>Worker threads\<close>

text \<open>Where a worker is: about to take the mutex at the head of its loop, in the transfer of an element,
  after it, waiting on \<^verbatim>\<open>bc_paused_cond\<close>, woken from there, waiting on \<^verbatim>\<open>bc_cond\<close>,
  or gone.\<close>

datatype thr_pc = Loop_head | Proc nat | Proc_done nat | Wait_paused | Woken_paused | Wait_cond | Exited

record bstate =
  bs_q :: bqueue
  bs_pc :: "nat \<Rightarrow> thr_pc"
  bs_accepted :: "nat list"
  bs_called :: "nat list"
  bs_cancelled :: "nat list"

text \<open>From the test of the inner loop of \<^verbatim>\<open>blockif_thr\<close>, with the mutex held, to its release.\<close>

definition thr_tail :: "bstate \<Rightarrow> nat \<Rightarrow> bstate option" where
  "thr_tail s t =
     (let bc = bs_q s;
          leave = (let bc = bc\<lparr>bc_work_count := bc_work_count bc - 1\<rparr>
                   in s\<lparr>bs_q := bc, bs_pc := (bs_pc s)(t :=
                        if bc_closing bc then Exited else if bc_paused bc then Wait_paused else Wait_cond)\<rparr>)
      in if bc_paused bc then Some leave
         else case blockif_dequeue bc t of
                None \<Rightarrow> None
              | Some (None, _) \<Rightarrow> Some leave
              | Some (Some be, bc) \<Rightarrow> Some (s\<lparr>bs_q := bc, bs_pc := (bs_pc s)(t := Proc be)\<rparr>))"

text \<open>The head of the outer loop.\<close>

definition thr_head :: "bstate \<Rightarrow> nat \<Rightarrow> bstate option" where
  "thr_head s t = thr_tail (s\<lparr>bs_q := (bs_q s)\<lparr>bc_work_count := bc_work_count (bs_q s) + 1\<rparr>\<rparr>) t"

text \<open>The end of \<^verbatim>\<open>blockif_proc\<close>: the element is marked done and the callback runs.\<close>

definition proc_end :: "bstate \<Rightarrow> nat \<Rightarrow> nat \<Rightarrow> bstate" where
  "proc_end s t be =
     s\<lparr>bs_q := upd_elem be (\<lambda>x. x\<lparr>be_status := BST_DONE\<rparr>) (bs_q s), bs_pc := (bs_pc s)(t := Proc_done be),
       bs_called := bs_called s @ (case be_req (bc_reqs (bs_q s) be) of None \<Rightarrow> [] | Some r \<Rightarrow> [r])\<rparr>"

definition thr_complete :: "(nat \<Rightarrow> blockif_req) \<Rightarrow> bstate \<Rightarrow> nat \<Rightarrow> nat \<Rightarrow> bstate option" where
  "thr_complete rq s t be = thr_tail (s\<lparr>bs_q := blockif_complete rq (bs_q s) be\<rparr>) t"

text \<open>Threads of \<open>W\<close> that wait on \<^verbatim>\<open>bc_cond\<close> are woken.\<close>

definition wake :: "nat set \<Rightarrow> (nat \<Rightarrow> thr_pc) \<Rightarrow> nat \<Rightarrow> thr_pc" where
  "wake W pc t = (if t \<in> W \<and> pc t = Wait_cond then Loop_head else pc t)"

text \<open>All threads that wait on \<^verbatim>\<open>bc_paused_cond\<close> are woken.\<close>

definition wake_paused :: "(nat \<Rightarrow> thr_pc) \<Rightarrow> nat \<Rightarrow> thr_pc" where
  "wake_paused pc t = (if pc t = Wait_paused then Woken_paused else pc t)"

definition bs_init :: bstate where
  "bs_init = \<lparr>bs_q = queue_init, bs_pc = (\<lambda>t. if t < BLOCKIF_NUMTHR then Loop_head else Exited),
     bs_accepted = [], bs_called = [], bs_cancelled = []\<rparr>"

definition bs_request :: "(nat \<Rightarrow> blockif_req) \<Rightarrow> bstate \<Rightarrow> nat \<Rightarrow> blockop \<Rightarrow> nat set \<Rightarrow> bstate option" where
  "bs_request rq s breq op W =
     (case blockif_request rq (bs_q s) breq op of
        None \<Rightarrow> None
      | Some (err, sig, bc) \<Rightarrow>
          Some (s\<lparr>bs_q := bc, bs_pc := (if sig then wake W (bs_pc s) else bs_pc s),
                  bs_accepted := (if err = 0 then breq # bs_accepted s else bs_accepted s)\<rparr>))"

definition bs_cancel :: "(nat \<Rightarrow> blockif_req) \<Rightarrow> bstate \<Rightarrow> nat \<Rightarrow> bstate" where
  "bs_cancel rq s breq =
     (case blockif_cancel rq (bs_q s) breq of
        (Cancelled _, bc) \<Rightarrow> s\<lparr>bs_q := bc, bs_cancelled := breq # bs_cancelled s\<rparr>
      | _ \<Rightarrow> s)"

definition bs_close :: "bstate \<Rightarrow> bstate" where
  "bs_close s = s\<lparr>bs_q := (bs_q s)\<lparr>bc_closing := True\<rparr>, bs_pc := wake UNIV (bs_pc s)\<rparr>"

definition blockif_pause :: "bstate \<Rightarrow> bstate" where
  "blockif_pause s = s\<lparr>bs_q := (bs_q s)\<lparr>bc_paused := True\<rparr>\<rparr>"

definition blockif_resume :: "bstate \<Rightarrow> bstate" where
  "blockif_resume s =
     s\<lparr>bs_q := (bs_q s)\<lparr>bc_paused := False\<rparr>, bs_pc := wake UNIV (wake_paused (bs_pc s))\<rparr>"

definition thr_woken :: "bstate \<Rightarrow> nat \<Rightarrow> bstate" where
  "thr_woken s t =
     s\<lparr>bs_pc := (bs_pc s)(t := if bc_paused (bs_q s) then Wait_paused else Wait_cond)\<rparr>"

inductive bstep :: "(nat \<Rightarrow> blockif_req) \<Rightarrow> bstate \<Rightarrow> bstate \<Rightarrow> bool" for rq where
  request: "bs_request rq s breq op W = Some s' \<Longrightarrow>
    (\<exists>t. bs_pc s t = Wait_cond) \<Longrightarrow> (\<exists>t \<in> W. bs_pc s t = Wait_cond) \<Longrightarrow> bstep rq s s'"
| request_no_waiter: "bs_request rq s breq op W = Some s' \<Longrightarrow> (\<forall>t. bs_pc s t \<noteq> Wait_cond) \<Longrightarrow> bstep rq s s'"
| spurious: "bstep rq s (s\<lparr>bs_pc := wake {t} (bs_pc s)\<rparr>)"
| head: "bs_pc s t = Loop_head \<Longrightarrow> thr_head s t = Some s' \<Longrightarrow> bstep rq s s'"
| proc: "bs_pc s t = Proc be \<Longrightarrow> bstep rq s (proc_end s t be)"
| complete: "bs_pc s t = Proc_done be \<Longrightarrow> thr_complete rq s t be = Some s' \<Longrightarrow> bstep rq s s'"
| cancel: "bstep rq s (bs_cancel rq s breq)"
| close: "bstep rq s (bs_close s)"

text \<open>With snapshots compiled in, the context can also be paused and resumed.\<close>

inductive pstep :: "(nat \<Rightarrow> blockif_req) \<Rightarrow> bstate \<Rightarrow> bstate \<Rightarrow> bool" for rq where
  worker: "bstep rq s s' \<Longrightarrow> pstep rq s s'"
| pause: "pstep rq s (blockif_pause s)"
| resume: "pstep rq s (blockif_resume s)"
| woken: "bs_pc s t = Woken_paused \<Longrightarrow> pstep rq s (thr_woken s t)"

section \<open>The invariant of the queues\<close>

definition chained :: "(nat \<Rightarrow> blockif_req) \<Rightarrow> bqueue \<Rightarrow> nat \<Rightarrow> nat \<Rightarrow> bool" where
  "chained rq bc t e \<longleftrightarrow> map_option (\<lambda>r. br_offset (rq r)) (be_req (bc_reqs bc e)) = Some (be_block (bc_reqs bc t))"

text \<open>A blocked request has a reason: one before it in the pending queue, or a busy one, ends where it
  starts.\<close>

definition blocked_ok :: "(nat \<Rightarrow> blockif_req) \<Rightarrow> bqueue \<Rightarrow> bool" where
  "blocked_ok rq bc \<longleftrightarrow> (\<forall>xs e ys. bc_pendq bc = xs @ e # ys \<longrightarrow> be_status (bc_reqs bc e) = BST_BLOCK \<longrightarrow>
     (\<exists>t \<in> set xs \<union> set (bc_busyq bc). chained rq bc t e))"

definition queue_ok :: "(nat \<Rightarrow> blockif_req) \<Rightarrow> bqueue \<Rightarrow> bool" where
  "queue_ok rq bc \<longleftrightarrow>
     distinct (bc_freeq bc @ bc_pendq bc @ bc_busyq bc) \<and>
     set (bc_freeq bc @ bc_pendq bc @ bc_busyq bc) = {0..<BLOCKIF_MAXREQ} \<and>
     (\<forall>e \<in> set (bc_freeq bc). be_status (bc_reqs bc e) = BST_FREE) \<and>
     (\<forall>e \<in> set (bc_pendq bc). be_status (bc_reqs bc e) \<in> {BST_PEND, BST_BLOCK}) \<and>
     (\<forall>e \<in> set (bc_busyq bc). be_status (bc_reqs bc e) \<in> {BST_BUSY, BST_DONE}) \<and>
     (\<forall>e \<in> set (bc_pendq bc) \<union> set (bc_busyq bc). be_req (bc_reqs bc e) \<noteq> None) \<and>
     blocked_ok rq bc"

lemma queue_okD:
  assumes "queue_ok rq bc"
  shows "distinct (bc_freeq bc)" "distinct (bc_pendq bc)" "distinct (bc_busyq bc)"
    "set (bc_freeq bc) \<inter> set (bc_pendq bc) = {}" "set (bc_freeq bc) \<inter> set (bc_busyq bc) = {}"
    "set (bc_pendq bc) \<inter> set (bc_busyq bc) = {}"
    "set (bc_freeq bc) \<union> set (bc_pendq bc) \<union> set (bc_busyq bc) = {0..<BLOCKIF_MAXREQ}"
    "\<And>e. e \<in> set (bc_freeq bc) \<Longrightarrow> be_status (bc_reqs bc e) = BST_FREE"
    "\<And>e. e \<in> set (bc_pendq bc) \<Longrightarrow> be_status (bc_reqs bc e) = BST_PEND \<or> be_status (bc_reqs bc e) = BST_BLOCK"
    "\<And>e. e \<in> set (bc_busyq bc) \<Longrightarrow> be_status (bc_reqs bc e) = BST_BUSY \<or> be_status (bc_reqs bc e) = BST_DONE"
    "\<And>e. e \<in> set (bc_pendq bc) \<Longrightarrow> \<exists>r. be_req (bc_reqs bc e) = Some r"
    "\<And>e. e \<in> set (bc_busyq bc) \<Longrightarrow> \<exists>r. be_req (bc_reqs bc e) = Some r"
    "blocked_ok rq bc"
  using assms by (auto simp: queue_ok_def)

lemma blocked_okD:
  "blocked_ok rq bc \<Longrightarrow> bc_pendq bc = xs @ e # ys \<Longrightarrow> be_status (bc_reqs bc e) = BST_BLOCK \<Longrightarrow>
     \<exists>t \<in> set xs \<union> set (bc_busyq bc). chained rq bc t e"
  by (simp add: blocked_ok_def)

lemma queue_ok_init: "queue_ok rq queue_init"
  unfolding queue_ok_def queue_init_def blocked_ok_def elem_zero_def by auto

lemma queue_ok_cong:
  assumes "bc_reqs bc' = bc_reqs bc" "bc_freeq bc' = bc_freeq bc" "bc_pendq bc' = bc_pendq bc" "bc_busyq bc' = bc_busyq bc"
  shows "queue_ok rq bc' = queue_ok rq bc"
  by (simp add: queue_ok_def blocked_ok_def chained_def assms)

lemma remove1_position:
  assumes "remove1 x zs = xs @ e # ys" "distinct zs"
  obtains xs' ys' where "zs = xs' @ e # ys'" "set xs' \<subseteq> insert x (set xs)" "x \<notin> set xs" "e \<noteq> x"
proof -
  have x: "x \<notin> set (xs @ e # ys)" using assms by (metis distinct_remove1_removeAll removeAll_id remove1_idem set_remove1_eq DiffE insertI1)
  show thesis
  proof (cases "x \<in> set zs")
    case False
    then show thesis using assms(1) x that [of xs ys] by (simp add: remove1_idem) blast
  next
    case True
    then obtain as bs where z: "zs = as @ x # bs" "x \<notin> set as" by (meson split_list_first)
    then have r: "as @ bs = xs @ e # ys" using assms(1) by (simp add: remove1_append)
    then consider (1) us where "as = xs @ e # us" "us @ bs = ys" | (2) us where "xs = as @ us" "bs = us @ e # ys"
      by (auto simp: append_eq_append_conv2 append_eq_Cons_conv)
    then show thesis
    proof cases
      case 1
      then show thesis using that [of xs "us @ x # bs"] z x by auto
    next
      case 2
      then show thesis using that [of "as @ x # us" ys] z x by auto
    qed
  qed
qed

text \<open>Enqueue takes the first free element and never fails while there is one.\<close>

lemma enqueue_spec:
  assumes ok: "queue_ok rq bc" and free: "bc_freeq bc = be # freeq"
  obtains sig bc' where "blockif_enqueue rq bc r op = Some (sig, bc')" "queue_ok rq bc'"
    "bc_pendq bc' = bc_pendq bc @ [be]" "bc_busyq bc' = bc_busyq bc" "bc_freeq bc' = freeq"
    "\<And>e. e \<noteq> be \<Longrightarrow> bc_reqs bc' e = bc_reqs bc e" "be_req (bc_reqs bc' be) = Some r"
    "sig = (be_status (bc_reqs bc' be) = BST_PEND)"
    "bc_paused bc' = bc_paused bc" "bc_closing bc' = bc_closing bc" "bc_work_count bc' = bc_work_count bc"
proof -
  note d = queue_okD [OF ok]
  define P where "P = (\<lambda>t. be_block (bc_reqs bc t) = br_offset (rq r))"
  define tbe where "tbe = (if find P (bc_pendq bc) = None then find P (bc_busyq bc) else find P (bc_pendq bc))"
  define st where "st = (if tbe = None then BST_PEND else BST_BLOCK)"
  define bc' where "bc' = (upd_elem be (\<lambda>x. x\<lparr>be_req := Some r, be_op := op, be_block := req_block (rq r) op,
      be_status := st\<rparr>) bc)\<lparr>bc_freeq := freeq, bc_pendq := bc_pendq bc @ [be]\<rparr>"
  have free_be: "be_status (bc_reqs bc be) = BST_FREE" using d(8) free by simp
  have e: "blockif_enqueue rq bc r op = Some (st = BST_PEND, bc')"
    using free free_be
    by (simp add: blockif_enqueue_def Let_def bc'_def st_def tbe_def P_def upd_elem_def)
  have new: "be \<notin> set (bc_pendq bc)" "be \<notin> set (bc_busyq bc)" "be \<notin> set freeq" using d(1,4,5) free by auto
  have reqs: "bc_reqs bc' x = (if x = be then (bc_reqs bc be)\<lparr>be_req := Some r, be_op := op,
      be_block := req_block (rq r) op, be_status := st\<rparr> else bc_reqs bc x)" for x
    by (simp add: bc'_def upd_elem_def)
  have qs: "bc_pendq bc' = bc_pendq bc @ [be]" "bc_busyq bc' = bc_busyq bc" "bc_freeq bc' = freeq"
    by (simp_all add: bc'_def upd_elem_def)
  have find_ex: "\<exists>t \<in> set (bc_pendq bc) \<union> set (bc_busyq bc). P t" if "tbe \<noteq> None"
    using that unfolding tbe_def by (auto simp: find_Some_iff find_None_iff split: if_splits)
  have "blocked_ok rq bc'"
    unfolding blocked_ok_def
  proof (intro allI impI)
    fix xs e ys assume p: "bc_pendq bc' = xs @ e # ys" and b: "be_status (bc_reqs bc' e) = BST_BLOCK"
    show "\<exists>t \<in> set xs \<union> set (bc_busyq bc'). chained rq bc' t e"
    proof (cases "ys = []")
      case True
      then have x: "xs = bc_pendq bc" "e = be" using p qs by auto
      then have "tbe \<noteq> None" using b by (auto simp: reqs st_def split: if_splits)
      then obtain t where t: "t \<in> set xs \<union> set (bc_busyq bc)" "P t" using find_ex x by blast
      have "t \<noteq> be" using t(1) new x by blast
      then have "chained rq bc' t e" using t(2) x(2) by (simp add: chained_def reqs P_def)
      then show ?thesis using t(1) unfolding qs(2) by (rule bexI)
    next
      case False
      then obtain zs where z: "ys = zs @ [be]" "bc_pendq bc = xs @ e # zs" using p qs(1)
        by (metis append_butlast_last_id append_Cons butlast.simps(2) butlast_append last_ConsR last_appendR last_snoc
            butlast_snoc list.distinct(1))
      then have "e \<noteq> be" "e \<in> set (bc_pendq bc)" using new by auto
      then obtain t where t: "t \<in> set xs \<union> set (bc_busyq bc)" "chained rq bc t e"
        using blocked_okD [OF d(13) z(2)] b by (auto simp: reqs)
      have "t \<noteq> be" using t(1) new z by auto
      then have "chained rq bc' t e" using t(2) \<open>e \<noteq> be\<close> by (simp add: chained_def reqs)
      then show ?thesis using t(1) unfolding qs(2) by (rule bexI)
    qed
  qed
  moreover have "insert be (set freeq) = set (bc_freeq bc)" using free by simp
  ultimately have "queue_ok rq bc'"
    using d new qs free unfolding queue_ok_def
    by (auto simp: reqs st_def)
  then show thesis
    by (intro that [of "st = BST_PEND" bc', OF e]) (simp_all add: qs reqs, simp_all add: bc'_def upd_elem_def)
qed

text \<open>Dequeue: the scan finds the first pending element; the assertion on the skipped ones holds.\<close>

lemma dequeue_scan_spec:
  assumes "\<And>e. e \<in> set es \<Longrightarrow> be_status (reqs e) = BST_PEND \<or> be_status (reqs e) = BST_BLOCK"
  shows "dequeue_scan reqs es = Some (find (\<lambda>e. be_status (reqs e) = BST_PEND) es)"
  using assms by (induction es) auto

lemma dequeue_cases:
  assumes ok: "queue_ok rq bc"
  obtains (none) "blockif_dequeue bc t = Some (None, bc)" "\<And>e. e \<in> set (bc_pendq bc) \<Longrightarrow> be_status (bc_reqs bc e) = BST_BLOCK"
  | (some) be bc' where "blockif_dequeue bc t = Some (Some be, bc')" "be \<in> set (bc_pendq bc)" "queue_ok rq bc'"
    "bc_pendq bc' = remove1 be (bc_pendq bc)" "bc_busyq bc' = bc_busyq bc @ [be]" "bc_freeq bc' = bc_freeq bc"
    "\<And>e. e \<noteq> be \<Longrightarrow> bc_reqs bc' e = bc_reqs bc e"
    "be_status (bc_reqs bc' be) = BST_BUSY" "be_tid (bc_reqs bc' be) = Some t" "be_req (bc_reqs bc' be) = be_req (bc_reqs bc be)"
    "bc_paused bc' = bc_paused bc" "bc_closing bc' = bc_closing bc" "bc_work_count bc' = bc_work_count bc"
proof (cases "find (\<lambda>e. be_status (bc_reqs bc e) = BST_PEND) (bc_pendq bc)")
  case None
  note d = queue_okD [OF ok]
  have "blockif_dequeue bc t = Some (None, bc)"
    using None dequeue_scan_spec [of "bc_pendq bc" "bc_reqs bc", OF d(9)] by (simp add: blockif_dequeue_def)
  then show thesis using none d(9) None by (auto simp: find_None_iff)
next
  case (Some be)
  note d = queue_okD [OF ok]
  have be: "be \<in> set (bc_pendq bc)" using Some by (auto simp: find_Some_iff)
  define bc' where "bc' = (upd_elem be (\<lambda>x. x\<lparr>be_status := BST_BUSY, be_tid := Some t\<rparr>) bc)
      \<lparr>bc_pendq := remove1 be (bc_pendq bc), bc_busyq := bc_busyq bc @ [be]\<rparr>"
  have e: "blockif_dequeue bc t = Some (Some be, bc')"
    using Some dequeue_scan_spec [of "bc_pendq bc" "bc_reqs bc", OF d(9)]
    by (simp add: blockif_dequeue_def bc'_def upd_elem_def Let_def)
  have reqs: "bc_reqs bc' x = (if x = be then (bc_reqs bc be)\<lparr>be_status := BST_BUSY, be_tid := Some t\<rparr> else bc_reqs bc x)" for x
    by (simp add: bc'_def upd_elem_def)
  have qs: "bc_pendq bc' = remove1 be (bc_pendq bc)" "bc_busyq bc' = bc_busyq bc @ [be]" "bc_freeq bc' = bc_freeq bc"
    by (simp_all add: bc'_def upd_elem_def)
  have "blocked_ok rq bc'"
    unfolding blocked_ok_def
  proof (intro allI impI)
    fix xs e ys assume p: "bc_pendq bc' = xs @ e # ys" and b: "be_status (bc_reqs bc' e) = BST_BLOCK"
    obtain xs' ys' where p': "bc_pendq bc = xs' @ e # ys'" "set xs' \<subseteq> insert be (set xs)"
      by (rule remove1_position [OF p [unfolded qs(1)] d(2)])
    have "e \<noteq> be" using b by (auto simp: reqs)
    then obtain t where "t \<in> set xs' \<union> set (bc_busyq bc)" "chained rq bc t e"
      using blocked_okD [OF d(13) p'(1)] b by (auto simp: reqs)
    then show "\<exists>t \<in> set xs \<union> set (bc_busyq bc'). chained rq bc' t e"
      using p'(2) \<open>e \<noteq> be\<close> by (intro bexI [of _ t]) (auto simp: chained_def reqs qs)
  qed
  then have "queue_ok rq bc'"
    using d be qs unfolding queue_ok_def by (auto simp: reqs)
  then show thesis by (rule some [OF e be]) (simp_all add: qs reqs, simp_all add: bc'_def upd_elem_def)
qed

text \<open>Completion frees the element and unblocks exactly the requests that start where it ends.\<close>

lemma complete_spec:
  assumes ok: "queue_ok rq bc" and be: "be \<in> set (bc_pendq bc) \<union> set (bc_busyq bc)"
  defines "bc' \<equiv> blockif_complete rq bc be"
  shows "queue_ok rq bc'" "bc_pendq bc' = remove1 be (bc_pendq bc)" "bc_busyq bc' = remove1 be (bc_busyq bc)"
    "bc_freeq bc' = bc_freeq bc @ [be]"
    "\<And>e. e \<noteq> be \<Longrightarrow> bc_reqs bc' e = (bc_reqs bc e)\<lparr>be_status :=
       if e \<in> set (bc_pendq bc) \<and> chained rq bc be e then BST_PEND else be_status (bc_reqs bc e)\<rparr>"
    "bc_paused bc' = bc_paused bc" "bc_closing bc' = bc_closing bc" "bc_work_count bc' = bc_work_count bc"
    "\<And>e. e \<noteq> be \<Longrightarrow> be_req (bc_reqs bc' e) = be_req (bc_reqs bc e)"
proof -
  note d = queue_okD [OF ok]
  show qs: "bc_pendq bc' = remove1 be (bc_pendq bc)" "bc_busyq bc' = remove1 be (bc_busyq bc)"
    "bc_freeq bc' = bc_freeq bc @ [be]"
  proof -
    consider "be \<in> set (bc_pendq bc)" "be \<notin> set (bc_busyq bc)" | "be \<in> set (bc_busyq bc)" "be \<notin> set (bc_pendq bc)"
      using be d(6) by blast
    then have "bc_pendq bc' = remove1 be (bc_pendq bc) \<and> bc_busyq bc' = remove1 be (bc_busyq bc)"
      using d(9) [of be] d(10) [of be]
      by cases (auto simp: bc'_def blockif_complete_def Let_def upd_elem_def remove1_idem)
    then show "bc_pendq bc' = remove1 be (bc_pendq bc)" "bc_busyq bc' = remove1 be (bc_busyq bc)" by simp_all
  qed (simp add: bc'_def blockif_complete_def Let_def upd_elem_def)
  show "bc_paused bc' = bc_paused bc" "bc_closing bc' = bc_closing bc" "bc_work_count bc' = bc_work_count bc"
    by (simp_all add: bc'_def blockif_complete_def Let_def upd_elem_def)
  show reqs: "bc_reqs bc' e = (bc_reqs bc e)\<lparr>be_status :=
       if e \<in> set (bc_pendq bc) \<and> chained rq bc be e then BST_PEND else be_status (bc_reqs bc e)\<rparr>" if "e \<noteq> be" for e
    using that by (auto simp: bc'_def blockif_complete_def Let_def upd_elem_def unblock_def chained_def)
  have self: "be_status (bc_reqs bc' be) = BST_FREE"
    by (simp add: bc'_def blockif_complete_def Let_def upd_elem_def)
  have blk: "be_block (bc_reqs bc' e) = be_block (bc_reqs bc e)" "e \<noteq> be \<Longrightarrow> be_req (bc_reqs bc' e) = be_req (bc_reqs bc e)" for e
    by (auto simp: bc'_def blockif_complete_def Let_def upd_elem_def unblock_def)
  then show "e \<noteq> be \<Longrightarrow> be_req (bc_reqs bc' e) = be_req (bc_reqs bc e)" for e by blast
  have "blocked_ok rq bc'"
    unfolding blocked_ok_def
  proof (intro allI impI)
    fix xs e ys assume p: "bc_pendq bc' = xs @ e # ys" and b: "be_status (bc_reqs bc' e) = BST_BLOCK"
    obtain xs' ys' where p': "bc_pendq bc = xs' @ e # ys'" "set xs' \<subseteq> insert be (set xs)" "e \<noteq> be"
      by (rule remove1_position [OF p [unfolded qs(1)] d(2)])
    then have nc: "\<not> chained rq bc be e" "be_status (bc_reqs bc e) = BST_BLOCK"
      using b by (auto simp: reqs split: if_splits)
    obtain t where t: "t \<in> set xs' \<union> set (bc_busyq bc)" "chained rq bc t e"
      using blocked_okD [OF d(13) p'(1) nc(2)] by blast
    then have "t \<noteq> be" using nc(1) by blast
    then have "t \<in> set xs \<union> set (bc_busyq bc')" using t(1) p'(2) qs(2) by auto
    moreover have "chained rq bc' t e" using t(2) blk p'(3) by (simp add: chained_def)
    ultimately show "\<exists>t \<in> set xs \<union> set (bc_busyq bc'). chained rq bc' t e" by blast
  qed
  moreover have pend: "be_status (bc_reqs bc' e) = BST_PEND \<or> be_status (bc_reqs bc' e) = BST_BLOCK"
    if "e \<in> set (bc_pendq bc)" "e \<noteq> be" for e using d(9) that by (simp add: reqs)
  moreover have status: "be_status (bc_reqs bc' e) = be_status (bc_reqs bc e)" if "e \<notin> set (bc_pendq bc)" "e \<noteq> be" for e
    using that by (simp add: reqs)
  ultimately show "queue_ok rq bc'"
    unfolding queue_ok_def qs set_append set_remove1_eq [OF d(2)] set_remove1_eq [OF d(3)]
  proof (intro conjI)
    show "distinct ((bc_freeq bc @ [be]) @ remove1 be (bc_pendq bc) @ remove1 be (bc_busyq bc))"
      using d(1-6) be by (auto simp: set_remove1_eq)
    show "set (bc_freeq bc) \<union> set [be] \<union> (set (bc_pendq bc) - {be} \<union> (set (bc_busyq bc) - {be})) = {0..<BLOCKIF_MAXREQ}"
      unfolding d(7) [symmetric] using be by auto
    show "\<forall>e \<in> set (bc_freeq bc) \<union> set [be]. be_status (bc_reqs bc' e) = BST_FREE"
      using d(8) self status d(4) by (metis IntI Un_iff empty_iff empty_set list.set(2) singletonD)
    show "\<forall>e \<in> set (bc_pendq bc) - {be}. be_status (bc_reqs bc' e) \<in> {BST_PEND, BST_BLOCK}"
      using pend by auto
    show "\<forall>e \<in> set (bc_busyq bc) - {be}. be_status (bc_reqs bc' e) \<in> {BST_BUSY, BST_DONE}"
    proof
      fix e assume e: "e \<in> set (bc_busyq bc) - {be}"
      then have "e \<notin> set (bc_pendq bc)" using d(6) by blast
      then show "be_status (bc_reqs bc' e) \<in> {BST_BUSY, BST_DONE}" using e d(10) [of e] status by auto
    qed
    show "\<forall>e \<in> set (bc_pendq bc) - {be} \<union> (set (bc_busyq bc) - {be}). be_req (bc_reqs bc' e) \<noteq> None"
      using blk(2) d(11,12) by fastforce
  qed
qed

text \<open>No deadlock: while something is pending, something is runnable or running.\<close>

lemma not_stuck:
  assumes ok: "queue_ok rq bc" and "bc_pendq bc \<noteq> []" "bc_busyq bc = []"
  obtains e where "e \<in> set (bc_pendq bc)" "be_status (bc_reqs bc e) = BST_PEND"
proof -
  obtain e ys where p: "bc_pendq bc = [] @ e # ys" using assms(2) by (cases "bc_pendq bc") auto
  have "be_status (bc_reqs bc e) \<noteq> BST_BLOCK"
    using blocked_okD [OF queue_okD(13) [OF ok] p] assms(3) by auto
  then show thesis using that [of e] p queue_okD(9) [OF ok, of e] by auto
qed

section \<open>The invariant of the whole machine\<close>

fun in_flight :: "thr_pc \<Rightarrow> nat option" where
  "in_flight (Proc e) = Some e"
| "in_flight (Proc_done e) = Some e"
| "in_flight _ = None"

definition thr_ok :: "bqueue \<Rightarrow> nat \<Rightarrow> thr_pc \<Rightarrow> bool" where
  "thr_ok bc t p \<longleftrightarrow> (\<forall>e. in_flight p = Some e \<longrightarrow> e \<in> set (bc_busyq bc) \<and> be_tid (bc_reqs bc e) = Some t \<and>
     be_status (bc_reqs bc e) = (if p = Proc e then BST_BUSY else BST_DONE))"

lemma thr_ok_frame:
  assumes "thr_ok bc t p"
    "\<And>e. e \<in> set (bc_busyq bc) \<Longrightarrow> in_flight p = Some e \<Longrightarrow> e \<in> set (bc_busyq bc') \<and>
       be_tid (bc_reqs bc' e) = be_tid (bc_reqs bc e) \<and> be_status (bc_reqs bc' e) = be_status (bc_reqs bc e)"
  shows "thr_ok bc' t p"
  using assms unfolding thr_ok_def by metis

lemma thr_ok_idle: "in_flight p = None \<Longrightarrow> thr_ok bc t p"
  by (simp add: thr_ok_def)

text \<open>The requests accepted and neither cancelled nor called back: the pending ones and those in transfer.\<close>

definition open_elems :: "bqueue \<Rightarrow> nat set" where
  "open_elems bc = set (bc_pendq bc) \<union> {e \<in> set (bc_busyq bc). be_status (bc_reqs bc e) = BST_BUSY}"

definition open_reqs :: "bqueue \<Rightarrow> nat multiset" where
  "open_reqs bc = image_mset (\<lambda>e. the (be_req (bc_reqs bc e))) (mset_set (open_elems bc))"

text \<open>\<open>X\<close> holds the thread that is inside its critical section, if any.\<close>

definition sys :: "(nat \<Rightarrow> blockif_req) \<Rightarrow> nat set \<Rightarrow> bstate \<Rightarrow> bool" where
  "sys rq X s \<longleftrightarrow>
     queue_ok rq (bs_q s) \<and> (\<forall>t \<ge> BLOCKIF_NUMTHR. bs_pc s t = Exited) \<and>
     (\<forall>t. t \<notin> X \<longrightarrow> thr_ok (bs_q s) t (bs_pc s t)) \<and>
     (\<forall>e \<in> set (bc_busyq (bs_q s)). \<exists>t. t \<notin> X \<and> in_flight (bs_pc s t) = Some e) \<and>
     bc_work_count (bs_q s) = int (card {t. t \<notin> X \<and> in_flight (bs_pc s t) \<noteq> None} + card X) \<and>
     mset (bs_accepted s) = mset (bs_called s) + mset (bs_cancelled s) + open_reqs (bs_q s)"

lemma sysD:
  assumes "sys rq X s"
  shows "queue_ok rq (bs_q s)" "\<And>t. BLOCKIF_NUMTHR \<le> t \<Longrightarrow> bs_pc s t = Exited"
    "\<And>t. t \<notin> X \<Longrightarrow> thr_ok (bs_q s) t (bs_pc s t)"
    "\<And>e. e \<in> set (bc_busyq (bs_q s)) \<Longrightarrow> \<exists>t. t \<notin> X \<and> in_flight (bs_pc s t) = Some e"
    "bc_work_count (bs_q s) = int (card {t. t \<notin> X \<and> in_flight (bs_pc s t) \<noteq> None} + card X)"
    "mset (bs_accepted s) = mset (bs_called s) + mset (bs_cancelled s) + open_reqs (bs_q s)"
  using assms by (auto simp: sys_def)

lemma in_flight_finite:
  assumes "sys rq X s"
  shows "finite {t. t \<notin> X \<and> in_flight (bs_pc s t) \<noteq> None}"
proof (rule finite_subset)
  show "{t. t \<notin> X \<and> in_flight (bs_pc s t) \<noteq> None} \<subseteq> {..<BLOCKIF_NUMTHR}"
    using sysD(2) [OF assms] by (metis (mono_tags, lifting) in_flight.simps(7) lessThan_iff linorder_not_less mem_Collect_eq subsetI)
qed simp

lemma finite_open [simp]: "finite (open_elems bc)"
  by (simp add: open_elems_def)

lemma open_reqs_same:
  assumes "open_elems bc' = open_elems bc" "\<And>e. e \<in> open_elems bc \<Longrightarrow> be_req (bc_reqs bc' e) = be_req (bc_reqs bc e)"
  shows "open_reqs bc' = open_reqs bc"
  unfolding open_reqs_def assms(1) by (rule image_mset_cong) (simp add: assms(2))

lemma open_reqs_insert:
  assumes "open_elems bc' = insert x (open_elems bc)" "x \<notin> open_elems bc" "be_req (bc_reqs bc' x) = Some r"
    "\<And>e. e \<in> open_elems bc \<Longrightarrow> be_req (bc_reqs bc' e) = be_req (bc_reqs bc e)"
  shows "open_reqs bc' = add_mset r (open_reqs bc)"
proof -
  have "image_mset (\<lambda>e. the (be_req (bc_reqs bc' e))) (mset_set (open_elems bc)) = open_reqs bc"
    unfolding open_reqs_def by (rule image_mset_cong) (simp add: assms(4))
  then show ?thesis using assms(1-3) by (simp add: open_reqs_def)
qed

lemma sys_init: "sys rq {} bs_init"
proof -
  have "open_elems queue_init = {}" by (auto simp: open_elems_def queue_init_def)
  moreover have "{t. in_flight (if t < (8 :: nat) then Loop_head else Exited) \<noteq> None} = {}" by auto
  ultimately show ?thesis
    using queue_ok_init [of rq]
    by (auto simp: sys_def bs_init_def thr_ok_def open_reqs_def queue_init_def)
qed

text \<open>A worker in its critical section leaves it with a request or to wait.\<close>

lemma tail_ok:
  assumes ok: "sys rq {t} s" and t: "t < BLOCKIF_NUMTHR"
  obtains s' where "thr_tail s t = Some s'" "sys rq {} s'"
proof -
  note y = sysD [OF ok]
  define leave where "leave = s\<lparr>bs_q := (bs_q s)\<lparr>bc_work_count := bc_work_count (bs_q s) - 1\<rparr>, bs_pc := (bs_pc s)(t :=
      if bc_closing (bs_q s) then Exited else if bc_paused (bs_q s) then Wait_paused else Wait_cond)\<rparr>"
  have flight: "{t'. in_flight (((bs_pc s)(t := p)) t') \<noteq> None} =
      (if in_flight p = None then {t'. t' \<notin> {t} \<and> in_flight (bs_pc s t') \<noteq> None}
       else insert t {t'. t' \<notin> {t} \<and> in_flight (bs_pc s t') \<noteq> None})" for p by auto
  have "sys rq {} leave"
  proof -
    have q: "queue_ok rq (bs_q leave)" "open_reqs (bs_q leave) = open_reqs (bs_q s)" "bc_busyq (bs_q leave) = bc_busyq (bs_q s)"
      "\<And>t p. thr_ok (bs_q leave) t p = thr_ok (bs_q s) t p"
      using queue_ok_cong [of "bs_q leave" "bs_q s"] y(1)
      by (auto simp: leave_def open_reqs_def open_elems_def thr_ok_def)
    have n: "in_flight (bs_pc leave t) = None" "\<And>t'. t' \<noteq> t \<Longrightarrow> bs_pc leave t' = bs_pc s t'" by (auto simp: leave_def)
    show ?thesis unfolding sys_def
    proof (intro conjI)
      show "\<forall>t'\<ge>8. bs_pc leave t' = Exited" using y(2) n t by (metis not_less)
      show "\<forall>t'. t' \<notin> {} \<longrightarrow> thr_ok (bs_q leave) t' (bs_pc leave t')"
        unfolding q(4) using y(3) n by (metis thr_ok_def option.distinct(1) singletonD)
      show "\<forall>e\<in>set (bc_busyq (bs_q leave)). \<exists>t'. t' \<notin> {} \<and> in_flight (bs_pc leave t') = Some e"
        unfolding q(3) using y(4) n by (metis empty_iff singletonI)
      show "bc_work_count (bs_q leave) = int (card {t'. t' \<notin> {} \<and> in_flight (bs_pc leave t') \<noteq> None} + card {})"
        using y(5) flight by (simp add: leave_def)
    qed (use q y(6) in \<open>simp_all add: leave_def\<close>)
  qed
  show thesis
  proof (cases "bc_paused (bs_q s)")
    case True
    then show thesis using that [of leave] \<open>sys rq {} leave\<close> by (simp add: thr_tail_def leave_def Let_def)
  next
    case False
    from y(1) show thesis
    proof (cases rule: dequeue_cases [where t = t])
      case none
      then show thesis using that [of leave] \<open>sys rq {} leave\<close> False by (simp add: thr_tail_def leave_def Let_def)
    next
      case (some be bc')
      define s' where "s' = s\<lparr>bs_q := bc', bs_pc := (bs_pc s)(t := Proc be)\<rparr>"
      have tl: "thr_tail s t = Some s'" using some(1) False by (simp add: thr_tail_def s'_def Let_def)
      have nb: "be \<notin> set (bc_busyq (bs_q s))" using some(2) queue_okD(6) [OF y(1)] by blast
      have set_b: "set (bc_busyq bc') = insert be (set (bc_busyq (bs_q s)))" using some(5) by simp
      have "bc_reqs bc' x = bc_reqs (bs_q s) x" if "x \<in> set (bc_busyq (bs_q s))" for x using that nb some(7) by metis
      then have "open_elems bc' = open_elems (bs_q s)"
        using some(2,4,5,8) nb queue_okD(2,6) [OF y(1)] by (auto simp: open_elems_def set_remove1_eq)
      then have o: "open_reqs bc' = open_reqs (bs_q s)"
        using some(7,10) by (intro open_reqs_same) metis+
      have "sys rq {} s'" unfolding sys_def
      proof (intro conjI)
        show "queue_ok rq (bs_q s')" using some(3) by (simp add: s'_def)
        show "\<forall>t'\<ge>8. bs_pc s' t' = Exited" using y(2) t by (auto simp: s'_def)
        show "\<forall>t'. t' \<notin> {} \<longrightarrow> thr_ok (bs_q s') t' (bs_pc s' t')"
        proof (intro allI impI)
          fix t'
          show "thr_ok (bs_q s') t' (bs_pc s' t')"
          proof (cases "t' = t")
            case True
            then show ?thesis using some(8,9) set_b by (simp add: thr_ok_def s'_def)
          next
            case False
            then have "thr_ok (bs_q s) t' (bs_pc s t')" using y(3) by simp
            then have "thr_ok bc' t' (bs_pc s t')" by (rule thr_ok_frame) (use nb some(7) set_b in \<open>metis insertCI\<close>)
            then show ?thesis using False by (simp add: s'_def)
          qed
        qed
        show "\<forall>e\<in>set (bc_busyq (bs_q s')). \<exists>t'. t' \<notin> {} \<and> in_flight (bs_pc s' t') = Some e"
        proof
          fix e assume "e \<in> set (bc_busyq (bs_q s'))"
          then consider "e = be" | "e \<in> set (bc_busyq (bs_q s))" using set_b by (auto simp: s'_def)
          then show "\<exists>t'. t' \<notin> {} \<and> in_flight (bs_pc s' t') = Some e"
          proof cases
            case 1
            then show ?thesis by (auto simp: s'_def)
          next
            case 2
            then show ?thesis using y(4) by (fastforce simp: s'_def)
          qed
        qed
        show "bc_work_count (bs_q s') = int (card {t'. t' \<notin> {} \<and> in_flight (bs_pc s' t') \<noteq> None} + card {})"
          using y(5) some(13) in_flight_finite [OF ok] flight [of "Proc be"] by (simp add: s'_def)
        show "mset (bs_accepted s') = mset (bs_called s') + mset (bs_cancelled s') + open_reqs (bs_q s')"
          using y(6) o by (simp add: s'_def)
      qed
      with tl show thesis by (rule that)
    qed
  qed
qed

lemma head_ok:
  assumes ok: "sys rq {} s" and t: "bs_pc s t = Loop_head"
  shows "t < BLOCKIF_NUMTHR" "sys rq {t} (s\<lparr>bs_q := (bs_q s)\<lparr>bc_work_count := bc_work_count (bs_q s) + 1\<rparr>\<rparr>)"
proof -
  note y = sysD [OF ok]
  show "t < BLOCKIF_NUMTHR" using y(2) [of t] t by (cases "t < BLOCKIF_NUMTHR") auto
  have "{t'. t' \<notin> {t} \<and> in_flight (bs_pc s t') \<noteq> None} = {t'. t' \<notin> {} \<and> in_flight (bs_pc s t') \<noteq> None}"
    using t by auto
  moreover have "\<exists>t'. t' \<notin> {t} \<and> in_flight (bs_pc s t') = Some e" if "e \<in> set (bc_busyq (bs_q s))" for e
    using y(4) [OF that] t by (metis in_flight.simps(3) option.distinct(1) singletonD)
  ultimately show "sys rq {t} (s\<lparr>bs_q := (bs_q s)\<lparr>bc_work_count := bc_work_count (bs_q s) + 1\<rparr>\<rparr>)"
    using y queue_ok_cong [of "(bs_q s)\<lparr>bc_work_count := bc_work_count (bs_q s) + 1\<rparr>" "bs_q s"]
    by (simp add: sys_def thr_ok_def open_reqs_def open_elems_def)
qed

lemma proc_ok:
  assumes ok: "sys rq {} s" and t: "bs_pc s t = Proc be"
  shows "sys rq {} (proc_end s t be)"
proof -
  note y = sysD [OF ok]
  have be: "be \<in> set (bc_busyq (bs_q s))" "be_tid (bc_reqs (bs_q s) be) = Some t" "be_status (bc_reqs (bs_q s) be) = BST_BUSY"
    using y(3) [of t] t by (auto simp: thr_ok_def)
  obtain r where r: "be_req (bc_reqs (bs_q s) be) = Some r" using queue_okD(12) [OF y(1) be(1)] by blast
  define bc' where "bc' = upd_elem be (\<lambda>x. x\<lparr>be_status := BST_DONE\<rparr>) (bs_q s)"
  have qs: "bc_pendq bc' = bc_pendq (bs_q s)" "bc_busyq bc' = bc_busyq (bs_q s)" "bc_freeq bc' = bc_freeq (bs_q s)"
    "bc_work_count bc' = bc_work_count (bs_q s)" by (simp_all add: bc'_def upd_elem_def)
  have reqs: "bc_reqs bc' e = (if e = be then (bc_reqs (bs_q s) be)\<lparr>be_status := BST_DONE\<rparr> else bc_reqs (bs_q s) e)" for e
    by (simp add: bc'_def upd_elem_def)
  have np: "be \<notin> set (bc_pendq (bs_q s))" "be \<notin> set (bc_freeq (bs_q s))" using be(1) queue_okD(5,6) [OF y(1)] by auto
  have "blocked_ok rq bc'"
    using queue_okD(13) [OF y(1)] unfolding blocked_ok_def qs chained_def by (simp add: reqs) metis
  then have q: "queue_ok rq bc'"
    using y(1) np unfolding queue_ok_def qs by (auto simp: reqs)
  have "open_elems (bs_q s) = insert be (open_elems bc')" "be \<notin> open_elems bc'"
    using be np by (auto simp: open_elems_def qs reqs)
  then have o: "open_reqs (bs_q s) = add_mset r (open_reqs bc')"
    by (rule open_reqs_insert) (use r in \<open>auto simp: reqs\<close>)
  have fl: "in_flight (((bs_pc s)(t := Proc_done be)) t') = in_flight (bs_pc s t')" for t' using t by simp
  have other: "thr_ok bc' t' (bs_pc s t')" if "t' \<noteq> t" for t'
    using y(3) [of t'] by (rule thr_ok_frame) (use that be(2) y(3) [of t'] in \<open>auto simp: qs reqs thr_ok_def\<close>)
  have st: "bs_q (proc_end s t be) = bc'" "bs_pc (proc_end s t be) = (bs_pc s)(t := Proc_done be)"
    "bs_called (proc_end s t be) = bs_called s @ [r]" "bs_accepted (proc_end s t be) = bs_accepted s"
    "bs_cancelled (proc_end s t be) = bs_cancelled s" by (simp_all add: proc_end_def bc'_def r)
  show ?thesis unfolding sys_def st qs fl
  proof (intro conjI)
    show "\<forall>t'\<ge>8. ((bs_pc s)(t := Proc_done be)) t' = Exited" using y(2) t by fastforce
    show "\<forall>t'. t' \<notin> {} \<longrightarrow> thr_ok bc' t' (((bs_pc s)(t := Proc_done be)) t')"
      using other be by (auto simp: thr_ok_def reqs qs)
    show "mset (bs_accepted s) = mset (bs_called s @ [r]) + mset (bs_cancelled s) + open_reqs bc'"
      using y(6) o by simp
  qed (use q y(4,5) in auto)
qed

lemma complete_frame:
  assumes "queue_ok rq bc" "be \<in> set (bc_pendq bc) \<union> set (bc_busyq bc)" "e \<in> set (bc_busyq bc)" "e \<noteq> be"
  shows "bc_reqs (blockif_complete rq bc be) e = bc_reqs bc e"
  using complete_spec(5) [OF assms(1,2,4)] assms(3) queue_okD(6) [OF assms(1)] by auto

lemma completed_ok:
  assumes ok: "sys rq {} s" and t: "bs_pc s t = Proc_done be"
  shows "t < BLOCKIF_NUMTHR" "sys rq {t} (s\<lparr>bs_q := blockif_complete rq (bs_q s) be\<rparr>)"
proof -
  note y = sysD [OF ok]
  show "t < BLOCKIF_NUMTHR" using y(2) [of t] t by (cases "t < BLOCKIF_NUMTHR") auto
  have be: "be \<in> set (bc_busyq (bs_q s))" "be_tid (bc_reqs (bs_q s) be) = Some t" "be_status (bc_reqs (bs_q s) be) = BST_DONE"
    using y(3) [of t] t by (auto simp: thr_ok_def)
  then have be': "be \<in> set (bc_pendq (bs_q s)) \<union> set (bc_busyq (bs_q s))" by blast
  note c = complete_spec [OF y(1) be'] and fr = complete_frame [OF y(1) be']
  define bc' where "bc' = blockif_complete rq (bs_q s) be"
  have np: "be \<notin> set (bc_pendq (bs_q s))" using be(1) queue_okD(6) [OF y(1)] by blast
  have busy: "set (bc_busyq bc') = set (bc_busyq (bs_q s)) - {be}" "set (bc_pendq bc') = set (bc_pendq (bs_q s))"
    using c(2,3) queue_okD(3) [OF y(1)] np by (simp_all add: bc'_def set_remove1_eq remove1_idem)
  have "x \<in> set (bc_busyq bc') \<and> be_status (bc_reqs bc' x) = BST_BUSY \<longleftrightarrow>
      x \<in> set (bc_busyq (bs_q s)) \<and> be_status (bc_reqs (bs_q s) x) = BST_BUSY" for x
    using fr [of x] busy be(3) by (cases "x = be") (auto simp: bc'_def)
  then have "open_elems bc' = open_elems (bs_q s)" using busy by (simp add: open_elems_def)
  moreover have "be_req (bc_reqs bc' e) = be_req (bc_reqs (bs_q s) e)" if "e \<in> open_elems (bs_q s)" for e
  proof -
    have "e \<noteq> be" using that np be(3) by (auto simp: open_elems_def)
    then show ?thesis using c(9) by (simp add: bc'_def)
  qed
  ultimately have o: "open_reqs bc' = open_reqs (bs_q s)" by (rule open_reqs_same)
  have fl: "{t'. in_flight (bs_pc s t') \<noteq> None} = insert t {t'. t' \<noteq> t \<and> in_flight (bs_pc s t') \<noteq> None}" using t by auto
  have other: "in_flight (bs_pc s t') \<noteq> Some be" if "t' \<noteq> t" for t' using y(3) [of t'] be(2) that by (auto simp: thr_ok_def)
  have "sys rq {t} (s\<lparr>bs_q := bc'\<rparr>)" unfolding sys_def
  proof (intro conjI)
    show "queue_ok rq (bs_q (s\<lparr>bs_q := bc'\<rparr>))" using c(1) by (simp add: bc'_def)
    show "\<forall>t' \<ge> 8. bs_pc (s\<lparr>bs_q := bc'\<rparr>) t' = Exited" using y(2) by simp
    show "\<forall>t'. t' \<notin> {t} \<longrightarrow> thr_ok (bs_q (s\<lparr>bs_q := bc'\<rparr>)) t' (bs_pc (s\<lparr>bs_q := bc'\<rparr>) t')"
    proof (intro allI impI)
      fix t' assume "t' \<notin> {t}"
      then have "thr_ok bc' t' (bs_pc s t')"
        by (intro thr_ok_frame [OF y(3)]) (use busy(1) other [of t'] fr in \<open>auto simp: bc'_def\<close>)
      then show "thr_ok (bs_q (s\<lparr>bs_q := bc'\<rparr>)) t' (bs_pc (s\<lparr>bs_q := bc'\<rparr>) t')" by simp
    qed
    show "\<forall>e\<in>set (bc_busyq (bs_q (s\<lparr>bs_q := bc'\<rparr>))). \<exists>t'. t' \<notin> {t} \<and> in_flight (bs_pc (s\<lparr>bs_q := bc'\<rparr>) t') = Some e"
      using y(4) busy(1) t by (simp, metis DiffE in_flight.simps(2) option.inject singletonI)
    show "bc_work_count (bs_q (s\<lparr>bs_q := bc'\<rparr>)) =
        int (card {t'. t' \<notin> {t} \<and> in_flight (bs_pc (s\<lparr>bs_q := bc'\<rparr>) t') \<noteq> None} + card {t})"
      using y(5) c(8) in_flight_finite [OF ok] fl by (simp add: bc'_def)
    show "mset (bs_accepted (s\<lparr>bs_q := bc'\<rparr>)) = mset (bs_called (s\<lparr>bs_q := bc'\<rparr>)) + mset (bs_cancelled (s\<lparr>bs_q := bc'\<rparr>)) +
        open_reqs (bs_q (s\<lparr>bs_q := bc'\<rparr>))"
      using y(6) o by simp
  qed
  then show "sys rq {t} (s\<lparr>bs_q := blockif_complete rq (bs_q s) be\<rparr>)" by (simp add: bc'_def)
qed

text \<open>Changes of the queues by other threads, with the workers only woken.\<close>

lemma sys_outside:
  assumes ok: "sys rq {} s" and q: "queue_ok rq bc'" and pc: "\<And>t. in_flight (pc' t) = in_flight (bs_pc s t) \<and> (bs_pc s t = Exited \<longrightarrow> pc' t = Exited) \<and>
      (in_flight (bs_pc s t) \<noteq> None \<longrightarrow> pc' t = bs_pc s t)"
    and busy: "bc_busyq bc' = bc_busyq (bs_q s)" "\<And>e. e \<in> set (bc_busyq (bs_q s)) \<Longrightarrow> bc_reqs bc' e = bc_reqs (bs_q s) e"
    and w: "bc_work_count bc' = bc_work_count (bs_q s)"
    and led: "mset acc = mset (bs_called s) + mset canc + open_reqs bc'"
  shows "sys rq {} (s\<lparr>bs_q := bc', bs_pc := pc', bs_accepted := acc, bs_cancelled := canc\<rparr>)"
proof -
  note y = sysD [OF ok]
  have fl: "in_flight (pc' t) = in_flight (bs_pc s t)" for t using pc by blast
  have th: "thr_ok bc' t (pc' t)" for t
  proof (cases "in_flight (bs_pc s t)")
    case None
    then show ?thesis using fl by (intro thr_ok_idle) simp
  next
    case (Some e)
    then have "pc' t = bs_pc s t" using pc by blast
    moreover have "thr_ok bc' t (bs_pc s t)" by (rule thr_ok_frame [OF y(3)]) (use busy in auto)
    ultimately show ?thesis by simp
  qed
  show ?thesis using y(2,4,5) q th led w busy(1) pc unfolding sys_def by (simp add: fl)
qed

lemma wake_pc: "in_flight (wake W pc t) = in_flight (pc t) \<and> (pc t = Exited \<longrightarrow> wake W pc t = Exited) \<and>
    (in_flight (pc t) \<noteq> None \<longrightarrow> wake W pc t = pc t)"
  by (simp add: wake_def)

lemma wake_paused_pc: "in_flight (wake_paused pc t) = in_flight (pc t) \<and> (pc t = Exited \<longrightarrow> wake_paused pc t = Exited) \<and>
    (in_flight (pc t) \<noteq> None \<longrightarrow> wake_paused pc t = pc t)"
  by (simp add: wake_paused_def)

lemma request_ok:
  assumes ok: "sys rq {} s"
  obtains s' where "bs_request rq s r op W = Some s'" "sys rq {} s'"
proof (cases "bc_freeq (bs_q s)")
  case Nil
  then show thesis using ok that [of s] by (simp add: bs_request_def blockif_request_def)
next
  case (Cons be fq)
  note y = sysD [OF ok]
  obtain sig bc' where e: "blockif_enqueue rq (bs_q s) r op = Some (sig, bc')" "queue_ok rq bc'"
    and qs: "bc_pendq bc' = bc_pendq (bs_q s) @ [be]" "bc_busyq bc' = bc_busyq (bs_q s)"
    and reqs: "\<And>e. e \<noteq> be \<Longrightarrow> bc_reqs bc' e = bc_reqs (bs_q s) e" "be_req (bc_reqs bc' be) = Some r"
    and w: "bc_work_count bc' = bc_work_count (bs_q s)"
    by (rule enqueue_spec [OF y(1) Cons, where r = r and op = op]) (rule that)
  have new: "be \<notin> set (bc_pendq (bs_q s))" "be \<notin> set (bc_busyq (bs_q s))"
    using Cons queue_okD(4,5) [OF y(1)] by auto
  then have same: "e \<in> set (bc_busyq (bs_q s)) \<Longrightarrow> bc_reqs bc' e = bc_reqs (bs_q s) e" for e using reqs(1) by metis
  have "open_elems bc' = insert be (open_elems (bs_q s))" "be \<notin> open_elems (bs_q s)"
    using qs new same by (auto simp: open_elems_def)
  then have o: "open_reqs bc' = add_mset r (open_reqs (bs_q s))"
    by (rule open_reqs_insert) (use reqs \<open>be \<notin> open_elems (bs_q s)\<close> in metis)+
  define s' where "s' = s\<lparr>bs_q := bc', bs_pc := (if sig then wake W (bs_pc s) else bs_pc s), bs_accepted := r # bs_accepted s,
      bs_cancelled := bs_cancelled s\<rparr>"
  have "sys rq {} s'" unfolding s'_def
    by (rule sys_outside [OF ok e(2) _ qs(2) same w]) (use wake_pc [of W "bs_pc s"] y(6) o in simp_all)
  moreover have "bs_request rq s r op W = Some s'"
    using e(1) Cons by (simp add: bs_request_def blockif_request_def s'_def)
  ultimately show thesis using that by blast
qed

lemma cancel_ok:
  assumes ok: "sys rq {} s"
  shows "sys rq {} (bs_cancel rq s r)"
proof (cases "find (\<lambda>e. be_req (bc_reqs (bs_q s) e) = Some r) (bc_pendq (bs_q s))")
  case None
  then show ?thesis using ok by (simp add: bs_cancel_def blockif_cancel_def split: option.split)
next
  case (Some be)
  note y = sysD [OF ok]
  have be: "be \<in> set (bc_pendq (bs_q s))" "be_req (bc_reqs (bs_q s) be) = Some r"
    using Some by (auto simp: find_Some_iff)
  then have be': "be \<in> set (bc_pendq (bs_q s)) \<union> set (bc_busyq (bs_q s))" by blast
  define bc' where "bc' = blockif_complete rq (bs_q s) be"
  note c = complete_spec [OF y(1) be', folded bc'_def] and fr = complete_frame [OF y(1) be', folded bc'_def]
  have nb: "be \<notin> set (bc_busyq (bs_q s))" using be(1) queue_okD(6) [OF y(1)] by blast
  then have busy: "bc_busyq bc' = bc_busyq (bs_q s)" using c(3) by (simp add: remove1_idem)
  have same: "bc_reqs bc' e = bc_reqs (bs_q s) e" if "e \<in> set (bc_busyq (bs_q s))" for e using fr that nb by metis
  have "open_elems (bs_q s) = insert be (open_elems bc')" "be \<notin> open_elems bc'"
    using c(2) busy same be nb queue_okD(2) [OF y(1)] by (auto simp: open_elems_def set_remove1_eq)
  then have o: "open_reqs (bs_q s) = add_mset r (open_reqs bc')"
    by (rule open_reqs_insert [OF _ _ be(2)]) (use c(9) \<open>be \<notin> open_elems bc'\<close> in metis)
  have "sys rq {} (s\<lparr>bs_q := bc', bs_pc := bs_pc s, bs_accepted := bs_accepted s, bs_cancelled := r # bs_cancelled s\<rparr>)"
    by (rule sys_outside [OF ok c(1) _ busy same c(8)]) (use y(6) o in simp_all)
  then show ?thesis using Some by (simp add: bs_cancel_def blockif_cancel_def bc'_def)
qed

lemma sys_flags:
  assumes "sys rq {} s" "\<And>t. in_flight (pc' t) = in_flight (bs_pc s t) \<and> (bs_pc s t = Exited \<longrightarrow> pc' t = Exited) \<and>
      (in_flight (bs_pc s t) \<noteq> None \<longrightarrow> pc' t = bs_pc s t)"
    "bc_reqs bc' = bc_reqs (bs_q s)" "bc_freeq bc' = bc_freeq (bs_q s)" "bc_pendq bc' = bc_pendq (bs_q s)"
    "bc_busyq bc' = bc_busyq (bs_q s)" "bc_work_count bc' = bc_work_count (bs_q s)"
  shows "sys rq {} (s\<lparr>bs_q := bc', bs_pc := pc'\<rparr>)"
proof -
  have "open_reqs bc' = open_reqs (bs_q s)" by (rule open_reqs_same) (simp_all add: open_elems_def assms)
  then show ?thesis
    using sys_outside [OF assms(1) _ assms(2,6), of "bs_accepted s" "bs_cancelled s"] sysD(1,6) [OF assms(1)]
      queue_ok_cong [OF assms(3-6)] assms(3,7) by simp
qed

lemma bstep_ok: "bstep rq s s' \<Longrightarrow> sys rq {} s \<Longrightarrow> sys rq {} s'"
proof (induction rule: bstep.induct)
  case (request s breq op W s')
  then show ?case using request_ok [of rq s breq op W] by (metis option.inject)
next
  case (request_no_waiter s breq op W s')
  then show ?case using request_ok [of rq s breq op W] by (metis option.inject)
next
  case (spurious s t)
  then show ?case using sys_flags [of rq s "wake {t} (bs_pc s)" "bs_q s"] wake_pc by simp
next
  case (head s t s')
  then show ?case unfolding thr_head_def using tail_ok [OF head_ok(2,1) [of rq s t]] by (metis option.inject)
next
  case (complete s t be s')
  then show ?case unfolding thr_complete_def using tail_ok [OF completed_ok(2,1) [of rq s t be]] by (metis option.inject)
next
  case (close s)
  then show ?case unfolding bs_close_def by (rule sys_flags) (use wake_pc in auto)
qed (rule proc_ok cancel_ok, assumption+)+

lemma pstep_ok: "pstep rq s s' \<Longrightarrow> sys rq {} s \<Longrightarrow> sys rq {} s'"
proof (induction rule: pstep.induct)
  case (pause s)
  then show ?case unfolding blockif_pause_def using sys_flags [of rq s "bs_pc s" "(bs_q s)\<lparr>bc_paused := True\<rparr>"] by simp
next
  case (resume s)
  then show ?case unfolding blockif_resume_def
    by (rule sys_flags) (use wake_pc wake_paused_pc in \<open>auto simp: wake_def wake_paused_def\<close>)
next
  case (woken s t)
  then show ?case unfolding thr_woken_def
    using sys_flags [of rq s "(bs_pc s)(t := if bc_paused (bs_q s) then Wait_paused else Wait_cond)" "bs_q s"] by simp
qed (rule bstep_ok)

section \<open>Properties\<close>

lemma reachable_sys: "(pstep rq)\<^sup>*\<^sup>* bs_init s \<Longrightarrow> sys rq {} s"
  by (induction rule: rtranclp_induct) (auto intro: sys_init pstep_ok)

text \<open>A context on which one read of a block at offset 0 was queued.\<close>

definition rq_demo :: "nat \<Rightarrow> blockif_req" where
  "rq_demo r = \<lparr>br_offset = 512 * int r, br_iov_len = [512]\<rparr>"

lemma init_freeq: "bc_freeq queue_init = 135 # rev [0..<135]"
  using upt_Suc_append [of 0 135] by (simp add: queue_init_def)

lemma bs_demo_step:
  obtains s where "bs_request rq_demo bs_init 0 BOP_READ {} = Some s" "bstep rq_demo bs_init s"
proof -
  obtain s where s: "bs_request rq_demo bs_init 0 BOP_READ {} = Some s" by (rule request_ok [OF sys_init])
  moreover have "bstep rq_demo bs_init s"
    by (rule request_no_waiter [OF s]) (simp add: bs_init_def)
  ultimately show thesis by (rule that)
qed

text \<open>C19. Requests are neither lost nor duplicated: in every state the context can reach, paused or not, the
  requests accepted are, with their multiplicity, those whose callback ran, those cancelled and those still
  open; every element is on exactly one of the three queues; no two workers hold the same element; no
  assertion of the queue code can fail, neither in a new request nor in the next section of any worker.\<close>

theorem blockif_requests_conserved:
  assumes "(pstep rq)\<^sup>*\<^sup>* bs_init s"
  shows "mset (bs_accepted s) = mset (bs_called s) + mset (bs_cancelled s) + open_reqs (bs_q s) \<and>
    mset (bc_freeq (bs_q s) @ bc_pendq (bs_q s) @ bc_busyq (bs_q s)) = mset_set {0..<BLOCKIF_MAXREQ} \<and>
    (\<forall>t t' e. in_flight (bs_pc s t) = Some e \<and> in_flight (bs_pc s t') = Some e \<longrightarrow> t = t') \<and>
    bs_request rq s r op W \<noteq> None \<and>
    (\<forall>t. (bs_pc s t = Loop_head \<longrightarrow> thr_head s t \<noteq> None) \<and>
       (\<forall>e. bs_pc s t = Proc_done e \<longrightarrow> thr_complete rq s t e \<noteq> None))"
proof -
  have ok: "sys rq {} s" by (rule reachable_sys [OF assms])
  note y = sysD [OF ok]
  have "mset (bc_freeq (bs_q s) @ bc_pendq (bs_q s) @ bc_busyq (bs_q s)) = mset_set {0..<BLOCKIF_MAXREQ}"
    using y(1) unfolding queue_ok_def by (metis mset_set_set)
  moreover have "t = t'" if "in_flight (bs_pc s t) = Some e" "in_flight (bs_pc s t') = Some e" for t t' e
    using y(3) [of t] y(3) [of t'] that by (simp add: thr_ok_def)
  moreover have "bs_request rq s r op W \<noteq> None" by (rule request_ok [OF ok, of r op W]) simp
  moreover have "thr_head s t \<noteq> None" if "bs_pc s t = Loop_head" for t
    unfolding thr_head_def using tail_ok [OF head_ok(2,1) [OF ok that]] by (metis option.distinct(1))
  moreover have "thr_complete rq s t e \<noteq> None" if "bs_pc s t = Proc_done e" for t e
    unfolding thr_complete_def using tail_ok [OF completed_ok(2,1) [OF ok that]] by (metis option.distinct(1))
  ultimately show ?thesis using y(6) by blast
qed

theorem blockif_requests_conserved_witness:
  "\<exists>s. bs_request rq_demo bs_init 0 BOP_READ {} = Some s \<and> open_reqs (bs_q s) = {#0#} \<and>
     bs_request rq_demo s 1 BOP_WRITE {} \<noteq> None"
proof -
  obtain s where s: "bs_request rq_demo bs_init 0 BOP_READ {} = Some s" "bstep rq_demo bs_init s" by (rule bs_demo_step)
  have "(pstep rq_demo)\<^sup>*\<^sup>* bs_init s" by (rule r_into_rtranclp [of "pstep rq_demo"]) (rule worker [OF s(2)])
  note c = blockif_requests_conserved [OF this, of 1 BOP_WRITE "{}"]
  have "bs_accepted s = [0]" "bs_called s = []" "bs_cancelled s = []"
    using s(1) by (auto simp: bs_request_def blockif_request_def bs_init_def queue_init_def
        split: option.splits bind_splits if_splits)
  then show ?thesis using c s(1) by auto
qed

section \<open>Wake-ups\<close>

definition active :: "thr_pc \<Rightarrow> bool" where
  "active p \<longleftrightarrow> p = Loop_head \<or> in_flight p \<noteq> None"

text \<open>Without pauses: a worker waits only on \<^verbatim>\<open>bc_cond\<close>, none is gone before the close, and while a
  request can be taken some worker is awake.\<close>

definition awake_ok :: "bstate \<Rightarrow> bool" where
  "awake_ok s \<longleftrightarrow> \<not> bc_paused (bs_q s) \<and> (\<not> bc_closing (bs_q s) \<longrightarrow>
     (\<forall>t < BLOCKIF_NUMTHR. active (bs_pc s t) \<or> bs_pc s t = Wait_cond) \<and>
     ((\<exists>e \<in> set (bc_pendq (bs_q s)). be_status (bc_reqs (bs_q s) e) = BST_PEND) \<longrightarrow> (\<exists>t. active (bs_pc s t))))"

lemma pending_active:
  assumes "sys rq {} s" "awake_ok s" "\<not> bc_closing (bs_q s)" "bc_pendq (bs_q s) \<noteq> []"
  obtains t where "active (bs_pc s t)"
proof (cases "bc_busyq (bs_q s)")
  case Nil
  obtain e where "e \<in> set (bc_pendq (bs_q s))" "be_status (bc_reqs (bs_q s) e) = BST_PEND"
    by (rule not_stuck [OF sysD(1) [OF assms(1)] assms(4) Nil])
  then show thesis using assms(2,3) that by (auto simp: awake_ok_def)
next
  case (Cons e es)
  then obtain t where "in_flight (bs_pc s t) = Some e" using sysD(4) [OF assms(1), of e] by auto
  then show thesis using that [of t] by (simp add: active_def)
qed

lemma tail_awake:
  assumes ok: "sys rq {t} s" and t: "t < BLOCKIF_NUMTHR" and aw: "\<not> bc_paused (bs_q s)"
    "\<not> bc_closing (bs_q s) \<longrightarrow> (\<forall>t' < BLOCKIF_NUMTHR. t' \<noteq> t \<longrightarrow> active (bs_pc s t') \<or> bs_pc s t' = Wait_cond)"
    and tl: "thr_tail s t = Some s'"
  shows "awake_ok s'"
  using sysD(1) [OF ok]
proof (cases rule: dequeue_cases [where t = t])
  case none
  then have "bs_q s' = (bs_q s)\<lparr>bc_work_count := bc_work_count (bs_q s) - 1\<rparr>"
    "bs_pc s' = (bs_pc s)(t := if bc_closing (bs_q s) then Exited else Wait_cond)"
    using tl aw(1) by (auto simp: thr_tail_def Let_def)
  then show ?thesis using none(2) aw by (auto simp: awake_ok_def)
next
  case (some be bc')
  then have "s' = s\<lparr>bs_q := bc', bs_pc := (bs_pc s)(t := Proc be)\<rparr>"
    using tl aw(1) by (simp add: thr_tail_def Let_def)
  then show ?thesis using some(11,12) aw by (auto simp: awake_ok_def active_def intro: exI [of _ t])
qed

lemma wake_active: "active (pc t) \<Longrightarrow> active (wake W pc t)"
  by (auto simp: wake_def active_def)

lemma request_awake:
  assumes ok: "sys rq {} s" and aw: "awake_ok s" and rq: "bs_request rq s r op W = Some s'"
    and W: "(\<exists>t \<in> W. bs_pc s t = Wait_cond) \<or> (\<forall>t. bs_pc s t \<noteq> Wait_cond)"
  shows "awake_ok s'"
proof (cases "bc_freeq (bs_q s)")
  case Nil
  then show ?thesis using rq aw by (auto simp: bs_request_def blockif_request_def)
next
  case (Cons be fq)
  obtain sig bc' where e: "blockif_enqueue rq (bs_q s) r op = Some (sig, bc')"
    and qs: "bc_pendq bc' = bc_pendq (bs_q s) @ [be]" "bc_paused bc' = bc_paused (bs_q s)" "bc_closing bc' = bc_closing (bs_q s)"
    and reqs: "\<And>e. e \<noteq> be \<Longrightarrow> bc_reqs bc' e = bc_reqs (bs_q s) e"
    and sig: "sig = (be_status (bc_reqs bc' be) = BST_PEND)"
    by (rule enqueue_spec [OF sysD(1) [OF ok] Cons, where r = r and op = op]) (rule that)
  define pc' where "pc' = (if sig then wake W (bs_pc s) else bs_pc s)"
  have s': "bs_q s' = bc'" "bs_pc s' = pc'"
    using rq e Cons by (auto simp: bs_request_def blockif_request_def pc'_def)
  have act: "active (bs_pc s t) \<Longrightarrow> active (pc' t)" for t using wake_active by (simp add: pc'_def)
  have keep: "active (pc' t) \<or> pc' t = Wait_cond" if "active (bs_pc s t) \<or> bs_pc s t = Wait_cond" for t
    using that act by (auto simp: pc'_def wake_def active_def)
  have "\<exists>t. active (pc' t)" if nc: "\<not> bc_closing (bs_q s)" and p: "x \<in> set (bc_pendq bc')" "be_status (bc_reqs bc' x) = BST_PEND" for x
  proof (cases "x = be")
    case True
    then have "sig" using sig p(2) by simp
    show ?thesis using W
    proof
      assume "\<exists>t \<in> W. bs_pc s t = Wait_cond"
      then obtain t where "t \<in> W" "bs_pc s t = Wait_cond" by blast
      then have "pc' t = Loop_head" using \<open>sig\<close> by (simp add: pc'_def wake_def)
      then show ?thesis by (auto simp: active_def)
    next
      assume "\<forall>t. bs_pc s t \<noteq> Wait_cond"
      then have "active (bs_pc s 0)" using aw nc by (auto simp: awake_ok_def)
      then show ?thesis using act by blast
    qed
  next
    case False
    then have "x \<in> set (bc_pendq (bs_q s))" "be_status (bc_reqs (bs_q s) x) = BST_PEND" using p qs(1) reqs by auto
    then show ?thesis using aw nc act by (auto simp: awake_ok_def)
  qed
  then show ?thesis using aw keep qs(2,3) unfolding awake_ok_def s' by blast
qed

lemma proc_awake: "awake_ok s \<Longrightarrow> bs_pc s t = Proc be \<Longrightarrow> sys rq {} s \<Longrightarrow> awake_ok (proc_end s t be)"
  by (auto simp: awake_ok_def proc_end_def upd_elem_def active_def intro: exI [of _ t])

lemma cancel_awake:
  assumes ok: "sys rq {} s" and aw: "awake_ok s"
  shows "awake_ok (bs_cancel rq s r)"
proof (cases "find (\<lambda>e. be_req (bc_reqs (bs_q s) e) = Some r) (bc_pendq (bs_q s))")
  case None
  then show ?thesis using aw by (simp add: bs_cancel_def blockif_cancel_def split: option.split)
next
  case (Some be)
  then have be: "be \<in> set (bc_pendq (bs_q s))" by (auto simp: find_Some_iff)
  then have be': "be \<in> set (bc_pendq (bs_q s)) \<union> set (bc_busyq (bs_q s))" by blast
  note c = complete_spec [OF sysD(1) [OF ok] be']
  have "\<exists>t. active (bs_pc s t)" if "\<not> bc_closing (bs_q s)"
    using pending_active [OF ok aw that] be by (metis list.set(1) empty_iff)
  then show ?thesis using aw Some c(6,7)
    by (auto simp: awake_ok_def bs_cancel_def blockif_cancel_def)
qed

lemma bstep_awake:
  assumes "bstep rq s s'" "sys rq {} s" "awake_ok s"
  shows "awake_ok s'"
  using assms
proof (induction rule: bstep.induct)
  case (request s breq op W s')
  then show ?case using request_awake by blast
next
  case (request_no_waiter s breq op W s')
  then show ?case using request_awake by blast
next
  case (spurious s t)
  then show ?case by (auto simp: awake_ok_def wake_def active_def)
next
  case (head s t s')
  show ?case
    by (rule tail_awake [OF head_ok(2,1) [OF head.prems(1) head.hyps(1)] _ _ head.hyps(2) [unfolded thr_head_def]])
       (use head.prems(2) in \<open>auto simp: awake_ok_def\<close>)
next
  case (proc s t be)
  then show ?case using proc_awake by blast
next
  case (complete s t be s')
  have "be \<in> set (bc_busyq (bs_q s))" using sysD(3) [OF complete.prems(1), of t] complete.hyps(1) by (simp add: thr_ok_def)
  then have "be \<in> set (bc_pendq (bs_q s)) \<union> set (bc_busyq (bs_q s))" by blast
  note c = complete_spec(6,7) [OF sysD(1) [OF complete.prems(1)] this]
  show ?case
    by (rule tail_awake [OF completed_ok(2,1) [OF complete.prems(1) complete.hyps(1)] _ _ complete.hyps(2) [unfolded thr_complete_def]])
       (use complete.prems(2) c in \<open>auto simp: awake_ok_def\<close>)
next
  case (cancel s breq)
  then show ?case using cancel_awake by blast
next
  case (close s)
  then show ?case by (simp add: awake_ok_def bs_close_def)
qed

lemma reachable_awake:
  assumes "(bstep rq)\<^sup>*\<^sup>* bs_init s"
  shows "sys rq {} s \<and> awake_ok s"
  using assms
proof (induction rule: rtranclp_induct)
  case base
  have "bs_pc bs_init t = Loop_head" if "t < BLOCKIF_NUMTHR" for t using that by (simp add: bs_init_def)
  then show ?case using sys_init
    by (auto simp: awake_ok_def active_def) (simp_all add: bs_init_def queue_init_def)
qed (use bstep_ok bstep_awake in blast)

text \<open>C20. No request waits for ever on a sleeping pool: in every state reached without a pause and before the
  close, if a request is pending then some worker is awake; the pool can make a step, and a worker that is at
  the head of its loop when a request is ready to run takes a request.\<close>

theorem blockif_no_lost_wakeup:
  assumes "(bstep rq)\<^sup>*\<^sup>* bs_init s" "\<not> bc_closing (bs_q s)" "bc_pendq (bs_q s) \<noteq> []"
  shows "\<exists>t < BLOCKIF_NUMTHR. active (bs_pc s t) \<and> (\<exists>s'. bstep rq s s' \<and> bs_pc s' t \<noteq> bs_pc s t) \<and>
    (bs_pc s t = Loop_head \<and> (\<exists>e \<in> set (bc_pendq (bs_q s)). be_status (bc_reqs (bs_q s) e) = BST_PEND) \<longrightarrow>
       (\<exists>e s'. thr_head s t = Some s' \<and> bs_pc s' t = Proc e))"
proof -
  have ok: "sys rq {} s" and aw: "awake_ok s" using reachable_awake [OF assms(1)] by blast+
  obtain t where t: "active (bs_pc s t)" by (rule pending_active [OF ok aw assms(2,3)])
  have "t < BLOCKIF_NUMTHR" using t sysD(2) [OF ok, of t] by (cases "t < BLOCKIF_NUMTHR") (auto simp: active_def)
  have "\<not> bc_paused (bs_q s)" using aw by (simp add: awake_ok_def)
  have take: "\<exists>e s'. thr_head s t = Some s' \<and> bs_pc s' t = Proc e"
    if h: "bs_pc s t = Loop_head" "e \<in> set (bc_pendq (bs_q s))" "be_status (bc_reqs (bs_q s) e) = BST_PEND" for e
    using sysD(1) [OF head_ok(2) [OF ok h(1)]]
  proof (cases rule: dequeue_cases [where t = t])
    case none
    then show ?thesis using h(2,3) by auto
  next
    case (some be bc')
    then show ?thesis using \<open>\<not> bc_paused (bs_q s)\<close> by (simp add: thr_head_def thr_tail_def Let_def)
  qed
  have moves: "bs_pc s' t \<noteq> p" if "thr_tail u t = Some s'" "p = Loop_head \<or> (\<exists>e. p = Proc_done e)" for u s' p
    using that by (auto simp: thr_tail_def Let_def split: option.splits prod.splits if_splits)
  consider "bs_pc s t = Loop_head" | e where "bs_pc s t = Proc e" | e where "bs_pc s t = Proc_done e"
    using t by (cases "bs_pc s t") (auto simp: active_def)
  then have "\<exists>s'. bstep rq s s' \<and> bs_pc s' t \<noteq> bs_pc s t"
  proof cases
    case 1
    obtain s' where "thr_head s t = Some s'" unfolding thr_head_def by (rule tail_ok [OF head_ok(2,1) [OF ok 1]])
    then show ?thesis using 1 moves [of _ s'] bstep.head unfolding thr_head_def by metis
  next
    case 2
    have "bs_pc (proc_end s t e) t \<noteq> bs_pc s t" using 2 by (simp add: proc_end_def)
    then show ?thesis using bstep.proc [OF 2] by blast
  next
    case 3
    obtain s' where "thr_complete rq s t e = Some s'" unfolding thr_complete_def
      by (rule tail_ok [OF completed_ok(2,1) [OF ok 3]])
    then show ?thesis using 3 moves [of _ s'] bstep.complete unfolding thr_complete_def by metis
  qed
  with t \<open>t < BLOCKIF_NUMTHR\<close> take show ?thesis by blast
qed

theorem blockif_no_lost_wakeup_witness:
  "\<exists>s t. bs_request rq_demo bs_init 0 BOP_READ {} = Some s \<and> bc_pendq (bs_q s) = [135] \<and> active (bs_pc s t)"
proof -
  obtain s where s: "bs_request rq_demo bs_init 0 BOP_READ {} = Some s" "bstep rq_demo bs_init s" by (rule bs_demo_step)
  note f = init_freeq
  have p: "bc_pendq (bs_q s) = [135]" "\<not> bc_closing (bs_q s)"
    using s(1) f by (auto simp: bs_request_def blockif_request_def bs_init_def blockif_enqueue_def Let_def upd_elem_def
        queue_init_def elem_zero_def split: option.splits bind_splits if_splits)
  then have "bc_pendq (bs_q s) \<noteq> []" by simp
  from blockif_no_lost_wakeup [OF r_into_rtranclp [of "bstep rq_demo", OF s(2)] p(2) this] s(1) p(1)
  show ?thesis by blast
qed

text \<open>Pausing breaks this: workers that saw the pause go from \<^verbatim>\<open>bc_paused_cond\<close> straight to
  \<^verbatim>\<open>bc_cond\<close>, after the broadcast that the resume sent there.\<close>

definition stall_pc :: "nat \<Rightarrow> thr_pc \<Rightarrow> thr_pc \<Rightarrow> nat \<Rightarrow> thr_pc" where
  "stall_pc n p p' t = (if t < n then p' else if t < BLOCKIF_NUMTHR then p else Exited)"

lemma stall_pc_upd: "n < BLOCKIF_NUMTHR \<Longrightarrow> (stall_pc n p p')(n := p') = stall_pc (Suc n) p p'"
  by (auto simp: stall_pc_def fun_eq_iff)

lemma stall_all_paused:
  assumes "n \<le> BLOCKIF_NUMTHR" "bc_paused (bs_q s)" "\<not> bc_closing (bs_q s)" "bs_pc s = stall_pc 0 Loop_head Wait_paused"
  shows "(pstep rq)\<^sup>*\<^sup>* s (s\<lparr>bs_pc := stall_pc n Loop_head Wait_paused\<rparr>)"
  using assms(1)
proof (induction n)
  case 0
  then show ?case using assms(4) by (metis bstate.surjective bstate.update_convs(2) rtranclp.rtrancl_refl)
next
  case (Suc n)
  define u where "u = s\<lparr>bs_pc := stall_pc n Loop_head Wait_paused\<rparr>"
  have "thr_head u n = Some (u\<lparr>bs_pc := (stall_pc n Loop_head Wait_paused)(n := Wait_paused)\<rparr>)"
    using assms(2,3) by (simp add: thr_head_def thr_tail_def Let_def u_def)
  moreover have "bs_pc u n = Loop_head" using Suc.prems by (simp add: u_def stall_pc_def)
  ultimately have "pstep rq u (s\<lparr>bs_pc := stall_pc (Suc n) Loop_head Wait_paused\<rparr>)"
    using Suc.prems worker [OF bstep.head] stall_pc_upd [of n] by (simp add: u_def)
  then show ?case using Suc unfolding u_def by simp
qed

lemma stall_all_woken:
  assumes "n \<le> BLOCKIF_NUMTHR" "\<not> bc_paused (bs_q s)" "bs_pc s = stall_pc 0 Woken_paused Wait_cond"
  shows "(pstep rq)\<^sup>*\<^sup>* s (s\<lparr>bs_pc := stall_pc n Woken_paused Wait_cond\<rparr>)"
  using assms(1)
proof (induction n)
  case 0
  then show ?case using assms(3) by (metis bstate.surjective bstate.update_convs(2) rtranclp.rtrancl_refl)
next
  case (Suc n)
  define u where "u = s\<lparr>bs_pc := stall_pc n Woken_paused Wait_cond\<rparr>"
  have "thr_woken u n = u\<lparr>bs_pc := (stall_pc n Woken_paused Wait_cond)(n := Wait_cond)\<rparr>"
    using assms(2) by (simp add: thr_woken_def u_def)
  moreover have "bs_pc u n = Woken_paused" using Suc.prems by (simp add: u_def stall_pc_def)
  ultimately have "pstep rq u (s\<lparr>bs_pc := stall_pc (Suc n) Woken_paused Wait_cond\<rparr>)"
    using Suc.prems pstep.woken [of u n rq] stall_pc_upd [of n] by (simp add: u_def)
  then show ?case using Suc unfolding u_def by simp
qed

text \<open>A stall after resume: the context can reach a state that is neither paused nor closing, with a request
  ready to run, in which all eight workers wait on the condition variable: a request accepted during a
  pause is served only when another one arrives.\<close>

theorem blockif_resume_stalls:
  "\<exists>s e. (pstep rq_demo)\<^sup>*\<^sup>* bs_init s \<and> \<not> bc_paused (bs_q s) \<and> \<not> bc_closing (bs_q s) \<and>
     bc_pendq (bs_q s) = [e] \<and> be_status (bc_reqs (bs_q s) e) = BST_PEND \<and>
     {t. bs_pc s t = Wait_cond} = {..<BLOCKIF_NUMTHR}"
proof -
  define s1 where "s1 = (blockif_pause bs_init)\<lparr>bs_pc := stall_pc 8 Loop_head Wait_paused\<rparr>"
  have "(pstep rq_demo)\<^sup>*\<^sup>* (blockif_pause bs_init) s1" unfolding s1_def
    by (rule stall_all_paused) (auto simp: blockif_pause_def bs_init_def queue_init_def stall_pc_def)
  then have "(pstep rq_demo)\<^sup>*\<^sup>* bs_init s1" by (rule converse_rtranclp_into_rtranclp [of "pstep rq_demo", OF pause])
  have q1: "bs_q s1 = queue_init\<lparr>bc_paused := True\<rparr>" "bs_pc s1 = stall_pc 8 Loop_head Wait_paused"
    by (simp_all add: s1_def blockif_pause_def bs_init_def)
  have ok1: "queue_ok rq_demo (queue_init\<lparr>bc_paused := True\<rparr>)"
    using queue_ok_cong [of "queue_init\<lparr>bc_paused := True\<rparr>" queue_init] queue_ok_init by simp
  have f: "bc_freeq (queue_init\<lparr>bc_paused := True\<rparr>) = 135 # rev [0..<135]"
    using init_freeq by simp
  obtain sig bc where e: "blockif_enqueue rq_demo (queue_init\<lparr>bc_paused := True\<rparr>) 0 BOP_READ = Some (sig, bc)"
    and p: "bc_pendq bc = bc_pendq (queue_init\<lparr>bc_paused := True\<rparr>) @ [135]" "bc_closing bc = bc_closing (queue_init\<lparr>bc_paused := True\<rparr>)"
      "bc_busyq bc = bc_busyq (queue_init\<lparr>bc_paused := True\<rparr>)" and k: "queue_ok rq_demo bc"
    by (rule enqueue_spec [OF ok1 f, where r = 0 and op = BOP_READ]) (rule that)
  have p': "bc_pendq bc = [135]" "\<not> bc_closing bc" "bc_busyq bc = []" using p by (simp_all add: queue_init_def)
  obtain x where "x \<in> set (bc_pendq bc)" "be_status (bc_reqs bc x) = BST_PEND"
    by (rule not_stuck [OF k _ p'(3)]) (simp add: p'(1))
  then have st: "be_status (bc_reqs bc 135) = BST_PEND" using p'(1) by simp
  define s2 where "s2 = s1\<lparr>bs_q := bc, bs_accepted := 0 # bs_accepted s1\<rparr>"
  have nw: "\<forall>t. bs_pc s1 t \<noteq> Wait_cond" by (simp add: q1 stall_pc_def)
  then have w: "wake {} (bs_pc s1) = bs_pc s1" by (simp add: wake_def fun_eq_iff)
  have "bs_request rq_demo s1 0 BOP_READ {} = Some s2"
    using e f w by (simp add: bs_request_def blockif_request_def q1(1) s2_def)
  then have "pstep rq_demo s1 s2" using nw by (intro worker request_no_waiter)
  define s3 where "s3 = blockif_resume s2"
  have q3: "bs_q s3 = bc\<lparr>bc_paused := False\<rparr>" "bs_pc s3 = stall_pc 0 Woken_paused Wait_cond"
    by (auto simp: s3_def s2_def blockif_resume_def q1 wake_def wake_paused_def stall_pc_def fun_eq_iff)
  have "pstep rq_demo s2 s3" unfolding s3_def by (rule resume)
  have "(pstep rq_demo)\<^sup>*\<^sup>* s3 (s3\<lparr>bs_pc := stall_pc 8 Woken_paused Wait_cond\<rparr>)"
    by (rule stall_all_woken) (simp_all add: q3)
  with \<open>(pstep rq_demo)\<^sup>*\<^sup>* bs_init s1\<close> \<open>pstep rq_demo s1 s2\<close> \<open>pstep rq_demo s2 s3\<close>
  have "(pstep rq_demo)\<^sup>*\<^sup>* bs_init (s3\<lparr>bs_pc := stall_pc 8 Woken_paused Wait_cond\<rparr>)" by simp
  then show ?thesis using p' st q3 by (auto simp: stall_pc_def intro!: exI split: if_splits)
qed

end
