(* ===== verification/Blockif_Proc.thy ===== *)
theory Blockif_Proc
  imports Blockif_Queue
begin

text \<open>
  The transfer of one request, \<^verbatim>\<open>blockif_proc\<close> of \<^verbatim>\<open>bhyve/block_if.c\<close>: vectored system calls
  when the request has at most one buffer or the backing store is not a GEOM device, and otherwise a loop
  that moves the data through a bounce buffer of \<^verbatim>\<open>MAXPHYS\<close> bytes, a parameter here. The backing store
  is the list of its bytes; \<open>io\<close> says which system calls fail, with which error.
\<close>

section \<open>Transfers\<close>

record bstore =
  bd_file :: "u8 list"
  bd_rdonly :: bool
  bd_candelete :: bool
  bd_ischr :: bool

text \<open>The error number of a call at an offset for a length, 0 when it succeeds.\<close>

record io_env =
  io_read :: "nat \<Rightarrow> nat \<Rightarrow> int"
  io_write :: "nat \<Rightarrow> nat \<Rightarrow> int"
  io_flush :: int
  io_delete :: int

record xfer =
  x_offset :: nat
  x_resid :: int
  x_iov :: "u8 list list"

abbreviation (input) EROFS :: int where "EROFS \<equiv> 30"
abbreviation (input) EOPNOTSUPP :: int where "EOPNOTSUPP \<equiv> 45"

definition file_read :: "u8 list \<Rightarrow> nat \<Rightarrow> nat \<Rightarrow> u8 list" where
  "file_read f off len = take len (drop off f)"

definition file_write :: "u8 list \<Rightarrow> nat \<Rightarrow> u8 list \<Rightarrow> u8 list" where
  "file_write f off bs = (if bs = [] then f else let f = f @ replicate (off - length f) 0
     in take off f @ bs @ drop (off + length bs) f)"

text \<open>A vectored read fills the buffers in order.\<close>

fun scatter :: "u8 list \<Rightarrow> u8 list list \<Rightarrow> u8 list list" where
  "scatter bs [] = []"
| "scatter bs (v # vs) = (take (length v) bs @ drop (length bs) v) # scatter (drop (length v) bs) vs"

text \<open>Position in the vector after \<open>clen\<close> bytes: within buffer \<open>i\<close>, or at the start of the next.\<close>

definition iov_next :: "u8 list list \<Rightarrow> nat \<Rightarrow> nat \<Rightarrow> nat \<Rightarrow> nat \<times> nat" where
  "iov_next iov i voff clen = (if clen < length (iov ! i) - voff then (i, voff + clen) else (i + 1, 0))"

text \<open>The inner loop of a read: from the bounce buffer to the vector. \<open>None\<close> is an index past the vector.\<close>

function copy_to_iov :: "u8 list \<Rightarrow> nat \<Rightarrow> nat \<Rightarrow> nat \<Rightarrow> nat \<Rightarrow> u8 list list \<Rightarrow> (nat \<times> nat \<times> u8 list list) option" where
  "copy_to_iov buf len i voff boff iov =
     (if length iov \<le> i then None
      else let v = iov ! i; clen = min (len - boff) (length v - voff);
               iov' = iov[i := take voff v @ take clen (drop boff buf) @ drop (voff + clen) v];
               (i', voff') = iov_next iov i voff clen; boff' = boff + clen
           in if boff' < len then copy_to_iov buf len i' voff' boff' iov' else Some (i', voff', iov'))"
  by pat_completeness auto
termination
  by (relation "measure (\<lambda>(buf, len, i, voff, boff, iov). length iov - i)")
     (auto simp: iov_next_def min_def split: if_splits)

text \<open>The inner loop of a write: from the vector to the bounce buffer.\<close>

function copy_from_iov :: "u8 list \<Rightarrow> nat \<Rightarrow> nat \<Rightarrow> nat \<Rightarrow> nat \<Rightarrow> u8 list list \<Rightarrow> (nat \<times> nat \<times> u8 list) option" where
  "copy_from_iov buf len i voff boff iov =
     (if length iov \<le> i then None
      else let v = iov ! i; clen = min (len - boff) (length v - voff);
               buf' = take boff buf @ take clen (drop voff v) @ drop (boff + clen) buf;
               (i', voff') = iov_next iov i voff clen; boff' = boff + clen
           in if boff' < len then copy_from_iov buf' len i' voff' boff' iov else Some (i', voff', buf'))"
  by pat_completeness auto
termination
  by (relation "measure (\<lambda>(buf, len, i, voff, boff, iov). length iov - i)")
     (auto simp: iov_next_def min_def split: if_splits)

text \<open>The outer loops. The result is the error, the bytes left and the vector or the store. \<^verbatim>\<open>MAXPHYS\<close>
  is positive; the guard on it only makes the recursion total.\<close>

function read_bounce :: "io_env \<Rightarrow> nat \<Rightarrow> u8 list \<Rightarrow> nat \<Rightarrow> u8 list \<Rightarrow> nat \<Rightarrow> nat \<Rightarrow> nat \<Rightarrow> int \<Rightarrow> u8 list list \<Rightarrow>
    (int \<times> int \<times> u8 list list) option" where
  "read_bounce io maxphys file offset buf i voff off resid iov =
     (if \<not> resid > 0 \<or> maxphys = 0 then Some (0, resid, iov)
      else let len = min (nat resid) maxphys
           in if io_read io (offset + off) len \<noteq> 0 then Some (io_read io (offset + off) len, resid, iov)
              else let bytes = file_read file (offset + off) len; buf = bytes @ drop (length bytes) buf
                   in case copy_to_iov buf len i voff 0 iov of
                        None \<Rightarrow> None
                      | Some (i, voff, iov) \<Rightarrow> read_bounce io maxphys file offset buf i voff (off + len) (resid - int len) iov)"
  by pat_completeness auto
termination
  by (relation "measure (\<lambda>(io, maxphys, file, offset, buf, i, voff, off, resid, iov). nat resid)") auto

function write_bounce :: "io_env \<Rightarrow> nat \<Rightarrow> u8 list \<Rightarrow> nat \<Rightarrow> u8 list \<Rightarrow> nat \<Rightarrow> nat \<Rightarrow> nat \<Rightarrow> int \<Rightarrow> u8 list list \<Rightarrow>
    (int \<times> int \<times> u8 list) option" where
  "write_bounce io maxphys file offset buf i voff off resid iov =
     (if \<not> resid > 0 \<or> maxphys = 0 then Some (0, resid, file)
      else let len = min (nat resid) maxphys
           in case copy_from_iov buf len i voff 0 iov of
                None \<Rightarrow> None
              | Some (i, voff, buf) \<Rightarrow>
                  if io_write io (offset + off) len \<noteq> 0 then Some (io_write io (offset + off) len, resid, file)
                  else write_bounce io maxphys (file_write file (offset + off) (take len buf)) offset buf i voff
                         (off + len) (resid - int len) iov)"
  by pat_completeness auto
termination
  by (relation "measure (\<lambda>(io, maxphys, file, offset, buf, i, voff, off, resid, iov). nat resid)") auto

text \<open>\<open>bounce\<close> is the buffer of the worker, \<open>None\<close> when the store is not a GEOM device. The result is the
  error handed to the callback.\<close>

definition blockif_proc ::
    "io_env \<Rightarrow> nat \<Rightarrow> bstore \<Rightarrow> u8 list option \<Rightarrow> blockop \<Rightarrow> xfer \<Rightarrow> (int \<times> bstore \<times> xfer) option" where
  "blockif_proc io maxphys bc bounce op br =
     (let buf = (if length (x_iov br) \<le> 1 then None else bounce); total = sum_list (map length (x_iov br))
      in case op of
           BOP_READ \<Rightarrow>
             (case buf of
                None \<Rightarrow>
                  if io_read io (x_offset br) total \<noteq> 0 then Some (io_read io (x_offset br) total, bc, br)
                  else let bytes = file_read (bd_file bc) (x_offset br) total
                       in Some (0, bc, br\<lparr>x_resid := x_resid br - int (length bytes), x_iov := scatter bytes (x_iov br)\<rparr>)
              | Some b \<Rightarrow>
                  (case read_bounce io maxphys (bd_file bc) (x_offset br) b 0 0 0 (x_resid br) (x_iov br) of
                     None \<Rightarrow> None
                   | Some (err, resid, iov) \<Rightarrow> Some (err, bc, br\<lparr>x_resid := resid, x_iov := iov\<rparr>)))
         | BOP_WRITE \<Rightarrow>
             if bd_rdonly bc then Some (EROFS, bc, br)
             else (case buf of
                None \<Rightarrow>
                  if io_write io (x_offset br) total \<noteq> 0 then Some (io_write io (x_offset br) total, bc, br)
                  else Some (0, bc\<lparr>bd_file := file_write (bd_file bc) (x_offset br) (concat (x_iov br))\<rparr>,
                             br\<lparr>x_resid := x_resid br - int total\<rparr>)
              | Some b \<Rightarrow>
                  (case write_bounce io maxphys (bd_file bc) (x_offset br) b 0 0 0 (x_resid br) (x_iov br) of
                     None \<Rightarrow> None
                   | Some (err, resid, f) \<Rightarrow> Some (err, bc\<lparr>bd_file := f\<rparr>, br\<lparr>x_resid := resid\<rparr>)))
         | BOP_FLUSH \<Rightarrow> Some (io_flush io, bc, br)
         | BOP_DELETE \<Rightarrow>
             if \<not> bd_candelete bc then Some (EOPNOTSUPP, bc, br)
             else if bd_rdonly bc then Some (EROFS, bc, br)
             else if bd_ischr bc
             then if io_delete io \<noteq> 0 then Some (io_delete io, bc, br) else Some (0, bc, br\<lparr>x_resid := 0\<rparr>)
             else Some (EOPNOTSUPP, bc, br))"

declare copy_to_iov.simps [simp del] copy_from_iov.simps [simp del] read_bounce.simps [simp del] write_bounce.simps [simp del]

section \<open>The bounce loops move the same bytes\<close>

text \<open>The byte position of buffer \<open>i\<close>, offset \<open>voff\<close>.\<close>

definition iov_pos :: "u8 list list \<Rightarrow> nat \<Rightarrow> nat \<Rightarrow> nat" where
  "iov_pos iov i voff = sum_list (map length (take i iov)) + voff"

definition pos_ok :: "u8 list list \<Rightarrow> nat \<Rightarrow> nat \<Rightarrow> bool" where
  "pos_ok iov i voff \<longleftrightarrow> i \<le> length iov \<and> (if i < length iov then voff \<le> length (iov ! i) else voff = 0)"

definition splice :: "u8 list \<Rightarrow> nat \<Rightarrow> u8 list \<Rightarrow> u8 list" where
  "splice xs p bs = take p xs @ bs @ drop (p + length bs) xs"

lemma take_drop_split: "k \<le> n \<Longrightarrow> take n (drop p xs) = take k (drop p xs) @ take (n - k) (drop (p + k) xs)"
  using take_add [of k "n - k" "drop p xs"] by (simp add: add.commute)

lemma splice_splice:
  assumes "p \<le> length xs"
  shows "splice (splice xs p a) (p + length a) b = splice xs p (a @ b)"
proof -
  have "min (length xs) p = p" using assms by simp
  then show ?thesis using assms by (simp add: splice_def add.commute add.left_commute)
qed

lemma concat_split: "i < length iov \<Longrightarrow> concat iov = concat (take i iov) @ iov ! i @ concat (drop (Suc i) iov)"
  by (metis append_take_drop_id concat_append id_take_nth_drop concat.simps(2))

lemma length_concat_take: "length (concat (take i iov)) = iov_pos iov i 0"
  by (simp add: iov_pos_def length_concat)

lemma pos_next:
  assumes "i < length iov" "voff \<le> length (iov ! i)" "clen \<le> length (iov ! i) - voff" "iov_next iov i voff clen = (i', voff')"
  shows "iov_pos iov i' voff' = iov_pos iov i voff + clen" "pos_ok iov i' voff'"
  using assms by (auto simp: iov_next_def iov_pos_def pos_ok_def take_Suc_conv_app_nth split: if_splits)

lemma iov_pos_cong: "map length iov' = map length iov \<Longrightarrow> iov_pos iov' i voff = iov_pos iov i voff"
  unfolding iov_pos_def by (metis take_map)

lemma pos_ok_cong: "map length iov' = map length iov \<Longrightarrow> pos_ok iov' i voff = pos_ok iov i voff"
  unfolding pos_ok_def by (metis length_map nth_map)

lemma pos_in_range:
  assumes "pos_ok iov i voff" "iov_pos iov i voff < length (concat iov)"
  shows "i < length iov"
proof (rule ccontr)
  assume "\<not> i < length iov"
  then have "i = length iov" "voff = 0" using assms(1) by (auto simp: pos_ok_def)
  then show False using assms(2) by (simp add: iov_pos_def length_concat)
qed

lemma copy_to_iov_correct:
  assumes "pos_ok iov i voff" "boff < len" "len \<le> length buf" "iov_pos iov i voff + (len - boff) \<le> length (concat iov)"
  shows "\<exists>i' voff' iov'. copy_to_iov buf len i voff boff iov = Some (i', voff', iov') \<and> pos_ok iov' i' voff' \<and>
    map length iov' = map length iov \<and> iov_pos iov' i' voff' = iov_pos iov i voff + (len - boff) \<and>
    concat iov' = splice (concat iov) (iov_pos iov i voff) (take (len - boff) (drop boff buf))"
  using assms
proof (induction buf len i voff boff iov rule: copy_to_iov.induct)
  case (1 buf len i voff boff iov)
  define v where "v = iov ! i"
  define clen where "clen = min (len - boff) (length v - voff)"
  define iov1 where "iov1 = iov[i := take voff v @ take clen (drop boff buf) @ drop (voff + clen) v]"
  obtain i1 voff1 where n: "iov_next iov i voff clen = (i1, voff1)" by fastforce
  have i: "i < length iov" by (rule pos_in_range [OF "1.prems"(1)]) (use "1.prems"(2,4) in simp)
  have vo: "voff \<le> length v" using "1.prems"(1) i by (simp add: pos_ok_def v_def)
  have cl: "clen \<le> length v - voff" "clen \<le> len - boff" by (simp_all add: clen_def)
  have len1: "map length iov1 = map length iov"
    using i vo cl "1.prems"(2,3) by (auto simp: iov1_def v_def map_update list_update_same_conv intro!: list_update_same_conv [THEN iffD2])
  have cat1: "concat iov1 = splice (concat iov) (iov_pos iov i voff) (take clen (drop boff buf))"
  proof -
    have "concat iov1 = concat (take i iov) @ (take voff v @ take clen (drop boff buf) @ drop (voff + clen) v) @ concat (drop (Suc i) iov)"
      unfolding iov1_def using i by (simp add: upd_conv_take_nth_drop)
    moreover have "concat iov = concat (take i iov) @ v @ concat (drop (Suc i) iov)" using concat_split [OF i] by (simp add: v_def)
    moreover have "length (concat (take i iov)) = iov_pos iov i 0" by (rule length_concat_take)
    moreover have "iov_pos iov i voff = iov_pos iov i 0 + voff" by (simp add: iov_pos_def)
    moreover have "length (take clen (drop boff buf)) = clen" using cl(2) "1.prems"(2,3) by simp
    ultimately show ?thesis using vo cl by (simp add: splice_def)
  qed
  note nx = pos_next [OF i vo [unfolded v_def] cl(1) [unfolded v_def] n]
  show ?case
  proof (cases "boff + clen < len")
    case False
    then have e: "clen = len - boff" using cl(2) by simp
    have "copy_to_iov buf len i voff boff iov = Some (i1, voff1, iov1)"
      using False i n unfolding copy_to_iov.simps [of buf len i voff boff iov] v_def [symmetric] Let_def clen_def [symmetric] iov1_def [symmetric]
      by simp
    then show ?thesis using nx cat1 len1 iov_pos_cong [OF len1] pos_ok_cong [OF len1] by (simp add: e)
  next
    case True
    then have rec: "copy_to_iov buf len i voff boff iov = copy_to_iov buf len i1 voff1 (boff + clen) iov1"
      using i n unfolding copy_to_iov.simps [of buf len i voff boff iov] v_def [symmetric] Let_def clen_def [symmetric] iov1_def [symmetric]
      by simp
    have "length (concat iov1) = length (concat iov)" using len1 by (simp add: length_concat)
    then have "\<exists>i' voff' iov'. copy_to_iov buf len i1 voff1 (boff + clen) iov1 = Some (i', voff', iov') \<and> pos_ok iov' i' voff' \<and>
        map length iov' = map length iov1 \<and> iov_pos iov' i' voff' = iov_pos iov1 i1 voff1 + (len - (boff + clen)) \<and>
        concat iov' = splice (concat iov1) (iov_pos iov1 i1 voff1) (take (len - (boff + clen)) (drop (boff + clen) buf))"
      using i n True nx "1.prems" iov_pos_cong [OF len1] pos_ok_cong [OF len1]
      by (intro "1.IH" [of v clen iov1 "(i1, voff1)" i1 voff1 "boff + clen"])
         (simp_all add: v_def [symmetric] clen_def [symmetric] iov1_def [symmetric])
    moreover have "splice (splice (concat iov) p (take clen (drop boff buf))) (p + clen) (take (len - (boff + clen)) (drop (boff + clen) buf)) =
        splice (concat iov) p (take (len - boff) (drop boff buf))" if "p + (len - boff) \<le> length (concat iov)" for p
    proof -
      have t: "take (len - boff) (drop boff buf) = take clen (drop boff buf) @ take (len - (boff + clen)) (drop (boff + clen) buf)"
        using take_drop_split [OF cl(2), of boff buf] by simp
      have l: "length (take clen (drop boff buf)) = clen" using cl(2) "1.prems"(2,3) by simp
      show ?thesis using splice_splice [of p "concat iov" "take clen (drop boff buf)", unfolded l] that cl(2) t by simp
    qed
    ultimately show ?thesis unfolding rec cat1 iov_pos_cong [OF len1] nx(1) using len1 "1.prems"(4) True by auto
  qed
qed

lemma copy_from_iov_correct:
  assumes "pos_ok iov i voff" "boff < len" "len \<le> length buf" "iov_pos iov i voff + (len - boff) \<le> length (concat iov)"
  shows "\<exists>i' voff' buf'. copy_from_iov buf len i voff boff iov = Some (i', voff', buf') \<and> pos_ok iov i' voff' \<and>
    length buf' = length buf \<and> iov_pos iov i' voff' = iov_pos iov i voff + (len - boff) \<and>
    buf' = splice buf boff (take (len - boff) (drop (iov_pos iov i voff) (concat iov)))"
  using assms
proof (induction buf len i voff boff iov rule: copy_from_iov.induct)
  case (1 buf len i voff boff iov)
  define v where "v = iov ! i"
  define clen where "clen = min (len - boff) (length v - voff)"
  define buf1 where "buf1 = take boff buf @ take clen (drop voff v) @ drop (boff + clen) buf"
  obtain i1 voff1 where n: "iov_next iov i voff clen = (i1, voff1)" by fastforce
  have i: "i < length iov" by (rule pos_in_range [OF "1.prems"(1)]) (use "1.prems"(2,4) in simp)
  have vo: "voff \<le> length v" using "1.prems"(1) i by (simp add: pos_ok_def v_def)
  have cl: "clen \<le> length v - voff" "clen \<le> len - boff" by (simp_all add: clen_def)
  let ?p = "iov_pos iov i voff"
  have data: "take clen (drop voff v) = take clen (drop ?p (concat iov))"
  proof -
    have "concat iov = concat (take i iov) @ v @ concat (drop (Suc i) iov)" using concat_split [OF i] by (simp add: v_def)
    moreover have "length (concat (take i iov)) = iov_pos iov i 0" by (rule length_concat_take)
    moreover have "?p = iov_pos iov i 0 + voff" by (simp add: iov_pos_def)
    ultimately show ?thesis using vo cl by simp
  qed
  have lb: "length (take clen (drop voff v)) = clen" using cl(1) by simp
  have b1: "buf1 = splice buf boff (take clen (drop ?p (concat iov)))" "length buf1 = length buf"
    using lb cl(2) "1.prems"(2,3) by (simp_all add: buf1_def splice_def data [symmetric])
  note nx = pos_next [OF i vo [unfolded v_def] cl(1) [unfolded v_def] n]
  show ?case
  proof (cases "boff + clen < len")
    case False
    then have e: "clen = len - boff" using cl(2) by simp
    have "copy_from_iov buf len i voff boff iov = Some (i1, voff1, buf1)"
      using False i n unfolding copy_from_iov.simps [of buf len i voff boff iov] v_def [symmetric] Let_def clen_def [symmetric] buf1_def [symmetric]
      by simp
    then show ?thesis using nx b1 by (simp add: e)
  next
    case True
    then have rec: "copy_from_iov buf len i voff boff iov = copy_from_iov buf1 len i1 voff1 (boff + clen) iov"
      using i n unfolding copy_from_iov.simps [of buf len i voff boff iov] v_def [symmetric] Let_def clen_def [symmetric] buf1_def [symmetric]
      by simp
    have "\<exists>i' voff' buf'. copy_from_iov buf1 len i1 voff1 (boff + clen) iov = Some (i', voff', buf') \<and> pos_ok iov i' voff' \<and>
        length buf' = length buf1 \<and> iov_pos iov i' voff' = iov_pos iov i1 voff1 + (len - (boff + clen)) \<and>
        buf' = splice buf1 (boff + clen) (take (len - (boff + clen)) (drop (iov_pos iov i1 voff1) (concat iov)))"
      using i n True nx "1.prems" b1
      by (intro "1.IH" [of v clen buf1 "(i1, voff1)" i1 voff1 "boff + clen"])
         (simp_all add: v_def [symmetric] clen_def [symmetric] buf1_def [symmetric])
    moreover have "splice buf1 (boff + clen) (take (len - (boff + clen)) (drop (?p + clen) (concat iov))) =
        splice buf boff (take (len - boff) (drop ?p (concat iov)))"
    proof -
      have t: "take (len - boff) (drop ?p (concat iov)) = take clen (drop ?p (concat iov)) @ take (len - (boff + clen)) (drop (?p + clen) (concat iov))"
        using take_drop_split [OF cl(2), of ?p "concat iov"] by simp
      show ?thesis unfolding b1(1)
        using splice_splice [of boff buf "take clen (drop ?p (concat iov))", unfolded data [symmetric] lb] "1.prems"(2,3) cl(2) t data by simp
    qed
    ultimately show ?thesis unfolding rec nx(1) using b1(2) True by auto
  qed
qed

text \<open>The outer loops, started at the position of the bytes already moved.\<close>

lemma read_bounce_correct:
  assumes "\<And>o' n. io_read io o' n = 0" "0 < maxphys" "maxphys \<le> length buf" "pos_ok iov i voff"
    "iov_pos iov i voff + nat resid = length (concat iov)" "0 \<le> resid"
    "offset + off + nat resid \<le> length file"
  shows "\<exists>iov'. read_bounce io maxphys file offset buf i voff off resid iov = Some (0, 0, iov') \<and>
    map length iov' = map length iov \<and>
    concat iov' = take (iov_pos iov i voff) (concat iov) @ file_read file (offset + off) (nat resid)"
  using assms
proof (induction io maxphys "file" offset buf i voff off resid iov rule: read_bounce.induct)
  case (1 io maxphys "file" offset buf i voff off resid iov)
  show ?case
  proof (cases "resid = 0")
    case True
    then show ?thesis using "1.prems"(5) by (simp add: read_bounce.simps file_read_def)
  next
    case False
    define len where "len = min (nat resid) maxphys"
    define bytes where "bytes = file_read file (offset + off) len"
    define buf1 where "buf1 = bytes @ drop (length bytes) buf"
    let ?p = "iov_pos iov i voff"
    have len: "0 < len" "len \<le> nat resid" "len \<le> maxphys" using False "1.prems"(2,6) by (simp_all add: len_def)
    have lb: "length bytes = len" using "1.prems"(7) len(2) by (simp add: bytes_def file_read_def)
    have b1: "length buf1 = length buf" "take len buf1 = bytes" using lb len(3) "1.prems"(3) by (simp_all add: buf1_def)
    obtain i1 voff1 iov1 where c: "copy_to_iov buf1 len i voff 0 iov = Some (i1, voff1, iov1)" "pos_ok iov1 i1 voff1"
      "map length iov1 = map length iov" "iov_pos iov1 i1 voff1 = ?p + len" "concat iov1 = splice (concat iov) ?p bytes"
      using copy_to_iov_correct [OF "1.prems"(4), of 0 len buf1] len b1 "1.prems"(3,5) by auto
    have rec: "read_bounce io maxphys file offset buf i voff off resid iov =
        read_bounce io maxphys file offset buf1 i1 voff1 (off + len) (resid - int len) iov1"
      using False "1.prems"(1,2,6) c(1) unfolding read_bounce.simps [of io maxphys "file" offset buf i voff off resid iov] Let_def
        len_def [symmetric] bytes_def [symmetric] buf1_def [symmetric] by simp
    have lc: "length (concat iov1) = length (concat iov)" using c(3) by (simp add: length_concat)
    have n: "nat (resid - int len) = nat resid - len" by simp
    have "\<exists>iov'. read_bounce io maxphys file offset buf1 i1 voff1 (off + len) (resid - int len) iov1 = Some (0, 0, iov') \<and>
        map length iov' = map length iov1 \<and>
        concat iov' = take (iov_pos iov1 i1 voff1) (concat iov1) @ file_read file (offset + (off + len)) (nat (resid - int len))"
      using False "1.prems" c len b1 lc
      by (intro "1.IH" [of len bytes buf1 "(i1, voff1, iov1)" i1 "(voff1, iov1)" voff1 iov1])
         (simp_all add: len_def [symmetric] bytes_def [symmetric] buf1_def [symmetric] n)
    moreover have "take (?p + len) (splice (concat iov) ?p bytes) = take ?p (concat iov) @ bytes"
      using "1.prems"(5) lb by (simp add: splice_def)
    moreover have "bytes @ file_read file (offset + (off + len)) (nat resid - len) = file_read file (offset + off) (nat resid)"
      using take_drop_split [OF len(2), of "offset + off" "file"] unfolding bytes_def file_read_def by (simp add: add.assoc)
    ultimately show ?thesis unfolding rec n c(4,5) using c(3) by auto
  qed
qed

lemma file_write_splice: "file_write f off bs = (if bs = [] then f else splice (f @ replicate (off - length f) 0) off bs)"
  by (simp add: file_write_def splice_def Let_def)

lemma file_write_append: "file_write (file_write f off a) (off + length a) b = file_write f off (a @ b)"
proof (cases "a = [] \<or> b = []")
  case True
  then show ?thesis by (auto simp: file_write_splice)
next
  case False
  define g where "g = f @ replicate (off - length f) 0"
  have g: "off \<le> length g" by (simp add: g_def)
  have "off + length a \<le> length (splice g off a)" using g by (simp add: splice_def)
  then show ?thesis using False splice_splice [OF g, of a b] by (simp add: file_write_splice g_def)
qed

lemma write_bounce_correct:
  assumes "\<And>o' n. io_write io o' n = 0" "0 < maxphys" "maxphys \<le> length buf" "pos_ok iov i voff"
    "iov_pos iov i voff + nat resid = length (concat iov)" "0 \<le> resid"
  shows "write_bounce io maxphys file offset buf i voff off resid iov =
    Some (0, 0, file_write file (offset + off) (drop (iov_pos iov i voff) (concat iov)))"
  using assms
proof (induction io maxphys "file" offset buf i voff off resid iov rule: write_bounce.induct)
  case (1 io maxphys "file" offset buf i voff off resid iov)
  show ?case
  proof (cases "resid = 0")
    case True
    then show ?thesis using "1.prems"(5) by (simp add: write_bounce.simps file_write_def)
  next
    case False
    define len where "len = min (nat resid) maxphys"
    let ?p = "iov_pos iov i voff"
    have len: "0 < len" "len \<le> nat resid" "len \<le> maxphys" using False "1.prems"(2,6) by (simp_all add: len_def)
    obtain i1 voff1 buf1 where c: "copy_from_iov buf len i voff 0 iov = Some (i1, voff1, buf1)" "pos_ok iov i1 voff1"
      "length buf1 = length buf" "iov_pos iov i1 voff1 = ?p + len" "buf1 = splice buf 0 (take len (drop ?p (concat iov)))"
      using copy_from_iov_correct [OF "1.prems"(4), of 0 len buf] len "1.prems"(3,5) by auto
    have l: "length (take len (drop ?p (concat iov))) = len" using len(2) "1.prems"(5) by simp
    then have t: "take len buf1 = take len (drop ?p (concat iov))" using c(5) by (simp add: splice_def)
    define file1 where "file1 = file_write file (offset + off) (take len buf1)"
    have rec: "write_bounce io maxphys file offset buf i voff off resid iov =
        write_bounce io maxphys file1 offset buf1 i1 voff1 (off + len) (resid - int len) iov"
      using False "1.prems"(1,2,6) c(1) unfolding write_bounce.simps [of io maxphys "file" offset buf i voff off resid iov] Let_def
        len_def [symmetric] file1_def by simp
    have "write_bounce io maxphys file1 offset buf1 i1 voff1 (off + len) (resid - int len) iov =
        Some (0, 0, file_write file1 (offset + (off + len)) (drop (iov_pos iov i1 voff1) (concat iov)))"
      using False "1.prems" c len
      by (intro "1.IH" [of len "(i1, voff1, buf1)" i1 "(voff1, buf1)" voff1 buf1, folded file1_def])
         (simp_all add: len_def [symmetric] file1_def)
    moreover have "file_write file1 (offset + (off + len)) (drop (?p + len) (concat iov)) = file_write file (offset + off) (drop ?p (concat iov))"
      using file_write_append [of "file" "offset + off" "take len (drop ?p (concat iov))" "drop (?p + len) (concat iov)"] l
      unfolding file1_def t by (simp add: add.assoc) (metis add.commute append_take_drop_id drop_drop)
    ultimately show ?thesis unfolding rec c(4) by simp
  qed
qed

lemma map_length_scatter: "map length (scatter bs iov) = map length iov"
  by (induction bs iov rule: scatter.induct) auto

lemma concat_scatter:
  "length bs \<le> length (concat iov) \<Longrightarrow> concat (scatter bs iov) = bs @ drop (length bs) (concat iov)"
proof (induction bs iov rule: scatter.induct)
  case (2 bs v vs)
  then show ?case by (cases "length bs \<le> length v") auto
qed simp

lemma concat_lengths_unique: "map length xs = map length ys \<Longrightarrow> concat xs = concat ys \<Longrightarrow> xs = ys"
proof (induction xs arbitrary: ys)
  case (Cons x xs)
  then show ?case by (cases ys) auto
qed simp

text \<open>C23. The bounce buffer changes nothing: for a request whose byte count is the size of its vector, lying inside
  the store for a read, with system calls that succeed and any positive chunk size that fits the buffer, the
  chunked transfer through the bounce buffer ends without error and without an index past the vector, and has
  the same result as the single vectored call: same data in the vector, same store, nothing left over.\<close>

theorem blockif_bounce_equiv:
  assumes "io = \<lparr>io_read = \<lambda>_ _. 0, io_write = \<lambda>_ _. 0, io_flush = 0, io_delete = 0\<rparr>"
    "0 < maxphys" "maxphys \<le> length buf" "x_resid br = int (sum_list (map length (x_iov br)))"
    "op = BOP_READ \<Longrightarrow> x_offset br + sum_list (map length (x_iov br)) \<le> length (bd_file bc)"
  shows "blockif_proc io maxphys bc (Some buf) op br = blockif_proc io maxphys bc None op br \<and>
    blockif_proc io maxphys bc None op br \<noteq> None"
proof (cases "length (x_iov br) \<le> 1")
  case True
  then show ?thesis by (cases op) (auto simp: blockif_proc_def Let_def)
next
  case False
  let ?iov = "x_iov br" and ?n = "sum_list (map length (x_iov br))"
  have n: "length (concat ?iov) = ?n" by (simp add: length_concat)
  have p0: "pos_ok ?iov 0 0" "iov_pos ?iov 0 0 = 0" by (simp_all add: pos_ok_def iov_pos_def)
  have io0: "io_read io a l = 0" "io_write io a l = 0" for a l by (simp_all add: assms(1))
  show ?thesis
  proof (cases op)
    case BOP_READ
    define bytes where "bytes = file_read (bd_file bc) (x_offset br) ?n"
    have lb: "length bytes = ?n" using assms(5) [OF BOP_READ] by (simp add: bytes_def file_read_def)
    obtain iov' where r: "read_bounce io maxphys (bd_file bc) (x_offset br) buf 0 0 0 (x_resid br) ?iov = Some (0, 0, iov')"
      "map length iov' = map length ?iov" "concat iov' = bytes"
      using read_bounce_correct [OF io0(1) assms(2,3) p0(1), of "x_resid br" "x_offset br" 0 "bd_file bc"] assms(4,5) BOP_READ p0(2) n
      by (auto simp: bytes_def)
    have "iov' = scatter bytes ?iov"
      by (rule concat_lengths_unique) (use r lb n in \<open>simp_all add: map_length_scatter concat_scatter\<close>)
    then show ?thesis using BOP_READ False r(1) lb assms(4) io0 by (simp add: blockif_proc_def Let_def bytes_def [symmetric])
  next
    case BOP_WRITE
    have "write_bounce io maxphys (bd_file bc) (x_offset br) buf 0 0 0 (x_resid br) ?iov =
        Some (0, 0, file_write (bd_file bc) (x_offset br) (concat ?iov))"
      using write_bounce_correct [OF io0(2) assms(2,3) p0(1), of "x_resid br" "bd_file bc" "x_offset br" 0] assms(4) p0(2) n by simp
    then show ?thesis using BOP_WRITE False assms(4) io0 by (simp add: blockif_proc_def Let_def)
  qed (simp_all add: blockif_proc_def Let_def)
qed

theorem blockif_bounce_equiv_witness:
  "blockif_proc \<lparr>io_read = \<lambda>_ _. 0, io_write = \<lambda>_ _. 0, io_flush = 0, io_delete = 0\<rparr> 2
     \<lparr>bd_file = [1, 2, 3, 4, 5, 6], bd_rdonly = False, bd_candelete = False, bd_ischr = True\<rparr> (Some [0, 0]) BOP_READ
     \<lparr>x_offset = 1, x_resid = 4, x_iov = [[0], [0, 0, 0]]\<rparr> =
   Some (0, \<lparr>bd_file = [1, 2, 3, 4, 5, 6], bd_rdonly = False, bd_candelete = False, bd_ischr = True\<rparr>,
     \<lparr>x_offset = 1, x_resid = 0, x_iov = [[2], [3, 4, 5]]\<rparr>)"
  using blockif_bounce_equiv [OF refl, of 2 "[0, 0]" "\<lparr>x_offset = 1, x_resid = 4, x_iov = [[0], [0, 0, 0]]\<rparr>" BOP_READ
      "\<lparr>bd_file = [1, 2, 3, 4, 5, 6], bd_rdonly = False, bd_candelete = False, bd_ischr = True\<rparr>"]
  by (simp add: blockif_proc_def file_read_def)

end
