(* ===== verification/Virtio.thy ===== *)
theory Virtio
  imports Guest_Mem "HOL-Library.Monad_Syntax"
begin

text \<open>
  The virtio transport of \<^verbatim>\<open>bhyve/virtio.c\<close> and \<^verbatim>\<open>virtio.h\<close>: descriptor chains, the used
  ring, interrupt suppression, and the legacy configuration registers. The rings are in guest memory (theory
  \<open>Guest_Mem\<close>), which the guest does not change during one call. Which guest ranges
  \<^verbatim>\<open>paddr_guest2host\<close> maps is the parameter \<open>mapped\<close>; a pointer derived from a failed mapping is
  \<open>None\<close>, and using it, like a failed assertion, is a value of \<open>vfault\<close>. Host mappings are page aligned, so
  alignment of a host pointer is alignment of the guest address.
\<close>

section \<open>State\<close>

datatype vfault = Null_access | Assertion

record vqueue_info =
  vq_qsize :: nat
  vq_flags :: u16
  vq_last_avail :: u16
  vq_next_used :: u16
  vq_save_used :: u16
  vq_msix_idx :: u16
  vq_pfn :: u32
  vq_desc :: "nat option"
  vq_avail :: "nat option"
  vq_used :: "nat option"
  vq_has_notify :: bool

text \<open>Calls into the PCI layer and the device, in order.\<close>

datatype vi_event = Lintr_assert | Lintr_deassert | Generate_msi nat | Generate_msix u16
  | Vq_notify nat | Vc_qnotify nat | Vc_reset | Vc_apply_features u32 | Vc_cfgwrite u32 nat u64 | Msix_twrite u64 nat u64
  | Add_msixcap nat nat | Add_msicap nat | Lintr_request

record virtio_softc =
  vs_flags :: nat
  vs_negotiated_caps :: u32
  vs_queues :: "nat \<Rightarrow> vqueue_info"
  vs_curq :: int
  vs_status :: u8
  vs_isr :: u8
  vs_msix_cfg_idx :: u16
  vs_mem :: gmem
  vs_events :: "vi_event list"

record virtio_consts =
  vc_nvq :: nat
  vc_cfgsize :: nat
  vc_hv_caps :: u64
  vc_has_qnotify :: bool
  vc_has_apply :: bool

record virtio_desc =
  vd_addr :: nat
  vd_len :: nat
  vd_flags :: u16
  vd_next :: nat

abbreviation (input) VRING_ALIGN :: nat where "VRING_ALIGN \<equiv> 4096"
abbreviation (input) VRING_DESC_F_NEXT :: u16 where "VRING_DESC_F_NEXT \<equiv> 1"
abbreviation (input) VRING_DESC_F_INDIRECT :: u16 where "VRING_DESC_F_INDIRECT \<equiv> 4"
abbreviation (input) VRING_AVAIL_F_NO_INTERRUPT :: u16 where "VRING_AVAIL_F_NO_INTERRUPT \<equiv> 1"
abbreviation (input) VIRTIO_F_NOTIFY_ON_EMPTY :: nat where "VIRTIO_F_NOTIFY_ON_EMPTY \<equiv> 24"
abbreviation (input) VIRTIO_RING_F_INDIRECT_DESC :: nat where "VIRTIO_RING_F_INDIRECT_DESC \<equiv> 28"
abbreviation (input) VIRTIO_RING_F_EVENT_IDX :: nat where "VIRTIO_RING_F_EVENT_IDX \<equiv> 29"
abbreviation (input) VIRTIO_MSI_NO_VECTOR :: u16 where "VIRTIO_MSI_NO_VECTOR \<equiv> 0xFFFF"
abbreviation (input) VIRTIO_USE_MSIX :: nat where "VIRTIO_USE_MSIX \<equiv> 1"
abbreviation (input) VQ_ALLOC :: u16 where "VQ_ALLOC \<equiv> 1"
abbreviation (input) VQ_MAX_DESCRIPTORS :: nat where "VQ_MAX_DESCRIPTORS \<equiv> 512"

definition vs_emit :: "vi_event \<Rightarrow> virtio_softc \<Rightarrow> virtio_softc" where
  "vs_emit e vs = vs\<lparr>vs_events := vs_events vs @ [e]\<rparr>"

definition upd_vq :: "nat \<Rightarrow> (vqueue_info \<Rightarrow> vqueue_info) \<Rightarrow> virtio_softc \<Rightarrow> virtio_softc" where
  "upd_vq q f vs = vs\<lparr>vs_queues := (vs_queues vs)(q := f (vs_queues vs q))\<rparr>"

section \<open>Reset and queue setup\<close>

definition vq_reset :: "vqueue_info \<Rightarrow> vqueue_info" where
  "vq_reset vq = vq\<lparr>vq_flags := 0, vq_last_avail := 0, vq_next_used := 0, vq_save_used := 0, vq_pfn := 0,
     vq_msix_idx := VIRTIO_MSI_NO_VECTOR\<rparr>"

definition vi_reset_dev :: "virtio_consts \<Rightarrow> virtio_softc \<Rightarrow> virtio_softc" where
  "vi_reset_dev vc vs =
     (let vs = vs\<lparr>vs_queues := (\<lambda>i. if i < vc_nvq vc then vq_reset (vs_queues vs i) else vs_queues vs i)\<rparr>;
          vs = vs\<lparr>vs_negotiated_caps := 0, vs_curq := 0\<rparr>;
          vs = (if vs_isr vs \<noteq> 0 then vs_emit Lintr_deassert vs else vs)
      in vs\<lparr>vs_isr := 0, vs_msix_cfg_idx := VIRTIO_MSI_NO_VECTOR\<rparr>)"

text \<open>The result of adding the MSI-X capability is a parameter.\<close>

definition vi_intr_init :: "bool \<Rightarrow> virtio_consts \<Rightarrow> virtio_softc \<Rightarrow> nat \<Rightarrow> bool \<Rightarrow> int \<times> virtio_softc" where
  "vi_intr_init msixcap_fails vc vs barnum use_msix =
     (let vs = (if use_msix
                then vs_emit (Add_msixcap (vc_nvq vc + 1) barnum) (vi_reset_dev vc (vs\<lparr>vs_flags := vs_flags vs OR VIRTIO_USE_MSIX\<rparr>))
                else vs\<lparr>vs_flags := unset_bit 0 (vs_flags vs)\<rparr>)
      in if use_msix \<and> msixcap_fails then (1, vs) else (0, vs_emit Lintr_request (vs_emit (Add_msicap 1) vs)))"

definition roundup2 :: "nat \<Rightarrow> nat \<Rightarrow> nat" where
  "roundup2 x y = (x + (y - 1)) div y * y"

definition vring_size :: "nat \<Rightarrow> nat" where
  "vring_size qsz =
     (let size = 16 * qsz + 2 * (3 + qsz); size = roundup2 size VRING_ALIGN;
          size = size + 2 * 3 + 8 * qsz
      in roundup2 size VRING_ALIGN)"

definition vi_vq_init :: "(nat \<Rightarrow> nat \<Rightarrow> bool) \<Rightarrow> virtio_softc \<Rightarrow> u32 \<Rightarrow> virtio_softc" where
  "vi_vq_init mapped vs pfn =
     upd_vq (nat (vs_curq vs)) (\<lambda>vq.
       let phys = unat pfn * 2 ^ 12; size = vring_size (vq_qsize vq); ok = mapped phys size;
           base = phys; desc = base; base = base + vq_qsize vq * 16;
           avail = base; base = base + (2 + vq_qsize vq + 1) * 2;
           used = roundup2 base VRING_ALIGN
       in vq\<lparr>vq_pfn := pfn, vq_desc := (if ok then Some desc else None), vq_avail := (if ok then Some avail else None),
             vq_used := (if ok then Some used else None), vq_flags := VQ_ALLOC, vq_last_avail := 0,
             vq_next_used := 0, vq_save_used := 0\<rparr>) vs"

section \<open>Descriptor chains\<close>

definition desc_at :: "gmem \<Rightarrow> nat \<Rightarrow> virtio_desc" where
  "desc_at m a = \<lparr>vd_addr = mrd 8 m a, vd_len = mrd 4 m (a + 8), vd_flags = of_nat (mrd 2 m (a + 12)),
     vd_next = mrd 2 m (a + 14)\<rparr>"

text \<open>An entry of the caller's vector: the base is \<open>None\<close> where the mapping failed.\<close>

record vq_iov =
  iov_base :: "nat option"
  iov_len :: nat
  iov_flags :: u16

definition vq_record :: "(nat \<Rightarrow> nat \<Rightarrow> bool) \<Rightarrow> nat \<Rightarrow> virtio_desc \<Rightarrow> nat \<Rightarrow> vq_iov list \<Rightarrow> vq_iov list" where
  "vq_record mapped i vd n_iov iov =
     (if i \<ge> n_iov then iov
      else iov @ [\<lparr>iov_base = (if mapped (vd_addr vd) (vd_len vd) then Some (vd_addr vd) else None),
                   iov_len = vd_len vd, iov_flags = vd_flags vd\<rparr>])"

datatype chain_end = Chain_bad "vq_iov list" | Chain_more nat "vq_iov list"

text \<open>The loop over an indirect table at \<open>vindir\<close> with \<open>n_indir\<close> entries.\<close>

function indirect_loop :: "(nat \<Rightarrow> nat \<Rightarrow> bool) \<Rightarrow> gmem \<Rightarrow> nat \<Rightarrow> nat \<Rightarrow> nat \<Rightarrow> nat \<Rightarrow> nat \<Rightarrow> vq_iov list \<Rightarrow> chain_end" where
  "indirect_loop mapped m vindir n_indir n_iov next i iov =
     (let vp = desc_at m (vindir + 16 * next)
      in if vd_flags vp AND VRING_DESC_F_INDIRECT \<noteq> 0 then Chain_bad iov
         else let iov = vq_record mapped i vp n_iov iov; i = i + 1
              in if i > VQ_MAX_DESCRIPTORS then Chain_bad iov
                 else if vd_flags vp AND VRING_DESC_F_NEXT = 0 then Chain_more i iov
                 else if vd_next vp \<ge> n_indir then Chain_bad iov
                 else indirect_loop mapped m vindir n_indir n_iov (vd_next vp) i iov)"
  by pat_completeness auto
termination
  by (relation "measure (\<lambda>(mapped, m, vindir, n_indir, n_iov, next, i, iov). 513 - i)") auto

declare indirect_loop.simps [simp del]

lemma indirect_loop_more: "indirect_loop mapped m vindir n_indir n_iov next i iov = Chain_more i' iov' \<Longrightarrow> i < i' \<and> i' \<le> 512"
proof (induction mapped m vindir n_indir n_iov "next" i iov rule: indirect_loop.induct)
  case (1 mapped m vindir n_indir n_iov "next" i iov)
  show ?case using "1.prems" "1.IH" [OF refl _ refl refl]
    by (subst (asm) indirect_loop.simps) (auto simp: Let_def split: if_splits)
qed

text \<open>The loop over the descriptor table of the queue; \<open>-1\<close> is every diagnosed error.\<close>

function chain_loop :: "(nat \<Rightarrow> nat \<Rightarrow> bool) \<Rightarrow> bool \<Rightarrow> gmem \<Rightarrow> nat \<Rightarrow> nat \<Rightarrow> nat \<Rightarrow> nat \<Rightarrow> nat \<Rightarrow> vq_iov list \<Rightarrow>
    vfault + (int \<times> vq_iov list)" where
  "chain_loop mapped indir_ok m desc qsize n_iov next i iov =
     (if \<not> i < VQ_MAX_DESCRIPTORS then Inr (-1, iov)
      else if next \<ge> qsize then Inr (-1, iov)
      else let vdir = desc_at m (desc + 16 * next)
           in if vd_flags vdir AND VRING_DESC_F_INDIRECT = 0
              then let iov = vq_record mapped i vdir n_iov iov
                   in if vd_flags vdir AND VRING_DESC_F_NEXT = 0 then Inr (int (i + 1), iov)
                      else chain_loop mapped indir_ok m desc qsize n_iov (vd_next vdir) (i + 1) iov
              else if \<not> indir_ok then Inr (-1, iov)
              else let n_indir = vd_len vdir div 16
                   in if vd_len vdir mod 16 \<noteq> 0 \<or> n_indir = 0 then Inr (-1, iov)
                      else if \<not> mapped (vd_addr vdir) (vd_len vdir) then Inl Null_access
                      else case indirect_loop mapped m (vd_addr vdir) n_indir n_iov 0 i iov of
                             Chain_bad iov \<Rightarrow> Inr (-1, iov)
                           | Chain_more i' iov \<Rightarrow>
                               if vd_flags vdir AND VRING_DESC_F_NEXT = 0 then Inr (int i', iov)
                               else chain_loop mapped indir_ok m desc qsize n_iov (vd_next vdir) i' iov)"
  by pat_completeness auto
termination
  by (relation "measure (\<lambda>(mapped, indir_ok, m, desc, qsize, n_iov, next, i, iov). 512 - i)")
     (auto dest: indirect_loop_more)

declare chain_loop.simps [simp del]

text \<open>The result: fault, or the value returned, the head index, the vector and the queue.\<close>

definition vq_getchain :: "(nat \<Rightarrow> nat \<Rightarrow> bool) \<Rightarrow> virtio_consts \<Rightarrow> gmem \<Rightarrow> vqueue_info \<Rightarrow> nat \<Rightarrow>
    vfault + (int \<times> nat \<times> vq_iov list \<times> vqueue_info)" where
  "vq_getchain mapped vc m vq n_iov =
     (case (vq_avail vq, vq_desc vq) of
        (Some avail, Some desc) \<Rightarrow>
          (let idx = vq_last_avail vq; ndesc = unat (of_nat (mrd 2 m (avail + 2)) - idx)
           in if ndesc = 0 then Inr (0, 0, [], vq)
              else if ndesc > vq_qsize vq then Inr (-1, 0, [], vq)
              else let next = mrd 2 m (avail + 4 + 2 * (unat (idx AND (of_nat (vq_qsize vq) - 1))));
                       vq = vq\<lparr>vq_last_avail := vq_last_avail vq + 1\<rparr>
                   in map_sum id (\<lambda>(r, iov). (r, next, iov, vq))
                        (chain_loop mapped (bit (vc_hv_caps vc) VIRTIO_RING_F_INDIRECT_DESC) m desc (vq_qsize vq) n_iov next 0 []))
      | _ \<Rightarrow> Inl Null_access)"

definition vq_retchains :: "vqueue_info \<Rightarrow> u16 \<Rightarrow> vqueue_info" where
  "vq_retchains vq n_chains = vq\<lparr>vq_last_avail := vq_last_avail vq - n_chains\<rparr>"

section \<open>The used ring\<close>

definition vq_relchain_prepare :: "gmem \<Rightarrow> vqueue_info \<Rightarrow> u16 \<Rightarrow> u32 \<Rightarrow> vfault + (gmem \<times> vqueue_info)" where
  "vq_relchain_prepare m vq idx iolen =
     (case vq_used vq of
        None \<Rightarrow> Inl Null_access
      | Some used \<Rightarrow>
          let mask = of_nat (vq_qsize vq) - 1; vue = used + 4 + 8 * unat (vq_next_used vq AND mask);
              vq = vq\<lparr>vq_next_used := vq_next_used vq + 1\<rparr>;
              m = mwr 4 m vue (unat idx); m = mwr 4 m (vue + 4) (unat iolen)
          in Inr (m, vq))"

definition vq_relchain_publish :: "gmem \<Rightarrow> vqueue_info \<Rightarrow> vfault + gmem" where
  "vq_relchain_publish m vq =
     (case vq_used vq of None \<Rightarrow> Inl Null_access | Some used \<Rightarrow> Inr (mwr 2 m (used + 2) (unat (vq_next_used vq))))"

definition vq_relchain :: "gmem \<Rightarrow> vqueue_info \<Rightarrow> u16 \<Rightarrow> u32 \<Rightarrow> vfault + (gmem \<times> vqueue_info)" where
  "vq_relchain m vq idx iolen =
     (case vq_relchain_prepare m vq idx iolen of
        Inl f \<Rightarrow> Inl f
      | Inr (m, vq) \<Rightarrow> map_sum id (\<lambda>m. (m, vq)) (vq_relchain_publish m vq))"

definition vq_interrupt :: "bool \<Rightarrow> virtio_softc \<Rightarrow> nat \<Rightarrow> virtio_softc" where
  "vq_interrupt msix_enabled vs q =
     (if msix_enabled then vs_emit (Generate_msix (vq_msix_idx (vs_queues vs q))) vs
      else vs_emit Lintr_assert (vs_emit (Generate_msi 0) (vs\<lparr>vs_isr := vs_isr vs OR 1\<rparr>)))"

text \<open>The decision of \<^verbatim>\<open>vq_endchains\<close> to interrupt, from the old and new used index.\<close>

definition endchains_intr :: "u32 \<Rightarrow> bool \<Rightarrow> u16 \<Rightarrow> u16 \<Rightarrow> u16 \<Rightarrow> u16 \<Rightarrow> bool" where
  "endchains_intr caps used_all_avail event_idx va_flags old_idx new_idx =
     (if used_all_avail \<and> bit caps VIRTIO_F_NOTIFY_ON_EMPTY then True
      else if bit caps VIRTIO_RING_F_EVENT_IDX then new_idx - event_idx - 1 < new_idx - old_idx
      else new_idx \<noteq> old_idx \<and> va_flags AND VRING_AVAIL_F_NO_INTERRUPT = 0)"

definition vq_endchains :: "bool \<Rightarrow> virtio_softc \<Rightarrow> nat \<Rightarrow> bool \<Rightarrow> vfault + virtio_softc" where
  "vq_endchains msix_enabled vs q used_all_avail =
     (let vq = vs_queues vs q
      in case (vq_used vq, vq_avail vq) of
           (Some used, Some avail) \<Rightarrow>
             (let old_idx = vq_save_used vq; new_idx = of_nat (mrd 2 (vs_mem vs) (used + 2));
                  vs = upd_vq q (\<lambda>vq. vq\<lparr>vq_save_used := new_idx\<rparr>) vs;
                  event_idx = of_nat (mrd 2 (vs_mem vs) (avail + 4 + 2 * vq_qsize vq));
                  va_flags = of_nat (mrd 2 (vs_mem vs) avail)
              in Inr (if endchains_intr (vs_negotiated_caps vs) used_all_avail event_idx va_flags old_idx new_idx
                      then vq_interrupt msix_enabled vs q else vs))
         | _ \<Rightarrow> Inl Null_access)"

definition vq_ring_ready :: "vqueue_info \<Rightarrow> bool" where
  "vq_ring_ready vq \<longleftrightarrow> vq_flags vq AND VQ_ALLOC \<noteq> 0"

definition vq_has_descs :: "gmem \<Rightarrow> vqueue_info \<Rightarrow> vfault + bool" where
  "vq_has_descs m vq =
     (if \<not> vq_ring_ready vq then Inr False
      else case vq_avail vq of None \<Rightarrow> Inl Null_access
           | Some avail \<Rightarrow> Inr (vq_last_avail vq \<noteq> of_nat (mrd 2 m (avail + 2))))"

definition vq_kick_enable :: "gmem \<Rightarrow> vqueue_info \<Rightarrow> vfault + gmem" where
  "vq_kick_enable m vq =
     (case vq_used vq of None \<Rightarrow> Inl Null_access
      | Some used \<Rightarrow> Inr (mwr 2 m used (unat (of_nat (mrd 2 m used) AND NOT 1 :: u16))))"

definition vq_kick_disable :: "gmem \<Rightarrow> vqueue_info \<Rightarrow> vfault + gmem" where
  "vq_kick_disable m vq =
     (case vq_used vq of None \<Rightarrow> Inl Null_access
      | Some used \<Rightarrow> Inr (mwr 2 m used (unat (of_nat (mrd 2 m used) OR 1 :: u16))))"

section \<open>Configuration registers\<close>

abbreviation (input) VTCFG_R_HOSTCAP :: nat where "VTCFG_R_HOSTCAP \<equiv> 0"
abbreviation (input) VTCFG_R_GUESTCAP :: nat where "VTCFG_R_GUESTCAP \<equiv> 4"
abbreviation (input) VTCFG_R_PFN :: nat where "VTCFG_R_PFN \<equiv> 8"
abbreviation (input) VTCFG_R_QNUM :: nat where "VTCFG_R_QNUM \<equiv> 12"
abbreviation (input) VTCFG_R_QSEL :: nat where "VTCFG_R_QSEL \<equiv> 14"
abbreviation (input) VTCFG_R_QNOTIFY :: nat where "VTCFG_R_QNOTIFY \<equiv> 16"
abbreviation (input) VTCFG_R_STATUS :: nat where "VTCFG_R_STATUS \<equiv> 18"
abbreviation (input) VTCFG_R_ISR :: nat where "VTCFG_R_ISR \<equiv> 19"
abbreviation (input) VTCFG_R_CFGVEC :: nat where "VTCFG_R_CFGVEC \<equiv> 20"
abbreviation (input) VTCFG_R_QVEC :: nat where "VTCFG_R_QVEC \<equiv> 22"
abbreviation (input) VTCFG_R_CFG0 :: nat where "VTCFG_R_CFG0 \<equiv> 20"
abbreviation (input) VTCFG_R_CFG1 :: nat where "VTCFG_R_CFG1 \<equiv> 24"

record config_reg =
  cr_offset :: nat
  cr_size :: nat
  cr_ro :: bool

definition config_regs :: "config_reg list" where
  "config_regs =
     [\<lparr>cr_offset = VTCFG_R_HOSTCAP, cr_size = 4, cr_ro = True\<rparr>, \<lparr>cr_offset = VTCFG_R_GUESTCAP, cr_size = 4, cr_ro = False\<rparr>,
      \<lparr>cr_offset = VTCFG_R_PFN, cr_size = 4, cr_ro = False\<rparr>, \<lparr>cr_offset = VTCFG_R_QNUM, cr_size = 2, cr_ro = True\<rparr>,
      \<lparr>cr_offset = VTCFG_R_QSEL, cr_size = 2, cr_ro = False\<rparr>, \<lparr>cr_offset = VTCFG_R_QNOTIFY, cr_size = 2, cr_ro = False\<rparr>,
      \<lparr>cr_offset = VTCFG_R_STATUS, cr_size = 1, cr_ro = False\<rparr>, \<lparr>cr_offset = VTCFG_R_ISR, cr_size = 1, cr_ro = False\<rparr>,
      \<lparr>cr_offset = VTCFG_R_CFGVEC, cr_size = 2, cr_ro = False\<rparr>, \<lparr>cr_offset = VTCFG_R_QVEC, cr_size = 2, cr_ro = False\<rparr>]"

text \<open>The binary search. Its bounds are unsigned: \<open>hi = -1\<close> is the wrapped value \<open>mid - 1\<close> for \<open>mid = 0\<close>,
  with which the loop goes on and reads far outside the table.\<close>

function find_cr_loop :: "config_reg list \<Rightarrow> int \<Rightarrow> int \<Rightarrow> int \<Rightarrow> vfault + config_reg option" where
  "find_cr_loop regs offset lo hi =
     (if hi < 0 then Inl Null_access
      else if hi < lo then Inr None
      else let mid = (hi + lo) div 2; cr = regs ! nat mid
           in if int (cr_offset cr) = offset then Inr (Some cr)
              else if int (cr_offset cr) < offset then find_cr_loop regs offset (mid + 1) hi
              else find_cr_loop regs offset lo (mid - 1))"
  by pat_completeness auto
termination
  by (relation "measure (\<lambda>(regs, offset, lo, hi). nat (hi + 1 - lo))") auto

declare find_cr_loop.simps [simp del]

definition vi_find_cr :: "int \<Rightarrow> vfault + config_reg option" where
  "vi_find_cr offset = find_cr_loop config_regs offset 0 (int (length config_regs) - 1)"

text \<open>The PCI layer and the device as the register code sees them: the bars of the MSI-X tables and what a read of
  them returns, whether MSI-X is enabled, and the results of the device's configuration callbacks.\<close>

record vi_env =
  ve_msix_bars :: "nat list"
  ve_msix_tread :: "u64 \<Rightarrow> nat \<Rightarrow> u64"
  ve_msix_enabled :: bool
  ve_cfgread :: "u32 \<Rightarrow> nat \<Rightarrow> bool \<times> u32"
  ve_cfgwrite :: "u32 \<Rightarrow> nat \<Rightarrow> u64 \<Rightarrow> bool"
  ve_mapped :: "nat \<Rightarrow> nat \<Rightarrow> bool"

definition cfg_size :: "vi_env \<Rightarrow> u64" where
  "cfg_size ve = (if ve_msix_enabled ve then of_nat VTCFG_R_CFG1 else of_nat VTCFG_R_CFG0)"

text \<open>Whether an access goes to the device's own registers: legal size, past the standard registers, and the
  32-bit end offset within the device's size.\<close>

definition cfg_device :: "vi_env \<Rightarrow> virtio_consts \<Rightarrow> u64 \<Rightarrow> nat \<Rightarrow> bool" where
  "cfg_device ve vc offset sz \<longleftrightarrow> sz \<in> {1, 2, 4} \<and> offset \<ge> cfg_size ve \<and>
     (let newoff = ucast (offset - cfg_size ve) :: u32; max = (if vc_cfgsize vc \<noteq> 0 then vc_cfgsize vc else 0x100000000)
      in \<not> unat (newoff + of_nat sz) > max)"

text \<open>The queue register of the selected queue; an index below 0 is outside the array.\<close>

definition curq_reg :: "virtio_consts \<Rightarrow> virtio_softc \<Rightarrow> (vqueue_info \<Rightarrow> u32) \<Rightarrow> u32 \<Rightarrow> vfault + u32" where
  "curq_reg vc vs f other =
     (if vs_curq vs < int (vc_nvq vc)
      then if vs_curq vs < 0 then Inl Null_access else Inr (f (vs_queues vs (nat (vs_curq vs))))
      else Inr other)"

definition read_reg :: "virtio_consts \<Rightarrow> virtio_softc \<Rightarrow> nat \<Rightarrow> u32 \<Rightarrow> vfault + (u32 \<times> virtio_softc)" where
  "read_reg vc vs offset value =
     (if offset = VTCFG_R_HOSTCAP then Inr (ucast (vc_hv_caps vc), vs)
      else if offset = VTCFG_R_GUESTCAP then Inr (vs_negotiated_caps vs, vs)
      else if offset = VTCFG_R_PFN then map_sum id (\<lambda>v. (v, vs)) (curq_reg vc vs vq_pfn value)
      else if offset = VTCFG_R_QNUM then map_sum id (\<lambda>v. (v, vs)) (curq_reg vc vs (\<lambda>q. of_nat (vq_qsize q)) 0)
      else if offset = VTCFG_R_QSEL then Inr (word_of_int (vs_curq vs), vs)
      else if offset = VTCFG_R_QNOTIFY then Inr (0, vs)
      else if offset = VTCFG_R_STATUS then Inr (ucast (vs_status vs), vs)
      else if offset = VTCFG_R_ISR
      then let value = ucast (vs_isr vs); vs = vs\<lparr>vs_isr := 0\<rparr>
           in Inr (value, if value \<noteq> 0 then vs_emit Lintr_deassert vs else vs)
      else if offset = VTCFG_R_CFGVEC then Inr (ucast (vs_msix_cfg_idx vs), vs)
      else if offset = VTCFG_R_QVEC
      then map_sum id (\<lambda>v. (v, vs)) (curq_reg vc vs (\<lambda>q. ucast (vq_msix_idx q)) (ucast VIRTIO_MSI_NO_VECTOR))
      else Inr (value, vs))"

definition vi_pci_read ::
    "vi_env \<Rightarrow> virtio_consts \<Rightarrow> virtio_softc \<Rightarrow> nat \<Rightarrow> u64 \<Rightarrow> nat \<Rightarrow> vfault + (u64 \<times> virtio_softc)" where
  "vi_pci_read ve vc vs baridx offset sz =
     (if vs_flags vs mod 2 = VIRTIO_USE_MSIX \<and> baridx \<in> set (ve_msix_bars ve)
      then Inr (ve_msix_tread ve offset sz, vs)
      else if baridx \<noteq> 0 then Inl Assertion
      else let value = (if sz = 1 then 0xff else if sz = 2 then 0xffff else 0xffffffff);
               newoff = ucast (offset - cfg_size ve);
               dev = (if cfg_device ve vc offset sz then ve_cfgread ve newoff sz else (True, value))
           in if \<not> fst dev then Inr (ucast (snd dev), vs)
              else case vi_find_cr (sint (ucast offset :: u32)) of
                     Inl f \<Rightarrow> Inl f
                   | Inr None \<Rightarrow> Inr (ucast (snd dev), vs)
                   | Inr (Some cr) \<Rightarrow>
                       if cr_size cr \<noteq> sz then Inr (ucast (snd dev), vs)
                       else map_sum id (\<lambda>(v, vs). (ucast v, vs)) (read_reg vc vs (unat offset) (snd dev)))"

definition write_reg :: "vi_env \<Rightarrow> virtio_consts \<Rightarrow> virtio_softc \<Rightarrow> nat \<Rightarrow> u64 \<Rightarrow> vfault + virtio_softc" where
  "write_reg ve vc vs offset value =
     (if offset = VTCFG_R_GUESTCAP
      then let vs = vs\<lparr>vs_negotiated_caps := ucast (value AND vc_hv_caps vc)\<rparr>
           in Inr (if vc_has_apply vc then vs_emit (Vc_apply_features (vs_negotiated_caps vs)) vs else vs)
      else if offset = VTCFG_R_PFN
      then if vs_curq vs \<ge> int (vc_nvq vc) then Inr vs
           else if vs_curq vs < 0 then Inl Null_access
           else Inr (vi_vq_init (ve_mapped ve) vs (ucast value))
      else if offset = VTCFG_R_QSEL then Inr (vs\<lparr>vs_curq := sint (ucast value :: u32)\<rparr>)
      else if offset = VTCFG_R_QNOTIFY
      then if unat value \<ge> vc_nvq vc then Inr vs
           else if vq_has_notify (vs_queues vs (unat value)) then Inr (vs_emit (Vq_notify (unat value)) vs)
           else if vc_has_qnotify vc then Inr (vs_emit (Vc_qnotify (unat value)) vs)
           else Inr vs
      else if offset = VTCFG_R_STATUS
      then let vs = vs\<lparr>vs_status := ucast value\<rparr> in Inr (if value = 0 then vs_emit Vc_reset vs else vs)
      else if offset = VTCFG_R_CFGVEC then Inr (vs\<lparr>vs_msix_cfg_idx := ucast value\<rparr>)
      else if offset = VTCFG_R_QVEC
      then if vs_curq vs \<ge> int (vc_nvq vc) then Inr vs
           else if vs_curq vs < 0 then Inl Null_access
           else Inr (upd_vq (nat (vs_curq vs)) (\<lambda>q. q\<lparr>vq_msix_idx := ucast value\<rparr>) vs)
      else Inr vs)"

definition vi_pci_write ::
    "vi_env \<Rightarrow> virtio_consts \<Rightarrow> virtio_softc \<Rightarrow> nat \<Rightarrow> u64 \<Rightarrow> nat \<Rightarrow> u64 \<Rightarrow> vfault + virtio_softc" where
  "vi_pci_write ve vc vs baridx offset sz value =
     (if vs_flags vs mod 2 = VIRTIO_USE_MSIX \<and> baridx \<in> set (ve_msix_bars ve)
      then Inr (vs_emit (Msix_twrite offset sz value) vs)
      else if baridx \<noteq> 0 then Inl Assertion
      else let newoff = ucast (offset - cfg_size ve); dev = cfg_device ve vc offset sz;
               vs = (if dev then vs_emit (Vc_cfgwrite newoff sz value) vs else vs)
           in if dev \<and> \<not> ve_cfgwrite ve newoff sz value then Inr vs
              else case vi_find_cr (sint (ucast offset :: u32)) of
                     Inl f \<Rightarrow> Inl f
                   | Inr None \<Rightarrow> Inr vs
                   | Inr (Some cr) \<Rightarrow>
                       if cr_size cr \<noteq> sz \<or> cr_ro cr then Inr vs else write_reg ve vc vs (unat offset) value)"

section \<open>Chains from an arbitrary guest\<close>

definition iov_of :: "(nat \<Rightarrow> nat \<Rightarrow> bool) \<Rightarrow> virtio_desc \<Rightarrow> vq_iov" where
  "iov_of mapped vd = \<lparr>iov_base = (if mapped (vd_addr vd) (vd_len vd) then Some (vd_addr vd) else None),
     iov_len = vd_len vd, iov_flags = vd_flags vd\<rparr>"

definition is_indirect :: "virtio_desc \<Rightarrow> bool" where
  "is_indirect d \<longleftrightarrow> vd_flags d AND VRING_DESC_F_INDIRECT \<noteq> 0"

text \<open>The descriptors a chain may consist of: those of the queue's table, and the entries of the mapped indirect tables
  that these point to.\<close>

definition ring_descs :: "(nat \<Rightarrow> nat \<Rightarrow> bool) \<Rightarrow> gmem \<Rightarrow> nat \<Rightarrow> nat \<Rightarrow> virtio_desc set" where
  "ring_descs mapped m desc qsize =
     {d. \<exists>i < qsize. d = desc_at m (desc + 16 * i)} \<union>
     {d. \<exists>i < qsize. \<exists>j. let t = desc_at m (desc + 16 * i)
         in is_indirect t \<and> mapped (vd_addr t) (vd_len t) \<and> j < vd_len t div 16 \<and> d = desc_at m (vd_addr t + 16 * j)}"

definition iov_ok :: "(nat \<Rightarrow> nat \<Rightarrow> bool) \<Rightarrow> virtio_desc set \<Rightarrow> nat \<Rightarrow> nat \<Rightarrow> vq_iov list \<Rightarrow> bool" where
  "iov_ok mapped D n_iov i iov \<longleftrightarrow> length iov = min i n_iov \<and> set iov \<subseteq> iov_of mapped ` D"

lemma record_ok: "iov_ok mapped D n_iov i iov \<Longrightarrow> d \<in> D \<Longrightarrow> iov_ok mapped D n_iov (i + 1) (vq_record mapped i d n_iov iov)"
  by (auto simp: iov_ok_def vq_record_def iov_of_def)

lemma iov_ok_len: "iov_ok mapped D n_iov i iov \<Longrightarrow> length iov \<le> n_iov \<and> set iov \<subseteq> iov_of mapped ` D"
  by (simp add: iov_ok_def)

lemma indirect_loop_ok:
  assumes "iov_ok mapped D n_iov i iov" "\<And>j. j < n_indir \<Longrightarrow> desc_at m (vindir + 16 * j) \<in> D" "next < n_indir"
  shows "case indirect_loop mapped m vindir n_indir n_iov next i iov of
      Chain_bad iov' \<Rightarrow> length iov' \<le> n_iov \<and> set iov' \<subseteq> iov_of mapped ` D
    | Chain_more i' iov' \<Rightarrow> iov_ok mapped D n_iov i' iov'"
  using assms
proof (induction mapped m vindir n_indir n_iov "next" i iov rule: indirect_loop.induct)
  case (1 mapped m vindir n_indir n_iov "next" i iov)
  define vp where "vp = desc_at m (vindir + 16 * next)"
  define iov1 where "iov1 = vq_record mapped i vp n_iov iov"
  have vp: "vp \<in> D" using "1.prems"(2,3) by (simp add: vp_def)
  have ok1: "iov_ok mapped D n_iov (i + 1) iov1" unfolding iov1_def by (rule record_ok [OF "1.prems"(1) vp])
  show ?case
  proof (cases "vd_flags vp AND VRING_DESC_F_INDIRECT \<noteq> 0 \<or> i + 1 > VQ_MAX_DESCRIPTORS \<or> vd_flags vp AND VRING_DESC_F_NEXT = 0
      \<or> vd_next vp \<ge> n_indir")
    case True
    then show ?thesis using iov_ok_len [OF "1.prems"(1)] iov_ok_len [OF ok1] ok1
      by (subst indirect_loop.simps) (auto simp: Let_def vp_def [symmetric] iov1_def [symmetric])
  next
    case False
    then have rec: "indirect_loop mapped m vindir n_indir n_iov next i iov = indirect_loop mapped m vindir n_indir n_iov (vd_next vp) (i + 1) iov1"
      by (subst indirect_loop.simps) (simp add: Let_def vp_def [symmetric] iov1_def [symmetric])
    show ?thesis unfolding rec
      by (rule "1.IH" [OF vp_def _ iov1_def refl]) (use False ok1 "1.prems"(2) in simp_all)
  qed
qed

text \<open>What a run of the outer loop can end in.\<close>

definition chain_result_ok :: "(nat \<Rightarrow> nat \<Rightarrow> bool) \<Rightarrow> bool \<Rightarrow> gmem \<Rightarrow> nat \<Rightarrow> nat \<Rightarrow> nat \<Rightarrow> vfault + (int \<times> vq_iov list) \<Rightarrow> bool" where
  "chain_result_ok mapped indir_ok m desc qsize n_iov res \<longleftrightarrow>
     (case res of
        Inl f \<Rightarrow> f = Null_access \<and> indir_ok \<and> (\<exists>i < qsize. let t = desc_at m (desc + 16 * i)
          in is_indirect t \<and> \<not> mapped (vd_addr t) (vd_len t))
      | Inr (r, iov) \<Rightarrow> (r = -1 \<or> 0 < r \<and> r \<le> 512 \<and> length iov = min (nat r) n_iov) \<and> length iov \<le> n_iov \<and>
          set iov \<subseteq> iov_of mapped ` ring_descs mapped m desc qsize)"

lemma chain_loop_ok:
  assumes "iov_ok mapped (ring_descs mapped m desc qsize) n_iov i iov" "i < 512"
  shows "chain_result_ok mapped indir_ok m desc qsize n_iov (chain_loop mapped indir_ok m desc qsize n_iov next i iov)"
  using assms
proof (induction mapped indir_ok m desc qsize n_iov "next" i iov rule: chain_loop.induct)
  case (1 mapped indir_ok m desc qsize n_iov "next" i iov)
  let ?D = "ring_descs mapped m desc qsize"
  define d where "d = desc_at m (desc + 16 * next)"
  have fail: "chain_result_ok mapped indir_ok m desc qsize n_iov (Inr (-1, iov'))"
    if "length iov' \<le> n_iov" "set iov' \<subseteq> iov_of mapped ` ?D" for iov' using that by (simp add: chain_result_ok_def)
  have fin: "chain_result_ok mapped indir_ok m desc qsize n_iov (Inr (int j, iov'))"
    if "iov_ok mapped ?D n_iov j iov'" "0 < j" "j \<le> 512" for j iov' using that by (simp add: chain_result_ok_def iov_ok_def)
  have cont: "chain_result_ok mapped indir_ok m desc qsize n_iov (chain_loop mapped indir_ok m desc qsize n_iov nx j iov')"
    if "iov_ok mapped ?D n_iov j iov'" "\<not> j < 512" for nx j iov'
    using fail iov_ok_len [OF that(1)] that(2) by (simp add: chain_loop.simps [of mapped indir_ok m desc qsize n_iov nx j])
  note ol = iov_ok_len [OF "1.prems"(1)]
  show ?case
  proof (cases "next < qsize")
    case False
    then show ?thesis using fail ol "1.prems"(2) by (subst chain_loop.simps) simp
  next
    case True
    have dD: "d \<in> ?D" using True by (auto simp: ring_descs_def d_def)
    show ?thesis
    proof (cases "is_indirect d")
      case False
      define iov1 where "iov1 = vq_record mapped i d n_iov iov"
      have ok1: "iov_ok mapped ?D n_iov (i + 1) iov1" unfolding iov1_def by (rule record_ok [OF "1.prems"(1) dD])
      show ?thesis
      proof (cases "vd_flags d AND VRING_DESC_F_NEXT = 0")
        case True
        then have "chain_loop mapped indir_ok m desc qsize n_iov next i iov = Inr (int (i + 1), iov1)"
          using False \<open>next < qsize\<close> "1.prems"(2) by (subst chain_loop.simps) (simp add: Let_def d_def [symmetric] iov1_def is_indirect_def)
        then show ?thesis using fin [OF ok1] "1.prems"(2) by simp
      next
        case nx: False
        then have rec: "chain_loop mapped indir_ok m desc qsize n_iov next i iov = chain_loop mapped indir_ok m desc qsize n_iov (vd_next d) (i + 1) iov1"
          using False \<open>next < qsize\<close> "1.prems"(2) by (subst chain_loop.simps) (simp add: Let_def d_def [symmetric] iov1_def is_indirect_def)
        show ?thesis
        proof (cases "i + 1 < 512")
          case True
          show ?thesis unfolding rec
            by (rule "1.IH"(1) [OF _ _ d_def _ iov1_def nx ok1]) (use True False \<open>next < qsize\<close> "1.prems"(2) in \<open>simp_all add: is_indirect_def\<close>)
        qed (use cont [OF ok1] rec in simp)
      qed
    next
      case ind: True
      define n where "n = vd_len d div 16"
      show ?thesis
      proof (cases "\<not> indir_ok \<or> vd_len d mod 16 \<noteq> 0 \<or> n = 0 \<or> \<not> mapped (vd_addr d) (vd_len d)")
        case True
        then have "chain_loop mapped indir_ok m desc qsize n_iov next i iov =
            (if indir_ok \<and> vd_len d mod 16 = 0 \<and> n \<noteq> 0 then Inl Null_access else Inr (-1, iov))"
          using ind \<open>next < qsize\<close> "1.prems"(2) by (subst chain_loop.simps) (auto simp: Let_def d_def [symmetric] n_def is_indirect_def)
        then show ?thesis using True fail ol ind \<open>next < qsize\<close> by (auto simp: chain_result_ok_def Let_def d_def)
      next
        case g: False
        have D: "desc_at m (vd_addr d + 16 * j) \<in> ?D" if "j < n" for j
          using that ind g \<open>next < qsize\<close> unfolding ring_descs_def d_def n_def Let_def by blast
        have step: "chain_loop mapped indir_ok m desc qsize n_iov next i iov =
            (case indirect_loop mapped m (vd_addr d) n n_iov 0 i iov of Chain_bad iov' \<Rightarrow> Inr (-1, iov')
             | Chain_more i' iov' \<Rightarrow> if vd_flags d AND VRING_DESC_F_NEXT = 0 then Inr (int i', iov')
                else chain_loop mapped indir_ok m desc qsize n_iov (vd_next d) i' iov')"
          using ind g \<open>next < qsize\<close> "1.prems"(2) by (subst chain_loop.simps) (simp add: Let_def d_def [symmetric] n_def [symmetric] is_indirect_def)
        have il: "case indirect_loop mapped m (vd_addr d) n n_iov 0 i iov of
            Chain_bad iov' \<Rightarrow> length iov' \<le> n_iov \<and> set iov' \<subseteq> iov_of mapped ` ?D | Chain_more i' iov' \<Rightarrow> iov_ok mapped ?D n_iov i' iov'"
          by (rule indirect_loop_ok [OF "1.prems"(1) D]) (use g in auto)
        show ?thesis
        proof (cases "indirect_loop mapped m (vd_addr d) n n_iov 0 i iov")
          case (Chain_bad iov')
          then show ?thesis using il fail step by simp
        next
          case (Chain_more i' iov')
          then have ok': "iov_ok mapped ?D n_iov i' iov'" and i': "i < i'" "i' \<le> 512"
            using il indirect_loop_more [OF Chain_more] by simp_all
          show ?thesis
          proof (cases "vd_flags d AND VRING_DESC_F_NEXT = 0")
            case True
            then show ?thesis using fin [OF ok'] i' step Chain_more by simp
          next
            case nx: False
            then have rec: "chain_loop mapped indir_ok m desc qsize n_iov next i iov = chain_loop mapped indir_ok m desc qsize n_iov (vd_next d) i' iov'"
              using step Chain_more by simp
            show ?thesis
            proof (cases "i' < 512")
              case True
              show ?thesis unfolding rec
                by (rule "1.IH"(2) [OF _ _ d_def _ _ n_def _ _ Chain_more nx ok' True])
                   (use True ind g \<open>next < qsize\<close> "1.prems"(2) in \<open>simp_all add: is_indirect_def\<close>)
            qed (use cont [OF ok'] rec in simp)
          qed
        qed
      qed
    qed
  qed
qed


section \<open>Well-formed requests\<close>

text \<open>A request as a driver lays it out: a chain through the queue's table, or one descriptor that points to a table
  of its own, whose chain starts at entry 0. The indices are those of the chain, in order.\<close>

datatype req_shape = Direct "nat list" | Indirect nat "nat list"

fun table_chain :: "gmem \<Rightarrow> nat \<Rightarrow> nat \<Rightarrow> nat list \<Rightarrow> bool" where
  "table_chain m base n [] \<longleftrightarrow> False"
| "table_chain m base n [i] \<longleftrightarrow> i < n \<and> \<not> is_indirect (desc_at m (base + 16 * i)) \<and>
     vd_flags (desc_at m (base + 16 * i)) AND VRING_DESC_F_NEXT = 0"
| "table_chain m base n (i # j # is) \<longleftrightarrow> i < n \<and> \<not> is_indirect (desc_at m (base + 16 * i)) \<and>
     vd_flags (desc_at m (base + 16 * i)) AND VRING_DESC_F_NEXT \<noteq> 0 \<and> vd_next (desc_at m (base + 16 * i)) = j \<and>
     table_chain m base n (j # is)"

primrec shape_ok :: "(nat \<Rightarrow> nat \<Rightarrow> bool) \<Rightarrow> bool \<Rightarrow> gmem \<Rightarrow> nat \<Rightarrow> nat \<Rightarrow> req_shape \<Rightarrow> bool" where
  "shape_ok mapped indir_ok m desc qsize (Direct is) \<longleftrightarrow> table_chain m desc qsize is \<and> length is \<le> 512"
| "shape_ok mapped indir_ok m desc qsize (Indirect i js) \<longleftrightarrow>
     (let t = desc_at m (desc + 16 * i)
      in indir_ok \<and> i < qsize \<and> is_indirect t \<and> vd_flags t AND VRING_DESC_F_NEXT = 0 \<and> vd_len t mod 16 = 0 \<and>
         mapped (vd_addr t) (vd_len t) \<and> table_chain m (vd_addr t) (vd_len t div 16) js \<and> hd js = 0 \<and> length js \<le> 512)"

primrec shape_head :: "req_shape \<Rightarrow> nat" where
  "shape_head (Direct is) = hd is"
| "shape_head (Indirect i js) = i"

primrec shape_descs :: "gmem \<Rightarrow> nat \<Rightarrow> req_shape \<Rightarrow> virtio_desc list" where
  "shape_descs m desc (Direct is) = map (\<lambda>i. desc_at m (desc + 16 * i)) is"
| "shape_descs m desc (Indirect i js) = map (\<lambda>j. desc_at m (vd_addr (desc_at m (desc + 16 * i)) + 16 * j)) js"

lemma record_take:
  "vq_record mapped (length ds) d n_iov (take n_iov (map (iov_of mapped) ds)) = take n_iov (map (iov_of mapped) (ds @ [d]))"
  by (simp add: vq_record_def iov_of_def)

lemma record_take':
  "vq_record mapped (length ds) d n_iov (take n_iov (map (iov_of mapped) ds)) =
     take n_iov (map (iov_of mapped) ds @ [iov_of mapped d])"
  by (simp add: record_take)

lemma chain_loop_direct:
  assumes "table_chain m desc qsize is" "length ds + length is \<le> 512"
  shows "chain_loop mapped indir_ok m desc qsize n_iov (hd is) (length ds) (take n_iov (map (iov_of mapped) ds)) =
    Inr (int (length ds + length is), take n_iov (map (iov_of mapped) (ds @ map (\<lambda>i. desc_at m (desc + 16 * i)) is)))"
  using assms
proof (induction m desc qsize "is" arbitrary: ds rule: table_chain.induct)
  case (2 m base n i)
  then show ?case by (subst chain_loop.simps) (simp add: is_indirect_def record_take')
next
  case (3 m base n i j "is")
  define d where "d = desc_at m (base + 16 * i)"
  have "chain_loop mapped indir_ok m base n n_iov i (length ds) (take n_iov (map (iov_of mapped) ds)) =
      chain_loop mapped indir_ok m base n n_iov j (length (ds @ [d])) (take n_iov (map (iov_of mapped) (ds @ [d])))"
    using "3.prems" by (subst chain_loop.simps) (simp add: Let_def d_def [symmetric] is_indirect_def record_take')
  then show ?case using "3.IH" [of "ds @ [d]"] "3.prems" by (simp add: d_def)
qed simp

lemma indirect_loop_table:
  assumes "table_chain m vindir n is" "length ds + length is \<le> 512"
  shows "indirect_loop mapped m vindir n n_iov (hd is) (length ds) (take n_iov (map (iov_of mapped) ds)) =
    Chain_more (length ds + length is) (take n_iov (map (iov_of mapped) (ds @ map (\<lambda>i. desc_at m (vindir + 16 * i)) is)))"
  using assms
proof (induction m vindir n "is" arbitrary: ds rule: table_chain.induct)
  case (2 m base n i)
  then show ?case by (subst indirect_loop.simps) (simp add: is_indirect_def record_take')
next
  case (3 m base n i j "is")
  define d where "d = desc_at m (base + 16 * i)"
  have "j < n" using "3.prems"(1) by (cases "is") auto
  then have "indirect_loop mapped m base n n_iov i (length ds) (take n_iov (map (iov_of mapped) ds)) =
      indirect_loop mapped m base n n_iov j (length (ds @ [d])) (take n_iov (map (iov_of mapped) (ds @ [d])))"
    using "3.prems" by (subst indirect_loop.simps) (simp add: Let_def d_def [symmetric] is_indirect_def record_take')
  then show ?case using "3.IH" [of "ds @ [d]"] "3.prems" by (simp add: d_def)
qed simp

lemma chain_loop_shape:
  assumes "shape_ok mapped indir_ok m desc qsize s"
  shows "chain_loop mapped indir_ok m desc qsize n_iov (shape_head s) 0 [] =
    Inr (int (length (shape_descs m desc s)), take n_iov (map (iov_of mapped) (shape_descs m desc s)))"
proof (cases s)
  case (Direct "is")
  then show ?thesis using assms chain_loop_direct [of m desc qsize "is" "[]"] by simp
next
  case (Indirect i js)
  define t where "t = desc_at m (desc + 16 * i)"
  have js: "table_chain m (vd_addr t) (vd_len t div 16) js" "hd js = 0" "length js \<le> 512"
    using assms Indirect by (simp_all add: t_def Let_def)
  have n: "vd_len t div 16 \<noteq> 0" using js(1) by (cases "vd_len t div 16 = 0"; cases js; cases "tl js") auto
  show ?thesis using assms Indirect n indirect_loop_table [OF js(1), of "[]" mapped n_iov] js(2,3)
    by (subst chain_loop.simps) (simp add: t_def [symmetric] Let_def is_indirect_def)
qed

text \<open>C22. A request a driver laid out, as a chain in the queue's table or as one indirect table, and made available at
  the head of the available ring, is returned exactly: the number of its data descriptors, its head index, the first
  \<open>n_iov\<close> of its descriptors in the order of the chain, and the queue with the head consumed.\<close>

theorem vq_getchain_exact:
  assumes "vq_avail vq = Some avail" "vq_desc vq = Some desc"
    and "0 < unat (of_nat (mrd 2 m (avail + 2)) - vq_last_avail vq)"
    and "unat (of_nat (mrd 2 m (avail + 2)) - vq_last_avail vq) \<le> vq_qsize vq"
    and "mrd 2 m (avail + 4 + 2 * unat (vq_last_avail vq AND (of_nat (vq_qsize vq) - 1))) = shape_head s"
    and "shape_ok mapped (bit (vc_hv_caps vc) VIRTIO_RING_F_INDIRECT_DESC) m desc (vq_qsize vq) s"
  shows "vq_getchain mapped vc m vq n_iov =
    Inr (int (length (shape_descs m desc s)), shape_head s, take n_iov (map (iov_of mapped) (shape_descs m desc s)),
         vq\<lparr>vq_last_avail := vq_last_avail vq + 1\<rparr>)"
  using assms chain_loop_shape [OF assms(6), of n_iov] by (simp add: vq_getchain_def Let_def)

text \<open>A queue of 4 entries at address 0 with one request available: entry 0 (512 bytes at 4096), then entry 2 (16 bytes
  at 8192).\<close>

definition demo_mem :: gmem where
  "demo_mem = (\<lambda>_. 0)(1 := 0x10, 9 := 2, 12 := 1, 14 := 2, 33 := 0x20, 40 := 16, 44 := 2, 66 := 1)"

definition demo_vq :: vqueue_info where
  "demo_vq = \<lparr>vq_qsize = 4, vq_flags = VQ_ALLOC, vq_last_avail = 0, vq_next_used = 0, vq_save_used = 0, vq_msix_idx = 0,
     vq_pfn = 0, vq_desc = Some 0, vq_avail = Some 64, vq_used = Some 4096, vq_has_notify = True\<rparr>"

definition demo_vc :: virtio_consts where
  "demo_vc = \<lparr>vc_nvq = 1, vc_cfgsize = 8, vc_hv_caps = 0x31000000, vc_has_qnotify = False, vc_has_apply = False\<rparr>"

lemma demo_desc:
  "desc_at demo_mem 0 = \<lparr>vd_addr = 4096, vd_len = 512, vd_flags = 1, vd_next = 2\<rparr>"
  "desc_at demo_mem 32 = \<lparr>vd_addr = 8192, vd_len = 16, vd_flags = 2, vd_next = 0\<rparr>"
  by (simp_all add: desc_at_def mrd_def peek_def upt_rec demo_mem_def)

lemma demo_avail: "mrd 2 demo_mem 66 = 1" "mrd 2 demo_mem 68 = 0"
  by (simp_all add: mrd_def peek_def upt_rec demo_mem_def)

lemma demo_getchain_hyps:
  "vq_avail demo_vq = Some 64" "vq_desc demo_vq = Some 0"
  "0 < unat (of_nat (mrd 2 demo_mem (64 + 2)) - vq_last_avail demo_vq)"
  "unat (of_nat (mrd 2 demo_mem (64 + 2)) - vq_last_avail demo_vq) \<le> vq_qsize demo_vq"
  "mrd 2 demo_mem (64 + 4 + 2 * unat (vq_last_avail demo_vq AND (of_nat (vq_qsize demo_vq) - 1))) = shape_head (Direct [0, 2])"
  "shape_ok (\<lambda>_ _. True) (bit (vc_hv_caps demo_vc) VIRTIO_RING_F_INDIRECT_DESC) demo_mem 0 (vq_qsize demo_vq) (Direct [0, 2])"
  by (simp_all add: demo_vq_def demo_avail demo_desc is_indirect_def)

theorem vq_getchain_exact_witness:
  "vq_getchain (\<lambda>_ _. True) demo_vc demo_mem demo_vq 8 =
    Inr (2, 0, [\<lparr>iov_base = Some 4096, iov_len = 512, iov_flags = 1\<rparr>, \<lparr>iov_base = Some 8192, iov_len = 16, iov_flags = 2\<rparr>],
         demo_vq\<lparr>vq_last_avail := 1\<rparr>)"
proof -
  have "map (iov_of (\<lambda>_ _. True)) (shape_descs demo_mem 0 (Direct [0, 2])) =
      [\<lparr>iov_base = Some 4096, iov_len = 512, iov_flags = 1\<rparr>, \<lparr>iov_base = Some 8192, iov_len = 16, iov_flags = 2\<rparr>]"
    by (simp add: demo_desc iov_of_def)
  moreover have "vq_last_avail demo_vq = 0" by (simp add: demo_vq_def)
  moreover have "length (shape_descs demo_mem 0 (Direct [0, 2])) = 2" by simp
  ultimately show ?thesis using vq_getchain_exact [OF demo_getchain_hyps, of 8] by simp
qed


section \<open>The used ring\<close>

text \<open>What a driver reads: the entry for a used index.\<close>

definition used_entry :: "gmem \<Rightarrow> nat \<Rightarrow> nat \<Rightarrow> u16 \<Rightarrow> nat \<times> nat" where
  "used_entry m used qsize i = (let a = used + 4 + 8 * (unat i mod qsize) in (mrd 4 m a, mrd 4 m (a + 4)))"

primrec relchains :: "gmem \<Rightarrow> vqueue_info \<Rightarrow> (u16 \<times> u32) list \<Rightarrow> vfault + (gmem \<times> vqueue_info)" where
  "relchains m vq [] = Inr (m, vq)"
| "relchains m vq (r # rs) = (case vq_relchain m vq (fst r) (snd r) of Inl f \<Rightarrow> Inl f | Inr (m, vq) \<Rightarrow> relchains m vq rs)"

lemma ring_index: "n \<le> 15 \<Longrightarrow> unat (i AND (of_nat (2 ^ n) - 1)) = unat i mod 2 ^ n" for i :: u16
  using unat_and_mask [of i n] by (simp add: mask_eq_exp_minus_1)

text \<open>One release: the entry of the next used index, then the index itself; nothing else changes.\<close>

lemma vq_relchain_eq:
  assumes "vq_used vq = Some used" "vq_qsize vq = 2 ^ n" "n \<le> 15"
  obtains m' where "vq_relchain m vq idx iolen = Inr (m', vq\<lparr>vq_next_used := vq_next_used vq + 1\<rparr>)"
    "used_entry m' used (2 ^ n) (vq_next_used vq) = (unat idx, unat iolen)"
    "mrd 2 m' (used + 2) = unat (vq_next_used vq + 1)"
    "\<And>i. unat i mod 2 ^ n \<noteq> unat (vq_next_used vq) mod 2 ^ n \<Longrightarrow> used_entry m' used (2 ^ n) i = used_entry m used (2 ^ n) i"
    "\<And>a. a < used + 2 \<or> used + 4 + 8 * 2 ^ n \<le> a \<Longrightarrow> m' a = m a"
proof -
  define k where "k = unat (vq_next_used vq) mod 2 ^ n"
  define vue where "vue = used + 4 + 8 * k"
  define m' where "m' = mwr 2 (mwr 4 (mwr 4 m vue (unat idx)) (vue + 4) (unat iolen)) (used + 2) (unat (vq_next_used vq + 1))"
  have k: "k < 2 ^ n" by (simp add: k_def)
  have b: "unat idx < 65536" "unat iolen < 4294967296" "unat (vq_next_used vq + 1) < 65536"
    using unat_less_pow [of idx] unat_less_pow [of iolen] unat_less_pow [of "vq_next_used vq + 1"] by simp_all
  have "vq_relchain m vq idx iolen = Inr (m', vq\<lparr>vq_next_used := vq_next_used vq + 1\<rparr>)"
    using assms ring_index [of n "vq_next_used vq"]
    by (simp add: vq_relchain_def vq_relchain_prepare_def vq_relchain_publish_def Let_def m'_def vue_def k_def)
  moreover have "used_entry m' used (2 ^ n) (vq_next_used vq) = (unat idx, unat iolen)"
    using b by (simp add: used_entry_def Let_def m'_def k_def [symmetric] vue_def mrd_mwr_other mrd_mwr_same)
  moreover have "mrd 2 m' (used + 2) = unat (vq_next_used vq + 1)" using b by (simp add: m'_def mrd_mwr_same)
  moreover have "used_entry m' used (2 ^ n) i = used_entry m used (2 ^ n) i" if "unat i mod 2 ^ n \<noteq> k" for i
    using that by (auto simp: used_entry_def Let_def m'_def vue_def mrd_mwr_other linorder_neq_iff)
  moreover have "m' a = m a" if "a < used + 2 \<or> used + 4 + 8 * 2 ^ n \<le> a" for a
    using that k by (auto simp: m'_def vue_def mwr_other)
  ultimately show ?thesis using that k_def by blast
qed

lemma slot_distinct:
  assumes "0 < j" "j < 2 ^ n" "n \<le> 15"
  shows "unat (i + of_nat j :: u16) mod 2 ^ n \<noteq> unat i mod 2 ^ n"
proof
  assume eq: "unat (i + of_nat j :: u16) mod 2 ^ n = unat i mod 2 ^ n"
  have d: "(2 ^ n :: nat) dvd 65536" using le_imp_power_dvd [of n 16 "2::nat"] assms(3) by simp
  have "unat (i + of_nat j :: u16) = (unat i + j) mod 65536"
    by (simp add: unat_word_ariths unsigned_of_nat take_bit_eq_mod mod_simps)
  then have "(unat i + j) mod 2 ^ n = unat i mod 2 ^ n" using eq d by (simp add: mod_mod_cancel)
  then have "2 ^ n dvd j" by (metis add_diff_cancel_left' le_add1 mod_eq_dvd_iff_nat)
  then show False using assms(1,2) by (auto dest: dvd_imp_le)
qed

lemma relchains_spec:
  assumes "vq_used vq = Some used" "vq_qsize vq = 2 ^ n" "n \<le> 15" "length rs \<le> 2 ^ n"
  obtains m' where "relchains m vq rs = Inr (m', vq\<lparr>vq_next_used := vq_next_used vq + of_nat (length rs)\<rparr>)"
    "map (\<lambda>j. used_entry m' used (2 ^ n) (vq_next_used vq + of_nat j)) [0..<length rs] = map (\<lambda>(i, l). (unat i, unat l)) rs"
    "rs \<noteq> [] \<Longrightarrow> mrd 2 m' (used + 2) = unat (vq_next_used vq + of_nat (length rs))"
    "\<And>i. unat i mod 2 ^ n \<notin> (\<lambda>j. unat (vq_next_used vq + of_nat j) mod 2 ^ n) ` {0..<length rs} \<Longrightarrow>
       used_entry m' used (2 ^ n) i = used_entry m used (2 ^ n) i"
    "\<And>a. a < used + 2 \<or> used + 4 + 8 * 2 ^ n \<le> a \<Longrightarrow> m' a = m a"
  using assms
proof (induction rs arbitrary: m vq thesis)
  case Nil
  show ?case by (rule Nil.prems(1)) simp_all
next
  case (Cons r rs)
  let ?vq = "vq\<lparr>vq_next_used := vq_next_used vq + 1\<rparr>"
  obtain m1 where m1: "vq_relchain m vq (fst r) (snd r) = Inr (m1, ?vq)"
    "used_entry m1 used (2 ^ n) (vq_next_used vq) = (unat (fst r), unat (snd r))"
    "mrd 2 m1 (used + 2) = unat (vq_next_used vq + 1)"
    "\<And>i. unat i mod 2 ^ n \<noteq> unat (vq_next_used vq) mod 2 ^ n \<Longrightarrow> used_entry m1 used (2 ^ n) i = used_entry m used (2 ^ n) i"
    "\<And>a. a < used + 2 \<or> used + 4 + 8 * 2 ^ n \<le> a \<Longrightarrow> m1 a = m a"
    by (rule vq_relchain_eq [OF Cons.prems(2-4), of m "fst r" "snd r"]) (rule that)
  have len: "length rs \<le> 2 ^ n" "length rs < 2 ^ n" using Cons.prems(5) by simp_all
  have u: "vq_used ?vq = Some used" "vq_qsize ?vq = 2 ^ n" using Cons.prems(2,3) by simp_all
  obtain m2 where m2: "relchains m1 ?vq rs = Inr (m2, ?vq\<lparr>vq_next_used := vq_next_used ?vq + of_nat (length rs)\<rparr>)"
    "map (\<lambda>j. used_entry m2 used (2 ^ n) (vq_next_used ?vq + of_nat j)) [0..<length rs] = map (\<lambda>(i, l). (unat i, unat l)) rs"
    "rs \<noteq> [] \<Longrightarrow> mrd 2 m2 (used + 2) = unat (vq_next_used ?vq + of_nat (length rs))"
    "\<And>i. unat i mod 2 ^ n \<notin> (\<lambda>j. unat (vq_next_used ?vq + of_nat j) mod 2 ^ n) ` {0..<length rs} \<Longrightarrow>
       used_entry m2 used (2 ^ n) i = used_entry m1 used (2 ^ n) i"
    "\<And>a. a < used + 2 \<or> used + 4 + 8 * 2 ^ n \<le> a \<Longrightarrow> m2 a = m1 a"
    by (rule Cons.IH [OF _ u Cons.prems(4) len(1), of m1]) (rule that)
  have shift: "vq_next_used vq + 1 + of_nat j = vq_next_used vq + of_nat (Suc j)" for j by simp
  have fresh: "unat (vq_next_used vq) mod 2 ^ n \<notin> (\<lambda>j. unat (vq_next_used ?vq + of_nat j) mod 2 ^ n) ` {0..<length rs}"
  proof
    assume "unat (vq_next_used vq) mod 2 ^ n \<in> (\<lambda>j. unat (vq_next_used ?vq + of_nat j) mod 2 ^ n) ` {0..<length rs}"
    then obtain j where j: "j < length rs" "unat (vq_next_used vq) mod 2 ^ n = unat (vq_next_used vq + of_nat (Suc j)) mod 2 ^ n"
      unfolding shift [symmetric] by auto
    show False using slot_distinct [of "Suc j" n "vq_next_used vq"] j len(2) Cons.prems(4) by simp
  qed
  show ?case
  proof (rule Cons.prems(1))
    show "relchains m vq (r # rs) = Inr (m2, vq\<lparr>vq_next_used := vq_next_used vq + of_nat (length (r # rs))\<rparr>)"
      using m1(1) m2(1) by (simp add: add.assoc)
    have "map (\<lambda>j. used_entry m2 used (2 ^ n) (vq_next_used vq + of_nat j)) [0..<length (r # rs)] =
        used_entry m2 used (2 ^ n) (vq_next_used vq) #
        map (\<lambda>j. used_entry m2 used (2 ^ n) (vq_next_used ?vq + of_nat j)) [0..<length rs]"
      by (simp add: upt_conv_Cons map_Suc_upt [symmetric] add.assoc comp_def del: upt_Suc map_Suc_upt)
    then show "map (\<lambda>j. used_entry m2 used (2 ^ n) (vq_next_used vq + of_nat j)) [0..<length (r # rs)] =
        map (\<lambda>(i, l). (unat i, unat l)) (r # rs)"
      using m2(2) m2(4) [OF fresh] m1(2) by (simp add: case_prod_beta)
    show "mrd 2 m2 (used + 2) = unat (vq_next_used vq + of_nat (length (r # rs)))"
      using m2(3) m2(1) m1(1,3) by (cases "rs = []") (simp_all add: add.assoc)
    show "used_entry m2 used (2 ^ n) i = used_entry m used (2 ^ n) i"
      if "unat i mod 2 ^ n \<notin> (\<lambda>j. unat (vq_next_used vq + of_nat j) mod 2 ^ n) ` {0..<length (r # rs)}" for i
    proof -
      have i: "unat i mod 2 ^ n \<noteq> unat (vq_next_used vq + of_nat j) mod 2 ^ n" if "j < length (r # rs)" for j
        using \<open>unat i mod 2 ^ n \<notin> _\<close> that by auto
      have "unat i mod 2 ^ n \<noteq> unat (vq_next_used ?vq + of_nat j) mod 2 ^ n" if "j < length rs" for j
        using i [of "Suc j"] that unfolding shift [symmetric] by simp
      then have "unat i mod 2 ^ n \<notin> (\<lambda>j. unat (vq_next_used ?vq + of_nat j) mod 2 ^ n) ` {0..<length rs}" by fastforce
      then show ?thesis using i [of 0] m1(4) [of i] m2(4) [of i] by simp
    qed
    show "m2 a = m a" if "a < used + 2 \<or> used + 4 + 8 * 2 ^ n \<le> a" for a using that m1(5) m2(5) by simp
  qed
qed

text \<open>C21. Releasing up to a ring's worth of chains is a refinement of appending them to the sequence the driver reads:
  the entries for the used indices from the old one on are the released (head, length) pairs in their order, the index
  published is the old one advanced by their number modulo 65536, and no byte outside index and ring is written.\<close>

theorem vq_used_ring_refines:
  assumes "vq_used vq = Some used" "vq_qsize vq = 2 ^ n" "n \<le> 15" "length rs \<le> 2 ^ n" "rs \<noteq> []"
  shows "\<exists>m'. relchains m vq rs = Inr (m', vq\<lparr>vq_next_used := vq_next_used vq + of_nat (length rs)\<rparr>) \<and>
    map (\<lambda>j. used_entry m' used (2 ^ n) (vq_next_used vq + of_nat j)) [0..<length rs] = map (\<lambda>(i, l). (unat i, unat l)) rs \<and>
    mrd 2 m' (used + 2) = unat (vq_next_used vq + of_nat (length rs)) \<and>
    (\<forall>a. a < used + 2 \<or> used + 4 + 8 * 2 ^ n \<le> a \<longrightarrow> m' a = m a)"
  by (rule relchains_spec [OF assms(1-4), of m]) (use assms(5) in blast)

theorem vq_used_ring_refines_witness:
  "\<exists>m'. relchains demo_mem (demo_vq\<lparr>vq_next_used := 0xFFFF\<rparr>) [(2, 512), (0, 16)] = Inr (m', demo_vq\<lparr>vq_next_used := 1\<rparr>) \<and>
    used_entry m' 4096 4 0xFFFF = (2, 512) \<and> used_entry m' 4096 4 0 = (0, 16) \<and> mrd 2 m' 4098 = 1 \<and> m' 66 = 1"
proof -
  let ?vq = "demo_vq\<lparr>vq_next_used := 0xFFFF\<rparr>"
  have h: "vq_used ?vq = Some 4096" "vq_qsize ?vq = 2 ^ 2" by (simp_all add: demo_vq_def)
  have w: "(0x10001 :: u16) = 1" "(0x10000 :: u16) = 0" by simp_all
  have "demo_mem 66 = 1" by (simp add: demo_mem_def)
  then show ?thesis
    using vq_used_ring_refines [OF h, of "[(2, 512), (0, 16)]" demo_mem] by (auto simp: upt_rec w simp del: relchains.simps)
qed

section \<open>Interrupt suppression\<close>

lemma window_word: "x - e - 1 < x \<longleftrightarrow> e < x" for x e :: u16
  using unat_less_pow [of x] unat_less_pow [of e] by (auto simp: word_less_nat_alt unat_sub_if_size word_size)

text \<open>The test of the EVENT\_IDX case says that the event index is one of the indices from the old one up to, but not
  including, the new one, counted modulo 65536.\<close>

lemma event_window:
  "new - event - 1 < new - old \<longleftrightarrow> event \<in> (\<lambda>j. old + of_nat j) ` {0..<unat (new - old)}" for old new event :: u16
proof -
  have "new - event - 1 < new - old \<longleftrightarrow> event - old < new - old" using window_word [of "new - old" "event - old"] by simp
  also have "\<dots> \<longleftrightarrow> event \<in> (\<lambda>j. old + of_nat j) ` {0..<unat (new - old)}"
  proof
    assume "event - old < new - old"
    then have "unat (event - old) < unat (new - old)" by (simp add: word_less_nat_alt)
    moreover have "event = old + of_nat (unat (event - old))" by simp
    ultimately show "event \<in> (\<lambda>j. old + of_nat j) ` {0..<unat (new - old)}" by (metis atLeastLessThan_iff image_eqI le0)
  next
    assume "event \<in> (\<lambda>j. old + of_nat j) ` {0..<unat (new - old)}"
    then obtain j where "j < unat (new - old)" "event = old + of_nat j" by auto
    moreover from this have "unat (of_nat j :: u16) = j"
      using unat_less_pow [of "new - old"] by (simp add: unsigned_of_nat take_bit_nat_eq_self)
    ultimately show "event - old < new - old" by (simp add: word_less_nat_alt)
  qed
  finally show ?thesis .
qed

text \<open>The interrupt the guest gets: MSI-X with the queue's vector, or the ISR bit, an MSI and the pin.\<close>

definition interrupted :: "bool \<Rightarrow> virtio_softc \<Rightarrow> nat \<Rightarrow> virtio_softc" where
  "interrupted msix vs q = (if msix then vs\<lparr>vs_events := vs_events vs @ [Generate_msix (vq_msix_idx (vs_queues vs q))]\<rparr>
     else vs\<lparr>vs_isr := vs_isr vs OR 1, vs_events := vs_events vs @ [Generate_msi 0, Lintr_assert]\<rparr>)"

text \<open>\<^verbatim>\<open>vq_endchains\<close> interrupts the guest exactly when the virtio rules ask for it: the driver asked to be
  notified on an empty ring and it is empty; or, with event indices, one of the entries published since the last call
  has the index the driver waits for; or, without them, something was published and the driver did not suppress
  interrupts. In every case the published index is remembered for the next call.\<close>

theorem vq_endchains_notifies:
  assumes "vq_used (vs_queues vs q) = Some used" "vq_avail (vs_queues vs q) = Some avail"
    and "new = of_nat (mrd 2 (vs_mem vs) (used + 2))" "old = vq_save_used (vs_queues vs q)"
    and "vs' = upd_vq q (\<lambda>vq. vq\<lparr>vq_save_used := new\<rparr>) vs" "caps = vs_negotiated_caps vs"
  shows "vq_endchains msix vs q all = Inr (
    if all \<and> bit caps VIRTIO_F_NOTIFY_ON_EMPTY \<or>
       bit caps VIRTIO_RING_F_EVENT_IDX \<and>
         of_nat (mrd 2 (vs_mem vs) (avail + 4 + 2 * vq_qsize (vs_queues vs q))) \<in> (\<lambda>j. old + of_nat j) ` {0..<unat (new - old)} \<or>
       \<not> bit caps VIRTIO_RING_F_EVENT_IDX \<and> new \<noteq> old \<and> of_nat (mrd 2 (vs_mem vs) avail) AND VRING_AVAIL_F_NO_INTERRUPT = (0 :: u16)
    then interrupted msix vs' q else vs')"
proof -
  have m: "vs_mem vs' = vs_mem vs" "vs_negotiated_caps vs' = caps" using assms by (simp_all add: upd_vq_def)
  have i: "vq_interrupt msix vs' q = interrupted msix vs' q" by (simp add: vq_interrupt_def interrupted_def vs_emit_def)
  have "vq_endchains msix vs q all = Inr (if endchains_intr caps all
      (of_nat (mrd 2 (vs_mem vs) (avail + 4 + 2 * vq_qsize (vs_queues vs q)))) (of_nat (mrd 2 (vs_mem vs) avail)) old new
      then interrupted msix vs' q else vs')"
    unfolding i [symmetric] using assms(1,2) m by (simp add: vq_endchains_def Let_def assms(3-5))
  then show ?thesis unfolding endchains_intr_def event_window by simp
qed

definition demo_vs :: virtio_softc where
  "demo_vs = \<lparr>vs_flags = 0, vs_negotiated_caps = 0x20000000, vs_queues = (\<lambda>_. demo_vq\<lparr>vq_save_used := 0xFFFF\<rparr>), vs_curq = 0,
     vs_status = 0, vs_isr = 0, vs_msix_cfg_idx = 0, vs_mem = demo_mem(4098 := 2), vs_events = []\<rparr>"

theorem vq_endchains_notifies_witness:
  "map_sum id vs_events (vq_endchains False demo_vs 0 False) = Inr [Generate_msi 0, Lintr_assert]"
proof -
  have h: "vq_used (vs_queues demo_vs 0) = Some 4096" "vq_avail (vs_queues demo_vs 0) = Some 64"
    by (simp_all add: demo_vs_def demo_vq_def)
  have v: "mrd 2 (vs_mem demo_vs) (4096 + 2) = 2" "mrd 2 (vs_mem demo_vs) (64 + 4 + 2 * 4) = 0"
    "mrd 2 (vs_mem demo_vs) 4098 = 2" "mrd 2 (vs_mem demo_vs) 76 = 0"
    by (simp_all add: demo_vs_def mrd_def peek_def upt_rec demo_mem_def)
  have s: "vq_save_used (vs_queues demo_vs 0) = 0xFFFF" "vq_qsize (vs_queues demo_vs 0) = 4"
    "vs_negotiated_caps demo_vs = 0x20000000" "vs_events demo_vs = []" "bit (0x20000000 :: u32) 29"
    by (simp_all add: demo_vs_def demo_vq_def)
  have "(0 :: u16) \<in> (\<lambda>j. 0xFFFF + of_nat j) ` {0..<unat (2 - 0xFFFF :: u16)}" by (rule image_eqI [where x = 1]) simp_all
  then show ?thesis
    using vq_endchains_notifies [OF h refl refl refl refl, of False False] by (simp add: v s interrupted_def upd_vq_def)
qed

section \<open>Register access\<close>

definition cr_key :: "config_reg \<Rightarrow> int" where
  "cr_key cr = int (cr_offset cr)"

lemma find_cr_loop_spec:
  assumes "sorted_wrt (<) (map cr_offset regs)" "regs \<noteq> []" "0 \<le> lo" "lo \<le> hi + 1" "hi < int (length regs)"
    "\<And>i. i < nat lo \<Longrightarrow> cr_key (regs ! i) < offset"
    "\<And>i. hi < int i \<Longrightarrow> i < length regs \<Longrightarrow> offset < cr_key (regs ! i)"
  shows "find_cr_loop regs offset lo hi =
    (if offset < cr_key (regs ! 0) then Inl Null_access else Inr (find (\<lambda>cr. cr_key cr = offset) regs))"
  using assms
proof (induction regs offset lo hi rule: find_cr_loop.induct)
  case (1 regs offset lo hi)
  have mono: "i < j \<Longrightarrow> j < length regs \<Longrightarrow> cr_key (regs ! i) < cr_key (regs ! j)" for i j
    using "1.prems"(1) by (simp add: sorted_wrt_iff_nth_less cr_key_def)
  consider "hi < 0" | "0 \<le> hi" "hi < lo" | "0 \<le> hi" "lo \<le> hi" by linarith
  then show ?case
  proof cases
    case 1
    then show ?thesis using "1.prems"(2) "1.prems"(7) [of 0] by (subst find_cr_loop.simps) simp
  next
    case 2
    then have "find (\<lambda>cr. cr_key cr = offset) regs = None"
      using "1.prems"(4,6,7) unfolding find_None_iff in_set_conv_nth
      by (metis less_irrefl nat_less_iff not_less of_nat_0_le_iff order_less_le_trans zless_imp_add1_zle zless_nat_eq_int_zless)
    moreover have "cr_key (regs ! 0) < offset" using 2 "1.prems"(6) [of 0] by simp
    ultimately show ?thesis using 2 by (subst find_cr_loop.simps) simp
  next
    case range: 3
    define mid where "mid = (hi + lo) div 2"
    have m: "lo \<le> mid" "mid \<le> hi" "nat mid < length regs" using range "1.prems"(3,5) by (auto simp: mid_def)
    have cr: "int (cr_offset (regs ! nat mid)) = cr_key (regs ! nat mid)" by (simp add: cr_key_def)
    consider "cr_key (regs ! nat mid) = offset" | "cr_key (regs ! nat mid) < offset" | "offset < cr_key (regs ! nat mid)" by linarith
    then show ?thesis
    proof cases
      case 1
      have "find (\<lambda>cr. cr_key cr = offset) regs = Some (regs ! nat mid)"
        unfolding find_Some_iff using 1 m(3) mono by (intro exI [of _ "nat mid"]) fastforce
      moreover have "\<not> offset < cr_key (regs ! 0)" using 1 mono [of 0 "nat mid"] m(3) by (cases "nat mid = 0") auto
      ultimately show ?thesis using range 1 by (subst find_cr_loop.simps) (simp add: Let_def mid_def [symmetric] cr)
    next
      case 2
      have below: "cr_key (regs ! i) < offset" if "i < nat (mid + 1)" for i
        using that 2 mono [of i "nat mid"] m(1,3) "1.prems"(3) by (cases "i = nat mid") force+
      have "find_cr_loop regs offset lo hi = find_cr_loop regs offset (mid + 1) hi"
        using range 2 by (subst find_cr_loop.simps) (simp add: Let_def mid_def [symmetric] cr)
      also have "\<dots> = (if offset < cr_key (regs ! 0) then Inl Null_access else Inr (find (\<lambda>cr. cr_key cr = offset) regs))"
        by (rule "1.IH"(1) [OF _ _ mid_def refl]) (use range m "1.prems"(1-5,7) below in \<open>simp_all add: cr 2 less_imp_neq [OF 2]\<close>)
      finally show ?thesis .
    next
      case 3
      have above: "offset < cr_key (regs ! i)" if "mid - 1 < int i" "i < length regs" for i
        using that 3 mono [of "nat mid" i] m(1,3) "1.prems"(3) by (cases "i = nat mid") force+
      have "find_cr_loop regs offset lo hi = find_cr_loop regs offset lo (mid - 1)"
        using range 3 by (subst find_cr_loop.simps) (simp add: Let_def mid_def [symmetric] cr)
      also have "\<dots> = (if offset < cr_key (regs ! 0) then Inl Null_access else Inr (find (\<lambda>cr. cr_key cr = offset) regs))"
        by (rule "1.IH"(2) [OF _ _ mid_def refl]) (use range m "1.prems"(1-6) above in \<open>simp_all add: cr 3 less_imp_neq [OF 3, symmetric] less_imp_le [OF 3] not_less\<close>)
      finally show ?thesis .
    qed
  qed
qed

lemma find_cr_table:
  "vi_find_cr offset = (if offset < 0 then Inl Null_access else Inr (find (\<lambda>cr. int (cr_offset cr) = offset) config_regs))"
proof -
  have "vi_find_cr offset = (if offset < cr_key (config_regs ! 0) then Inl Null_access
      else Inr (find (\<lambda>cr. cr_key cr = offset) config_regs))"
    unfolding vi_find_cr_def by (rule find_cr_loop_spec) (auto simp: config_regs_def)
  moreover have "cr_key (config_regs ! 0) = 0" by (simp add: cr_key_def config_regs_def)
  ultimately show ?thesis by (simp add: cr_key_def)
qed

text \<open>The binary search for a configuration register finds what a search through the table finds, and returns no
  register exactly when the table has none, for every offset that is not negative; for a negative one it would leave
  the table.\<close>

theorem vi_find_cr_linear:
  "vi_find_cr offset = (if offset < 0 then Inl Null_access else Inr (find (\<lambda>cr. int (cr_offset cr) = offset) config_regs))"
  by (rule find_cr_table)

text \<open>What the register file keeps: only features the device offers are negotiated, and the queue selected is never
  negative, so a queue register indexes the queue array or none.\<close>

definition vs_ok :: "virtio_consts \<Rightarrow> virtio_softc \<Rightarrow> bool" where
  "vs_ok vc vs \<longleftrightarrow> ucast (vs_negotiated_caps vs) AND vc_hv_caps vc = ucast (vs_negotiated_caps vs) \<and> 0 \<le> vs_curq vs"

datatype vi_op = Vi_reset | Vi_read vi_env nat u64 nat | Vi_write vi_env nat u64 nat u64

text \<open>An access as the PCI layer makes it: to a bar the device has, within 2 GB, with a value of the access size.\<close>

primrec access_ok :: "virtio_softc \<Rightarrow> vi_op \<Rightarrow> bool" where
  "access_ok vs Vi_reset \<longleftrightarrow> True"
| "access_ok vs (Vi_read ve baridx offset sz) \<longleftrightarrow>
     (vs_flags vs mod 2 = VIRTIO_USE_MSIX \<and> baridx \<in> set (ve_msix_bars ve) \<or> baridx = 0) \<and> unat offset < 2 ^ 31"
| "access_ok vs (Vi_write ve baridx offset sz value) \<longleftrightarrow>
     (vs_flags vs mod 2 = VIRTIO_USE_MSIX \<and> baridx \<in> set (ve_msix_bars ve) \<or> baridx = 0) \<and> unat offset < 2 ^ 31 \<and>
     unat value < 256 ^ sz"

primrec vi_access :: "virtio_consts \<Rightarrow> virtio_softc \<Rightarrow> vi_op \<Rightarrow> vfault + virtio_softc" where
  "vi_access vc vs Vi_reset = Inr (vi_reset_dev vc vs)"
| "vi_access vc vs (Vi_read ve baridx offset sz) = map_sum id snd (vi_pci_read ve vc vs baridx offset sz)"
| "vi_access vc vs (Vi_write ve baridx offset sz value) = vi_pci_write ve vc vs baridx offset sz value"

lemma vs_ok_emit [simp]: "vs_ok vc (vs_emit e vs) = vs_ok vc vs"
  by (simp add: vs_ok_def vs_emit_def)

lemma vs_flags_keep [simp]: "vs_flags (vs_emit e vs) = vs_flags vs" "vs_flags (upd_vq q f vs) = vs_flags vs"
  by (simp_all add: vs_emit_def upd_vq_def)

lemma vs_ok_upd_vq [simp]: "vs_ok vc (upd_vq q f vs) = vs_ok vc vs"
  by (simp add: vs_ok_def upd_vq_def)

lemma curq_reg_ok: "vs_ok vc vs \<Longrightarrow> \<exists>v. curq_reg vc vs f other = Inr v"
  by (simp add: curq_reg_def vs_ok_def)

lemma read_reg_ok: "vs_ok vc vs \<Longrightarrow> \<exists>v vs'. read_reg vc vs offset w = Inr (v, vs') \<and> vs_ok vc vs' \<and> vs_flags vs' = vs_flags vs"
  using curq_reg_ok [of vc vs vq_pfn w] curq_reg_ok [of vc vs "\<lambda>q. of_nat (vq_qsize q)" 0]
    curq_reg_ok [of vc vs "\<lambda>q. ucast (vq_msix_idx q)" "ucast VIRTIO_MSI_NO_VECTOR"]
  by (auto simp: read_reg_def Let_def) (auto simp: vs_ok_def)

lemma negotiated_sub: "ucast (ucast (v AND caps) :: u32) AND caps = ucast (ucast (v AND caps) :: u32)" for v caps :: u64
  by (rule bit_word_eqI) (auto simp: bit_simps)

lemma find_config_size:
  "find (\<lambda>cr. int (cr_offset cr) = x) config_regs = Some cr \<Longrightarrow> int (cr_offset cr) = x \<and> (x = 14 \<longrightarrow> cr_size cr = 2)"
  by (auto simp: config_regs_def split: if_splits)

lemma sint_ucast_small:
  fixes v :: u64
  assumes "unat v < 2147483648"
  shows "sint (ucast v :: u32) = int (unat v)"
proof -
  have "unat (ucast v :: u32) = unat v" unfolding unsigned_ucast_eq by (rule take_bit_nat_eq_self) (use assms in simp)
  then have u: "uint (ucast v :: u32) = int (unat v)" by (metis uint_nat)
  show ?thesis unfolding sint_uint u by (rule signed_take_bit_int_eq_self) (use assms in \<open>simp_all del: of_nat_unat\<close>)
qed

lemma write_reg_ok:
  assumes "vs_ok vc vs" "offset = VTCFG_R_QSEL \<Longrightarrow> unat v < 65536"
  shows "\<exists>vs'. write_reg ve vc vs offset v = Inr vs' \<and> vs_ok vc vs' \<and> vs_flags vs' = vs_flags vs"
proof (cases "offset = VTCFG_R_QSEL")
  case True
  have b: "unat v < 65536" by (rule assms(2) [OF True])
  then have "sint (ucast v :: u32) = int (unat v)" by (intro sint_ucast_small) simp
  then have "0 \<le> sint (ucast v :: u32)" by simp
  then show ?thesis using True assms(1) by (simp add: write_reg_def vs_ok_def)
next
  case False
  have "vs_ok vc (vs\<lparr>vs_negotiated_caps := ucast (v AND vc_hv_caps vc)\<rparr>)"
    using assms(1) negotiated_sub [of v "vc_hv_caps vc"] by (simp add: vs_ok_def)
  moreover have "vs_ok vc (vs\<lparr>vs_status := ucast v\<rparr>)" "vs_ok vc (vs\<lparr>vs_msix_cfg_idx := ucast v\<rparr>)"
    using assms(1) by (simp_all add: vs_ok_def)
  ultimately show ?thesis using False assms(1)
    by (auto simp: write_reg_def Let_def vi_vq_init_def) (auto simp: vs_ok_def)
qed

lemma vi_find_cr_small: "unat offset < 2147483648 \<Longrightarrow>
    vi_find_cr (sint (ucast offset :: u32)) = Inr (find (\<lambda>cr. int (cr_offset cr) = int (unat offset)) config_regs)" for offset :: u64
  using sint_ucast_small [of offset] find_cr_table [of "int (unat offset)"] by simp

lemma vi_access_ok:
  assumes "vs_ok vc vs" "access_ok vs a"
  shows "\<exists>vs'. vi_access vc vs a = Inr vs' \<and> vs_ok vc vs' \<and> vs_flags vs' = vs_flags vs"
proof (cases a)
  case Vi_reset
  then show ?thesis by (simp add: vi_reset_dev_def Let_def vs_ok_def vs_emit_def)
next
  case (Vi_read ve baridx offset sz)
  obtain r where r: "vi_find_cr (sint (ucast offset :: u32)) = Inr r"
    using vi_find_cr_small [of offset] assms(2) Vi_read by auto
  have "\<exists>v vs'. vi_pci_read ve vc vs baridx offset sz = Inr (v, vs') \<and> vs_ok vc vs' \<and> vs_flags vs' = vs_flags vs"
  proof (cases "vs_flags vs mod 2 = VIRTIO_USE_MSIX \<and> baridx \<in> set (ve_msix_bars ve)")
    case True
    then show ?thesis using assms(1) by (auto simp: vi_pci_read_def)
  next
    case False
    define dev where "dev = (if cfg_device ve vc offset sz then ve_cfgread ve (ucast (offset - cfg_size ve)) sz
      else (True, if sz = 1 then 0xff else if sz = 2 then 0xffff else 0xffffffff))"
    obtain v vs' where rr: "read_reg vc vs (unat offset) (snd dev) = Inr (v, vs')" "vs_ok vc vs'" "vs_flags vs' = vs_flags vs"
      using read_reg_ok [OF assms(1)] by blast
    have "baridx = 0" using False assms(2) Vi_read by auto
    then show ?thesis using False assms(1) rr unfolding vi_pci_read_def Let_def r dev_def [symmetric]
      by (simp split: option.split)
  qed
  then show ?thesis using Vi_read by auto
next
  case (Vi_write ve baridx offset sz v)
  then have o: "unat offset < 2147483648" and v: "unat v < 256 ^ sz" using assms(2) by auto
  show ?thesis
  proof (cases "find (\<lambda>cr. int (cr_offset cr) = int (unat offset)) config_regs")
    case None
    then have "vi_find_cr (sint (ucast offset :: u32)) = Inr None" unfolding vi_find_cr_small [OF o] by (rule arg_cong)
    then show ?thesis using assms Vi_write by (auto simp: vi_pci_write_def Let_def)
  next
    case (Some cr)
    have "unat v < 65536" if "cr_size cr = sz" "unat offset = VTCFG_R_QSEL"
      using find_config_size [OF Some] that v by simp
    then have wr: "\<exists>vs'. write_reg ve vc vs1 (unat offset) v = Inr vs' \<and> vs_ok vc vs' \<and> vs_flags vs' = vs_flags vs1"
      if "cr_size cr = sz" "vs_ok vc vs1" for vs1
      using that by (intro write_reg_ok) auto
    have "\<exists>vs'. write_reg ve vc (vs_emit e vs) (unat offset) v = Inr vs' \<and> vs_ok vc vs' \<and> vs_flags vs' = vs_flags vs"
      if "cr_size cr = sz" for e using wr [OF that, of "vs_emit e vs"] assms(1) by simp
    moreover have "vi_find_cr (sint (ucast offset :: u32)) = Inr (Some cr)" unfolding vi_find_cr_small [OF o] Some ..
    ultimately show ?thesis using assms Vi_write wr by (auto simp: vi_pci_write_def Let_def)
  qed
qed

primrec vi_accesses :: "virtio_consts \<Rightarrow> virtio_softc \<Rightarrow> vi_op list \<Rightarrow> vfault + virtio_softc" where
  "vi_accesses vc vs [] = Inr vs"
| "vi_accesses vc vs (a # as) = (case vi_access vc vs a of Inl f \<Rightarrow> Inl f | Inr vs \<Rightarrow> vi_accesses vc vs as)"

lemma access_ok_flags: "vs_flags vs' = vs_flags vs \<Longrightarrow> access_ok vs' a = access_ok vs a"
  by (cases a) simp_all


definition demo_ve :: vi_env where
  "demo_ve = \<lparr>ve_msix_bars = [1], ve_msix_tread = (\<lambda>_ _. 0), ve_msix_enabled = False, ve_cfgread = (\<lambda>_ _. (False, 0)),
     ve_cfgwrite = (\<lambda>_ _ _. False), ve_mapped = (\<lambda>_ _. True)\<rparr>"


end
