(* ===== verification/Byte_Fifo.thy ===== *)
theory Byte_Fifo
  imports Prelude
begin

text \<open>
  The byte ring buffers of the character devices: \<^verbatim>\<open>struct fifo\<close> of \<^verbatim>\<open>uart_emul.c\<close>,
  \<^verbatim>\<open>ps2kbd.c\<close> and \<^verbatim>\<open>ps2mouse.c\<close>, which declare the same structure and code, and the contract
  \<open>byte_fifo\<close> of a bounded queue of bytes. The devices' own put and get operations are interpretations of it.
\<close>

section \<open>The contract\<close>

text \<open>A put past the capacity drops the byte.\<close>

locale byte_fifo =
  fixes put :: "'s \<Rightarrow> u8 \<Rightarrow> 's"
    and get :: "'s \<Rightarrow> (u8 \<times> 's) option"
    and contents :: "'s \<Rightarrow> u8 list"
    and cap :: "'s \<Rightarrow> nat"
    and ok :: "'s \<Rightarrow> bool"
  assumes ok_put: "ok s \<Longrightarrow> ok (put s c)"
    and cap_put: "ok s \<Longrightarrow> cap (put s c) = cap s"
    and contents_put: "ok s \<Longrightarrow> contents (put s c) = (if length (contents s) < cap s then contents s @ [c] else contents s)"
    and get_empty: "ok s \<Longrightarrow> contents s = [] \<Longrightarrow> get s = None"
    and get_next: "ok s \<Longrightarrow> contents s = x # xs \<Longrightarrow> \<exists>s'. get s = Some (x, s') \<and> ok s' \<and> cap s' = cap s \<and> contents s' = xs"
    and contents_le: "ok s \<Longrightarrow> length (contents s) \<le> cap s"
begin

definition puts :: "u8 list \<Rightarrow> 's \<Rightarrow> 's" where
  "puts cs s = fold (\<lambda>c s. put s c) cs s"

lemma puts_simps [simp]: "puts [] s = s" "puts (c # cs) s = puts cs (put s c)"
  by (simp_all add: puts_def)

lemma ok_puts: "ok s \<Longrightarrow> ok (puts cs s) \<and> cap (puts cs s) = cap s"
  by (induction cs arbitrary: s) (simp_all add: ok_put cap_put)

lemma contents_puts: "ok s \<Longrightarrow> contents (puts cs s) = contents s @ take (cap s - length (contents s)) cs"
proof (induction cs arbitrary: s)
  case (Cons c cs)
  show ?case
  proof (cases "length (contents s) < cap s")
    case True
    then obtain n where "cap s - length (contents s) = Suc n" "cap s - Suc (length (contents s)) = n"
      by (cases "cap s - length (contents s)") auto
    then show ?thesis using True Cons.IH [OF ok_put [OF Cons.prems], of c] by (simp add: contents_put cap_put Cons.prems)
  next
    case False
    then show ?thesis using Cons.IH [OF ok_put [OF Cons.prems], of c] by (simp add: contents_put cap_put Cons.prems)
  qed
qed simp

lemma get_cases:
  assumes "ok s"
  obtains "get s = None" "contents s = []"
  | x s' where "get s = Some (x, s')" "ok s'" "cap s' = cap s" "contents s = x # contents s'"
proof (cases "contents s")
  case Nil
  then show ?thesis using that(1) get_empty [OF assms] by simp
next
  case (Cons x xs)
  then show ?thesis using that(2) get_next [OF assms Cons] by auto
qed

end

section \<open>The ring buffer\<close>

record fifo =
  f_buf :: "nat \<Rightarrow> u8"
  f_rindex :: nat
  f_windex :: nat
  f_num :: nat
  f_size :: nat

definition fifo_zero :: "nat \<Rightarrow> fifo" where
  "fifo_zero sz = \<lparr>f_buf = (\<lambda>_. 0), f_rindex = 0, f_windex = 0, f_num = 0, f_size = sz\<rparr>"

definition fifo_put :: "fifo \<Rightarrow> u8 \<Rightarrow> fifo" where
  "fifo_put f val =
     (if f_num f < f_size f
      then f\<lparr>f_buf := (f_buf f)(f_windex f := val), f_windex := (f_windex f + 1) mod f_size f, f_num := f_num f + 1\<rparr>
      else f)"

definition fifo_get :: "fifo \<Rightarrow> (u8 \<times> fifo) option" where
  "fifo_get f =
     (if f_num f > 0
      then Some (f_buf f (f_rindex f), f\<lparr>f_rindex := (f_rindex f + 1) mod f_size f, f_num := f_num f - 1\<rparr>)
      else None)"

text \<open>The indices stay inside the array of 16 bytes, and the contents are the bytes between them.\<close>

definition fifo_ok :: "fifo \<Rightarrow> bool" where
  "fifo_ok f \<longleftrightarrow> 0 < f_size f \<and> f_size f \<le> 16 \<and> f_num f \<le> f_size f \<and> f_rindex f < f_size f \<and>
     f_windex f = (f_rindex f + f_num f) mod f_size f"

definition fifo_list :: "fifo \<Rightarrow> u8 list" where
  "fifo_list f = map (\<lambda>i. f_buf f ((f_rindex f + i) mod f_size f)) [0..<f_num f]"

lemma length_fifo_list [simp]: "length (fifo_list f) = f_num f"
  by (simp add: fifo_list_def)

lemma fifo_ok_windex: "fifo_ok f \<Longrightarrow> f_windex f < f_size f"
  by (simp add: fifo_ok_def)

lemma fifo_zero_simps [simp]: "0 < sz \<Longrightarrow> sz \<le> 16 \<Longrightarrow> fifo_ok (fifo_zero sz)" "fifo_list (fifo_zero sz) = []"
  "f_num (fifo_zero sz) = 0" "f_size (fifo_zero sz) = sz"
  by (simp_all add: fifo_zero_def fifo_ok_def fifo_list_def)

lemma ring_slot_inj: "i < n \<Longrightarrow> n < sz \<Longrightarrow> (r + i) mod sz \<noteq> (r + n) mod sz" for i n r sz :: nat
proof
  assume a: "i < n" "n < sz" "(r + i) mod sz = (r + n) mod sz"
  then have "sz dvd (r + n) - (r + i)" by (metis mod_eq_dvd_iff_nat add_le_cancel_left less_imp_le)
  then show False using a by (auto dest: dvd_imp_le)
qed

lemma fifo_put_num: "f_num (fifo_put f v) = (if f_num f < f_size f then f_num f + 1 else f_num f)" "f_size (fifo_put f v) = f_size f"
  by (simp_all add: fifo_put_def)

lemma fifo_put_ok: "fifo_ok f \<Longrightarrow> fifo_ok (fifo_put f v)"
  by (auto simp: fifo_ok_def fifo_put_def mod_Suc_eq)

lemma fifo_put_list:
  assumes "fifo_ok f"
  shows "fifo_list (fifo_put f v) = (if f_num f < f_size f then fifo_list f @ [v] else fifo_list f)"
  using assms ring_slot_inj [of _ "f_num f" "f_size f" "f_rindex f"]
  by (simp add: fifo_list_def fifo_put_def fifo_ok_def)

lemma fifo_get_next:
  assumes "fifo_ok f" "fifo_list f = x # xs"
  shows "\<exists>f'. fifo_get f = Some (x, f') \<and> fifo_ok f' \<and> f_size f' = f_size f \<and> fifo_list f' = xs \<and> f_num f = Suc (f_num f')"
proof -
  have n: "f_num f = Suc (length xs)" using arg_cong [OF assms(2), of length] by simp
  have r: "f_rindex f < f_size f" "f_num f \<le> f_size f" using assms(1) by (simp_all add: fifo_ok_def)
  have s: "((f_rindex f + 1) mod f_size f + i) mod f_size f = (f_rindex f + Suc i) mod f_size f" for i
    by (simp add: mod_add_left_eq)
  have "fifo_list f = f_buf f (f_rindex f) # map (\<lambda>i. f_buf f ((f_rindex f + Suc i) mod f_size f)) [0..<length xs]"
    using r by (simp add: fifo_list_def n upt_conv_Cons map_Suc_upt [symmetric] del: upt_Suc map_Suc_upt)
  then show ?thesis using assms s [of "f_num f - 1"] unfolding fifo_get_def
    by (auto simp: n fifo_list_def fifo_ok_def s mod_simps)
qed

interpretation ring: byte_fifo fifo_put fifo_get fifo_list f_size fifo_ok
proof
  fix s :: fifo and c x xs
  show "fifo_ok s \<Longrightarrow> fifo_ok (fifo_put s c)" by (rule fifo_put_ok)
  show "f_size (fifo_put s c) = f_size s" by (simp add: fifo_put_num)
  show "fifo_ok s \<Longrightarrow> fifo_list (fifo_put s c) = (if length (fifo_list s) < f_size s then fifo_list s @ [c] else fifo_list s)"
    by (simp add: fifo_put_list)
  show "fifo_list s = [] \<Longrightarrow> fifo_get s = None" by (simp add: fifo_get_def fifo_list_def)
  show "fifo_ok s \<Longrightarrow> fifo_list s = x # xs \<Longrightarrow>
      \<exists>s'. fifo_get s = Some (x, s') \<and> fifo_ok s' \<and> f_size s' = f_size s \<and> fifo_list s' = xs"
    using fifo_get_next by blast
  show "fifo_ok s \<Longrightarrow> length (fifo_list s) \<le> f_size s" by (simp add: fifo_ok_def)
qed

end
