(* ===== verification/Uart.thy ===== *)
theory Uart
  imports Byte_Fifo
begin

text \<open>
  The 16550 serial port of \<^verbatim>\<open>bhyve/uart_emul.c\<close>: registers, receive FIFO, the terminal it is attached
  to and its interrupt pin. The host terminal is the list of bytes not yet read and the list of bytes written; whether
  the event loop watches it is \<open>mev_enabled\<close>. The pin holds what the last call of the interrupt functions set it
  to. The register and bit numbers are those of the system header the source includes.
\<close>

section \<open>State\<close>

record uart_softc =
  u_ier :: u8
  u_lcr :: u8
  u_mcr :: u8
  u_lsr :: u8
  u_msr :: u8
  u_fcr :: u8
  u_scr :: u8
  u_dll :: u8
  u_dlh :: u8
  u_rxfifo :: fifo
  mev_enabled :: bool
  tty_opened :: bool
  tty_in :: "u8 list"
  tty_out :: "u8 list"
  thre_int_pending :: bool
  intr_pin :: bool

abbreviation (input) FIFOSZ :: nat where "FIFOSZ \<equiv> 16"
abbreviation (input) REG_DATA :: nat where "REG_DATA \<equiv> 0"
abbreviation (input) REG_DLL :: nat where "REG_DLL \<equiv> 0"
abbreviation (input) REG_DLH :: nat where "REG_DLH \<equiv> 1"
abbreviation (input) REG_IER :: nat where "REG_IER \<equiv> 1"
abbreviation (input) REG_FCR :: nat where "REG_FCR \<equiv> 2"
abbreviation (input) REG_IIR :: nat where "REG_IIR \<equiv> 2"
abbreviation (input) REG_LCR :: nat where "REG_LCR \<equiv> 3"
abbreviation (input) REG_MCR :: nat where "REG_MCR \<equiv> 4"
abbreviation (input) REG_LSR :: nat where "REG_LSR \<equiv> 5"
abbreviation (input) REG_MSR :: nat where "REG_MSR \<equiv> 6"
abbreviation (input) REG_SCR :: nat where "REG_SCR \<equiv> 7"
abbreviation (input) LCR_DLAB :: u8 where "LCR_DLAB \<equiv> 0x80"
abbreviation (input) MCR_LOOPBACK :: u8 where "MCR_LOOPBACK \<equiv> 0x10"
abbreviation (input) FCR_ENABLE :: u8 where "FCR_ENABLE \<equiv> 1"
abbreviation (input) FCR_RCV_RST :: u8 where "FCR_RCV_RST \<equiv> 2"
abbreviation (input) MSR_DELTA_MASK :: u8 where "MSR_DELTA_MASK \<equiv> 0x0f"
abbreviation (input) LSR_RXRDY :: u8 where "LSR_RXRDY \<equiv> 1"
abbreviation (input) LSR_OE :: u8 where "LSR_OE \<equiv> 2"
abbreviation (input) IIR_NOPEND :: u8 where "IIR_NOPEND \<equiv> 1"
abbreviation (input) IIR_TXRDY :: u8 where "IIR_TXRDY \<equiv> 2"
abbreviation (input) IIR_RLS :: u8 where "IIR_RLS \<equiv> 6"
abbreviation (input) IIR_RXTOUT :: u8 where "IIR_RXTOUT \<equiv> 0xc"
abbreviation (input) IIR_MLSC :: u8 where "IIR_MLSC \<equiv> 0"

section \<open>Terminal and receive FIFO\<close>

definition ttyread :: "uart_softc \<Rightarrow> (u8 \<times> uart_softc) option" where
  "ttyread sc = (case tty_in sc of [] \<Rightarrow> None | c # cs \<Rightarrow> Some (c, sc\<lparr>tty_in := cs\<rparr>))"

definition ttywrite :: "uart_softc \<Rightarrow> u8 \<Rightarrow> uart_softc" where
  "ttywrite sc wb = sc\<lparr>tty_out := tty_out sc @ [wb]\<rparr>"

text \<open>Reads of 32 bytes until one is short.\<close>

fun flush_tty :: "u8 list \<Rightarrow> u8 list" where
  "flush_tty xs = (if length xs < 32 then [] else flush_tty (drop 32 xs))"

declare flush_tty.simps [simp del]

definition rxfifo_reset :: "uart_softc \<Rightarrow> nat \<Rightarrow> uart_softc" where
  "rxfifo_reset sc sz =
     (let sc = sc\<lparr>u_rxfifo := fifo_zero sz\<rparr>
      in if tty_opened sc then sc\<lparr>tty_in := flush_tty (tty_in sc), mev_enabled := True\<rparr> else sc)"

definition rxfifo_available :: "uart_softc \<Rightarrow> bool" where
  "rxfifo_available sc \<longleftrightarrow> f_num (u_rxfifo sc) < f_size (u_rxfifo sc)"

definition rxfifo_putchar :: "uart_softc \<Rightarrow> u8 \<Rightarrow> int \<times> uart_softc" where
  "rxfifo_putchar sc ch =
     (if f_num (u_rxfifo sc) < f_size (u_rxfifo sc)
      then let sc = sc\<lparr>u_rxfifo := fifo_put (u_rxfifo sc) ch\<rparr>
           in (0, if \<not> rxfifo_available sc \<and> tty_opened sc then sc\<lparr>mev_enabled := False\<rparr> else sc)
      else (-1, sc))"

definition rxfifo_getchar :: "uart_softc \<Rightarrow> int \<times> uart_softc" where
  "rxfifo_getchar sc =
     (case fifo_get (u_rxfifo sc) of
        Some (c, f) \<Rightarrow> (uint c, let wasfull = \<not> rxfifo_available sc; sc = sc\<lparr>u_rxfifo := f\<rparr>
                              in if wasfull \<and> tty_opened sc then sc\<lparr>mev_enabled := True\<rparr> else sc)
      | None \<Rightarrow> (-1, sc))"

definition rxfifo_numchars :: "uart_softc \<Rightarrow> nat" where
  "rxfifo_numchars sc = f_num (u_rxfifo sc)"

text \<open>The terminal is attached with nothing in the FIFO and its event is watched.\<close>

definition uart_opentty :: "uart_softc \<Rightarrow> uart_softc" where
  "uart_opentty sc = sc\<lparr>tty_opened := True, mev_enabled := True\<rparr>"

section \<open>Status and interrupts\<close>

definition modem_status :: "u8 \<Rightarrow> u8" where
  "modem_status mcr =
     (if mcr AND MCR_LOOPBACK \<noteq> 0
      then (let msr = 0; msr = (if mcr AND 2 \<noteq> 0 then msr OR 0x10 else msr);
                msr = (if mcr AND 1 \<noteq> 0 then msr OR 0x20 else msr);
                msr = (if mcr AND 4 \<noteq> 0 then msr OR 0x40 else msr)
            in if mcr AND 8 \<noteq> 0 then msr OR 0x80 else msr)
      else 0x80 OR 0x20)"

definition uart_intr_reason :: "uart_softc \<Rightarrow> u8" where
  "uart_intr_reason sc =
     (if u_lsr sc AND LSR_OE \<noteq> 0 \<and> u_ier sc AND 4 \<noteq> 0 then IIR_RLS
      else if rxfifo_numchars sc > 0 \<and> u_ier sc AND 1 \<noteq> 0 then IIR_RXTOUT
      else if thre_int_pending sc \<and> u_ier sc AND 2 \<noteq> 0 then IIR_TXRDY
      else if u_msr sc AND MSR_DELTA_MASK \<noteq> 0 \<and> u_ier sc AND 8 \<noteq> 0 then IIR_MLSC
      else IIR_NOPEND)"

definition uart_reset :: "uart_softc \<Rightarrow> uart_softc" where
  "uart_reset sc =
     (let divisor = 1843200 div 9600 div 16 :: nat;
          sc = sc\<lparr>u_dll := of_nat divisor, u_dlh := of_nat (divisor div 2 ^ 16), u_msr := modem_status (u_mcr sc)\<rparr>
      in rxfifo_reset sc 1)"

definition uart_toggle_intr :: "uart_softc \<Rightarrow> uart_softc" where
  "uart_toggle_intr sc = sc\<lparr>intr_pin := (uart_intr_reason sc \<noteq> IIR_NOPEND)\<rparr>"

definition uart_init :: uart_softc where
  "uart_init = uart_reset \<lparr>u_ier = 0, u_lcr = 0, u_mcr = 0, u_lsr = 0, u_msr = 0, u_fcr = 0, u_scr = 0, u_dll = 0, u_dlh = 0,
     u_rxfifo = fifo_zero 0, mev_enabled = False, tty_opened = False, tty_in = [], tty_out = [], thre_int_pending = False,
     intr_pin = False\<rparr>"

text \<open>The loop of the event handler.\<close>

function drain_loop :: "uart_softc \<Rightarrow> uart_softc" where
  "drain_loop sc =
     (if rxfifo_available sc
      then case ttyread sc of None \<Rightarrow> sc | Some (ch, sc) \<Rightarrow> drain_loop (snd (rxfifo_putchar sc ch))
      else sc)"
  by pat_completeness auto
termination
  by (relation "measure (\<lambda>sc. length (tty_in sc))") (auto simp: ttyread_def rxfifo_putchar_def Let_def split: list.splits if_splits)

declare drain_loop.simps [simp del]

definition uart_drain :: "uart_softc \<Rightarrow> uart_softc" where
  "uart_drain sc =
     (if u_mcr sc AND MCR_LOOPBACK \<noteq> 0 then (case ttyread sc of None \<Rightarrow> sc | Some (_, sc) \<Rightarrow> sc)
      else uart_toggle_intr (drain_loop sc))"

section \<open>Registers\<close>

definition write_fcr :: "uart_softc \<Rightarrow> u8 \<Rightarrow> uart_softc" where
  "write_fcr sc v =
     (let sc = (if (u_fcr sc AND FCR_ENABLE) XOR (v AND FCR_ENABLE) \<noteq> 0
                then rxfifo_reset sc (if v AND FCR_ENABLE \<noteq> 0 then FIFOSZ else 1) else sc)
      in if v AND FCR_ENABLE = 0 then sc\<lparr>u_fcr := 0\<rparr>
         else let sc = (if v AND FCR_RCV_RST \<noteq> 0 then rxfifo_reset sc FIFOSZ else sc)
              in sc\<lparr>u_fcr := v AND (FCR_ENABLE OR 8 OR 0xC0)\<rparr>)"

definition write_mcr :: "uart_softc \<Rightarrow> u8 \<Rightarrow> uart_softc" where
  "write_mcr sc v =
     (let sc = sc\<lparr>u_mcr := v AND 0x1F\<rparr>; msr = modem_status (u_mcr sc);
          sc = (if (msr AND 0x10) XOR (u_msr sc AND 0x10) \<noteq> 0 then sc\<lparr>u_msr := u_msr sc OR 1\<rparr> else sc);
          sc = (if (msr AND 0x20) XOR (u_msr sc AND 0x20) \<noteq> 0 then sc\<lparr>u_msr := u_msr sc OR 2\<rparr> else sc);
          sc = (if (msr AND 0x80) XOR (u_msr sc AND 0x80) \<noteq> 0 then sc\<lparr>u_msr := u_msr sc OR 8\<rparr> else sc);
          sc = (if u_msr sc AND 0x40 \<noteq> 0 \<and> msr AND 0x40 = 0 then sc\<lparr>u_msr := u_msr sc OR 4\<rparr> else sc)
      in sc\<lparr>u_msr := (u_msr sc AND MSR_DELTA_MASK) OR msr\<rparr>)"

definition write_data :: "uart_softc \<Rightarrow> u8 \<Rightarrow> uart_softc" where
  "write_data sc v =
     (let sc = (if u_mcr sc AND MCR_LOOPBACK \<noteq> 0
                then (let (r, sc) = rxfifo_putchar sc v in if r \<noteq> 0 then sc\<lparr>u_lsr := u_lsr sc OR LSR_OE\<rparr> else sc)
                else if tty_opened sc then ttywrite sc v else sc)
      in sc\<lparr>thre_int_pending := True\<rparr>)"

definition uart_write :: "uart_softc \<Rightarrow> nat \<Rightarrow> u8 \<Rightarrow> uart_softc" where
  "uart_write sc offset v =
     uart_toggle_intr
       (if u_lcr sc AND LCR_DLAB \<noteq> 0 \<and> offset = REG_DLL then sc\<lparr>u_dll := v\<rparr>
        else if u_lcr sc AND LCR_DLAB \<noteq> 0 \<and> offset = REG_DLH then sc\<lparr>u_dlh := v\<rparr>
        else if offset = REG_DATA then write_data sc v
        else if offset = REG_IER
        then (let sc = (if u_ier sc AND 2 = 0 \<and> v AND 2 \<noteq> 0 then sc\<lparr>thre_int_pending := True\<rparr> else sc)
              in sc\<lparr>u_ier := v AND 0x0F\<rparr>)
        else if offset = REG_FCR then write_fcr sc v
        else if offset = REG_LCR then sc\<lparr>u_lcr := v\<rparr>
        else if offset = REG_MCR then write_mcr sc v
        else if offset = REG_SCR then sc\<lparr>u_scr := v\<rparr>
        else sc)"

definition read_lsr :: "uart_softc \<Rightarrow> u8 \<times> uart_softc" where
  "read_lsr sc =
     (let sc = sc\<lparr>u_lsr := u_lsr sc OR (0x40 OR 0x20)\<rparr>;
          sc = (if rxfifo_numchars sc > 0 then sc\<lparr>u_lsr := u_lsr sc OR LSR_RXRDY\<rparr>
                else sc\<lparr>u_lsr := u_lsr sc AND NOT LSR_RXRDY\<rparr>)
      in (u_lsr sc, sc\<lparr>u_lsr := u_lsr sc AND NOT LSR_OE\<rparr>))"

definition read_iir :: "uart_softc \<Rightarrow> u8 \<times> uart_softc" where
  "read_iir sc =
     (let iir = (if u_fcr sc AND FCR_ENABLE \<noteq> 0 then 0xc0 else 0); intr_reason = uart_intr_reason sc
      in (iir OR intr_reason, if intr_reason = IIR_TXRDY then sc\<lparr>thre_int_pending := False\<rparr> else sc))"

definition uart_read :: "uart_softc \<Rightarrow> nat \<Rightarrow> u8 \<times> uart_softc" where
  "uart_read sc offset =
     (let (reg, sc) =
            (if u_lcr sc AND LCR_DLAB \<noteq> 0 \<and> offset = REG_DLL then (u_dll sc, sc)
             else if u_lcr sc AND LCR_DLAB \<noteq> 0 \<and> offset = REG_DLH then (u_dlh sc, sc)
             else if offset = REG_DATA then (let (c, sc) = rxfifo_getchar sc in (word_of_int c, sc))
             else if offset = REG_IER then (u_ier sc, sc)
             else if offset = REG_IIR then read_iir sc
             else if offset = REG_LCR then (u_lcr sc, sc)
             else if offset = REG_MCR then (u_mcr sc, sc)
             else if offset = REG_LSR then read_lsr sc
             else if offset = REG_MSR then (u_msr sc, sc\<lparr>u_msr := u_msr sc AND NOT MSR_DELTA_MASK\<rparr>)
             else if offset = REG_SCR then (u_scr sc, sc)
             else (0xFF, sc))
      in (reg, uart_toggle_intr sc))"

text \<open>The two legacy ports: base address, interrupt and whether taken.\<close>

type_synonym uart_lres = "(nat \<times> nat \<times> bool) list"

definition uart_lres_init :: uart_lres where
  "uart_lres_init = [(0x3F8, 4, False), (0x2F8, 3, False)]"

definition uart_legacy_alloc :: "uart_lres \<Rightarrow> int \<Rightarrow> (nat \<times> nat) option \<times> uart_lres" where
  "uart_legacy_alloc res which =
     (if which < 0 \<or> which \<ge> int (length res) then (None, res)
      else case res ! nat which of (base, irq, inuse) \<Rightarrow>
             if inuse then (None, res) else (Some (base, irq), res[nat which := (base, irq, True)]))"

section \<open>The FIFO contract\<close>

definition rx_list :: "uart_softc \<Rightarrow> u8 list" where
  "rx_list sc = fifo_list (u_rxfifo sc)"

definition rx_get :: "uart_softc \<Rightarrow> (u8 \<times> uart_softc) option" where
  "rx_get sc = (let (c, sc') = rxfifo_getchar sc in if c < 0 then None else Some (word_of_int c, sc'))"

definition rx_ok :: "uart_softc \<Rightarrow> bool" where
  "rx_ok sc \<longleftrightarrow> fifo_ok (u_rxfifo sc) \<and> (tty_opened sc \<longrightarrow> mev_enabled sc = rxfifo_available sc)"

lemma rx_put_fifo: "u_rxfifo (snd (rxfifo_putchar sc c)) = fifo_put (u_rxfifo sc) c"
  by (simp add: rxfifo_putchar_def fifo_put_def Let_def)

lemma rx_get_fifo:
  "fifo_get (u_rxfifo sc) = None \<Longrightarrow> rxfifo_getchar sc = (-1, sc)"
  "fifo_get (u_rxfifo sc) = Some (c, f) \<Longrightarrow> fst (rxfifo_getchar sc) = uint c \<and> u_rxfifo (snd (rxfifo_getchar sc)) = f"
  by (simp_all add: rxfifo_getchar_def Let_def)

lemma rx_ok_put: "rx_ok sc \<Longrightarrow> rx_ok (snd (rxfifo_putchar sc c))"
  by (auto simp: rx_ok_def rxfifo_putchar_def rxfifo_available_def Let_def fifo_put_ok fifo_put_num)

lemma rx_ok_get: "rx_ok sc \<Longrightarrow> rx_ok (snd (rxfifo_getchar sc))"
proof (cases "fifo_get (u_rxfifo sc)")
  case (Some cf)
  obtain c f where cf: "cf = (c, f)" by (cases cf)
  assume ok: "rx_ok sc"
  then have "fifo_list (u_rxfifo sc) \<noteq> []" using Some by (auto simp: rx_ok_def ring.get_empty)
  then obtain x xs where xs: "fifo_list (u_rxfifo sc) = x # xs" by (cases "fifo_list (u_rxfifo sc)") auto
  have "fifo_ok f" "f_size f = f_size (u_rxfifo sc)" "f_num (u_rxfifo sc) = Suc (f_num f)" "f_num (u_rxfifo sc) \<le> f_size (u_rxfifo sc)"
    using fifo_get_next [OF _ xs] ok Some cf by (auto simp: rx_ok_def fifo_ok_def)
  then show ?thesis using ok Some cf by (auto simp: rx_ok_def rxfifo_getchar_def rxfifo_available_def Let_def)
qed (simp add: rx_get_fifo)

interpretation rx: byte_fifo "\<lambda>sc c. snd (rxfifo_putchar sc c)" rx_get rx_list "\<lambda>sc. f_size (u_rxfifo sc)" rx_ok
proof
  fix s :: uart_softc and c x xs
  assume ok: "rx_ok s"
  then have f: "fifo_ok (u_rxfifo s)" by (simp add: rx_ok_def)
  show "rx_ok (snd (rxfifo_putchar s c))" by (rule rx_ok_put [OF ok])
  show "f_size (u_rxfifo (snd (rxfifo_putchar s c))) = f_size (u_rxfifo s)" by (simp add: rx_put_fifo fifo_put_num)
  show "rx_list (snd (rxfifo_putchar s c)) = (if length (rx_list s) < f_size (u_rxfifo s) then rx_list s @ [c] else rx_list s)"
    using ring.contents_put [OF f] by (simp add: rx_list_def rx_put_fifo)
  show "rx_get s = None" if "rx_list s = []"
    using ring.get_empty [OF f] that by (simp add: rx_list_def rx_get_def rx_get_fifo(1))
  show "\<exists>s'. rx_get s = Some (x, s') \<and> rx_ok s' \<and> f_size (u_rxfifo s') = f_size (u_rxfifo s) \<and> rx_list s' = xs" if "rx_list s = x # xs"
  proof -
    obtain f' where "fifo_get (u_rxfifo s) = Some (x, f')" "f_size f' = f_size (u_rxfifo s)" "fifo_list f' = xs"
      using ring.get_next [OF f] \<open>rx_list s = x # xs\<close> by (auto simp: rx_list_def)
    then show ?thesis using rx_ok_get [OF ok] rx_get_fifo(2) [of s x f']
      by (simp add: rx_get_def rx_list_def case_prod_beta)
  qed
  show "length (rx_list s) \<le> f_size (u_rxfifo s)" using ring.contents_le [OF f] by (simp add: rx_list_def)
qed

section \<open>Runs of the serial port\<close>

text \<open>A register access of the guest, bytes arriving at the terminal, and a call of the event handler, which the event
  loop makes only for a watched terminal. The second component is what the guest took out of the FIFO.\<close>

datatype uart_op = Uart_write nat u8 | Uart_read nat | Tty_arrive "u8 list" | Uart_drain

primrec uart_exec :: "uart_op \<Rightarrow> uart_softc \<Rightarrow> u8 list \<times> uart_softc" where
  "uart_exec (Uart_write offset v) sc = ([], uart_write sc offset v)"
| "uart_exec (Uart_read offset) sc =
     (let (v, sc') = uart_read sc offset
      in (if offset = REG_DATA \<and> u_lcr sc AND LCR_DLAB = 0 \<and> rx_list sc \<noteq> [] then [v] else [], sc'))"
| "uart_exec (Tty_arrive bs) sc = ([], sc\<lparr>tty_in := tty_in sc @ bs\<rparr>)"
| "uart_exec Uart_drain sc = ([], if tty_opened sc \<and> mev_enabled sc then uart_drain sc else sc)"

primrec uart_run :: "uart_op list \<Rightarrow> uart_softc \<Rightarrow> u8 list \<times> uart_softc" where
  "uart_run [] sc = ([], sc)"
| "uart_run (p # ps) sc = (let (out, sc) = uart_exec p sc; (outs, sc) = uart_run ps sc in (out @ outs, sc))"

definition uart_inv :: "uart_softc \<Rightarrow> bool" where
  "uart_inv sc \<longleftrightarrow> rx_ok sc \<and> f_size (u_rxfifo sc) = (if u_fcr sc AND FCR_ENABLE \<noteq> 0 then FIFOSZ else 1) \<and>
     intr_pin sc = (uart_intr_reason sc \<noteq> IIR_NOPEND)"

definition uart_core :: "uart_softc \<Rightarrow> bool" where
  "uart_core sc \<longleftrightarrow> rx_ok sc \<and> f_size (u_rxfifo sc) = (if u_fcr sc AND FCR_ENABLE \<noteq> 0 then FIFOSZ else 1)"

lemma toggle_inv: "uart_core sc \<Longrightarrow> uart_inv (uart_toggle_intr sc)"
  by (simp add: uart_core_def uart_inv_def uart_toggle_intr_def rx_ok_def rxfifo_available_def uart_intr_reason_def rxfifo_numchars_def)

text \<open>The fields the FIFO part of the invariant depends on.\<close>

definition rx_part :: "uart_softc \<Rightarrow> fifo \<times> bool \<times> bool \<times> u8" where
  "rx_part sc = (u_rxfifo sc, mev_enabled sc, tty_opened sc, u_fcr sc)"

lemma rx_part_core: "rx_part sc' = rx_part sc \<Longrightarrow> uart_core sc' = uart_core sc"
  by (simp add: rx_part_def uart_core_def rx_ok_def rxfifo_available_def)

lemma uart_core_upd [simp]:
  "uart_core (sc\<lparr>u_dll := v\<rparr>) = uart_core sc" "uart_core (sc\<lparr>u_dlh := v\<rparr>) = uart_core sc" "uart_core (sc\<lparr>u_lcr := v\<rparr>) = uart_core sc"
  "uart_core (sc\<lparr>u_scr := v\<rparr>) = uart_core sc" "uart_core (sc\<lparr>u_ier := v\<rparr>) = uart_core sc" "uart_core (sc\<lparr>u_lsr := v\<rparr>) = uart_core sc"
  "uart_core (sc\<lparr>u_msr := v\<rparr>) = uart_core sc" "uart_core (sc\<lparr>u_mcr := v\<rparr>) = uart_core sc"
  "uart_core (sc\<lparr>thre_int_pending := b\<rparr>) = uart_core sc" "uart_core (sc\<lparr>tty_in := cs\<rparr>) = uart_core sc"
  "uart_core (sc\<lparr>tty_out := cs\<rparr>) = uart_core sc"
  by (rule rx_part_core; simp add: rx_part_def)+

lemma rxfifo_reset_simps [simp]:
  "u_rxfifo (rxfifo_reset sc sz) = fifo_zero sz" "tty_opened (rxfifo_reset sc sz) = tty_opened sc"
  "mev_enabled (rxfifo_reset sc sz) = (tty_opened sc \<or> mev_enabled sc)" "u_fcr (rxfifo_reset sc sz) = u_fcr sc"
  by (auto simp: rxfifo_reset_def Let_def)

lemma and_1_cases: "x AND 1 = 0 \<or> x AND 1 = 1" for x :: u8
  by (simp add: and_one_eq mod_2_eq_odd)

lemma write_fcr_core: "uart_core sc \<Longrightarrow> uart_core (write_fcr sc v)"
proof -
  have m: "(v AND 0xC9) AND 1 = v AND 1" by (simp only: and.assoc) simp
  assume "uart_core sc"
  then show ?thesis using and_1_cases [of v] and_1_cases [of "u_fcr sc"]
    by (auto simp: uart_core_def write_fcr_def Let_def rx_ok_def rxfifo_available_def m)
qed

lemma putchar_core: "uart_core sc \<Longrightarrow> uart_core (snd (rxfifo_putchar sc v))"
  using rx_ok_put [of sc v] by (auto simp: uart_core_def rx_put_fifo fifo_put_num) (auto simp: rxfifo_putchar_def Let_def split: if_splits)

lemma getchar_core: "uart_core sc \<Longrightarrow> uart_core (snd (rxfifo_getchar sc))"
proof (cases "fifo_get (u_rxfifo sc)")
  case (Some cf)
  assume c: "uart_core sc"
  have "f_size (snd cf) = f_size (u_rxfifo sc)" using Some by (auto simp: fifo_get_def split: if_splits)
  moreover have "u_fcr (snd (rxfifo_getchar sc)) = u_fcr sc" by (auto simp: rxfifo_getchar_def Let_def split: option.split)
  ultimately show ?thesis using c Some rx_ok_get [of sc] rx_get_fifo(2) [of sc "fst cf" "snd cf"] by (simp add: uart_core_def)
qed (simp add: rx_get_fifo)

lemma uart_write_inv: "uart_inv sc \<Longrightarrow> uart_inv (uart_write sc offset v)"
proof -
  assume "uart_inv sc"
  then have c: "uart_core sc" by (simp add: uart_inv_def uart_core_def)
  have "uart_core (write_data sc v)" using c putchar_core [OF c, of v] by (simp add: write_data_def Let_def case_prod_beta ttywrite_def)
  moreover have "uart_core (write_mcr sc v)" using c by (simp add: write_mcr_def Let_def)
  ultimately show ?thesis unfolding uart_write_def by (intro toggle_inv) (simp add: c write_fcr_core)
qed

lemma uart_read_inv: "uart_inv sc \<Longrightarrow> uart_inv (snd (uart_read sc offset))"
proof -
  assume "uart_inv sc"
  then have c: "uart_core sc" by (simp add: uart_inv_def uart_core_def)
  then show ?thesis using getchar_core [OF c] unfolding uart_read_def Let_def case_prod_beta snd_conv
    by (intro toggle_inv) (auto simp: read_iir_def read_lsr_def Let_def)
qed

lemma drain_loop_core: "uart_core sc \<Longrightarrow> uart_core (drain_loop sc)"
proof (induction sc rule: drain_loop.induct)
  case (1 sc)
  show ?case
  proof (cases "rxfifo_available sc \<and> tty_in sc \<noteq> []")
    case True
    then obtain c cs where cs: "tty_in sc = c # cs" by (cases "tty_in sc") auto
    show ?thesis using True cs "1.prems" "1.IH" [of "(c, sc\<lparr>tty_in := cs\<rparr>)"]
      by (subst drain_loop.simps) (simp add: ttyread_def putchar_core)
  next
    case False
    then show ?thesis using "1.prems" by (subst drain_loop.simps) (auto simp: ttyread_def)
  qed
qed

lemma uart_exec_inv: "uart_inv sc \<Longrightarrow> uart_inv (snd (uart_exec p sc))"
proof (cases p)
  case (Uart_read offset)
  assume "uart_inv sc"
  then show ?thesis using Uart_read uart_read_inv [of sc offset] by (simp add: case_prod_beta)
next
  case (Tty_arrive bs)
  assume "uart_inv sc"
  then show ?thesis using Tty_arrive
    by (simp add: uart_inv_def rx_ok_def rxfifo_available_def uart_intr_reason_def rxfifo_numchars_def)
next
  case Uart_drain
  assume i: "uart_inv sc"
  then have "uart_core sc" by (simp add: uart_inv_def uart_core_def)
  then show ?thesis using Uart_drain i toggle_inv [OF drain_loop_core, of sc]
    by (auto simp: uart_drain_def ttyread_def split: list.split)
      (simp_all add: uart_inv_def rx_ok_def rxfifo_available_def uart_intr_reason_def rxfifo_numchars_def)
qed (simp add: uart_write_inv)

lemma uart_run_inv: "uart_inv sc \<Longrightarrow> uart_inv (snd (uart_run ps sc))"
  by (induction ps arbitrary: sc) (simp_all add: case_prod_beta uart_exec_inv)

lemma uart_init_inv: "uart_inv uart_init" "uart_inv (uart_opentty uart_init)"
  by (simp_all add: uart_inv_def uart_init_def uart_reset_def uart_opentty_def rx_ok_def rxfifo_available_def Let_def
      uart_intr_reason_def rxfifo_numchars_def rxfifo_reset_def)

text \<open>However the guest programs the serial port and whenever bytes arrive: the indices of the receive FIFO stay
  inside its array, the interrupt pin is asserted exactly while there is a reason to interrupt, and the event loop
  watches the terminal exactly while the FIFO has room, so neither input nor interrupts get stuck.\<close>

theorem uart_reachable_ok:
  assumes "sc0 \<in> {uart_init, uart_opentty uart_init}" "sc = snd (uart_run ps sc0)"
  shows "f_rindex (u_rxfifo sc) < f_size (u_rxfifo sc) \<and> f_windex (u_rxfifo sc) < f_size (u_rxfifo sc) \<and>
    f_num (u_rxfifo sc) \<le> f_size (u_rxfifo sc) \<and> f_size (u_rxfifo sc) \<le> 16 \<and>
    (intr_pin sc \<longleftrightarrow> uart_intr_reason sc \<noteq> IIR_NOPEND) \<and>
    (tty_opened sc \<longrightarrow> mev_enabled sc = (f_num (u_rxfifo sc) < f_size (u_rxfifo sc)))"
proof -
  have "uart_inv sc" using assms uart_run_inv uart_init_inv by blast
  then show ?thesis by (auto simp: uart_inv_def rx_ok_def fifo_ok_def rxfifo_available_def)
qed

section \<open>The byte stream\<close>

text \<open>Accesses that neither reset the FIFO nor enter loopback mode.\<close>

primrec plain_op :: "uart_op \<Rightarrow> bool" where
  "plain_op (Uart_write offset v) \<longleftrightarrow> offset \<noteq> REG_FCR \<and> (offset = REG_MCR \<longrightarrow> v AND MCR_LOOPBACK = 0)"
| "plain_op (Uart_read offset) \<longleftrightarrow> True"
| "plain_op (Tty_arrive bs) \<longleftrightarrow> True"
| "plain_op Uart_drain \<longleftrightarrow> True"

primrec arrivals :: "uart_op \<Rightarrow> u8 list" where
  "arrivals (Uart_write offset v) = []"
| "arrivals (Uart_read offset) = []"
| "arrivals (Tty_arrive bs) = bs"
| "arrivals Uart_drain = []"

definition in_stream :: "uart_softc \<Rightarrow> u8 list" where
  "in_stream sc = rx_list sc @ tty_in sc"

lemma in_stream_toggle [simp]: "in_stream (uart_toggle_intr sc) = in_stream sc" "u_mcr (uart_toggle_intr sc) = u_mcr sc"
  by (simp_all add: uart_toggle_intr_def in_stream_def rx_list_def)

lemma putchar_frame: "u_mcr (snd (rxfifo_putchar sc c)) = u_mcr sc" "tty_in (snd (rxfifo_putchar sc c)) = tty_in sc"
  by (simp_all add: rxfifo_putchar_def Let_def)

lemma getchar_frame: "u_mcr (snd (rxfifo_getchar sc)) = u_mcr sc" "tty_in (snd (rxfifo_getchar sc)) = tty_in sc"
  by (auto simp: rxfifo_getchar_def Let_def split: option.split)

lemma drain_loop_stream: "rx_ok sc \<Longrightarrow> in_stream (drain_loop sc) = in_stream sc \<and> u_mcr (drain_loop sc) = u_mcr sc"
proof (induction sc rule: drain_loop.induct)
  case (1 sc)
  show ?case
  proof (cases "rxfifo_available sc \<and> tty_in sc \<noteq> []")
    case True
    then obtain c cs where cs: "tty_in sc = c # cs" by (cases "tty_in sc") auto
    let ?sc = "sc\<lparr>tty_in := cs\<rparr>"
    have ok: "rx_ok ?sc" and room: "length (rx_list ?sc) < f_size (u_rxfifo ?sc)"
      using "1.prems" True by (simp_all add: rx_ok_def rxfifo_available_def rx_list_def)
    have "in_stream (snd (rxfifo_putchar ?sc c)) = in_stream sc"
      using rx.contents_put [OF ok, of c] room cs by (simp add: in_stream_def putchar_frame) (simp add: rx_list_def)
    then show ?thesis using True cs "1.IH" [of "(c, ?sc)"] rx_ok_put [OF ok]
      by (subst (1 2) drain_loop.simps) (simp add: ttyread_def putchar_frame)
  next
    case False
    then show ?thesis by (subst (1 2) drain_loop.simps) (auto simp: ttyread_def)
  qed
qed

lemma write_mcr_frame: "in_stream (write_mcr sc v) = in_stream sc" "u_mcr (write_mcr sc v) = v AND 0x1F"
  by (simp_all add: write_mcr_def Let_def in_stream_def rx_list_def)

lemma write_data_frame:
  "u_mcr sc AND MCR_LOOPBACK = 0 \<Longrightarrow> in_stream (write_data sc v) = in_stream sc \<and> u_mcr (write_data sc v) = u_mcr sc"
  by (simp add: write_data_def ttywrite_def in_stream_def rx_list_def)

lemma read_iir_frame: "in_stream (snd (read_iir sc)) = in_stream sc \<and> u_mcr (snd (read_iir sc)) = u_mcr sc"
  by (simp add: read_iir_def in_stream_def rx_list_def Let_def)

lemma read_lsr_frame: "in_stream (snd (read_lsr sc)) = in_stream sc \<and> u_mcr (snd (read_lsr sc)) = u_mcr sc"
  by (simp add: read_lsr_def in_stream_def rx_list_def Let_def)

lemma uart_exec_stream:
  assumes "uart_inv sc" "u_mcr sc AND MCR_LOOPBACK = 0" "plain_op p"
  shows "fst (uart_exec p sc) @ in_stream (snd (uart_exec p sc)) = in_stream sc @ arrivals p"
    "u_mcr (snd (uart_exec p sc)) AND MCR_LOOPBACK = 0"
proof -
  have ok: "rx_ok sc" using assms(1) by (simp add: uart_inv_def)
  have "fst (uart_exec p sc) @ in_stream (snd (uart_exec p sc)) = in_stream sc @ arrivals p \<and>
      u_mcr (snd (uart_exec p sc)) AND MCR_LOOPBACK = 0"
  proof (cases p)
    case (Uart_write offset v)
    have m: "(v AND 0x1F) AND 0x10 = v AND 0x10" by (simp only: and.assoc) simp
    show ?thesis using Uart_write assms(2,3) m
      by (auto simp: uart_write_def write_mcr_frame write_data_frame Let_def) (auto simp: in_stream_def rx_list_def)
  next
    case (Uart_read offset)
    show ?thesis
    proof (cases "offset = REG_DATA \<and> u_lcr sc AND LCR_DLAB = 0")
      case False
      then have "in_stream (snd (uart_read sc offset)) = in_stream sc \<and> u_mcr (snd (uart_read sc offset)) = u_mcr sc"
        unfolding uart_read_def case_prod_beta by (simp add: Let_def read_iir_frame read_lsr_frame) (auto simp: in_stream_def rx_list_def)
      then show ?thesis using Uart_read False assms(2) by (auto simp: case_prod_beta)
    next
      case True
      then have rd: "uart_read sc offset = (word_of_int (fst (rxfifo_getchar sc)), uart_toggle_intr (snd (rxfifo_getchar sc)))"
        by (simp add: uart_read_def case_prod_beta)
      have f: "fifo_ok (u_rxfifo sc)" using ok by (simp add: rx_ok_def)
      show ?thesis
      proof (cases rule: ring.get_cases [OF f])
        case 1
        then show ?thesis using Uart_read True assms(2) rd rx_get_fifo(1) [of sc] by (simp add: rx_list_def)
      next
        case (2 x f')
        then show ?thesis using Uart_read True assms(2) rd rx_get_fifo(2) [of sc x f'] getchar_frame [of sc]
          by (simp add: rx_list_def in_stream_def uart_toggle_intr_def)
      qed
    qed
  next
    case (Tty_arrive bs)
    then show ?thesis using assms(2) by (simp add: in_stream_def rx_list_def)
  next
    case Uart_drain
    then show ?thesis using assms(2) drain_loop_stream [OF ok] by (simp add: uart_drain_def)
  qed
  then show "fst (uart_exec p sc) @ in_stream (snd (uart_exec p sc)) = in_stream sc @ arrivals p"
    "u_mcr (snd (uart_exec p sc)) AND MCR_LOOPBACK = 0" by blast+
qed

lemma uart_run_stream:
  assumes "uart_inv sc" "u_mcr sc AND MCR_LOOPBACK = 0" "list_all plain_op ps"
  shows "fst (uart_run ps sc) @ in_stream (snd (uart_run ps sc)) = in_stream sc @ concat (map arrivals ps)"
  using assms
proof (induction ps arbitrary: sc)
  case (Cons p ps)
  let ?sc = "snd (uart_exec p sc)"
  have "fst (uart_run ps ?sc) @ in_stream (snd (uart_run ps ?sc)) = in_stream ?sc @ concat (map arrivals ps)"
    using Cons uart_exec_inv [of sc p] uart_exec_stream(2) [of sc p] by simp
  moreover have "fst (uart_exec p sc) @ in_stream ?sc = in_stream sc @ arrivals p"
    using Cons.prems uart_exec_stream(1) [of sc p] by simp
  ultimately show ?case by (simp add: case_prod_beta)
qed simp


lemmas uart_eval = uart_opentty_def uart_init_def uart_reset_def rxfifo_reset_def fifo_zero_def uart_write_def write_data_def
  uart_read_def uart_drain_def drain_loop.simps ttyread_def rxfifo_available_def rxfifo_putchar_def rxfifo_getchar_def
  fifo_put_def fifo_get_def uart_toggle_intr_def uart_intr_reason_def rxfifo_numchars_def modem_status_def rx_list_def
  fifo_list_def Let_def

definition uart_demo_ops :: "uart_op list" where
  "uart_demo_ops = [Uart_write 1 1, Tty_arrive [0x41, 0x42, 0x43], Uart_drain, Uart_read 0, Uart_drain, Uart_read 0]"


theorem uart_reachable_ok_witness:
  "let sc = snd (uart_run [Uart_write 1 1, Tty_arrive [0x41, 0x42], Uart_drain] (uart_opentty uart_init))
   in intr_pin sc \<and> \<not> mev_enabled sc \<and> f_num (u_rxfifo sc) = 1"
proof -
  let ?sc = "snd (uart_run [Uart_write 1 1, Tty_arrive [0x41, 0x42], Uart_drain] (uart_opentty uart_init))"
  have f: "f_num (u_rxfifo ?sc) = 1" "f_size (u_rxfifo ?sc) = 1" "tty_opened ?sc" "uart_intr_reason ?sc = 0xc"
    by (simp_all add: uart_eval)
  have "uart_opentty uart_init \<in> {uart_init, uart_opentty uart_init}" by simp
  from uart_reachable_ok [OF this refl, of "[Uart_write 1 1, Tty_arrive [0x41, 0x42], Uart_drain]"] f
  show ?thesis by (simp only: Let_def) simp
qed

end
