(* ===== verification/Ps2.thy ===== *)
theory Ps2
  imports Byte_Fifo
begin

text \<open>
  The PS/2 keyboard and mouse of \<^verbatim>\<open>bhyve/ps2kbd.c\<close> and \<^verbatim>\<open>ps2mouse.c\<close>: command handling, the
  queues of bytes for the controller, the translation of key symbols to scan codes and the encoding of mouse movement.
  Events call back into the controller of theory \<open>Atkbdc\<close>; here an event handler returns whether it does.
\<close>

section \<open>Keyboard\<close>

record ps2kbd_softc =
  kb_enabled :: bool
  kb_fifo :: fifo
  kb_curcmd :: u8

abbreviation (input) PS2KBD_FIFOSZ :: nat where "PS2KBD_FIFOSZ \<equiv> 16"
abbreviation (input) PS2KC_RESET_DEV :: u8 where "PS2KC_RESET_DEV \<equiv> 0xff"
abbreviation (input) PS2KC_DISABLE :: u8 where "PS2KC_DISABLE \<equiv> 0xf5"
abbreviation (input) PS2KC_ENABLE :: u8 where "PS2KC_ENABLE \<equiv> 0xf4"
abbreviation (input) PS2KC_SET_TYPEMATIC :: u8 where "PS2KC_SET_TYPEMATIC \<equiv> 0xf3"
abbreviation (input) PS2KC_SEND_DEV_ID :: u8 where "PS2KC_SEND_DEV_ID \<equiv> 0xf2"
abbreviation (input) PS2KC_SET_SCANCODE_SET :: u8 where "PS2KC_SET_SCANCODE_SET \<equiv> 0xf0"
abbreviation (input) PS2KC_ECHO :: u8 where "PS2KC_ECHO \<equiv> 0xee"
abbreviation (input) PS2KC_SET_LEDS :: u8 where "PS2KC_SET_LEDS \<equiv> 0xed"
abbreviation (input) PS2KC_BAT_SUCCESS :: u8 where "PS2KC_BAT_SUCCESS \<equiv> 0xaa"
abbreviation (input) PS2KC_ACK :: u8 where "PS2KC_ACK \<equiv> 0xfa"

text \<open>Key symbol, scan code and whether the prefix E0h comes first.\<close>

definition extended_translations :: "(u32 \<times> u8 \<times> bool) list" where
  "extended_translations =
     [(0xff08, 0x66, False), (0xff09, 0x0d, False), (0xff0d, 0x5a, False), (0xff1b, 0x76, False), (0xff50, 0x6c, True),
      (0xff51, 0x6b, True), (0xff52, 0x75, True), (0xff53, 0x74, True), (0xff54, 0x72, True), (0xff55, 0x7d, True),
      (0xff56, 0x7a, True), (0xff57, 0x69, True), (0xff63, 0x70, True), (0xff8d, 0x5a, True), (0xffe1, 0x12, False),
      (0xffe2, 0x59, False), (0xffe3, 0x14, False), (0xffe4, 0x14, True), (0xffe9, 0x11, False), (0xfe03, 0x11, True),
      (0xffea, 0x11, True), (0xffeb, 0x1f, True), (0xffec, 0x27, True), (0xffbe, 0x05, False), (0xffbf, 0x06, False),
      (0xffc0, 0x04, False), (0xffc1, 0x0c, False), (0xffc2, 0x03, False), (0xffc3, 0x0b, False), (0xffc4, 0x83, False),
      (0xffc5, 0x0a, False), (0xffc6, 0x01, False), (0xffc7, 0x09, False), (0xffc8, 0x78, False), (0xffc9, 0x07, False),
      (0xffff, 0x71, True), (0xff14, 0x7e, False), (0xff7f, 0x77, False), (0xffaf, 0x4a, True), (0xffaa, 0x7c, False),
      (0xffad, 0x7b, False), (0xffab, 0x79, False), (0xffb7, 0x6c, False), (0xff95, 0x6c, False), (0xffb8, 0x75, False),
      (0xff97, 0x75, False), (0xffb9, 0x7d, False), (0xff9a, 0x7d, False), (0xffb4, 0x6b, False), (0xff96, 0x6b, False),
      (0xffb5, 0x73, False), (0xff9d, 0x73, False), (0xffb6, 0x74, False), (0xff98, 0x74, False), (0xffb1, 0x69, False),
      (0xff9c, 0x69, False), (0xffb2, 0x72, False), (0xff99, 0x72, False), (0xffb3, 0x7a, False), (0xff9b, 0x7a, False),
      (0xffb0, 0x70, False), (0xff9e, 0x70, False), (0xffae, 0x71, False), (0xff9f, 0x71, False)]"

definition ascii_translations :: "u8 list" where
  "ascii_translations =
     [0x00, 0x00, 0x00, 0x00, 0x00, 0x00, 0x00, 0x00, 0x00, 0x00, 0x00, 0x00, 0x00, 0x00, 0x00, 0x00,
      0x00, 0x00, 0x00, 0x00, 0x00, 0x00, 0x00, 0x00, 0x00, 0x00, 0x00, 0x00, 0x00, 0x00, 0x00, 0x00,
      0x29, 0x16, 0x52, 0x26, 0x25, 0x2e, 0x3d, 0x52, 0x46, 0x45, 0x3e, 0x55, 0x41, 0x4e, 0x49, 0x4a,
      0x45, 0x16, 0x1e, 0x26, 0x25, 0x2e, 0x36, 0x3d, 0x3e, 0x46, 0x4c, 0x4c, 0x41, 0x55, 0x49, 0x4a,
      0x1e, 0x1c, 0x32, 0x21, 0x23, 0x24, 0x2b, 0x34, 0x33, 0x43, 0x3b, 0x42, 0x4b, 0x3a, 0x31, 0x44,
      0x4d, 0x15, 0x2d, 0x1b, 0x2c, 0x3c, 0x2a, 0x1d, 0x22, 0x35, 0x1a, 0x54, 0x5d, 0x5b, 0x36, 0x4e,
      0x0e, 0x1c, 0x32, 0x21, 0x23, 0x24, 0x2b, 0x34, 0x33, 0x43, 0x3b, 0x42, 0x4b, 0x3a, 0x31, 0x44,
      0x4d, 0x15, 0x2d, 0x1b, 0x2c, 0x3c, 0x2a, 0x1d, 0x22, 0x35, 0x1a, 0x54, 0x5d, 0x5b, 0x0e, 0x00]"

definition kbd_put :: "ps2kbd_softc \<Rightarrow> u8 \<Rightarrow> ps2kbd_softc" where
  "kbd_put sc val = sc\<lparr>kb_fifo := fifo_put (kb_fifo sc) val\<rparr>"

definition kbd_reset :: "ps2kbd_softc \<Rightarrow> ps2kbd_softc" where
  "kbd_reset sc = sc\<lparr>kb_fifo := fifo_zero PS2KBD_FIFOSZ\<rparr>"

text \<open>\<open>None\<close> is the return value \<open>-1\<close>.\<close>

definition ps2kbd_read :: "ps2kbd_softc \<Rightarrow> (u8 \<times> ps2kbd_softc) option" where
  "ps2kbd_read sc = map_option (\<lambda>(val, f). (val, sc\<lparr>kb_fifo := f\<rparr>)) (fifo_get (kb_fifo sc))"

definition ps2kbd_write :: "ps2kbd_softc \<Rightarrow> u8 \<Rightarrow> ps2kbd_softc" where
  "ps2kbd_write sc val =
     (if kb_curcmd sc \<noteq> 0
      then let sc = (if kb_curcmd sc \<in> {PS2KC_SET_TYPEMATIC, PS2KC_SET_SCANCODE_SET, PS2KC_SET_LEDS} then kbd_put sc PS2KC_ACK else sc)
           in sc\<lparr>kb_curcmd := 0\<rparr>
      else if val = 0 then kbd_put sc PS2KC_ACK
      else if val = PS2KC_RESET_DEV then kbd_put (kbd_put (kbd_reset sc) PS2KC_ACK) PS2KC_BAT_SUCCESS
      else if val = PS2KC_DISABLE then kbd_put (sc\<lparr>kb_enabled := False\<rparr>) PS2KC_ACK
      else if val = PS2KC_ENABLE then kbd_put (kbd_reset (sc\<lparr>kb_enabled := True\<rparr>)) PS2KC_ACK
      else if val = PS2KC_SET_TYPEMATIC then kbd_put (sc\<lparr>kb_curcmd := val\<rparr>) PS2KC_ACK
      else if val = PS2KC_SEND_DEV_ID then kbd_put (kbd_put (kbd_put sc PS2KC_ACK) 0xab) 0x83
      else if val = PS2KC_SET_SCANCODE_SET then kbd_put (sc\<lparr>kb_curcmd := val\<rparr>) PS2KC_ACK
      else if val = PS2KC_ECHO then kbd_put sc PS2KC_ECHO
      else if val = PS2KC_SET_LEDS then kbd_put (sc\<lparr>kb_curcmd := val\<rparr>) PS2KC_ACK
      else sc)"

text \<open>The lookup of \<^verbatim>\<open>ps2kbd_keysym_queue\<close>: scan code and prefix.\<close>

definition keysym_code :: "u32 \<Rightarrow> (u8 \<times> bool) option" where
  "keysym_code keysym =
     (if keysym < 0x80 then Some (ascii_translations ! unat keysym, False)
      else map_option snd (find (\<lambda>(k, _). k = keysym) extended_translations))"

definition ps2kbd_keysym_queue :: "ps2kbd_softc \<Rightarrow> bool \<Rightarrow> u32 \<Rightarrow> ps2kbd_softc" where
  "ps2kbd_keysym_queue sc down keysym =
     (case keysym_code keysym of
        None \<Rightarrow> sc
      | Some (code, e0_prefix) \<Rightarrow>
          let sc = (if e0_prefix then kbd_put sc 0xe0 else sc);
              sc = (if \<not> down then kbd_put sc 0xf0 else sc)
          in kbd_put sc code)"

text \<open>The result says whether the controller is called.\<close>

definition ps2kbd_event :: "ps2kbd_softc \<Rightarrow> bool \<Rightarrow> u32 \<Rightarrow> bool \<times> ps2kbd_softc" where
  "ps2kbd_event sc down keysym =
     (if \<not> kb_enabled sc then (False, sc)
      else let fifo_full = (f_num (kb_fifo sc) = PS2KBD_FIFOSZ)
           in (\<not> fifo_full, ps2kbd_keysym_queue sc down keysym))"

definition ps2kbd_init :: ps2kbd_softc where
  "ps2kbd_init = \<lparr>kb_enabled = False, kb_fifo = fifo_zero PS2KBD_FIFOSZ, kb_curcmd = 0\<rparr>"

section \<open>Mouse\<close>

record ps2mouse_softc =
  mo_status :: u8
  mo_resolution :: u8
  mo_sampling_rate :: u8
  mo_ctrlenable :: bool
  mo_fifo :: fifo
  mo_curcmd :: u8
  cur_x :: int
  cur_y :: int
  delta_x :: int
  delta_y :: int

abbreviation (input) PS2M_STS_ENABLE_DEV :: u8 where "PS2M_STS_ENABLE_DEV \<equiv> 0x20"
abbreviation (input) PS2M_STS_REMOTE_MODE :: u8 where "PS2M_STS_REMOTE_MODE \<equiv> 0x40"

definition mouse_put :: "ps2mouse_softc \<Rightarrow> u8 \<Rightarrow> ps2mouse_softc" where
  "mouse_put sc val = sc\<lparr>mo_fifo := fifo_put (mo_fifo sc) val\<rparr>"

definition mouse_fifo_reset :: "ps2mouse_softc \<Rightarrow> ps2mouse_softc" where
  "mouse_fifo_reset sc = sc\<lparr>mo_fifo := fifo_zero 16\<rparr>"

definition movement_reset :: "ps2mouse_softc \<Rightarrow> ps2mouse_softc" where
  "movement_reset sc = sc\<lparr>delta_x := 0, delta_y := 0\<rparr>"

text \<open>The coordinates are those of a screen; sums of their differences do not leave the range of \<open>int\<close>.\<close>

definition movement_update :: "ps2mouse_softc \<Rightarrow> int \<Rightarrow> int \<Rightarrow> ps2mouse_softc" where
  "movement_update sc x y =
     sc\<lparr>delta_x := delta_x sc + (x - cur_x sc), delta_y := delta_y sc + (cur_y sc - y), cur_x := x, cur_y := y\<rparr>"

text \<open>One axis of a movement packet: overflow, sign and the byte.\<close>

definition axis_code :: "int \<Rightarrow> bool \<times> bool \<times> u8" where
  "axis_code d =
     (if d \<ge> 0 then (if d > 255 then (True, False, 255) else (False, False, word_of_int d))
      else (if d < -255 then (True, True, 255) else (False, True, word_of_int d)))"

definition movement_get :: "ps2mouse_softc \<Rightarrow> ps2mouse_softc" where
  "movement_get sc =
     (let val0 = 0x08 OR (mo_status sc AND 0x07);
          (xo, xs, val1) = axis_code (delta_x sc);
          val0 = (if xs then val0 OR 0x10 else val0); val0 = (if xo then val0 OR 0x40 else val0);
          sc = sc\<lparr>delta_x := 0\<rparr>;
          (yo, ys, val2) = axis_code (delta_y sc);
          val0 = (if ys then val0 OR 0x20 else val0); val0 = (if yo then val0 OR 0x80 else val0);
          sc = sc\<lparr>delta_y := 0\<rparr>
      in if int (f_num (mo_fifo sc)) < int (f_size (mo_fifo sc)) - 3
         then mouse_put (mouse_put (mouse_put sc val0) val1) val2 else sc)"

definition ps2mouse_reset :: "ps2mouse_softc \<Rightarrow> ps2mouse_softc" where
  "ps2mouse_reset sc =
     (movement_reset (mouse_fifo_reset sc))\<lparr>mo_status := PS2M_STS_ENABLE_DEV, mo_resolution := 4, mo_sampling_rate := 100,
        cur_x := 0, cur_y := 0, delta_x := 0, delta_y := 0\<rparr>"

definition ps2mouse_read :: "ps2mouse_softc \<Rightarrow> (u8 \<times> ps2mouse_softc) option" where
  "ps2mouse_read sc = map_option (\<lambda>(val, f). (val, sc\<lparr>mo_fifo := f\<rparr>)) (fifo_get (mo_fifo sc))"

definition ps2mouse_fifocnt :: "ps2mouse_softc \<Rightarrow> nat" where
  "ps2mouse_fifocnt sc = f_num (mo_fifo sc)"

definition ps2mouse_toggle :: "ps2mouse_softc \<Rightarrow> bool \<Rightarrow> ps2mouse_softc" where
  "ps2mouse_toggle sc enable =
     (if enable then sc\<lparr>mo_ctrlenable := True\<rparr>
      else sc\<lparr>mo_ctrlenable := False, mo_fifo := (mo_fifo sc)\<lparr>f_rindex := 0, f_windex := 0, f_num := 0\<rparr>\<rparr>)"

definition mouse_command :: "ps2mouse_softc \<Rightarrow> u8 \<Rightarrow> ps2mouse_softc" where
  "mouse_command sc val =
     (if val = 0xff then mouse_put (mouse_put (mouse_put (ps2mouse_reset sc) 0xfa) 0xaa) 0
      else if val = 0xf6 then mouse_put (ps2mouse_reset sc) 0xfa
      else if val = 0xf5
      then mouse_put ((mouse_fifo_reset sc)\<lparr>mo_status := mo_status sc AND NOT PS2M_STS_ENABLE_DEV\<rparr>) 0xfa
      else if val = 0xf4
      then mouse_put ((mouse_fifo_reset sc)\<lparr>mo_status := mo_status sc OR PS2M_STS_ENABLE_DEV\<rparr>) 0xfa
      else if val = 0xf3 \<or> val = 0xe8 then mouse_put (sc\<lparr>mo_curcmd := val\<rparr>) 0xfa
      else if val = 0xf2 then mouse_put (mouse_put sc 0xfa) 0
      else if val = 0xf0 then mouse_put (sc\<lparr>mo_status := mo_status sc OR PS2M_STS_REMOTE_MODE\<rparr>) 0xfa
      else if val = 0xeb then movement_get (mouse_put sc 0xfa)
      else if val = 0xea then mouse_put (sc\<lparr>mo_status := mo_status sc AND NOT PS2M_STS_REMOTE_MODE\<rparr>) 0xfa
      else if val = 0xe9
      then (let sc = mouse_put sc 0xfa; sc = mouse_put sc (mo_status sc); sc = mouse_put sc (mo_resolution sc)
            in mouse_put sc (mo_sampling_rate sc))
      else mouse_put sc 0xfa)"

definition ps2mouse_write :: "ps2mouse_softc \<Rightarrow> u8 \<Rightarrow> bool \<Rightarrow> ps2mouse_softc" where
  "ps2mouse_write sc val ins =
     (let sc = mouse_fifo_reset sc
      in if mo_curcmd sc \<noteq> 0
         then (let sc = (if mo_curcmd sc = 0xf3 then mouse_put (sc\<lparr>mo_sampling_rate := val\<rparr>) 0xfa
                         else if mo_curcmd sc = 0xe8 then mouse_put (sc\<lparr>mo_resolution := val\<rparr>) 0xfa else sc)
               in sc\<lparr>mo_curcmd := 0\<rparr>)
         else if ins then mouse_put sc val
         else mouse_command sc val)"

definition ps2mouse_event :: "ps2mouse_softc \<Rightarrow> u8 \<Rightarrow> int \<Rightarrow> int \<Rightarrow> bool \<times> ps2mouse_softc" where
  "ps2mouse_event sc button x y =
     (let sc = movement_update sc x y;
          sc = sc\<lparr>mo_status := mo_status sc AND NOT 0x07\<rparr>;
          sc = (if bit button 0 then sc\<lparr>mo_status := mo_status sc OR 1\<rparr> else sc);
          sc = (if bit button 1 then sc\<lparr>mo_status := mo_status sc OR 4\<rparr> else sc);
          sc = (if bit button 2 then sc\<lparr>mo_status := mo_status sc OR 2\<rparr> else sc)
      in if mo_status sc AND PS2M_STS_ENABLE_DEV = 0 \<or> \<not> mo_ctrlenable sc then (False, sc)
         else let sc = movement_get sc in (f_num (mo_fifo sc) > 0, sc))"

definition ps2mouse_init :: ps2mouse_softc where
  "ps2mouse_init = ps2mouse_reset \<lparr>mo_status = 0, mo_resolution = 0, mo_sampling_rate = 0, mo_ctrlenable = False,
     mo_fifo = fifo_zero 16, mo_curcmd = 0, cur_x = 0, cur_y = 0, delta_x = 0, delta_y = 0\<rparr>"

section \<open>The queues\<close>

definition kb_list :: "ps2kbd_softc \<Rightarrow> u8 list" where
  "kb_list sc = fifo_list (kb_fifo sc)"

definition kb_ok :: "ps2kbd_softc \<Rightarrow> bool" where
  "kb_ok sc \<longleftrightarrow> fifo_ok (kb_fifo sc) \<and> f_size (kb_fifo sc) = 16"

definition mo_list :: "ps2mouse_softc \<Rightarrow> u8 list" where
  "mo_list sc = fifo_list (mo_fifo sc)"

definition mo_ok :: "ps2mouse_softc \<Rightarrow> bool" where
  "mo_ok sc \<longleftrightarrow> fifo_ok (mo_fifo sc) \<and> f_size (mo_fifo sc) = 16"

interpretation kb: byte_fifo kbd_put ps2kbd_read kb_list "\<lambda>_. 16" kb_ok
proof
  fix s :: ps2kbd_softc and c x xs
  assume ok: "kb_ok s"
  then have f: "fifo_ok (kb_fifo s)" "f_size (kb_fifo s) = 16" by (simp_all add: kb_ok_def)
  show "kb_ok (kbd_put s c)" using ring.ok_put [OF f(1)] ring.cap_put [OF f(1)] f(2) by (simp add: kb_ok_def kbd_put_def)
  show "kb_list (kbd_put s c) = (if length (kb_list s) < 16 then kb_list s @ [c] else kb_list s)"
    using ring.contents_put [OF f(1)] f(2) by (simp add: kb_list_def kbd_put_def)
  show "kb_list s = [] \<Longrightarrow> ps2kbd_read s = None" using ring.get_empty [OF f(1)] by (simp add: kb_list_def ps2kbd_read_def)
  show "kb_list s = x # xs \<Longrightarrow> \<exists>s'. ps2kbd_read s = Some (x, s') \<and> kb_ok s' \<and> (16::nat) = 16 \<and> kb_list s' = xs"
    using ring.get_next [OF f(1)] f(2) by (fastforce simp: kb_list_def ps2kbd_read_def kb_ok_def)
  show "length (kb_list s) \<le> 16" using ring.contents_le [OF f(1)] f(2) by (simp add: kb_list_def)
qed simp

interpretation mo: byte_fifo mouse_put ps2mouse_read mo_list "\<lambda>_. 16" mo_ok
proof
  fix s :: ps2mouse_softc and c x xs
  assume ok: "mo_ok s"
  then have f: "fifo_ok (mo_fifo s)" "f_size (mo_fifo s) = 16" by (simp_all add: mo_ok_def)
  show "mo_ok (mouse_put s c)" using ring.ok_put [OF f(1)] ring.cap_put [OF f(1)] f(2) by (simp add: mo_ok_def mouse_put_def)
  show "mo_list (mouse_put s c) = (if length (mo_list s) < 16 then mo_list s @ [c] else mo_list s)"
    using ring.contents_put [OF f(1)] f(2) by (simp add: mo_list_def mouse_put_def)
  show "mo_list s = [] \<Longrightarrow> ps2mouse_read s = None" using ring.get_empty [OF f(1)] by (simp add: mo_list_def ps2mouse_read_def)
  show "mo_list s = x # xs \<Longrightarrow> \<exists>s'. ps2mouse_read s = Some (x, s') \<and> mo_ok s' \<and> (16::nat) = 16 \<and> mo_list s' = xs"
    using ring.get_next [OF f(1)] f(2) by (fastforce simp: mo_list_def ps2mouse_read_def mo_ok_def)
  show "length (mo_list s) \<le> 16" using ring.contents_le [OF f(1)] f(2) by (simp add: mo_list_def)
qed simp

lemma kb_ok_upd [simp]:
  "kb_ok (sc\<lparr>kb_enabled := b\<rparr>) = kb_ok sc" "kb_ok (sc\<lparr>kb_curcmd := v\<rparr>) = kb_ok sc" "kb_ok (kbd_reset sc)"
  "kb_list (sc\<lparr>kb_enabled := b\<rparr>) = kb_list sc" "kb_list (sc\<lparr>kb_curcmd := v\<rparr>) = kb_list sc" "kb_list (kbd_reset sc) = []"
  by (simp_all add: kb_ok_def kb_list_def kbd_reset_def)

lemma ps2kbd_write_ok: "kb_ok sc \<Longrightarrow> kb_ok (ps2kbd_write sc v)"
  by (simp add: ps2kbd_write_def kb.ok_put Let_def)

lemma ps2kbd_event_ok: "kb_ok sc \<Longrightarrow> kb_ok (snd (ps2kbd_event sc down keysym))"
  by (simp add: ps2kbd_event_def ps2kbd_keysym_queue_def kb.ok_put Let_def split: option.split)

lemma mo_ok_upd [simp]:
  "mo_ok (sc\<lparr>mo_status := v\<rparr>) = mo_ok sc" "mo_ok (sc\<lparr>mo_resolution := v\<rparr>) = mo_ok sc" "mo_ok (sc\<lparr>mo_sampling_rate := v\<rparr>) = mo_ok sc"
  "mo_ok (sc\<lparr>mo_ctrlenable := b\<rparr>) = mo_ok sc" "mo_ok (sc\<lparr>mo_curcmd := v\<rparr>) = mo_ok sc" "mo_ok (sc\<lparr>delta_x := i\<rparr>) = mo_ok sc"
  "mo_ok (sc\<lparr>delta_y := i\<rparr>) = mo_ok sc" "mo_ok (mouse_fifo_reset sc)" "mo_ok (ps2mouse_reset sc)" "mo_ok (movement_update sc i j) = mo_ok sc"
  by (simp_all add: mo_ok_def mouse_fifo_reset_def ps2mouse_reset_def movement_reset_def movement_update_def)

lemma movement_get_ok: "mo_ok sc \<Longrightarrow> mo_ok (movement_get sc)"
  by (simp add: movement_get_def mo.ok_put Let_def case_prod_beta)

lemma ps2mouse_write_ok: "mo_ok (ps2mouse_write sc v b)"
  by (simp add: ps2mouse_write_def mouse_command_def mo.ok_put movement_get_ok Let_def)

lemma ps2mouse_toggle_ok: "mo_ok sc \<Longrightarrow> mo_ok (ps2mouse_toggle sc b)"
  by (simp add: ps2mouse_toggle_def mo_ok_def fifo_ok_def)

lemma ps2mouse_event_ok: "mo_ok sc \<Longrightarrow> mo_ok (snd (ps2mouse_event sc b x y))"
  by (simp add: ps2mouse_event_def movement_get_ok Let_def)

lemma ps2_init_ok: "kb_ok ps2kbd_init" "mo_ok ps2mouse_init"
  by (simp_all add: ps2kbd_init_def ps2mouse_init_def kb_ok_def)

section \<open>Scan codes and movement\<close>

text \<open>The scan code sequence of a key.\<close>

definition key_bytes :: "bool \<Rightarrow> u32 \<Rightarrow> u8 list" where
  "key_bytes down keysym =
     (case keysym_code keysym of None \<Rightarrow> [] | Some (code, e0) \<Rightarrow> (if e0 then [0xe0] else []) @ (if down then [] else [0xf0]) @ [code])"

lemma keysym_queue_list:
  assumes "kb_ok sc"
  shows "kb_list (ps2kbd_keysym_queue sc down keysym) = kb_list sc @ take (16 - length (kb_list sc)) (key_bytes down keysym)"
proof (cases "keysym_code keysym")
  case None
  then show ?thesis by (simp add: ps2kbd_keysym_queue_def key_bytes_def)
next
  case (Some ce)
  then have "ps2kbd_keysym_queue sc down keysym = kb.puts (key_bytes down keysym) sc"
    by (cases ce) (auto simp: ps2kbd_keysym_queue_def key_bytes_def Let_def)
  then show ?thesis using kb.contents_puts [OF assms] by simp
qed

text \<open>What a driver decodes from a packet: the buttons and the two 9-bit numbers.\<close>

definition packet_x :: "u8 list \<Rightarrow> int" where
  "packet_x p = uint (p ! 1) - (if bit (p ! 0) 4 then 256 else 0)"

definition packet_y :: "u8 list \<Rightarrow> int" where
  "packet_y p = uint (p ! 2) - (if bit (p ! 0) 5 then 256 else 0)"

lemma axis_code_small:
  assumes "\<bar>d\<bar> \<le> 255"
  shows "\<exists>v. axis_code d = (False, d < 0, v) \<and> uint v - (if d < 0 then 256 else 0) = d"
proof (cases "d < 0")
  case True
  have "uint (word_of_int d :: u8) = d + 256"
    using assms True by (simp add: unsigned_of_int take_bit_eq_mod) (smt (verit) mod_add_self2 mod_pos_pos_trivial)
  then show ?thesis using True assms by (simp add: axis_code_def)
next
  case False
  then have "uint (word_of_int d :: u8) = d" using assms by (simp add: unsigned_of_int take_bit_int_eq_self)
  then show ?thesis using False assms by (simp add: axis_code_def)
qed

lemma packet_bits:
  fixes st :: u8
  defines "v0 \<equiv> \<lambda>xs ys. (let v = 8 OR (st AND 7); v = (if xs then v OR 0x10 else v) in if ys then v OR 0x20 else v)"
  shows "bit (v0 xs ys) 4 = xs" "bit (v0 xs ys) 5 = ys" "bit (v0 xs ys) 6 = False" "bit (v0 xs ys) 7 = False" "v0 xs ys AND 7 = st AND 7"
proof -
  show "bit (v0 xs ys) 4 = xs" "bit (v0 xs ys) 5 = ys" "bit (v0 xs ys) 6 = False" "bit (v0 xs ys) 7 = False"
    by (simp_all add: v0_def Let_def bit_or_iff bit_and_iff)
  have "(8 OR (st AND 7)) AND 7 = st AND 7" by (simp add: bit.conj_disj_distrib2 and.assoc)
  then show "v0 xs ys AND 7 = st AND 7" by (simp add: v0_def Let_def bit.conj_disj_distrib2)
qed

text \<open>Mouse movement survives its encoding: for displacements of up to 255 in either axis and a queue with room for a
  packet, the packet the driver reads decodes to exactly the accumulated displacement and the buttons, with no
  overflow bit, and the accumulated displacement starts again at zero.\<close>

theorem ps2_movement_roundtrip:
  assumes "mo_ok sc" "f_num (mo_fifo sc) < 13" "\<bar>delta_x sc\<bar> \<le> 255" "\<bar>delta_y sc\<bar> \<le> 255"
  shows "\<exists>p. mo_list (movement_get sc) = mo_list sc @ p \<and> length p = 3 \<and>
    packet_x p = delta_x sc \<and> packet_y p = delta_y sc \<and> p ! 0 AND 7 = mo_status sc AND 7 \<and>
    \<not> bit (p ! 0) 6 \<and> \<not> bit (p ! 0) 7 \<and> delta_x (movement_get sc) = 0 \<and> delta_y (movement_get sc) = 0"
proof -
  obtain x where x: "axis_code (delta_x sc) = (False, delta_x sc < 0, x)" "uint x - (if delta_x sc < 0 then 256 else 0) = delta_x sc"
    using axis_code_small [OF assms(3)] by blast
  obtain y where y: "axis_code (delta_y sc) = (False, delta_y sc < 0, y)" "uint y - (if delta_y sc < 0 then 256 else 0) = delta_y sc"
    using axis_code_small [OF assms(4)] by blast
  define v0 where "v0 = (let v = 8 OR (mo_status sc AND 7); v = (if delta_x sc < 0 then v OR 0x10 else v) in if delta_y sc < 0 then v OR 0x20 else v)"
  let ?sc = "sc\<lparr>delta_x := 0, delta_y := 0\<rparr>"
  have ok: "mo_ok ?sc" "mo_list ?sc = mo_list sc" "length (mo_list sc) = f_num (mo_fifo sc)" "f_size (mo_fifo sc) = 16"
    using assms(1) by (simp_all add: mo_list_def mo_ok_def)
  have eq: "movement_get sc = mo.puts [v0, x, y] ?sc"
    using assms(2) ok(4) by (simp add: movement_get_def x(1) y(1) v0_def Let_def)
  have l: "mo_list (movement_get sc) = mo_list sc @ [v0, x, y]"
    unfolding eq using mo.contents_puts [OF ok(1), of "[v0, x, y]"] ok(2,3) assms(2) by simp
  have "delta_x (movement_get sc) = 0" "delta_y (movement_get sc) = 0" unfolding eq by (simp_all add: mouse_put_def)
  moreover have "packet_x [v0, x, y] = delta_x sc" "packet_y [v0, x, y] = delta_y sc"
    using packet_bits(1,2) [where st = "mo_status sc"] x(2) y(2) by (simp_all add: packet_x_def packet_y_def v0_def)
  moreover have "v0 AND 7 = mo_status sc AND 7" "\<not> bit v0 6" "\<not> bit v0 7"
    using packet_bits(3-5) [where st = "mo_status sc"] by (simp_all add: v0_def)
  ultimately show ?thesis using l by (intro exI [of _ "[v0, x, y]"]) simp
qed

theorem ps2_movement_roundtrip_witness:
  "\<exists>p. mo_list (movement_get (ps2mouse_init\<lparr>delta_x := -3, delta_y := 200\<rparr>)) = p \<and> packet_x p = -3 \<and> packet_y p = 200"
proof -
  let ?sc = "ps2mouse_init\<lparr>delta_x := -3, delta_y := 200\<rparr>"
  have "mo_ok ?sc" using ps2_init_ok by simp
  moreover have "f_num (mo_fifo ?sc) < 13" "mo_list ?sc = []"
    by (simp_all add: ps2mouse_init_def ps2mouse_reset_def movement_reset_def mouse_fifo_reset_def mo_list_def)
  ultimately show ?thesis using ps2_movement_roundtrip [of ?sc] by auto
qed

end
