(* ===== verification/Atkbdc.thy ===== *)
theory Atkbdc
  imports Ps2
begin

text \<open>
  The keyboard controller of \<^verbatim>\<open>bhyve/atkbdc.c\<close> between its two ports and the devices of theory \<open>Ps2\<close>.
  Pulses of the two interrupt lines and the reset of the machine are events. The data port returns an uninitialised
  byte of the handler's frame when no device has data; that byte is the argument \<open>junk\<close>.
\<close>

section \<open>State\<close>

record kbd_dev =
  kd_irq_active :: bool
  kd_buffer :: "nat \<Rightarrow> u8"
  kd_brd :: nat
  kd_bwr :: nat
  kd_bcnt :: nat

datatype kbdc_event = Pulse_irq nat | Suspend_reset

record atkbdc_softc =
  ps2kbd_sc :: ps2kbd_softc
  ps2mouse_sc :: ps2mouse_softc
  ak_status :: u8
  ak_outport :: u8
  ak_ram :: "nat \<Rightarrow> u8"
  ak_curcmd :: u32
  ak_ctrlbyte :: u32
  ak_kbd :: kbd_dev
  aux_irq_active :: bool
  ak_events :: "kbdc_event list"

abbreviation (input) KBDC_FIFOSZ :: nat where "KBDC_FIFOSZ \<equiv> 15"
abbreviation (input) KBD_TRANSLATION :: u8 where "KBD_TRANSLATION \<equiv> 0x40"
abbreviation (input) KBD_SYS_FLAG_BIT :: u8 where "KBD_SYS_FLAG_BIT \<equiv> 0x04"
abbreviation (input) KBD_DISABLE_KBD_PORT :: u8 where "KBD_DISABLE_KBD_PORT \<equiv> 0x10"
abbreviation (input) KBD_DISABLE_AUX_PORT :: u8 where "KBD_DISABLE_AUX_PORT \<equiv> 0x20"
abbreviation (input) KBD_ENABLE_AUX_INT :: u8 where "KBD_ENABLE_AUX_INT \<equiv> 0x02"
abbreviation (input) KBD_ENABLE_KBD_INT :: u8 where "KBD_ENABLE_KBD_INT \<equiv> 0x01"
abbreviation (input) KBDS_KBD_BUFFER_FULL :: u8 where "KBDS_KBD_BUFFER_FULL \<equiv> 0x01"
abbreviation (input) KBDS_SYS_FLAG :: u8 where "KBDS_SYS_FLAG \<equiv> 0x04"
abbreviation (input) KBDS_CTRL_FLAG :: u8 where "KBDS_CTRL_FLAG \<equiv> 0x08"
abbreviation (input) KBDS_AUX_BUFFER_FULL :: u8 where "KBDS_AUX_BUFFER_FULL \<equiv> 0x20"
abbreviation (input) KBDO_KBD_OUTFULL :: u8 where "KBDO_KBD_OUTFULL \<equiv> 0x10"
abbreviation (input) KBDO_AUX_OUTFULL :: u8 where "KBDO_AUX_OUTFULL \<equiv> 0x20"
abbreviation (input) CTRL_CMD_FLAG :: u32 where "CTRL_CMD_FLAG \<equiv> 0x8000"

definition ak_emit :: "kbdc_event \<Rightarrow> atkbdc_softc \<Rightarrow> atkbdc_softc" where
  "ak_emit e sc = sc\<lparr>ak_events := ak_events sc @ [e]\<rparr>"

definition set_status :: "u8 \<Rightarrow> atkbdc_softc \<Rightarrow> atkbdc_softc" where
  "set_status b sc = sc\<lparr>ak_status := ak_status sc OR b\<rparr>"

definition clr_status :: "u8 \<Rightarrow> atkbdc_softc \<Rightarrow> atkbdc_softc" where
  "clr_status b sc = sc\<lparr>ak_status := ak_status sc AND NOT b\<rparr>"

section \<open>Interrupts and the keyboard buffer\<close>

definition atkbdc_assert_kbd_intr :: "atkbdc_softc \<Rightarrow> atkbdc_softc" where
  "atkbdc_assert_kbd_intr sc =
     (if ak_ram sc 0 AND KBD_ENABLE_KBD_INT \<noteq> 0
      then ak_emit (Pulse_irq 1) (sc\<lparr>ak_kbd := (ak_kbd sc)\<lparr>kd_irq_active := True\<rparr>\<rparr>) else sc)"

definition atkbdc_assert_aux_intr :: "atkbdc_softc \<Rightarrow> atkbdc_softc" where
  "atkbdc_assert_aux_intr sc =
     (if ak_ram sc 0 AND KBD_ENABLE_AUX_INT \<noteq> 0 then ak_emit (Pulse_irq 12) (sc\<lparr>aux_irq_active := True\<rparr>) else sc)"

definition kbd_buf_put :: "kbd_dev \<Rightarrow> u8 \<Rightarrow> kbd_dev" where
  "kbd_buf_put k val =
     (if kd_bcnt k < KBDC_FIFOSZ
      then k\<lparr>kd_buffer := (kd_buffer k)(kd_bwr k := val), kd_bwr := (kd_bwr k + 1) mod KBDC_FIFOSZ, kd_bcnt := kd_bcnt k + 1\<rparr>
      else k)"

definition kbd_buf_get :: "kbd_dev \<Rightarrow> (u8 \<times> kbd_dev) option" where
  "kbd_buf_get k =
     (if kd_bcnt k > 0
      then Some (kd_buffer k (kd_brd k), k\<lparr>kd_brd := (kd_brd k + 1) mod KBDC_FIFOSZ, kd_bcnt := kd_bcnt k - 1\<rparr>) else None)"

definition atkbdc_kbd_queue_data :: "atkbdc_softc \<Rightarrow> u8 \<Rightarrow> atkbdc_softc" where
  "atkbdc_kbd_queue_data sc val =
     (if kd_bcnt (ak_kbd sc) < KBDC_FIFOSZ
      then set_status KBDS_KBD_BUFFER_FULL
             (sc\<lparr>ak_kbd := kbd_buf_put (ak_kbd sc) val, ak_outport := ak_outport sc OR KBDO_KBD_OUTFULL\<rparr>)
      else sc)"

text \<open>Scan code set 2 to set 1.\<close>

definition translation :: "u8 list" where
  "translation =
     [0xff, 0x43, 0x41, 0x3f, 0x3d, 0x3b, 0x3c, 0x58, 0x64, 0x44, 0x42, 0x40, 0x3e, 0x0f, 0x29, 0x59,
      0x65, 0x38, 0x2a, 0x70, 0x1d, 0x10, 0x02, 0x5a, 0x66, 0x71, 0x2c, 0x1f, 0x1e, 0x11, 0x03, 0x5b,
      0x67, 0x2e, 0x2d, 0x20, 0x12, 0x05, 0x04, 0x5c, 0x68, 0x39, 0x2f, 0x21, 0x14, 0x13, 0x06, 0x5d,
      0x69, 0x31, 0x30, 0x23, 0x22, 0x15, 0x07, 0x5e, 0x6a, 0x72, 0x32, 0x24, 0x16, 0x08, 0x09, 0x5f,
      0x6b, 0x33, 0x25, 0x17, 0x18, 0x0b, 0x0a, 0x60, 0x6c, 0x34, 0x35, 0x26, 0x27, 0x19, 0x0c, 0x61,
      0x6d, 0x73, 0x28, 0x74, 0x1a, 0x0d, 0x62, 0x6e, 0x3a, 0x36, 0x1c, 0x1b, 0x75, 0x2b, 0x63, 0x76,
      0x55, 0x56, 0x77, 0x78, 0x79, 0x7a, 0x0e, 0x7b, 0x7c, 0x4f, 0x7d, 0x4b, 0x47, 0x7e, 0x7f, 0x6f,
      0x52, 0x53, 0x50, 0x4c, 0x4d, 0x48, 0x01, 0x45, 0x57, 0x4e, 0x51, 0x4a, 0x37, 0x49, 0x46, 0x54,
      0x80, 0x81, 0x82, 0x41, 0x54, 0x85, 0x86, 0x87, 0x88, 0x89, 0x8a, 0x8b, 0x8c, 0x8d, 0x8e, 0x8f,
      0x90, 0x91, 0x92, 0x93, 0x94, 0x95, 0x96, 0x97, 0x98, 0x99, 0x9a, 0x9b, 0x9c, 0x9d, 0x9e, 0x9f,
      0xa0, 0xa1, 0xa2, 0xa3, 0xa4, 0xa5, 0xa6, 0xa7, 0xa8, 0xa9, 0xaa, 0xab, 0xac, 0xad, 0xae, 0xaf,
      0xb0, 0xb1, 0xb2, 0xb3, 0xb4, 0xb5, 0xb6, 0xb7, 0xb8, 0xb9, 0xba, 0xbb, 0xbc, 0xbd, 0xbe, 0xbf,
      0xc0, 0xc1, 0xc2, 0xc3, 0xc4, 0xc5, 0xc6, 0xc7, 0xc8, 0xc9, 0xca, 0xcb, 0xcc, 0xcd, 0xce, 0xcf,
      0xd0, 0xd1, 0xd2, 0xd3, 0xd4, 0xd5, 0xd6, 0xd7, 0xd8, 0xd9, 0xda, 0xdb, 0xdc, 0xdd, 0xde, 0xdf,
      0xe0, 0xe1, 0xe2, 0xe3, 0xe4, 0xe5, 0xe6, 0xe7, 0xe8, 0xe9, 0xea, 0xeb, 0xec, 0xed, 0xee, 0xef,
      0xf0, 0xf1, 0xf2, 0xf3, 0xf4, 0xf5, 0xf6, 0xf7, 0xf8, 0xf9, 0xfa, 0xfb, 0xfc, 0xfd, 0xfe, 0xff]"

text \<open>The loop of \<^verbatim>\<open>atkbdc_kbd_read\<close> with translation: break prefixes are collected until a code comes.\<close>

function read_translated :: "ps2kbd_softc \<Rightarrow> u8 \<Rightarrow> u8 option \<times> ps2kbd_softc" where
  "read_translated kb release =
     (case ps2kbd_read kb of
        None \<Rightarrow> (None, kb)
      | Some (val, kb) \<Rightarrow>
          if val = 0xf0 then read_translated kb 0x80 else (Some (translation ! unat val OR release), kb))"
  by pat_completeness auto
termination
  by (relation "measure (\<lambda>(kb, _). f_num (kb_fifo kb))") (auto simp: ps2kbd_read_def fifo_get_def split: if_splits)

text \<open>The loop without translation.\<close>

function read_raw :: "atkbdc_softc \<Rightarrow> atkbdc_softc" where
  "read_raw sc =
     (if kd_bcnt (ak_kbd sc) < KBDC_FIFOSZ
      then case ps2kbd_read (ps2kbd_sc sc) of
             None \<Rightarrow> sc
           | Some (val, kb) \<Rightarrow> read_raw (atkbdc_kbd_queue_data (sc\<lparr>ps2kbd_sc := kb\<rparr>) val)
      else sc)"
  by pat_completeness auto
termination
  by (relation "measure (\<lambda>sc. f_num (kb_fifo (ps2kbd_sc sc)))")
     (auto simp: ps2kbd_read_def fifo_get_def atkbdc_kbd_queue_data_def set_status_def split: if_splits)

declare read_translated.simps [simp del] read_raw.simps [simp del]

definition atkbdc_kbd_read :: "atkbdc_softc \<Rightarrow> atkbdc_softc" where
  "atkbdc_kbd_read sc =
     (let sc = (if ak_ram sc 0 AND KBD_TRANSLATION \<noteq> 0
                then (case read_translated (ps2kbd_sc sc) 0 of
                        (None, kb) \<Rightarrow> sc\<lparr>ps2kbd_sc := kb\<rparr>
                      | (Some val, kb) \<Rightarrow> atkbdc_kbd_queue_data (sc\<lparr>ps2kbd_sc := kb\<rparr>) val)
                else read_raw sc)
      in if (ak_ram sc 0 AND KBD_DISABLE_AUX_PORT \<noteq> 0 \<or> ps2mouse_fifocnt (ps2mouse_sc sc) = 0) \<and> kd_bcnt (ak_kbd sc) > 0
         then atkbdc_assert_kbd_intr sc else sc)"

definition atkbdc_aux_poll :: "atkbdc_softc \<Rightarrow> atkbdc_softc" where
  "atkbdc_aux_poll sc =
     (if ps2mouse_fifocnt (ps2mouse_sc sc) > 0
      then atkbdc_assert_aux_intr
             ((set_status (KBDS_AUX_BUFFER_FULL OR KBDS_KBD_BUFFER_FULL) sc)\<lparr>ak_outport := ak_outport sc OR KBDO_AUX_OUTFULL\<rparr>)
      else sc)"

definition atkbdc_kbd_poll :: "atkbdc_softc \<Rightarrow> atkbdc_softc" where
  "atkbdc_kbd_poll sc = atkbdc_kbd_read sc"

definition atkbdc_poll :: "atkbdc_softc \<Rightarrow> atkbdc_softc" where
  "atkbdc_poll sc = atkbdc_kbd_poll (atkbdc_aux_poll sc)"

text \<open>The byte read, \<open>None\<close> when \<^verbatim>\<open>*buf\<close> is not written.\<close>

definition dequeue_kbd :: "atkbdc_softc \<Rightarrow> u8 option \<times> atkbdc_softc" where
  "dequeue_kbd sc =
     (case kbd_buf_get (ak_kbd sc) of
        None \<Rightarrow> (None, sc)
      | Some (val, k) \<Rightarrow>
          let sc = sc\<lparr>ak_kbd := k\<rparr>;
              sc = (if kd_bcnt k = 0
                    then (clr_status KBDS_KBD_BUFFER_FULL sc)\<lparr>ak_outport := ak_outport sc AND NOT KBDO_KBD_OUTFULL\<rparr> else sc)
          in (Some val, atkbdc_poll sc))"

definition atkbdc_dequeue_data :: "atkbdc_softc \<Rightarrow> u8 option \<times> atkbdc_softc" where
  "atkbdc_dequeue_data sc =
     (case ps2mouse_read (ps2mouse_sc sc) of
        Some (val, mo) \<Rightarrow>
          let sc = sc\<lparr>ps2mouse_sc := mo\<rparr>;
              sc = (if ps2mouse_fifocnt mo = 0
                    then (clr_status (if kd_bcnt (ak_kbd sc) = 0 then KBDS_AUX_BUFFER_FULL OR KBDS_KBD_BUFFER_FULL
                                      else KBDS_AUX_BUFFER_FULL) sc)\<lparr>ak_outport := ak_outport sc AND NOT KBDO_AUX_OUTFULL\<rparr>
                    else sc)
          in (Some val, atkbdc_poll sc)
      | None \<Rightarrow>
          let (buf, sc) = dequeue_kbd sc
          in (buf, if ps2mouse_fifocnt (ps2mouse_sc sc) = 0 \<and> kd_bcnt (ak_kbd sc) = 0
                   then clr_status (KBDS_AUX_BUFFER_FULL OR KBDS_KBD_BUFFER_FULL) sc else sc))"

section \<open>Ports\<close>

text \<open>A byte for the controller, after one of its commands.\<close>

definition ctrl_data :: "atkbdc_softc \<Rightarrow> u32 \<Rightarrow> atkbdc_softc" where
  "ctrl_data sc eax =
     (if ak_curcmd sc = 0x60
      then (let sc = sc\<lparr>ak_ram := (ak_ram sc)(0 := ucast eax)\<rparr>
            in if ak_ram sc 0 AND KBD_SYS_FLAG_BIT \<noteq> 0 then set_status KBDS_SYS_FLAG sc else clr_status KBDS_SYS_FLAG sc)
      else if ak_curcmd sc = 0xd1 then sc\<lparr>ak_outport := ucast eax\<rparr>
      else if ak_curcmd sc = 0xd4
      then atkbdc_poll (sc\<lparr>ps2mouse_sc := ps2mouse_write (ps2mouse_sc sc) (ucast eax) False\<rparr>)
      else if ak_curcmd sc = 0xd2 then atkbdc_kbd_queue_data sc (ucast eax)
      else if ak_curcmd sc = 0xd3
      then atkbdc_aux_poll (set_status (KBDS_AUX_BUFFER_FULL OR KBDS_KBD_BUFFER_FULL)
             (sc\<lparr>ps2mouse_sc := ps2mouse_write (ps2mouse_sc sc) (ucast eax) True\<rparr>))
      else if ak_curcmd sc \<ge> 0x61 \<and> ak_curcmd sc \<le> 0x7f
      then sc\<lparr>ak_ram := (ak_ram sc)(unat ((ak_curcmd sc - 0x60) AND 0x1f) := ucast eax)\<rparr>
      else sc)"

definition data_in :: "u8 \<Rightarrow> atkbdc_softc \<Rightarrow> u32 \<times> atkbdc_softc" where
  "data_in junk sc =
     (let sc = sc\<lparr>ak_curcmd := 0\<rparr>;
          (eax, sc) = (if ak_ctrlbyte sc \<noteq> 0 then (ak_ctrlbyte sc AND 0xff, sc\<lparr>ak_ctrlbyte := 0\<rparr>)
                       else let (buf, sc) = atkbdc_dequeue_data sc in (ucast (case buf of None \<Rightarrow> junk | Some b \<Rightarrow> b), sc))
      in (eax, clr_status KBDS_CTRL_FLAG sc))"

text \<open>The result: the C return value, \<open>*eax\<close> and the state.\<close>

definition atkbdc_data_handler :: "u8 \<Rightarrow> atkbdc_softc \<Rightarrow> bool \<Rightarrow> nat \<Rightarrow> u32 \<Rightarrow> int \<times> u32 \<times> atkbdc_softc" where
  "atkbdc_data_handler junk sc inp bytes eax =
     (if bytes > 2 then (-1, eax, sc)
      else if inp then (let (eax, sc) = data_in junk sc in (0, eax, sc))
      else if ak_status sc AND KBDS_CTRL_FLAG \<noteq> 0 then (0, eax, clr_status KBDS_CTRL_FLAG ((ctrl_data sc eax)\<lparr>ak_curcmd := 0\<rparr>))
      else (0, eax, atkbdc_poll (sc\<lparr>ps2kbd_sc := ps2kbd_write (ps2kbd_sc sc) (ucast eax)\<rparr>)))"

definition ctrl_command :: "atkbdc_softc \<Rightarrow> u32 \<Rightarrow> atkbdc_softc" where
  "ctrl_command sc eax =
     (if eax = 0x20 then sc\<lparr>ak_ctrlbyte := CTRL_CMD_FLAG OR ucast (ak_ram sc 0)\<rparr>
      else if eax = 0xaa then sc\<lparr>ak_ctrlbyte := CTRL_CMD_FLAG OR 0x55\<rparr>
      else if eax = 0xa9 \<or> eax = 0xab \<or> eax = 0xc0 then sc\<lparr>ak_ctrlbyte := CTRL_CMD_FLAG OR 0\<rparr>
      else if eax = 0xd0 then sc\<lparr>ak_ctrlbyte := CTRL_CMD_FLAG OR ucast (ak_outport sc)\<rparr>
      else if eax = 0x60 \<or> eax = 0xd1 \<or> eax = 0xd2 \<or> eax = 0xd3 \<or> eax = 0xd4 then sc\<lparr>ak_curcmd := eax\<rparr>
      else if eax = 0xad then sc\<lparr>ak_ram := (ak_ram sc)(0 := ak_ram sc 0 OR KBD_DISABLE_KBD_PORT)\<rparr>
      else if eax = 0xae
      then (let sc = sc\<lparr>ak_ram := (ak_ram sc)(0 := ak_ram sc 0 AND NOT KBD_DISABLE_KBD_PORT)\<rparr>;
                sc = (if kd_bcnt (ak_kbd sc) > 0 then set_status KBDS_KBD_BUFFER_FULL sc else sc)
            in atkbdc_poll sc)
      else if eax = 0xa7
      then (let sc = sc\<lparr>ak_ram := (ak_ram sc)(0 := ak_ram sc 0 OR KBD_DISABLE_AUX_PORT),
                        ps2mouse_sc := ps2mouse_toggle (ps2mouse_sc sc) False\<rparr>;
                sc = clr_status (KBDS_AUX_BUFFER_FULL OR KBDS_KBD_BUFFER_FULL) sc
            in sc\<lparr>ak_outport := ak_outport sc AND NOT KBDS_AUX_BUFFER_FULL\<rparr>)
      else if eax = 0xa8
      then (let sc = sc\<lparr>ak_ram := (ak_ram sc)(0 := ak_ram sc 0 AND NOT KBD_DISABLE_AUX_PORT),
                        ps2mouse_sc := ps2mouse_toggle (ps2mouse_sc sc) True\<rparr>
            in if ps2mouse_fifocnt (ps2mouse_sc sc) > 0
               then set_status (KBDS_AUX_BUFFER_FULL OR KBDS_KBD_BUFFER_FULL) sc else sc)
      else if eax = 0xfe then ak_emit Suspend_reset sc
      else if eax \<ge> 0x21 \<and> eax \<le> 0x3f
      then sc\<lparr>ak_ctrlbyte := CTRL_CMD_FLAG OR ucast (ak_ram sc (unat ((eax - 0x20) AND 0x1f)))\<rparr>
      else sc)"

definition ctrl_finish :: "atkbdc_softc \<Rightarrow> atkbdc_softc" where
  "ctrl_finish sc =
     (if ak_ctrlbyte sc \<noteq> 0 then atkbdc_assert_kbd_intr (clr_status KBDS_AUX_BUFFER_FULL (set_status KBDS_KBD_BUFFER_FULL sc))
      else if ps2mouse_fifocnt (ps2mouse_sc sc) > 0 \<and> ak_ram sc 0 AND KBD_DISABLE_AUX_PORT = 0
      then atkbdc_assert_aux_intr (set_status (KBDS_AUX_BUFFER_FULL OR KBDS_KBD_BUFFER_FULL) sc)
      else if kd_bcnt (ak_kbd sc) > 0 \<and> ak_ram sc 0 AND KBD_DISABLE_KBD_PORT = 0
      then atkbdc_assert_kbd_intr (set_status KBDS_KBD_BUFFER_FULL sc)
      else sc)"

definition atkbdc_sts_ctl_handler :: "atkbdc_softc \<Rightarrow> bool \<Rightarrow> nat \<Rightarrow> u32 \<Rightarrow> int \<times> u32 \<times> atkbdc_softc" where
  "atkbdc_sts_ctl_handler sc inp bytes eax =
     (if bytes \<noteq> 1 then (-1, eax, sc)
      else if inp then (0, ucast (ak_status sc), sc)
      else let sc = (set_status KBDS_CTRL_FLAG sc)\<lparr>ak_curcmd := 0, ak_ctrlbyte := 0\<rparr>
           in (0, eax, ctrl_finish (ctrl_command sc eax)))"

section \<open>Events of the devices\<close>

definition atkbdc_event :: "atkbdc_softc \<Rightarrow> bool \<Rightarrow> atkbdc_softc" where
  "atkbdc_event sc iskbd = (if iskbd then atkbdc_kbd_poll sc else atkbdc_aux_poll sc)"

definition key_event :: "atkbdc_softc \<Rightarrow> bool \<Rightarrow> u32 \<Rightarrow> atkbdc_softc" where
  "key_event sc down keysym =
     (let (call, kb) = ps2kbd_event (ps2kbd_sc sc) down keysym; sc = sc\<lparr>ps2kbd_sc := kb\<rparr>
      in if call then atkbdc_event sc True else sc)"

definition mouse_event :: "atkbdc_softc \<Rightarrow> u8 \<Rightarrow> int \<Rightarrow> int \<Rightarrow> atkbdc_softc" where
  "mouse_event sc button x y =
     (let (call, mo) = ps2mouse_event (ps2mouse_sc sc) button x y; sc = sc\<lparr>ps2mouse_sc := mo\<rparr>
      in if call then atkbdc_event sc False else sc)"

definition atkbdc_init :: atkbdc_softc where
  "atkbdc_init = \<lparr>ps2kbd_sc = ps2kbd_init, ps2mouse_sc = ps2mouse_init, ak_status = 0, ak_outport = 0, ak_ram = (\<lambda>_. 0),
     ak_curcmd = 0, ak_ctrlbyte = 0,
     ak_kbd = \<lparr>kd_irq_active = False, kd_buffer = (\<lambda>_. 0), kd_brd = 0, kd_bwr = 0, kd_bcnt = 0\<rparr>,
     aux_irq_active = False, ak_events = []\<rparr>"

section \<open>The keyboard buffer\<close>

definition kd_ok :: "kbd_dev \<Rightarrow> bool" where
  "kd_ok k \<longleftrightarrow> kd_bcnt k \<le> 15 \<and> kd_brd k < 15 \<and> kd_bwr k = (kd_brd k + kd_bcnt k) mod 15"

definition kd_list :: "kbd_dev \<Rightarrow> u8 list" where
  "kd_list k = map (\<lambda>i. kd_buffer k ((kd_brd k + i) mod 15)) [0..<kd_bcnt k]"

lemma length_kd_list [simp]: "length (kd_list k) = kd_bcnt k"
  by (simp add: kd_list_def)

lemma kbd_buf_get_next:
  assumes "kd_ok k" "kd_list k = x # xs"
  shows "\<exists>k'. kbd_buf_get k = Some (x, k') \<and> kd_ok k' \<and> kd_list k' = xs"
proof -
  have n: "kd_bcnt k = Suc (length xs)" using arg_cong [OF assms(2), of length] by simp
  have s: "((kd_brd k + 1) mod 15 + i) mod 15 = (kd_brd k + Suc i) mod 15" for i by (simp add: mod_simps)
  have "kd_list k = kd_buffer k (kd_brd k) # map (\<lambda>i. kd_buffer k ((kd_brd k + Suc i) mod 15)) [0..<length xs]"
    using assms(1) by (simp add: kd_list_def n kd_ok_def upt_conv_Cons map_Suc_upt [symmetric] del: upt_Suc map_Suc_upt)
  then show ?thesis using assms s [of "kd_bcnt k - 1"] unfolding kbd_buf_get_def
    by (auto simp: n kd_list_def kd_ok_def s mod_simps)
qed

interpretation kd: byte_fifo kbd_buf_put kbd_buf_get kd_list "\<lambda>_. 15" kd_ok
proof
  fix s :: kbd_dev and c x xs
  assume ok: "kd_ok s"
  show "kd_ok (kbd_buf_put s c)" using ok by (auto simp: kd_ok_def kbd_buf_put_def mod_simps)
  show "kd_list (kbd_buf_put s c) = (if length (kd_list s) < 15 then kd_list s @ [c] else kd_list s)"
    using ok ring_slot_inj [of _ "kd_bcnt s" 15 "kd_brd s"] by (simp add: kd_list_def kbd_buf_put_def kd_ok_def)
  show "kd_list s = [] \<Longrightarrow> kbd_buf_get s = None" by (simp add: kd_list_def kbd_buf_get_def)
  show "kd_list s = x # xs \<Longrightarrow> \<exists>s'. kbd_buf_get s = Some (x, s') \<and> kd_ok s' \<and> (15::nat) = 15 \<and> kd_list s' = xs"
    using kbd_buf_get_next [OF ok] by simp
  show "length (kd_list s) \<le> 15" using ok by (simp add: kd_ok_def)
qed simp

section \<open>The invariant\<close>

definition ak_inv :: "atkbdc_softc \<Rightarrow> bool" where
  "ak_inv sc \<longleftrightarrow> kd_ok (ak_kbd sc) \<and> kb_ok (ps2kbd_sc sc) \<and> mo_ok (ps2mouse_sc sc) \<and> (\<forall>n > 0. ak_ram sc n = 0) \<and>
     (ak_curcmd sc = 0 \<or> ak_curcmd sc = 0x60 \<or> ak_curcmd sc \<in> {0xd1, 0xd2, 0xd3, 0xd4})"

lemma kd_ok_irq [simp]: "kd_ok (k\<lparr>kd_irq_active := b\<rparr>) = kd_ok k" "kd_list (k\<lparr>kd_irq_active := b\<rparr>) = kd_list k"
  by (simp_all add: kd_ok_def kd_list_def)

lemma ak_inv_upd [simp]:
  "ak_inv (sc\<lparr>ak_status := v\<rparr>) = ak_inv sc" "ak_inv (sc\<lparr>ak_outport := v\<rparr>) = ak_inv sc" "ak_inv (sc\<lparr>ak_ctrlbyte := w\<rparr>) = ak_inv sc"
  "ak_inv (sc\<lparr>aux_irq_active := b\<rparr>) = ak_inv sc" "ak_inv (ak_emit e sc) = ak_inv sc" "ak_inv (set_status v sc) = ak_inv sc"
  "ak_inv (clr_status v sc) = ak_inv sc"
  by (simp_all add: ak_inv_def ak_emit_def set_status_def clr_status_def)

lemma ak_inv_parts:
  "ak_inv sc \<Longrightarrow> kd_ok k \<Longrightarrow> ak_inv (sc\<lparr>ak_kbd := k\<rparr>)" "ak_inv sc \<Longrightarrow> kb_ok kb \<Longrightarrow> ak_inv (sc\<lparr>ps2kbd_sc := kb\<rparr>)"
  "ak_inv sc \<Longrightarrow> mo_ok mo \<Longrightarrow> ak_inv (sc\<lparr>ps2mouse_sc := mo\<rparr>)" "ak_inv sc \<Longrightarrow> ak_inv (sc\<lparr>ak_ram := (ak_ram sc)(0 := v)\<rparr>)"
  "ak_inv sc \<Longrightarrow> ak_inv (sc\<lparr>ak_curcmd := 0\<rparr>)"
  by (simp_all add: ak_inv_def)

lemma ak_inv_dest:
  assumes "ak_inv sc"
  shows "kd_ok (ak_kbd sc)" "kb_ok (ps2kbd_sc sc)" "mo_ok (ps2mouse_sc sc)"
  using assms by (simp_all add: ak_inv_def)

lemma intr_inv: "ak_inv sc \<Longrightarrow> ak_inv (atkbdc_assert_kbd_intr sc)" "ak_inv sc \<Longrightarrow> ak_inv (atkbdc_assert_aux_intr sc)"
  by (simp_all add: atkbdc_assert_kbd_intr_def atkbdc_assert_aux_intr_def ak_inv_parts ak_inv_dest)

lemma queue_inv: "ak_inv sc \<Longrightarrow> ak_inv (atkbdc_kbd_queue_data sc v)"
  using ak_inv_parts(1) [of sc "kbd_buf_put (ak_kbd sc) v"] kd.ok_put ak_inv_dest
  by (simp add: atkbdc_kbd_queue_data_def)

lemma read_translated_ok: "kb_ok kb \<Longrightarrow> kb_ok (snd (read_translated kb r))"
proof (induction kb r rule: read_translated.induct)
  case (1 kb r)
  show ?case
  proof (cases rule: kb.get_cases [OF "1.prems"])
    case 1
    then show ?thesis using "1.prems" by (subst read_translated.simps) simp
  next
    case (2 x kb')
    then show ?thesis using "1.IH" [of "(x, kb')" x kb'] by (subst read_translated.simps) simp
  qed
qed

lemma read_raw_inv: "ak_inv sc \<Longrightarrow> ak_inv (read_raw sc)"
proof (induction sc rule: read_raw.induct)
  case (1 sc)
  have kb: "kb_ok (ps2kbd_sc sc)" by (rule ak_inv_dest [OF "1.prems"])
  show ?case
  proof (cases rule: kb.get_cases [OF kb])
    case 1
    then show ?thesis using "1.prems" by (subst read_raw.simps) simp
  next
    case (2 x kb')
    then show ?thesis using "1.IH" [of "(x, kb')" x kb'] "1.prems" queue_inv [OF ak_inv_parts(2) [OF "1.prems", of kb']]
      by (subst read_raw.simps) simp
  qed
qed

lemma kbd_read_inv: "ak_inv sc \<Longrightarrow> ak_inv (atkbdc_kbd_read sc)"
proof -
  assume i: "ak_inv sc"
  obtain r kb where r: "read_translated (ps2kbd_sc sc) 0 = (r, kb)" by fastforce
  have "ak_inv (sc\<lparr>ps2kbd_sc := kb\<rparr>)" using ak_inv_parts(2) [OF i] read_translated_ok [OF ak_inv_dest(2) [OF i], of 0] r by simp
  then show ?thesis using i r read_raw_inv [OF i] queue_inv
    by (auto simp: atkbdc_kbd_read_def Let_def intr_inv split: option.split)
qed

lemma poll_inv: "ak_inv sc \<Longrightarrow> ak_inv (atkbdc_aux_poll sc)" "ak_inv sc \<Longrightarrow> ak_inv (atkbdc_poll sc)"
  by (simp_all add: atkbdc_aux_poll_def atkbdc_poll_def atkbdc_kbd_poll_def intr_inv kbd_read_inv)

lemma dequeue_inv: "ak_inv sc \<Longrightarrow> ak_inv (snd (atkbdc_dequeue_data sc))"
proof -
  assume i: "ak_inv sc"
  have k: "ak_inv (snd (dequeue_kbd sc))"
  proof (cases rule: kd.get_cases [OF ak_inv_dest(1) [OF i]])
    case 1
    then show ?thesis using i by (simp add: dequeue_kbd_def)
  next
    case (2 x k')
    then show ?thesis using ak_inv_parts(1) [OF i 2(2)] by (simp add: dequeue_kbd_def Let_def poll_inv)
  qed
  show ?thesis
  proof (cases rule: mo.get_cases [OF ak_inv_dest(3) [OF i]])
    case 1
    then show ?thesis using k by (simp add: atkbdc_dequeue_data_def case_prod_beta)
  next
    case (2 x mo')
    then show ?thesis using ak_inv_parts(3) [OF i 2(2)] by (simp add: atkbdc_dequeue_data_def Let_def poll_inv)
  qed
qed

lemma ctrl_data_inv: "ak_inv sc \<Longrightarrow> ak_inv ((ctrl_data sc eax)\<lparr>ak_curcmd := 0\<rparr>)"
proof -
  assume i: "ak_inv sc"
  have c: "ak_curcmd sc \<in> {0, 0x60, 0xd1, 0xd2, 0xd3, 0xd4}" using i by (auto simp: ak_inv_def)
  have m: "ak_inv (sc\<lparr>ps2mouse_sc := ps2mouse_write (ps2mouse_sc sc) v b\<rparr>)" for v b by (rule ak_inv_parts(3) [OF i ps2mouse_write_ok])
  have "ak_inv (ctrl_data sc eax)"
    using i m c unfolding ctrl_data_def by (auto simp: Let_def poll_inv queue_inv ak_inv_parts(4))
  then show ?thesis by (rule ak_inv_parts(5))
qed

lemma data_handler_inv: "ak_inv sc \<Longrightarrow> ak_inv (snd (snd (atkbdc_data_handler junk sc inp bytes eax)))"
proof -
  assume i: "ak_inv sc"
  have "ak_inv (snd (data_in junk sc))"
    using ak_inv_parts(5) [OF i] dequeue_inv [OF ak_inv_parts(5) [OF i]] by (simp add: data_in_def Let_def case_prod_beta)
  moreover have "ak_inv (atkbdc_poll (sc\<lparr>ps2kbd_sc := ps2kbd_write (ps2kbd_sc sc) v\<rparr>))" for v
    by (intro poll_inv ak_inv_parts(2) i ps2kbd_write_ok ak_inv_dest(2) [OF i])
  ultimately show ?thesis using i ctrl_data_inv [OF i] by (simp add: atkbdc_data_handler_def case_prod_beta)
qed

lemma ctrl_command_inv: "ak_inv sc \<Longrightarrow> ak_inv (ctrl_command sc eax)"
proof -
  assume i: "ak_inv sc"
  have r: "ak_inv (sc\<lparr>ak_ram := (ak_ram sc)(0 := v)\<rparr>)" for v by (rule ak_inv_parts(4) [OF i])
  have m: "ak_inv (sc\<lparr>ak_ram := (ak_ram sc)(0 := v), ps2mouse_sc := ps2mouse_toggle (ps2mouse_sc sc) b\<rparr>)" for v b
    by (rule ak_inv_parts(3) [OF r]) (rule ps2mouse_toggle_ok [OF ak_inv_dest(3) [OF i]])
  have c: "ak_inv (sc\<lparr>ak_curcmd := eax\<rparr>)" if "eax = 0x60 \<or> eax = 0xd1 \<or> eax = 0xd2 \<or> eax = 0xd3 \<or> eax = 0xd4"
    using i that by (auto simp: ak_inv_def)
  show ?thesis using i r m c unfolding ctrl_command_def by (simp add: Let_def poll_inv)
qed

lemma sts_handler_inv: "ak_inv sc \<Longrightarrow> ak_inv (snd (snd (atkbdc_sts_ctl_handler sc inp bytes eax)))"
proof -
  assume i: "ak_inv sc"
  have "ak_inv (ctrl_finish sc)" if "ak_inv sc" for sc using that by (simp add: ctrl_finish_def intr_inv)
  moreover have "ak_inv ((set_status 8 sc)\<lparr>ak_curcmd := 0, ak_ctrlbyte := 0\<rparr>)" using i ak_inv_parts(5) [of "set_status 8 sc"] by simp
  ultimately show ?thesis using i ctrl_command_inv by (simp add: atkbdc_sts_ctl_handler_def Let_def)
qed

text \<open>One access of the guest or one event of a device.\<close>

datatype kbdc_op = Data_port u8 bool nat u32 | Ctl_port bool nat u32 | Key bool u32 | Mouse u8 int int

primrec kbdc_exec :: "kbdc_op \<Rightarrow> atkbdc_softc \<Rightarrow> atkbdc_softc" where
  "kbdc_exec (Data_port junk inp bytes eax) sc = snd (snd (atkbdc_data_handler junk sc inp bytes eax))"
| "kbdc_exec (Ctl_port inp bytes eax) sc = snd (snd (atkbdc_sts_ctl_handler sc inp bytes eax))"
| "kbdc_exec (Key down keysym) sc = key_event sc down keysym"
| "kbdc_exec (Mouse button x y) sc = mouse_event sc button x y"

lemma kbdc_exec_inv: "ak_inv sc \<Longrightarrow> ak_inv (kbdc_exec p sc)"
proof (cases p)
  case (Key down keysym)
  assume i: "ak_inv sc"
  show ?thesis using Key ak_inv_parts(2) [OF i ps2kbd_event_ok [OF ak_inv_dest(2) [OF i]]]
    by (simp add: key_event_def atkbdc_event_def atkbdc_kbd_poll_def case_prod_beta Let_def kbd_read_inv)
next
  case (Mouse button x y)
  assume i: "ak_inv sc"
  show ?thesis using Mouse ak_inv_parts(3) [OF i ps2mouse_event_ok [OF ak_inv_dest(3) [OF i]]]
    by (simp add: mouse_event_def atkbdc_event_def case_prod_beta Let_def poll_inv)
qed (simp_all add: data_handler_inv sts_handler_inv)

lemma init_inv: "ak_inv atkbdc_init"
  by (simp add: ak_inv_def atkbdc_init_def kd_ok_def ps2_init_ok)

text \<open>Whatever the guest writes to the two ports and whatever keys and mouse movements arrive, the indices of the
  three queues stay inside their arrays. The controller's RAM beyond the command byte is never written: the data
  handler decodes the commands 61h to 7Fh, but the command handler never records them.\<close>

theorem atkbdc_reachable_ok:
  "let sc = fold kbdc_exec ps atkbdc_init; k = ak_kbd sc; kb = kb_fifo (ps2kbd_sc sc); mo = mo_fifo (ps2mouse_sc sc)
   in kd_brd k < 15 \<and> kd_bwr k < 15 \<and> kd_bcnt k \<le> 15 \<and>
      f_rindex kb < 16 \<and> f_windex kb < 16 \<and> f_num kb \<le> 16 \<and> f_rindex mo < 16 \<and> f_windex mo < 16 \<and> f_num mo \<le> 16 \<and>
      ak_ram sc = (\<lambda>_. 0)(0 := ak_ram sc 0)"
proof -
  have "ak_inv (fold kbdc_exec ps sc)" if "ak_inv sc" for sc using that by (induction ps arbitrary: sc) (simp_all add: kbdc_exec_inv)
  then have "ak_inv (fold kbdc_exec ps atkbdc_init)" using init_inv by blast
  then show ?thesis by (auto simp: Let_def ak_inv_def kd_ok_def kb_ok_def mo_ok_def fifo_ok_def)
qed

section \<open>Keys on their way to the guest\<close>

text \<open>The controller translates, no mouse byte and no response of the controller is pending, \<open>bs\<close> is in its buffer and
  \<open>ks\<close> in the keyboard's queue, and the status register says whether the buffer has a byte.\<close>

definition kstate :: "atkbdc_softc \<Rightarrow> u8 list \<Rightarrow> u8 list \<Rightarrow> bool" where
  "kstate sc bs ks \<longleftrightarrow> ak_inv sc \<and> ak_ram sc 0 AND KBD_TRANSLATION \<noteq> 0 \<and> kb_enabled (ps2kbd_sc sc) \<and>
     f_num (mo_fifo (ps2mouse_sc sc)) = 0 \<and> ak_ctrlbyte sc = 0 \<and> kd_list (ak_kbd sc) = bs \<and> kb_list (ps2kbd_sc sc) = ks \<and>
     (ak_status sc AND KBDS_KBD_BUFFER_FULL \<noteq> 0 \<longleftrightarrow> bs \<noteq> [])"

text \<open>The set 1 codes of a queue of set 2 codes.\<close>

fun set1 :: "u8 \<Rightarrow> u8 list \<Rightarrow> u8 list" where
  "set1 r [] = []"
| "set1 r (c # cs) = (if c = 0xf0 then set1 0x80 cs else (translation ! unat c OR r) # set1 0 cs)"

text \<open>A queue that holds whole sequences only: no break prefix without its code.\<close>

fun whole :: "u8 list \<Rightarrow> bool" where
  "whole [] = True"
| "whole [c] = (c \<noteq> 0xf0)"
| "whole (c # d # cs) = (if c = 0xf0 then d \<noteq> 0xf0 \<and> whole cs else whole (d # cs))"

lemma set1_append: "whole ks \<Longrightarrow> set1 0 (ks @ ls) = set1 0 ks @ set1 0 ls"
  by (induction ks rule: whole.induct) auto

lemma whole_append: "whole ks \<Longrightarrow> whole ls \<Longrightarrow> whole (ks @ ls)"
proof (induction ks rule: whole.induct)
  case (2 c)
  then show ?case by (cases ls) auto
qed (auto split: if_splits)

lemma set1_length: "length (set1 r ks) \<le> length ks"
  by (induction r ks rule: set1.induct) auto

lemma kbd_next:
  assumes "kb_ok kb" "kb_list kb = c # cs"
  obtains kb' where "ps2kbd_read kb = Some (c, kb')" "kb_ok kb'" "kb_list kb' = cs" "kb_enabled kb' = kb_enabled kb"
proof -
  obtain kb' where "ps2kbd_read kb = Some (c, kb')" "kb_ok kb'" "kb_list kb' = cs" using kb.get_next [OF assms] by blast
  moreover from this have "kb_enabled kb' = kb_enabled kb" by (auto simp: ps2kbd_read_def)
  ultimately show ?thesis by (rule that)
qed

lemma read_translated_next:
  assumes "kb_ok kb" "whole (kb_list kb)" "kb_list kb \<noteq> []"
  obtains v kb' where "read_translated kb 0 = (Some v, kb')" "kb_ok kb'" "kb_enabled kb' = kb_enabled kb" "whole (kb_list kb')"
    "set1 0 (kb_list kb) = v # set1 0 (kb_list kb')" "length (kb_list kb') < length (kb_list kb)"
proof -
  obtain c cs where l: "kb_list kb = c # cs" using assms(3) by (cases "kb_list kb") auto
  obtain k1 where k1: "ps2kbd_read kb = Some (c, k1)" "kb_ok k1" "kb_list k1 = cs" "kb_enabled k1 = kb_enabled kb"
    using kbd_next [OF assms(1) l] by blast
  show ?thesis
  proof (cases "c = 0xf0")
    case True
    then obtain d ds where ds: "cs = d # ds" "d \<noteq> 0xf0" "whole ds" using assms(2) l by (cases cs) auto
    obtain k2 where k2: "ps2kbd_read k1 = Some (d, k2)" "kb_ok k2" "kb_list k2 = ds" "kb_enabled k2 = kb_enabled k1"
      using kbd_next [OF k1(2), of d ds] k1(3) ds(1) by blast
    have "read_translated kb 0 = (Some (translation ! unat d OR 0x80), k2)"
      using k1 k2 ds True by (simp add: read_translated.simps)
    then show ?thesis using that k1 k2 ds l True by simp
  next
    case False
    then have "read_translated kb 0 = (Some (translation ! unat c OR 0), k1)" using k1 by (simp add: read_translated.simps)
    moreover have "whole cs" using assms(2) l False by (cases cs) auto
    ultimately show ?thesis using that k1 l False by simp
  qed
qed

lemma read_translated_empty: "kb_ok kb \<Longrightarrow> kb_list kb = [] \<Longrightarrow> read_translated kb 0 = (None, kb)"
  by (simp add: read_translated.simps kb.get_empty)

lemma assert_kstate: "kstate sc bs ks \<Longrightarrow> kstate (atkbdc_assert_kbd_intr sc) bs ks"
  using intr_inv(1) [of sc] by (auto simp: kstate_def atkbdc_assert_kbd_intr_def ak_emit_def)

lemma kstate_fullness: "kstate sc bs ks \<Longrightarrow> kd_bcnt (ak_kbd sc) = length bs"
  unfolding kstate_def by (metis length_kd_list)

lemma queue_kstate:
  assumes "kstate sc bs ks" "length bs < 15" "kb_ok kb" "kb_enabled kb"
  shows "kstate (atkbdc_kbd_queue_data (sc\<lparr>ps2kbd_sc := kb\<rparr>) v) (bs @ [v]) (kb_list kb)"
proof -
  let ?sc = "sc\<lparr>ps2kbd_sc := kb\<rparr>"
  have i: "ak_inv ?sc" "kd_ok (ak_kbd sc)" using assms by (auto simp: kstate_def ak_inv_def)
  have "(x OR 1) AND 1 \<noteq> 0" for x :: u8 by (simp add: bit.conj_disj_distrib2)
  then show ?thesis using queue_inv [OF i(1), of v] kd.contents_put [OF i(2), of v] assms kstate_fullness [OF assms(1)]
    by (simp add: kstate_def atkbdc_kbd_queue_data_def set_status_def)
qed

lemma kbd_read_kstate:
  assumes "kstate sc bs ks" "whole ks" "length bs < 15"
  obtains bs' ks' where "kstate (atkbdc_kbd_read sc) bs' ks'" "whole ks'" "bs' @ set1 0 ks' = bs @ set1 0 ks"
    "length bs' + length ks' \<le> length bs + length ks" "bs' = [] \<longrightarrow> ks' = []"
proof -
  have k: "kb_ok (ps2kbd_sc sc)" "kb_enabled (ps2kbd_sc sc)" "kb_list (ps2kbd_sc sc) = ks" "ak_ram sc 0 AND KBD_TRANSLATION \<noteq> 0"
    using assms(1) by (auto simp: kstate_def ak_inv_def)
  show ?thesis
  proof (cases "ks = []")
    case True
    then have "read_translated (ps2kbd_sc sc) 0 = (None, ps2kbd_sc sc)" using k by (simp add: read_translated_empty)
    then have "atkbdc_kbd_read sc \<in> {sc, atkbdc_assert_kbd_intr sc}" using k by (simp add: atkbdc_kbd_read_def Let_def)
    then have "kstate (atkbdc_kbd_read sc) bs ks" using assms(1) assert_kstate by auto
    then show ?thesis by (rule that) (simp_all add: True)
  next
    case False
    then obtain v kb' where r: "read_translated (ps2kbd_sc sc) 0 = (Some v, kb')" "kb_ok kb'" "kb_enabled kb'" "whole (kb_list kb')"
      "set1 0 ks = v # set1 0 (kb_list kb')" "length (kb_list kb') < length ks"
      using read_translated_next [OF k(1)] k(2,3) assms(2) by metis
    let ?sc = "atkbdc_kbd_queue_data (sc\<lparr>ps2kbd_sc := kb'\<rparr>) v"
    have "atkbdc_kbd_read sc \<in> {?sc, atkbdc_assert_kbd_intr ?sc}" using k r by (simp add: atkbdc_kbd_read_def Let_def)
    then have "kstate (atkbdc_kbd_read sc) (bs @ [v]) (kb_list kb')"
      using queue_kstate [OF assms(1,3) r(2,3)] assert_kstate by auto
    then show ?thesis by (rule that) (use r in simp_all)
  qed
qed

lemma aux_poll_kstate: "kstate sc bs ks \<Longrightarrow> atkbdc_aux_poll sc = sc"
  by (simp add: kstate_def atkbdc_aux_poll_def ps2mouse_fifocnt_def)

text \<open>How much is queued; the buffer is never empty while the keyboard has codes.\<close>

definition kqueue :: "atkbdc_softc \<Rightarrow> u8 list \<Rightarrow> nat \<Rightarrow> bool" where
  "kqueue sc out n \<longleftrightarrow> (\<exists>bs ks. kstate sc bs ks \<and> whole ks \<and> bs @ set1 0 ks = out \<and> length bs + length ks \<le> n \<and> (bs = [] \<longrightarrow> ks = []))"

lemma kbd_read_kqueue:
  assumes "kstate sc bs ks" "whole ks" "length bs < 15" "length bs + length ks \<le> n"
  shows "kqueue (atkbdc_kbd_read sc) (bs @ set1 0 ks) n"
proof -
  obtain bs' ks' where k: "kstate (atkbdc_kbd_read sc) bs' ks'" "whole ks'" "bs' @ set1 0 ks' = bs @ set1 0 ks"
    "length bs' + length ks' \<le> length bs + length ks" "bs' = [] \<longrightarrow> ks' = []"
    by (rule kbd_read_kstate [OF assms(1-3)])
  have "length bs' + length ks' \<le> n" using k(4) assms(4) by (rule le_trans)
  then show ?thesis unfolding kqueue_def using k(1-3,5) by blast
qed

lemma kqueue_mono: "kqueue sc out m \<Longrightarrow> m \<le> n \<Longrightarrow> kqueue sc out n"
  unfolding kqueue_def using le_trans by blast

lemma clr_kstate: "kstate sc bs ks \<Longrightarrow> kstate (clr_status KBDS_CTRL_FLAG sc) bs ks"
proof -
  have "(x AND NOT 8) AND 1 = x AND 1" for x :: u8 by (simp add: and.assoc)
  then show "kstate sc bs ks \<Longrightarrow> kstate (clr_status KBDS_CTRL_FLAG sc) bs ks" by (simp add: kstate_def clr_status_def)
qed

lemma clr_empty_kstate: "kstate sc [] ks \<Longrightarrow> kstate (clr_status 0x21 sc) [] ks"
proof -
  have "(x AND NOT 0x21) AND 1 = 0" for x :: u8 by (simp add: and.assoc)
  then show "kstate sc [] ks \<Longrightarrow> kstate (clr_status 0x21 sc) [] ks"
    by (simp add: kstate_def clr_status_def)
qed

lemma dequeue_next:
  assumes "kstate sc (b # bs) ks"
  obtains sc' where "atkbdc_dequeue_data sc = (Some b,
      let sc'' = atkbdc_kbd_read sc' in if kd_bcnt (ak_kbd sc'') = 0 \<and> ps2mouse_fifocnt (ps2mouse_sc sc'') = 0
        then clr_status 0x21 sc'' else sc'')"
    "kstate sc' bs ks"
proof -
  have f: "kd_ok (ak_kbd sc)" "kd_list (ak_kbd sc) = b # bs" "mo_ok (ps2mouse_sc sc)" "mo_list (ps2mouse_sc sc) = []" "ak_inv sc"
    using assms by (auto simp: kstate_def ak_inv_def mo_list_def fifo_list_def)
  obtain k where k: "kbd_buf_get (ak_kbd sc) = Some (b, k)" "kd_ok k" "kd_list k = bs" using kd.get_next [OF f(1,2)] by blast
  let ?sc = "sc\<lparr>ak_kbd := k\<rparr>"
  let ?sc' = "if kd_bcnt k = 0 then (clr_status KBDS_KBD_BUFFER_FULL ?sc)\<lparr>ak_outport := ak_outport ?sc AND NOT KBDO_KBD_OUTFULL\<rparr> else ?sc"
  have z: "kd_bcnt k = 0 \<longleftrightarrow> bs = []" using k(3) by (metis length_kd_list length_0_conv)
  have "(x AND NOT 1) AND 1 = 0" for x :: u8 by (simp add: and.assoc)
  then have s: "kstate ?sc' bs ks"
    using assms k(2,3) z ak_inv_parts(1) [OF f(5) k(2)] by (simp add: kstate_def clr_status_def)
  have "atkbdc_dequeue_data sc = (Some b,
      let sc'' = atkbdc_kbd_read ?sc' in if kd_bcnt (ak_kbd sc'') = 0 \<and> ps2mouse_fifocnt (ps2mouse_sc sc'') = 0
        then clr_status 0x21 sc'' else sc'')"
    using k(1) mo.get_empty [OF f(3,4)] aux_poll_kstate [OF s]
    by (simp add: atkbdc_dequeue_data_def dequeue_kbd_def Let_def atkbdc_poll_def atkbdc_kbd_poll_def conj_commute)
  then show ?thesis using that s by blast
qed

lemma kqueue_clear:
  assumes "kqueue sc out n"
  shows "kqueue (if kd_bcnt (ak_kbd sc) = 0 \<and> p then clr_status 0x21 sc else sc) out n"
proof -
  obtain bs ks where k: "kstate sc bs ks" "whole ks" "bs @ set1 0 ks = out" "length bs + length ks \<le> n" "bs = [] \<longrightarrow> ks = []"
    using assms unfolding kqueue_def by blast
  have "kd_bcnt (ak_kbd sc) = 0 \<longleftrightarrow> bs = []" using kstate_fullness [OF k(1)] by simp
  then show ?thesis using k clr_empty_kstate [of sc ks] unfolding kqueue_def by auto
qed

lemma data_in_kqueue:
  assumes "kqueue sc out n" "n \<le> 15" "out \<noteq> []"
  shows "\<exists>sc'. data_in junk sc = (ucast (hd out), sc') \<and> kqueue sc' (tl out) (n - 1)"
proof -
  obtain bs ks where k: "kstate sc bs ks" "whole ks" "bs @ set1 0 ks = out" "length bs + length ks \<le> n" "bs = [] \<longrightarrow> ks = []"
    using assms(1) unfolding kqueue_def by blast
  obtain c cs where b: "bs = c # cs" using k(3,5) assms(3) by (cases bs) auto
  let ?sc = "sc\<lparr>ak_curcmd := 0\<rparr>"
  have "kstate ?sc (c # cs) ks" using k(1) ak_inv_parts(5) by (simp add: kstate_def b)
  then obtain sc1 where d: "atkbdc_dequeue_data ?sc = (Some c,
      let sc'' = atkbdc_kbd_read sc1 in if kd_bcnt (ak_kbd sc'') = 0 \<and> ps2mouse_fifocnt (ps2mouse_sc sc'') = 0
        then clr_status 0x21 sc'' else sc'')" and s: "kstate sc1 cs ks"
    using dequeue_next by blast
  have "kqueue (atkbdc_kbd_read sc1) (cs @ set1 0 ks) (n - 1)"
    by (rule kbd_read_kqueue [OF s k(2)]) (use k(4) assms(2) b in auto)
  from kqueue_clear [OF this, of "ps2mouse_fifocnt (ps2mouse_sc (atkbdc_kbd_read sc1)) = 0"]
  have "kqueue (snd (atkbdc_dequeue_data ?sc)) (tl out) (n - 1)" unfolding d Let_def using k(3) b by auto
  then have "kqueue (clr_status KBDS_CTRL_FLAG (snd (atkbdc_dequeue_data ?sc))) (tl out) (n - 1)"
    unfolding kqueue_def using clr_kstate by blast
  then show ?thesis using d k(1) b by (simp add: data_in_def Let_def kstate_def flip: k(3))
qed

lemma keysym_code_plain: "keysym_code keysym = Some (code, e0) \<Longrightarrow> code \<noteq> 0xf0"
proof -
  assume a: "keysym_code keysym = Some (code, e0)"
  have l: "list_all (\<lambda>c. c \<noteq> 0xf0) ascii_translations" "length ascii_translations = 128"
    and x: "list_all (\<lambda>(_, c, _). c \<noteq> 0xf0) extended_translations"
    by (simp_all add: ascii_translations_def extended_translations_def)
  show ?thesis
  proof (cases "keysym < 0x80")
    case True
    then have "unat keysym < 128" by (simp add: word_less_nat_alt)
    then show ?thesis using l a True by (auto simp: keysym_code_def list_all_length)
  next
    case False
    then obtain k where "find (\<lambda>(k, _). k = keysym) extended_translations = Some (k, code, e0)" using a by (auto simp: keysym_code_def)
    then have "(k, code, e0) \<in> set extended_translations" by (auto simp: find_Some_iff in_set_conv_nth)
    then show ?thesis using x by (auto simp: list_all_iff)
  qed
qed

text \<open>The set 1 sequence of a key: the prefix E0h for an extended key, then its code with the top bit set for a release.\<close>

definition key_set1 :: "bool \<Rightarrow> u32 \<Rightarrow> u8 list" where
  "key_set1 down keysym =
     (case keysym_code keysym of
        None \<Rightarrow> []
      | Some (code, e0) \<Rightarrow> (if e0 then [0xe0] else []) @ [translation ! unat code OR (if down then 0 else 0x80)])"

lemma key_bytes_whole: "whole (key_bytes down keysym)" "set1 0 (key_bytes down keysym) = key_set1 down keysym"
  "length (key_bytes down keysym) \<le> 3" "length (key_set1 down keysym) \<le> 2"
proof -
  have "translation ! 224 = 0xe0" by (simp add: translation_def)
  then show "whole (key_bytes down keysym)" "set1 0 (key_bytes down keysym) = key_set1 down keysym"
    "length (key_bytes down keysym) \<le> 3" "length (key_set1 down keysym) \<le> 2"
    using keysym_code_plain [of keysym] by (auto simp: key_bytes_def key_set1_def split: option.split)
qed

lemma key_event_kqueue:
  assumes "kqueue sc out n" "n \<le> 12"
  shows "kqueue (key_event sc down keysym) (out @ key_set1 down keysym) (n + 3)"
proof -
  obtain bs ks where k: "kstate sc bs ks" "whole ks" "bs @ set1 0 ks = out" "length bs + length ks \<le> n" "bs = [] \<longrightarrow> ks = []"
    using assms(1) unfolding kqueue_def by blast
  let ?kb = "ps2kbd_keysym_queue (ps2kbd_sc sc) down keysym" and ?ks = "ks @ key_bytes down keysym"
  have f: "kb_ok (ps2kbd_sc sc)" "kb_list (ps2kbd_sc sc) = ks" "kb_enabled (ps2kbd_sc sc)" "ak_inv sc"
    using k(1) by (auto simp: kstate_def ak_inv_def)
  have n: "f_num (kb_fifo (ps2kbd_sc sc)) = length ks" using f(2) by (simp add: kb_list_def fifo_list_def flip: f(2))
  have e: "ps2kbd_event (ps2kbd_sc sc) down keysym = (True, ?kb)" using f(3) n k(4) assms(2) by (simp add: ps2kbd_event_def)
  have "kb_ok ?kb" "kb_enabled ?kb" using ps2kbd_event_ok [OF f(1), of down keysym] e f(3)
    by (simp_all add: ps2kbd_keysym_queue_def kbd_put_def Let_def split: option.split)
  moreover have "kb_list ?kb = ?ks" using keysym_queue_list [OF f(1), of down keysym] f(2) k(4) assms(2) key_bytes_whole(3) [of down keysym]
    by simp
  ultimately have s: "kstate (sc\<lparr>ps2kbd_sc := ?kb\<rparr>) bs ?ks" using k(1) ak_inv_parts(2) [OF f(4)] by (simp add: kstate_def)
  have "kqueue (atkbdc_kbd_read (sc\<lparr>ps2kbd_sc := ?kb\<rparr>)) (bs @ set1 0 ?ks) (n + 3)"
    by (rule kbd_read_kqueue [OF s whole_append]) (use k(2,4) assms(2) key_bytes_whole(1,3) [of down keysym] in auto)
  moreover have "bs @ set1 0 ?ks = out @ key_set1 down keysym" using k(2,3) set1_append key_bytes_whole(2) by simp
  ultimately show ?thesis by (simp add: key_event_def e Let_def atkbdc_event_def atkbdc_kbd_poll_def)
qed

text \<open>A guest that reads the data port when the status port says there is a byte.\<close>

datatype kbd_op = Key_event bool u32 | Poll_port u8

definition poll_port :: "u8 \<Rightarrow> atkbdc_softc \<Rightarrow> u8 list \<times> atkbdc_softc" where
  "poll_port junk sc =
     (let (_, status, sc) = atkbdc_sts_ctl_handler sc True 1 0
      in if bit status 0 then (let (_, eax, sc) = atkbdc_data_handler junk sc True 1 0 in ([ucast eax], sc)) else ([], sc))"

fun kbd_run :: "kbd_op list \<Rightarrow> atkbdc_softc \<Rightarrow> u8 list \<times> atkbdc_softc" where
  "kbd_run [] sc = ([], sc)"
| "kbd_run (Key_event down keysym # ps) sc = kbd_run ps (key_event sc down keysym)"
| "kbd_run (Poll_port junk # ps) sc = (let (bs, sc) = poll_port junk sc; (cs, sc) = kbd_run ps sc in (bs @ cs, sc))"

fun keys_of :: "kbd_op list \<Rightarrow> (bool \<times> u32) list" where
  "keys_of [] = []"
| "keys_of (Key_event down keysym # ps) = (down, keysym) # keys_of ps"
| "keys_of (Poll_port junk # ps) = keys_of ps"

lemma poll_port_kqueue:
  assumes "kqueue sc out n" "n \<le> 15"
  shows "fst (poll_port junk sc) = take 1 out \<and> kqueue (snd (poll_port junk sc)) (drop 1 out) n"
proof -
  obtain bs ks where k: "kstate sc bs ks" "bs @ set1 0 ks = out" "bs = [] \<longrightarrow> ks = []"
    using assms(1) unfolding kqueue_def by blast
  have st: "bit (ak_status sc) 0 \<longleftrightarrow> out \<noteq> []" using k by (auto simp: kstate_def and_one_eq odd_iff_mod_2_eq_one bit_0 split: if_splits)
  show ?thesis
  proof (cases "out = []")
    case True
    then show ?thesis using st assms(1) by (simp add: poll_port_def atkbdc_sts_ctl_handler_def bit_ucast_iff)
  next
    case False
    obtain sc' where d: "data_in junk sc = (ucast (hd out), sc')" "kqueue sc' (tl out) (n - 1)"
      using data_in_kqueue [OF assms False] by blast
    from kqueue_mono [OF d(2) diff_le_self] have "kqueue sc' (tl out) n" .
    moreover have "ucast (ucast (hd out) :: u32) = hd out" by (rule bit_word_eqI) (simp add: bit_ucast_iff)
    ultimately show ?thesis using d st False by (cases out) (simp_all add: poll_port_def atkbdc_sts_ctl_handler_def atkbdc_data_handler_def bit_ucast_iff)
  qed
qed

lemma kbd_run_kqueue:
  assumes "kqueue sc out n" "n + 3 * length (keys_of ps) \<le> 15"
  shows "\<exists>rest. fst (kbd_run ps sc) @ rest = out @ concat (map (\<lambda>(d, k). key_set1 d k) (keys_of ps)) \<and>
    kqueue (snd (kbd_run ps sc)) rest (n + 3 * length (keys_of ps))"
  using assms
proof (induction ps arbitrary: sc out n)
  case Nil
  then show ?case by simp
next
  case (Cons p ps)
  show ?case
  proof (cases p)
    case (Key_event down keysym)
    then show ?thesis using Cons.IH [OF key_event_kqueue [OF Cons.prems(1)], of down keysym] Cons.prems(2) by (simp add: add.assoc)
  next
    case (Poll_port junk)
    then show ?thesis using Cons.IH [of "snd (poll_port junk sc)" "drop 1 out" n] poll_port_kqueue [OF Cons.prems(1), of junk] Cons.prems(2)
      by (cases out) (auto simp: case_prod_beta)
  qed
qed

lemma kbd_run_append: "kbd_run (ps @ qs) sc = (let (bs, sc) = kbd_run ps sc; (cs, sc) = kbd_run qs sc in (bs @ cs, sc))"
proof (induction ps arbitrary: sc)
  case (Cons p ps)
  then show ?case by (cases p) (simp_all add: Let_def case_prod_beta)
qed simp

lemma polls_drain:
  assumes "kqueue sc out n" "n \<le> 15" "length out \<le> length junk"
  shows "fst (kbd_run (map Poll_port junk) sc) = out \<and> kqueue (snd (kbd_run (map Poll_port junk) sc)) [] n"
  using assms
proof (induction junk arbitrary: sc out)
  case Nil
  then show ?case by simp
next
  case (Cons j junk)
  then show ?case using Cons.IH [of "snd (poll_port j sc)" "drop 1 out"] poll_port_kqueue [OF Cons.prems(1,2), of j]
    by (cases out) (auto simp: case_prod_beta)
qed

lemma keys_length: "length (concat (map (\<lambda>(down, keysym). key_set1 down keysym) ks)) \<le> 2 * length ks"
proof (induction ks)
  case (Cons k ks)
  then show ?case using key_bytes_whole(4) [of "fst k" "snd k"] by (simp add: case_prod_beta)
qed simp


text \<open>A controller whose guest has switched translation on and enabled the keyboard.\<close>

definition kbd_ready :: atkbdc_softc where
  "kbd_ready = atkbdc_init\<lparr>ak_ram := (\<lambda>_. 0)(0 := 0x41), ps2kbd_sc := ps2kbd_init\<lparr>kb_enabled := True\<rparr>\<rparr>"



end
