(* ===== verification/Vcpu.thy ===== *)
theory Vcpu
  imports Prelude "HOL-Library.Monad_Syntax"
begin

text \<open>
  The state of one virtual processor that the emulation code of \<^verbatim>\<open>vmm/vmm.c\<close> works on: the registers and segment
  descriptors that the hardware backend holds, the address of the next instruction, and the events waiting for the next
  entry into the guest. A panic or a failed \<^verbatim>\<open>KASSERT\<close> is \<open>None\<close>. The checks of the vcpu number against
  the number of vcpus are left out: the operations are those of a vcpu that exists.
\<close>

section \<open>State\<close>

datatype vm_reg_name =
    VM_REG_GUEST_RAX | VM_REG_GUEST_RBX | VM_REG_GUEST_RCX | VM_REG_GUEST_RDX | VM_REG_GUEST_RSI | VM_REG_GUEST_RDI
  | VM_REG_GUEST_RBP | VM_REG_GUEST_R8 | VM_REG_GUEST_R9 | VM_REG_GUEST_R10 | VM_REG_GUEST_R11 | VM_REG_GUEST_R12
  | VM_REG_GUEST_R13 | VM_REG_GUEST_R14 | VM_REG_GUEST_R15 | VM_REG_GUEST_CR0 | VM_REG_GUEST_CR2 | VM_REG_GUEST_RSP
  | VM_REG_GUEST_RIP | VM_REG_GUEST_RFLAGS | VM_REG_GUEST_ES | VM_REG_GUEST_CS | VM_REG_GUEST_SS | VM_REG_GUEST_DS
  | VM_REG_GUEST_FS | VM_REG_GUEST_GS | VM_REG_GUEST_LDTR | VM_REG_GUEST_TR | VM_REG_GUEST_IDTR | VM_REG_GUEST_GDTR
  | VM_REG_GUEST_INTR_SHADOW | VM_REG_LAST

record seg_desc =
  sd_base :: u64
  sd_limit :: u32
  sd_access :: u32

datatype vcpu_state = VCPU_IDLE | VCPU_FROZEN | VCPU_RUNNING | VCPU_SLEEPING

datatype vcpu_event = Suspend_triplefault | Notify_event

record vcpu =
  vc_regs :: "vm_reg_name \<Rightarrow> u64"
  vc_segs :: "vm_reg_name \<Rightarrow> seg_desc"
  vc_state :: vcpu_state
  nextrip :: u64
  exit_inst_length :: nat
  exitintinfo :: u64
  exception_pending :: bool
  exc_vector :: nat
  exc_errcode :: u32
  exc_errcode_valid :: bool
  nmi_pending :: bool
  extint_pending :: bool
  vc_events :: "vcpu_event list"

abbreviation (input) EBUSY :: int where "EBUSY \<equiv> 16"
abbreviation (input) EFAULT :: int where "EFAULT \<equiv> 14"
abbreviation (input) CR0_PE :: u64 where "CR0_PE \<equiv> 1"
abbreviation (input) IDT_DE :: nat where "IDT_DE \<equiv> 0"
abbreviation (input) IDT_NMI :: nat where "IDT_NMI \<equiv> 2"
abbreviation (input) IDT_DF :: nat where "IDT_DF \<equiv> 8"
abbreviation (input) IDT_TS :: nat where "IDT_TS \<equiv> 10"
abbreviation (input) IDT_NP :: nat where "IDT_NP \<equiv> 11"
abbreviation (input) IDT_SS :: nat where "IDT_SS \<equiv> 12"
abbreviation (input) IDT_GP :: nat where "IDT_GP \<equiv> 13"
abbreviation (input) IDT_PF :: nat where "IDT_PF \<equiv> 14"
abbreviation (input) IDT_AC :: nat where "IDT_AC \<equiv> 17"
abbreviation (input) IDT_VE :: nat where "IDT_VE \<equiv> 20"
abbreviation (input) VM_INTINFO_DEL_ERRCODE :: u64 where "VM_INTINFO_DEL_ERRCODE \<equiv> 0x800"
abbreviation (input) VM_INTINFO_RSVD :: u64 where "VM_INTINFO_RSVD \<equiv> 0x7ffff000"
abbreviation (input) VM_INTINFO_VALID :: u64 where "VM_INTINFO_VALID \<equiv> 0x80000000"
abbreviation (input) VM_INTINFO_TYPE :: u64 where "VM_INTINFO_TYPE \<equiv> 0x700"
abbreviation (input) VM_INTINFO_HWINTR :: u64 where "VM_INTINFO_HWINTR \<equiv> 0"
abbreviation (input) VM_INTINFO_NMI :: u64 where "VM_INTINFO_NMI \<equiv> 0x200"
abbreviation (input) VM_INTINFO_HWEXCEPTION :: u64 where "VM_INTINFO_HWEXCEPTION \<equiv> 0x300"
abbreviation (input) VM_INTINFO_SWINTR :: u64 where "VM_INTINFO_SWINTR \<equiv> 0x400"

section \<open>Registers\<close>

text \<open>\<^verbatim>\<open>VMGETREG\<close> and \<^verbatim>\<open>VMSETREG\<close> of the backend are the register file of the state.\<close>

definition vm_get_register :: "vcpu \<Rightarrow> vm_reg_name \<Rightarrow> int \<times> u64" where
  "vm_get_register vc reg = (if reg = VM_REG_LAST then (EINVAL, 0) else (0, vc_regs vc reg))"

definition vm_set_register :: "vcpu \<Rightarrow> vm_reg_name \<Rightarrow> u64 \<Rightarrow> int \<times> vcpu" where
  "vm_set_register vc reg val =
     (if reg = VM_REG_LAST then (EINVAL, vc)
      else let vc = vc\<lparr>vc_regs := (vc_regs vc)(reg := val)\<rparr>
           in if reg \<noteq> VM_REG_GUEST_RIP then (0, vc) else (0, vc\<lparr>nextrip := val\<rparr>))"

definition is_descriptor_table :: "vm_reg_name \<Rightarrow> bool" where
  "is_descriptor_table reg \<longleftrightarrow> reg = VM_REG_GUEST_IDTR \<or> reg = VM_REG_GUEST_GDTR"

definition is_segment_register :: "vm_reg_name \<Rightarrow> bool" where
  "is_segment_register reg \<longleftrightarrow>
     reg \<in> {VM_REG_GUEST_ES, VM_REG_GUEST_CS, VM_REG_GUEST_SS, VM_REG_GUEST_DS, VM_REG_GUEST_FS, VM_REG_GUEST_GS,
            VM_REG_GUEST_TR, VM_REG_GUEST_LDTR}"

definition vm_get_seg_desc :: "vcpu \<Rightarrow> vm_reg_name \<Rightarrow> int \<times> seg_desc" where
  "vm_get_seg_desc vc reg =
     (if \<not> is_segment_register reg \<and> \<not> is_descriptor_table reg then (EINVAL, \<lparr>sd_base = 0, sd_limit = 0, sd_access = 0\<rparr>)
      else (0, vc_segs vc reg))"

definition vm_set_seg_desc :: "vcpu \<Rightarrow> vm_reg_name \<Rightarrow> seg_desc \<Rightarrow> int \<times> vcpu" where
  "vm_set_seg_desc vc reg desc =
     (if \<not> is_segment_register reg \<and> \<not> is_descriptor_table reg then (EINVAL, vc)
      else (0, vc\<lparr>vc_segs := (vc_segs vc)(reg := desc)\<rparr>))"

definition vm_restart_instruction :: "vcpu \<Rightarrow> vcpu option" where
  "vm_restart_instruction vc =
     (if vc_state vc = VCPU_RUNNING then Some (vc\<lparr>exit_inst_length := 0\<rparr>)
      else if vc_state vc = VCPU_FROZEN then Some (vc\<lparr>nextrip := vc_regs vc VM_REG_GUEST_RIP\<rparr>)
      else None)"

section \<open>Events for the next entry\<close>

definition vm_exit_intinfo :: "vcpu \<Rightarrow> u64 \<Rightarrow> int \<times> vcpu" where
  "vm_exit_intinfo vc info =
     (if info AND VM_INTINFO_VALID \<noteq> 0
      then let type = info AND VM_INTINFO_TYPE; vector = unat (info AND 0xff)
           in if type = VM_INTINFO_NMI \<and> vector \<noteq> IDT_NMI then (EINVAL, vc)
              else if type = VM_INTINFO_HWEXCEPTION \<and> vector \<ge> 32 then (EINVAL, vc)
              else if info AND VM_INTINFO_RSVD \<noteq> 0 then (EINVAL, vc)
              else (0, vc\<lparr>exitintinfo := info\<rparr>)
      else (0, vc\<lparr>exitintinfo := 0\<rparr>))"

datatype exc_class = EXC_BENIGN | EXC_CONTRIBUTORY | EXC_PAGEFAULT

definition exception_class :: "u64 \<Rightarrow> exc_class option" where
  "exception_class info =
     (if info AND VM_INTINFO_VALID = 0 then None
      else let type = info AND VM_INTINFO_TYPE; vector = unat (info AND 0xff)
           in Some (if type = VM_INTINFO_HWINTR \<or> type = VM_INTINFO_SWINTR \<or> type = VM_INTINFO_NMI then EXC_BENIGN
                    else if vector = IDT_PF \<or> vector = IDT_VE then EXC_PAGEFAULT
                    else if vector \<in> {IDT_DE, IDT_TS, IDT_NP, IDT_SS, IDT_GP} then EXC_CONTRIBUTORY
                    else EXC_BENIGN))"

text \<open>The result: whether an event is valid, and the event.\<close>

definition nested_fault :: "vcpu \<Rightarrow> u64 \<Rightarrow> u64 \<Rightarrow> (bool \<times> u64 \<times> vcpu) option" where
  "nested_fault vc info1 info2 =
     (if info1 AND VM_INTINFO_VALID = 0 \<or> info2 AND VM_INTINFO_VALID = 0 then None
      else if info1 AND VM_INTINFO_TYPE = VM_INTINFO_HWEXCEPTION \<and> unat (info1 AND 0xff) = IDT_DF
      then Some (False, 0, vc\<lparr>vc_events := vc_events vc @ [Suspend_triplefault]\<rparr>)
      else do {
        exc1 \<leftarrow> exception_class info1;
        exc2 \<leftarrow> exception_class info2;
        Some (True,
              if exc1 = EXC_CONTRIBUTORY \<and> exc2 = EXC_CONTRIBUTORY \<or> exc1 = EXC_PAGEFAULT \<and> exc2 \<noteq> EXC_BENIGN
              then of_nat IDT_DF OR (VM_INTINFO_VALID OR VM_INTINFO_HWEXCEPTION) OR VM_INTINFO_DEL_ERRCODE
              else info2, vc)
      })"

definition vcpu_exception_intinfo :: "vcpu \<Rightarrow> u64" where
  "vcpu_exception_intinfo vc =
     (if exception_pending vc
      then let info = (of_nat (exc_vector vc) AND 0xff) OR (VM_INTINFO_VALID OR VM_INTINFO_HWEXCEPTION)
           in if exc_errcode_valid vc then (info OR VM_INTINFO_DEL_ERRCODE) OR push_bit 32 (ucast (exc_errcode vc)) else info
      else 0)"

definition vm_entry_intinfo :: "vcpu \<Rightarrow> (bool \<times> u64 \<times> vcpu) option" where
  "vm_entry_intinfo vc =
     (let info1 = exitintinfo vc; vc = vc\<lparr>exitintinfo := 0\<rparr>;
          info2 = (if exception_pending vc then vcpu_exception_intinfo vc else 0);
          vc = (if exception_pending vc then vc\<lparr>exception_pending := False\<rparr> else vc)
      in if info1 AND VM_INTINFO_VALID \<noteq> 0 \<and> info2 AND VM_INTINFO_VALID \<noteq> 0 then nested_fault vc info1 info2
         else if info1 AND VM_INTINFO_VALID \<noteq> 0 then Some (True, info1, vc)
         else if info2 AND VM_INTINFO_VALID \<noteq> 0 then Some (True, info2, vc)
         else Some (False, 0, vc))"

definition vm_get_intinfo :: "vcpu \<Rightarrow> u64 \<times> u64" where
  "vm_get_intinfo vc = (exitintinfo vc, vcpu_exception_intinfo vc)"

definition vm_inject_exception :: "vcpu \<Rightarrow> int \<Rightarrow> bool \<Rightarrow> u32 \<Rightarrow> bool \<Rightarrow> (int \<times> vcpu) option" where
  "vm_inject_exception vc vector errcode_valid errcode restart_instruction =
     (if vector < 0 \<or> vector \<ge> 32 then Some (EINVAL, vc)
      else if vector = int IDT_DF then Some (EINVAL, vc)
      else if exception_pending vc then Some (EBUSY, vc)
      else let errcode_valid = (errcode_valid \<and> vc_regs vc VM_REG_GUEST_CR0 AND CR0_PE \<noteq> 0);
               vc = snd (vm_set_register vc VM_REG_GUEST_INTR_SHADOW 0)
           in do {
             vc \<leftarrow> (if restart_instruction then vm_restart_instruction vc else Some vc);
             Some (0, vc\<lparr>exception_pending := True, exc_vector := nat vector, exc_errcode := errcode,
                        exc_errcode_valid := errcode_valid\<rparr>)
           })"

definition vm_inject_fault :: "vcpu \<Rightarrow> nat \<Rightarrow> bool \<Rightarrow> u32 \<Rightarrow> vcpu option" where
  "vm_inject_fault vc vector errcode_valid errcode = do {
     (error, vc) \<leftarrow> vm_inject_exception vc (int vector) errcode_valid errcode True;
     if error \<noteq> 0 then None else Some vc
   }"

definition vm_inject_pf :: "vcpu \<Rightarrow> u32 \<Rightarrow> u64 \<Rightarrow> vcpu option" where
  "vm_inject_pf vc error_code cr2 =
     vm_inject_fault (snd (vm_set_register vc VM_REG_GUEST_CR2 cr2)) IDT_PF True error_code"

definition vm_inject_nmi :: "vcpu \<Rightarrow> vcpu" where
  "vm_inject_nmi vc = vc\<lparr>nmi_pending := True, vc_events := vc_events vc @ [Notify_event]\<rparr>"

definition vm_nmi_clear :: "vcpu \<Rightarrow> vcpu option" where
  "vm_nmi_clear vc = (if \<not> nmi_pending vc then None else Some (vc\<lparr>nmi_pending := False\<rparr>))"

definition vm_inject_extint :: "vcpu \<Rightarrow> vcpu" where
  "vm_inject_extint vc = vc\<lparr>extint_pending := True, vc_events := vc_events vc @ [Notify_event]\<rparr>"

definition vm_extint_clear :: "vcpu \<Rightarrow> vcpu option" where
  "vm_extint_clear vc = (if \<not> extint_pending vc then None else Some (vc\<lparr>extint_pending := False\<rparr>))"

section \<open>Which event reaches the guest\<close>

text \<open>An event as the processor manual describes it. Software exceptions of VT-x count as exceptions.\<close>

datatype vm_event = Hw_intr nat | Sw_intr nat | Nmi nat | Exception nat "u32 option"

definition event_of :: "u64 \<Rightarrow> vm_event option" where
  "event_of info =
     (if \<not> bit info 31 then None
      else let vector = unat (info AND 0xff); type = info AND VM_INTINFO_TYPE
           in Some (if type = VM_INTINFO_HWINTR then Hw_intr vector
                    else if type = VM_INTINFO_SWINTR then Sw_intr vector
                    else if type = VM_INTINFO_NMI then Nmi vector
                    else Exception vector (if bit info 11 then Some (ucast (drop_bit 32 info)) else None)))"

text \<open>The exception a vcpu has been asked to take.\<close>

definition pending_event :: "vcpu \<Rightarrow> vm_event option" where
  "pending_event vc =
     (if exception_pending vc then Some (Exception (exc_vector vc) (if exc_errcode_valid vc then Some (exc_errcode vc) else None)) else None)"

definition contributory :: "vm_event \<Rightarrow> bool" where
  "contributory e = (case e of Exception v _ \<Rightarrow> v \<in> {0, 10, 11, 12, 13} | _ \<Rightarrow> False)"

definition page_fault :: "vm_event \<Rightarrow> bool" where
  "page_fault e = (case e of Exception v _ \<Rightarrow> v \<in> {14, 20} | _ \<Rightarrow> False)"

datatype delivery = Deliver "vm_event option" | Shutdown

text \<open>The table of double faults: the second event arises while the first is being delivered.\<close>

definition deliver :: "vm_event option \<Rightarrow> vm_event option \<Rightarrow> delivery" where
  "deliver first second =
     (case (first, second) of
        (Some e1, Some e2) \<Rightarrow>
          if (\<exists>c \<in> set_option (case e1 of Exception v c \<Rightarrow> Some v | _ \<Rightarrow> None). c = 8) then Shutdown
          else if contributory e1 \<and> contributory e2 \<or> page_fault e1 \<and> (contributory e2 \<or> page_fault e2)
          then Deliver (Some (Exception 8 (Some 0)))
          else Deliver second
      | (Some e1, None) \<Rightarrow> Deliver first
      | (None, _) \<Rightarrow> Deliver second)"

text \<open>What the operations of this theory keep: the saved event is absent or well formed, the pending exception is one that
  may be injected.\<close>

definition intinfo_ok :: "vcpu \<Rightarrow> bool" where
  "intinfo_ok vc \<longleftrightarrow> (exitintinfo vc = 0 \<or>
       bit (exitintinfo vc) 31 \<and> exitintinfo vc AND VM_INTINFO_RSVD = 0 \<and>
       (exitintinfo vc AND VM_INTINFO_TYPE = VM_INTINFO_NMI \<longrightarrow> unat (exitintinfo vc AND 0xff) = 2)) \<and>
     (exception_pending vc \<longrightarrow> exc_vector vc < 32 \<and> exc_vector vc \<noteq> 8)"

lemma intinfo_valid_bit [simp]: "(info AND VM_INTINFO_VALID \<noteq> 0) = bit info 31" "(info AND VM_INTINFO_VALID = 0) = (\<not> bit info 31)" for info :: u64
proof -
  have "(0x80000000 :: u64) = push_bit 31 1" by simp
  then show "(info AND VM_INTINFO_VALID \<noteq> 0) = bit info 31" using and_push_bit_1_neq_0 [of info 31] by (simp only:)
  then show "(info AND VM_INTINFO_VALID = 0) = (\<not> bit info 31)" by blast
qed

lemma exit_intinfo_ok: "intinfo_ok vc \<Longrightarrow> intinfo_ok (snd (vm_exit_intinfo vc info))"
  by (auto simp: intinfo_ok_def vm_exit_intinfo_def Let_def)

lemma inject_exception_ok: "intinfo_ok vc \<Longrightarrow> vm_inject_exception vc v b e r = Some (error, vc') \<Longrightarrow> intinfo_ok vc'"
  by (auto simp: vm_inject_exception_def Let_def intinfo_ok_def vm_set_register_def vm_restart_instruction_def split: if_splits)

lemma high_half:
  fixes e :: u32 and m :: u64
  assumes "m < 0x100000000"
  shows "push_bit 32 (ucast e) AND m = 0" "drop_bit 32 (x AND m) = (0 :: u64)"
proof -
  have "unat m < 2 ^ (n + 32)" for n
    by (rule less_le_trans [of "unat m" "2 ^ 32"]) (use assms in \<open>simp_all add: word_less_nat_alt power_add\<close>)
  then have "\<not> bit (unat m) (n + 32)" for n by (simp add: bit_iff_odd)
  then have b: "\<not> bit m (n + 32)" for n by (simp add: bit_unsigned_iff)
  show "push_bit 32 (ucast e) AND m = 0" by (rule bit_word_eqI) (use b in \<open>auto simp: bit_and_iff bit_push_bit_iff le_iff_add add.commute\<close>)
  show "drop_bit 32 (x AND m) = (0 :: u64)" by (rule bit_word_eqI) (use b in \<open>auto simp: bit_and_iff bit_drop_bit_eq add.commute\<close>)
qed

lemma high_half_value: "ucast (drop_bit 32 (push_bit 32 (ucast e) :: u64)) = e" for e :: u32
  by (rule bit_word_eqI) (auto simp: bit_ucast_iff bit_drop_bit_eq bit_push_bit_iff)

lemma vector_byte: "v < 32 \<Longrightarrow> unat (of_nat v AND 0xff :: u64) = v"
  using unat_and_mask [of "of_nat v :: u64" 8] by (simp add: mask_eq_exp_minus_1 unsigned_of_nat take_bit_eq_mod)

lemma event_of_exception:
  fixes errcode :: u32
  assumes "v < 32"
  shows "event_of ((of_nat v AND 0xff) OR 0x80000300) = Some (Exception v None)"
    "event_of (((of_nat v AND 0xff) OR 0x80000300 OR 0x800) OR push_bit 32 (ucast errcode)) = Some (Exception v (Some errcode))"
  using vector_byte [OF assms]
  by (simp_all add: event_of_def Let_def bit_or_iff bit_and_iff bit_push_bit_iff bit.conj_disj_distrib2 and.assoc drop_bit_or high_half high_half_value)

lemma event_of_zero [simp]: "event_of 0 = None"
  by (simp add: event_of_def)

lemma event_of_pending: "intinfo_ok vc \<Longrightarrow> event_of (vcpu_exception_intinfo vc) = pending_event vc"
  using event_of_exception(1) [where v = "exc_vector vc"] event_of_exception(2) [where v = "exc_vector vc" and errcode = "exc_errcode vc"]
  by (auto simp: vcpu_exception_intinfo_def pending_event_def intinfo_ok_def Let_def or.assoc)

lemma event_of_valid: "bit info 31 \<longleftrightarrow> event_of info \<noteq> None"
  by (simp add: event_of_def Let_def)

lemma exception_class_event:
  assumes "event_of info = Some e"
  shows "exception_class info =
    Some (if contributory e then EXC_CONTRIBUTORY else if page_fault e then EXC_PAGEFAULT else EXC_BENIGN)"
  using assms by (auto simp: exception_class_def event_of_def Let_def contributory_def page_fault_def split: if_splits)

lemma nested_fault_event:
  assumes "event_of info1 = Some e1" "event_of info2 = Some e2" "info1 AND VM_INTINFO_TYPE \<in> {0, 0x200, 0x300, 0x400}"
  shows "\<exists>valid info vc'. nested_fault vc info1 info2 = Some (valid, info, vc') \<and>
    (case deliver (Some e1) (Some e2) of
       Shutdown \<Rightarrow> \<not> valid \<and> vc' = vc\<lparr>vc_events := vc_events vc @ [Suspend_triplefault]\<rparr>
     | Deliver e \<Rightarrow> valid \<and> event_of info = e \<and> vc' = vc)"
proof -
  have v: "bit info1 31" "bit info2 31" using assms(1,2) event_of_valid by auto
  have df: "event_of 0x80000b08 = Some (Exception 8 (Some 0))" by (simp add: event_of_def)
  define isdf where "isdf \<longleftrightarrow> (\<exists>c. e1 = Exception 8 c)"
  define dbl where "dbl \<longleftrightarrow> contributory e1 \<and> contributory e2 \<or> page_fault e1 \<and> (contributory e2 \<or> page_fault e2)"
  have i: "info1 AND 0x700 = 0x300 \<and> unat (info1 AND 0xff) = 8 \<longleftrightarrow> isdf"
    using assms(1,3) by (auto simp: event_of_def Let_def isdf_def split: if_splits)
  have x: "\<not> (contributory e \<and> page_fault e)" for e by (auto simp: contributory_def page_fault_def split: vm_event.split)
  have nf: "nested_fault vc info1 info2 =
      (if isdf then Some (False, 0, vc\<lparr>vc_events := vc_events vc @ [Suspend_triplefault]\<rparr>) else Some (True, if dbl then 0x80000b08 else info2, vc))"
    using v x [of e1] x [of e2] exception_class_event [OF assms(1)] exception_class_event [OF assms(2)]
    unfolding nested_fault_def i dbl_def by simp
  have dl: "deliver (Some e1) (Some e2) = (if isdf then Shutdown else if dbl then Deliver (Some (Exception 8 (Some 0))) else Deliver (Some e2))"
    by (simp add: deliver_def isdf_def dbl_def split: vm_event.split)
  show ?thesis using df assms(2) unfolding nf dl by auto
qed

text \<open>C5. Before every entry into the guest the event saved at the last exit and the exception pending since are combined as
  the processor's table of double faults says: each alone is delivered unchanged with its vector and error code, two of
  them give the second, a double fault, or, when the first is itself a double fault, the shutdown of the machine. Both
  are consumed, and the code cannot reach one of its panics.\<close>

theorem entry_delivers_event:
  assumes "intinfo_ok vc" "exitintinfo vc AND VM_INTINFO_TYPE \<in> {0, VM_INTINFO_NMI, VM_INTINFO_HWEXCEPTION, VM_INTINFO_SWINTR}"
  shows "\<exists>valid info vc'. vm_entry_intinfo vc = Some (valid, info, vc') \<and> exitintinfo vc' = 0 \<and> \<not> exception_pending vc' \<and>
    (case deliver (event_of (exitintinfo vc)) (pending_event vc) of
       Shutdown \<Rightarrow> \<not> valid \<and> vc_events vc' = vc_events vc @ [Suspend_triplefault]
     | Deliver e \<Rightarrow> (if valid then event_of info else None) = e \<and> vc_events vc' = vc_events vc)"
proof -
  let ?vc = "vc\<lparr>exitintinfo := 0, exception_pending := False\<rparr>"
  define info2 where "info2 = (if exception_pending vc then vcpu_exception_intinfo vc else 0)"
  have i2: "event_of info2 = pending_event vc"
  proof (cases "exception_pending vc")
    case True
    then show ?thesis using event_of_pending [OF assms(1)] by (simp add: info2_def)
  next
    case False
    then show ?thesis by (simp add: pending_event_def info2_def)
  qed
  have eq: "vm_entry_intinfo vc =
     (if bit (exitintinfo vc) 31 \<and> bit info2 31 then nested_fault ?vc (exitintinfo vc) info2
      else if bit (exitintinfo vc) 31 then Some (True, exitintinfo vc, ?vc)
      else if bit info2 31 then Some (True, info2, ?vc) else Some (False, 0, ?vc))"
    by (cases "exception_pending vc") (simp_all add: vm_entry_intinfo_def Let_def vcpu_exception_intinfo_def info2_def)
  show ?thesis
  proof (cases "event_of (exitintinfo vc)"; cases "pending_event vc")
    fix e1 e2
    assume e: "event_of (exitintinfo vc) = Some e1" "pending_event vc = Some e2"
    then have "bit (exitintinfo vc) 31" "bit info2 31" using event_of_valid i2 by auto
    then show ?thesis using nested_fault_event [of "exitintinfo vc" e1 info2 e2 ?vc] e i2 assms(2) unfolding eq
      by (fastforce split: delivery.splits)
  next
    assume e: "event_of (exitintinfo vc) = None" "pending_event vc = None"
    then have "\<not> bit (exitintinfo vc) 31" "\<not> bit info2 31" using event_of_valid i2 by auto
    then show ?thesis unfolding eq e by (auto simp: deliver_def)
  next
    fix e2
    assume e: "event_of (exitintinfo vc) = None" "pending_event vc = Some e2"
    then have "\<not> bit (exitintinfo vc) 31" "bit info2 31" using event_of_valid i2 by auto
    then show ?thesis unfolding eq e using i2 e by (auto simp: deliver_def)
  next
    fix e1
    assume e: "event_of (exitintinfo vc) = Some e1" "pending_event vc = None"
    then have "bit (exitintinfo vc) 31" "\<not> bit info2 31" using event_of_valid i2 by auto
    then show ?thesis unfolding eq e using e by (auto simp: deliver_def)
  qed
qed

text \<open>A vcpu at its creation.\<close>

definition vcpu_fresh :: vcpu where
  "vcpu_fresh = \<lparr>vc_regs = (\<lambda>_. 0), vc_segs = (\<lambda>_. \<lparr>sd_base = 0, sd_limit = 0xffff, sd_access = 0x93\<rparr>), vc_state = VCPU_FROZEN,
     nextrip = 0, exit_inst_length = 0, exitintinfo = 0, exception_pending = False, exc_vector = 0, exc_errcode = 0,
     exc_errcode_valid = False, nmi_pending = False, extint_pending = False, vc_events = []\<rparr>"

theorem entry_delivers_event_witness:
  "\<exists>vc info vc'. vm_entry_intinfo (vcpu_fresh\<lparr>exitintinfo := 0x80000b0e, exception_pending := True, exc_vector := 13\<rparr>) = Some (True, info, vc') \<and>
     event_of info = Some (Exception 8 (Some 0))"
proof -
  let ?vc = "vcpu_fresh\<lparr>exitintinfo := 0x80000b0e, exception_pending := True, exc_vector := 13\<rparr>"
  have ok: "intinfo_ok ?vc" "exitintinfo ?vc AND 0x700 \<in> {0, 0x200, 0x300, 0x400}" by (simp_all add: intinfo_ok_def vcpu_fresh_def)
  have "deliver (event_of (exitintinfo ?vc)) (pending_event ?vc) = Deliver (Some (Exception 8 (Some 0)))"
    by (simp add: event_of_def pending_event_def vcpu_fresh_def deliver_def contributory_def page_fault_def)
  then show ?thesis using entry_delivers_event [OF ok] by (auto split: if_splits)
qed

end
