(* ===== verification/Vm_Mem.thy ===== *)
theory Vm_Mem
  imports Vcpu
begin

text \<open>
  The guest address space of \<^verbatim>\<open>vmm/vmm.c\<close>: memory segments, their mappings at guest physical addresses and the
  lookups that the emulation code makes. The host's virtual memory system is reached through \<^verbatim>\<open>vm_map_find\<close>,
  \<^verbatim>\<open>vm_map_wire\<close> and \<^verbatim>\<open>vm_fault_quick_hold_pages\<close>, which are the fields of \<open>vm_host\<close>.
\<close>

section \<open>State\<close>

record mem_seg =
  ms_len :: u64
  ms_sysmem :: bool
  ms_object :: bool

record mem_map =
  mm_gpa :: u64
  mm_len :: u64
  mm_segoff :: u64
  mm_segid :: nat
  mm_prot :: u32
  mm_flags :: u32

record vm_mem =
  mem_maps :: "nat \<Rightarrow> mem_map"
  mem_segs :: "nat \<Rightarrow> mem_seg"

text \<open>Whether the host can allocate an object, map it at an address, wire a range, and hold a page of the guest for a kind of access.\<close>

record vm_host =
  host_alloc :: "u64 \<Rightarrow> bool"
  host_map_find :: "vm_mem \<Rightarrow> u64 \<Rightarrow> u64 \<Rightarrow> bool"
  host_map_wire :: "u64 \<Rightarrow> u64 \<Rightarrow> int"
  host_hold :: "u64 \<Rightarrow> u32 \<Rightarrow> bool"

abbreviation (input) VM_MAX_MEMSEGS :: nat where "VM_MAX_MEMSEGS \<equiv> 3"
abbreviation (input) VM_MAX_MEMMAPS :: nat where "VM_MAX_MEMMAPS \<equiv> 8"
abbreviation (input) PAGE_MASK :: u64 where "PAGE_MASK \<equiv> 0xfff"
abbreviation (input) PAGE_SIZE :: nat where "PAGE_SIZE \<equiv> 4096"
abbreviation (input) ENOENT :: int where "ENOENT \<equiv> 2"
abbreviation (input) ENOMEM :: int where "ENOMEM \<equiv> 12"
abbreviation (input) EEXIST :: int where "EEXIST \<equiv> 17"
abbreviation (input) ENOSPC :: int where "ENOSPC \<equiv> 28"
abbreviation (input) KERN_RESOURCE_SHORTAGE :: int where "KERN_RESOURCE_SHORTAGE \<equiv> 6"

definition seg_zero :: mem_seg where
  "seg_zero = \<lparr>ms_len = 0, ms_sysmem = False, ms_object = False\<rparr>"

definition map_zero :: mem_map where
  "map_zero = \<lparr>mm_gpa = 0, mm_len = 0, mm_segoff = 0, mm_segid = 0, mm_prot = 0, mm_flags = 0\<rparr>"

definition vm_mem_zero :: vm_mem where
  "vm_mem_zero = \<lparr>mem_maps = (\<lambda>_. map_zero), mem_segs = (\<lambda>_. seg_zero)\<rparr>"

section \<open>Segments\<close>

definition vm_alloc_memseg :: "vm_host \<Rightarrow> vm_mem \<Rightarrow> int \<Rightarrow> u64 \<Rightarrow> bool \<Rightarrow> int \<times> vm_mem" where
  "vm_alloc_memseg H vm ident len sysmem =
     (if ident < 0 \<or> ident \<ge> int VM_MAX_MEMSEGS then (EINVAL, vm)
      else if len = 0 \<or> len AND PAGE_MASK \<noteq> 0 then (EINVAL, vm)
      else let seg = mem_segs vm (nat ident)
           in if ms_object seg then (if ms_len seg = len \<and> ms_sysmem seg = sysmem then (EEXIST, vm) else (EINVAL, vm))
              else if \<not> host_alloc H (drop_bit 12 len) then (ENOMEM, vm)
              else (0, vm\<lparr>mem_segs := (mem_segs vm)(nat ident := \<lparr>ms_len = len, ms_sysmem = sysmem, ms_object = True\<rparr>)\<rparr>))"

definition vm_get_memseg :: "vm_mem \<Rightarrow> int \<Rightarrow> int \<times> mem_seg option" where
  "vm_get_memseg vm ident =
     (if ident < 0 \<or> ident \<ge> int VM_MAX_MEMSEGS then (EINVAL, None) else (0, Some (mem_segs vm (nat ident))))"

definition vm_free_memseg :: "vm_mem \<Rightarrow> nat \<Rightarrow> vm_mem option" where
  "vm_free_memseg vm ident =
     (if ident \<ge> VM_MAX_MEMSEGS then None
      else Some (if ms_object (mem_segs vm ident) then vm\<lparr>mem_segs := (mem_segs vm)(ident := seg_zero)\<rparr> else vm))"

section \<open>Mappings\<close>

text \<open>The arguments \<open>first\<close> and \<open>last\<close> are signed 64-bit numbers.\<close>

definition vm_mmap_memseg ::
    "vm_host \<Rightarrow> vm_mem \<Rightarrow> u64 \<Rightarrow> int \<Rightarrow> u64 \<Rightarrow> u64 \<Rightarrow> u32 \<Rightarrow> u32 \<Rightarrow> int \<times> vm_mem" where
  "vm_mmap_memseg H vm gpa segid first len prot flags =
     (if prot = 0 \<or> prot AND NOT 7 \<noteq> 0 then (EINVAL, vm)
      else if flags AND NOT 1 \<noteq> 0 then (EINVAL, vm)
      else if segid < 0 \<or> segid \<ge> int VM_MAX_MEMSEGS then (EINVAL, vm)
      else let seg = mem_segs vm (nat segid); last = first + len
           in if \<not> ms_object seg then (EINVAL, vm)
              else if sint first < 0 \<or> sint first \<ge> sint last \<or> last > ms_len seg then (EINVAL, vm)
              else if (gpa OR first OR last) AND PAGE_MASK \<noteq> 0 then (EINVAL, vm)
              else case find (\<lambda>i. mm_len (mem_maps vm i) = 0) [0..<VM_MAX_MEMMAPS] of
                     None \<Rightarrow> (ENOSPC, vm)
                   | Some i \<Rightarrow>
                       if \<not> host_map_find H vm gpa len then (EFAULT, vm)
                       else let wired = (if flags AND 1 \<noteq> 0 then host_map_wire H gpa (gpa + len) else 0)
                            in if wired \<noteq> 0 then (if wired = KERN_RESOURCE_SHORTAGE then ENOMEM else EFAULT, vm)
                               else (0, vm\<lparr>mem_maps := (mem_maps vm)(i := \<lparr>mm_gpa = gpa, mm_len = len, mm_segoff = first,
                                           mm_segid = nat segid, mm_prot = prot, mm_flags = flags\<rparr>)\<rparr>))"

fun getnext_loop :: "vm_mem \<Rightarrow> u64 \<Rightarrow> nat list \<Rightarrow> mem_map option \<Rightarrow> mem_map option" where
  "getnext_loop vm gpa [] mmnext = mmnext"
| "getnext_loop vm gpa (i # ids) mmnext =
     (let mm = mem_maps vm i
      in if mm_len mm = 0 \<or> mm_gpa mm < gpa then getnext_loop vm gpa ids mmnext
         else case mmnext of
                None \<Rightarrow> getnext_loop vm gpa ids (Some mm)
              | Some nx \<Rightarrow> getnext_loop vm gpa ids (if mm_gpa mm < mm_gpa nx then Some mm else mmnext))"

definition vm_mmap_getnext :: "vm_mem \<Rightarrow> u64 \<Rightarrow> int \<times> mem_map option" where
  "vm_mmap_getnext vm gpa =
     (case getnext_loop vm gpa [0..<VM_MAX_MEMMAPS] None of None \<Rightarrow> (ENOENT, None) | Some mm \<Rightarrow> (0, Some mm))"

definition vm_free_memmap :: "vm_mem \<Rightarrow> nat \<Rightarrow> vm_mem" where
  "vm_free_memmap vm ident =
     (if mm_len (mem_maps vm ident) \<noteq> 0 then vm\<lparr>mem_maps := (mem_maps vm)(ident := map_zero)\<rparr> else vm)"

definition sysmem_mapping :: "vm_mem \<Rightarrow> mem_map \<Rightarrow> bool" where
  "sysmem_mapping vm mm \<longleftrightarrow> mm_len mm \<noteq> 0 \<and> ms_sysmem (mem_segs vm (mm_segid mm))"

definition vmm_sysmem_maxaddr :: "vm_mem \<Rightarrow> u64" where
  "vmm_sysmem_maxaddr vm =
     fold (\<lambda>i maxaddr. let mm = mem_maps vm i
                       in if sysmem_mapping vm mm \<and> maxaddr < mm_gpa mm + mm_len mm then mm_gpa mm + mm_len mm else maxaddr)
          [0..<VM_MAX_MEMMAPS] 0"

text \<open>The memory part of \<^verbatim>\<open>vm_cleanup\<close>: mappings of devices go at a reset, everything at the end.\<close>

definition cleanup_maps :: "bool \<Rightarrow> vm_mem \<Rightarrow> vm_mem" where
  "cleanup_maps destroy vm =
     fold (\<lambda>i vm. if destroy \<or> \<not> sysmem_mapping vm (mem_maps vm i) then vm_free_memmap vm i else vm) [0..<VM_MAX_MEMMAPS] vm"

section \<open>Lookup\<close>

text \<open>\<open>pptmmio\<close> is \<^verbatim>\<open>ppt_is_mmio\<close>.\<close>

definition vm_mem_allocated :: "(u64 \<Rightarrow> bool) \<Rightarrow> vm_mem \<Rightarrow> u64 \<Rightarrow> bool" where
  "vm_mem_allocated pptmmio vm gpa \<longleftrightarrow>
     (\<exists>i \<in> set [0..<VM_MAX_MEMMAPS]. let mm = mem_maps vm i in mm_len mm \<noteq> 0 \<and> gpa \<ge> mm_gpa mm \<and> gpa < mm_gpa mm + mm_len mm) \<or>
     pptmmio gpa"

definition in_sysmem :: "vm_mem \<Rightarrow> u64 \<Rightarrow> bool" where
  "in_sysmem vm gpa \<longleftrightarrow>
     (\<exists>i \<in> set [0..<VM_MAX_MEMMAPS]. let mm = mem_maps vm i
        in sysmem_mapping vm mm \<and> gpa \<ge> mm_gpa mm \<and> gpa < mm_gpa mm + mm_len mm)"

text \<open>Whether a pointer comes back; \<open>None\<close> is the panic on a range that leaves its page. The assertion that the vcpu is
  frozen is left out.\<close>

definition vm_gpa_hold :: "vm_host \<Rightarrow> vm_mem \<Rightarrow> u32 \<Rightarrow> u64 \<Rightarrow> nat \<Rightarrow> bool option" where
  "vm_gpa_hold H vm reqprot gpa len =
     (if len > PAGE_SIZE - unat (gpa AND PAGE_MASK) then None
      else Some (in_sysmem vm gpa \<and> host_hold H (gpa AND NOT PAGE_MASK) reqprot))"

section \<open>The mappings are disjoint\<close>

definition map_range :: "mem_map \<Rightarrow> nat set" where
  "map_range mm = {unat (mm_gpa mm)..<unat (mm_gpa mm) + unat (mm_len mm)}"

text \<open>What the code relies on of \<^verbatim>\<open>vm_map_find\<close> with \<^verbatim>\<open>VMFS_NO_SPACE\<close>: it takes the range as given or fails,
  and it fails when the range is not free or leaves the address space.\<close>

definition map_find_ok :: "vm_host \<Rightarrow> bool" where
  "map_find_ok H \<longleftrightarrow> (\<forall>vm gpa len. host_map_find H vm gpa len \<longrightarrow>
     unat gpa + unat len \<le> 2 ^ 47 \<and> (\<forall>i<8. map_range (mem_maps vm i) \<inter> {unat gpa..<unat gpa + unat len} = {}))"

definition mem_inv :: "vm_mem \<Rightarrow> bool" where
  "mem_inv vm \<longleftrightarrow> (\<forall>i<8. mm_len (mem_maps vm i) \<noteq> 0 \<longrightarrow> mm_segid (mem_maps vm i) < 3 \<and>
       (mm_gpa (mem_maps vm i) OR mm_segoff (mem_maps vm i)) AND PAGE_MASK = 0 \<and>
       unat (mm_gpa (mem_maps vm i)) + unat (mm_len (mem_maps vm i)) \<le> 2 ^ 47) \<and>
     (\<forall>i<8. \<forall>j<8. i \<noteq> j \<longrightarrow> map_range (mem_maps vm i) \<inter> map_range (mem_maps vm j) = {})"

datatype mem_op = Alloc_seg int u64 bool | Mmap_seg u64 int u64 u64 u32 u32 | Reset_maps bool

primrec mem_exec :: "vm_host \<Rightarrow> mem_op \<Rightarrow> vm_mem \<Rightarrow> vm_mem" where
  "mem_exec H (Alloc_seg ident len sysmem) vm = snd (vm_alloc_memseg H vm ident len sysmem)"
| "mem_exec H (Mmap_seg gpa segid first len prot flags) vm = snd (vm_mmap_memseg H vm gpa segid first len prot flags)"
| "mem_exec H (Reset_maps destroy) vm = cleanup_maps destroy vm"

lemma map_range_zero [simp]: "map_range map_zero = {}" "mm_len mm = 0 \<Longrightarrow> map_range mm = {}"
  by (simp_all add: map_range_def map_zero_def)

lemma mem_inv_free: "mem_inv vm \<Longrightarrow> mem_inv (vm_free_memmap vm i)"
  by (auto simp: mem_inv_def vm_free_memmap_def map_zero_def)

lemma mem_inv_cleanup: "mem_inv vm \<Longrightarrow> mem_inv (cleanup_maps d vm)"
proof -
  have "mem_inv (fold (\<lambda>i vm. if d \<or> \<not> sysmem_mapping vm (mem_maps vm i) then vm_free_memmap vm i else vm) ids vm)"
    if "mem_inv vm" for vm and ids :: "nat list"
    using that by (induction ids arbitrary: vm) (simp_all add: mem_inv_free)
  then show "mem_inv vm \<Longrightarrow> mem_inv (cleanup_maps d vm)" by (simp add: cleanup_maps_def)
qed

lemma mmap_cases:
  obtains (error) "snd (vm_mmap_memseg H vm gpa segid first len prot flags) = vm"
  | (mapped) i where "i < 8" "mm_len (mem_maps vm i) = 0" "host_map_find H vm gpa len" "0 \<le> segid" "segid < 3"
    "(gpa OR first) AND PAGE_MASK = 0"
    "snd (vm_mmap_memseg H vm gpa segid first len prot flags) =
       vm\<lparr>mem_maps := (mem_maps vm)(i := \<lparr>mm_gpa = gpa, mm_len = len, mm_segoff = first, mm_segid = nat segid, mm_prot = prot, mm_flags = flags\<rparr>)\<rparr>"
proof (cases "snd (vm_mmap_memseg H vm gpa segid first len prot flags) = vm")
  case False
  define fi where "fi = find (\<lambda>i. mm_len (mem_maps vm i) = 0) [0..<8]"
  define wired where "wired = (if flags AND 1 \<noteq> 0 then host_map_wire H gpa (gpa + len) else 0)"
  define c1 where "c1 \<longleftrightarrow> prot = 0 \<or> prot AND NOT 7 \<noteq> 0"
  define c2 where "c2 \<longleftrightarrow> flags AND NOT 1 \<noteq> 0"
  define c3 where "c3 \<longleftrightarrow> segid < 0 \<or> segid \<ge> int 3"
  define c4 where "c4 \<longleftrightarrow> sint first < 0 \<or> sint first \<ge> sint (first + len) \<or> first + len > ms_len (mem_segs vm (nat segid))"
  define c5 where "c5 \<longleftrightarrow> (gpa OR first OR (first + len)) AND PAGE_MASK \<noteq> 0"
  note defs = vm_mmap_memseg_def Let_def fi_def [symmetric] wired_def [symmetric] c1_def [symmetric] c2_def [symmetric] c3_def [symmetric]
    c4_def [symmetric] c5_def [symmetric]
  have g: "\<not> c1 \<and> \<not> c2 \<and> \<not> c3 \<and> ms_object (mem_segs vm (nat segid)) \<and> \<not> c4 \<and> \<not> c5 \<and> fi \<noteq> None \<and> host_map_find H vm gpa len \<and> wired = 0"
    using False unfolding defs by (simp split: if_split_asm option.split_asm)
  then have s: "0 \<le> segid" "segid < 3" "(gpa OR first OR (first + len)) AND PAGE_MASK = 0" "host_map_find H vm gpa len" "fi \<noteq> None"
    by (simp_all add: c3_def c5_def)
  obtain i where i: "fi = Some i" using s(5) by blast
  then have "i < 8" "mm_len (mem_maps vm i) = 0" by (auto simp: fi_def find_Some_iff)
  moreover have "(gpa OR first) AND PAGE_MASK = 0"
    using s(3) by (simp add: bit.conj_disj_distrib2 or_eq_0_iff)
  moreover have "snd (vm_mmap_memseg H vm gpa segid first len prot flags) =
       vm\<lparr>mem_maps := (mem_maps vm)(i := \<lparr>mm_gpa = gpa, mm_len = len, mm_segoff = first, mm_segid = nat segid, mm_prot = prot, mm_flags = flags\<rparr>)\<rparr>"
    using g i unfolding defs by simp
  ultimately show ?thesis using mapped s(1,2,4) by blast
qed (rule error)

lemma mem_inv_exec:
  assumes "map_find_ok H" "mem_inv vm"
  shows "mem_inv (mem_exec H p vm)"
proof (cases p)
  case (Alloc_seg ident len sysmem)
  then show ?thesis using assms(2) by (simp add: vm_alloc_memseg_def mem_inv_def Let_def)
next
  case (Reset_maps d)
  then show ?thesis using assms(2) mem_inv_cleanup by simp
next
  case (Mmap_seg gpa segid first len prot flags)
  show ?thesis
  proof (cases rule: mmap_cases [of H vm gpa segid first len prot flags])
    case error
    then show ?thesis using Mmap_seg assms(2) by simp
  next
    case (mapped i)
    have "unat gpa + unat len \<le> 2 ^ 47" "\<forall>i<8. map_range (mem_maps vm i) \<inter> {unat gpa..<unat gpa + unat len} = {}"
      using assms(1) mapped(3) unfolding map_find_ok_def by blast+
    moreover have "map_range \<lparr>mm_gpa = gpa, mm_len = len, mm_segoff = first, mm_segid = nat segid, mm_prot = prot, mm_flags = flags\<rparr> =
        {unat gpa..<unat gpa + unat len}" by (simp add: map_range_def)
    ultimately show ?thesis using Mmap_seg assms(2) mapped unfolding mem_inv_def by (auto simp: Int_commute)
  qed
qed

lemma mem_inv_zero: "mem_inv vm_mem_zero"
  by (simp add: mem_inv_def vm_mem_zero_def map_zero_def map_range_def)

lemma mem_reachable_inv: "map_find_ok H \<Longrightarrow> mem_inv (fold (mem_exec H) ps vm_mem_zero)"
proof -
  assume h: "map_find_ok H"
  have "mem_inv (fold (mem_exec H) ps vm)" if "mem_inv vm" for vm
    using that by (induction ps arbitrary: vm) (simp_all add: mem_inv_exec [OF h])
  then show ?thesis using mem_inv_zero by blast
qed


section \<open>Enumeration of the mappings\<close>

definition live_maps :: "vm_mem \<Rightarrow> u64 \<Rightarrow> nat list \<Rightarrow> mem_map set" where
  "live_maps vm gpa ids = {mem_maps vm i | i. i \<in> set ids \<and> mm_len (mem_maps vm i) \<noteq> 0 \<and> gpa \<le> mm_gpa (mem_maps vm i)}"

lemma live_maps_Cons:
  "mm_len (mem_maps vm i) = 0 \<or> mm_gpa (mem_maps vm i) < gpa \<Longrightarrow> live_maps vm gpa (i # ids) = live_maps vm gpa ids"
  "\<not> (mm_len (mem_maps vm i) = 0 \<or> mm_gpa (mem_maps vm i) < gpa) \<Longrightarrow>
     live_maps vm gpa (i # ids) = insert (mem_maps vm i) (live_maps vm gpa ids)"
  by (auto simp: live_maps_def not_less)

lemma getnext_loop_spec:
  "(case getnext_loop vm gpa ids acc of
      None \<Rightarrow> acc = None \<and> live_maps vm gpa ids = {}
    | Some m \<Rightarrow> m \<in> live_maps vm gpa ids \<union> set_option acc \<and> (\<forall>c \<in> live_maps vm gpa ids \<union> set_option acc. mm_gpa m \<le> mm_gpa c))"
proof (induction ids arbitrary: acc)
  case Nil
  then show ?case by (auto simp: live_maps_def split: option.split)
next
  case (Cons i ids)
  show ?case
  proof (cases "mm_len (mem_maps vm i) = 0 \<or> mm_gpa (mem_maps vm i) < gpa")
    case True
    then show ?thesis using Cons.IH [of acc] unfolding live_maps_Cons(1) [OF True] by (simp add: Let_def)
  next
    case False
    show ?thesis
    proof (cases acc)
      case None
      then show ?thesis using Cons.IH [of "Some (mem_maps vm i)"] False unfolding live_maps_Cons(2) [OF False]
        by (auto simp: Let_def split: option.splits)
    next
      case (Some nx)
      define acc' where "acc' = (if mm_gpa (mem_maps vm i) < mm_gpa nx then mem_maps vm i else nx)"
      have eq: "getnext_loop vm gpa (i # ids) acc = getnext_loop vm gpa ids (Some acc')" using Some False by (simp add: Let_def acc'_def)
      obtain m where m: "getnext_loop vm gpa ids (Some acc') = Some m" "m = acc' \<or> m \<in> live_maps vm gpa ids" "mm_gpa m \<le> mm_gpa acc'"
        "\<forall>c \<in> live_maps vm gpa ids. mm_gpa m \<le> mm_gpa c"
        using Cons.IH [of "Some acc'"] by (auto split: option.splits)
      have "mm_gpa acc' \<le> mm_gpa (mem_maps vm i)" "mm_gpa acc' \<le> mm_gpa nx" "acc' = nx \<or> acc' = mem_maps vm i" by (auto simp: acc'_def)
      then show ?thesis using m order_trans [OF m(3)] Some unfolding eq live_maps_Cons(2) [OF False] by auto
    qed
  qed
qed

text \<open>The walk of a client that asks for the mapping after the one it has: at most nine calls.\<close>

fun mmap_walk :: "nat \<Rightarrow> vm_mem \<Rightarrow> u64 \<Rightarrow> mem_map list" where
  "mmap_walk 0 vm gpa = []"
| "mmap_walk (Suc n) vm gpa = (case snd (vm_mmap_getnext vm gpa) of None \<Rightarrow> [] | Some mm \<Rightarrow> mm # mmap_walk n vm (mm_gpa mm + mm_len mm))"

lemma getnext_cases:
  obtains "snd (vm_mmap_getnext vm gpa) = None" "live_maps vm gpa [0..<8] = {}"
  | m where "snd (vm_mmap_getnext vm gpa) = Some m" "m \<in> live_maps vm gpa [0..<8]"
    "\<forall>c \<in> live_maps vm gpa [0..<8]. mm_gpa m \<le> mm_gpa c"
  using getnext_loop_spec [where vm = vm and gpa = gpa and ids = "[0..<8]" and acc = None] that unfolding vm_mmap_getnext_def
  by (auto split: option.splits)

lemma mem_inv_end:
  assumes "mem_inv vm" "m \<in> live_maps vm gpa [0..<8]"
  shows "unat (mm_gpa m + mm_len m) = unat (mm_gpa m) + unat (mm_len m)" "0 < unat (mm_len m)"
proof -
  have "unat (mm_gpa m) + unat (mm_len m) \<le> 2 ^ 47" "mm_len m \<noteq> 0" using assms by (auto simp: mem_inv_def live_maps_def)
  then show "unat (mm_gpa m + mm_len m) = unat (mm_gpa m) + unat (mm_len m)" "0 < unat (mm_len m)"
    by (simp_all add: unat_word_ariths unat_gt_0)
qed

lemma live_maps_step:
  assumes "mem_inv vm" "m \<in> live_maps vm gpa [0..<8]" "\<forall>c \<in> live_maps vm gpa [0..<8]. mm_gpa m \<le> mm_gpa c"
  shows "live_maps vm gpa [0..<8] = insert m (live_maps vm (mm_gpa m + mm_len m) [0..<8])"
    "m \<notin> live_maps vm (mm_gpa m + mm_len m) [0..<8]"
proof -
  note e = mem_inv_end [OF assms(1,2)]
  obtain i where i: "i < 8" "m = mem_maps vm i" "gpa \<le> mm_gpa m" using assms(2) by (auto simp: live_maps_def)
  show "m \<notin> live_maps vm (mm_gpa m + mm_len m) [0..<8]" using e by (auto simp: live_maps_def word_le_nat_alt)
  have "mm_gpa m + mm_len m \<le> mm_gpa c" if c: "c \<in> live_maps vm gpa [0..<8]" "c \<noteq> m" for c
  proof -
    obtain j where j: "j < 8" "c = mem_maps vm j" using c(1) by (auto simp: live_maps_def)
    then have "map_range c \<inter> map_range m = {}" using assms(1) i c(2) unfolding mem_inv_def by metis
    moreover have "unat (mm_gpa m) \<le> unat (mm_gpa c)" using assms(3) c(1) by (simp add: word_le_nat_alt)
    moreover have "0 < unat (mm_len c)" using mem_inv_end(2) [OF assms(1) c(1)] .
    ultimately have "unat (mm_gpa c) \<notin> map_range m" by (auto simp: map_range_def)
    then show ?thesis using e \<open>unat (mm_gpa m) \<le> unat (mm_gpa c)\<close> by (simp add: map_range_def word_le_nat_alt)
  qed
  moreover have "gpa \<le> mm_gpa m + mm_len m" using e i(3) by (simp add: word_le_nat_alt)
  ultimately show "live_maps vm gpa [0..<8] = insert m (live_maps vm (mm_gpa m + mm_len m) [0..<8])"
    using assms(2) by (auto simp: live_maps_def intro: order_trans)
qed

lemma live_maps_card: "finite (live_maps vm gpa ids)" "card (live_maps vm gpa ids) \<le> length ids"
proof -
  have sub: "live_maps vm gpa ids \<subseteq> mem_maps vm ` set ids" by (auto simp: live_maps_def)
  then show "finite (live_maps vm gpa ids)" by (rule finite_subset) simp
  have "card (live_maps vm gpa ids) \<le> card (mem_maps vm ` set ids)" using sub by (intro card_mono) simp_all
  also have "\<dots> \<le> card (set ids)" by (rule card_image_le) simp
  also have "\<dots> \<le> length ids" by (rule card_length)
  finally show "card (live_maps vm gpa ids) \<le> length ids" .
qed

lemma mmap_walk_live:
  "mem_inv vm \<Longrightarrow> card (live_maps vm gpa [0..<8]) \<le> n \<Longrightarrow>
     set (mmap_walk n vm gpa) = live_maps vm gpa [0..<8] \<and> sorted_wrt (\<lambda>a b. mm_gpa a < mm_gpa b) (mmap_walk n vm gpa)"
proof (induction n arbitrary: gpa)
  case 0
  then show ?case using live_maps_card(1) by simp
next
  case (Suc n)
  show ?case
  proof (cases rule: getnext_cases [of vm gpa])
    case (2 m)
    note st = live_maps_step [OF Suc.prems(1) 2(2,3)]
    have "card (live_maps vm gpa [0..<8]) = Suc (card (live_maps vm (mm_gpa m + mm_len m) [0..<8]))"
      unfolding st(1) using st(2) live_maps_card(1) by (rule card_insert_disjoint [rotated])
    then have ih: "set (mmap_walk n vm (mm_gpa m + mm_len m)) = live_maps vm (mm_gpa m + mm_len m) [0..<8]"
      "sorted_wrt (\<lambda>a b. mm_gpa a < mm_gpa b) (mmap_walk n vm (mm_gpa m + mm_len m))"
      using Suc.IH [OF Suc.prems(1)] Suc.prems(2) by simp_all
    have "mm_gpa m < mm_gpa b" if "b \<in> live_maps vm (mm_gpa m + mm_len m) [0..<8]" for b
      using that mem_inv_end [OF Suc.prems(1) 2(2)] by (auto simp: live_maps_def word_le_nat_alt word_less_nat_alt)
    then show ?thesis using 2(1) ih st(1) by simp
  qed simp
qed

text \<open>Enumerating the guest's memory with \<^verbatim>\<open>vm_mmap_getnext\<close>, each time from the end of the last mapping, visits every
  mapping of a reachable state exactly once, in ascending order, and stops after at most eight.\<close>

theorem mmap_walk_complete:
  assumes "map_find_ok H" "vm = fold (mem_exec H) ps vm_mem_zero"
  shows "set (mmap_walk 8 vm 0) = {mem_maps vm i | i. i < 8 \<and> mm_len (mem_maps vm i) \<noteq> 0} \<and>
    sorted_wrt (\<lambda>a b. mm_gpa a < mm_gpa b) (mmap_walk 8 vm 0)"
proof -
  have "mem_inv vm" unfolding assms(2) by (rule mem_reachable_inv [OF assms(1)])
  then show ?thesis using mmap_walk_live [of vm 0 8] live_maps_card(2) [of vm 0 "[0..<8]"] by (auto simp: live_maps_def)
qed

text \<open>A host that maps every free range below the top of the address space.\<close>

definition free_host :: vm_host where
  "free_host = \<lparr>host_alloc = (\<lambda>_. True),
     host_map_find = (\<lambda>vm gpa len. uint gpa + uint len \<le> 2 ^ 47 \<and>
       list_all (\<lambda>i. let mm = mem_maps vm i in uint (mm_gpa mm) + uint (mm_len mm) \<le> uint gpa \<or> uint gpa + uint len \<le> uint (mm_gpa mm) \<or>
                     mm_len mm = 0) [0..<8]),
     host_map_wire = (\<lambda>_ _. 0), host_hold = (\<lambda>_ _. True)\<rparr>"

lemma free_host_ok: "map_find_ok free_host"
proof -
  have i: "int (unat w) = uint w" for w :: u64 by simp
  have "unat gpa + unat len \<le> 2 ^ 47" if "uint gpa + uint len \<le> 2 ^ 47" for gpa len :: u64
  proof -
    have "int (unat gpa + unat len) \<le> int (2 ^ 47)" using that by simp
    then show ?thesis by linarith
  qed
  moreover have "map_range mm \<inter> {unat gpa..<unat gpa + unat len} = {}"
    if d: "uint (mm_gpa mm) + uint (mm_len mm) \<le> uint gpa \<or> uint gpa + uint len \<le> uint (mm_gpa mm) \<or> mm_len mm = 0" for mm and gpa len :: u64
  proof -
    have "unat (mm_gpa mm) + unat (mm_len mm) \<le> unat gpa \<or> unat gpa + unat len \<le> unat (mm_gpa mm) \<or> mm_len mm = 0"
      using d i [of gpa] i [of len] i [of "mm_gpa mm"] i [of "mm_len mm"] by linarith
    then show ?thesis by (auto simp: map_range_def)
  qed
  ultimately show ?thesis by (auto simp: map_find_ok_def free_host_def list_all_iff Let_def)
qed

definition mem_demo :: "mem_op list" where
  "mem_demo = [Alloc_seg 0 0x2000 True, Mmap_seg 0x100000 0 0 0x1000 7 0, Mmap_seg 0x100000 0 0x1000 0x1000 3 0, Mmap_seg 0 0 0x1000 0x1000 3 0]"

definition demo_segs :: "nat \<Rightarrow> mem_seg" where
  "demo_segs = (\<lambda>_. seg_zero)(0 := \<lparr>ms_len = 0x2000, ms_sysmem = True, ms_object = True\<rparr>)"

definition demo_maps :: "mem_map list \<Rightarrow> nat \<Rightarrow> mem_map" where
  "demo_maps ms = (\<lambda>i. if i < length ms then ms ! i else map_zero)"

definition demo_vm :: vm_mem where
  "demo_vm = \<lparr>mem_maps = demo_maps [\<lparr>mm_gpa = 0x100000, mm_len = 0x1000, mm_segoff = 0, mm_segid = 0, mm_prot = 7, mm_flags = 0\<rparr>,
      \<lparr>mm_gpa = 0, mm_len = 0x1000, mm_segoff = 0x1000, mm_segid = 0, mm_prot = 3, mm_flags = 0\<rparr>], mem_segs = demo_segs\<rparr>"

lemma demo_alloc: "mem_exec free_host (Alloc_seg 0 0x2000 True) vm_mem_zero = \<lparr>mem_maps = demo_maps [], mem_segs = demo_segs\<rparr>"
  by (simp add: vm_alloc_memseg_def vm_mem_zero_def seg_zero_def free_host_def demo_segs_def demo_maps_def)

lemma demo_mmap:
  assumes "gpa AND PAGE_MASK = 0" "first = 0 \<or> first = 0x1000" "prot = 7 \<or> prot = 3" "length ms < 8" "list_all (\<lambda>m. mm_len m \<noteq> 0) ms"
  shows "mem_exec free_host (Mmap_seg gpa 0 first 0x1000 prot 0) \<lparr>mem_maps = demo_maps ms, mem_segs = demo_segs\<rparr> =
    \<lparr>mem_maps = demo_maps (if host_map_find free_host \<lparr>mem_maps = demo_maps ms, mem_segs = demo_segs\<rparr> gpa 0x1000
       then ms @ [\<lparr>mm_gpa = gpa, mm_len = 0x1000, mm_segoff = first, mm_segid = 0, mm_prot = prot, mm_flags = 0\<rparr>] else ms),
     mem_segs = demo_segs\<rparr>"
proof -
  have f: "find (\<lambda>i. mm_len (demo_maps ms i) = 0) [0..<8] = Some (length ms)"
    using assms(4,5) unfolding find_Some_iff by (intro exI [of _ "length ms"]) (auto simp: demo_maps_def map_zero_def list_all_length)
  have u: "(demo_maps ms)(length ms := m) = demo_maps (ms @ [m])" for m by (auto simp: demo_maps_def nth_append)
  have s: "ms_object (demo_segs 0)" "ms_len (demo_segs 0) = 0x2000" by (simp_all add: demo_segs_def)
  have g: "(gpa OR first OR (first + 0x1000)) AND PAGE_MASK = 0" using assms(1,2) by (auto simp: bit.conj_disj_distrib2)
  show ?thesis using assms(2,3) f u s g by (auto simp: vm_mmap_memseg_def Let_def)
qed

lemma demo_find:
  "host_map_find free_host \<lparr>mem_maps = demo_maps [], mem_segs = sg\<rparr> 0x100000 0x1000"
  "\<not> host_map_find free_host \<lparr>mem_maps = demo_maps [\<lparr>mm_gpa = 0x100000, mm_len = 0x1000, mm_segoff = 0, mm_segid = 0, mm_prot = 7, mm_flags = 0\<rparr>],
      mem_segs = sg\<rparr> 0x100000 0x1000"
  "host_map_find free_host \<lparr>mem_maps = demo_maps [\<lparr>mm_gpa = 0x100000, mm_len = 0x1000, mm_segoff = 0, mm_segid = 0, mm_prot = 7, mm_flags = 0\<rparr>],
      mem_segs = sg\<rparr> 0 0x1000"
proof -
  have u: "[0..<8] = [0, 1, 2, 3, 4, 5, 6, 7::nat]" by (simp add: upt_rec)
  show "host_map_find free_host \<lparr>mem_maps = demo_maps [], mem_segs = sg\<rparr> 0x100000 0x1000"
    "\<not> host_map_find free_host \<lparr>mem_maps = demo_maps [\<lparr>mm_gpa = 0x100000, mm_len = 0x1000, mm_segoff = 0, mm_segid = 0, mm_prot = 7, mm_flags = 0\<rparr>],
      mem_segs = sg\<rparr> 0x100000 0x1000"
    "host_map_find free_host \<lparr>mem_maps = demo_maps [\<lparr>mm_gpa = 0x100000, mm_len = 0x1000, mm_segoff = 0, mm_segid = 0, mm_prot = 7, mm_flags = 0\<rparr>],
      mem_segs = sg\<rparr> 0 0x1000"
    by (simp_all add: free_host_def demo_maps_def map_zero_def u)
qed

lemma demo_run: "fold (mem_exec free_host) mem_demo vm_mem_zero = demo_vm"
  unfolding mem_demo_def by (simp add: demo_alloc demo_mmap demo_find demo_vm_def del: mem_exec.simps)


lemma demo_getnext:
  "snd (vm_mmap_getnext demo_vm 0) = Some (mem_maps demo_vm 1)" "snd (vm_mmap_getnext demo_vm 0x1000) = Some (mem_maps demo_vm 0)"
  "snd (vm_mmap_getnext demo_vm 0x101000) = None"
proof -
  have u: "[0..<8] = [0, 1, 2, 3, 4, 5, 6, 7::nat]" by (simp add: upt_rec)
  show "snd (vm_mmap_getnext demo_vm 0) = Some (mem_maps demo_vm 1)" "snd (vm_mmap_getnext demo_vm 0x1000) = Some (mem_maps demo_vm 0)"
    "snd (vm_mmap_getnext demo_vm 0x101000) = None"
    by (simp_all add: vm_mmap_getnext_def demo_vm_def demo_maps_def map_zero_def u)
qed

lemma demo_walk: "mmap_walk 8 demo_vm 0 = [mem_maps demo_vm 1, mem_maps demo_vm 0]"
proof -
  have e: "mm_gpa (mem_maps demo_vm 1) + mm_len (mem_maps demo_vm 1) = 0x1000" "mm_gpa (mem_maps demo_vm 0) + mm_len (mem_maps demo_vm 0) = 0x101000"
    by (simp_all add: demo_vm_def demo_maps_def)
  have "(8::nat) = Suc (Suc (Suc 5))" by simp
  then show ?thesis by (simp only: mmap_walk.simps demo_getnext option.case e)
qed

theorem mmap_walk_complete_witness:
  "set [mem_maps demo_vm 1, mem_maps demo_vm 0] = {mem_maps demo_vm i | i. i < 8 \<and> mm_len (mem_maps demo_vm i) \<noteq> 0}"
  using mmap_walk_complete [OF free_host_ok demo_run [symmetric]] unfolding demo_walk by blast

end
