(* ===== verification/Guest_Paging.thy ===== *)
theory Guest_Paging
  imports Vm_Mem Guest_Mem
begin

text \<open>
  Guest address translation of \<^verbatim>\<open>vmm/vmm_instruction_emul.c\<close> (\<^verbatim>\<open>_vm_gla2gpa\<close> and the checks of segments,
  alignment and canonical form) and the copies between guest and kernel of \<^verbatim>\<open>vmm/vmm.c\<close> that use it. Page tables
  are read from and written to guest memory. The compare-and-set of an entry sees no other processor: it fails exactly
  when the walk itself has changed the entry since it read it.
\<close>

section \<open>Modes and checks\<close>

datatype vm_cpu_mode = CPU_MODE_REAL | CPU_MODE_PROTECTED | CPU_MODE_COMPATIBILITY | CPU_MODE_64BIT

datatype vm_paging_mode = PAGING_MODE_FLAT | PAGING_MODE_32 | PAGING_MODE_PAE | PAGING_MODE_64

record vm_guest_paging =
  pg_cr3 :: u64
  pg_cpl :: nat
  pg_cpu_mode :: vm_cpu_mode
  pg_paging_mode :: vm_paging_mode

abbreviation (input) PROT_READ :: u32 where "PROT_READ \<equiv> 1"
abbreviation (input) PROT_WRITE :: u32 where "PROT_WRITE \<equiv> 2"
abbreviation (input) PROT_EXEC :: u32 where "PROT_EXEC \<equiv> 4"
abbreviation (input) PG_V :: u64 where "PG_V \<equiv> 0x1"
abbreviation (input) PG_RW :: u64 where "PG_RW \<equiv> 0x2"
abbreviation (input) PG_U :: u64 where "PG_U \<equiv> 0x4"
abbreviation (input) PG_A :: u64 where "PG_A \<equiv> 0x20"
abbreviation (input) PG_M :: u64 where "PG_M \<equiv> 0x40"
abbreviation (input) PG_PS :: u64 where "PG_PS \<equiv> 0x80"
abbreviation (input) CR0_AM :: u64 where "CR0_AM \<equiv> 0x40000"
abbreviation (input) PSL_AC :: u64 where "PSL_AC \<equiv> 0x40000"

definition size2mask :: "nat \<Rightarrow> u64" where
  "size2mask n = (if n = 1 then 0xff else if n = 2 then 0xffff else if n = 4 then 0xffffffff else if n = 8 then 0xffffffffffffffff else 0)"

definition vie_size2mask :: "nat \<Rightarrow> u64 option" where
  "vie_size2mask n = (if n \<in> {1, 2, 4, 8} then Some (size2mask n) else None)"

definition vie_alignment_check :: "nat \<Rightarrow> nat \<Rightarrow> u64 \<Rightarrow> u64 \<Rightarrow> u64 \<Rightarrow> bool option" where
  "vie_alignment_check cpl sz cr0 rf gla =
     (if sz \<notin> {1, 2, 4, 8} \<or> cpl > 3 then None
      else if cpl \<noteq> 3 \<or> cr0 AND CR0_AM = 0 \<or> rf AND PSL_AC = 0 then Some False
      else Some (gla AND of_nat (sz - 1) \<noteq> 0))"

definition vie_canonical_check :: "vm_cpu_mode \<Rightarrow> u64 \<Rightarrow> bool" where
  "vie_canonical_check mode gla =
     (if mode \<noteq> CPU_MODE_64BIT then False
      else let high = NOT (push_bit 48 1 - 1)
           in if gla AND push_bit 47 1 \<noteq> 0 then gla AND high \<noteq> high else gla AND high \<noteq> 0)"

text \<open>Fields of the access rights of a descriptor.\<close>

definition SEG_DESC_TYPE :: "u32 \<Rightarrow> u32" where "SEG_DESC_TYPE access = access AND 0x1f"
definition SEG_DESC_PRESENT :: "u32 \<Rightarrow> bool" where "SEG_DESC_PRESENT access \<longleftrightarrow> access AND 0x80 \<noteq> 0"
definition SEG_DESC_DEF32 :: "u32 \<Rightarrow> bool" where "SEG_DESC_DEF32 access \<longleftrightarrow> access AND 0x4000 \<noteq> 0"
definition SEG_DESC_UNUSABLE :: "u32 \<Rightarrow> bool" where "SEG_DESC_UNUSABLE access \<longleftrightarrow> access AND 0x10000 \<noteq> 0"

fun limit_loop :: "u64 \<Rightarrow> u64 \<Rightarrow> u64 \<Rightarrow> u64 \<Rightarrow> nat \<Rightarrow> bool" where
  "limit_loop amask low_limit high_limit offset 0 = True"
| "limit_loop amask low_limit high_limit offset (Suc n) =
     (let offset = offset AND amask
      in if offset < low_limit \<or> offset > high_limit then False else limit_loop amask low_limit high_limit (offset + 1) n)"

definition data_segment :: "vm_reg_name \<Rightarrow> bool" where
  "data_segment seg \<longleftrightarrow>
     seg \<in> {VM_REG_GUEST_ES, VM_REG_GUEST_CS, VM_REG_GUEST_SS, VM_REG_GUEST_DS, VM_REG_GUEST_FS, VM_REG_GUEST_GS}"

text \<open>The checks outside 64-bit mode: \<open>Some False\<close> is the return value \<open>-1\<close>.\<close>

definition segment_checks :: "seg_desc \<Rightarrow> u64 \<Rightarrow> nat \<Rightarrow> nat \<Rightarrow> u32 \<Rightarrow> bool option" where
  "segment_checks desc offset len addrsize prot =
     (if SEG_DESC_UNUSABLE (sd_access desc) then Some False
      else if \<not> SEG_DESC_PRESENT (sd_access desc) then None
      else let type = SEG_DESC_TYPE (sd_access desc)
           in if \<not> (type \<ge> 16 \<and> type \<le> 31) then None
              else if prot AND PROT_READ \<noteq> 0 \<and> type AND 0xA = 0x8 then Some False
              else if prot AND PROT_WRITE \<noteq> 0 \<and> type AND 0x8 \<noteq> 0 then Some False
              else if prot AND PROT_WRITE \<noteq> 0 \<and> type AND 0xA = 0 then Some False
              else let (low_limit, high_limit) =
                         (if type AND 0xC = 0x4
                          then (ucast (sd_limit desc + 1), if SEG_DESC_DEF32 (sd_access desc) then 0xffffffff else 0xffff)
                          else (0, ucast (sd_limit desc)))
                   in Some (limit_loop (size2mask addrsize) low_limit high_limit offset len))"

text \<open>\<open>Some None\<close> is the return value \<open>-1\<close>, \<open>Some (Some gla)\<close> the value 0 with \<open>*gla\<close>.\<close>

definition vie_calculate_gla ::
    "vm_cpu_mode \<Rightarrow> vm_reg_name \<Rightarrow> seg_desc \<Rightarrow> u64 \<Rightarrow> nat \<Rightarrow> nat \<Rightarrow> u32 \<Rightarrow> u64 option option" where
  "vie_calculate_gla mode seg desc offset len addrsize prot =
     (if \<not> data_segment seg \<or> len \<notin> {1, 2, 4, 8} \<or> prot AND NOT (PROT_READ OR PROT_WRITE) \<noteq> 0 then None
      else if mode = CPU_MODE_64BIT \<and> addrsize \<noteq> 4 \<and> addrsize \<noteq> 8 then None
      else if mode \<noteq> CPU_MODE_64BIT \<and> addrsize \<noteq> 2 \<and> addrsize \<noteq> 4 then None
      else do {
        ok \<leftarrow> (if mode = CPU_MODE_64BIT then Some True else segment_checks desc offset len addrsize prot);
        if \<not> ok then Some None
        else let segbase = (if mode = CPU_MODE_64BIT \<and> seg \<noteq> VM_REG_GUEST_FS \<and> seg \<noteq> VM_REG_GUEST_GS then 0 else sd_base desc);
                 firstoff = offset AND size2mask addrsize
             in Some (Some ((segbase + firstoff) AND size2mask (if mode = CPU_MODE_64BIT then 8 else 4)))
      })"

section \<open>The page walk\<close>

definition pf_error_code :: "bool \<Rightarrow> u32 \<Rightarrow> bool \<Rightarrow> u64 \<Rightarrow> u32" where
  "pf_error_code usermode prot rsvd pte =
     (let error_code = (if pte AND PG_V \<noteq> 0 then 1 else 0);
          error_code = (if prot AND PROT_WRITE \<noteq> 0 then error_code OR 2 else error_code);
          error_code = (if usermode then error_code OR 4 else error_code);
          error_code = (if rsvd then error_code OR 8 else error_code)
      in if prot AND PROT_EXEC \<noteq> 0 then error_code OR 0x10 else error_code)"

text \<open>What the walk depends on besides memory.\<close>

record walk_ctx =
  w_hold :: "u64 \<Rightarrow> nat \<Rightarrow> bool option"
  w_check_only :: bool
  w_usermode :: bool
  w_writable :: bool
  w_prot :: u32
  w_gla :: u64

text \<open>How a walk ends: a page table that cannot be held, a page fault with its error code, a lost race for an entry, or a
  leaf entry with its address and the shift of its page.\<close>

datatype walk_end = Walk_error | Walk_fault u32 | Walk_restart | Walk_leaf u64 nat nat

definition pte_at :: "nat \<Rightarrow> gmem \<Rightarrow> nat \<Rightarrow> u64" where
  "pte_at w m a = of_nat (mrd w m a)"

text \<open>\<^verbatim>\<open>atomic_cmpset_32\<close> and \<^verbatim>\<open>atomic_cmpset_64\<close>.\<close>

definition cmpset :: "nat \<Rightarrow> gmem \<Rightarrow> nat \<Rightarrow> u64 \<Rightarrow> u64 \<Rightarrow> gmem option" where
  "cmpset w m a old new = (if pte_at w m a = old then Some (mwr w m a (unat new)) else None)"

definition denied :: "walk_ctx \<Rightarrow> u64 \<Rightarrow> bool" where
  "denied W pte \<longleftrightarrow> pte AND PG_V = 0 \<or> w_usermode W \<and> pte AND PG_U = 0 \<or> w_writable W \<and> pte AND PG_RW = 0"

text \<open>The loops over 4-byte entries (two levels) and over 8-byte entries (two levels below the PAE root, or four) differ in
  the width of an entry, the bits of an index, the address bits kept of a table's address, and the test for pages of more
  than a gigabyte, which the larger tables have.\<close>

record pt_format =
  pf_width :: nat
  pf_bits :: nat
  pf_base :: "u64 \<Rightarrow> u64"

definition fmt32 :: pt_format where
  "fmt32 = \<lparr>pf_width = 4, pf_bits = 10, pf_base = (\<lambda>ptpphys. ptpphys AND NOT 0xfff)\<rparr>"

definition fmt64 :: pt_format where
  "fmt64 = \<lparr>pf_width = 8, pf_bits = 9, pf_base = (\<lambda>ptpphys. drop_bit 12 (push_bit 24 (drop_bit 12 ptpphys)))\<rparr>"

definition pt_shift :: "pt_format \<Rightarrow> nat \<Rightarrow> nat" where
  "pt_shift F nlevels = 12 + nlevels * pf_bits F"

definition pt_index :: "pt_format \<Rightarrow> nat \<Rightarrow> u64 \<Rightarrow> nat" where
  "pt_index F nlevels gla = unat (drop_bit (pt_shift F nlevels) gla AND (push_bit (pf_bits F) 1 - 1))"

fun walk :: "pt_format \<Rightarrow> walk_ctx \<Rightarrow> nat \<Rightarrow> u64 \<Rightarrow> gmem \<Rightarrow> (walk_end \<times> gmem) option" where
  "walk F W nlevels ptpphys m = do {
     ptpbase \<leftarrow> w_hold W (pf_base F ptpphys) 4096;
     if \<not> ptpbase then Some (Walk_error, m)
     else let ptpshift = pt_shift F nlevels;
              addr = unat (pf_base F ptpphys) + pf_width F * pt_index F nlevels (w_gla W);
              pte = pte_at (pf_width F) m addr
          in if denied W pte then Some (Walk_fault (pf_error_code (w_usermode W) (w_prot W) False pte), m)
             else case (if \<not> w_check_only W \<and> pte AND PG_A = 0 then cmpset (pf_width F) m addr pte (pte OR PG_A) else Some m) of
                    None \<Rightarrow> Some (Walk_restart, m)
                  | Some m \<Rightarrow>
                      if nlevels > 0 \<and> pte AND PG_PS \<noteq> 0
                      then if (2::nat) ^ ptpshift > 1024 * 1024 * 1024
                           then Some (Walk_fault (pf_error_code (w_usermode W) (w_prot W) True pte), m)
                           else Some (Walk_leaf pte addr ptpshift, m)
                      else (case nlevels of 0 \<Rightarrow> Some (Walk_leaf pte addr ptpshift, m) | Suc n \<Rightarrow> walk F W n pte m)
   }"

declare walk.simps [simp del]

text \<open>The root of PAE tables.\<close>

definition walk_pae :: "walk_ctx \<Rightarrow> u64 \<Rightarrow> gmem \<Rightarrow> (walk_end \<times> gmem) option" where
  "walk_pae W ptpphys m =
     (let ptpphys = ptpphys AND 0xffffffe0
      in do {
        ptpbase \<leftarrow> w_hold W ptpphys 32;
        if \<not> ptpbase then Some (Walk_error, m)
        else let pte = pte_at 8 m (unat ptpphys + 8 * unat (drop_bit 30 (w_gla W) AND 0x3))
             in if pte AND PG_V = 0 then Some (Walk_fault (pf_error_code (w_usermode W) (w_prot W) False pte), m)
                else walk fmt64 W 1 pte m
      })"

text \<open>The dirty bit of the leaf, and the address.\<close>

definition leaf_gpa :: "pt_format \<Rightarrow> walk_ctx \<Rightarrow> u64 \<Rightarrow> nat \<Rightarrow> u64" where
  "leaf_gpa F W pte ptpshift =
     (if pf_width F = 4 then push_bit ptpshift (drop_bit ptpshift pte)
      else drop_bit 12 (push_bit (ptpshift + 12) (drop_bit ptpshift pte))) OR (w_gla W AND (push_bit ptpshift 1 - 1))"

datatype pass_end = Pass_ok u64 | Pass_error | Pass_fault u32 | Pass_restart

definition finish_walk :: "pt_format \<Rightarrow> walk_ctx \<Rightarrow> walk_end \<times> gmem \<Rightarrow> pass_end \<times> gmem" where
  "finish_walk F W r =
     (case r of
        (Walk_error, m) \<Rightarrow> (Pass_error, m)
      | (Walk_fault code, m) \<Rightarrow> (Pass_fault code, m)
      | (Walk_restart, m) \<Rightarrow> (Pass_restart, m)
      | (Walk_leaf pte addr ptpshift, m) \<Rightarrow>
          (case (if \<not> w_check_only W \<and> w_writable W \<and> pte AND PG_M = 0 then cmpset (pf_width F) m addr pte (pte OR PG_M) else Some m) of
             None \<Rightarrow> (Pass_restart, m)
           | Some m \<Rightarrow> (Pass_ok (leaf_gpa F W pte ptpshift), m)))"

definition walk_pass :: "vm_paging_mode \<Rightarrow> walk_ctx \<Rightarrow> u64 \<Rightarrow> gmem \<Rightarrow> (pass_end \<times> gmem) option" where
  "walk_pass mode W cr3 m =
     (case mode of
        PAGING_MODE_FLAT \<Rightarrow> Some (Pass_ok (w_gla W), m)
      | PAGING_MODE_32 \<Rightarrow> map_option (finish_walk fmt32 W) (walk fmt32 W 1 cr3 m)
      | PAGING_MODE_PAE \<Rightarrow> map_option (finish_walk fmt64 W) (walk_pae W cr3 m)
      | PAGING_MODE_64 \<Rightarrow> map_option (finish_walk fmt64 W) (walk fmt64 W 3 cr3 m))"

text \<open>Passes until one does not restart.\<close>

fun walk_passes :: "nat \<Rightarrow> vm_paging_mode \<Rightarrow> walk_ctx \<Rightarrow> u64 \<Rightarrow> gmem \<Rightarrow> (pass_end \<times> gmem) option" where
  "walk_passes 0 mode W cr3 m = None"
| "walk_passes (Suc n) mode W cr3 m =
     (case walk_pass mode W cr3 m of
        None \<Rightarrow> None
      | Some (Pass_restart, m) \<Rightarrow> walk_passes n mode W cr3 m
      | Some r \<Rightarrow> Some r)"

section \<open>Translation and copies\<close>

text \<open>The inline functions of \<^verbatim>\<open>machine/vmm.h\<close> over \<^verbatim>\<open>vm_inject_fault\<close>: the vector of their name, with an error code.\<close>

definition vm_inject_gp :: "vcpu \<Rightarrow> vcpu option" where
  "vm_inject_gp vc = vm_inject_fault vc IDT_GP True 0"

definition vm_inject_ss :: "vcpu \<Rightarrow> u32 \<Rightarrow> vcpu option" where
  "vm_inject_ss vc errcode = vm_inject_fault vc IDT_SS True errcode"

definition vm_inject_ac :: "vcpu \<Rightarrow> u32 \<Rightarrow> vcpu option" where
  "vm_inject_ac vc errcode = vm_inject_fault vc IDT_AC True errcode"

text \<open>A page of a table, which the walk may write.\<close>

definition ptp_hold :: "vm_host \<Rightarrow> vm_mem \<Rightarrow> u64 \<Rightarrow> nat \<Rightarrow> bool option" where
  "ptp_hold H vm = vm_gpa_hold H vm (PROT_READ OR PROT_WRITE)"

text \<open>The vcpu and guest memory.\<close>

type_synonym gstate = "vcpu \<times> gmem"

text \<open>The error number, the flag \<open>*guest_fault\<close>, the address and the state.\<close>

definition gla2gpa :: "vm_host \<Rightarrow> vm_mem \<Rightarrow> bool \<Rightarrow> vm_guest_paging \<Rightarrow> u64 \<Rightarrow> u32 \<Rightarrow> gstate \<Rightarrow> (int \<times> bool \<times> u64 \<times> gstate) option" where
  "gla2gpa H vm check_only paging gla prot st =
     (let (vc, m) = st;
          W = \<lparr>w_hold = ptp_hold H vm, w_check_only = check_only, w_usermode = (pg_cpl paging = 3),
               w_writable = (prot AND PROT_WRITE \<noteq> 0), w_prot = prot, w_gla = gla\<rparr>
      in if vie_canonical_check (pg_cpu_mode paging) gla
         then do { vc \<leftarrow> (if check_only then Some vc else vm_inject_gp vc); Some (0, True, 0, vc, m) }
         else do {
           (r, m) \<leftarrow> walk_passes 2 (pg_paging_mode paging) W (pg_cr3 paging) m;
           case r of
             Pass_ok gpa \<Rightarrow> Some (0, False, gpa, vc, m)
           | Pass_fault pfcode \<Rightarrow>
               do { vc \<leftarrow> (if check_only then Some vc else vm_inject_pf vc pfcode gla); Some (0, True, 0, vc, m) }
           | _ \<Rightarrow> Some (EFAULT, False, 0, vc, m)
         })"

definition vm_gla2gpa :: "vm_host \<Rightarrow> vm_mem \<Rightarrow> vm_guest_paging \<Rightarrow> u64 \<Rightarrow> u32 \<Rightarrow> gstate \<Rightarrow> (int \<times> bool \<times> u64 \<times> gstate) option" where
  "vm_gla2gpa H vm paging gla prot st = gla2gpa H vm False paging gla prot st"

definition vm_gla2gpa_nofault ::
    "vm_host \<Rightarrow> vm_mem \<Rightarrow> vm_guest_paging \<Rightarrow> u64 \<Rightarrow> u32 \<Rightarrow> gstate \<Rightarrow> (int \<times> bool \<times> u64 \<times> gstate) option" where
  "vm_gla2gpa_nofault H vm paging gla prot st = gla2gpa H vm True paging gla prot st"

text \<open>Entries of \<^verbatim>\<open>struct vm_copyinfo\<close>: address and length.\<close>

type_synonym copyinfo = "(u64 \<times> nat) list"

function copy_segments ::
    "vm_host \<Rightarrow> vm_mem \<Rightarrow> vm_guest_paging \<Rightarrow> u64 \<Rightarrow> nat \<Rightarrow> u32 \<Rightarrow> nat \<Rightarrow> gstate \<Rightarrow> (int \<times> bool \<times> copyinfo \<times> gstate) option" where
  "copy_segments H vm paging gla remaining prot slots st =
     (if remaining = 0 then Some (0, False, [], st)
      else if slots = 0 then None
      else do {
        (error, fault, gpa, st) \<leftarrow> vm_gla2gpa H vm paging gla prot st;
        if error \<noteq> 0 \<or> fault then Some (error, fault, [], st)
        else let n = min remaining (PAGE_SIZE - unat (gpa AND PAGE_MASK))
             in do {
               (error, fault, infos, st) \<leftarrow> copy_segments H vm paging (gla + of_nat n) (remaining - n) prot (slots - 1) st;
               Some (error, fault, (gpa, n) # infos, st)
             }
      })"
  by pat_completeness auto
termination by (relation "measure (\<lambda>(_, _, _, _, _, _, slots, _). slots)") auto

declare copy_segments.simps [simp del]

fun hold_all :: "vm_host \<Rightarrow> vm_mem \<Rightarrow> u32 \<Rightarrow> copyinfo \<Rightarrow> bool option" where
  "hold_all H vm prot [] = Some True"
| "hold_all H vm prot ((gpa, n) # infos) =
     do { ok \<leftarrow> vm_gpa_hold H vm prot gpa n; if \<not> ok then Some False else hold_all H vm prot infos }"

text \<open>Two entries, as every caller has.\<close>

definition vm_copy_setup ::
    "vm_host \<Rightarrow> vm_mem \<Rightarrow> vm_guest_paging \<Rightarrow> u64 \<Rightarrow> nat \<Rightarrow> u32 \<Rightarrow> gstate \<Rightarrow> (int \<times> bool \<times> copyinfo \<times> gstate) option" where
  "vm_copy_setup H vm paging gla len prot st = do {
     (error, fault, infos, st) \<leftarrow> copy_segments H vm paging gla len prot 2 st;
     if error \<noteq> 0 \<or> fault then Some (error, fault, [], st)
     else do { held \<leftarrow> hold_all H vm prot infos; if held then Some (0, False, infos, st) else Some (EFAULT, False, [], st) }
   }"

text \<open>An entry longer than the bytes left would overrun the buffer of the caller: \<open>None\<close>.\<close>

fun vm_copyin :: "gmem \<Rightarrow> copyinfo \<Rightarrow> nat \<Rightarrow> u8 list option" where
  "vm_copyin m infos 0 = Some []"
| "vm_copyin m [] len = None"
| "vm_copyin m ((gpa, n) # infos) len =
     (if n > len then None else map_option ((@) (peek m (unat gpa) n)) (vm_copyin m infos (len - n)))"

fun vm_copyout :: "gmem \<Rightarrow> u8 list \<Rightarrow> copyinfo \<Rightarrow> gmem option" where
  "vm_copyout m [] infos = Some m"
| "vm_copyout m bs [] = None"
| "vm_copyout m bs ((gpa, n) # infos) =
     (if n > length bs then None else vm_copyout (poke m (unat gpa) (take n bs)) (drop n bs) infos)"

end
