(* ===== verification/Page_Walk.thy ===== *)
theory Page_Walk
  imports Guest_Paging
begin

text \<open>
  What the address translation of \<^verbatim>\<open>vmm/vmm_instruction_emul.c\<close> computes. A reference walk reads the page tables as
  they are at the start; the walk of the code, which sets accessed and dirty bits as it goes and starts over when a
  compare-and-set fails, gives the same result. The locale \<open>pt_layout\<close> states what the argument needs of a format of
  page tables and is interpreted for the 4-byte and the 8-byte entries. On top of it: the permissions that a successful
  translation implies, totality, the agreement of the probing variant, and the copies across pages.
\<close>

section \<open>Page table entries in memory\<close>

lemma le_bytes_le_val: "le_bytes (length bs) (le_val bs) = bs"
proof (induction bs)
  case (Cons b bs)
  have "(of_nat (unat b + 256 * le_val bs) :: u8) = b"
    using unat_u8_less [of b] by (simp add: word_unat_eq_iff unsigned_of_nat take_bit_eq_mod del: of_nat_add)
  then show ?case using Cons unat_u8_less [of b] by simp
qed simp

lemma mwr_same: "mwr w m a (mrd w m a) = m"
proof -
  have "le_bytes w (le_val (peek m a w)) = peek m a w" using le_bytes_le_val [of "peek m a w"] by simp
  then show ?thesis by (auto simp: mwr_def mrd_def poke_def fun_eq_iff)
qed

lemma aligned_disjoint:
  fixes a b w :: nat
  assumes "a mod w = 0" "b mod w = 0" "a \<noteq> b"
  shows "a + w \<le> b \<or> b + w \<le> a"
proof -
  obtain i j where ij: "a = w * i" "b = w * j" using assms(1,2) by (auto elim!: dvdE simp flip: dvd_eq_mod_eq_0)
  then have "i < j \<or> j < i" using assms(3) by (cases "i = j") auto
  then show ?thesis
  proof
    assume "i < j"
    then have "w * Suc i \<le> w * j" by (intro mult_le_mono2) simp
    then show ?thesis using ij by simp
  next
    assume "j < i"
    then have "w * Suc j \<le> w * i" by (intro mult_le_mono2) simp
    then show ?thesis using ij by simp
  qed
qed

lemma pte_at_less: "w = 4 \<or> w = 8 \<Longrightarrow> unat (pte_at w m a) = mrd w m a"
  using mrd_less [of w m a] by (auto simp: pte_at_def unsigned_of_nat take_bit_nat_eq_self)

lemma or_flag_fits:
  fixes p :: u64
  assumes "w = 4 \<or> w = 8" "unat p < 256 ^ w" "b = 0x20 \<or> b = 0x40"
  shows "unat (p OR b) < 256 ^ w"
proof (cases "w = 8")
  case True
  then show ?thesis using unat_less_pow [of "p OR b"] by simp
next
  case False
  then have w: "w = 4" using assms(1) by simp
  have "take_bit 32 p = p" using assms(2) w by (simp add: word_unat_eq_iff unsigned_take_bit_eq take_bit_nat_eq_self)
  moreover have "take_bit 32 b = b" using assms(3) by auto
  ultimately have "take_bit 32 (p OR b) = p OR b" by simp
  then have "unat (p OR b) = take_bit 32 (unat (p OR b))" by (metis unsigned_take_bit_eq)
  also have "\<dots> < 2 ^ 32" by (rule take_bit_nat_less_exp)
  finally show ?thesis using w by simp
qed

text \<open>Setting a flag of an entry changes that entry and no other.\<close>

definition set_flag :: "nat \<Rightarrow> u64 \<Rightarrow> nat \<Rightarrow> gmem \<Rightarrow> gmem" where
  "set_flag w b a m = mwr w m a (unat (pte_at w m a OR b))"

lemma pte_at_set_flag:
  assumes "w = 4 \<or> w = 8" "a mod w = 0" "c mod w = 0" "b = 0x20 \<or> b = 0x40"
  shows "pte_at w (set_flag w b c m) a = (if a = c then pte_at w m a OR b else pte_at w m a)"
proof (cases "a = c")
  case True
  have "unat (pte_at w m a) < 256 ^ w" using pte_at_less [OF assms(1), of m a] mrd_less [of w m a] by simp
  then have "unat (pte_at w m a OR b) < 256 ^ w" using or_flag_fits assms by blast
  then have "mrd w (mwr w m a (unat (pte_at w m a OR b))) a = unat (pte_at w m a OR b)" using mrd_mwr_same by simp
  then show ?thesis using True by (simp add: set_flag_def pte_at_def [of w "mwr _ _ _ _"])
next
  case False
  then show ?thesis using mrd_mwr_other [OF aligned_disjoint [OF assms(2,3) False]] by (simp add: set_flag_def pte_at_def)
qed

lemma set_flag_id: "w = 4 \<or> w = 8 \<Longrightarrow> pte_at w m a OR b = pte_at w m a \<Longrightarrow> set_flag w b a m = m"
  by (simp add: set_flag_def pte_at_less mwr_same)

lemma cmpset_flag: "cmpset w m a (pte_at w m a) (pte_at w m a OR b) = Some (set_flag w b a m)"
  by (simp add: cmpset_def set_flag_def)

lemma or_flag_set: "(p AND b = 0) = False \<Longrightarrow> b = push_bit k 1 \<Longrightarrow> p OR b = p" for p b :: u64
  using and_push_bit_1_neq_0 [of p k] by (auto intro!: bit_word_eqI simp: bit_or_iff bit_exp_iff)

text \<open>Entries that agree but for the accessed bit.\<close>

abbreviation (input) noacc :: "u64 \<Rightarrow> u64" where "noacc p \<equiv> p AND NOT 0x20"

lemma noacc_flags:
  assumes "noacc p = noacc q"
  shows "p AND 1 = q AND 1" "p AND 2 = q AND 2" "p AND 4 = q AND 4" "p AND 0x80 = q AND 0x80"
    "12 \<le> s \<Longrightarrow> drop_bit s p = drop_bit s q" "p AND NOT 0xfff = q AND NOT 0xfff" "p AND 0x40 = q AND 0x40"
proof -
  have c: "noacc p AND k = noacc q AND k" for k using assms by simp
  show "p AND 1 = q AND 1" "p AND 2 = q AND 2" "p AND 4 = q AND 4" "p AND 0x80 = q AND 0x80" "p AND NOT 0xfff = q AND NOT 0xfff"
    "p AND 0x40 = q AND 0x40"
    using c [of 1] c [of 2] c [of 4] c [of "0x80"] c [of "0x40"] c [of "NOT 0xfff"] by (simp_all add: and.assoc)
  have b: "bit p n = bit q n" if "12 \<le> n" for n
  proof -
    have "bit (p AND NOT 0xfff) n = bit (q AND NOT 0xfff) n" using c [of "NOT 0xfff"] by (simp add: and.assoc)
    moreover have "(0xfff :: u64) = mask 12" by (simp add: mask_eq_exp_minus_1)
    then have "\<not> bit (0xfff :: u64) n" using that by (simp only: bit_mask_iff) simp
    then have "bit (x AND NOT 0xfff) n = bit x n" for x :: u64
      using bit_imp_le_length [of x n] unfolding bit_and_iff bit_not_iff by auto
    ultimately show ?thesis by simp
  qed
  show "12 \<le> s \<Longrightarrow> drop_bit s p = drop_bit s q" by (rule bit_word_eqI) (simp add: bit_drop_bit_eq b)
qed

section \<open>The reference walk\<close>

text \<open>The walk over a memory that does not change: the addresses of the entries it goes through, and its end.\<close>

fun ref_walk :: "pt_format \<Rightarrow> walk_ctx \<Rightarrow> nat \<Rightarrow> u64 \<Rightarrow> gmem \<Rightarrow> (nat list \<times> walk_end) option" where
  "ref_walk F W nlevels ptpphys m = do {
     ptpbase \<leftarrow> w_hold W (pf_base F ptpphys) 4096;
     if \<not> ptpbase then Some ([], Walk_error)
     else let addr = unat (pf_base F ptpphys) + pf_width F * pt_index F nlevels (w_gla W);
              pte = pte_at (pf_width F) m addr
          in if denied W pte then Some ([], Walk_fault (pf_error_code (w_usermode W) (w_prot W) False pte))
             else if nlevels > 0 \<and> pte AND PG_PS \<noteq> 0
             then Some ([addr], if (2::nat) ^ pt_shift F nlevels > 1024 * 1024 * 1024
                                then Walk_fault (pf_error_code (w_usermode W) (w_prot W) True pte)
                                else Walk_leaf pte addr (pt_shift F nlevels))
             else (case nlevels of
                     0 \<Rightarrow> Some ([addr], Walk_leaf pte addr (pt_shift F nlevels))
                   | Suc n \<Rightarrow> map_option (apfst ((#) addr)) (ref_walk F W n pte m))
   }"

declare ref_walk.simps [simp del]

definition acc_eq :: "nat \<Rightarrow> gmem \<Rightarrow> gmem \<Rightarrow> bool" where
  "acc_eq w m m' \<longleftrightarrow> (\<forall>a. a mod w = 0 \<longrightarrow> noacc (pte_at w m' a) = noacc (pte_at w m a))"

definition end_eq :: "walk_end \<Rightarrow> walk_end \<Rightarrow> bool" where
  "end_eq e e' = (case (e, e') of
     (Walk_leaf p a s, Walk_leaf p' a' s') \<Rightarrow> noacc p = noacc p' \<and> a = a' \<and> s = s' | _ \<Rightarrow> e = e')"

lemma end_eq_simps [simp]: "end_eq e e" "end_eq (Walk_leaf p a s) (Walk_leaf p' a' s') \<longleftrightarrow> noacc p = noacc p' \<and> a = a' \<and> s = s'"
  by (simp_all add: end_eq_def split: walk_end.split)

lemma denied_cong: "noacc p = noacc q \<Longrightarrow> denied W p = denied W q"
  using noacc_flags(1-3) [of p q] by (simp add: denied_def)

lemma pf_error_code_cong: "noacc p = noacc q \<Longrightarrow> pf_error_code u prot r p = pf_error_code u prot r q"
  using noacc_flags(1) [of p q] by (simp add: pf_error_code_def)

definition marks :: "nat \<Rightarrow> nat list \<Rightarrow> gmem \<Rightarrow> gmem" where
  "marks w path m = fold (set_flag w PG_A) path m"

lemma marks_simps [simp]: "marks w [] m = m" "marks w (a # as) m = marks w as (set_flag w PG_A a m)"
  by (simp_all add: marks_def)

locale pt_layout =
  fixes F :: pt_format
  assumes width: "pf_width F = 4 \<or> pf_width F = 8"
    and base_aligned: "unat (pf_base F p) mod pf_width F = 0"
    and base_cong: "noacc p = noacc q \<Longrightarrow> pf_base F p = pf_base F q"
begin

lemma entry_aligned: "(unat (pf_base F p) + pf_width F * k) mod pf_width F = 0"
  using base_aligned [of p] by simp

lemma acc_eq_set_flag:
  assumes "acc_eq (pf_width F) m mc" "a mod pf_width F = 0"
  shows "acc_eq (pf_width F) m (set_flag (pf_width F) PG_A a mc)"
proof -
  have "noacc (p OR PG_A) = noacc p" for p by (simp add: bit.conj_disj_distrib2)
  then show ?thesis using assms by (simp add: acc_eq_def pte_at_set_flag [OF width])
qed

lemma acc_eq_refl: "acc_eq w m m" by (simp add: acc_eq_def)

lemma acc_eq_marks: "acc_eq (pf_width F) m mc \<Longrightarrow> list_all (\<lambda>a. a mod pf_width F = 0) path \<Longrightarrow> acc_eq (pf_width F) m (marks (pf_width F) path mc)"
  by (induction path arbitrary: mc) (simp_all add: acc_eq_set_flag)

lemma accessed_step:
  assumes "p = pte_at (pf_width F) m a"
  shows "(if \<not> c \<and> p AND PG_A = 0 then cmpset (pf_width F) m a p (p OR PG_A) else Some m) =
    Some (if c then m else set_flag (pf_width F) PG_A a m)"
proof -
  have "set_flag (pf_width F) PG_A a m = m" if c: "p AND PG_A \<noteq> 0"
  proof -
    have "p OR PG_A = p" by (rule or_flag_set [where k = 5]) (use c in simp_all)
    then show ?thesis using set_flag_id [OF width, of m a PG_A] assms by (simp only:)
  qed
  then show ?thesis using cmpset_flag [of "pf_width F" m a PG_A] assms by auto
qed

lemma ref_path_aligned: "ref_walk F W n p m = Some (path, e) \<Longrightarrow> list_all (\<lambda>a. a mod pf_width F = 0) path"
proof (induction n arbitrary: p path)
  case 0
  then show ?case using entry_aligned unfolding ref_walk.simps [of F W 0] Let_def
    by (auto simp: bind_eq_Some_conv split: if_split_asm)
next
  case (Suc n)
  define a where "a = unat (pf_base F p) + pf_width F * pt_index F (Suc n) (w_gla W)"
  have "path = [] \<or> path = [a] \<or> (\<exists>path'. path = a # path' \<and> ref_walk F W n (pte_at (pf_width F) m a) m = Some (path', e))"
    using Suc.prems unfolding ref_walk.simps [of F W "Suc n"] Let_def a_def [symmetric]
    by (auto simp: bind_eq_Some_conv split: if_split_asm)
  moreover have "a mod pf_width F = 0" unfolding a_def by (rule entry_aligned)
  ultimately show ?case using Suc.IH by auto
qed

end

lemma page_aligned_mod:
  fixes w :: u64
  assumes "\<And>n. n < 12 \<Longrightarrow> \<not> bit w n" "k \<le> 12"
  shows "unat w mod 2 ^ k = 0"
proof -
  have "take_bit k w = 0" using assms by (auto intro!: bit_word_eqI simp: bit_take_bit_iff)
  then show ?thesis by (metis take_bit_eq_mod unsigned_0 unsigned_take_bit_eq)
qed

lemma base32_bits: "n < 12 \<Longrightarrow> \<not> bit (p AND NOT 0xfff) n" for p :: u64
proof -
  have "(0xfff :: u64) = mask 12" by (simp add: mask_eq_exp_minus_1)
  then show "n < 12 \<Longrightarrow> \<not> bit (p AND NOT 0xfff) n" by (simp only: bit_and_iff bit_not_iff bit_mask_iff) simp
qed

lemma base64_bits: "n < 12 \<Longrightarrow> \<not> bit (drop_bit 12 (push_bit 24 p)) n" for p :: u64
  by (simp add: bit_drop_bit_eq bit_push_bit_iff)

interpretation p32: pt_layout fmt32
proof
  fix p q :: u64
  show "pf_width fmt32 = 4 \<or> pf_width fmt32 = 8" by (simp add: fmt32_def)
  show "unat (pf_base fmt32 p) mod pf_width fmt32 = 0" using page_aligned_mod [OF base32_bits, where k = 2] by (simp add: fmt32_def)
  show "noacc p = noacc q \<Longrightarrow> pf_base fmt32 p = pf_base fmt32 q" unfolding fmt32_def pt_format.simps by (rule noacc_flags(6))
qed

interpretation p64: pt_layout fmt64
proof
  fix p q :: u64
  show "pf_width fmt64 = 4 \<or> pf_width fmt64 = 8" by (simp add: fmt64_def)
  show "unat (pf_base fmt64 p) mod pf_width fmt64 = 0"
    using page_aligned_mod [where k = 3, OF base64_bits [where p = "drop_bit 12 p"]] by (simp add: fmt64_def)
  show "noacc p = noacc q \<Longrightarrow> pf_base fmt64 p = pf_base fmt64 q" using noacc_flags(5) [of p q 12] by (simp add: fmt64_def)
qed

text \<open>What a translation yields, by the reference walk: the accessed bits of the entries on the path are set, and the dirty
  bit of the leaf for a write.\<close>

definition ref_result :: "pt_format \<Rightarrow> walk_ctx \<Rightarrow> gmem \<Rightarrow> nat list \<times> walk_end \<Rightarrow> pass_end \<times> gmem" where
  "ref_result F W m r =
     (let (path, e) = r; m1 = (if w_check_only W then m else marks (pf_width F) path m)
      in case e of
           Walk_leaf pte a s \<Rightarrow>
             (Pass_ok (leaf_gpa F W pte s), if w_writable W \<and> \<not> w_check_only W then set_flag (pf_width F) PG_M a m1 else m1)
         | Walk_fault code \<Rightarrow> (Pass_fault code, m1)
         | _ \<Rightarrow> (Pass_error, m1))"

context pt_layout
begin

lemma pte_at_marks:
  "list_all (\<lambda>a. a mod pf_width F = 0) path \<Longrightarrow> a mod pf_width F = 0 \<Longrightarrow>
     pte_at (pf_width F) (marks (pf_width F) path m) a = (if a \<in> set path then pte_at (pf_width F) m a OR PG_A else pte_at (pf_width F) m a)"
  by (induction path arbitrary: m) (auto simp: pte_at_set_flag [OF width] or.assoc)

lemma ref_walk_step:
  fixes p n W
  defines "a \<equiv> unat (pf_base F p) + pf_width F * pt_index F n (w_gla W)"
  assumes "ref_walk F W n p m = Some (path, e)"
  obtains (stop) "path = []" "e \<noteq> Walk_restart" "\<And>x y z. e \<noteq> Walk_leaf x y z"
      "\<And>q mc. acc_eq (pf_width F) m mc \<Longrightarrow> noacc p = noacc q \<Longrightarrow> walk F W n q mc = Some (e, mc)"
      "\<And>q mc. acc_eq (pf_width F) m mc \<Longrightarrow> noacc p = noacc q \<Longrightarrow> ref_walk F W n q mc = Some ([], e)"
  | (fault) "path = [a]" "e \<noteq> Walk_restart" "\<And>x y z. e \<noteq> Walk_leaf x y z"
      "\<And>q mc. acc_eq (pf_width F) m mc \<Longrightarrow> noacc p = noacc q \<Longrightarrow>
         walk F W n q mc = Some (e, if w_check_only W then mc else set_flag (pf_width F) PG_A a mc)"
      "\<And>q mc. acc_eq (pf_width F) m mc \<Longrightarrow> noacc p = noacc q \<Longrightarrow> ref_walk F W n q mc = Some ([a], e)"
  | (leaf) "path = [a]" "e = Walk_leaf (pte_at (pf_width F) m a) a (pt_shift F n)"
      "\<And>q mc. acc_eq (pf_width F) m mc \<Longrightarrow> noacc p = noacc q \<Longrightarrow>
         walk F W n q mc = Some (Walk_leaf (pte_at (pf_width F) mc a) a (pt_shift F n), if w_check_only W then mc else set_flag (pf_width F) PG_A a mc)"
      "\<And>q mc. acc_eq (pf_width F) m mc \<Longrightarrow> noacc p = noacc q \<Longrightarrow>
         ref_walk F W n q mc = Some ([a], Walk_leaf (pte_at (pf_width F) mc a) a (pt_shift F n))"
  | (table) k path' where "n = Suc k" "path = a # path'" "ref_walk F W k (pte_at (pf_width F) m a) m = Some (path', e)"
      "\<And>q mc. acc_eq (pf_width F) m mc \<Longrightarrow> noacc p = noacc q \<Longrightarrow>
         walk F W n q mc = walk F W k (pte_at (pf_width F) mc a) (if w_check_only W then mc else set_flag (pf_width F) PG_A a mc)"
      "\<And>q mc. acc_eq (pf_width F) m mc \<Longrightarrow> noacc p = noacc q \<Longrightarrow>
         ref_walk F W n q mc = map_option (apfst ((#) a)) (ref_walk F W k (pte_at (pf_width F) mc a) mc)"
proof -
  let ?p = "pte_at (pf_width F) m a"
  have al: "a mod pf_width F = 0" unfolding a_def by (rule entry_aligned)
  have cong: "denied W (pte_at (pf_width F) mc a) = denied W ?p" "pte_at (pf_width F) mc a AND PG_PS = ?p AND PG_PS"
    "pf_error_code u pr rs (pte_at (pf_width F) mc a) = pf_error_code u pr rs ?p" if ad: "acc_eq (pf_width F) m mc" for mc u pr rs
  proof -
    have n: "noacc (pte_at (pf_width F) mc a) = noacc ?p" using ad al by (simp add: acc_eq_def)
    show "denied W (pte_at (pf_width F) mc a) = denied W ?p" "pte_at (pf_width F) mc a AND PG_PS = ?p AND PG_PS"
      "pf_error_code u pr rs (pte_at (pf_width F) mc a) = pf_error_code u pr rs ?p"
      using denied_cong [OF n] noacc_flags(4) [OF n] pf_error_code_cong [OF n] by simp_all
  qed
  have R: "ref_walk F W n q mc = do { h \<leftarrow> w_hold W (pf_base F p) 4096; if \<not> h then Some ([], Walk_error)
      else if denied W ?p then Some ([], Walk_fault (pf_error_code (w_usermode W) (w_prot W) False ?p))
      else if n > 0 \<and> ?p AND PG_PS \<noteq> 0
      then Some ([a], if (2::nat) ^ pt_shift F n > 1024 * 1024 * 1024 then Walk_fault (pf_error_code (w_usermode W) (w_prot W) True ?p)
           else Walk_leaf (pte_at (pf_width F) mc a) a (pt_shift F n))
      else (case n of 0 \<Rightarrow> Some ([a], Walk_leaf (pte_at (pf_width F) mc a) a (pt_shift F n))
            | Suc k \<Rightarrow> map_option (apfst ((#) a)) (ref_walk F W k (pte_at (pf_width F) mc a) mc)) }"
    if "acc_eq (pf_width F) m mc" "noacc p = noacc q" for q mc
    unfolding ref_walk.simps [of F W n q mc] Let_def base_cong [OF that(2), symmetric] a_def [symmetric] cong [OF that(1)] by (rule refl)
  have S: "walk F W n q mc = do { h \<leftarrow> w_hold W (pf_base F p) 4096; if \<not> h then Some (Walk_error, mc)
      else if denied W ?p then Some (Walk_fault (pf_error_code (w_usermode W) (w_prot W) False ?p), mc)
      else let mc' = (if w_check_only W then mc else set_flag (pf_width F) PG_A a mc)
      in if n > 0 \<and> ?p AND PG_PS \<noteq> 0
      then (if (2::nat) ^ pt_shift F n > 1024 * 1024 * 1024 then Some (Walk_fault (pf_error_code (w_usermode W) (w_prot W) True ?p), mc')
           else Some (Walk_leaf (pte_at (pf_width F) mc a) a (pt_shift F n), mc'))
      else (case n of 0 \<Rightarrow> Some (Walk_leaf (pte_at (pf_width F) mc a) a (pt_shift F n), mc')
            | Suc k \<Rightarrow> walk F W k (pte_at (pf_width F) mc a) mc') }"
    if "acc_eq (pf_width F) m mc" "noacc p = noacc q" for q mc
    unfolding walk.simps [of F W n q mc] Let_def base_cong [OF that(2), symmetric] a_def [symmetric] accessed_step [OF refl] option.case cong [OF that(1)]
    by (rule refl)
  have r: "ref_walk F W n p m = Some (path, e)" by (rule assms(2))
  obtain h where h: "w_hold W (pf_base F p) 4096 = Some h" using r unfolding R [OF acc_eq_refl refl] by (cases "w_hold W (pf_base F p) 4096") auto
  consider "\<not> h \<or> denied W ?p" | "h" "\<not> denied W ?p" "n > 0 \<and> ?p AND PG_PS \<noteq> 0" "(2::nat) ^ pt_shift F n > 1024 * 1024 * 1024"
    | "h" "\<not> denied W ?p" "n > 0 \<and> ?p AND PG_PS \<noteq> 0" "\<not> (2::nat) ^ pt_shift F n > 1024 * 1024 * 1024"
    | "h" "\<not> denied W ?p" "n = 0" | k where "h" "\<not> denied W ?p" "n = Suc k" "?p AND PG_PS = 0"
    by (cases n) auto
  then show ?thesis
  proof cases
    case 1
    then show ?thesis using stop r R S h unfolding R [OF acc_eq_refl refl] by (cases h) auto
  next
    case 2
    then show ?thesis using fault r R S h unfolding R [OF acc_eq_refl refl] by auto
  next
    case 3
    then show ?thesis using leaf r R S h unfolding R [OF acc_eq_refl refl] by auto
  next
    case 4
    then show ?thesis using leaf r R S h unfolding R [OF acc_eq_refl refl] by auto
  next
    case 5
    then obtain path' where "path = a # path'" "ref_walk F W k ?p m = Some (path', e)" using r h unfolding R [OF acc_eq_refl refl] by auto
    then show ?thesis using table [OF 5(3)] R S h 5 by simp
  qed
qed

text \<open>How a walk from memory \<open>mc\<close> relates to the reference walk from \<open>m\<close>.\<close>

definition walk_rel :: "walk_ctx \<Rightarrow> gmem \<Rightarrow> nat list \<Rightarrow> walk_end \<Rightarrow> walk_end \<times> gmem \<Rightarrow> bool" where
  "walk_rel W mc path e r \<longleftrightarrow> snd r = (if w_check_only W then mc else marks (pf_width F) path mc) \<and> end_eq e (fst r)"

lemma entry_noacc: "acc_eq (pf_width F) m mc \<Longrightarrow>
    noacc (pte_at (pf_width F) m (unat (pf_base F p) + pf_width F * k)) = noacc (pte_at (pf_width F) mc (unat (pf_base F p) + pf_width F * k))"
  using entry_aligned by (simp add: acc_eq_def)

lemma walk_ref:
  assumes "ref_walk F W n p m = Some (path, e)" "acc_eq (pf_width F) m mc" "noacc p = noacc q"
  shows "\<exists>r. walk F W n q mc = Some r \<and> walk_rel W mc path e r"
  using assms
proof (induction n arbitrary: p q path mc)
  case (0 p q path mc)
  show ?case
  proof (cases rule: ref_walk_step [OF 0(1)])
    case 1
    show ?thesis using 1(4) [OF 0(2,3)] 1(1) by (simp add: walk_rel_def)
  next
    case 2
    show ?thesis using 2(4) [OF 0(2,3)] 2(1) by (simp add: walk_rel_def)
  next
    case 3
    show ?thesis using 3(3) [OF 0(2,3)] 3(1,2) entry_noacc [OF 0(2)] by (simp add: walk_rel_def)
  qed simp
next
  case (Suc n p q path mc)
  show ?case
  proof (cases rule: ref_walk_step [OF Suc(2)])
    case 1
    show ?thesis using 1(4) [OF Suc(3,4)] 1(1) by (simp add: walk_rel_def)
  next
    case 2
    show ?thesis using 2(4) [OF Suc(3,4)] 2(1) by (simp add: walk_rel_def)
  next
    case 3
    show ?thesis using 3(3) [OF Suc(3,4)] 3(1,2) entry_noacc [OF Suc(3)] by (simp add: walk_rel_def)
  next
    case (4 k path')
    let ?a = "unat (pf_base F p) + pf_width F * pt_index F (Suc n) (w_gla W)"
    have k: "k = n" using 4(1) by simp
    have ad: "acc_eq (pf_width F) m (if w_check_only W then mc else set_flag (pf_width F) PG_A ?a mc)"
      using Suc(3) acc_eq_set_flag entry_aligned by simp
    show ?thesis using Suc(1) [OF 4(3) [unfolded k] ad entry_noacc [OF Suc(3)]]
      unfolding 4(4) [OF Suc(3,4)] k walk_rel_def 4(2) by (cases "w_check_only W") auto
  qed
qed

lemma ref_walk_acc:
  assumes "ref_walk F W n p m = Some (path, e)" "acc_eq (pf_width F) m mc" "noacc p = noacc q"
  shows "\<exists>e'. ref_walk F W n q mc = Some (path, e') \<and> end_eq e e'"
  using assms
proof (induction n arbitrary: p q path)
  case (0 p q path)
  show ?case
    using 0(2,3) entry_noacc [OF 0(2)] by (cases rule: ref_walk_step [OF 0(1)]) simp_all
next
  case (Suc n p q path)
  show ?case
  proof (cases rule: ref_walk_step [OF Suc(2)])
    case (4 k path')
    have k: "k = n" using 4(1) by simp
    show ?thesis using Suc(1) [OF 4(3) [unfolded k] Suc(3) entry_noacc [OF Suc(3)]] unfolding 4(5) [OF Suc(3,4)] k 4(2) by auto
  qed (use Suc(3,4) entry_noacc [OF Suc(3)] in simp_all)
qed

lemma ref_leaf:
  "ref_walk F W n p m = Some (path, Walk_leaf pte a s) \<Longrightarrow> pte = pte_at (pf_width F) m a \<and> a \<in> set path \<and> a mod pf_width F = 0 \<and> 12 \<le> s"
proof (induction n arbitrary: p path)
  case (0 p path)
  show ?case
  proof (cases rule: ref_walk_step [OF 0])
    case 1
    then show ?thesis by blast
  next
    case 2
    then show ?thesis by blast
  next
    case 3
    then show ?thesis using entry_aligned by (simp add: pt_shift_def)
  qed simp
next
  case (Suc n p path)
  show ?case
  proof (cases rule: ref_walk_step [OF Suc(2)])
    case 1
    then show ?thesis by blast
  next
    case 2
    then show ?thesis by blast
  next
    case 3
    then show ?thesis using entry_aligned by (simp add: pt_shift_def)
  next
    case (4 k path')
    then show ?thesis using Suc(1) [of _ path'] by auto
  qed
qed

lemma ref_no_restart: "ref_walk F W n p m = Some (path, e) \<Longrightarrow> e \<noteq> Walk_restart"
proof (induction n arbitrary: p path)
  case (0 p path)
  show ?case by (cases rule: ref_walk_step [OF 0]) simp_all
next
  case (Suc n p path)
  show ?case by (cases rule: ref_walk_step [OF Suc(2)]) (use Suc(1) in blast)+
qed

lemma ref_total:
  assumes "\<And>p. w_hold W (pf_base F p) 4096 \<noteq> None"
  shows "ref_walk F W n p m \<noteq> None"
proof (induction n arbitrary: p)
  case 0
  obtain h where "w_hold W (pf_base F p) 4096 = Some h" using assms [of p] by blast
  then show ?case unfolding ref_walk.simps [of F W 0] by (simp add: Let_def)
next
  case (Suc n)
  obtain h where "w_hold W (pf_base F p) 4096 = Some h" using assms [of p] by blast
  then show ?case using Suc unfolding ref_walk.simps [of F W "Suc n"] by (simp add: Let_def del: not_None_eq)
qed

lemma walk_accessed:
  assumes "ref_walk F W n p m = Some (path, e)" "\<And>a. a \<in> set path \<Longrightarrow> set_flag (pf_width F) PG_A a m = m"
  shows "walk F W n p m = Some (e, m)"
  using assms
proof (induction n arbitrary: p path)
  case (0 p path)
  show ?case
    by (cases rule: ref_walk_step [OF 0(1)]) (use 0(2) acc_eq_refl in simp_all)
next
  case (Suc n p path)
  show ?case
  proof (cases rule: ref_walk_step [OF Suc(2)])
    case (4 k path')
    then show ?thesis using Suc(1) [of _ path'] Suc(3) 4(4) [OF acc_eq_refl refl] by simp
  qed (use Suc acc_eq_refl in simp_all)
qed

lemma finish_cong:
  assumes "noacc p = noacc p'" "12 \<le> s"
  shows "leaf_gpa F W p s = leaf_gpa F W p' s" "p AND PG_M = p' AND PG_M"
  using noacc_flags(5,7) [OF assms(1)] assms(2) by (simp_all add: leaf_gpa_def)

lemma finish_other:
  assumes "end_eq e e'" "e \<noteq> Walk_restart" "\<And>x y z. e \<noteq> Walk_leaf x y z"
  shows "finish_walk F W (e', if w_check_only W then m else marks (pf_width F) path m) = ref_result F W m (path, e)"
proof (cases e)
  case (Walk_fault c)
  then have "e' = Walk_fault c" using assms(1) by (simp add: end_eq_def)
  then show ?thesis using Walk_fault by (simp add: finish_walk_def ref_result_def)
next
  case Walk_error
  then have "e' = Walk_error" using assms(1) by (simp add: end_eq_def)
  then show ?thesis using Walk_error by (simp add: finish_walk_def ref_result_def)
qed (use assms in simp_all)

lemma finish_leaf:
  assumes "noacc pte = noacc p'" "12 \<le> s" "w_writable W \<Longrightarrow> \<not> w_check_only W \<Longrightarrow> pte_at (pf_width F) m' a AND PG_M = p' AND PG_M"
    and m': "m' = (if w_check_only W then m else marks (pf_width F) path m)"
  shows "finish_walk F W (Walk_leaf p' a s, m') = ref_result F W m (path, Walk_leaf pte a s) \<or>
    \<not> w_check_only W \<and> pte_at (pf_width F) m' a \<noteq> p' \<and> finish_walk F W (Walk_leaf p' a s, m') = (Pass_restart, m')"
proof (cases "w_writable W \<and> \<not> w_check_only W")
  case True
  show ?thesis
  proof (cases "p' AND PG_M = 0")
    case M: True
    then show ?thesis using True finish_cong(1) [OF assms(1,2), of W] m'
      by (simp add: finish_walk_def ref_result_def cmpset_def set_flag_def Let_def)
  next
    case False
    then have "pte_at (pf_width F) m' a OR PG_M = pte_at (pf_width F) m' a" using assms(3) True by (intro or_flag_set [where k = 6]) simp_all
    then have "set_flag (pf_width F) PG_M a m' = m'" by (rule set_flag_id [OF width])
    then show ?thesis using True False finish_cong(1) [OF assms(1,2), of W] m' by (simp add: finish_walk_def ref_result_def Let_def)
  qed
next
  case False
  then have "\<not> (\<not> w_check_only W \<and> w_writable W \<and> p' AND PG_M = 0)" by simp
  then show ?thesis using False finish_cong(1) [OF assms(1,2), of W] m'
    by (cases "w_check_only W") (simp_all add: finish_walk_def ref_result_def Let_def)
qed

lemma end_eq_leaf: "end_eq (Walk_leaf pte a s) e' \<Longrightarrow> \<exists>p'. e' = Walk_leaf p' a s \<and> noacc pte = noacc p'"
  by (cases e') (simp_all add: end_eq_def)

lemma first_pass:
  assumes "ref_walk F W n p m = Some (path, e)"
  shows "map_option (finish_walk F W) (walk F W n p m) = Some (ref_result F W m (path, e)) \<or>
    \<not> w_check_only W \<and> map_option (finish_walk F W) (walk F W n p m) = Some (Pass_restart, marks (pf_width F) path m)"
proof -
  let ?m = "if w_check_only W then m else marks (pf_width F) path m"
  obtain e' where w: "walk F W n p m = Some (e', ?m)" and ee: "end_eq e e'"
    using walk_ref [OF assms acc_eq_refl refl] by (auto simp: walk_rel_def)
  show ?thesis
  proof (cases "\<exists>x y z. e = Walk_leaf x y z")
    case True
    then obtain pte a s where e: "e = Walk_leaf pte a s" by blast
    obtain p' where e': "e' = Walk_leaf p' a s" and n: "noacc pte = noacc p'" using end_eq_leaf ee e by blast
    note l = ref_leaf [OF assms [unfolded e]]
    have "acc_eq (pf_width F) m ?m" using acc_eq_marks [OF acc_eq_refl ref_path_aligned [OF assms]] acc_eq_refl by simp
    then have n': "noacc (pte_at (pf_width F) ?m a) = noacc pte" using l by (simp add: acc_eq_def)
    have "pte_at (pf_width F) ?m a AND PG_M = p' AND PG_M" using noacc_flags(7) [OF n'] noacc_flags(7) [OF n] by simp
    from finish_leaf [OF n _ this refl, where s = s] l show ?thesis unfolding w e e' option.map by (cases "w_check_only W") auto
  next
    case False
    then have "finish_walk F W (e', ?m) = ref_result F W m (path, e)" using ref_no_restart [OF assms] by (intro finish_other ee) blast+
    then show ?thesis unfolding w option.map by simp
  qed
qed

lemma second_pass:
  assumes "ref_walk F W n p m = Some (path, e)" "\<not> w_check_only W" "noacc p = noacc q"
  shows "map_option (finish_walk F W) (walk F W n q (marks (pf_width F) path m)) = Some (ref_result F W m (path, e))"
proof -
  let ?m = "marks (pf_width F) path m"
  note al = ref_path_aligned [OF assms(1)]
  have "acc_eq (pf_width F) m ?m" by (rule acc_eq_marks [OF acc_eq_refl al])
  then obtain e' where r: "ref_walk F W n q ?m = Some (path, e')" and ee: "end_eq e e'" using ref_walk_acc assms(1,3) by blast
  have "set_flag (pf_width F) PG_A a ?m = ?m" if "a \<in> set path" for a
    using that al pte_at_marks [OF al] by (intro set_flag_id [OF width]) (auto simp: list_all_iff or.assoc)
  from walk_accessed [OF r this] have w: "walk F W n q ?m = Some (e', ?m)" by simp
  have m: "?m = (if w_check_only W then m else ?m)" using assms(2) by simp
  show ?thesis
  proof (cases "\<exists>x y z. e = Walk_leaf x y z")
    case True
    then obtain pte a s where e: "e = Walk_leaf pte a s" by blast
    obtain p' where e': "e' = Walk_leaf p' a s" and n: "noacc pte = noacc p'" using end_eq_leaf ee e by blast
    note l = ref_leaf [OF r [unfolded e']]
    from finish_leaf [OF n _ _ m, where s = s and a = a] l show ?thesis unfolding w e e' option.map by auto
  next
    case False
    then have "finish_walk F W (e', if w_check_only W then m else ?m) = ref_result F W m (path, e)"
      using ref_no_restart [OF assms(1)] by (intro finish_other ee) blast+
    then show ?thesis unfolding w option.map using assms(2) by simp
  qed
qed

end

section \<open>Translation against the reference walk\<close>

definition ref_pae :: "walk_ctx \<Rightarrow> u64 \<Rightarrow> gmem \<Rightarrow> (nat list \<times> walk_end) option" where
  "ref_pae W ptpphys m = do {
     root \<leftarrow> w_hold W (ptpphys AND 0xffffffe0) 32;
     if \<not> root then Some ([], Walk_error)
     else let pte = pte_at 8 m (unat (ptpphys AND 0xffffffe0) + 8 * unat (drop_bit 30 (w_gla W) AND 0x3))
          in if pte AND PG_V = 0 then Some ([], Walk_fault (pf_error_code (w_usermode W) (w_prot W) False pte))
             else ref_walk fmt64 W 1 pte m
   }"

definition ref_translate :: "vm_paging_mode \<Rightarrow> walk_ctx \<Rightarrow> u64 \<Rightarrow> gmem \<Rightarrow> (pass_end \<times> gmem) option" where
  "ref_translate mode W cr3 m =
     (case mode of
        PAGING_MODE_FLAT \<Rightarrow> Some (Pass_ok (w_gla W), m)
      | PAGING_MODE_32 \<Rightarrow> map_option (ref_result fmt32 W m) (ref_walk fmt32 W 1 cr3 m)
      | PAGING_MODE_PAE \<Rightarrow> map_option (ref_result fmt64 W m) (ref_pae W cr3 m)
      | PAGING_MODE_64 \<Rightarrow> map_option (ref_result fmt64 W m) (ref_walk fmt64 W 3 cr3 m))"

lemma pae_root_aligned: "(unat (p AND 0xffffffe0) + 8 * k) mod 8 = 0" for p :: u64
proof -
  have "take_bit 3 (p AND 0xffffffe0) = take_bit 3 p AND take_bit 3 0xffffffe0" by (rule take_bit_and)
  then have "take_bit 3 (p AND 0xffffffe0) = 0" by simp
  then have "take_bit 3 (unat (p AND 0xffffffe0)) = 0" by (metis unsigned_0 unsigned_take_bit_eq)
  then show ?thesis by (simp add: take_bit_eq_mod)
qed

lemma ref_result_not_restart: "fst (ref_result F W m r) \<noteq> Pass_restart"
  by (simp add: ref_result_def Let_def split: prod.split walk_end.split)

text \<open>Two passes that agree with the reference, or one that asks for a second.\<close>

lemma two_passes:
  assumes "walk_pass mode W cr3 m = Some r \<or> walk_pass mode W cr3 m = Some (Pass_restart, m') \<and> walk_pass mode W cr3 m' = Some r"
    and "fst r \<noteq> Pass_restart"
  shows "walk_passes 2 mode W cr3 m = Some r"
proof -
  have s: "walk_passes (Suc n) mode W cr3 x = Some r" if "walk_pass mode W cr3 x = Some r" for n x
    using that assms(2) by (cases r) (auto split: pass_end.split)
  have "walk_passes (Suc (Suc 0)) mode W cr3 m = Some r"
    using assms(1)
  proof
    assume "walk_pass mode W cr3 m = Some (Pass_restart, m') \<and> walk_pass mode W cr3 m' = Some r"
    then show ?thesis using s [of m' 0] by (simp only: walk_passes.simps(2) [of "Suc 0"]) simp
  qed (rule s)
  then show ?thesis by (simp add: numeral_2_eq_2)
qed

context pt_layout
begin

lemma layout_passes:
  assumes "ref_walk F W n p m = Some r"
  shows "\<exists>m'. map_option (finish_walk F W) (walk F W n p m) = Some (ref_result F W m r) \<or>
    map_option (finish_walk F W) (walk F W n p m) = Some (Pass_restart, m') \<and>
    (\<forall>q. noacc p = noacc q \<longrightarrow> map_option (finish_walk F W) (walk F W n q m') = Some (ref_result F W m r)) \<and> acc_eq (pf_width F) m m'"
proof -
  obtain path e where r: "r = (path, e)" by fastforce
  note a = assms [unfolded r]
  show ?thesis using first_pass [OF a] second_pass [OF a] acc_eq_marks [OF acc_eq_refl ref_path_aligned [OF a]] unfolding r by blast
qed

end

lemma ref_translate_passes:
  assumes "ref_translate mode W cr3 m = Some r"
  shows "walk_passes 2 mode W cr3 m = Some r"
proof (cases mode)
  case PAGING_MODE_FLAT
  then show ?thesis using assms by (intro two_passes [where m' = m]) (auto simp: ref_translate_def walk_pass_def)
next
  case PAGING_MODE_32
  then obtain x where x: "ref_walk fmt32 W 1 cr3 m = Some x" "r = ref_result fmt32 W m x" using assms by (auto simp: ref_translate_def)
  show ?thesis using p32.layout_passes [OF x(1)] ref_result_not_restart unfolding x(2)
    by (elim exE) (rule two_passes, auto simp: walk_pass_def PAGING_MODE_32)
next
  case PAGING_MODE_64
  then obtain x where x: "ref_walk fmt64 W 3 cr3 m = Some x" "r = ref_result fmt64 W m x" using assms by (auto simp: ref_translate_def)
  show ?thesis using p64.layout_passes [OF x(1)] ref_result_not_restart unfolding x(2)
    by (elim exE) (rule two_passes, auto simp: walk_pass_def PAGING_MODE_64)
next
  case PAGING_MODE_PAE
  then obtain x where x: "ref_pae W cr3 m = Some x" "r = ref_result fmt64 W m x" using assms by (auto simp: ref_translate_def)
  define a where "a = unat (cr3 AND 0xffffffe0) + 8 * unat (drop_bit 30 (w_gla W) AND 0x3)"
  have al: "a mod 8 = 0" unfolding a_def by (rule pae_root_aligned)
  have P: "walk_pass mode W cr3 mc = map_option (finish_walk fmt64 W) (do { h \<leftarrow> w_hold W (cr3 AND 0xffffffe0) 32;
      if \<not> h then Some (Walk_error, mc) else if pte_at 8 mc a AND PG_V = 0
      then Some (Walk_fault (pf_error_code (w_usermode W) (w_prot W) False (pte_at 8 mc a)), mc) else walk fmt64 W 1 (pte_at 8 mc a) mc })" for mc
    unfolding walk_pass_def PAGING_MODE_PAE vm_paging_mode.case walk_pae_def Let_def a_def [symmetric] by (rule refl)
  have R: "ref_pae W cr3 m = (do { h \<leftarrow> w_hold W (cr3 AND 0xffffffe0) 32;
      if \<not> h then Some ([], Walk_error) else if pte_at 8 m a AND PG_V = 0
      then Some ([], Walk_fault (pf_error_code (w_usermode W) (w_prot W) False (pte_at 8 m a))) else ref_walk fmt64 W 1 (pte_at 8 m a) m })"
    unfolding ref_pae_def Let_def a_def [symmetric] by (rule refl)
  obtain h where h: "w_hold W (cr3 AND 0xffffffe0) 32 = Some h" using x(1) unfolding R by (cases "w_hold W (cr3 AND 0xffffffe0) 32") auto
  show ?thesis
  proof (cases "h \<and> pte_at 8 m a AND PG_V \<noteq> 0")
    case False
    then have "walk_pass mode W cr3 m = Some r" using h x unfolding P R by (auto simp: finish_walk_def ref_result_def split: if_split_asm)
    then show ?thesis using two_passes ref_result_not_restart x(2) by blast
  next
    case True
    then have "ref_walk fmt64 W 1 (pte_at 8 m a) m = Some x" using x(1) h unfolding R by simp
    from p64.layout_passes [OF this] obtain m' where
      "map_option (finish_walk fmt64 W) (walk fmt64 W 1 (pte_at 8 m a) m) = Some r \<or>
       map_option (finish_walk fmt64 W) (walk fmt64 W 1 (pte_at 8 m a) m) = Some (Pass_restart, m') \<and>
       (\<forall>q. noacc (pte_at 8 m a) = noacc q \<longrightarrow> map_option (finish_walk fmt64 W) (walk fmt64 W 1 q m') = Some r) \<and> acc_eq 8 m m'"
      unfolding x(2) by (auto simp: fmt64_def)
    moreover have "noacc (pte_at 8 m a) = noacc (pte_at 8 m' a)" if "acc_eq 8 m m'" using that al by (simp add: acc_eq_def)
    moreover have "pte_at 8 m' a AND PG_V = pte_at 8 m a AND PG_V" if "acc_eq 8 m m'" using noacc_flags(1) calculation(2) [OF that] by metis
    ultimately show ?thesis using True h ref_result_not_restart [of fmt64 W m x] unfolding x(2) [symmetric]
      by (intro two_passes [where m' = m']) (auto simp: P)
  qed
qed

section \<open>Properties of the translation\<close>

definition gla_ctx :: "vm_host \<Rightarrow> vm_mem \<Rightarrow> bool \<Rightarrow> vm_guest_paging \<Rightarrow> u64 \<Rightarrow> u32 \<Rightarrow> walk_ctx" where
  "gla_ctx H vm check_only paging gla prot =
     \<lparr>w_hold = ptp_hold H vm, w_check_only = check_only, w_usermode = (pg_cpl paging = 3),
      w_writable = (prot AND PROT_WRITE \<noteq> 0), w_prot = prot, w_gla = gla\<rparr>"

lemma hold32: "ptp_hold H vm (pf_base fmt32 p) 4096 \<noteq> None"
  by (simp add: ptp_hold_def vm_gpa_hold_def fmt32_def and.assoc)

lemma low_bits_0: "(\<And>n. n < 12 \<Longrightarrow> \<not> bit p n) \<Longrightarrow> p AND 0xfff = 0" for p :: u64
proof -
  have "(0xfff :: u64) = mask 12" by (simp add: mask_eq_exp_minus_1)
  moreover assume "\<And>n. n < 12 \<Longrightarrow> \<not> bit p n"
  then have "p AND mask 12 = 0" by (auto intro!: bit_word_eqI simp: bit_and_iff bit_mask_iff)
  ultimately show "p AND 0xfff = 0" by (simp only:)
qed

lemma hold64: "ptp_hold H vm (pf_base fmt64 p) 4096 \<noteq> None"
  using low_bits_0 [OF base64_bits] by (simp add: ptp_hold_def vm_gpa_hold_def fmt64_def)

lemma hold_root: "ptp_hold H vm (p AND 0xffffffe0) 32 \<noteq> None"
proof -
  have "(p AND 0xffffffe0) AND 0xfff = p AND 0xfe0" by (simp add: and.assoc)
  moreover have "p AND 0xfe0 \<le> 0xfe0" by (rule word_and_le1)
  then have "unat (p AND 0xfe0) \<le> 0xfe0" by (simp add: word_le_nat_alt)
  ultimately show ?thesis by (simp add: ptp_hold_def vm_gpa_hold_def)
qed

lemma ref_translate_total: "ref_translate mode (gla_ctx H vm co paging gla prot) cr3 m \<noteq> None"
proof -
  let ?W = "gla_ctx H vm co paging gla prot"
  have h: "w_hold ?W = ptp_hold H vm" by (simp add: gla_ctx_def)
  have r32: "ref_walk fmt32 ?W n p m \<noteq> None" and r64: "ref_walk fmt64 ?W n p m \<noteq> None" for n p
    by (rule p32.ref_total p64.ref_total, unfold h, rule hold32 hold64)+
  obtain b where "w_hold ?W (cr3 AND 0xffffffe0) 32 = Some b" unfolding h using hold_root by blast
  then have "ref_pae ?W cr3 m \<noteq> None" using r64 by (simp add: ref_pae_def Let_def del: not_None_eq)
  then show ?thesis using r32 r64 by (cases mode) (simp_all add: ref_translate_def del: not_None_eq)
qed

lemma passes_reference: "walk_passes 2 mode (gla_ctx H vm co paging gla prot) cr3 m = ref_translate mode (gla_ctx H vm co paging gla prot) cr3 m"
  using ref_translate_total [of mode H vm co paging gla prot cr3 m] ref_translate_passes by force

lemma bind_map_option: "(x \<bind> (\<lambda>y. Some (f y))) = map_option f x"
  by (cases x) simp_all

text \<open>C3. \<^verbatim>\<open>_vm_gla2gpa\<close> computes the architectural translation. A non-canonical address in 64-bit mode raises a general
  protection fault. Otherwise the result is that of a walk over the page tables as they were at the start: the address, the
  page fault with its error code (present, write, user, reserved and fetch bits) or a table that cannot be held; afterwards
  exactly the entries on the path have their accessed bits set and, for a write, the leaf its dirty bit. The restarts that the
  code makes when a compare-and-set fails, because the walk itself has just set the accessed bit, do not show.\<close>

theorem gla2gpa_reference:
  "gla2gpa H vm check_only paging gla prot (vc, m) =
     (if vie_canonical_check (pg_cpu_mode paging) gla
      then map_option (\<lambda>vc. (0, True, 0, vc, m)) (if check_only then Some vc else vm_inject_gp vc)
      else case ref_translate (pg_paging_mode paging) (gla_ctx H vm check_only paging gla prot) (pg_cr3 paging) m of
             Some (Pass_ok gpa, m') \<Rightarrow> Some (0, False, gpa, vc, m')
           | Some (Pass_fault code, m') \<Rightarrow>
               map_option (\<lambda>vc. (0, True, 0, vc, m')) (if check_only then Some vc else vm_inject_pf vc code gla)
           | Some (_, m') \<Rightarrow> Some (EFAULT, False, 0, vc, m')
           | None \<Rightarrow> None)"
  unfolding gla2gpa_def prod.case Let_def gla_ctx_def [symmetric] passes_reference bind_map_option
  by (auto split: option.split pass_end.split)

text \<open>The same, case by case of the reference.\<close>

lemma gla2gpa_cases:
  assumes "ref_translate (pg_paging_mode paging) (gla_ctx H vm co paging gla prot) (pg_cr3 paging) m = Some (r, m')"
    "\<not> vie_canonical_check (pg_cpu_mode paging) gla"
  shows "gla2gpa H vm co paging gla prot (vc, m) =
    (case r of Pass_ok gpa \<Rightarrow> Some (0, False, gpa, vc, m')
     | Pass_fault code \<Rightarrow> map_option (\<lambda>vc. (0, True, 0, vc, m')) (if co then Some vc else vm_inject_pf vc code gla)
     | _ \<Rightarrow> Some (EFAULT, False, 0, vc, m'))"
  using assms(2) unfolding gla2gpa_def prod.case Let_def gla_ctx_def [symmetric] passes_reference assms(1) bind_map_option
  by (cases r) auto

text \<open>Only the flag \<open>check_only\<close> tells the two kinds of walk apart, and it does not change what they find.\<close>

lemma ref_walk_check_only: "ref_walk F (W\<lparr>w_check_only := c\<rparr>) n p m = ref_walk F W n p m"
proof (induction n arbitrary: p)
  case 0
  show ?case unfolding ref_walk.simps [of F _ 0] by (intro Option.bind_cong) (simp_all add: denied_def Let_def)
next
  case (Suc n)
  show ?case unfolding ref_walk.simps [of F _ "Suc n"] by (intro Option.bind_cong) (simp_all add: Suc denied_def Let_def)
qed

lemma ref_result_check_only:
  "ref_result F (W\<lparr>w_check_only := True\<rparr>) m = (\<lambda>r. (fst (ref_result F W m r), m))"
  by (rule ext) (simp add: ref_result_def Let_def leaf_gpa_def split: prod.split walk_end.split)

lemma ref_translate_check_only:
  "ref_translate mode (gla_ctx H vm True paging gla prot) cr3 m =
     map_option (\<lambda>r. (fst r, m)) (ref_translate mode (gla_ctx H vm False paging gla prot) cr3 m)"
proof -
  let ?W = "gla_ctx H vm False paging gla prot"
  have W: "gla_ctx H vm True paging gla prot = ?W\<lparr>w_check_only := True\<rparr>" by (simp add: gla_ctx_def)
  have "ref_pae (?W\<lparr>w_check_only := True\<rparr>) cr3 m = ref_pae ?W cr3 m"
    unfolding ref_pae_def by (intro Option.bind_cong) (simp_all add: ref_walk_check_only Let_def)
  then show ?thesis unfolding W ref_translate_def
    by (cases mode) (simp_all add: ref_walk_check_only ref_result_check_only option.map_comp comp_def)
qed

text \<open>C33. The translation that must not disturb the guest (\<^verbatim>\<open>vm_gla2gpa_nofault\<close>, used by the debugger and by emulation
  that only probes) gives the error, the fault flag and the address that \<^verbatim>\<open>vm_gla2gpa\<close> would give, and leaves guest memory and
  the vcpu as they are: no accessed or dirty bit is set, no exception becomes pending, CR2 keeps its value.\<close>

theorem gla2gpa_nofault_agrees:
  assumes "vm_gla2gpa H vm paging gla prot (vc, m) = Some (error, fault, gpa, vc', m')"
  shows "vm_gla2gpa_nofault H vm paging gla prot (vc, m) = Some (error, fault, gpa, vc, m)"
proof (cases "vie_canonical_check (pg_cpu_mode paging) gla")
  case True
  then show ?thesis using assms by (auto simp: vm_gla2gpa_def vm_gla2gpa_nofault_def gla2gpa_def Let_def bind_map_option)
next
  case False
  obtain r m1 where r: "ref_translate (pg_paging_mode paging) (gla_ctx H vm False paging gla prot) (pg_cr3 paging) m = Some (r, m1)"
    using ref_translate_total by fastforce
  then have "ref_translate (pg_paging_mode paging) (gla_ctx H vm True paging gla prot) (pg_cr3 paging) m = Some (r, m)"
    by (simp add: ref_translate_check_only)
  from gla2gpa_cases [OF this False] gla2gpa_cases [OF r False] show ?thesis
    using assms by (cases r) (auto simp: vm_gla2gpa_def vm_gla2gpa_nofault_def)
qed

text \<open>An exception can be injected once per entry, into a vcpu that runs or is frozen.\<close>

definition injectable :: "vcpu \<Rightarrow> bool" where
  "injectable vc \<longleftrightarrow> \<not> exception_pending vc \<and> (vc_state vc = VCPU_RUNNING \<or> vc_state vc = VCPU_FROZEN)"

lemma inject_fault_ok:
  assumes "injectable vc" "vector < 32" "vector \<noteq> IDT_DF"
  shows "\<exists>vc'. vm_inject_fault vc vector ev code = Some vc' \<and> exception_pending vc' \<and> exc_vector vc' = vector"
  using assms by (auto simp: injectable_def vm_inject_fault_def vm_inject_exception_def vm_restart_instruction_def vm_set_register_def Let_def)

lemma inject_pf_ok: "injectable vc \<Longrightarrow> \<exists>vc'. vm_inject_pf vc code gla = Some vc' \<and> exception_pending vc' \<and> exc_vector vc' = IDT_PF"
  unfolding vm_inject_pf_def by (rule inject_fault_ok) (auto simp: injectable_def vm_set_register_def)


section \<open>Permissions, bits and bytes\<close>

lemma set_flag_other: "x < a \<or> a + w \<le> x \<Longrightarrow> set_flag w b a m x = m x"
  by (simp add: set_flag_def mwr_other)

lemma marks_other: "(\<And>a. a \<in> set path \<Longrightarrow> x < a \<or> a + w \<le> x) \<Longrightarrow> marks w path m x = m x"
  by (induction path arbitrary: m) (simp_all add: set_flag_other)

lemma or_flag_neq: "(p OR 0x20) AND 0x20 \<noteq> 0" "(p OR 0x40) AND 0x40 \<noteq> 0" "(p OR 0x40) AND 0x20 = p AND 0x20" for p :: u64
  by (simp_all add: bit.conj_disj_distrib2)

lemma leaf_gpa_offset:
  assumes "12 \<le> s"
  shows "leaf_gpa F W pte s AND 0xfff = w_gla W AND 0xfff"
proof -
  have b: "bit (leaf_gpa F W pte s) n = bit (w_gla W) n" if "n < 12" for n
  proof -
    have "push_bit s 1 - 1 = (mask s :: u64)" by (simp add: mask_eq_exp_minus_1)
    then show ?thesis using that assms bit_imp_le_length [of "w_gla W" n]
      by (auto simp: leaf_gpa_def bit_or_iff bit_push_bit_iff bit_drop_bit_eq bit_and_iff bit_mask_iff)
  qed
  have "(0xfff :: u64) = mask 12" by (simp add: mask_eq_exp_minus_1)
  moreover have "leaf_gpa F W pte s AND mask 12 = w_gla W AND mask 12" using b by (auto intro!: bit_word_eqI simp: bit_and_iff bit_mask_iff)
  ultimately show ?thesis by (simp only:)
qed

text \<open>What a permitted access leaves behind, for tables of \<open>w\<close>-byte entries.\<close>

definition access_marked :: "nat \<Rightarrow> bool \<Rightarrow> bool \<Rightarrow> gmem \<Rightarrow> gmem \<Rightarrow> nat list \<Rightarrow> bool" where
  "access_marked w user writing m m' path \<longleftrightarrow> path \<noteq> [] \<and>
     (\<forall>a \<in> set path. pte_at w m a AND PG_V \<noteq> 0 \<and> (user \<longrightarrow> pte_at w m a AND PG_U \<noteq> 0) \<and>
        (writing \<longrightarrow> pte_at w m a AND PG_RW \<noteq> 0) \<and> pte_at w m' a AND PG_A \<noteq> 0) \<and>
     (writing \<longrightarrow> pte_at w m' (last path) AND PG_M \<noteq> 0) \<and>
     (\<forall>x. (\<forall>a \<in> set path. x < a \<or> a + w \<le> x) \<longrightarrow> m' x = m x)"

context pt_layout
begin

lemma ref_path_permitted:
  "ref_walk F W n p m = Some (path, Walk_leaf pte a s) \<Longrightarrow>
     path \<noteq> [] \<and> last path = a \<and> (\<forall>b \<in> set path. \<not> denied W (pte_at (pf_width F) m b))"
proof (induction n arbitrary: p path)
  case 0
  then show ?case unfolding ref_walk.simps [of F W 0] by (auto simp: Let_def bind_eq_Some_conv split: if_split_asm)
next
  case (Suc n)
  from Suc.prems obtain b where b: "\<not> denied W (pte_at (pf_width F) m b)"
    "path = [b] \<and> a = b \<or> (\<exists>path'. path = b # path' \<and> ref_walk F W n (pte_at (pf_width F) m b) m = Some (path', Walk_leaf pte a s))"
    unfolding ref_walk.simps [of F W "Suc n"] by (auto simp: Let_def bind_eq_Some_conv split: if_split_asm)
  then show ?case using Suc.IH by fastforce
qed

lemma ref_marked:
  assumes "ref_walk F W n p m = Some r" "ref_result F W m r = (Pass_ok gpa, m')" "\<not> w_check_only W"
  shows "(\<exists>path. access_marked (pf_width F) (w_usermode W) (w_writable W) m m' path) \<and> gpa AND 0xfff = w_gla W AND 0xfff"
proof -
  obtain path pte a s where r: "r = (path, Walk_leaf pte a s)" using assms(2)
    by (auto simp: ref_result_def Let_def split: prod.splits walk_end.splits)
  note w = assms(1) [unfolded r]
  note l = ref_leaf [OF w] and al = ref_path_aligned [OF w] and pp = ref_path_permitted [OF w]
  let ?m = "marks (pf_width F) path m"
  have m': "m' = (if w_writable W then set_flag (pf_width F) PG_M a ?m else ?m)" and gpa: "gpa = leaf_gpa F W pte s"
    using assms(2,3) by (auto simp: r ref_result_def Let_def)
  have "pte_at (pf_width F) m' b AND PG_A \<noteq> 0" if b: "b \<in> set path" for b
    using pte_at_marks [OF al, of b m] pte_at_set_flag [OF width, of b a PG_M ?m] al l b or_flag_neq
    by (auto simp: m' list_all_iff)
  moreover have "pte_at (pf_width F) m' a AND PG_M \<noteq> 0" if "w_writable W"
    using pte_at_set_flag [OF width, of a a PG_M ?m] l that or_flag_neq by (simp add: m')
  moreover have "m' x = m x" if "\<forall>a \<in> set path. x < a \<or> a + pf_width F \<le> x" for x
    using that marks_other [of path x "pf_width F" m] set_flag_other [of x a "pf_width F"] l by (simp add: m')
  ultimately have "access_marked (pf_width F) (w_usermode W) (w_writable W) m m' path"
    using pp unfolding access_marked_def denied_def by blast
  then show ?thesis using leaf_gpa_offset [of s F W pte] l gpa by blast
qed

end

lemma translate_marked:
  assumes "ref_translate mode (gla_ctx H vm False paging gla prot) cr3 m = Some (Pass_ok gpa, m')"
  shows "(mode \<noteq> PAGING_MODE_FLAT \<longrightarrow> (\<exists>path. access_marked (if mode = PAGING_MODE_32 then 4 else 8) (pg_cpl paging = 3) (prot AND PROT_WRITE \<noteq> 0) m m' path))
    \<and> gpa AND 0xfff = gla AND 0xfff"
proof -
  let ?W = "gla_ctx H vm False paging gla prot"
  have W: "\<not> w_check_only ?W" "w_usermode ?W = (pg_cpl paging = 3)" "w_writable ?W = (prot AND PROT_WRITE \<noteq> 0)" "w_gla ?W = gla"
    by (simp_all add: gla_ctx_def)
  have pae: "\<exists>p. ref_walk fmt64 ?W 1 p m = Some r" if "ref_pae ?W cr3 m = Some r" "ref_result fmt64 ?W m r = (Pass_ok gpa, m')" for r
    using that by (auto simp: ref_pae_def ref_result_def Let_def bind_eq_Some_conv split: if_split_asm)
  have w: "pf_width fmt32 = 4" "pf_width fmt64 = 8" by (simp_all add: fmt32_def fmt64_def)
  show ?thesis
    using assms p32.ref_marked [of ?W _ _ m _ gpa m', OF _ _ W(1)] p64.ref_marked [of ?W _ _ m _ gpa m', OF _ _ W(1)] pae
    unfolding w W(2-4) by (cases mode) (auto simp: ref_translate_def W(4))
qed

lemma gla2gpa_ok_reference:
  assumes "vm_gla2gpa H vm paging gla prot (vc, m) = Some (0, False, gpa, vc', m')"
  shows "ref_translate (pg_paging_mode paging) (gla_ctx H vm False paging gla prot) (pg_cr3 paging) m = Some (Pass_ok gpa, m') \<and> vc' = vc"
proof -
  have c: "\<not> vie_canonical_check (pg_cpu_mode paging) gla"
    using assms by (auto simp: vm_gla2gpa_def gla2gpa_def Let_def bind_map_option)
  obtain r m1 where r: "ref_translate (pg_paging_mode paging) (gla_ctx H vm False paging gla prot) (pg_cr3 paging) m = Some (r, m1)"
    using ref_translate_total by fastforce
  from gla2gpa_cases [OF r c, of vc] assms show ?thesis by (cases r) (auto simp: vm_gla2gpa_def r)
qed


section \<open>Copies\<close>

lemma gla2gpa_offset: "vm_gla2gpa H vm paging gla prot (vc, m) = Some (0, False, gpa, st) \<Longrightarrow> gpa AND 0xfff = gla AND 0xfff"
  using gla2gpa_ok_reference [of H vm paging gla prot vc m gpa "fst st" "snd st"] translate_marked by (cases st) auto

lemma next_page_offset:
  fixes gla :: u64
  shows "(gla + of_nat (4096 - unat (gla AND 0xfff))) AND 0xfff = 0"
proof -
  have m: "(0xfff :: u64) = mask 12" by (simp add: mask_eq_exp_minus_1)
  have o: "unat (gla AND 0xfff) = unat gla mod 4096" unfolding m unat_and_mask by simp
  have "unat (gla + of_nat k) mod 4096 = (unat gla + k) mod 4096" for k
  proof -
    have "(k mod 18446744073709551616) mod 4096 = k mod 4096" by (simp add: mod_mod_cancel)
    then have "(unat gla + k mod 18446744073709551616) mod 4096 = (unat gla + k) mod 4096" by (metis mod_add_right_eq)
    then show ?thesis by (simp add: unat_word_ariths unsigned_of_nat take_bit_eq_mod mod_mod_cancel)
  qed
  also have "unat gla + (4096 - unat gla mod 4096) = 4096 * (unat gla div 4096 + 1)"
  proof -
    have "q + r + (4096 - r) = q + (4096 :: nat)" if "r < 4096" for q r :: nat using that by simp
    from this [of "unat gla mod 4096" "4096 * (unat gla div 4096)"] show ?thesis by simp
  qed
  also have "\<dots> mod 4096 = 0" by (rule mod_mult_self1_is_0)
  finally have "unat ((gla + of_nat (4096 - unat gla mod 4096)) AND mask 12) = 0" unfolding unat_and_mask by simp
  then show ?thesis unfolding o unfolding m by (simp only: unsigned_0 word_unat_eq_iff)
qed

text \<open>The pieces of a copy: up to the end of the first page, then from the start of the next one.\<close>

definition pieces_ok :: "nat \<Rightarrow> copyinfo \<Rightarrow> bool" where
  "pieces_ok len infos \<longleftrightarrow> infos = [] \<and> len = 0
     \<or> (\<exists>gpa n. infos = [(gpa, n)] \<and> n = len \<and> unat (gpa AND 0xfff) + n \<le> 4096)
     \<or> (\<exists>gpa n gpa' n'. infos = [(gpa, n), (gpa', n')] \<and> n + n' = len \<and> unat (gpa AND 0xfff) + n = 4096 \<and> gpa' AND 0xfff = 0 \<and> n' \<le> 4096)"

lemma copy_segments_0 [simp]: "copy_segments H vm paging gla 0 prot slots st = Some (0, False, [], st)"
  unfolding copy_segments.simps [of _ _ _ _ 0] by simp

lemma copy_segments_1:
  "len \<noteq> 0 \<Longrightarrow> slots \<noteq> 0 \<Longrightarrow> copy_segments H vm paging gla len prot slots st = do {
     (error, fault, gpa, st) \<leftarrow> vm_gla2gpa H vm paging gla prot st;
     if error \<noteq> 0 \<or> fault then Some (error, fault, [], st)
     else do {
       (error, fault, infos, st) \<leftarrow> copy_segments H vm paging (gla + of_nat (min len (4096 - unat (gpa AND 0xfff))))
          (len - min len (4096 - unat (gpa AND 0xfff))) prot (slots - 1) st;
       Some (error, fault, (gpa, min len (4096 - unat (gpa AND 0xfff))) # infos, st)
     }
   }"
  unfolding copy_segments.simps [of _ _ _ _ len] unfolding Let_def by simp

lemma copy_segments_pieces:
  assumes "copy_segments H vm paging gla len prot 2 st = Some (0, False, infos, st')" "len \<le> 4096"
  shows "pieces_ok len infos"
proof (cases "len = 0")
  case True
  then show ?thesis using assms by (simp add: pieces_ok_def)
next
  case False
  obtain vc m where st: "st = (vc, m)" by fastforce
  from assms(1) False obtain gpa st1 infos1 where g: "vm_gla2gpa H vm paging gla prot st = Some (0, False, gpa, st1)"
    and c: "copy_segments H vm paging (gla + of_nat (min len (4096 - unat (gpa AND 0xfff)))) (len - min len (4096 - unat (gpa AND 0xfff))) prot 1 st1
      = Some (0, False, infos1, st')"
    and i: "infos = (gpa, min len (4096 - unat (gpa AND 0xfff))) # infos1"
    unfolding copy_segments.simps [of _ _ _ _ _ _ 2] by (auto simp: bind_eq_Some_conv Let_def split: if_split_asm)
  have off: "gpa AND 0xfff = gla AND 0xfff" using gla2gpa_offset g unfolding st by blast
  have lt: "unat (gpa AND 0xfff) < 4096" using unat_and_mask_le [of gpa "0xfff"] by simp
  show ?thesis
  proof (cases "len \<le> 4096 - unat (gpa AND 0xfff)")
    case True
    then show ?thesis using c i lt by (simp add: pieces_ok_def min_def)
  next
    case F: False
    let ?n = "4096 - unat (gpa AND 0xfff)"
    obtain gpa2 st2 infos2 where g2: "vm_gla2gpa H vm paging (gla + of_nat ?n) prot st1 = Some (0, False, gpa2, st2)"
      and c2: "copy_segments H vm paging (gla + of_nat ?n + of_nat (min (len - ?n) (4096 - unat (gpa2 AND 0xfff))))
         (len - ?n - min (len - ?n) (4096 - unat (gpa2 AND 0xfff))) prot 0 st2 = Some (0, False, infos2, st')"
      and i2: "infos1 = (gpa2, min (len - ?n) (4096 - unat (gpa2 AND 0xfff))) # infos2"
      using c F unfolding copy_segments.simps [of _ _ _ _ _ _ 1] by (auto simp: bind_eq_Some_conv Let_def min_def split: if_split_asm)
    have "gpa2 AND 0xfff = (gla + of_nat ?n) AND 0xfff" using gla2gpa_offset g2 by (cases st1) blast
    also have "\<dots> = 0" using next_page_offset [of gla] off by simp
    finally have o2: "gpa2 AND 0xfff = 0" .
    then have "infos2 = []" using c2 assms(2) by (simp add: copy_segments.simps)
    then show ?thesis using i i2 o2 F lt assms(2) by (simp add: pieces_ok_def min_def)
  qed
qed

text \<open>Two pieces of at most a page together do not overlap, even when both pages of the guest are the same page of memory.\<close>

lemma pieces_apart:
  fixes gpa gpa' :: u64
  assumes "unat (gpa AND 0xfff) + n = 4096" "gpa' AND 0xfff = 0" "n + n' \<le> 4096"
  shows "unat gpa + n \<le> unat gpa' \<or> unat gpa' + n' \<le> unat gpa"
proof -
  have "(0xfff :: u64) = mask 12" by (simp add: mask_eq_exp_minus_1)
  then have "unat (p AND 0xfff) = unat p mod 4096" for p :: u64 by (simp only: unat_and_mask) simp
  then have "unat gpa mod 4096 + n = 4096" "unat gpa' mod 4096 = 0" using assms(1,2) by (metis, metis unsigned_0)
  moreover have "unat gpa = 4096 * (unat gpa div 4096) + unat gpa mod 4096" "unat gpa' = 4096 * (unat gpa' div 4096) + unat gpa' mod 4096"
    by simp_all
  moreover have "unat gpa' div 4096 \<le> unat gpa div 4096 \<or> unat gpa div 4096 + 1 \<le> unat gpa' div 4096" by linarith
  ultimately show ?thesis using assms(3) by linarith
qed

lemma hold_all_total: "(\<And>gpa n. (gpa, n) \<in> set infos \<Longrightarrow> unat (gpa AND 0xfff) + n \<le> 4096) \<Longrightarrow> hold_all H vm prot infos \<noteq> None"
proof (induction infos)
  case (Cons i infos)
  obtain gpa n where i: "i = (gpa, n)" by fastforce
  obtain h where h: "hold_all H vm prot infos = Some h" using Cons by auto
  have "unat (gpa AND 0xfff) + n \<le> 4096" using Cons(2) [of gpa n] i by simp
  then have "vm_gpa_hold H vm prot gpa n \<noteq> None" by (simp add: vm_gpa_hold_def)
  then show ?case using h i by auto
qed simp

definition ends_well :: "vcpu \<Rightarrow> (int \<times> bool \<times> 'a \<times> gstate) option \<Rightarrow> bool" where
  "ends_well vc r \<longleftrightarrow> (case r of
     Some (error, fault, x, vc', m') \<Rightarrow> error \<in> {0, EFAULT} \<and> (error \<noteq> 0 \<longrightarrow> \<not> fault) \<and> (if fault then exception_pending vc' else vc' = vc)
   | None \<Rightarrow> False)"

lemma ends_well_Some [simp]:
  "ends_well vc (Some (error, fault, x, vc', m')) \<longleftrightarrow> error \<in> {0, EFAULT} \<and> (error \<noteq> 0 \<longrightarrow> \<not> fault) \<and> (if fault then exception_pending vc' else vc' = vc)"
  by (simp add: ends_well_def)

lemma ends_wellE:
  assumes "ends_well vc r"
  obtains error fault x vc' m' where "r = Some (error, fault, x, vc', m')" "error \<in> {0, EFAULT} \<and> (error \<noteq> 0 \<longrightarrow> \<not> fault)" "if fault then exception_pending vc' else vc' = vc"
  using assms that unfolding ends_well_def by (auto split: option.splits)

lemma gla2gpa_end:
  assumes "injectable vc"
  shows "ends_well vc (vm_gla2gpa H vm paging gla prot (vc, m))"
proof (cases "vie_canonical_check (pg_cpu_mode paging) gla")
  case True
  obtain vc' where "vm_inject_gp vc = Some vc'" "exception_pending vc'"
    unfolding vm_inject_gp_def using inject_fault_ok [OF assms, of IDT_GP True 0] by auto
  then show ?thesis using True by (simp add: vm_gla2gpa_def gla2gpa_def Let_def)
next
  case False
  obtain r m1 where r: "ref_translate (pg_paging_mode paging) (gla_ctx H vm False paging gla prot) (pg_cr3 paging) m = Some (r, m1)"
    using ref_translate_total by fastforce
  show ?thesis
  proof (cases r)
    case (Pass_fault code)
    then show ?thesis using gla2gpa_cases [OF r False] inject_pf_ok [OF assms, of code gla] by (auto simp: vm_gla2gpa_def)
  qed (use gla2gpa_cases [OF r False] in \<open>simp_all add: vm_gla2gpa_def\<close>)
qed

lemma copy_segments_one:
  assumes "injectable vc" "len \<le> 4096" "gla AND 0xfff = 0"
  shows "ends_well vc (copy_segments H vm paging gla len prot 1 (vc, m))"
proof (cases "len = 0")
  case True
  then show ?thesis by simp
next
  case False
  obtain error fault gpa vc' m' where g: "vm_gla2gpa H vm paging gla prot (vc, m) = Some (error, fault, gpa, vc', m')"
    "error \<in> {0, EFAULT} \<and> (error \<noteq> 0 \<longrightarrow> \<not> fault)" "if fault then exception_pending vc' else vc' = vc" by (rule ends_wellE [OF gla2gpa_end [OF assms(1)]])
  show ?thesis
  proof (cases "error \<noteq> 0 \<or> fault")
    case True
    then show ?thesis using g False by (simp add: copy_segments_1)
  next
    case F: False
    then have "gpa AND 0xfff = 0" using gla2gpa_offset [of H vm paging gla prot vc m gpa "(vc', m')"] g(1) assms(3) by simp
    then show ?thesis using g False F assms(2) by (simp add: copy_segments_1 min_def)
  qed
qed

lemma copy_segments_total:
  assumes "injectable vc" "len \<le> 4096"
  shows "ends_well vc (copy_segments H vm paging gla len prot 2 (vc, m))"
proof (cases "len = 0")
  case True
  then show ?thesis by simp
next
  case False
  obtain error fault gpa vc1 m1 where g: "vm_gla2gpa H vm paging gla prot (vc, m) = Some (error, fault, gpa, vc1, m1)"
    "error \<in> {0, EFAULT} \<and> (error \<noteq> 0 \<longrightarrow> \<not> fault)" "if fault then exception_pending vc1 else vc1 = vc" by (rule ends_wellE [OF gla2gpa_end [OF assms(1)]])
  show ?thesis
  proof (cases "error \<noteq> 0 \<or> fault")
    case True
    then show ?thesis using g False by (simp add: copy_segments_1)
  next
    case F: False
    let ?n = "min len (4096 - unat (gpa AND 0xfff))"
    have off: "gpa AND 0xfff = gla AND 0xfff" using gla2gpa_offset [of H vm paging gla prot vc m gpa "(vc1, m1)"] g(1) F by simp
    have lt: "unat (gpa AND 0xfff) < 4096" using unat_and_mask_le [of gpa "0xfff"] by simp
    have "ends_well vc (copy_segments H vm paging (gla + of_nat ?n) (len - ?n) prot 1 (vc, m1))"
    proof (cases "len \<le> 4096 - unat (gpa AND 0xfff)")
      case True
      then show ?thesis by (simp add: min_def)
    next
      case False
      then have "(gla + of_nat ?n) AND 0xfff = 0" using next_page_offset [of gla] off by (simp add: min_def)
      then show ?thesis using copy_segments_one [OF assms(1)] assms(2) by simp
    qed
    then show ?thesis using g False F by (auto simp: copy_segments_1 elim!: ends_wellE)
  qed
qed

lemma copy_pieces:
  assumes "pieces_ok (length bs) infos" "length bs \<le> 4096"
  shows "\<exists>m'. vm_copyout m bs infos = Some m' \<and> vm_copyin m' infos (length bs) = Some bs"
proof (cases "bs = []")
  case True
  then show ?thesis by simp
next
  case False
  then obtain b bs' where b: "bs = b # bs'" by (cases bs) auto
  from assms(1) False consider gpa where "infos = [(gpa, length bs)]"
    | gpa n gpa' n' where "infos = [(gpa, n), (gpa', n')]" "n + n' = length bs" "unat (gpa AND 0xfff) + n = 4096" "gpa' AND 0xfff = 0"
    unfolding pieces_ok_def by auto
  then show ?thesis
  proof cases
    case 1
    then show ?thesis using poke_same [of m "unat gpa" bs] by (simp add: b)
  next
    case 2
    let ?m1 = "poke m (unat gpa) (take n bs)"
    let ?m2 = "poke ?m1 (unat gpa') (drop n bs)"
    have out: "vm_copyout m bs infos = Some ?m2"
    proof (cases "drop n bs")
      case Nil
      then show ?thesis using 2(1,2) by (simp add: b)
    next
      case (Cons c cs)
      then have "length (c # cs) = n'" using 2(2) by (metis add_diff_cancel_left' length_drop)
      then show ?thesis using 2(1,2) Cons by (simp add: b)
    qed
    have l: "length (drop n bs) = n'" "length (take n bs) = n" using 2(2) by simp_all
    have "unat gpa + n \<le> unat gpa' \<or> unat gpa' + length (drop n bs) \<le> unat gpa"
      unfolding l using pieces_apart [OF 2(3,4), of n'] 2(2) assms(2) by simp
    then have "peek ?m2 (unat gpa) n = take n bs"
      using poke_same [of m "unat gpa" "take n bs"] unfolding l(2) by (metis peek_poke_other)
    moreover have "peek ?m2 (unat gpa') n' = drop n bs" using poke_same [of ?m1 "unat gpa'" "drop n bs"] 2(2) by (metis add_diff_cancel_left' length_drop)
    ultimately have "vm_copyin ?m2 infos (length bs) = Some bs"
      using 2(1,2) by (cases "length bs - n"; cases "n'") (auto simp: b)
    then show ?thesis using out by blast
  qed
qed

lemma copy_setup_pieces:
  assumes "vm_copy_setup H vm paging gla len prot st = Some (0, False, infos, st')" "len \<le> 4096"
  shows "pieces_ok len infos"
proof -
  have "copy_segments H vm paging gla len prot 2 st = Some (0, False, infos, st')"
    using assms(1) by (auto simp: vm_copy_setup_def bind_eq_Some_conv split: if_split_asm)
  from copy_segments_pieces [OF this assms(2)] show ?thesis .
qed

lemma copyin_pieces: "pieces_ok len infos \<Longrightarrow> \<exists>bs. vm_copyin m infos len = Some bs \<and> length bs = len"
proof -
  assume "pieces_ok len infos"
  then consider "len = 0" | gpa where "len \<noteq> 0" "infos = [(gpa, len)]" | gpa n gpa' n' where "len \<noteq> 0" "infos = [(gpa, n), (gpa', n')]" "n + n' = len"
    unfolding pieces_ok_def by fastforce
  then show ?thesis
  proof cases
    case 1
    then show ?thesis by simp
  next
    case 2
    then show ?thesis by (cases len) auto
  next
    case 3
    then show ?thesis by (cases len; cases n') auto
  qed
qed

lemma copy_setup_end:
  assumes "injectable vc" "len \<le> 4096"
  shows "ends_well vc (vm_copy_setup H vm paging gla len prot (vc, m))"
proof -
  obtain error fault infos vc' m' where c: "copy_segments H vm paging gla len prot 2 (vc, m) = Some (error, fault, infos, (vc', m'))"
    "error \<in> {0, EFAULT} \<and> (error \<noteq> 0 \<longrightarrow> \<not> fault)" "if fault then exception_pending vc' else vc' = vc"
    by (rule ends_wellE [OF copy_segments_total [OF assms]])
  show ?thesis
  proof (cases "error = 0 \<and> \<not> fault")
    case True
    then have p: "pieces_ok len infos" using copy_segments_pieces [of H vm paging gla len prot "(vc, m)" infos] c(1) assms(2) by auto
    have "hold_all H vm prot infos \<noteq> None" by (rule hold_all_total) (use p in \<open>auto simp: pieces_ok_def\<close>)
    then show ?thesis using True c by (auto simp: vm_copy_setup_def)
  next
    case False
    then show ?thesis using c by (auto simp: vm_copy_setup_def)
  qed
qed

text \<open>Copies between the guest and the kernel round trip: when \<^verbatim>\<open>vm_copy_setup\<close> has prepared a copy of at most a page at a
  linear address, writing bytes with \<^verbatim>\<open>vm_copyout\<close> and reading them with \<^verbatim>\<open>vm_copyin\<close> gives them back, also when the range
  crosses into the next page and whatever physical pages the two are. Every piece stays inside its page.\<close>

theorem copy_roundtrip:
  assumes "vm_copy_setup H vm paging gla (length bs) prot st = Some (0, False, infos, (vc, m))" "length bs \<le> 4096"
  shows "(\<exists>m'. vm_copyout m bs infos = Some m' \<and> vm_copyin m' infos (length bs) = Some bs) \<and>
    (\<forall>(gpa, n) \<in> set infos. unat (gpa AND 0xfff) + n \<le> 4096)"
proof -
  note p = copy_setup_pieces [OF assms]
  have "\<forall>(gpa, n) \<in> set infos. unat (gpa AND 0xfff) + n \<le> 4096" using p by (auto simp: pieces_ok_def)
  then show ?thesis using copy_pieces [OF p assms(2)] by blast
qed

text \<open>Preparing a copy of at most a page never panics on a vcpu that can take an exception: two entries are enough for the
  pages, and each piece that \<^verbatim>\<open>vm_gpa_hold\<close> is asked to hold stays inside its page. The result is 0 or EFAULT; a fault goes with the result 0 and is pending
  in the vcpu, and otherwise the vcpu has not changed.\<close>

theorem copy_setup_total:
  assumes "injectable vc" "len \<le> 4096"
  shows "ends_well vc (vm_copy_setup H vm paging gla len prot (vc, m))"
  by (rule copy_setup_end [OF assms])

section \<open>A translation at work\<close>

text \<open>A guest with four gigabytes of memory, two levels of tables and the same byte everywhere: every entry maps its own table.\<close>

definition flat_vm :: vm_mem where
  "flat_vm = \<lparr>mem_maps = (\<lambda>_. map_zero)(0 := \<lparr>mm_gpa = 0, mm_len = 0x100000000, mm_segoff = 0, mm_segid = 0, mm_prot = 7, mm_flags = 0\<rparr>),
     mem_segs = (\<lambda>_. seg_zero)(0 := \<lparr>ms_len = 0x100000000, ms_sysmem = True, ms_object = True\<rparr>)\<rparr>"

definition two_level :: vm_guest_paging where
  "two_level = \<lparr>pg_cr3 = 0x1000, pg_cpl = 0, pg_cpu_mode = CPU_MODE_PROTECTED, pg_paging_mode = PAGING_MODE_32\<rparr>"

lemma flat_hold:
  assumes "len \<le> 4096 - unat (gpa AND 0xfff)" "gpa < 0x100000000"
  shows "vm_gpa_hold free_host flat_vm prot gpa len = Some True"
proof -
  have "in_sysmem flat_vm gpa" unfolding in_sysmem_def
    by (rule bexI [of _ 0]) (use assms(2) in \<open>simp_all add: flat_vm_def sysmem_mapping_def\<close>)
  then show ?thesis using assms(1) by (simp add: vm_gpa_hold_def free_host_def)
qed

lemma const_pte: "pte_at 4 (\<lambda>_. 3) a = 0x03030303" "pte_at 4 (\<lambda>_. 0x63) a = 0x63636363"
proof -
  have "peek (\<lambda>_. c) a 4 = [c, c, c, c]" for c by (simp add: peek_def map_replicate_const numeral_eq_Suc)
  then show "pte_at 4 (\<lambda>_. 3) a = 0x03030303" "pte_at 4 (\<lambda>_. 0x63) a = 0x63636363" by (simp_all add: pte_at_def mrd_def)
qed

lemma fresh_table_walk:
  "ref_walk fmt32 (gla_ctx free_host flat_vm False two_level 0x123 2) 1 0x1000 (\<lambda>_. 3) =
     Some ([0x1000, 0x3030000], Walk_leaf 0x03030303 0x3030000 12)"
  by (simp add: ref_walk.simps fmt32_def gla_ctx_def flat_hold ptp_hold_def const_pte pt_index_def pt_shift_def denied_def two_level_def)

lemma used_table_walk:
  assumes "gla = 0xffe \<or> gla = 0x1000"
  shows "\<exists>a. ref_walk fmt32 (gla_ctx free_host flat_vm False two_level gla 2) 1 0x1000 (\<lambda>_. 0x63) = Some ([0x1000, a], Walk_leaf 0x63636363 a 12)"
  using assms by (auto simp: ref_walk.simps fmt32_def gla_ctx_def flat_hold ptp_hold_def const_pte pt_index_def pt_shift_def denied_def two_level_def)

lemma used_set_flag: "b = 0x20 \<or> b = 0x40 \<Longrightarrow> set_flag 4 b a (\<lambda>_. 0x63) = (\<lambda>_. 0x63)"
  by (rule set_flag_id) (auto simp: const_pte)

lemma fresh_translate:
  "\<exists>m'. vm_gla2gpa free_host flat_vm two_level 0x123 2 (vcpu_fresh, \<lambda>_. 3) = Some (0, False, 0x3030123, vcpu_fresh, m')"
proof -
  have "ref_translate (pg_paging_mode two_level) (gla_ctx free_host flat_vm False two_level 0x123 2) (pg_cr3 two_level) (\<lambda>_. 3) =
     Some (Pass_ok 0x3030123, set_flag 4 PG_M 0x3030000 (marks 4 [0x1000, 0x3030000] (\<lambda>_. 3)))"
    using fresh_table_walk
    by (simp add: ref_translate_def two_level_def ref_result_def gla_ctx_def leaf_gpa_def fmt32_def Let_def del: marks_simps)
  from gla2gpa_cases [OF this] show ?thesis by (simp add: vm_gla2gpa_def two_level_def vie_canonical_check_def)
qed

lemma used_translate:
  assumes "gla = 0xffe \<or> gla = 0x1000"
  shows "vm_gla2gpa free_host flat_vm two_level gla 2 (vc, \<lambda>_. 0x63) = Some (0, False, 0x63636000 OR (gla AND 0xfff), vc, \<lambda>_. 0x63)"
proof -
  obtain a where w: "ref_walk fmt32 (gla_ctx free_host flat_vm False two_level gla 2) 1 0x1000 (\<lambda>_. 0x63) = Some ([0x1000, a], Walk_leaf 0x63636363 a 12)"
    using used_table_walk [OF assms] by blast
  have "ref_translate (pg_paging_mode two_level) (gla_ctx free_host flat_vm False two_level gla 2) (pg_cr3 two_level) (\<lambda>_. 0x63) =
     Some (Pass_ok (0x63636000 OR (gla AND 0xfff)), \<lambda>_. 0x63)"
    using w by (simp add: ref_translate_def two_level_def ref_result_def gla_ctx_def leaf_gpa_def fmt32_def Let_def used_set_flag)
  from gla2gpa_cases [OF this] show ?thesis by (simp add: vm_gla2gpa_def two_level_def vie_canonical_check_def)
qed


theorem gla2gpa_nofault_agrees_witness:
  "vm_gla2gpa_nofault free_host flat_vm two_level 0x123 2 (vcpu_fresh, \<lambda>_. 3) = Some (0, False, 0x3030123, vcpu_fresh, \<lambda>_. 3)"
  using fresh_translate gla2gpa_nofault_agrees by blast


theorem copy_setup_total_witness: "ends_well vcpu_fresh (vm_copy_setup free_host flat_vm two_level 0xffe 4 2 (vcpu_fresh, \<lambda>_. 0x63))"
proof -
  have "injectable vcpu_fresh" "(4::nat) \<le> 4096" by (simp_all add: injectable_def vcpu_fresh_def)
  then show ?thesis by (rule copy_setup_total)
qed

lemma used_copy_setup:
  "vm_copy_setup free_host flat_vm two_level 0xffe 4 2 (vc, \<lambda>_. 0x63) = Some (0, False, [(0x63636ffe, 2), (0x63636000, 2)], (vc, \<lambda>_. 0x63))"
proof -
  have "copy_segments free_host flat_vm two_level 0x1000 2 2 1 (vc, \<lambda>_. 0x63) = Some (0, False, [(0x63636000, 2)], (vc, \<lambda>_. 0x63))"
    by (simp add: copy_segments_1 used_translate)
  then have "copy_segments free_host flat_vm two_level 0xffe 4 2 2 (vc, \<lambda>_. 0x63) = Some (0, False, [(0x63636ffe, 2), (0x63636000, 2)], (vc, \<lambda>_. 0x63))"
    by (simp add: copy_segments_1 used_translate)
  then show ?thesis by (simp add: vm_copy_setup_def flat_hold)
qed

theorem copy_roundtrip_witness:
  "\<exists>m'. vm_copyout (\<lambda>_. 0x63) [1, 2, 3, 4] [(0x63636ffe, 2), (0x63636000, 2)] = Some m' \<and>
     vm_copyin m' [(0x63636ffe, 2), (0x63636000, 2)] 4 = Some [1, 2, 3, 4]"
proof -
  have l: "length [1, 2, 3, 4::u8] = 4" by simp
  have cs: "vm_copy_setup free_host flat_vm two_level 0xffe (length [1, 2, 3, 4::u8]) 2 (vcpu_fresh, \<lambda>_. 0x63) =
      Some (0, False, [(0x63636ffe, 2), (0x63636000, 2)], (vcpu_fresh, \<lambda>_. 0x63))"
    unfolding l by (rule used_copy_setup)
  have "length [1, 2, 3, 4::u8] \<le> 4096" by simp
  from copy_roundtrip [OF cs this] have "\<exists>m'. vm_copyout (\<lambda>_. 0x63) [1, 2, 3, 4] [(0x63636ffe, 2), (0x63636000, 2)] = Some m' \<and>
     vm_copyin m' [(0x63636ffe, 2), (0x63636000, 2)] (length [1, 2, 3, 4::u8]) = Some [1, 2, 3, 4]" by (rule conjunct1)
  then show ?thesis unfolding l .
qed

end
