(* ===== verification/Instr_Decode.thy ===== *)
theory Instr_Decode
  imports Guest_Paging
begin

text \<open>
  The instruction decoder of \<^verbatim>\<open>vmm/vmm_instruction_emul.c\<close>: prefixes with REX and VEX, the opcode tables, ModRM and SIB
  bytes, displacement, immediate and memory offset, and the check of the address that the decoded operand denotes
  against the address of the fault. The result of a stage is \<open>None\<close> for a panic, \<open>Some None\<close> for the return value
  \<open>-1\<close> and \<open>Some (Some vie)\<close> for 0; a failed decoding leaves nothing that the callers use. \<open>struct vie\<close> is that of the
  header, which gives an instruction 15 bytes (\<^verbatim>\<open>VIE_INST_SIZE\<close>).
\<close>

section \<open>Opcodes\<close>

datatype vie_op_type =
    VIE_OP_TYPE_NONE | VIE_OP_TYPE_MOV | VIE_OP_TYPE_MOVSX | VIE_OP_TYPE_MOVZX | VIE_OP_TYPE_AND | VIE_OP_TYPE_OR
  | VIE_OP_TYPE_SUB | VIE_OP_TYPE_TWO_BYTE | VIE_OP_TYPE_PUSH | VIE_OP_TYPE_CMP | VIE_OP_TYPE_POP | VIE_OP_TYPE_MOVS
  | VIE_OP_TYPE_GROUP1 | VIE_OP_TYPE_STOS | VIE_OP_TYPE_BITTEST | VIE_OP_TYPE_TWOB_GRP15 | VIE_OP_TYPE_ADD
  | VIE_OP_TYPE_TEST | VIE_OP_TYPE_BEXTR

record vie_op =
  op_byte :: u8
  op_type :: vie_op_type
  op_flags :: u8

abbreviation (input) VIE_OP_F_IMM :: u8 where "VIE_OP_F_IMM \<equiv> 1"
abbreviation (input) VIE_OP_F_IMM8 :: u8 where "VIE_OP_F_IMM8 \<equiv> 2"
abbreviation (input) VIE_OP_F_MOFFSET :: u8 where "VIE_OP_F_MOFFSET \<equiv> 4"
abbreviation (input) VIE_OP_F_NO_MODRM :: u8 where "VIE_OP_F_NO_MODRM \<equiv> 8"
abbreviation (input) VIE_OP_F_NO_GLA_VERIFICATION :: u8 where "VIE_OP_F_NO_GLA_VERIFICATION \<equiv> 16"

definition op_none :: vie_op where
  "op_none = \<lparr>op_byte = 0, op_type = VIE_OP_TYPE_NONE, op_flags = 0\<rparr>"

text \<open>A table of 256 entries from those that it initialises.\<close>

definition opcode_table :: "(u8 \<times> vie_op_type \<times> u8) list \<Rightarrow> u8 \<Rightarrow> vie_op" where
  "opcode_table tab x =
     (case map_of tab x of Some (ty, flags) \<Rightarrow> \<lparr>op_byte = x, op_type = ty, op_flags = flags\<rparr> | None \<Rightarrow> op_none)"

definition three_byte_list :: "(u8 \<times> vie_op_type \<times> u8) list" where
  "three_byte_list = [(0xF7, VIE_OP_TYPE_BEXTR, 0)]"

definition two_byte_list :: "(u8 \<times> vie_op_type \<times> u8) list" where
  "two_byte_list =
     [(0xAE, VIE_OP_TYPE_TWOB_GRP15, 0), (0xB6, VIE_OP_TYPE_MOVZX, 0), (0xB7, VIE_OP_TYPE_MOVZX, 0),
      (0xBA, VIE_OP_TYPE_BITTEST, VIE_OP_F_IMM8), (0xBE, VIE_OP_TYPE_MOVSX, 0)]"

definition one_byte_list :: "(u8 \<times> vie_op_type \<times> u8) list" where
  "one_byte_list =
     [(0x03, VIE_OP_TYPE_ADD, 0), (0x0F, VIE_OP_TYPE_TWO_BYTE, 0), (0x0B, VIE_OP_TYPE_OR, 0), (0x2B, VIE_OP_TYPE_SUB, 0),
      (0x39, VIE_OP_TYPE_CMP, 0), (0x3B, VIE_OP_TYPE_CMP, 0), (0x88, VIE_OP_TYPE_MOV, 0), (0x89, VIE_OP_TYPE_MOV, 0),
      (0x8A, VIE_OP_TYPE_MOV, 0), (0x8B, VIE_OP_TYPE_MOV, 0),
      (0xA1, VIE_OP_TYPE_MOV, VIE_OP_F_MOFFSET OR VIE_OP_F_NO_MODRM), (0xA3, VIE_OP_TYPE_MOV, VIE_OP_F_MOFFSET OR VIE_OP_F_NO_MODRM),
      (0xA4, VIE_OP_TYPE_MOVS, VIE_OP_F_NO_MODRM OR VIE_OP_F_NO_GLA_VERIFICATION),
      (0xA5, VIE_OP_TYPE_MOVS, VIE_OP_F_NO_MODRM OR VIE_OP_F_NO_GLA_VERIFICATION),
      (0xAA, VIE_OP_TYPE_STOS, VIE_OP_F_NO_MODRM OR VIE_OP_F_NO_GLA_VERIFICATION),
      (0xAB, VIE_OP_TYPE_STOS, VIE_OP_F_NO_MODRM OR VIE_OP_F_NO_GLA_VERIFICATION),
      (0xC6, VIE_OP_TYPE_MOV, VIE_OP_F_IMM8), (0xC7, VIE_OP_TYPE_MOV, VIE_OP_F_IMM), (0x23, VIE_OP_TYPE_AND, 0),
      (0x80, VIE_OP_TYPE_GROUP1, VIE_OP_F_IMM8), (0x81, VIE_OP_TYPE_GROUP1, VIE_OP_F_IMM),
      (0x83, VIE_OP_TYPE_GROUP1, VIE_OP_F_IMM8), (0x8F, VIE_OP_TYPE_POP, 0), (0xF7, VIE_OP_TYPE_TEST, VIE_OP_F_IMM),
      (0xFF, VIE_OP_TYPE_PUSH, 0)]"

definition three_byte_opcodes_0f38 :: "u8 \<Rightarrow> vie_op" where
  "three_byte_opcodes_0f38 = opcode_table three_byte_list"

definition two_byte_opcodes :: "u8 \<Rightarrow> vie_op" where
  "two_byte_opcodes = opcode_table two_byte_list"

definition one_byte_opcodes :: "u8 \<Rightarrow> vie_op" where
  "one_byte_opcodes = opcode_table one_byte_list"

section \<open>Decoder state\<close>

record vie =
  v_inst :: "nat \<Rightarrow> u8"
  v_num_valid :: nat
  v_num_processed :: nat
  v_addrsize :: nat
  v_opsize :: nat
  v_rex_w :: bool
  v_rex_r :: bool
  v_rex_x :: bool
  v_rex_b :: bool
  v_rex_present :: bool
  v_repz_present :: bool
  v_repnz_present :: bool
  v_opsize_override :: bool
  v_addrsize_override :: bool
  v_segment_override :: bool
  v_vex_present :: bool
  v_vex_l :: bool
  v_vex_pp :: nat
  v_vex_reg :: nat
  v_mod :: nat
  v_reg :: nat
  v_rm :: nat
  v_ss :: nat
  v_index :: nat
  v_base :: nat
  v_disp_bytes :: nat
  v_imm_bytes :: nat
  v_scale :: nat
  v_base_register :: vm_reg_name
  v_index_register :: vm_reg_name
  v_segment_register :: vm_reg_name
  v_displacement :: u64
  v_immediate :: u64
  v_decoded :: bool
  v_op :: vie_op

abbreviation (input) VIE_INST_SIZE :: nat where "VIE_INST_SIZE \<equiv> 15"
abbreviation (input) VIE_MOD_INDIRECT :: nat where "VIE_MOD_INDIRECT \<equiv> 0"
abbreviation (input) VIE_MOD_INDIRECT_DISP8 :: nat where "VIE_MOD_INDIRECT_DISP8 \<equiv> 1"
abbreviation (input) VIE_MOD_INDIRECT_DISP32 :: nat where "VIE_MOD_INDIRECT_DISP32 \<equiv> 2"
abbreviation (input) VIE_MOD_DIRECT :: nat where "VIE_MOD_DIRECT \<equiv> 3"
abbreviation (input) VIE_RM_SIB :: nat where "VIE_RM_SIB \<equiv> 4"
abbreviation (input) VIE_RM_DISP32 :: nat where "VIE_RM_DISP32 \<equiv> 5"
abbreviation (input) VIE_INVALID_GLA :: u64 where "VIE_INVALID_GLA \<equiv> 0x8000000000000000"

definition gpr_map :: "vm_reg_name list" where
  "gpr_map =
     [VM_REG_GUEST_RAX, VM_REG_GUEST_RCX, VM_REG_GUEST_RDX, VM_REG_GUEST_RBX, VM_REG_GUEST_RSP, VM_REG_GUEST_RBP,
      VM_REG_GUEST_RSI, VM_REG_GUEST_RDI, VM_REG_GUEST_R8, VM_REG_GUEST_R9, VM_REG_GUEST_R10, VM_REG_GUEST_R11,
      VM_REG_GUEST_R12, VM_REG_GUEST_R13, VM_REG_GUEST_R14, VM_REG_GUEST_R15]"

definition vie_init :: "u8 list \<Rightarrow> vie option" where
  "vie_init inst_bytes =
     (if length inst_bytes > VIE_INST_SIZE then None
      else Some \<lparr>v_inst = (\<lambda>i. if i < length inst_bytes then inst_bytes ! i else 0), v_num_valid = length inst_bytes,
        v_num_processed = 0, v_addrsize = 0, v_opsize = 0, v_rex_w = False, v_rex_r = False, v_rex_x = False, v_rex_b = False,
        v_rex_present = False, v_repz_present = False, v_repnz_present = False, v_opsize_override = False,
        v_addrsize_override = False, v_segment_override = False, v_vex_present = False, v_vex_l = False, v_vex_pp = 0,
        v_vex_reg = 0, v_mod = 0, v_reg = 0, v_rm = 0, v_ss = 0, v_index = 0, v_base = 0, v_disp_bytes = 0, v_imm_bytes = 0,
        v_scale = 0, v_base_register = VM_REG_LAST, v_index_register = VM_REG_LAST, v_segment_register = VM_REG_LAST,
        v_displacement = 0, v_immediate = 0, v_decoded = False, v_op = op_none\<rparr>)"

type_synonym decoding = "vie option option"

definition decode_then :: "decoding \<Rightarrow> (vie \<Rightarrow> decoding) \<Rightarrow> decoding" where
  "decode_then r f = (case r of None \<Rightarrow> None | Some None \<Rightarrow> Some None | Some (Some vie) \<Rightarrow> f vie)"

definition vie_peek :: "vie \<Rightarrow> u8 option" where
  "vie_peek vie = (if v_num_processed vie < v_num_valid vie then Some (v_inst vie (v_num_processed vie)) else None)"

definition vie_advance :: "vie \<Rightarrow> vie" where
  "vie_advance vie = vie\<lparr>v_num_processed := v_num_processed vie + 1\<rparr>"

section \<open>Stages\<close>

definition segment_override :: "u8 \<Rightarrow> vm_reg_name option" where
  "segment_override x =
     (if x = 0x2E then Some VM_REG_GUEST_CS else if x = 0x36 then Some VM_REG_GUEST_SS else if x = 0x3E then Some VM_REG_GUEST_DS
      else if x = 0x26 then Some VM_REG_GUEST_ES else if x = 0x64 then Some VM_REG_GUEST_FS
      else if x = 0x65 then Some VM_REG_GUEST_GS else None)"

definition legacy_prefix :: "u8 \<Rightarrow> vie \<Rightarrow> vie option" where
  "legacy_prefix x vie =
     (if x = 0x66 then Some (vie\<lparr>v_opsize_override := True\<rparr>)
      else if x = 0x67 then Some (vie\<lparr>v_addrsize_override := True\<rparr>)
      else if x = 0xF3 then Some (vie\<lparr>v_repz_present := True\<rparr>)
      else if x = 0xF2 then Some (vie\<lparr>v_repnz_present := True\<rparr>)
      else case segment_override x of
             Some seg \<Rightarrow> Some (vie\<lparr>v_segment_register := seg, v_segment_override := True\<rparr>)
           | None \<Rightarrow> None)"

text \<open>The loop over the legacy prefixes, with the byte that ends it.\<close>

fun prefix_loop :: "nat \<Rightarrow> vie \<Rightarrow> (u8 \<times> vie) option" where
  "prefix_loop n vie =
     (case vie_peek vie of
        None \<Rightarrow> None
      | Some x \<Rightarrow>
          (case legacy_prefix x vie of
             None \<Rightarrow> Some (x, vie)
           | Some vie \<Rightarrow> (case n of 0 \<Rightarrow> None | Suc n \<Rightarrow> prefix_loop n (vie_advance vie))))"

declare prefix_loop.simps [simp del]

definition rex_prefix :: "vm_cpu_mode \<Rightarrow> u8 \<Rightarrow> vie \<Rightarrow> vie" where
  "rex_prefix mode x vie =
     (if mode = CPU_MODE_64BIT \<and> x \<ge> 0x40 \<and> x \<le> 0x4F
      then vie_advance (vie\<lparr>v_rex_present := True, v_rex_w := (x AND 0x8 \<noteq> 0), v_rex_r := (x AND 0x4 \<noteq> 0),
             v_rex_x := (x AND 0x2 \<noteq> 0), v_rex_b := (x AND 0x1 \<noteq> 0)\<rparr>)
      else vie)"

text \<open>The second and the third byte of a VEX prefix.\<close>

definition vex_byte2 :: "u8 \<Rightarrow> vie \<Rightarrow> vie" where
  "vex_byte2 x vie = vie\<lparr>v_rex_r := (x AND 0x80 = 0), v_rex_x := (x AND 0x40 = 0), v_rex_b := (x AND 0x20 = 0)\<rparr>"

definition vex_byte3 :: "u8 \<Rightarrow> vie \<Rightarrow> vie" where
  "vex_byte3 x vie =
     (let vie = vie\<lparr>v_rex_w := (x AND 0x80 \<noteq> 0), v_vex_reg := unat (drop_bit 3 (NOT x AND 0x78)),
                    v_vex_l := (x AND 0x4 \<noteq> 0), v_vex_pp := unat (x AND 0x3)\<rparr>
      in if v_vex_pp vie = 1 then vie\<lparr>v_opsize_override := True\<rparr>
         else if v_vex_pp vie = 2 then vie\<lparr>v_repz_present := True\<rparr>
         else if v_vex_pp vie = 3 then vie\<lparr>v_repnz_present := True\<rparr> else vie)"

definition vex_prefix :: "vie \<Rightarrow> vie option" where
  "vex_prefix vie =
     (let vie = vie_advance (vie\<lparr>v_vex_present := True\<rparr>)
      in case vie_peek vie of
           None \<Rightarrow> None
         | Some x \<Rightarrow>
             if x AND 0x1F \<noteq> 0x2 then None
             else let vie = vie_advance (vex_byte2 x vie)
                  in case vie_peek vie of
                       None \<Rightarrow> None
                     | Some x \<Rightarrow>
                         let vie = vie_advance (vex_byte3 x vie)
                         in case vie_peek vie of
                              None \<Rightarrow> None
                            | Some x \<Rightarrow>
                                let vie = vie\<lparr>v_op := three_byte_opcodes_0f38 x\<rparr>
                                in if op_type (v_op vie) = VIE_OP_TYPE_NONE then None else Some (vie_advance vie))"

definition default_sizes :: "vm_cpu_mode \<Rightarrow> bool \<Rightarrow> vie \<Rightarrow> vie" where
  "default_sizes mode cs_d vie =
     (if mode = CPU_MODE_64BIT
      then vie\<lparr>v_addrsize := (if v_addrsize_override vie then 4 else 8),
               v_opsize := (if v_rex_w vie then 8 else if v_opsize_override vie then 2 else 4)\<rparr>
      else if cs_d
      then vie\<lparr>v_addrsize := (if v_addrsize_override vie then 2 else 4), v_opsize := (if v_opsize_override vie then 2 else 4)\<rparr>
      else vie\<lparr>v_addrsize := (if v_addrsize_override vie then 4 else 2), v_opsize := (if v_opsize_override vie then 4 else 2)\<rparr>)"

text \<open>The loop needs at most one round per byte.\<close>

definition decode_prefixes :: "vie \<Rightarrow> vm_cpu_mode \<Rightarrow> bool \<Rightarrow> decoding" where
  "decode_prefixes vie mode cs_d = Some (do {
     (x, vie) \<leftarrow> prefix_loop (v_num_valid vie) vie;
     let vie = rex_prefix mode x vie;
     vie \<leftarrow> (if (mode = CPU_MODE_64BIT \<or> mode = CPU_MODE_COMPATIBILITY) \<and> x = 0xC4 then vex_prefix vie else Some vie);
     Some (default_sizes mode cs_d vie)
   })"

definition decode_two_byte_opcode :: "vie \<Rightarrow> decoding" where
  "decode_two_byte_opcode vie = Some (do {
     x \<leftarrow> vie_peek vie;
     let vie = vie\<lparr>v_op := two_byte_opcodes x\<rparr>;
     if op_type (v_op vie) = VIE_OP_TYPE_NONE then None else Some (vie_advance vie)
   })"

definition decode_opcode :: "vie \<Rightarrow> decoding" where
  "decode_opcode vie =
     (case vie_peek vie of
        None \<Rightarrow> Some None
      | Some x \<Rightarrow>
          if op_type (v_op vie) \<noteq> VIE_OP_TYPE_NONE then Some (Some vie)
          else let vie = vie\<lparr>v_op := one_byte_opcodes x\<rparr>
               in if op_type (v_op vie) = VIE_OP_TYPE_NONE then Some None
                  else let vie = vie_advance vie
                       in if op_type (v_op vie) = VIE_OP_TYPE_TWO_BYTE then decode_two_byte_opcode vie else Some (Some vie))"

text \<open>The fields of a ModRM byte, the bits that a REX prefix adds, and the base register with the size of the displacement.\<close>

definition modrm_fields :: "u8 \<Rightarrow> vie \<Rightarrow> vie" where
  "modrm_fields x vie = vie\<lparr>v_mod := unat (drop_bit 6 x AND 0x3), v_rm := unat (x AND 0x7), v_reg := unat (drop_bit 3 x AND 0x7)\<rparr>"

definition modrm_rex :: "vie \<Rightarrow> vie" where
  "modrm_rex vie =
     (let vie = (if v_mod vie = VIE_MOD_INDIRECT \<and> v_rm vie = VIE_RM_DISP32 \<or> v_mod vie \<noteq> VIE_MOD_DIRECT \<and> v_rm vie = VIE_RM_SIB
                 then vie else vie\<lparr>v_rm := v_rm vie OR (if v_rex_b vie then 8 else 0)\<rparr>)
      in vie\<lparr>v_reg := v_reg vie OR (if v_rex_r vie then 8 else 0)\<rparr>)"

definition modrm_base :: "vm_cpu_mode \<Rightarrow> vie \<Rightarrow> vie" where
  "modrm_base mode vie =
     (let vie = vie\<lparr>v_base_register := gpr_map ! v_rm vie\<rparr>
      in if v_mod vie = VIE_MOD_INDIRECT_DISP8 then vie\<lparr>v_disp_bytes := 1\<rparr>
         else if v_mod vie = VIE_MOD_INDIRECT_DISP32 then vie\<lparr>v_disp_bytes := 4\<rparr>
         else if v_mod vie = VIE_MOD_INDIRECT \<and> v_rm vie = VIE_RM_DISP32
         then vie\<lparr>v_disp_bytes := 4, v_base_register := (if mode = CPU_MODE_64BIT then VM_REG_GUEST_RIP else VM_REG_LAST)\<rparr>
         else vie)"

definition decode_modrm :: "vie \<Rightarrow> vm_cpu_mode \<Rightarrow> decoding" where
  "decode_modrm vie mode =
     (if op_flags (v_op vie) AND VIE_OP_F_NO_MODRM \<noteq> 0 then Some (Some vie)
      else if mode = CPU_MODE_REAL then Some None
      else case vie_peek vie of
             None \<Rightarrow> Some None
           | Some x \<Rightarrow>
               let vie = modrm_fields x vie
               in if v_mod vie = VIE_MOD_DIRECT then Some None
                  else let vie = modrm_rex vie
                       in if v_mod vie \<noteq> VIE_MOD_DIRECT \<and> v_rm vie = VIE_RM_SIB then Some (Some (vie_advance vie))
                          else Some (Some (vie_advance (modrm_base mode vie))))"

text \<open>The fields of a SIB byte, the base register with the size of the displacement, and the index register with its scale.\<close>

definition sib_fields :: "u8 \<Rightarrow> vie \<Rightarrow> vie" where
  "sib_fields x vie =
     vie\<lparr>v_ss := unat (drop_bit 6 x AND 0x3), v_index := unat (drop_bit 3 x AND 0x7) OR (if v_rex_x vie then 8 else 0),
         v_base := unat (x AND 0x7) OR (if v_rex_b vie then 8 else 0)\<rparr>"

definition sib_base :: "vie \<Rightarrow> vie" where
  "sib_base vie =
     (let vie = (if v_mod vie = VIE_MOD_INDIRECT_DISP8 then vie\<lparr>v_disp_bytes := 1\<rparr>
                 else if v_mod vie = VIE_MOD_INDIRECT_DISP32 then vie\<lparr>v_disp_bytes := 4\<rparr> else vie)
      in if v_mod vie = VIE_MOD_INDIRECT \<and> (v_base vie = 5 \<or> v_base vie = 13) then vie\<lparr>v_disp_bytes := 4\<rparr>
         else vie\<lparr>v_base_register := gpr_map ! v_base vie\<rparr>)"

definition sib_index :: "vie \<Rightarrow> vie" where
  "sib_index vie =
     (let vie = (if v_index vie \<noteq> 4 then vie\<lparr>v_index_register := gpr_map ! v_index vie\<rparr> else vie)
      in if v_index_register vie \<noteq> VM_REG_LAST then vie\<lparr>v_scale := 2 ^ v_ss vie\<rparr> else vie)"

definition decode_sib :: "vie \<Rightarrow> decoding" where
  "decode_sib vie =
     (if v_mod vie = VIE_MOD_DIRECT \<or> v_rm vie \<noteq> VIE_RM_SIB then Some (Some vie)
      else case vie_peek vie of
             None \<Rightarrow> Some None
           | Some x \<Rightarrow> Some (Some (vie_advance (sib_index (sib_base (sib_fields x vie))))))"

text \<open>The next \<open>n\<close> bytes of the instruction.\<close>

fun take_bytes :: "nat \<Rightarrow> vie \<Rightarrow> (u8 list \<times> vie) option" where
  "take_bytes 0 vie = Some ([], vie)"
| "take_bytes (Suc n) vie = do {
     x \<leftarrow> vie_peek vie;
     (xs, vie) \<leftarrow> take_bytes n (vie_advance vie);
     Some (x # xs, vie)
   }"

text \<open>Bytes as a signed little-endian number, as a 64-bit word.\<close>

definition sign_extend :: "u8 list \<Rightarrow> u64" where
  "sign_extend bs = of_int (signed_take_bit (8 * length bs - 1) (int (le_val bs)))"

definition decode_displacement :: "vie \<Rightarrow> decoding" where
  "decode_displacement vie =
     (let n = v_disp_bytes vie
      in if n = 0 then Some (Some vie)
         else if n \<noteq> 1 \<and> n \<noteq> 4 then None
         else Some (do { (bs, vie) \<leftarrow> take_bytes n vie; Some (vie\<lparr>v_displacement := sign_extend bs\<rparr>) }))"

definition decode_immediate :: "vie \<Rightarrow> decoding" where
  "decode_immediate vie =
     (let vie = (if op_flags (v_op vie) AND VIE_OP_F_IMM \<noteq> 0
                 then vie\<lparr>v_imm_bytes := (if v_opsize vie = 4 \<or> v_opsize vie = 8 then 4 else 2)\<rparr>
                 else if op_flags (v_op vie) AND VIE_OP_F_IMM8 \<noteq> 0 then vie\<lparr>v_imm_bytes := 1\<rparr> else vie);
          n = v_imm_bytes vie
      in if n = 0 then Some (Some vie)
         else if n \<noteq> 1 \<and> n \<noteq> 2 \<and> n \<noteq> 4 then None
         else Some (do { (bs, vie) \<leftarrow> take_bytes n vie; Some (vie\<lparr>v_immediate := sign_extend bs\<rparr>) }))"

definition decode_moffset :: "vie \<Rightarrow> decoding" where
  "decode_moffset vie =
     (if op_flags (v_op vie) AND VIE_OP_F_MOFFSET = 0 then Some (Some vie)
      else let n = v_addrsize vie
           in if n \<noteq> 2 \<and> n \<noteq> 4 \<and> n \<noteq> 8 then None
              else Some (do { (bs, vie) \<leftarrow> take_bytes n vie; Some (vie\<lparr>v_displacement := of_nat (le_val bs)\<rparr>) }))"

section \<open>The address check and the decoder\<close>

definition verify_seg :: "vie \<Rightarrow> vm_reg_name" where
  "verify_seg vie =
     (if v_segment_override vie then v_segment_register vie
      else if v_base_register vie = VM_REG_GUEST_RSP \<or> v_base_register vie = VM_REG_GUEST_RBP then VM_REG_GUEST_SS
      else VM_REG_GUEST_DS)"

text \<open>Whether the check passes.\<close>

definition verify_gla :: "vcpu \<Rightarrow> u64 \<Rightarrow> vie \<Rightarrow> vm_cpu_mode \<Rightarrow> bool" where
  "verify_gla vc gla vie mode =
     (if gla = VIE_INVALID_GLA then True
      else let (error, base) = (if v_base_register vie \<noteq> VM_REG_LAST then vm_get_register vc (v_base_register vie) else (0, 0));
               base = (if v_base_register vie = VM_REG_GUEST_RIP then base + of_nat (v_num_processed vie) else base)
           in if error \<noteq> 0 then False
              else let (error, idx) = (if v_index_register vie \<noteq> VM_REG_LAST then vm_get_register vc (v_index_register vie) else (0, 0))
                   in if error \<noteq> 0 then False
                      else let seg = verify_seg vie;
                               (error, desc) = vm_get_seg_desc vc seg;
                               flat = (mode = CPU_MODE_64BIT \<and> seg \<noteq> VM_REG_GUEST_FS \<and> seg \<noteq> VM_REG_GUEST_GS)
                           in if \<not> flat \<and> error \<noteq> 0 then False
                              else let segbase = (if flat then 0 else sd_base desc)
                                   in gla = (segbase + base + of_nat (v_scale vie) * idx + v_displacement vie) AND size2mask (v_addrsize vie))"

definition vmm_decode_instruction :: "vcpu \<Rightarrow> u64 \<Rightarrow> vm_cpu_mode \<Rightarrow> bool \<Rightarrow> vie \<Rightarrow> decoding" where
  "vmm_decode_instruction vc gla mode cs_d vie =
     decode_then (decode_prefixes vie mode cs_d) (\<lambda>vie.
     decode_then (decode_opcode vie) (\<lambda>vie.
     decode_then (decode_modrm vie mode) (\<lambda>vie.
     decode_then (decode_sib vie) (\<lambda>vie.
     decode_then (decode_displacement vie) (\<lambda>vie.
     decode_then (decode_immediate vie) (\<lambda>vie.
     decode_then (decode_moffset vie) (\<lambda>vie.
     if op_flags (v_op vie) AND VIE_OP_F_NO_GLA_VERIFICATION = 0 \<and> \<not> verify_gla vc gla vie mode then Some None
     else Some (Some (vie\<lparr>v_decoded := True\<rparr>)))))))))"

section \<open>What a decoded instruction looks like\<close>

lemma decode_then_simps [simp]:
  "decode_then None f = None" "decode_then (Some None) f = Some None" "decode_then (Some (Some v)) f = f v"
  by (simp_all add: decode_then_def)

text \<open>No panic, and the predicate on success.\<close>

definition yields :: "(vie \<Rightarrow> bool) \<Rightarrow> decoding \<Rightarrow> bool" where
  "yields P r \<longleftrightarrow> (case r of None \<Rightarrow> False | Some None \<Rightarrow> True | Some (Some v) \<Rightarrow> P v)"

lemma yields_simps [simp]: "\<not> yields P None" "yields P (Some None)" "yields P (Some (Some v)) = P v"
  by (simp_all add: yields_def)

lemma yields_then: "yields P r \<Longrightarrow> (\<And>v. P v \<Longrightarrow> yields Q (f v)) \<Longrightarrow> yields Q (decode_then r f)"
  unfolding yields_def decode_then_def by (cases r; cases "the r"; force)

lemma yields_bind: "(\<And>v. x = Some v \<Longrightarrow> P v) \<Longrightarrow> yields P (Some x)"
  by (cases x) simp_all

definition op_known :: "vie_op \<Rightarrow> bool" where
  "op_known opc \<longleftrightarrow> (op_byte opc, op_type opc, op_flags opc) \<in> set three_byte_list \<union> set two_byte_list \<union> set one_byte_list"

definition bytes_ok :: "vie \<Rightarrow> bool" where
  "bytes_ok v \<longleftrightarrow> v_num_processed v \<le> v_num_valid v \<and> v_num_valid v \<le> VIE_INST_SIZE"

text \<open>What holds at every stage.\<close>

definition fields_ok :: "vie \<Rightarrow> bool" where
  "fields_ok v \<longleftrightarrow> v_reg v < 16 \<and> v_vex_reg v < 16 \<and> v_rm v < 16 \<and> v_mod v < 3 \<and> v_disp_bytes v \<in> {0, 1, 4} \<and> v_imm_bytes v \<in> {0, 1, 2, 4} \<and>
     v_scale v \<in> {0, 1, 2, 4, 8} \<and> v_base_register v \<in> set gpr_map \<union> {VM_REG_GUEST_RIP, VM_REG_LAST} \<and>
     v_index_register v \<in> set gpr_map - {VM_REG_GUEST_RSP} \<union> {VM_REG_LAST} \<and>
     (v_segment_override v \<longrightarrow> data_segment (v_segment_register v))"

definition sizes_ok :: "vm_cpu_mode \<Rightarrow> vie \<Rightarrow> bool" where
  "sizes_ok mode v \<longleftrightarrow> v_opsize v \<in> (if mode = CPU_MODE_64BIT then {2, 4, 8} else {2, 4}) \<and>
     v_addrsize v \<in> (if mode = CPU_MODE_64BIT then {4, 8} else {2, 4})"

definition op_ok :: "vie \<Rightarrow> bool" where
  "op_ok v \<longleftrightarrow> op_known (v_op v) \<and> op_type (v_op v) \<noteq> VIE_OP_TYPE_NONE"

lemma bytes_ok_advance: "vie_peek v = Some x \<Longrightarrow> bytes_ok v \<Longrightarrow> bytes_ok (vie_advance v)"
  by (simp add: bytes_ok_def vie_peek_def vie_advance_def split: if_splits)

lemma fields_ok_advance [simp]: "fields_ok (vie_advance v) = fields_ok v"
  by (simp add: fields_ok_def vie_advance_def)

lemma sizes_ok_advance [simp]: "sizes_ok mode (vie_advance v) = sizes_ok mode v"
  by (simp add: sizes_ok_def vie_advance_def)

lemma op_advance [simp]: "v_op (vie_advance v) = v_op v"
  by (simp add: vie_advance_def)

lemma op_table_known: "set tab \<subseteq> set three_byte_list \<union> set two_byte_list \<union> set one_byte_list \<Longrightarrow>
    op_type (opcode_table tab x) \<noteq> VIE_OP_TYPE_NONE \<Longrightarrow> op_known (opcode_table tab x)"
  unfolding opcode_table_def op_known_def op_none_def by (auto split: option.split dest: map_of_SomeD)

lemma segment_override_data: "segment_override x = Some seg \<Longrightarrow> data_segment seg"
  by (auto simp: segment_override_def data_segment_def split: if_splits)

lemma legacy_prefix_form:
  assumes "legacy_prefix x v = Some v'"
  obtains "v' = v\<lparr>v_opsize_override := True\<rparr>" | "v' = v\<lparr>v_addrsize_override := True\<rparr>" | "v' = v\<lparr>v_repz_present := True\<rparr>"
    | "v' = v\<lparr>v_repnz_present := True\<rparr>" | seg where "v' = v\<lparr>v_segment_register := seg, v_segment_override := True\<rparr>" "data_segment seg"
proof -
  consider "x = 0x66" | "x = 0x67" | "x = 0xF3" | "x = 0xF2" | "x \<notin> {0x66, 0x67, 0xF3, 0xF2}" by blast
  then show ?thesis
  proof cases
    case 5
    then obtain seg where "segment_override x = Some seg" "v' = v\<lparr>v_segment_register := seg, v_segment_override := True\<rparr>"
      using assms unfolding legacy_prefix_def by (cases "segment_override x") simp_all
    then show ?thesis using that(5) segment_override_data by blast
  qed (use assms that in \<open>simp_all add: legacy_prefix_def\<close>)
qed

lemma legacy_prefix_ok:
  assumes "legacy_prefix x v = Some v'"
  shows "(fields_ok v \<longrightarrow> fields_ok v') \<and> bytes_ok v' = bytes_ok v \<and> vie_peek v' = vie_peek v \<and> v_op v' = v_op v \<and>
    v_num_valid v' = v_num_valid v \<and> v_num_processed v' = v_num_processed v"
  by (rule legacy_prefix_form [OF assms]) (simp_all add: fields_ok_def bytes_ok_def vie_peek_def)

lemma prefix_loop_ok:
  "prefix_loop n v = Some (x, v') \<Longrightarrow> bytes_ok v \<Longrightarrow> fields_ok v \<Longrightarrow> bytes_ok v' \<and> fields_ok v' \<and> vie_peek v' = Some x \<and> v_op v' = v_op v"
proof (induction n arbitrary: v)
  case 0
  then show ?case unfolding prefix_loop.simps [of 0] by (simp split: option.splits)
next
  case (Suc n)
  obtain y where y: "vie_peek v = Some y" using Suc.prems(1) unfolding prefix_loop.simps [of "Suc n"] by (cases "vie_peek v") simp_all
  show ?case
  proof (cases "legacy_prefix y v")
    case None
    then show ?thesis using Suc.prems y unfolding prefix_loop.simps [of "Suc n"] by simp
  next
    case (Some w)
    note ok = legacy_prefix_ok [OF Some]
    have "prefix_loop n (vie_advance w) = Some (x, v')" using Suc.prems(1) y Some unfolding prefix_loop.simps [of "Suc n"] by simp
    moreover have "bytes_ok (vie_advance w)" using bytes_ok_advance [of w y] ok y Suc.prems(2) by simp
    moreover have "fields_ok (vie_advance w)" using ok Suc.prems(3) by simp
    ultimately show ?thesis using Suc.IH ok by simp
  qed
qed

text \<open>More rounds than bytes change nothing.\<close>

lemma prefix_loop_fuel: "v_num_valid v - v_num_processed v \<le> n \<Longrightarrow> prefix_loop (n + k) v = prefix_loop n v"
proof (induction n arbitrary: v)
  case 0
  then show ?case by (simp add: prefix_loop.simps vie_peek_def)
next
  case (Suc n)
  have "prefix_loop (n + k) (vie_advance w) = prefix_loop n (vie_advance w)" if "legacy_prefix x v = Some w" for x w
    by (rule Suc.IH) (use Suc.prems legacy_prefix_ok [OF that] in \<open>simp add: vie_advance_def\<close>)
  then show ?case unfolding prefix_loop.simps [of "Suc n + k"] prefix_loop.simps [of "Suc n"] by (simp split: option.split)
qed

lemma vex_reg_less: "unat (drop_bit 3 (NOT x AND 0x78) :: u8) < 16"
proof -
  have "unat (NOT x AND 0x78 :: u8) \<le> 0x78" using unat_and_mask_le [of "NOT x" "0x78 :: u8"] by simp
  then have "unat (NOT x AND 0x78 :: u8) div 8 \<le> 0x78 div 8" by (rule div_le_mono)
  moreover have "unat (drop_bit 3 (NOT x AND 0x78) :: u8) = unat (NOT x AND 0x78 :: u8) div 8"
    unfolding unsigned_drop_bit_eq using unat_u8_less [of "NOT x AND 0x78"] by (simp add: drop_bit_eq_div take_bit_eq_mod)
  ultimately show ?thesis by simp
qed

lemma vex_bytes_ok:
  "fields_ok (vex_byte2 x v) = fields_ok v" "fields_ok v \<Longrightarrow> fields_ok (vex_byte3 x v)"
  "vie_peek (vex_byte2 x v) = vie_peek v" "vie_peek (vex_byte3 x v) = vie_peek v"
  "bytes_ok (vex_byte2 x v) = bytes_ok v" "bytes_ok (vex_byte3 x v) = bytes_ok v"
  using vex_reg_less [of x]
  by (simp_all add: vex_byte2_def vex_byte3_def fields_ok_def vie_peek_def bytes_ok_def Let_def)

lemma vex_prefix_form:
  assumes "vex_prefix v = Some v'"
  obtains x1 x2 x3 v1 v2 v3 where "v1 = vie_advance (v\<lparr>v_vex_present := True\<rparr>)" "vie_peek v1 = Some x1"
    "v2 = vie_advance (vex_byte2 x1 v1)" "vie_peek v2 = Some x2" "v3 = vie_advance (vex_byte3 x2 v2)" "vie_peek v3 = Some x3"
    "v' = vie_advance (v3\<lparr>v_op := three_byte_opcodes_0f38 x3\<rparr>)" "op_type (three_byte_opcodes_0f38 x3) \<noteq> VIE_OP_TYPE_NONE"
proof -
  let ?v1 = "vie_advance (v\<lparr>v_vex_present := True\<rparr>)"
  obtain x1 where 1: "vie_peek ?v1 = Some x1" using assms unfolding vex_prefix_def Let_def by (cases "vie_peek ?v1") simp_all
  let ?v2 = "vie_advance (vex_byte2 x1 ?v1)"
  have 2: "x1 AND 0x1F = 0x2" using assms unfolding vex_prefix_def Let_def 1 by (simp split: if_split_asm)
  obtain x2 where 3: "vie_peek ?v2 = Some x2" using assms unfolding vex_prefix_def Let_def 1 by (cases "vie_peek ?v2") (simp_all add: 2)
  let ?v3 = "vie_advance (vex_byte3 x2 ?v2)"
  obtain x3 where 4: "vie_peek ?v3 = Some x3" using assms unfolding vex_prefix_def Let_def 1 by (cases "vie_peek ?v3") (simp_all add: 2 3)
  have "op_type (three_byte_opcodes_0f38 x3) \<noteq> VIE_OP_TYPE_NONE" "v' = vie_advance (?v3\<lparr>v_op := three_byte_opcodes_0f38 x3\<rparr>)"
    using assms unfolding vex_prefix_def Let_def 1 by (simp_all add: 2 3 4 split: if_split_asm)
  then show ?thesis using that [OF refl 1 refl 3 refl 4] by blast
qed

lemma vex_prefix_ok:
  assumes "vex_prefix v = Some v'" "vie_peek v = Some x" "bytes_ok v" "fields_ok v"
  shows "bytes_ok v' \<and> fields_ok v' \<and> op_ok v' \<and> op_type (v_op v') \<noteq> VIE_OP_TYPE_TWO_BYTE"
proof (rule vex_prefix_form [OF assms(1)])
  fix x1 x2 x3 v1 v2 v3
  assume d: "v1 = vie_advance (v\<lparr>v_vex_present := True\<rparr>)" "v2 = vie_advance (vex_byte2 x1 v1)" "v3 = vie_advance (vex_byte3 x2 v2)"
      "v' = vie_advance (v3\<lparr>v_op := three_byte_opcodes_0f38 x3\<rparr>)"
    and p: "vie_peek v1 = Some x1" "vie_peek v2 = Some x2" "vie_peek v3 = Some x3"
    and t: "op_type (three_byte_opcodes_0f38 x3) \<noteq> VIE_OP_TYPE_NONE"
  have u: "vie_peek (v\<lparr>v_vex_present := True\<rparr>) = vie_peek v" "bytes_ok (v\<lparr>v_vex_present := True\<rparr>) = bytes_ok v"
    "fields_ok (v\<lparr>v_vex_present := True\<rparr>) = fields_ok v" "vie_peek (v3\<lparr>v_op := opc\<rparr>) = vie_peek v3"
    "bytes_ok (v3\<lparr>v_op := opc\<rparr>) = bytes_ok v3" "fields_ok (v3\<lparr>v_op := opc\<rparr>) = fields_ok v3" for opc
    by (simp_all add: vie_peek_def bytes_ok_def fields_ok_def)
  have "bytes_ok v1" unfolding d(1) by (rule bytes_ok_advance) (simp_all add: u assms)
  then have "bytes_ok v2" unfolding d(2) by (intro bytes_ok_advance [of _ x1]) (simp_all add: vex_bytes_ok p)
  then have "bytes_ok v3" unfolding d(3) by (intro bytes_ok_advance [of _ x2]) (simp_all add: vex_bytes_ok p)
  then have "bytes_ok v'" unfolding d(4) by (intro bytes_ok_advance [of _ x3]) (simp_all add: u p)
  moreover have "fields_ok v'" unfolding d by (simp add: u(6) [unfolded d] vex_bytes_ok u(3) assms(4))
  moreover have "op_type (v_op v') \<noteq> VIE_OP_TYPE_TWO_BYTE"
    unfolding d(4) by (simp add: three_byte_opcodes_0f38_def opcode_table_def three_byte_list_def op_none_def)
  moreover have "op_ok v'" using t op_table_known [of three_byte_list] unfolding d(4) op_ok_def three_byte_opcodes_0f38_def by (simp add: three_byte_list_def)
  ultimately show ?thesis by blast
qed

lemma default_sizes_ok: "sizes_ok mode (default_sizes mode cs_d v)" "fields_ok (default_sizes mode cs_d v) = fields_ok v"
  "bytes_ok (default_sizes mode cs_d v) = bytes_ok v" "v_op (default_sizes mode cs_d v) = v_op v"
  by (simp_all add: default_sizes_def sizes_ok_def fields_ok_def bytes_ok_def)

lemma rex_prefix_ok:
  "vie_peek v = Some x \<Longrightarrow> bytes_ok v \<Longrightarrow> bytes_ok (rex_prefix mode x v)" "fields_ok (rex_prefix mode x v) = fields_ok v"
  "v_op (rex_prefix mode x v) = v_op v" "x = 0xC4 \<Longrightarrow> rex_prefix mode x v = v"
  by (simp_all add: rex_prefix_def bytes_ok_def vie_advance_def fields_ok_def vie_peek_def split: if_split_asm)

definition prefixes_done :: "vm_cpu_mode \<Rightarrow> vie \<Rightarrow> bool" where
  "prefixes_done mode v \<longleftrightarrow> bytes_ok v \<and> fields_ok v \<and> sizes_ok mode v \<and> (op_ok v \<and> op_type (v_op v) \<noteq> VIE_OP_TYPE_TWO_BYTE \<or> v_op v = op_none)"

lemma decode_prefixes_ok:
  assumes "bytes_ok v" "fields_ok v" "v_op v = op_none"
  shows "yields (prefixes_done mode) (decode_prefixes v mode cs_d)"
proof (cases "prefix_loop (v_num_valid v) v")
  case None
  then show ?thesis by (simp add: decode_prefixes_def)
next
  case (Some r)
  obtain x v1 where r: "r = (x, v1)" by fastforce
  note l = prefix_loop_ok [OF Some [unfolded r] assms(1,2)]
  let ?v2 = "rex_prefix mode x v1"
  show ?thesis
  proof (cases "(mode = CPU_MODE_64BIT \<or> mode = CPU_MODE_COMPATIBILITY) \<and> x = 0xC4")
    case True
    then have v2: "?v2 = v1" by (simp add: rex_prefix_ok)
    show ?thesis
    proof (cases "vex_prefix v1")
      case None
      then show ?thesis using Some r True v2 by (simp add: decode_prefixes_def)
    next
      case (Some v3)
      have "bytes_ok v3 \<and> fields_ok v3 \<and> op_ok v3 \<and> op_type (v_op v3) \<noteq> VIE_OP_TYPE_TWO_BYTE" using vex_prefix_ok [OF Some] l by blast
      then show ?thesis using \<open>prefix_loop _ _ = Some r\<close> Some r True v2 by (simp add: decode_prefixes_def prefixes_done_def default_sizes_ok op_ok_def)
    qed
  next
    case False
    then show ?thesis using Some r l rex_prefix_ok(1) [of v1 x mode] rex_prefix_ok(2,3) assms(3)
      by (auto simp: decode_prefixes_def prefixes_done_def default_sizes_ok Let_def)
  qed
qed

definition opcode_done :: "vm_cpu_mode \<Rightarrow> vie \<Rightarrow> bool" where
  "opcode_done mode v \<longleftrightarrow> bytes_ok v \<and> fields_ok v \<and> sizes_ok mode v \<and> op_ok v \<and> op_type (v_op v) \<noteq> VIE_OP_TYPE_TWO_BYTE"

lemma set_op_frame:
  "bytes_ok (v\<lparr>v_op := opc\<rparr>) = bytes_ok v" "fields_ok (v\<lparr>v_op := opc\<rparr>) = fields_ok v" "sizes_ok mode (v\<lparr>v_op := opc\<rparr>) = sizes_ok mode v"
  "vie_peek (v\<lparr>v_op := opc\<rparr>) = vie_peek v"
  by (simp_all add: bytes_ok_def fields_ok_def sizes_ok_def vie_peek_def)

lemma two_byte_type: "op_type (two_byte_opcodes x) \<noteq> VIE_OP_TYPE_TWO_BYTE"
  by (simp add: two_byte_opcodes_def opcode_table_def two_byte_list_def op_none_def)

lemma table_types:
  "op_type (two_byte_opcodes x) \<noteq> VIE_OP_TYPE_NONE \<Longrightarrow> op_known (two_byte_opcodes x)"
  "op_type (one_byte_opcodes x) \<noteq> VIE_OP_TYPE_NONE \<Longrightarrow> op_known (one_byte_opcodes x)"
  unfolding two_byte_opcodes_def one_byte_opcodes_def by (rule op_table_known, blast, assumption)+

lemma two_byte_ok:
  assumes "bytes_ok v" "fields_ok v" "sizes_ok mode v"
  shows "yields (opcode_done mode) (decode_two_byte_opcode v)"
proof (cases "vie_peek v")
  case (Some x)
  have "bytes_ok (vie_advance (v\<lparr>v_op := two_byte_opcodes x\<rparr>))"
    by (rule bytes_ok_advance [of _ x]) (simp_all add: set_op_frame Some assms)
  then show ?thesis using Some assms table_types(1) [of x] two_byte_type [of x]
    by (simp add: decode_two_byte_opcode_def opcode_done_def set_op_frame op_ok_def)
qed (simp add: decode_two_byte_opcode_def)

lemma decode_opcode_ok:
  assumes "prefixes_done mode v"
  shows "yields (opcode_done mode) (decode_opcode v)"
proof (cases "vie_peek v")
  case (Some x)
  let ?v = "vie_advance (v\<lparr>v_op := one_byte_opcodes x\<rparr>)"
  have b: "bytes_ok ?v" by (rule bytes_ok_advance [of _ x]) (use assms in \<open>simp_all add: set_op_frame Some prefixes_done_def\<close>)
  show ?thesis
  proof (cases "op_type (v_op v) = VIE_OP_TYPE_NONE")
    case True
    then show ?thesis using Some assms b table_types(2) [of x] two_byte_ok [OF b, of mode]
      by (simp add: decode_opcode_def opcode_done_def set_op_frame op_ok_def prefixes_done_def Let_def)
  next
    case False
    then show ?thesis using Some assms by (auto simp: decode_opcode_def opcode_done_def prefixes_done_def op_none_def)
  qed
qed (simp add: decode_opcode_def)

text \<open>Operands of instructions with a ModRM byte are not decoded in real mode.\<close>

definition operand_done :: "vm_cpu_mode \<Rightarrow> vie \<Rightarrow> bool" where
  "operand_done mode v \<longleftrightarrow> opcode_done mode v \<and> (mode = CPU_MODE_REAL \<longrightarrow> op_flags (v_op v) AND VIE_OP_F_NO_MODRM \<noteq> 0)"

lemma or_8: "(k::nat) < 8 \<Longrightarrow> k OR 8 = k + 8"
proof -
  assume "k < 8"
  then have "k \<in> {0, 1, 2, 3, 4, 5, 6, 7}" by auto
  then show ?thesis by auto
qed

lemma and_7_less_16 [simp]: "unat (x AND 7 :: u8) < 16"
  by (rule order.strict_trans [of _ 8]) simp_all

lemma unat_3_bits: "unat (x AND 7 :: u8) < 8" "unat (x AND 3 :: u8) < 4"
  using unat_and_mask_le [of x "7 :: u8"] unat_and_mask_le [of x "3 :: u8"] by simp_all

lemma reg_less: "unat (x AND 7 :: u8) OR (if b then 8 else 0) < 16"
  by (simp add: or_8)

lemma gpr_map_set: "k < 16 \<Longrightarrow> gpr_map ! k \<in> set gpr_map" "gpr_map ! k = VM_REG_GUEST_RSP \<Longrightarrow> k < 16 \<Longrightarrow> k = 4"
  "gpr_map ! k = VM_REG_LAST \<Longrightarrow> k < 16 \<Longrightarrow> False"
proof -
  show "k < 16 \<Longrightarrow> gpr_map ! k \<in> set gpr_map" by (rule nth_mem) (simp add: gpr_map_def)
  have "k < 16 \<Longrightarrow> k \<in> {0, 1, 2, 3, 4, 5, 6, 7, 8, 9, 10, 11, 12, 13, 14, 15}" by simp arith
  then show "gpr_map ! k = VM_REG_GUEST_RSP \<Longrightarrow> k < 16 \<Longrightarrow> k = 4" "gpr_map ! k = VM_REG_LAST \<Longrightarrow> k < 16 \<Longrightarrow> False"
    by (auto simp: gpr_map_def)
qed

text \<open>Fields that only describe the operand.\<close>

definition same_base :: "vie \<Rightarrow> vie \<Rightarrow> bool" where
  "same_base v v' \<longleftrightarrow> v_num_processed v' = v_num_processed v \<and> v_num_valid v' = v_num_valid v \<and> v_inst v' = v_inst v \<and>
     v_op v' = v_op v \<and> v_opsize v' = v_opsize v \<and> v_addrsize v' = v_addrsize v \<and> v_rex_b v' = v_rex_b v \<and> v_rex_r v' = v_rex_r v \<and>
     v_rex_x v' = v_rex_x v"

lemma same_base_simps:
  assumes "same_base v v'"
  shows "bytes_ok v' = bytes_ok v" "vie_peek v' = vie_peek v" "op_ok v' = op_ok v" "sizes_ok mode v' = sizes_ok mode v" "v_op v' = v_op v"
  using assms by (simp_all add: same_base_def bytes_ok_def vie_peek_def op_ok_def sizes_ok_def)

lemma same_base_trans: "same_base u v \<Longrightarrow> same_base v w \<Longrightarrow> same_base u w"
  by (simp add: same_base_def)

lemma same_base_modrm: "same_base v (modrm_fields x v)" "same_base v (modrm_rex v)" "same_base v (modrm_base mode v)"
  by (simp_all add: same_base_def modrm_fields_def modrm_rex_def modrm_base_def Let_def)

lemma same_base_sib: "same_base v (sib_fields x v)" "same_base v (sib_base v)" "same_base v (sib_index v)"
  by (simp_all add: same_base_def sib_fields_def sib_base_def sib_index_def Let_def)

lemma modrm_fields_ok: "fields_ok v \<Longrightarrow> v_mod (modrm_fields x v) \<noteq> 3 \<Longrightarrow> fields_ok (modrm_fields x v) \<and> v_rm (modrm_fields x v) < 8 \<and> v_reg (modrm_fields x v) < 8"
  using unat_3_bits(1) [of x] unat_3_bits(1) [of "drop_bit 3 x"] unat_3_bits(2) [of "drop_bit 6 x"] by (simp add: modrm_fields_def fields_ok_def)

lemma modrm_rex_ok: "fields_ok v \<Longrightarrow> v_rm v < 8 \<Longrightarrow> v_reg v < 8 \<Longrightarrow> fields_ok (modrm_rex v)"
  by (simp add: modrm_rex_def Let_def fields_ok_def or_8)

lemma modrm_base_ok: "fields_ok v \<Longrightarrow> fields_ok (modrm_base mode v)"
  using gpr_map_set(1) [of "v_rm v"] by (simp add: modrm_base_def Let_def fields_ok_def)

lemma advance_done:
  assumes "opcode_done mode v" "vie_peek v = Some x" "same_base v v'" "fields_ok v'"
  shows "opcode_done mode (vie_advance v')"
proof -
  have "bytes_ok (vie_advance v')" by (rule bytes_ok_advance [of _ x]) (use assms same_base_simps [OF assms(3)] in \<open>simp_all add: opcode_done_def\<close>)
  then show ?thesis using assms same_base_simps [OF assms(3)] by (simp add: opcode_done_def op_ok_def)
qed

lemma decode_modrm_ok:
  assumes "opcode_done mode v"
  shows "yields (operand_done mode) (decode_modrm v mode)"
proof (cases "op_flags (v_op v) AND VIE_OP_F_NO_MODRM \<noteq> 0 \<or> mode = CPU_MODE_REAL \<or> vie_peek v = None")
  case True
  then show ?thesis using assms by (auto simp: decode_modrm_def operand_done_def)
next
  case False
  then obtain x where x: "vie_peek v = Some x" by blast
  let ?a = "modrm_fields x v" and ?b = "modrm_rex (modrm_fields x v)" and ?c = "modrm_base mode (modrm_rex (modrm_fields x v))"
  show ?thesis
  proof (cases "v_mod ?a = 3")
    case True
    then show ?thesis using False x by (simp add: decode_modrm_def)
  next
    case m: False
    have f: "fields_ok ?b" "fields_ok ?c"
      using modrm_rex_ok modrm_base_ok modrm_fields_ok [of v x] m assms by (simp_all add: opcode_done_def)
    have sb: "same_base v ?b" by (rule same_base_trans [OF same_base_modrm(1) same_base_modrm(2)])
    have sc: "same_base v ?c" by (rule same_base_trans [OF sb same_base_modrm(3)])
    have o: "opcode_done mode (vie_advance ?b)" "opcode_done mode (vie_advance ?c)" by (rule advance_done [OF assms x sb f(1)], rule advance_done [OF assms x sc f(2)])
    have "decode_modrm v mode = Some (Some (vie_advance (if v_mod ?b \<noteq> 3 \<and> v_rm ?b = 4 then ?b else ?c)))"
      using False m unfolding decode_modrm_def x by (simp add: Let_def)
    then show ?thesis using False o by (simp add: operand_done_def)
  qed
qed

lemma sib_ok:
  assumes "fields_ok v"
  shows "fields_ok (sib_index (sib_base (sib_fields x v)))"
proof -
  let ?a = "sib_fields x v"
  have i: "v_index ?a < 16" "v_base ?a < 16" "v_ss ?a < 4"
    using reg_less [of "drop_bit 3 x" "v_rex_x v"] reg_less [of x "v_rex_b v"] unat_3_bits(2) [of "drop_bit 6 x"] by (simp_all add: sib_fields_def)
  have a: "fields_ok ?a" using assms by (simp add: fields_ok_def sib_fields_def)
  have b: "fields_ok (sib_base ?a)" using a gpr_map_set(1) [OF i(2)] by (simp add: fields_ok_def sib_base_def Let_def)
  have e: "v_index (sib_base ?a) = v_index ?a" "v_ss (sib_base ?a) = v_ss ?a" by (simp_all add: sib_base_def Let_def)
  have "2 ^ v_ss ?a \<in> {0, 1, 2, 4, 8::nat}"
  proof -
    have "v_ss ?a = 0 \<or> v_ss ?a = 1 \<or> v_ss ?a = 2 \<or> v_ss ?a = 3" using i(3) by arith
    then show ?thesis by auto
  qed
  moreover have "gpr_map ! v_index ?a \<in> set gpr_map - {VM_REG_GUEST_RSP}" if "v_index ?a \<noteq> 4"
    using gpr_map_set(1,2) i(1) that by blast
  moreover have "gpr_map ! v_index ?a \<noteq> VM_REG_LAST" using gpr_map_set(3) i(1) by blast
  ultimately show ?thesis using b unfolding fields_ok_def sib_index_def Let_def by (cases "v_index ?a = 4") (simp_all add: e, blast)
qed

lemma decode_sib_ok:
  assumes "operand_done mode v"
  shows "yields (operand_done mode) (decode_sib v)"
proof (cases "vie_peek v")
  case None
  then show ?thesis using assms by (simp add: decode_sib_def)
next
  case (Some x)
  let ?v = "sib_index (sib_base (sib_fields x v))"
  have s: "same_base v ?v" by (rule same_base_trans [OF same_base_trans [OF same_base_sib(1) same_base_sib(2)] same_base_sib(3)])
  have "opcode_done mode (vie_advance ?v)"
    by (rule advance_done [OF _ Some s]) (use assms sib_ok in \<open>simp_all add: operand_done_def opcode_done_def\<close>)
  then show ?thesis using assms Some same_base_simps(5) [OF s] by (simp add: decode_sib_def operand_done_def)
qed

lemma take_bytes_ok:
  "take_bytes n v = Some (bs, v') \<Longrightarrow> v' = v\<lparr>v_num_processed := v_num_processed v + n\<rparr> \<and> length bs = n \<and> (n \<noteq> 0 \<longrightarrow> v_num_processed v + n \<le> v_num_valid v)"
proof (induction n arbitrary: v bs)
  case (Suc n)
  obtain x where x: "vie_peek v = Some x" using Suc.prems by (cases "vie_peek v") simp_all
  obtain r where r: "take_bytes n (vie_advance v) = Some r" using Suc.prems x by (cases "take_bytes n (vie_advance v)") simp_all
  obtain ys w where w: "r = (ys, w)" by fastforce
  have e: "bs = x # ys" "w = v'" using Suc.prems x r w by simp_all
  show ?case using Suc.IH [OF r [unfolded w e(2)]] x e by (cases "n = 0") (simp_all add: vie_advance_def vie_peek_def split: if_split_asm)
qed simp

lemma take_bytes_done:
  assumes "operand_done mode v" "take_bytes n v = Some (bs, v')" "0 < n"
  shows "operand_done mode (v'\<lparr>v_displacement := d\<rparr>)" "operand_done mode (v'\<lparr>v_immediate := d\<rparr>)"
  using assms(1,3) take_bytes_ok [OF assms(2)]
  by (simp_all add: operand_done_def opcode_done_def bytes_ok_def fields_ok_def sizes_ok_def op_ok_def)

lemma yields_take_bytes:
  assumes "\<And>bs v'. take_bytes n v = Some (bs, v') \<Longrightarrow> P (f bs v')"
  shows "yields P (Some (do { (bs, vie) \<leftarrow> take_bytes n v; Some (f bs vie) }))"
  using assms by (cases "take_bytes n v") auto

lemma bytes_step:
  assumes "operand_done mode v" "n \<noteq> 0"
  shows "yields (operand_done mode) (Some (do { (bs, vie) \<leftarrow> take_bytes n v; Some (vie\<lparr>v_displacement := g bs\<rparr>) }))"
    "yields (operand_done mode) (Some (do { (bs, vie) \<leftarrow> take_bytes n v; Some (vie\<lparr>v_immediate := g bs\<rparr>) }))"
  using take_bytes_done [OF assms(1)] assms(2) by (intro yields_take_bytes; simp)+

lemma decode_displacement_ok:
  assumes "operand_done mode v"
  shows "yields (operand_done mode) (decode_displacement v)"
proof -
  have "v_disp_bytes v = 0 \<or> v_disp_bytes v = 1 \<or> v_disp_bytes v = 4" using assms by (simp add: operand_done_def opcode_done_def fields_ok_def)
  then show ?thesis unfolding decode_displacement_def Let_def using assms bytes_step(1) [OF assms, of "v_disp_bytes v"]
    by (cases "v_disp_bytes v = 0") simp_all
qed

lemma decode_moffset_ok:
  assumes "operand_done mode v"
  shows "yields (operand_done mode) (decode_moffset v)"
proof -
  have "v_addrsize v = 2 \<or> v_addrsize v = 4 \<or> v_addrsize v = 8"
    using assms unfolding operand_done_def opcode_done_def sizes_ok_def by (auto split: if_split_asm)
  then have "v_addrsize v \<noteq> 0" "\<not> (v_addrsize v \<noteq> 2 \<and> v_addrsize v \<noteq> 4 \<and> v_addrsize v \<noteq> 8)" by auto
  then show ?thesis unfolding decode_moffset_def Let_def using assms bytes_step(1) [OF assms, of "v_addrsize v"] by simp blast
qed

lemma imm_bytes_done:
  "operand_done mode v \<Longrightarrow> n \<in> {0, 1, 2, 4} \<Longrightarrow> operand_done mode (v\<lparr>v_imm_bytes := n\<rparr>)"
  by (simp add: operand_done_def opcode_done_def fields_ok_def bytes_ok_def sizes_ok_def op_ok_def)

lemma decode_immediate_ok:
  assumes "operand_done mode v"
  shows "yields (operand_done mode) (decode_immediate v)"
proof -
  define w where "w = (if op_flags (v_op v) AND VIE_OP_F_IMM \<noteq> 0
     then v\<lparr>v_imm_bytes := (if v_opsize v = 4 \<or> v_opsize v = 8 then 4 else 2)\<rparr>
     else if op_flags (v_op v) AND VIE_OP_F_IMM8 \<noteq> 0 then v\<lparr>v_imm_bytes := 1\<rparr> else v)"
  have w: "operand_done mode w" unfolding w_def using assms imm_bytes_done [OF assms] by simp
  then have "v_imm_bytes w = 0 \<or> v_imm_bytes w = 1 \<or> v_imm_bytes w = 2 \<or> v_imm_bytes w = 4" by (simp add: operand_done_def opcode_done_def fields_ok_def)
  then show ?thesis unfolding decode_immediate_def w_def [symmetric] Let_def
    using w bytes_step(2) [OF w, of "v_imm_bytes w"] by (cases "v_imm_bytes w = 0") simp_all
qed

text \<open>What the emulation relies on.\<close>

definition decoded_ok :: "vm_cpu_mode \<Rightarrow> vie \<Rightarrow> bool" where
  "decoded_ok mode v \<longleftrightarrow> v_decoded v \<and> v_num_processed v \<le> v_num_valid v \<and> v_num_valid v \<le> VIE_INST_SIZE \<and>
     v_opsize v \<in> (if mode = CPU_MODE_64BIT then {2, 4, 8} else {2, 4}) \<and> v_addrsize v \<in> (if mode = CPU_MODE_64BIT then {4, 8} else {2, 4}) \<and>
     v_reg v < 16 \<and> v_vex_reg v < 16 \<and> v_mod v \<noteq> VIE_MOD_DIRECT \<and> v_scale v \<in> {0, 1, 2, 4, 8} \<and>
     v_base_register v \<in> set gpr_map \<union> {VM_REG_GUEST_RIP, VM_REG_LAST} \<and>
     v_index_register v \<in> set gpr_map - {VM_REG_GUEST_RSP} \<union> {VM_REG_LAST} \<and>
     (v_segment_override v \<longrightarrow> data_segment (v_segment_register v)) \<and>
     op_known (v_op v) \<and> op_type (v_op v) \<notin> {VIE_OP_TYPE_NONE, VIE_OP_TYPE_TWO_BYTE} \<and>
     (mode = CPU_MODE_REAL \<longrightarrow> op_flags (v_op v) AND VIE_OP_F_NO_MODRM \<noteq> 0)"

lemma decode_ok:
  assumes "vie_init bs = Some v"
  shows "yields (decoded_ok mode) (vmm_decode_instruction vc gla mode cs_d v)"
proof -
  have i: "bytes_ok v" "fields_ok v" "v_op v = op_none"
    using assms by (auto simp: vie_init_def bytes_ok_def fields_ok_def split: if_split_asm)
  have d: "decoded_ok mode (w\<lparr>v_decoded := True\<rparr>)" if "operand_done mode w" for w
    using that by (auto simp: decoded_ok_def operand_done_def opcode_done_def bytes_ok_def fields_ok_def sizes_ok_def op_ok_def)
  show ?thesis unfolding vmm_decode_instruction_def
    by (rule yields_then [OF decode_prefixes_ok [OF i]], rule yields_then [OF decode_opcode_ok], assumption,
        rule yields_then [OF decode_modrm_ok], assumption, rule yields_then [OF decode_sib_ok], assumption,
        rule yields_then [OF decode_displacement_ok], assumption, rule yields_then [OF decode_immediate_ok], assumption,
        rule yields_then [OF decode_moffset_ok], assumption) (use d in simp)
qed

text \<open>C6. The decoder is safe on any bytes. For every instruction of at most 15 bytes, in every mode, it does not panic, and when it
  succeeds it has read no byte beyond those it was given; the operand and address sizes are those that the mode allows, register
  numbers index the register map, the scale is a power of two, an index register is never RSP, a segment override names a data
  segment, the opcode comes from the tables, and in real mode the instruction has no ModRM byte.\<close>

theorem decode_well_typed:
  assumes "length bs \<le> VIE_INST_SIZE"
  shows "\<exists>v r. vie_init bs = Some v \<and> vmm_decode_instruction vc gla mode cs_d v = Some r \<and> (\<forall>v'. r = Some v' \<longrightarrow> decoded_ok mode v')"
proof -
  obtain v where v: "vie_init bs = Some v" using assms by (auto simp: vie_init_def)
  from decode_ok [OF v, of mode vc gla cs_d] show ?thesis
    using v by (cases "vmm_decode_instruction vc gla mode cs_d v") auto
qed

theorem decode_well_typed_witness:
  "\<exists>v r. vie_init [0x67, 0xF3, 0xAB] = Some v \<and> vmm_decode_instruction vcpu_fresh 0 CPU_MODE_REAL False v = Some r \<and>
     (\<forall>v'. r = Some v' \<longrightarrow> decoded_ok CPU_MODE_REAL v')"
proof -
  have "length [0x67, 0xF3, 0xAB :: u8] \<le> VIE_INST_SIZE" by simp
  then show ?thesis by (rule decode_well_typed)
qed

end
