(* ===== verification/Decode_Roundtrip.thy ===== *)
theory Decode_Roundtrip
  imports Instr_Decode
begin

text \<open>
  An encoder for the memory operands of 64-bit instructions (REX, ModRM, SIB, displacement), the address that such an operand
  denotes, and the proof that the decoder of \<^verbatim>\<open>vmm/vmm_instruction_emul.c\<close> inverts it and checks exactly that address.
  The argument follows the stages of the decoder on the list of bytes that are left.
\<close>


section \<open>Encoding and decoding\<close>

text \<open>Memory operands of 64-bit code and their encoding by ModRM, SIB and displacement bytes.\<close>

datatype disp = No_disp | Disp8 u8 | Disp32 u32

datatype operand = Rip u32 | Base nat disp | Sib "nat option" "(nat \<times> nat) option" disp

record insn =
  i_op :: u8
  i_w :: bool
  i_rex :: bool
  i_reg :: nat
  i_mem :: operand

fun disp_mod :: "disp \<Rightarrow> nat" where
  "disp_mod No_disp = 0" | "disp_mod (Disp8 _) = 1" | "disp_mod (Disp32 _) = 2"

fun disp_bytes :: "disp \<Rightarrow> u8 list" where
  "disp_bytes No_disp = []" | "disp_bytes (Disp8 d) = [d]" | "disp_bytes (Disp32 d) = le_bytes 4 (unat d)"

fun disp_val :: "disp \<Rightarrow> u64" where
  "disp_val No_disp = 0" | "disp_val (Disp8 d) = scast d" | "disp_val (Disp32 d) = scast d"

fun operand_wf :: "operand \<Rightarrow> bool" where
  "operand_wf (Rip d) \<longleftrightarrow> True"
| "operand_wf (Base b d) \<longleftrightarrow> b < 16 \<and> b mod 8 \<noteq> 4 \<and> (d = No_disp \<longrightarrow> b mod 8 \<noteq> 5)"
| "operand_wf (Sib b i d) \<longleftrightarrow> (case b of None \<Rightarrow> disp_mod d = 2 | Some b \<Rightarrow> b < 16 \<and> (d = No_disp \<longrightarrow> b mod 8 \<noteq> 5)) \<and>
     (case i of None \<Rightarrow> True | Some (k, ss) \<Rightarrow> k < 16 \<and> k \<noteq> 4 \<and> ss < 4)"

definition plain_opcodes :: "u8 list" where
  "plain_opcodes = [0x03, 0x0B, 0x23, 0x2B, 0x39, 0x3B, 0x88, 0x89, 0x8A, 0x8B, 0x8F, 0xFF]"

definition insn_wf :: "insn \<Rightarrow> bool" where
  "insn_wf i \<longleftrightarrow> i_op i \<in> set plain_opcodes \<and> i_reg i < 16 \<and> operand_wf (i_mem i)"

text \<open>The mod and rm fields with the bits B and X of REX, then the SIB byte and the displacement.\<close>

fun operand_code :: "operand \<Rightarrow> nat \<times> nat \<times> bool \<times> bool" where
  "operand_code (Rip d) = (0, 5, False, False)"
| "operand_code (Base b d) = (disp_mod d, b mod 8, 8 \<le> b, False)"
| "operand_code (Sib b i d) =
     (case b of None \<Rightarrow> 0 | Some _ \<Rightarrow> disp_mod d, 4, case b of None \<Rightarrow> False | Some b \<Rightarrow> 8 \<le> b, case i of None \<Rightarrow> False | Some (k, _) \<Rightarrow> 8 \<le> k)"

fun operand_tail :: "operand \<Rightarrow> u8 list" where
  "operand_tail (Rip d) = disp_bytes (Disp32 d)"
| "operand_tail (Base b d) = disp_bytes d"
| "operand_tail (Sib b i d) =
     of_nat (64 * (case i of None \<Rightarrow> 0 | Some (_, ss) \<Rightarrow> ss) + 8 * (case i of None \<Rightarrow> 4 | Some (k, _) \<Rightarrow> k mod 8) +
             (case b of None \<Rightarrow> 5 | Some b \<Rightarrow> b mod 8)) # disp_bytes d"

definition rex_bits :: "insn \<Rightarrow> nat" where
  "rex_bits i = (case operand_code (i_mem i) of (_, _, b, x) \<Rightarrow>
     (if i_w i then 8 else 0) + (if 8 \<le> i_reg i then 4 else 0) + (if x then 2 else 0) + (if b then 1 else 0))"

definition encode :: "insn \<Rightarrow> u8 list" where
  "encode i = (case operand_code (i_mem i) of (md, rm, _, _) \<Rightarrow>
     (if i_rex i \<or> rex_bits i \<noteq> 0 then [of_nat (64 + rex_bits i)] else []) @
     i_op i # of_nat (64 * md + 8 * (i_reg i mod 8) + rm) # operand_tail (i_mem i))"

text \<open>The address that the operand denotes.\<close>

definition effective :: "vcpu \<Rightarrow> insn \<Rightarrow> u64" where
  "effective vc i = (case i_mem i of
     Rip d \<Rightarrow> vc_regs vc VM_REG_GUEST_RIP + of_nat (length (encode i)) + scast d
   | Base b d \<Rightarrow> vc_regs vc (gpr_map ! b) + disp_val d
   | Sib b k d \<Rightarrow> (case b of None \<Rightarrow> 0 | Some b \<Rightarrow> vc_regs vc (gpr_map ! b)) +
       (case k of None \<Rightarrow> 0 | Some (k, ss) \<Rightarrow> 2 ^ ss * vc_regs vc (gpr_map ! k)) + disp_val d)"

text \<open>The bytes that the decoder has not read yet.\<close>

definition left :: "vie \<Rightarrow> u8 list" where
  "left v = map (v_inst v) [v_num_processed v..<v_num_valid v]"

lemma left_Cons:
  assumes "left v = x # xs"
  shows "vie_peek v = Some x" "left (vie_advance v) = xs"
proof -
  have lt: "v_num_processed v < v_num_valid v" using assms by (cases "v_num_processed v < v_num_valid v") (simp_all add: left_def)
  then have "left v = v_inst v (v_num_processed v) # left (vie_advance v)" by (simp add: left_def vie_advance_def upt_conv_Cons)
  then show "vie_peek v = Some x" "left (vie_advance v) = xs" using assms lt by (simp_all add: vie_peek_def)
qed

lemma left_same: "same_base v v' \<Longrightarrow> left v' = left v"
  by (simp add: left_def same_base_def)

lemma left_take:
  "left v = bs @ xs \<Longrightarrow> length bs = n \<Longrightarrow> take_bytes n v = Some (bs, v\<lparr>v_num_processed := v_num_processed v + n\<rparr>)"
proof (induction n arbitrary: v bs)
  case (Suc n)
  then obtain b bs' where b: "bs = b # bs'" "length bs' = n" by (cases bs) simp_all
  note c = left_Cons [of v b "bs' @ xs"]
  have "take_bytes n (vie_advance v) = Some (bs', (vie_advance v)\<lparr>v_num_processed := v_num_processed (vie_advance v) + n\<rparr>)"
    using Suc.IH [of "vie_advance v" bs'] c(2) Suc.prems(1) b by simp
  then show ?case using c(1) Suc.prems(1) b by (simp add: vie_advance_def)
qed simp

lemma sign_extend_8: "sign_extend [d] = scast d"
proof -
  have "signed_take_bit 7 (int (unat d)) = sint d" for d :: u8 by (simp add: sint_uint)
  then show ?thesis by (simp add: sign_extend_def)
qed

lemma sign_extend_32: "sign_extend (le_bytes 4 (unat d)) = scast d" for d :: u32
proof -
  have "le_val (le_bytes 4 (unat d)) = unat d" using unat_u32_less [of d] by (simp add: le_val_le_bytes)
  moreover have "signed_take_bit 31 (int (unat d)) = sint d" by (simp add: sint_uint)
  ultimately show ?thesis by (simp add: sign_extend_def)
qed

lemma byte_fields:
  fixes a b c :: nat
  assumes "a < 4" "b < 8" "c < 8"
  shows "unat (drop_bit 6 (of_nat (64 * a + 8 * b + c) :: u8) AND 3) = a" "unat (drop_bit 3 (of_nat (64 * a + 8 * b + c) :: u8) AND 7) = b"
    "unat (of_nat (64 * a + 8 * b + c) AND 7 :: u8) = c"
proof -
  let ?n = "64 * a + 8 * b + c"
  have "?n < 256" using assms by simp
  then have u: "unat (of_nat ?n :: u8) = ?n" by (simp only: unsigned_of_nat) (simp add: take_bit_nat_eq_self)
  have m: "(3 :: u8) = mask 2" "(7 :: u8) = mask 3" by (simp_all add: mask_eq_exp_minus_1)
  have d: "unat (drop_bit k w) = unat w div 2 ^ k" for k and w :: u8
    using unat_u8_less [of w] by (simp only: unsigned_drop_bit_eq) (simp add: drop_bit_eq_div take_bit_nat_eq_self)
  show "unat (drop_bit 6 (of_nat ?n :: u8) AND 3) = a" unfolding m unat_and_mask d u using assms by simp
  show "unat (drop_bit 3 (of_nat ?n :: u8) AND 7) = b"
  proof -
    have "?n div 8 = 8 * a + b" using assms by simp
    then show ?thesis unfolding m unat_and_mask d u using assms by simp
  qed
  show "unat (of_nat ?n AND 7 :: u8) = c"
  proof -
    have "?n = c + 8 * (8 * a + b)" by simp
    then have "?n mod 8 = c mod 8" by (simp only: mod_mult_self2)
    then show ?thesis unfolding m unat_and_mask u using assms(3) by simp
  qed
qed

text \<open>The state after the opcode: nothing of the operand is decoded, the bits of REX are those of the encoding.\<close>

definition before_operand :: "insn \<Rightarrow> u8 list \<Rightarrow> vie \<Rightarrow> bool" where
  "before_operand i rest w \<longleftrightarrow> (case operand_code (i_mem i) of (md, rm, b, x) \<Rightarrow>
     left w = of_nat (64 * md + 8 * (i_reg i mod 8) + rm) # operand_tail (i_mem i) @ rest \<and>
     v_rex_r w = (8 \<le> i_reg i) \<and> v_rex_b w = b \<and> v_rex_x w = x) \<and>
     v_op w = one_byte_opcodes (i_op i) \<and> v_disp_bytes w = 0 \<and> v_imm_bytes w = 0 \<and> v_scale w = 0 \<and> v_base_register w = VM_REG_LAST \<and>
     v_index_register w = VM_REG_LAST \<and> v_displacement w = 0 \<and> \<not> v_segment_override w \<and> v_addrsize w = 8"

lemma plain_flags: "x \<in> set plain_opcodes \<Longrightarrow> op_flags (one_byte_opcodes x) = 0"
  "x \<in> set plain_opcodes \<Longrightarrow> op_type (one_byte_opcodes x) \<notin> {VIE_OP_TYPE_NONE, VIE_OP_TYPE_TWO_BYTE}"
  unfolding plain_opcodes_def by (auto simp: one_byte_opcodes_def opcode_table_def one_byte_list_def)

lemma or_8_mod: "k < 16 \<Longrightarrow> (k mod 8) OR (if 8 \<le> k then 8 else 0) = k" for k :: nat
  using or_8 [of "k mod 8"] by (auto simp: mod_if split: if_split_asm)

text \<open>The displacement.\<close>

lemma displacement_step:
  assumes "left v = disp_bytes d @ xs" "v_disp_bytes v = length (disp_bytes d)" "v_displacement v = 0"
  shows "decode_displacement v = Some (Some (v\<lparr>v_num_processed := v_num_processed v + length (disp_bytes d), v_displacement := disp_val d\<rparr>))"
proof (cases d)
  case No_disp
  then show ?thesis using assms(2,3) by (simp add: decode_displacement_def)
next
  case (Disp8 x)
  then have "take_bytes 1 v = Some ([x], v\<lparr>v_num_processed := v_num_processed v + 1\<rparr>)" using left_take [of v "[x]" xs 1] assms(1) by simp
  then show ?thesis using Disp8 assms(2) by (simp add: decode_displacement_def sign_extend_8 del: take_bytes.simps)
next
  case (Disp32 x)
  then have "take_bytes 4 v = Some (le_bytes 4 (unat x), v\<lparr>v_num_processed := v_num_processed v + 4\<rparr>)"
    using left_take [of v "le_bytes 4 (unat x)" xs 4] assms(1) by simp
  then show ?thesis using Disp32 assms(2) by (simp add: decode_displacement_def sign_extend_32 del: take_bytes.simps)
qed

text \<open>Base register, index register, scale and displacement of an operand.\<close>

fun operand_regs :: "operand \<Rightarrow> vm_reg_name \<times> vm_reg_name \<times> nat \<times> u64" where
  "operand_regs (Rip d) = (VM_REG_GUEST_RIP, VM_REG_LAST, 0, scast d)"
| "operand_regs (Base b d) = (gpr_map ! b, VM_REG_LAST, 0, disp_val d)"
| "operand_regs (Sib b k d) =
     (case b of None \<Rightarrow> VM_REG_LAST | Some b \<Rightarrow> gpr_map ! b, case k of None \<Rightarrow> VM_REG_LAST | Some (k, _) \<Rightarrow> gpr_map ! k,
      case k of None \<Rightarrow> 0 | Some (_, ss) \<Rightarrow> 2 ^ ss, disp_val d)"

definition operand_result :: "insn \<Rightarrow> vie \<Rightarrow> vie \<Rightarrow> bool" where
  "operand_result i w w' \<longleftrightarrow> v_reg w' = i_reg i \<and> v_num_processed w' = v_num_processed w + 1 + length (operand_tail (i_mem i)) \<and>
     v_op w' = v_op w \<and> v_opsize w' = v_opsize w \<and> v_addrsize w' = v_addrsize w \<and> v_rex_present w' = v_rex_present w \<and>
     v_imm_bytes w' = v_imm_bytes w \<and> v_segment_override w' = v_segment_override w \<and>
     (v_base_register w', v_index_register w', v_scale w', v_displacement w') = operand_regs (i_mem i)"

definition decode_operand :: "vie \<Rightarrow> decoding" where
  "decode_operand w = decode_then (decode_modrm w CPU_MODE_64BIT) (\<lambda>v. decode_then (decode_sib v) decode_displacement)"

lemma modrm_fields_code:
  assumes "x = of_nat (64 * m + 8 * (r mod 8) + k)" "m < 4" "k < 8"
  shows "modrm_fields x w = w\<lparr>v_mod := m, v_rm := k, v_reg := r mod 8\<rparr>"
  using byte_fields [OF assms(2) _ assms(3), of "r mod 8"] by (simp add: modrm_fields_def assms(1))

lemma disp_mod_less: "disp_mod d < 3"
  by (cases d) simp_all

lemma modrm_step:
  assumes "before_operand i rest w" "insn_wf i" "operand_code (i_mem i) = (md, rm, b, x)" "md < 3" "rm < 8"
  shows "decode_modrm w CPU_MODE_64BIT =
    (let v = w\<lparr>v_mod := md, v_rm := (if md = 0 \<and> rm = 5 \<or> rm = 4 then rm else rm OR (if b then 8 else 0)), v_reg := i_reg i\<rparr>
     in Some (Some (vie_advance (if v_rm v = 4 then v else modrm_base CPU_MODE_64BIT v))))"
proof -
  define y where "y = (of_nat (64 * md + 8 * (i_reg i mod 8) + rm) :: u8)"
  have p: "vie_peek w = Some y" using left_Cons(1) assms(1,3) unfolding before_operand_def y_def by fastforce
  have f: "modrm_fields y w = w\<lparr>v_mod := md, v_rm := rm, v_reg := i_reg i mod 8\<rparr>"
    using modrm_fields_code [OF refl, of md rm "i_reg i" w] assms(4,5) by (simp add: y_def)
  have fl: "op_flags (v_op w) = 0" using assms(1,2) plain_flags(1) by (simp add: before_operand_def insn_wf_def)
  have rx: "v_rex_r w = (8 \<le> i_reg i)" "v_rex_b w = b" using assms(1,3) by (simp_all add: before_operand_def)
  have g: "modrm_rex (w\<lparr>v_mod := md, v_rm := rm, v_reg := i_reg i mod 8\<rparr>) =
      w\<lparr>v_mod := md, v_rm := (if md = 0 \<and> rm = 5 \<or> rm = 4 then rm else rm OR (if b then 8 else 0)), v_reg := i_reg i\<rparr>"
    using or_8_mod [of "i_reg i"] assms(2,4) unfolding modrm_rex_def insn_wf_def Let_def by (simp add: rx)
  show ?thesis unfolding decode_modrm_def p using assms(4) by (simp add: fl f g Let_def)
qed

lemma decode_base_operand:
  assumes "before_operand i rest w" "insn_wf i" "i_mem i = Base b d"
  shows "\<exists>w'. decode_operand w = Some (Some w') \<and> operand_result i w w'"
proof -
  have b: "b < 16" "b mod 8 \<noteq> 4" "d = No_disp \<longrightarrow> b mod 8 \<noteq> 5" using assms(2,3) by (simp_all add: insn_wf_def)
  have b': "b \<noteq> 4" "d = No_disp \<longrightarrow> b \<noteq> 5" using b by auto
  define v where "v = w\<lparr>v_mod := disp_mod d, v_rm := b, v_reg := i_reg i\<rparr>"
  define v1 where "v1 = vie_advance (modrm_base CPU_MODE_64BIT v)"
  have "(b mod 8) OR (if 8 \<le> b then 8 else 0) = b" using or_8_mod b(1) by simp
  moreover have "\<not> (disp_mod d = 0 \<and> b mod 8 = 5 \<or> b mod 8 = 4)" using b by (cases d) simp_all
  ultimately have rm: "(if disp_mod d = 0 \<and> b mod 8 = 5 \<or> b mod 8 = 4 then b mod 8 else (b mod 8) OR (if 8 \<le> b then 8 else 0)) = b"
    by (simp only: if_False)
  have "operand_code (i_mem i) = (disp_mod d, b mod 8, 8 \<le> b, False)" "b mod 8 < 8" using assms(3) by simp_all
  then have m: "decode_modrm w CPU_MODE_64BIT = Some (Some v1)"
    using modrm_step [OF assms(1,2), of "disp_mod d" "b mod 8" "8 \<le> b" False] disp_mod_less [of d] unfolding rm
    by (simp add: v_def v1_def b'(1))
  have v1: "v1 = w\<lparr>v_num_processed := v_num_processed w + 1, v_mod := disp_mod d, v_rm := b, v_reg := i_reg i,
      v_base_register := gpr_map ! b, v_disp_bytes := length (disp_bytes d)\<rparr>"
    using b'(2) assms(1) by (cases d) (simp_all add: v1_def v_def modrm_base_def vie_advance_def before_operand_def)
  have "left v1 = left (vie_advance w)" by (simp add: v1 left_def vie_advance_def)
  also have "\<dots> = disp_bytes d @ rest" using left_Cons(2) assms(1,3) by (fastforce simp: before_operand_def)
  finally have l: "left v1 = disp_bytes d @ rest" .
  have "decode_sib v1 = Some (Some v1)" using b'(1) by (simp add: decode_sib_def v1)
  moreover have "decode_displacement v1 = Some (Some (v1\<lparr>v_num_processed := v_num_processed v1 + length (disp_bytes d), v_displacement := disp_val d\<rparr>))"
    by (rule displacement_step [OF l]) (use assms(1) in \<open>simp_all add: v1 before_operand_def\<close>)
  ultimately show ?thesis using m assms(1,3) by (simp add: decode_operand_def operand_result_def v1 before_operand_def)
qed

lemma decode_rip_operand:
  assumes "before_operand i rest w" "insn_wf i" "i_mem i = Rip d"
  shows "\<exists>w'. decode_operand w = Some (Some w') \<and> operand_result i w w'"
proof -
  define v1 where "v1 = w\<lparr>v_num_processed := v_num_processed w + 1, v_mod := 0, v_rm := 5, v_reg := i_reg i,
      v_base_register := VM_REG_GUEST_RIP, v_disp_bytes := 4\<rparr>"
  have m: "decode_modrm w CPU_MODE_64BIT = Some (Some v1)"
    using modrm_step [OF assms(1,2), of 0 5 False False] assms(3) by (simp add: v1_def modrm_base_def Let_def vie_advance_def)
  have "left v1 = left (vie_advance w)" by (simp add: v1_def left_def vie_advance_def)
  also have "\<dots> = disp_bytes (Disp32 d) @ rest" using left_Cons(2) assms(1,3) by (fastforce simp: before_operand_def)
  finally have l: "left v1 = disp_bytes (Disp32 d) @ rest" .
  have "decode_sib v1 = Some (Some v1)" by (simp add: decode_sib_def v1_def)
  moreover have "decode_displacement v1 = Some (Some (v1\<lparr>v_num_processed := v_num_processed v1 + length (disp_bytes (Disp32 d)),
      v_displacement := disp_val (Disp32 d)\<rparr>))"
    by (rule displacement_step [OF l]) (use assms(1) in \<open>simp_all add: v1_def before_operand_def\<close>)
  ultimately show ?thesis using m assms(1,3) by (simp add: decode_operand_def operand_result_def v1_def before_operand_def)
qed

lemma sib_fields_code:
  assumes "x = of_nat (64 * s + 8 * k + b)" "s < 4" "k < 8" "b < 8"
  shows "sib_fields x v = v\<lparr>v_ss := s, v_index := k OR (if v_rex_x v then 8 else 0), v_base := b OR (if v_rex_b v then 8 else 0)\<rparr>"
  using byte_fields [OF assms(2-4)] by (simp add: sib_fields_def assms(1))

lemma sib_base_step:
  assumes "case b of None \<Rightarrow> disp_mod d = 2 | Some b \<Rightarrow> b < 16 \<and> (d = No_disp \<longrightarrow> b mod 8 \<noteq> 5)"
    "v_mod u = (case b of None \<Rightarrow> 0 | Some _ \<Rightarrow> disp_mod d)" "v_base u = (case b of None \<Rightarrow> 5 | Some b \<Rightarrow> b)"
    "v_base_register u = VM_REG_LAST" "v_disp_bytes u = 0"
  shows "v_base_register (sib_base u) = (case b of None \<Rightarrow> VM_REG_LAST | Some b \<Rightarrow> gpr_map ! b) \<and>
    v_disp_bytes (sib_base u) = length (disp_bytes d)"
proof (cases b)
  case None
  then show ?thesis using assms by (cases d) (simp_all add: sib_base_def)
next
  case (Some c)
  then have "d = No_disp \<Longrightarrow> c \<noteq> 5 \<and> c \<noteq> 13" using assms(1) by auto
  then show ?thesis using assms Some by (cases d) (simp_all add: sib_base_def)
qed

lemma sib_index_step:
  assumes "case k of None \<Rightarrow> True | Some (k, ss) \<Rightarrow> k < 16 \<and> k \<noteq> 4 \<and> ss < 4"
    "v_index u = (case k of None \<Rightarrow> 4 | Some (k, _) \<Rightarrow> k)" "v_ss u = (case k of None \<Rightarrow> 0 | Some (_, ss) \<Rightarrow> ss)"
    "v_index_register u = VM_REG_LAST" "v_scale u = 0"
  shows "v_index_register (sib_index u) = (case k of None \<Rightarrow> VM_REG_LAST | Some (k, _) \<Rightarrow> gpr_map ! k) \<and>
    v_scale (sib_index u) = (case k of None \<Rightarrow> 0 | Some (_, ss) \<Rightarrow> 2 ^ ss)"
proof (cases k)
  case None
  then show ?thesis using assms by (simp add: sib_index_def)
next
  case (Some p)
  obtain j ss where "p = (j, ss)" by fastforce
  moreover have "gpr_map ! j \<noteq> VM_REG_LAST" if "j < 16" using gpr_map_set(3) that by blast
  ultimately show ?thesis using assms Some by (simp add: sib_index_def)
qed

lemma decode_sib_operand:
  assumes "before_operand i rest w" "insn_wf i" "i_mem i = Sib b k d"
  shows "\<exists>w'. decode_operand w = Some (Some w') \<and> operand_result i w w'"
proof -
  define md where "md = (case b of None \<Rightarrow> 0 | Some _ \<Rightarrow> disp_mod d)"
  define ss where "ss = (case k of None \<Rightarrow> 0 | Some (_, ss) \<Rightarrow> ss)"
  define kk where "kk = (case k of None \<Rightarrow> 4 | Some (k, _) \<Rightarrow> k)"
  define bb where "bb = (case b of None \<Rightarrow> 5 | Some b \<Rightarrow> b)"
  have wf: "case b of None \<Rightarrow> disp_mod d = 2 | Some b \<Rightarrow> b < 16 \<and> (d = No_disp \<longrightarrow> b mod 8 \<noteq> 5)"
    "case k of None \<Rightarrow> True | Some (k, ss) \<Rightarrow> k < 16 \<and> k \<noteq> 4 \<and> ss < 4" using assms(2,3) by (simp_all add: insn_wf_def)
  have r: "md < 3" "ss < 4" "kk < 16" "bb < 16"
    using wf disp_mod_less [of d] by (auto simp: md_def ss_def kk_def bb_def split: option.split)
  define y where "y = (of_nat (64 * ss + 8 * (kk mod 8) + bb mod 8) :: u8)"
  have tail: "operand_tail (i_mem i) = y # disp_bytes d"
    by (auto simp: assms(3) y_def ss_def kk_def bb_def split: option.split)
  have code: "operand_code (i_mem i) = (md, 4, 8 \<le> bb, 8 \<le> kk)"
    by (auto simp: assms(3) md_def kk_def bb_def split: option.split)
  define v where "v = vie_advance (w\<lparr>v_mod := md, v_rm := 4, v_reg := i_reg i\<rparr>)"
  have m: "decode_modrm w CPU_MODE_64BIT = Some (Some v)"
    using modrm_step [OF assms(1,2) code r(1)] by (simp add: v_def)
  have rx: "v_rex_b v = (8 \<le> bb)" "v_rex_x v = (8 \<le> kk)" using assms(1) code by (simp_all add: before_operand_def v_def vie_advance_def)
  have "left v = left (vie_advance w)" by (simp add: v_def left_def vie_advance_def)
  also have "\<dots> = y # disp_bytes d @ rest" using left_Cons(2) assms(1) code tail by (fastforce simp: before_operand_def)
  finally have l: "left v = y # disp_bytes d @ rest" .
  have f: "sib_fields y v = v\<lparr>v_ss := ss, v_index := kk, v_base := bb\<rparr>"
    using sib_fields_code [OF y_def r(2), of v] or_8_mod [OF r(3)] or_8_mod [OF r(4)] by (simp add: rx)
  define v2 where "v2 = vie_advance (sib_index (sib_base (v\<lparr>v_ss := ss, v_index := kk, v_base := bb\<rparr>)))"
  have s: "decode_sib v = Some (Some v2)" using left_Cons(1) [OF l] f r(1) by (simp add: decode_sib_def v2_def v_def vie_advance_def)
  have l2: "left v2 = disp_bytes d @ rest" using left_Cons(2) [OF l] left_same [OF same_base_sib(1), of y v]
    by (simp add: v2_def left_def vie_advance_def sib_index_def sib_base_def Let_def)
  let ?u = "v\<lparr>v_ss := ss, v_index := kk, v_base := bb\<rparr>"
  have fresh: "v_base_register w = VM_REG_LAST" "v_index_register w = VM_REG_LAST" "v_scale w = 0" "v_disp_bytes w = 0"
    using assms(1) by (simp_all add: before_operand_def)
  have eb: "v_base_register (sib_base ?u) = (case b of None \<Rightarrow> VM_REG_LAST | Some b \<Rightarrow> gpr_map ! b) \<and>
      v_disp_bytes (sib_base ?u) = length (disp_bytes d)"
    by (rule sib_base_step [OF wf(1)]) (simp_all add: v_def vie_advance_def md_def bb_def fresh)
  have ei: "v_index_register (sib_index (sib_base ?u)) = (case k of None \<Rightarrow> VM_REG_LAST | Some (k, _) \<Rightarrow> gpr_map ! k) \<and>
      v_scale (sib_index (sib_base ?u)) = (case k of None \<Rightarrow> 0 | Some (_, ss) \<Rightarrow> 2 ^ ss)"
    by (rule sib_index_step [OF wf(2)]) (simp_all add: sib_base_def Let_def v_def vie_advance_def kk_def ss_def fresh)
  have keep: "v_base_register (sib_index u) = v_base_register u" "v_disp_bytes (sib_index u) = v_disp_bytes u" for u
    by (simp_all add: sib_index_def Let_def)
  have e: "(v_base_register v2, v_index_register v2, v_scale v2) = (case b of None \<Rightarrow> VM_REG_LAST | Some b \<Rightarrow> gpr_map ! b,
      case k of None \<Rightarrow> VM_REG_LAST | Some (k, _) \<Rightarrow> gpr_map ! k, case k of None \<Rightarrow> 0 | Some (_, ss) \<Rightarrow> 2 ^ ss)" "v_disp_bytes v2 = length (disp_bytes d)"
    using eb ei by (simp_all add: v2_def vie_advance_def keep)
  have n: "v_num_processed v2 = v_num_processed w + 2" "v_reg v2 = i_reg i" "v_op v2 = v_op w" "v_opsize v2 = v_opsize w" "v_addrsize v2 = v_addrsize w"
    "v_rex_present v2 = v_rex_present w" "v_imm_bytes v2 = v_imm_bytes w" "v_segment_override v2 = v_segment_override w" "v_displacement v2 = v_displacement w"
    by (simp_all add: v2_def v_def vie_advance_def sib_index_def sib_base_def Let_def)
  have "v_displacement v2 = 0" using n assms(1) by (simp add: before_operand_def)
  from displacement_step [OF l2 e(2) this] m s show ?thesis
    using e(1) by (simp add: decode_operand_def operand_result_def n tail assms(3))
qed

text \<open>Prefix and opcode.\<close>

lemma rex_byte:
  assumes "k < 16"
  shows "(0x40 :: u8) \<le> of_nat (64 + k)" "of_nat (64 + k) \<le> (0x4F :: u8)" "unat (of_nat (64 + k) :: u8) = 64 + k"
proof -
  show u: "unat (of_nat (64 + k) :: u8) = 64 + k" using assms by (simp only: unsigned_of_nat) (simp add: take_bit_nat_eq_self)
  show "(0x40 :: u8) \<le> of_nat (64 + k)" "of_nat (64 + k) \<le> (0x4F :: u8)" unfolding word_le_nat_alt u using assms by simp_all
qed

lemma rex_not_prefix:
  assumes "(0x40 :: u8) \<le> x" "x \<le> 0x4F"
  shows "legacy_prefix x v = None" "x \<noteq> 0xC4"
  using assms by (auto simp: legacy_prefix_def segment_override_def)

lemma plain_not_prefix:
  "x \<in> set plain_opcodes \<Longrightarrow> legacy_prefix x v = None \<and> x \<noteq> 0xC4 \<and> \<not> (0x40 \<le> x \<and> x \<le> 0x4F)"
  unfolding plain_opcodes_def by (auto simp: legacy_prefix_def segment_override_def)

lemma rex_flags:
  "k = (if w then 8 else 0) + (if r then 4 else 0) + (if x then 2 else 0) + (if b then 1 else 0) \<Longrightarrow>
   ((of_nat (64 + k) :: u8) AND 8 \<noteq> 0) = w \<and> ((of_nat (64 + k) :: u8) AND 4 \<noteq> 0) = r \<and> ((of_nat (64 + k) :: u8) AND 2 \<noteq> 0) = x \<and>
   ((of_nat (64 + k) :: u8) AND 1 \<noteq> 0) = b"
  by (cases w; cases r; cases x; cases b) simp_all

definition fresh :: "vie \<Rightarrow> bool" where
  "fresh v \<longleftrightarrow> \<not> v_rex_w v \<and> \<not> v_rex_r v \<and> \<not> v_rex_x v \<and> \<not> v_rex_b v \<and> \<not> v_rex_present v \<and> \<not> v_opsize_override v \<and>
     \<not> v_addrsize_override v \<and> \<not> v_segment_override v \<and> v_op v = op_none \<and> v_disp_bytes v = 0 \<and> v_imm_bytes v = 0 \<and> v_scale v = 0 \<and>
     v_base_register v = VM_REG_LAST \<and> v_index_register v = VM_REG_LAST \<and> v_displacement v = 0"

lemma prefix_loop_none: "vie_peek v = Some x \<Longrightarrow> legacy_prefix x v = None \<Longrightarrow> prefix_loop n v = Some (x, v)"
  by (simp add: prefix_loop.simps)

lemma prefixes_step:
  assumes "fresh v" "insn_wf i" "left v = encode i @ rest" "operand_code (i_mem i) = (md, rm, b, x)"
  shows "\<exists>v'. decode_prefixes v CPU_MODE_64BIT cs_d = Some (Some v') \<and>
    left v' = i_op i # of_nat (64 * md + 8 * (i_reg i mod 8) + rm) # operand_tail (i_mem i) @ rest \<and>
    v_rex_r v' = (8 \<le> i_reg i) \<and> v_rex_b v' = b \<and> v_rex_x v' = x \<and> v_rex_present v' = (i_rex i \<or> rex_bits i \<noteq> 0) \<and>
    v_opsize v' = (if i_w i then 8 else 4) \<and> v_addrsize v' = 8 \<and> v_op v' = op_none \<and> v_disp_bytes v' = 0 \<and> v_imm_bytes v' = 0 \<and> v_scale v' = 0 \<and>
    v_base_register v' = VM_REG_LAST \<and> v_index_register v' = VM_REG_LAST \<and> v_displacement v' = 0 \<and> \<not> v_segment_override v' \<and>
    v_num_processed v' = v_num_processed v + (if i_rex i \<or> rex_bits i \<noteq> 0 then 1 else 0)"
proof -
  let ?tail = "i_op i # of_nat (64 * md + 8 * (i_reg i mod 8) + rm) # operand_tail (i_mem i) @ rest"
  have k: "rex_bits i = (if i_w i then 8 else 0) + (if 8 \<le> i_reg i then 4 else 0) + (if x then 2 else 0) + (if b then 1 else 0)"
    using assms(4) by (simp add: rex_bits_def)
  show ?thesis
  proof (cases "i_rex i \<or> rex_bits i \<noteq> 0")
    case True
    define y where "y = (of_nat (64 + rex_bits i) :: u8)"
    have k16: "rex_bits i < 16" using k by simp
    note y = rex_byte [OF k16, folded y_def]
    have l: "left v = y # ?tail" using assms(3,4) True by (simp add: encode_def y_def)
    have f: "(y AND 8 \<noteq> 0) = i_w i" "(y AND 4 \<noteq> 0) = (8 \<le> i_reg i)" "(y AND 2 \<noteq> 0) = x" "(y AND 1 \<noteq> 0) = b"
      using rex_flags [OF k] unfolding y_def by blast+
    define v' where "v' = vie_advance (v\<lparr>v_rex_present := True, v_rex_w := i_w i, v_rex_r := (8 \<le> i_reg i), v_rex_x := x, v_rex_b := b\<rparr>)"
    have "prefix_loop (v_num_valid v) v = Some (y, v)" by (rule prefix_loop_none [OF left_Cons(1) [OF l] rex_not_prefix(1) [OF y(1,2)]])
    moreover have "rex_prefix CPU_MODE_64BIT y v = v'" unfolding rex_prefix_def v'_def using y(1,2) f by (simp only: simp_thms if_True)
    ultimately have d: "decode_prefixes v CPU_MODE_64BIT cs_d = Some (Some (default_sizes CPU_MODE_64BIT cs_d v'))"
      using rex_not_prefix(2) [OF y(1,2)] by (simp add: decode_prefixes_def)
    have "left (default_sizes CPU_MODE_64BIT cs_d v') = left (vie_advance v)" by (simp add: v'_def default_sizes_def left_def vie_advance_def)
    then have "left (default_sizes CPU_MODE_64BIT cs_d v') = ?tail" using left_Cons(2) [OF l] by simp
    then show ?thesis unfolding d using assms(1) True by (simp add: default_sizes_def v'_def vie_advance_def fresh_def)
  next
    case False
    have l: "left v = ?tail" using assms(3,4) False by (simp add: encode_def)
    have "i_op i \<in> set plain_opcodes" using assms(2) by (simp add: insn_wf_def)
    note p = plain_not_prefix [OF this]
    have "prefix_loop (v_num_valid v) v = Some (i_op i, v)" by (rule prefix_loop_none [OF left_Cons(1) [OF l]]) (use p in simp)
    moreover have "rex_prefix CPU_MODE_64BIT (i_op i) v = v" unfolding rex_prefix_def by (rule if_not_P) (use p in blast)
    ultimately have d: "decode_prefixes v CPU_MODE_64BIT cs_d = Some (Some (default_sizes CPU_MODE_64BIT cs_d v))"
      using p by (simp add: decode_prefixes_def)
    have z: "\<not> i_w i" "\<not> 8 \<le> i_reg i" "\<not> x" "\<not> b" using False k by (auto split: if_split_asm)
    have "left (default_sizes CPU_MODE_64BIT cs_d v) = ?tail" using l by (simp add: default_sizes_def left_def)
    then show ?thesis unfolding d using assms(1) False z by (simp add: default_sizes_def fresh_def)
  qed
qed

lemma decode_then_Some: "decode_then r f = Some (Some w) \<Longrightarrow> \<exists>a. r = Some (Some a) \<and> f a = Some (Some w)"
  by (auto simp: decode_then_def split: option.splits)

lemma decode_operand_stages:
  assumes "decode_operand w = Some (Some w')"
  obtains a b where "decode_modrm w CPU_MODE_64BIT = Some (Some a)" "decode_sib a = Some (Some b)" "decode_displacement b = Some (Some w')"
  using assms decode_then_Some unfolding decode_operand_def by blast

lemma decode_any_operand:
  assumes "before_operand i rest w" "insn_wf i"
  shows "\<exists>w'. decode_operand w = Some (Some w') \<and> operand_result i w w'"
  using decode_rip_operand [OF assms] decode_base_operand [OF assms] decode_sib_operand [OF assms] by (cases "i_mem i") blast+

lemma gpr_map_not_rip: "k < 16 \<Longrightarrow> gpr_map ! k \<noteq> VM_REG_GUEST_RIP"
  using gpr_map_set(1) [of k] by (auto simp: gpr_map_def)

lemma and_all_ones: "x AND 0xffffffffffffffff = x" for x :: u64
proof -
  have "(0xffffffffffffffff :: u64) = - 1" by simp
  then show ?thesis by (simp only: and.right_neutral)
qed

lemma verify_effective:
  assumes "operand_result i w w'" "insn_wf i" "v_addrsize w = 8" "\<not> v_segment_override w" "v_num_processed w' = length (encode i)"
    "gla \<noteq> VIE_INVALID_GLA"
  shows "verify_gla vc gla w' CPU_MODE_64BIT = (gla = effective vc i)"
proof -
  have r: "(v_base_register w', v_index_register w', v_scale w', v_displacement w') = operand_regs (i_mem i)" "v_addrsize w' = 8"
    "\<not> v_segment_override w'" using assms(1,3,4) by (simp_all add: operand_result_def)
  have seg: "verify_seg w' \<noteq> VM_REG_GUEST_FS \<and> verify_seg w' \<noteq> VM_REG_GUEST_GS" using r(3) by (simp add: verify_seg_def)
  let ?b = "v_base_register w'" and ?k = "v_index_register w'"
  have V: "verify_gla vc gla w' CPU_MODE_64BIT = (gla = (if ?b = VM_REG_LAST then 0 else vc_regs vc ?b) +
      (if ?b = VM_REG_GUEST_RIP then of_nat (length (encode i)) else 0) + of_nat (v_scale w') * (if ?k = VM_REG_LAST then 0 else vc_regs vc ?k) + v_displacement w')"
    using seg assms(6) unfolding verify_gla_def by (simp add: vm_get_register_def Let_def r(2) size2mask_def assms(5) and_all_ones split: prod.split)
  have wf: "operand_wf (i_mem i)" using assms(2) by (simp add: insn_wf_def)
  have g: "j < 16 \<Longrightarrow> gpr_map ! j \<noteq> VM_REG_LAST" for j using gpr_map_set(3) by blast
  show ?thesis
  proof (cases "i_mem i")
    case (Rip d)
    then show ?thesis unfolding V using r(1) by (simp add: effective_def)
  next
    case (Base b d)
    then show ?thesis unfolding V using r(1) wf g gpr_map_not_rip by (simp add: effective_def)
  next
    case (Sib b k d)
    have eb: "(if ?b = VM_REG_LAST then 0 else vc_regs vc ?b) = (case b of None \<Rightarrow> 0 | Some b \<Rightarrow> vc_regs vc (gpr_map ! b))" "?b \<noteq> VM_REG_GUEST_RIP"
      using r(1) wf g gpr_map_not_rip Sib by (auto split: option.split)
    have ek: "of_nat (v_scale w') * (if ?k = VM_REG_LAST then 0 else vc_regs vc ?k) = (case k of None \<Rightarrow> 0 | Some (k, ss) \<Rightarrow> 2 ^ ss * vc_regs vc (gpr_map ! k))"
      using r(1) wf g Sib by (auto split: option.split)
    show ?thesis unfolding V eb(1) ek using eb(2) r(1) Sib by (simp add: effective_def)
  qed
qed

lemma opcode_step:
  assumes "left v = x # xs" "v_op v = op_none" "x \<in> set plain_opcodes"
  shows "decode_opcode v = Some (Some (vie_advance (v\<lparr>v_op := one_byte_opcodes x\<rparr>)))"
  using plain_flags(2) [OF assms(3)] left_Cons(1) [OF assms(1)] assms(2) by (simp add: decode_opcode_def op_none_def)


text \<open>The instruction \<open>mov r9d, [rbx + rcx * 4 + 0x10]\<close>.\<close>

definition mov_demo :: insn where
  "mov_demo = \<lparr>i_op = 0x8B, i_w = False, i_rex = False, i_reg = 9, i_mem = Sib (Some 3) (Some (1, 2)) (Disp8 0x10)\<rparr>"

lemma mov_demo_bytes: "encode mov_demo = [0x44, 0x8B, 0x4C, 0x8B, 0x10]"
  by (simp add: encode_def mov_demo_def rex_bits_def)


end
