(* ===== verification/Instr_Emul.thy ===== *)
theory Instr_Emul
  imports Instr_Decode
begin

text \<open>
  The instruction emulation of \<^verbatim>\<open>vmm/vmm_instruction_emul.c\<close> and its caller \<^verbatim>\<open>vm_handle_inst_emul\<close> of
  \<^verbatim>\<open>vmm/vmm.c\<close>. The device behind the faulting address is the parameter \<open>ops\<close>: the two callbacks, over a device state of
  any type, and the flag \<open>retu\<close> that they may set to send the exit to user space. The flag arithmetic that the code delegates to \<^verbatim>\<open>sub\<close>, \<^verbatim>\<open>add\<close> and \<^verbatim>\<open>and\<close> instructions is written out as
  the processor defines it. A panic or a failed \<^verbatim>\<open>KASSERT\<close> is \<open>None\<close>.
\<close>

section \<open>State\<close>

record 'd memops =
  op_read :: "'d \<Rightarrow> u64 \<Rightarrow> nat \<Rightarrow> (int \<times> u64 \<times> 'd) option"
  op_write :: "'d \<Rightarrow> u64 \<Rightarrow> u64 \<Rightarrow> nat \<Rightarrow> (int \<times> 'd) option"
  op_retu :: "'d \<Rightarrow> bool"

record 'd emul =
  e_vc :: vcpu
  e_mem :: gmem
  e_dev :: 'd

abbreviation (input) PSL_C :: u64 where "PSL_C \<equiv> 0x1"
abbreviation (input) PSL_PF :: u64 where "PSL_PF \<equiv> 0x4"
abbreviation (input) PSL_AF :: u64 where "PSL_AF \<equiv> 0x10"
abbreviation (input) PSL_Z :: u64 where "PSL_Z \<equiv> 0x40"
abbreviation (input) PSL_N :: u64 where "PSL_N \<equiv> 0x80"
abbreviation (input) PSL_D :: u64 where "PSL_D \<equiv> 0x400"
abbreviation (input) PSL_V :: u64 where "PSL_V \<equiv> 0x800"
abbreviation (input) RFLAGS_STATUS_BITS :: u64 where "RFLAGS_STATUS_BITS \<equiv> 0x8d5"

definition memread :: "'d memops \<Rightarrow> u64 \<Rightarrow> nat \<Rightarrow> 'd emul \<Rightarrow> (int \<times> u64 \<times> 'd emul) option" where
  "memread ops gpa sz st = do { (error, val, d) \<leftarrow> op_read ops (e_dev st) gpa sz; Some (error, val, st\<lparr>e_dev := d\<rparr>) }"

definition memwrite :: "'d memops \<Rightarrow> u64 \<Rightarrow> u64 \<Rightarrow> nat \<Rightarrow> 'd emul \<Rightarrow> (int \<times> 'd emul) option" where
  "memwrite ops gpa val sz st = do { (error, d) \<leftarrow> op_write ops (e_dev st) gpa val sz; Some (error, st\<lparr>e_dev := d\<rparr>) }"

section \<open>Registers\<close>

definition vie_read_register :: "vcpu \<Rightarrow> vm_reg_name \<Rightarrow> int \<times> u64" where
  "vie_read_register vc reg = vm_get_register vc reg"

text \<open>With the \<^verbatim>\<open>KASSERT\<close> that follows most reads.\<close>

definition reg_checked :: "vcpu \<Rightarrow> vm_reg_name \<Rightarrow> u64 option" where
  "reg_checked vc reg = (case vie_read_register vc reg of (error, val) \<Rightarrow> if error = 0 then Some val else None)"

definition vie_calc_bytereg :: "vie \<Rightarrow> vm_reg_name \<times> bool" where
  "vie_calc_bytereg vie =
     (if \<not> v_rex_present vie \<and> v_reg vie AND 4 \<noteq> 0 then (gpr_map ! (v_reg vie AND 3), True) else (gpr_map ! v_reg vie, False))"

definition vie_read_bytereg :: "vcpu \<Rightarrow> vie \<Rightarrow> int \<times> u8" where
  "vie_read_bytereg vc vie =
     (let (reg, lhbr) = vie_calc_bytereg vie; (error, val) = vm_get_register vc reg
      in (error, if lhbr then ucast (drop_bit 8 val) else ucast val))"

definition vie_write_bytereg :: "vcpu \<Rightarrow> vie \<Rightarrow> u8 \<Rightarrow> int \<times> vcpu" where
  "vie_write_bytereg vc vie byte =
     (let (reg, lhbr) = vie_calc_bytereg vie; (error, origval) = vm_get_register vc reg
      in if error \<noteq> 0 then (error, vc)
         else let (val, m) = (if lhbr then (push_bit 8 (ucast byte), push_bit 8 0xff) else (ucast byte, 0xff))
              in vm_set_register vc reg (val OR (origval AND NOT m)))"

definition vie_update_register :: "vcpu \<Rightarrow> vm_reg_name \<Rightarrow> u64 \<Rightarrow> nat \<Rightarrow> int \<times> vcpu" where
  "vie_update_register vc reg val sz =
     (if sz = 1 \<or> sz = 2
      then let (error, origval) = vie_read_register vc reg
           in if error \<noteq> 0 then (error, vc)
              else vm_set_register vc reg ((val AND size2mask sz) OR (origval AND NOT (size2mask sz)))
      else if sz = 4 then vm_set_register vc reg (val AND 0xffffffff)
      else if sz = 8 then vm_set_register vc reg val
      else (EINVAL, vc))"

definition set_reg :: "vm_reg_name \<Rightarrow> u64 \<Rightarrow> nat \<Rightarrow> 'd emul \<Rightarrow> int \<times> 'd emul" where
  "set_reg reg val sz st = (let (error, vc) = vie_update_register (e_vc st) reg val sz in (error, st\<lparr>e_vc := vc\<rparr>))"

definition set_reg_checked :: "vm_reg_name \<Rightarrow> u64 \<Rightarrow> nat \<Rightarrow> 'd emul \<Rightarrow> 'd emul option" where
  "set_reg_checked reg val sz st = (case set_reg reg val sz st of (error, st) \<Rightarrow> if error = 0 then Some st else None)"

section \<open>Status flags\<close>

text \<open>The flags that an arithmetic instruction on \<open>n\<close>-bit operands leaves, from its result and the carry, adjust and overflow
  conditions. PF is set when the low byte of the result has an even number of ones.\<close>

definition status_flags :: "nat \<Rightarrow> u64 \<Rightarrow> bool \<Rightarrow> bool \<Rightarrow> bool \<Rightarrow> u64" where
  "status_flags n r carry adjust overflow =
     (if carry then PSL_C else 0) OR (if even (length (filter (bit r) [0..<8])) then PSL_PF else 0) OR (if adjust then PSL_AF else 0) OR
     (if r = 0 then PSL_Z else 0) OR (if bit r (n - 1) then PSL_N else 0) OR (if overflow then PSL_V else 0)"

definition sub_flags :: "nat \<Rightarrow> u64 \<Rightarrow> u64 \<Rightarrow> u64" where
  "sub_flags n x y =
     (let x = take_bit n x; y = take_bit n y; r = take_bit n (x - y)
      in status_flags n r (bit ((NOT x AND y) OR (NOT (x XOR y) AND r)) (n - 1)) (bit (x XOR y XOR r) 4)
           (bit ((x XOR y) AND (x XOR r)) (n - 1)))"

definition add_flags :: "nat \<Rightarrow> u64 \<Rightarrow> u64 \<Rightarrow> u64" where
  "add_flags n x y =
     (let x = take_bit n x; y = take_bit n y; r = take_bit n (x + y)
      in status_flags n r (bit ((x AND y) OR ((x OR y) AND NOT r)) (n - 1)) (bit (x XOR y XOR r) 4)
           (bit ((x XOR r) AND (y XOR r)) (n - 1)))"

definition and_flags :: "nat \<Rightarrow> u64 \<Rightarrow> u64 \<Rightarrow> u64" where
  "and_flags n x y = status_flags n (take_bit n (x AND y)) False False False"

definition getcc :: "nat \<Rightarrow> u64 \<Rightarrow> u64 \<Rightarrow> u64 option" where
  "getcc opsize x y = (if opsize \<in> {1, 2, 4, 8} then Some (sub_flags (8 * opsize) x y) else None)"

definition getaddflags :: "nat \<Rightarrow> u64 \<Rightarrow> u64 \<Rightarrow> u64 option" where
  "getaddflags opsize x y = (if opsize \<in> {1, 2, 4, 8} then Some (add_flags (8 * opsize) x y) else None)"

definition getandflags :: "nat \<Rightarrow> u64 \<Rightarrow> u64 \<Rightarrow> u64 option" where
  "getandflags opsize x y = (if opsize \<in> {1, 2, 4, 8} then Some (and_flags (8 * opsize) x y) else None)"

text \<open>The update of the status bits that ends the arithmetic handlers: the bits of \<open>keep\<close> come from \<open>rflags2\<close>, the others are
  cleared.\<close>

definition set_status :: "u64 \<Rightarrow> u64 \<Rightarrow> 'd emul \<Rightarrow> int \<times> 'd emul" where
  "set_status keep rflags2 st =
     (let (error, rflags) = vie_read_register (e_vc st) VM_REG_GUEST_RFLAGS
      in if error \<noteq> 0 then (error, st)
         else set_reg VM_REG_GUEST_RFLAGS ((rflags AND NOT RFLAGS_STATUS_BITS) OR (rflags2 AND keep)) 8 st)"

section \<open>Moves\<close>

definition emulate_mov :: "'d memops \<Rightarrow> u64 \<Rightarrow> vie \<Rightarrow> 'd emul \<Rightarrow> (int \<times> 'd emul) option" where
  "emulate_mov ops gpa vie st =
     (let sz = v_opsize vie; b = op_byte (v_op vie)
      in if b = 0x88 then
           (case vie_read_bytereg (e_vc st) vie of
              (error, byte) \<Rightarrow> if error = 0 then memwrite ops gpa (ucast byte) 1 st else Some (error, st))
         else if b = 0x89 then
           (case vie_read_register (e_vc st) (gpr_map ! v_reg vie) of
              (error, val) \<Rightarrow> if error = 0 then memwrite ops gpa (val AND size2mask sz) sz st else Some (error, st))
         else if b = 0x8A then do {
           (error, val, st) \<leftarrow> memread ops gpa 1 st;
           if error = 0
           then let (error, vc) = vie_write_bytereg (e_vc st) vie (ucast val) in Some (error, st\<lparr>e_vc := vc\<rparr>)
           else Some (error, st) }
         else if b = 0x8B then do {
           (error, val, st) \<leftarrow> memread ops gpa sz st;
           Some (if error = 0 then set_reg (gpr_map ! v_reg vie) val sz st else (error, st)) }
         else if b = 0xA1 then do {
           (error, val, st) \<leftarrow> memread ops gpa sz st;
           Some (if error = 0 then set_reg VM_REG_GUEST_RAX val sz st else (error, st)) }
         else if b = 0xA3 then
           (case vie_read_register (e_vc st) VM_REG_GUEST_RAX of
              (error, val) \<Rightarrow> if error = 0 then memwrite ops gpa (val AND size2mask sz) sz st else Some (error, st))
         else if b = 0xC6 then memwrite ops gpa (v_immediate vie) 1 st
         else if b = 0xC7 then memwrite ops gpa (v_immediate vie AND size2mask sz) sz st
         else Some (EINVAL, st))"

definition emulate_movx :: "'d memops \<Rightarrow> u64 \<Rightarrow> vie \<Rightarrow> 'd emul \<Rightarrow> (int \<times> 'd emul) option" where
  "emulate_movx ops gpa vie st =
     (let sz = v_opsize vie; b = op_byte (v_op vie); reg = gpr_map ! v_reg vie
      in if b = 0xB6 then do {
           (error, val, st) \<leftarrow> memread ops gpa 1 st;
           Some (if error = 0 then set_reg reg (ucast (ucast val :: u8)) sz st else (error, st)) }
         else if b = 0xB7 then do {
           (error, val, st) \<leftarrow> memread ops gpa 2 st;
           Some (if error = 0 then set_reg reg (ucast (ucast val :: u16)) sz st else (error, st)) }
         else if b = 0xBE then do {
           (error, val, st) \<leftarrow> memread ops gpa 1 st;
           Some (if error = 0 then set_reg reg (scast (ucast val :: u8)) sz st else (error, st)) }
         else Some (EINVAL, st))"

section \<open>String instructions\<close>

text \<open>The fault flag, the address and the vcpu; the error is always 0.\<close>

definition get_gla ::
    "vcpu \<Rightarrow> vm_guest_paging \<Rightarrow> nat \<Rightarrow> nat \<Rightarrow> u32 \<Rightarrow> vm_reg_name \<Rightarrow> vm_reg_name \<Rightarrow> (bool \<times> u64 \<times> vcpu) option" where
  "get_gla vc paging opsize addrsize prot seg gpr = do {
     cr0 \<leftarrow> reg_checked vc VM_REG_GUEST_CR0;
     rflags \<leftarrow> reg_checked vc VM_REG_GUEST_RFLAGS;
     let (error, desc) = vm_get_seg_desc vc seg;
     if error \<noteq> 0 then None
     else do {
       val \<leftarrow> reg_checked vc gpr;
       r \<leftarrow> vie_calculate_gla (pg_cpu_mode paging) seg desc val opsize addrsize prot;
       let segfault = (if seg = VM_REG_GUEST_SS then vm_inject_ss vc 0 else vm_inject_gp vc);
       case r of
         None \<Rightarrow> do { vc \<leftarrow> segfault; Some (True, 0, vc) }
       | Some gla \<Rightarrow>
           if vie_canonical_check (pg_cpu_mode paging) gla then do { vc \<leftarrow> segfault; Some (True, gla, vc) }
           else do {
             misaligned \<leftarrow> vie_alignment_check (pg_cpl paging) opsize cr0 rflags gla;
             if misaligned then do { vc \<leftarrow> vm_inject_ac vc 0; Some (True, gla, vc) } else Some (False, gla, vc)
           }
     }
   }"

text \<open>Steps of RSI, RDI and RCX at the end of a string instruction.\<close>

definition step_index :: "vm_reg_name \<Rightarrow> nat \<Rightarrow> nat \<Rightarrow> 'd emul \<Rightarrow> 'd emul option" where
  "step_index reg opsize addrsize st = do {
     val \<leftarrow> reg_checked (e_vc st) reg;
     rflags \<leftarrow> reg_checked (e_vc st) VM_REG_GUEST_RFLAGS;
     set_reg_checked reg (if rflags AND PSL_D \<noteq> 0 then val - of_nat opsize else val + of_nat opsize) addrsize st
   }"

definition step_count :: "bool \<Rightarrow> u64 \<Rightarrow> nat \<Rightarrow> 'd emul \<Rightarrow> 'd emul option" where
  "step_count repeat rcx addrsize st =
     (if \<not> repeat then Some st
      else do {
        st \<leftarrow> set_reg_checked VM_REG_GUEST_RCX (rcx - 1) addrsize st;
        m \<leftarrow> vie_size2mask addrsize;
        if (rcx - 1) AND m \<noteq> 0 then do { vc \<leftarrow> vm_restart_instruction (e_vc st); Some (st\<lparr>e_vc := vc\<rparr>) } else Some st
      })"

text \<open>The count register, with \<open>None\<close> in the second place when the instruction is done before it starts.\<close>

definition rep_count :: "vie \<Rightarrow> 'd emul \<Rightarrow> (u64 option) option" where
  "rep_count vie st =
     (if v_repz_present vie \<or> v_repnz_present vie
      then do {
        rcx \<leftarrow> reg_checked (e_vc st) VM_REG_GUEST_RCX;
        m \<leftarrow> vie_size2mask (v_addrsize vie);
        Some (if rcx AND m = 0 then None else Some rcx)
      }
      else Some (Some 0))"

text \<open>The transfer of one element: \<open>Some (error, True, st)\<close> when it is done, \<open>False\<close> when the handler leaves early with the error.\<close>

definition movs_transfer :: "vm_host \<Rightarrow> vm_mem \<Rightarrow> 'd memops \<Rightarrow> u64 \<Rightarrow> vie \<Rightarrow> vm_guest_paging \<Rightarrow> nat \<Rightarrow> 'd emul \<Rightarrow> (int \<times> bool \<times> 'd emul) option" where
  "movs_transfer H vm ops gpa vie paging opsize st =
     (let seg = (if v_segment_override vie then v_segment_register vie else VM_REG_GUEST_DS)
      in do {
        (fault, srcaddr, vc) \<leftarrow> get_gla (e_vc st) paging opsize (v_addrsize vie) PROT_READ seg VM_REG_GUEST_RSI;
        let st = st\<lparr>e_vc := vc\<rparr>;
        if fault then Some (0, False, st)
        else do {
          (error, fault, infos, vc, m) \<leftarrow> vm_copy_setup H vm paging srcaddr opsize PROT_READ (e_vc st, e_mem st);
          let st = st\<lparr>e_vc := vc, e_mem := m\<rparr>;
          if error = 0 then
            if fault then Some (0, False, st)
            else do {
              bs \<leftarrow> vm_copyin (e_mem st) infos opsize;
              (error, st) \<leftarrow> memwrite ops gpa (of_nat (le_val bs)) opsize st;
              Some (error, error = 0, st)
            }
          else do {
            (fault, dstaddr, vc) \<leftarrow> get_gla (e_vc st) paging opsize (v_addrsize vie) PROT_WRITE VM_REG_GUEST_ES VM_REG_GUEST_RDI;
            let st = st\<lparr>e_vc := vc\<rparr>;
            if fault then Some (0, False, st)
            else do {
              (error, fault, infos, vc, m) \<leftarrow> vm_copy_setup H vm paging dstaddr opsize PROT_WRITE (e_vc st, e_mem st);
              let st = st\<lparr>e_vc := vc, e_mem := m\<rparr>;
              if error = 0 then
                if fault then Some (0, False, st)
                else do {
                  (error, val, st) \<leftarrow> memread ops gpa opsize st;
                  if error \<noteq> 0 then Some (error, False, st)
                  else do {
                    m \<leftarrow> vm_copyout (e_mem st) (le_bytes opsize (unat val)) infos;
                    Some (0, True, st\<lparr>e_mem := m\<rparr>)
                  }
                }
              else do {
                (error, fault, srcgpa, vc, m) \<leftarrow> vm_gla2gpa H vm paging srcaddr PROT_READ (e_vc st, e_mem st);
                let st = st\<lparr>e_vc := vc, e_mem := m\<rparr>;
                if error \<noteq> 0 \<or> fault then Some (error, False, st)
                else do {
                  (error, fault, dstgpa, vc, m) \<leftarrow> vm_gla2gpa H vm paging dstaddr PROT_WRITE (e_vc st, e_mem st);
                  let st = st\<lparr>e_vc := vc, e_mem := m\<rparr>;
                  if error \<noteq> 0 \<or> fault then Some (error, False, st)
                  else do {
                    (error, val, st) \<leftarrow> memread ops srcgpa opsize st;
                    if error \<noteq> 0 then Some (error, False, st)
                    else do {
                      (error, st) \<leftarrow> memwrite ops dstgpa val opsize st;
                      Some (error, error = 0, st)
                    }
                  }
                }
              }
            }
          }
        }
      })"

text \<open>The assertion at the label \<open>done\<close> allows only 0 and EFAULT.\<close>

definition emulate_movs :: "vm_host \<Rightarrow> vm_mem \<Rightarrow> 'd memops \<Rightarrow> u64 \<Rightarrow> vie \<Rightarrow> vm_guest_paging \<Rightarrow> 'd emul \<Rightarrow> (int \<times> 'd emul) option" where
  "emulate_movs H vm ops gpa vie paging st =
     (let opsize = (if op_byte (v_op vie) = 0xA4 then 1 else v_opsize vie)
      in do {
        count \<leftarrow> rep_count vie st;
        case count of
          None \<Rightarrow> Some (0, st)
        | Some rcx \<Rightarrow> do {
            (error, ok, st) \<leftarrow> movs_transfer H vm ops gpa vie paging opsize st;
            if \<not> ok then (if error = 0 \<or> error = EFAULT then Some (error, st) else None)
            else do {
              st \<leftarrow> step_index VM_REG_GUEST_RSI opsize (v_addrsize vie) st;
              st \<leftarrow> step_index VM_REG_GUEST_RDI opsize (v_addrsize vie) st;
              st \<leftarrow> step_count (v_repz_present vie \<or> v_repnz_present vie) rcx (v_addrsize vie) st;
              Some (0, st)
            }
          }
      })"

definition emulate_stos :: "'d memops \<Rightarrow> u64 \<Rightarrow> vie \<Rightarrow> 'd emul \<Rightarrow> (int \<times> 'd emul) option" where
  "emulate_stos ops gpa vie st =
     (let opsize = (if op_byte (v_op vie) = 0xAA then 1 else v_opsize vie)
      in do {
        count \<leftarrow> rep_count vie st;
        case count of
          None \<Rightarrow> Some (0, st)
        | Some rcx \<Rightarrow> do {
            val \<leftarrow> reg_checked (e_vc st) VM_REG_GUEST_RAX;
            (error, st) \<leftarrow> memwrite ops gpa val opsize st;
            if error \<noteq> 0 then Some (error, st)
            else do {
              st \<leftarrow> step_index VM_REG_GUEST_RDI opsize (v_addrsize vie) st;
              st \<leftarrow> step_count (v_repz_present vie \<or> v_repnz_present vie) rcx (v_addrsize vie) st;
              Some (0, st)
            }
          }
      })"

section \<open>Arithmetic\<close>

text \<open>\<^verbatim>\<open>emulate_and\<close> and \<^verbatim>\<open>emulate_or\<close> differ in the operation and in the opcode of the register form.\<close>

definition emulate_bitop :: "(u64 \<Rightarrow> u64 \<Rightarrow> u64) \<Rightarrow> u8 \<Rightarrow> 'd memops \<Rightarrow> u64 \<Rightarrow> vie \<Rightarrow> 'd emul \<Rightarrow> (int \<times> 'd emul) option" where
  "emulate_bitop f regform ops gpa vie st =
     (let sz = v_opsize vie; b = op_byte (v_op vie); reg = gpr_map ! v_reg vie
      in do {
        (error, result, st) \<leftarrow>
          (if b = regform then
             (case vie_read_register (e_vc st) reg of
                (error, val1) \<Rightarrow>
                  if error \<noteq> 0 then Some (error, 0, st)
                  else do {
                    (error, val2, st) \<leftarrow> memread ops gpa sz st;
                    if error \<noteq> 0 then Some (error, 0, st)
                    else let (error, st) = set_reg reg (f val1 val2) sz st in Some (error, f val1 val2, st)
                  })
           else if b = 0x81 \<or> b = 0x83 then do {
             (error, val1, st) \<leftarrow> memread ops gpa sz st;
             if error \<noteq> 0 then Some (error, 0, st)
             else do {
               (error, st) \<leftarrow> memwrite ops gpa (f val1 (v_immediate vie)) sz st;
               Some (error, f val1 (v_immediate vie), st)
             }
           }
           else Some (EINVAL, 0, st));
        if error \<noteq> 0 then Some (error, st)
        else do {
          rflags2 \<leftarrow> getcc sz result 0;
          Some (set_status (PSL_PF OR PSL_Z OR PSL_N) rflags2 st)
        }
      })"

definition emulate_and :: "'d memops \<Rightarrow> u64 \<Rightarrow> vie \<Rightarrow> 'd emul \<Rightarrow> (int \<times> 'd emul) option" where
  "emulate_and = emulate_bitop (AND) 0x23"

definition emulate_or :: "'d memops \<Rightarrow> u64 \<Rightarrow> vie \<Rightarrow> 'd emul \<Rightarrow> (int \<times> 'd emul) option" where
  "emulate_or = emulate_bitop (OR) 0x0B"

definition emulate_cmp :: "'d memops \<Rightarrow> u64 \<Rightarrow> vie \<Rightarrow> 'd emul \<Rightarrow> (int \<times> 'd emul) option" where
  "emulate_cmp ops gpa vie st =
     (let b = op_byte (v_op vie); sz = (if b = 0x80 then 1 else v_opsize vie)
      in if b = 0x39 \<or> b = 0x3B then
           (case vie_read_register (e_vc st) (gpr_map ! v_reg vie) of
              (error, regop) \<Rightarrow>
                if error \<noteq> 0 then Some (error, st)
                else do {
                  (error, memop, st) \<leftarrow> memread ops gpa sz st;
                  if error \<noteq> 0 then Some (error, st)
                  else do {
                    rflags2 \<leftarrow> (if b = 0x3B then getcc sz regop memop else getcc sz memop regop);
                    Some (set_status RFLAGS_STATUS_BITS rflags2 st)
                  }
                })
         else if b = 0x80 \<or> b = 0x81 \<or> b = 0x83 then do {
           (error, op1, st) \<leftarrow> memread ops gpa sz st;
           if error \<noteq> 0 then Some (error, st)
           else do {
             rflags2 \<leftarrow> getcc sz op1 (v_immediate vie);
             Some (set_status RFLAGS_STATUS_BITS rflags2 st)
           }
         }
         else Some (EINVAL, st))"

definition emulate_test :: "'d memops \<Rightarrow> u64 \<Rightarrow> vie \<Rightarrow> 'd emul \<Rightarrow> (int \<times> 'd emul) option" where
  "emulate_test ops gpa vie st =
     (if op_byte (v_op vie) \<noteq> 0xF7 \<or> v_reg vie AND 7 \<noteq> 0 then Some (EINVAL, st)
      else do {
        (error, op1, st) \<leftarrow> memread ops gpa (v_opsize vie) st;
        if error \<noteq> 0 then Some (error, st)
        else do {
          rflags2 \<leftarrow> getandflags (v_opsize vie) op1 (v_immediate vie);
          Some (set_status (PSL_PF OR PSL_Z OR PSL_N) rflags2 st)
        }
      })"

text \<open>The bits that BEXTR extracts.\<close>

definition bextr_bits :: "nat \<Rightarrow> u64 \<Rightarrow> u64 \<Rightarrow> u64" where
  "bextr_bits sz src1 src2 =
     (let start = unat (src2 AND 0xff); len = unat (drop_bit 8 (src2 AND 0xff00))
      in if start > sz * 8 then 0
         else let len = (if start + len > sz * 8 then sz * 8 - start else len)
              in if len = 0 then 0
                 else let src1 = (if start > 0 then drop_bit start src1 else src1)
                      in if len < 64 then src1 AND (push_bit len 1 - 1) else src1)"

definition emulate_bextr :: "'d memops \<Rightarrow> u64 \<Rightarrow> vie \<Rightarrow> vm_guest_paging \<Rightarrow> 'd emul \<Rightarrow> (int \<times> 'd emul) option" where
  "emulate_bextr ops gpa vie paging st =
     (let sz = (if v_opsize vie \<noteq> 4 \<and> pg_cpu_mode paging \<noteq> CPU_MODE_64BIT then 4 else v_opsize vie)
      in do {
        (error, src1, st) \<leftarrow> memread ops gpa sz st;
        if error \<noteq> 0 then Some (error, st)
        else case vie_read_register (e_vc st) (gpr_map ! v_vex_reg vie) of
               (error, src2) \<Rightarrow>
                 if error \<noteq> 0 then Some (error, st)
                 else case vie_read_register (e_vc st) VM_REG_GUEST_RFLAGS of
                        (error, rflags) \<Rightarrow>
                          if error \<noteq> 0 then Some (error, st)
                          else let dst = bextr_bits sz src1 src2; (error, st) = set_reg (gpr_map ! v_reg vie) dst sz st
                               in if error \<noteq> 0 then Some (error, st)
                                  else let rflags = rflags AND NOT RFLAGS_STATUS_BITS
                                       in Some (set_reg VM_REG_GUEST_RFLAGS (if dst = 0 then rflags OR PSL_Z else rflags) 8 st)
      })"

text \<open>\<^verbatim>\<open>emulate_add\<close> and \<^verbatim>\<open>emulate_sub\<close> differ in the operation, its flags and the opcode.\<close>

definition emulate_arith ::
    "(u64 \<Rightarrow> u64 \<Rightarrow> u64) \<Rightarrow> (nat \<Rightarrow> u64 \<Rightarrow> u64 \<Rightarrow> u64 option) \<Rightarrow> u8 \<Rightarrow> 'd memops \<Rightarrow> u64 \<Rightarrow> vie \<Rightarrow> 'd emul \<Rightarrow> (int \<times> 'd emul) option" where
  "emulate_arith f flags opcode ops gpa vie st =
     (let sz = v_opsize vie; reg = gpr_map ! v_reg vie
      in if op_byte (v_op vie) \<noteq> opcode then Some (EINVAL, st)
         else case vie_read_register (e_vc st) reg of
                (error, val1) \<Rightarrow>
                  if error \<noteq> 0 then Some (error, st)
                  else do {
                    (error, val2, st) \<leftarrow> memread ops gpa sz st;
                    if error \<noteq> 0 then Some (error, st)
                    else let (error, st) = set_reg reg (f val1 val2) sz st
                         in if error \<noteq> 0 then Some (error, st)
                            else do { rflags2 \<leftarrow> flags sz val1 val2; Some (set_status RFLAGS_STATUS_BITS rflags2 st) }
                  })"

definition emulate_add :: "'d memops \<Rightarrow> u64 \<Rightarrow> vie \<Rightarrow> 'd emul \<Rightarrow> (int \<times> 'd emul) option" where
  "emulate_add = emulate_arith (+) getaddflags 0x03"

definition emulate_sub :: "'d memops \<Rightarrow> u64 \<Rightarrow> vie \<Rightarrow> 'd emul \<Rightarrow> (int \<times> 'd emul) option" where
  "emulate_sub = emulate_arith (-) getcc 0x2B"

section \<open>Stack and bit instructions\<close>

text \<open>The size of a stack pointer and of the operand, and the descriptor that the segment checks see. In real mode the code leaves the
  descriptor uninitialised; \<open>rm_desc\<close> stands for what happens to be there.\<close>

definition stack_sizes :: "seg_desc \<Rightarrow> vcpu \<Rightarrow> vm_cpu_mode \<Rightarrow> vie \<Rightarrow> (nat \<times> nat \<times> seg_desc) option" where
  "stack_sizes rm_desc vc mode vie =
     (if mode = CPU_MODE_REAL then Some (2, v_opsize vie, rm_desc)
      else if mode = CPU_MODE_64BIT then Some (8, if v_opsize_override vie then 2 else 8, rm_desc)
      else case vm_get_seg_desc vc VM_REG_GUEST_SS of
             (error, desc) \<Rightarrow> if error \<noteq> 0 then None else Some (if SEG_DESC_DEF32 (sd_access desc) then 4 else 2, v_opsize vie, desc))"

definition emulate_stack_op ::
    "seg_desc \<Rightarrow> vm_host \<Rightarrow> vm_mem \<Rightarrow> 'd memops \<Rightarrow> u64 \<Rightarrow> vie \<Rightarrow> vm_guest_paging \<Rightarrow> 'd emul \<Rightarrow> (int \<times> 'd emul) option" where
  "emulate_stack_op rm_desc H vm ops mmio_gpa vie paging st =
     (let pushop = (op_type (v_op vie) = VIE_OP_TYPE_PUSH); mode = pg_cpu_mode paging; prot = (if pushop then PROT_WRITE else PROT_READ)
      in do {
        (stackaddrsize, sz, ss_desc) \<leftarrow> stack_sizes rm_desc (e_vc st) mode vie;
        cr0 \<leftarrow> reg_checked (e_vc st) VM_REG_GUEST_CR0;
        rflags \<leftarrow> reg_checked (e_vc st) VM_REG_GUEST_RFLAGS;
        rsp \<leftarrow> reg_checked (e_vc st) VM_REG_GUEST_RSP;
        let rsp = (if pushop then rsp - of_nat sz else rsp);
        r \<leftarrow> vie_calculate_gla mode VM_REG_GUEST_SS ss_desc rsp sz stackaddrsize prot;
        case r of
          None \<Rightarrow> do { vc \<leftarrow> vm_inject_ss (e_vc st) 0; Some (0, st\<lparr>e_vc := vc\<rparr>) }
        | Some stack_gla \<Rightarrow>
            if vie_canonical_check mode stack_gla then do { vc \<leftarrow> vm_inject_ss (e_vc st) 0; Some (0, st\<lparr>e_vc := vc\<rparr>) }
            else do {
              misaligned \<leftarrow> vie_alignment_check (pg_cpl paging) sz cr0 rflags stack_gla;
              if misaligned then do { vc \<leftarrow> vm_inject_ac (e_vc st) 0; Some (0, st\<lparr>e_vc := vc\<rparr>) }
              else do {
                (error, fault, infos, vc, m) \<leftarrow> vm_copy_setup H vm paging stack_gla sz prot (e_vc st, e_mem st);
                let st = st\<lparr>e_vc := vc, e_mem := m\<rparr>;
                if error \<noteq> 0 \<or> fault then Some (error, st)
                else do {
                  (error, rsp, st) \<leftarrow>
                    (if pushop then do {
                       (error, val, st) \<leftarrow> memread ops mmio_gpa sz st;
                       if error \<noteq> 0 then Some (error, rsp, st)
                       else do {
                         m \<leftarrow> vm_copyout (e_mem st) (le_bytes sz (unat val)) infos;
                         Some (0, rsp, st\<lparr>e_mem := m\<rparr>)
                       }
                     }
                     else do {
                       bs \<leftarrow> vm_copyin (e_mem st) infos sz;
                       (error, st) \<leftarrow> memwrite ops mmio_gpa (of_nat (le_val bs)) sz st;
                       Some (error, rsp + of_nat sz, st)
                     });
                  if error \<noteq> 0 then Some (error, st)
                  else do { st \<leftarrow> set_reg_checked VM_REG_GUEST_RSP rsp stackaddrsize st; Some (0, st) }
                }
              }
            }
      })"

definition emulate_push ::
    "seg_desc \<Rightarrow> vm_host \<Rightarrow> vm_mem \<Rightarrow> 'd memops \<Rightarrow> u64 \<Rightarrow> vie \<Rightarrow> vm_guest_paging \<Rightarrow> 'd emul \<Rightarrow> (int \<times> 'd emul) option" where
  "emulate_push rm_desc H vm ops mmio_gpa vie paging st =
     (if v_reg vie AND 7 \<noteq> 6 then Some (EINVAL, st) else emulate_stack_op rm_desc H vm ops mmio_gpa vie paging st)"

definition emulate_pop ::
    "seg_desc \<Rightarrow> vm_host \<Rightarrow> vm_mem \<Rightarrow> 'd memops \<Rightarrow> u64 \<Rightarrow> vie \<Rightarrow> vm_guest_paging \<Rightarrow> 'd emul \<Rightarrow> (int \<times> 'd emul) option" where
  "emulate_pop rm_desc H vm ops mmio_gpa vie paging st =
     (if v_reg vie AND 7 \<noteq> 0 then Some (EINVAL, st) else emulate_stack_op rm_desc H vm ops mmio_gpa vie paging st)"

definition emulate_group1 :: "'d memops \<Rightarrow> u64 \<Rightarrow> vie \<Rightarrow> 'd emul \<Rightarrow> (int \<times> 'd emul) option" where
  "emulate_group1 ops gpa vie st =
     (let r = v_reg vie AND 7
      in if r = 1 then emulate_or ops gpa vie st
         else if r = 4 then emulate_and ops gpa vie st
         else if r = 7 then emulate_cmp ops gpa vie st
         else Some (EINVAL, st))"

definition emulate_bittest :: "'d memops \<Rightarrow> u64 \<Rightarrow> vie \<Rightarrow> 'd emul \<Rightarrow> (int \<times> 'd emul) option" where
  "emulate_bittest ops gpa vie st =
     (if v_reg vie AND 7 \<noteq> 4 then Some (EINVAL, st)
      else do {
        rflags \<leftarrow> reg_checked (e_vc st) VM_REG_GUEST_RFLAGS;
        (error, val, st) \<leftarrow> memread ops gpa (v_opsize vie) st;
        if error \<noteq> 0 then Some (error, st)
        else do {
          let bitoff = unat (v_immediate vie AND of_nat (v_opsize vie * 8 - 1));
          let rflags = (if val AND push_bit bitoff 1 \<noteq> 0 then rflags OR PSL_C else rflags AND NOT PSL_C);
          st \<leftarrow> set_reg_checked VM_REG_GUEST_RFLAGS rflags 8 st;
          Some (0, st)
        }
      })"

definition emulate_twob_group15 :: "'d memops \<Rightarrow> u64 \<Rightarrow> vie \<Rightarrow> 'd emul \<Rightarrow> (int \<times> 'd emul) option" where
  "emulate_twob_group15 ops gpa vie st =
     (if v_reg vie AND 7 \<noteq> 7 then Some (EINVAL, st)
      else if v_mod vie = 3 then Some (0, st)
      else do { (error, buf, st) \<leftarrow> memread ops gpa 1 st; Some (error, st) })"

section \<open>Dispatch\<close>

definition vmm_emulate_instruction ::
    "seg_desc \<Rightarrow> vm_host \<Rightarrow> vm_mem \<Rightarrow> 'd memops \<Rightarrow> u64 \<Rightarrow> vie \<Rightarrow> vm_guest_paging \<Rightarrow> 'd emul \<Rightarrow> (int \<times> 'd emul) option" where
  "vmm_emulate_instruction rm_desc H vm ops gpa vie paging st =
     (if \<not> v_decoded vie then Some (EINVAL, st)
      else case op_type (v_op vie) of
             VIE_OP_TYPE_GROUP1 \<Rightarrow> emulate_group1 ops gpa vie st
           | VIE_OP_TYPE_POP \<Rightarrow> emulate_pop rm_desc H vm ops gpa vie paging st
           | VIE_OP_TYPE_PUSH \<Rightarrow> emulate_push rm_desc H vm ops gpa vie paging st
           | VIE_OP_TYPE_CMP \<Rightarrow> emulate_cmp ops gpa vie st
           | VIE_OP_TYPE_MOV \<Rightarrow> emulate_mov ops gpa vie st
           | VIE_OP_TYPE_MOVSX \<Rightarrow> emulate_movx ops gpa vie st
           | VIE_OP_TYPE_MOVZX \<Rightarrow> emulate_movx ops gpa vie st
           | VIE_OP_TYPE_MOVS \<Rightarrow> emulate_movs H vm ops gpa vie paging st
           | VIE_OP_TYPE_STOS \<Rightarrow> emulate_stos ops gpa vie st
           | VIE_OP_TYPE_AND \<Rightarrow> emulate_and ops gpa vie st
           | VIE_OP_TYPE_OR \<Rightarrow> emulate_or ops gpa vie st
           | VIE_OP_TYPE_SUB \<Rightarrow> emulate_sub ops gpa vie st
           | VIE_OP_TYPE_BITTEST \<Rightarrow> emulate_bittest ops gpa vie st
           | VIE_OP_TYPE_TWOB_GRP15 \<Rightarrow> emulate_twob_group15 ops gpa vie st
           | VIE_OP_TYPE_ADD \<Rightarrow> emulate_add ops gpa vie st
           | VIE_OP_TYPE_TEST \<Rightarrow> emulate_test ops gpa vie st
           | VIE_OP_TYPE_BEXTR \<Rightarrow> emulate_bextr ops gpa vie paging st
           | _ \<Rightarrow> Some (EINVAL, st))"

text \<open>The error, the fault flag, the bytes in \<open>vie\<close> and the state.\<close>

definition vmm_fetch_instruction ::
    "vm_host \<Rightarrow> vm_mem \<Rightarrow> vm_guest_paging \<Rightarrow> u64 \<Rightarrow> nat \<Rightarrow> vie \<Rightarrow> 'd emul \<Rightarrow> (int \<times> bool \<times> vie \<times> 'd emul) option" where
  "vmm_fetch_instruction H vm paging rip inst_length vie st =
     (if inst_length > VIE_INST_SIZE then None
      else do {
        (error, fault, infos, vc, m) \<leftarrow> vm_copy_setup H vm paging rip inst_length (PROT_READ OR PROT_EXEC) (e_vc st, e_mem st);
        let st = st\<lparr>e_vc := vc, e_mem := m\<rparr>;
        if error \<noteq> 0 \<or> fault then Some (error, fault, vie, st)
        else do {
          bs \<leftarrow> vm_copyin (e_mem st) infos inst_length;
          Some (0, False, vie\<lparr>v_inst := (\<lambda>i. if i < inst_length then bs ! i else v_inst vie i), v_num_valid := inst_length\<rparr>, st)
        }
      })"

text \<open>The part \<^verbatim>\<open>inst_emul\<close> of an exit.\<close>

record inst_emul =
  ie_rip :: u64
  ie_gla :: u64
  ie_gpa :: u64
  ie_cs_base :: u64
  ie_cs_d :: bool
  ie_paging :: vm_guest_paging

abbreviation (input) DEFAULT_APIC_BASE :: u64 where "DEFAULT_APIC_BASE \<equiv> 0xfee00000"
abbreviation (input) VIOAPIC_BASE :: u64 where "VIOAPIC_BASE \<equiv> 0xfec00000"
abbreviation (input) VHPET_BASE :: u64 where "VHPET_BASE \<equiv> 0xfed00000"

text \<open>The devices emulated in the kernel, by address.\<close>

definition kernel_device :: "'d memops \<Rightarrow> 'd memops \<Rightarrow> 'd memops \<Rightarrow> u64 \<Rightarrow> 'd memops option" where
  "kernel_device lapic vioapic vhpet gpa =
     (if gpa \<ge> DEFAULT_APIC_BASE \<and> gpa < DEFAULT_APIC_BASE + 4096 then Some lapic
      else if gpa \<ge> VIOAPIC_BASE \<and> gpa < VIOAPIC_BASE + 4096 then Some vioapic
      else if gpa \<ge> VHPET_BASE \<and> gpa < VHPET_BASE + 1024 then Some vhpet
      else None)"

text \<open>The error, whether the exit goes to user space, and the state.\<close>

definition vm_handle_inst_emul ::
    "seg_desc \<Rightarrow> vm_host \<Rightarrow> vm_mem \<Rightarrow> 'd memops \<Rightarrow> 'd memops \<Rightarrow> 'd memops \<Rightarrow> inst_emul \<Rightarrow> vie \<Rightarrow> 'd emul \<Rightarrow> (int \<times> bool \<times> 'd emul) option" where
  "vm_handle_inst_emul rm_desc H vm lapic vioapic vhpet ie vie st =
     (if exit_inst_length (e_vc st) \<noteq> 0 then None
      else do {
        (error, fault, vie, st) \<leftarrow>
          (if v_num_valid vie = 0 then vmm_fetch_instruction H vm (ie_paging ie) (ie_rip ie + ie_cs_base ie) VIE_INST_SIZE vie st
           else Some (0, False, vie, st));
        if error \<noteq> 0 \<or> fault then Some (error, False, st)
        else do {
          r \<leftarrow> vmm_decode_instruction (e_vc st) (ie_gla ie) (pg_cpu_mode (ie_paging ie)) (ie_cs_d ie) vie;
          case r of
            None \<Rightarrow> Some (0, True, st)
          | Some vie \<Rightarrow>
              let vc = e_vc st;
                  st = st\<lparr>e_vc := vc\<lparr>exit_inst_length := v_num_processed vie, nextrip := nextrip vc + of_nat (v_num_processed vie)\<rparr>\<rparr>
              in case kernel_device lapic vioapic vhpet (ie_gpa ie) of
                   None \<Rightarrow> Some (0, True, st)
                 | Some ops \<Rightarrow> do {
                     (error, st) \<leftarrow> vmm_emulate_instruction rm_desc H vm ops (ie_gpa ie) vie (ie_paging ie) st;
                     Some (error, op_retu ops (e_dev st), st)
                   }
        }
      })"

end
