(* ===== verification/Emul_Flags.thy ===== *)
theory Emul_Flags
  imports Instr_Emul
begin

text \<open>
  The status flags of the emulated arithmetic: what the flags of a subtraction say about its operands at every operand
  width, and the comparison that the emulation of CMP makes with them.
\<close>

section \<open>Flags of a subtraction\<close>

lemma bit_top:
  fixes x :: u64
  assumes "0 < n" "n \<le> 64"
  shows "bit (take_bit n x) (n - 1) \<longleftrightarrow> 2 ^ (n - 1) \<le> uint (take_bit n x)"
proof -
  define X where "X = uint (take_bit n x)"
  have X: "0 \<le> X" "X < 2 ^ n" unfolding X_def by (simp_all add: unsigned_take_bit_eq)
  have p: "(2::int) ^ n = 2 * 2 ^ (n - 1)" using assms(1) by (cases n) simp_all
  have "bit (take_bit n x) (n - 1) = bit X (n - 1)" unfolding X_def by (simp add: bit_uint_iff) (use assms bit_imp_le_length in auto)
  also have "\<dots> = odd (X div 2 ^ (n - 1))" by (simp add: bit_iff_odd)
  also have "\<dots> = (2 ^ (n - 1) \<le> X)"
  proof (cases "2 ^ (n - 1) \<le> X")
    case True
    then have "X div 2 ^ (n - 1) = 1" using X p by (intro int_div_pos_eq [where r = "X - 2 ^ (n - 1)"]) simp_all
    then show ?thesis using True by simp
  qed (use X in simp)
  finally show ?thesis unfolding X_def .
qed

lemma uint_take_bit_diff: "n \<le> 64 \<Longrightarrow> uint (take_bit n (x - y)) = (uint x - uint y) mod 2 ^ n" for x y :: u64
proof -
  assume "n \<le> 64"
  then have "(2::int) ^ n dvd 2 ^ LENGTH(64)" by (intro le_imp_power_dvd) simp
  then have m: "((uint x - uint y) mod 2 ^ LENGTH(64)) mod 2 ^ n = (uint x - uint y) mod 2 ^ n" by (rule mod_mod_cancel)
  have "uint (take_bit n (x - y)) = take_bit n (uint (x - y))" by (rule unsigned_take_bit_eq)
  also have "\<dots> = ((uint x - uint y) mod 2 ^ LENGTH(64)) mod 2 ^ n" by (simp only: uint_word_ariths take_bit_eq_mod)
  finally show ?thesis unfolding m .
qed

lemma mod_diff:
  fixes X Y N :: int
  assumes "0 \<le> X" "X < 2 * N" "0 \<le> Y" "Y < 2 * N"
  shows "(X - Y) mod (2 * N) = (if X < Y then X - Y + 2 * N else X - Y)"
proof (cases "X < Y")
  case True
  have "(X - Y) mod (2 * N) = (X - Y + 2 * N) mod (2 * N)" by simp
  also have "\<dots> = X - Y + 2 * N" using assms True by (intro mod_pos_pos_trivial) simp_all
  finally show ?thesis using True by simp
next
  case False
  then show ?thesis using assms by (simp add: mod_pos_pos_trivial)
qed

lemma mod_diff_0:
  fixes X Y N :: int
  assumes "0 \<le> X" "X < 2 * N" "0 \<le> Y" "Y < 2 * N"
  shows "(X - Y) mod (2 * N) = 0 \<longleftrightarrow> X = Y"
  unfolding mod_diff [OF assms] using assms by auto

text \<open>Borrow and overflow of a subtraction, from the top bits of the operands and of the result.\<close>

lemma top_bit_compare:
  fixes X Y N R :: int
  assumes "0 \<le> X" "X < 2 * N" "0 \<le> Y" "Y < 2 * N" "R = (X - Y) mod (2 * N)"
  shows "(\<not> N \<le> X \<and> N \<le> Y \<or> (N \<le> X \<longleftrightarrow> N \<le> Y) \<and> N \<le> R) = (X < Y)"
    "((N \<le> R) \<noteq> ((N \<le> X) \<noteq> (N \<le> Y) \<and> (N \<le> X) \<noteq> (N \<le> R))) =
      ((if N \<le> X then X - 2 * N else X) < (if N \<le> Y then Y - 2 * N else Y))"
  unfolding assms(5) mod_diff [OF assms(1-4)] using assms(1-4) by auto

lemma signed_take_bit_split:
  fixes x :: u64
  assumes "0 < n" "n \<le> 64"
  shows "signed_take_bit (n - 1) (uint x) = (if 2 ^ (n - 1) \<le> uint (take_bit n x) then uint (take_bit n x) - 2 * 2 ^ (n - 1) else uint (take_bit n x))"
proof -
  have s: "Suc (n - 1) = n" using assms by simp
  have b: "bit (uint x) (n - 1) = bit (take_bit n x) (n - 1)" using assms by (simp add: bit_take_bit_iff bit_uint_iff) arith
  have "signed_take_bit (n - 1) (uint x) = take_bit (Suc (n - 1)) (uint x) - 2 ^ Suc (n - 1) * of_bool (bit (uint x) (n - 1))"
    by (rule signed_take_bit_eq_take_bit_minus)
  then show ?thesis unfolding s b bit_top [OF assms] using assms by (simp add: unsigned_take_bit_eq power_eq_if)
qed

lemma status_bits:
  "bit (status_flags n r c a v) 0 = c" "bit (status_flags n r c a v) 6 = (r = 0)" "bit (status_flags n r c a v) 7 = bit r (n - 1)"
  "bit (status_flags n r c a v) 11 = v" "bit (status_flags n r c a v) 4 = a"
  "status_flags n r c a v AND RFLAGS_STATUS_BITS = status_flags n r c a v"
proof -
  define p where "p = even (length (filter (bit r) [0..<8]))"
  define z where "z = (r = 0)"
  define s where "s = bit r (n - 1)"
  have f: "status_flags n r c a v = (if c then 1 else 0) OR (if p then 4 else 0) OR (if a then 0x10 else 0) OR (if z then 0x40 else 0) OR
      (if s then 0x80 else 0) OR (if v then 0x800 else 0)" by (simp only: status_flags_def p_def z_def s_def)
  have "bit (status_flags n r c a v) 0 = c \<and> bit (status_flags n r c a v) 6 = z \<and> bit (status_flags n r c a v) 7 = s \<and>
    bit (status_flags n r c a v) 11 = v \<and> bit (status_flags n r c a v) 4 = a \<and> status_flags n r c a v AND RFLAGS_STATUS_BITS = status_flags n r c a v"
    unfolding f by (cases c; cases p; cases a; cases z; cases s; cases v) simp_all
  then show "bit (status_flags n r c a v) 0 = c" "bit (status_flags n r c a v) 6 = (r = 0)" "bit (status_flags n r c a v) 7 = bit r (n - 1)"
    "bit (status_flags n r c a v) 11 = v" "bit (status_flags n r c a v) 4 = a"
    "status_flags n r c a v AND RFLAGS_STATUS_BITS = status_flags n r c a v" unfolding z_def s_def by blast+
qed

text \<open>The flags of a subtraction compare its operands: Z for equality, C for unsigned order, N against V for signed order.\<close>

lemma sub_flags_compare:
  assumes "0 < n" "n \<le> 64"
  shows "bit (sub_flags n x y) 6 = (take_bit n x = take_bit n y)"
    "bit (sub_flags n x y) 0 = (take_bit n x < take_bit n y)"
    "(bit (sub_flags n x y) 7 \<noteq> bit (sub_flags n x y) 11) = (signed_take_bit (n - 1) (uint x) < signed_take_bit (n - 1) (uint y))"
proof -
  define N :: int where "N = 2 ^ (n - 1)"
  define a where "a = take_bit n x"
  define b where "b = take_bit n y"
  define r where "r = take_bit n (a - b)"
  have N: "(2::int) ^ n = 2 * N" using assms(1) unfolding N_def by (cases n) simp_all
  have ra: "0 \<le> uint a" "uint a < 2 * N" "0 \<le> uint b" "uint b < 2 * N" unfolding a_def b_def N [symmetric] by (simp_all add: unsigned_take_bit_eq)
  have rr: "uint r = (uint a - uint b) mod (2 * N)" unfolding r_def uint_take_bit_diff [OF assms(2)] N ..
  have t: "bit a (n - 1) = (N \<le> uint a)" "bit b (n - 1) = (N \<le> uint b)" "bit r (n - 1) = (N \<le> uint r)"
    unfolding a_def b_def r_def N_def by (rule bit_top [OF assms])+
  have n1: "n - 1 < 64" using assms by simp
  have F: "sub_flags n x y = status_flags n r (bit ((NOT a AND b) OR (NOT (a XOR b) AND r)) (n - 1)) (bit (a XOR b XOR r) 4) (bit ((a XOR b) AND (a XOR r)) (n - 1))"
    by (simp only: sub_flags_def Let_def a_def b_def r_def)
  show "bit (sub_flags n x y) 0 = (take_bit n x < take_bit n y)"
    unfolding F status_bits a_def [symmetric] b_def [symmetric] using top_bit_compare(1) [OF ra rr] n1
    by (simp add: bit_or_iff bit_and_iff bit_not_iff bit_xor_iff t [unfolded One_nat_def] word_less_def)
  show "(bit (sub_flags n x y) 7 \<noteq> bit (sub_flags n x y) 11) = (signed_take_bit (n - 1) (uint x) < signed_take_bit (n - 1) (uint y))"
    unfolding F status_bits signed_take_bit_split [OF assms] a_def [symmetric] b_def [symmetric] N_def [symmetric] top_bit_compare(2) [OF ra rr, symmetric]
    by (simp add: bit_and_iff bit_xor_iff t [unfolded One_nat_def])
  have "r = 0 \<longleftrightarrow> uint r = 0" by (simp add: word_uint_eq_iff)
  also have "\<dots> \<longleftrightarrow> uint a = uint b" unfolding rr by (rule mod_diff_0 [OF ra])
  also have "\<dots> \<longleftrightarrow> a = b" by (simp add: word_uint_eq_iff)
  finally show "bit (sub_flags n x y) 6 = (take_bit n x = take_bit n y)" unfolding F status_bits a_def b_def .
qed

section \<open>Comparison\<close>

text \<open>The operands of a comparison with memory operand \<open>memop\<close>.\<close>

definition cmp_operands :: "vie \<Rightarrow> vcpu \<Rightarrow> u64 \<Rightarrow> u64 \<times> u64" where
  "cmp_operands vie vc memop =
     (let reg = vc_regs vc (gpr_map ! v_reg vie); b = op_byte (v_op vie)
      in if b = 0x3B then (reg, memop) else if b = 0x39 then (memop, reg) else (memop, v_immediate vie))"

lemma set_status_regs:
  "set_status keep f st = (0, st\<lparr>e_vc := (e_vc st)\<lparr>vc_regs := (vc_regs (e_vc st))(VM_REG_GUEST_RFLAGS :=
     (vc_regs (e_vc st) VM_REG_GUEST_RFLAGS AND NOT RFLAGS_STATUS_BITS) OR (f AND keep))\<rparr>\<rparr>)"
  by (simp add: set_status_def set_reg_def vie_read_register_def vm_get_register_def vie_update_register_def vm_set_register_def Let_def)

lemma gpr_not_last: "k < 16 \<Longrightarrow> gpr_map ! k \<noteq> VM_REG_LAST"
  using gpr_map_set(3) by blast

lemma emulate_cmp_flags:
  assumes "op_byte (v_op vie) \<in> {0x39, 0x3B, 0x80, 0x81, 0x83}" "v_reg vie < 16" "v_opsize vie \<in> {2, 4, 8}"
    "sz = (if op_byte (v_op vie) = 0x80 then 1 else v_opsize vie)" "op_read ops (e_dev st) gpa sz = Some (0, memop, d)"
    "cmp_operands vie (e_vc st) memop = (op1, op2)"
  shows "emulate_cmp ops gpa vie st = Some (set_status RFLAGS_STATUS_BITS (sub_flags (8 * sz) op1 op2) (st\<lparr>e_dev := d\<rparr>))"
proof -
  have s: "sz \<in> {1, 2, 4, 8}" using assms(3,4) by (auto split: if_splits)
  then have g: "getcc sz x y = Some (sub_flags (8 * sz) x y)" for x y by (simp add: getcc_def)
  have r: "vie_read_register (e_vc st) (gpr_map ! v_reg vie) = (0, vc_regs (e_vc st) (gpr_map ! v_reg vie))"
    using gpr_not_last [OF assms(2)] by (simp add: vie_read_register_def vm_get_register_def)
  have m: "memread ops gpa sz st = Some (0, memop, st\<lparr>e_dev := d\<rparr>)" using assms(5) by (simp add: memread_def)
  consider "op_byte (v_op vie) = 0x39" | "op_byte (v_op vie) = 0x3B" | "op_byte (v_op vie) = 0x80" | "op_byte (v_op vie) = 0x81" | "op_byte (v_op vie) = 0x83"
    using assms(1) by blast
  then show ?thesis
    unfolding emulate_cmp_def Let_def assms(4) [symmetric] by cases (use assms(6) in \<open>simp_all add: cmp_operands_def r m g\<close>)
qed

text \<open>C36. The emulated CMP compares. For every form of the instruction and every operand width, with the value that the device returns as the
  memory operand, the emulation succeeds, changes no register but RFLAGS and there only the status bits, and afterwards ZF says
  whether the operands are equal, CF whether the first is below the second as unsigned numbers, and SF against OF whether it is
  below as signed numbers, all at the width of the operation.\<close>

theorem cmp_compares:
  assumes "op_byte (v_op vie) \<in> {0x39, 0x3B, 0x80, 0x81, 0x83}" "v_reg vie < 16" "v_opsize vie \<in> {2, 4, 8}"
    "sz = (if op_byte (v_op vie) = 0x80 then 1 else v_opsize vie)" "op_read ops (e_dev st) gpa sz = Some (0, memop, d)"
    "cmp_operands vie (e_vc st) memop = (op1, op2)"
  shows "\<exists>rflags. emulate_cmp ops gpa vie st =
      Some (0, st\<lparr>e_vc := (e_vc st)\<lparr>vc_regs := (vc_regs (e_vc st))(VM_REG_GUEST_RFLAGS := rflags)\<rparr>, e_dev := d\<rparr>) \<and>
    rflags AND NOT RFLAGS_STATUS_BITS = vc_regs (e_vc st) VM_REG_GUEST_RFLAGS AND NOT RFLAGS_STATUS_BITS \<and>
    bit rflags 6 = (take_bit (8 * sz) op1 = take_bit (8 * sz) op2) \<and>
    bit rflags 0 = (take_bit (8 * sz) op1 < take_bit (8 * sz) op2) \<and>
    (bit rflags 7 \<noteq> bit rflags 11) = (signed_take_bit (8 * sz - 1) (uint op1) < signed_take_bit (8 * sz - 1) (uint op2))"
proof -
  define old where "old = vc_regs (e_vc st) VM_REG_GUEST_RFLAGS"
  define f where "f = sub_flags (8 * sz) op1 op2"
  have fs: "f AND RFLAGS_STATUS_BITS = f" unfolding f_def sub_flags_def Let_def by (rule status_bits(6))
  have n: "0 < 8 * sz" "8 * sz \<le> 64" using assms(3,4) by (auto split: if_splits)
  define rf where "rf = (old AND NOT RFLAGS_STATUS_BITS) OR f"
  have b: "bit rf 6 = bit f 6" "bit rf 0 = bit f 0" "bit rf 7 = bit f 7" "bit rf 11 = bit f 11"
    by (simp_all add: rf_def bit_or_iff bit_and_iff bit_not_iff)
  have z: "f AND NOT RFLAGS_STATUS_BITS = 0" by (subst fs [symmetric]) (simp add: and.assoc)
  have k: "rf AND NOT RFLAGS_STATUS_BITS = old AND NOT RFLAGS_STATUS_BITS"
    unfolding rf_def bit.conj_disj_distrib2 z by (simp add: and.assoc)
  have e: "emulate_cmp ops gpa vie st = Some (0, st\<lparr>e_vc := (e_vc st)\<lparr>vc_regs := (vc_regs (e_vc st))(VM_REG_GUEST_RFLAGS := rf)\<rparr>, e_dev := d\<rparr>)"
    unfolding emulate_cmp_flags [OF assms] set_status_regs f_def [symmetric] fs rf_def old_def by simp
  have "bit rf 6 = (take_bit (8 * sz) op1 = take_bit (8 * sz) op2)" "bit rf 0 = (take_bit (8 * sz) op1 < take_bit (8 * sz) op2)"
    "(bit rf 7 \<noteq> bit rf 11) = (signed_take_bit (8 * sz - 1) (uint op1) < signed_take_bit (8 * sz - 1) (uint op2))"
    unfolding b f_def by (rule sub_flags_compare [OF n])+
  then show ?thesis using e k unfolding old_def by blast
qed

text \<open>A device that holds one value, and \<open>cmp [mem], eax\<close> (\<open>39 /r\<close>) against it.\<close>

definition value_device :: "u64 memops" where
  "value_device = \<lparr>op_read = (\<lambda>d gpa sz. Some (0, d, d)), op_write = (\<lambda>d gpa val sz. Some (0, val)), op_retu = (\<lambda>d. False)\<rparr>"

definition cmp_vie :: vie where
  "cmp_vie = (the (vie_init []))\<lparr>v_op := op_none\<lparr>op_byte := 0x39, op_type := VIE_OP_TYPE_CMP\<rparr>, v_opsize := 4, v_reg := 0\<rparr>"

theorem cmp_compares_witness:
  "\<exists>rflags. emulate_cmp value_device 0xfec00000 cmp_vie \<lparr>e_vc = vcpu_fresh, e_mem = (\<lambda>_. 0), e_dev = 0x180000000\<rparr> =
      Some (0, \<lparr>e_vc = vcpu_fresh\<lparr>vc_regs := (vc_regs vcpu_fresh)(VM_REG_GUEST_RFLAGS := rflags)\<rparr>, e_mem = (\<lambda>_. 0), e_dev = 0x180000000\<rparr>) \<and>
    \<not> bit rflags 6 \<and> \<not> bit rflags 0 \<and> bit rflags 7 \<noteq> bit rflags 11"
proof -
  have "\<exists>rflags. emulate_cmp value_device 0xfec00000 cmp_vie \<lparr>e_vc = vcpu_fresh, e_mem = (\<lambda>_. 0), e_dev = 0x180000000\<rparr> =
      Some (0, \<lparr>e_vc = vcpu_fresh, e_mem = (\<lambda>_. 0), e_dev = 0x180000000\<rparr>
        \<lparr>e_vc := (e_vc \<lparr>e_vc = vcpu_fresh, e_mem = (\<lambda>_. 0), e_dev = (0x180000000 :: u64)\<rparr>)\<lparr>vc_regs :=
           (vc_regs (e_vc \<lparr>e_vc = vcpu_fresh, e_mem = (\<lambda>_. 0), e_dev = (0x180000000 :: u64)\<rparr>))(VM_REG_GUEST_RFLAGS := rflags)\<rparr>,
         e_dev := 0x180000000\<rparr>) \<and>
    rflags AND NOT RFLAGS_STATUS_BITS =
      vc_regs (e_vc \<lparr>e_vc = vcpu_fresh, e_mem = (\<lambda>_. 0), e_dev = (0x180000000 :: u64)\<rparr>) VM_REG_GUEST_RFLAGS AND NOT RFLAGS_STATUS_BITS \<and>
    bit rflags 6 = (take_bit (8 * 4) (0x180000000 :: u64) = take_bit (8 * 4) 0) \<and>
    bit rflags 0 = (take_bit (8 * 4) (0x180000000 :: u64) < take_bit (8 * 4) 0) \<and>
    (bit rflags 7 \<noteq> bit rflags 11) = (signed_take_bit (8 * 4 - 1) (uint (0x180000000 :: u64)) < signed_take_bit (8 * 4 - 1) (uint (0 :: u64)))"
    by (rule cmp_compares) (simp_all add: cmp_vie_def vie_init_def op_none_def value_device_def cmp_operands_def gpr_map_def vcpu_fresh_def)
  moreover have "\<not> take_bit (8 * 4) (0x180000000 :: u64) = take_bit (8 * 4) 0" "\<not> take_bit (8 * 4) (0x180000000 :: u64) < take_bit (8 * 4) 0"
    "signed_take_bit (8 * 4 - 1) (uint (0x180000000 :: u64)) < signed_take_bit (8 * 4 - 1) (uint (0 :: u64))"
    by (simp_all add: take_bit_eq_mod signed_take_bit_eq_take_bit_minus)
  ultimately show ?thesis by (simp only: emul.simps vcpu.simps) blast
qed

end
