(* ===== verification/Emul_Safe.thy ===== *)
theory Emul_Safe
  imports Instr_Emul Page_Walk
begin

text \<open>
  The emulation does not panic. The locale \<open>mmio_device\<close> states what it needs of the device behind an address: the callbacks
  return, whatever the error, and keep an invariant of the device; \<open>quiet_device\<close> adds that the error is one that the
  assertion at the end of \<^verbatim>\<open>emulate_movs\<close> allows.
\<close>

section \<open>Safe results\<close>

definition safe :: "('d \<Rightarrow> bool) \<Rightarrow> (int \<times> 'd emul) option \<Rightarrow> bool" where
  "safe good r \<longleftrightarrow> (case r of None \<Rightarrow> False | Some (error, st) \<Rightarrow> good (e_dev st))"

lemma safe_Some [simp]: "safe good (Some (error, st)) = good (e_dev st)" "\<not> safe good None"
  by (simp_all add: safe_def)

lemma safe_Some_snd: "good (e_dev (snd p)) \<Longrightarrow> safe good (Some p)"
  by (cases p) simp

lemma set_reg_eq: "set_reg reg val sz st = (fst (vie_update_register (e_vc st) reg val sz), st\<lparr>e_vc := snd (vie_update_register (e_vc st) reg val sz)\<rparr>)"
  by (simp add: set_reg_def Let_def split: prod.split)

lemma set_reg_dev [simp]: "e_dev (snd (set_reg reg val sz st)) = e_dev st"
  by (simp add: set_reg_def Let_def split: prod.split)

lemma set_status_dev [simp]: "e_dev (snd (set_status keep f st)) = e_dev st"
  by (simp add: set_status_def Let_def split: prod.split)

lemma reg_checked_Some [simp]: "reg \<noteq> VM_REG_LAST \<Longrightarrow> reg_checked vc reg = Some (vc_regs vc reg)"
  by (simp add: reg_checked_def vie_read_register_def vm_get_register_def)

lemma set_reg_checked_Some:
  assumes "reg \<noteq> VM_REG_LAST" "sz \<in> {1, 2, 4, 8}"
  shows "\<exists>vc'. set_reg_checked reg val sz st = Some (st\<lparr>e_vc := vc'\<rparr>) \<and> vc_state vc' = vc_state (e_vc st)"
  using assms by (auto simp: set_reg_checked_def set_reg_def vie_update_register_def vie_read_register_def vm_get_register_def vm_set_register_def Let_def)

lemma getcc_Some: "sz \<in> {1, 2, 4, 8} \<Longrightarrow> getcc sz x y \<noteq> None" "sz \<in> {1, 2, 4, 8} \<Longrightarrow> getaddflags sz x y \<noteq> None"
  "sz \<in> {1, 2, 4, 8} \<Longrightarrow> getandflags sz x y \<noteq> None"
  by (auto simp: getcc_def getaddflags_def getandflags_def)

lemma set_reg_checked_bind:
  assumes "reg \<noteq> VM_REG_LAST" "sz \<in> {1, 2, 4, 8}" "\<And>vc'. vc_state vc' = vc_state (e_vc st) \<Longrightarrow> safe good (f (st\<lparr>e_vc := vc'\<rparr>))"
  shows "safe good (set_reg_checked reg val sz st \<bind> f)"
  using set_reg_checked_Some [OF assms(1,2), of val st] assms(3) by auto

lemma safe_bind_Some: "x \<noteq> None \<Longrightarrow> (\<And>y. safe good (f y)) \<Longrightarrow> safe good (x \<bind> f)"
  by (cases x) simp_all

definition can_restart :: "vcpu \<Rightarrow> bool" where
  "can_restart vc \<longleftrightarrow> vc_state vc = VCPU_RUNNING \<or> vc_state vc = VCPU_FROZEN"

lemma injectable_restart: "injectable vc \<Longrightarrow> can_restart vc"
  by (simp add: injectable_def can_restart_def)

lemma step_index_bind:
  assumes "reg \<noteq> VM_REG_LAST" "addrsize \<in> {2, 4, 8}" "\<And>vc'. vc_state vc' = vc_state (e_vc st) \<Longrightarrow> safe good (f (st\<lparr>e_vc := vc'\<rparr>))"
  shows "safe good (step_index reg opsize addrsize st \<bind> f)"
proof -
  have "safe good (set_reg_checked reg val addrsize st \<bind> f)" for val using assms by (intro set_reg_checked_bind) auto
  then show ?thesis using assms(1) by (simp add: step_index_def)
qed

lemma step_count_bind:
  assumes "can_restart (e_vc st)" "addrsize \<in> {2, 4, 8}" "\<And>vc'. safe good (f (st\<lparr>e_vc := vc'\<rparr>))" "safe good (f st)"
  shows "safe good (step_count rep rcx addrsize st \<bind> f)"
proof -
  obtain vc1 where v: "set_reg_checked VM_REG_GUEST_RCX (rcx - 1) addrsize st = Some (st\<lparr>e_vc := vc1\<rparr>)" "vc_state vc1 = vc_state (e_vc st)"
    using set_reg_checked_Some [of VM_REG_GUEST_RCX addrsize "rcx - 1" st] assms(2) by auto
  have m: "vie_size2mask addrsize = Some (size2mask addrsize)" using assms(2) by (auto simp: vie_size2mask_def)
  have "vm_restart_instruction vc1 \<noteq> None" using assms(1) v(2) by (auto simp: can_restart_def vm_restart_instruction_def)
  then show ?thesis using assms(3,4) v m by (auto simp: step_count_def)
qed

lemma rep_count_Some: "v_addrsize vie \<in> {2, 4, 8} \<Longrightarrow> \<exists>c. rep_count vie st = Some c"
  by (auto simp: rep_count_def vie_size2mask_def)

text \<open>Outside 64-bit mode, a usable segment register holds a descriptor of code or data that is present, as the processor checks when it
  is loaded.\<close>

definition segs_ok :: "vm_cpu_mode \<Rightarrow> vcpu \<Rightarrow> bool" where
  "segs_ok mode vc \<longleftrightarrow> (mode \<noteq> CPU_MODE_64BIT \<longrightarrow> (\<forall>seg. data_segment seg \<longrightarrow>
     SEG_DESC_UNUSABLE (sd_access (vc_segs vc seg)) \<or>
     SEG_DESC_PRESENT (sd_access (vc_segs vc seg)) \<and> 16 \<le> SEG_DESC_TYPE (sd_access (vc_segs vc seg))))"

lemma seg_type_le: "SEG_DESC_TYPE acc \<le> 31"
  unfolding SEG_DESC_TYPE_def using word_and_le1 [of acc "0x1f"] by simp

lemma segment_checks_Some:
  "SEG_DESC_UNUSABLE (sd_access d) \<or> SEG_DESC_PRESENT (sd_access d) \<and> 16 \<le> SEG_DESC_TYPE (sd_access d) \<Longrightarrow> segment_checks d off len asz prot \<noteq> None"
  using seg_type_le [of "sd_access d"] by (auto simp: segment_checks_def Let_def split: prod.split)

lemma calculate_gla_Some:
  assumes "data_segment seg" "len \<in> {1, 2, 4, 8}" "prot \<in> {PROT_READ, PROT_WRITE}" "asz \<in> (if mode = CPU_MODE_64BIT then {4, 8} else {2, 4})"
    "mode \<noteq> CPU_MODE_64BIT \<Longrightarrow> SEG_DESC_UNUSABLE (sd_access d) \<or> SEG_DESC_PRESENT (sd_access d) \<and> 16 \<le> SEG_DESC_TYPE (sd_access d)"
  shows "vie_calculate_gla mode seg d off len asz prot \<noteq> None"
proof -
  have p: "prot AND NOT (PROT_READ OR PROT_WRITE) = 0" using assms(3) by auto
  show ?thesis
  proof (cases "mode = CPU_MODE_64BIT")
    case True
    then show ?thesis using assms(1,2,4) p by (auto simp: vie_calculate_gla_def)
  next
    case False
    obtain ok where "segment_checks d off len asz prot = Some ok" using segment_checks_Some assms(5) [OF False] by blast
    then show ?thesis using assms(1,2,4) p False by (auto simp: vie_calculate_gla_def)
  qed
qed

lemma data_segment_desc: "data_segment seg \<Longrightarrow> vm_get_seg_desc vc seg = (0, vc_segs vc seg)" "data_segment seg \<Longrightarrow> seg \<noteq> VM_REG_LAST"
  by (auto simp: data_segment_def vm_get_seg_desc_def is_segment_register_def)

lemma inject_Some: "injectable vc \<Longrightarrow> vm_inject_gp vc \<noteq> None" "injectable vc \<Longrightarrow> vm_inject_ss vc e \<noteq> None" "injectable vc \<Longrightarrow> vm_inject_ac vc e \<noteq> None"
  unfolding vm_inject_gp_def vm_inject_ss_def vm_inject_ac_def
  using inject_fault_ok [of vc IDT_GP True 0] inject_fault_ok [of vc IDT_SS True e] inject_fault_ok [of vc IDT_AC True e] by auto

lemma alignment_Some: "cpl \<le> 3 \<Longrightarrow> sz \<in> {1, 2, 4, 8} \<Longrightarrow> vie_alignment_check cpl sz cr0 rf gla \<noteq> None"
  by (auto simp: vie_alignment_check_def)

text \<open>What the emulation of an instruction starts from.\<close>

definition emul_ready :: "vm_guest_paging \<Rightarrow> vcpu \<Rightarrow> bool" where
  "emul_ready paging vc \<longleftrightarrow> injectable vc \<and> segs_ok (pg_cpu_mode paging) vc \<and> pg_cpl paging \<le> 3"

lemma get_gla_Some:
  assumes "emul_ready paging vc" "data_segment seg" "opsize \<in> {1, 2, 4, 8}" "prot \<in> {PROT_READ, PROT_WRITE}"
    "asz \<in> (if pg_cpu_mode paging = CPU_MODE_64BIT then {4, 8} else {2, 4})" "gpr \<noteq> VM_REG_LAST"
  shows "\<exists>fault gla vc'. get_gla vc paging opsize asz prot seg gpr = Some (fault, gla, vc') \<and> (\<not> fault \<longrightarrow> vc' = vc)"
proof -
  note inj = inject_Some [of vc]
  have i: "injectable vc" "pg_cpl paging \<le> 3" using assms(1) by (simp_all add: emul_ready_def)
  have "vie_calculate_gla (pg_cpu_mode paging) seg (vc_segs vc seg) (vc_regs vc gpr) opsize asz prot \<noteq> None"
    by (rule calculate_gla_Some [OF assms(2-5)]) (use assms(1,2) in \<open>simp add: emul_ready_def segs_ok_def\<close>)
  then obtain r where r: "vie_calculate_gla (pg_cpu_mode paging) seg (vc_segs vc seg) (vc_regs vc gpr) opsize asz prot = Some r" by blast
  obtain g s where gs: "vm_inject_gp vc = Some g" "vm_inject_ss vc 0 = Some s" using inj i(1) by blast
  obtain a where a: "vm_inject_ac vc 0 = Some a" using inj i(1) by blast
  show ?thesis
  proof (cases r)
    case None
    then show ?thesis using r gs assms(6) data_segment_desc [OF assms(2)] by (auto simp: get_gla_def Let_def)
  next
    case (Some gla)
    obtain m where m: "vie_alignment_check (pg_cpl paging) opsize (vc_regs vc VM_REG_GUEST_CR0) (vc_regs vc VM_REG_GUEST_RFLAGS) gla = Some m"
      using alignment_Some [OF i(2) assms(3)] by blast
    then show ?thesis using Some r gs a assms(6) data_segment_desc [OF assms(2)] by (auto simp: get_gla_def Let_def)
  qed
qed

lemma stack_modrm:
  assumes "op_known opc" "op_type opc = VIE_OP_TYPE_PUSH \<or> op_type opc = VIE_OP_TYPE_POP"
  shows "op_flags opc AND VIE_OP_F_NO_MODRM = 0"
  using assms by (auto simp: op_known_def three_byte_list_def two_byte_list_def one_byte_list_def)

section \<open>Devices\<close>

locale mmio_device =
  fixes ops :: "'d memops" and good :: "'d \<Rightarrow> bool"
  assumes read_ok: "good d \<Longrightarrow> \<exists>error val d'. op_read ops d gpa sz = Some (error, val, d') \<and> good d'"
    and write_ok: "good d \<Longrightarrow> \<exists>error d'. op_write ops d gpa val sz = Some (error, d') \<and> good d'"
begin

lemma read_bind: "good (e_dev st) \<Longrightarrow> (\<And>error val d. good d \<Longrightarrow> safe good (f (error, val, st\<lparr>e_dev := d\<rparr>))) \<Longrightarrow> safe good (memread ops gpa sz st \<bind> f)"
  using read_ok [of "e_dev st" gpa sz] by (auto simp: memread_def)

lemma write_bind: "good (e_dev st) \<Longrightarrow> (\<And>error d. good d \<Longrightarrow> safe good (f (error, st\<lparr>e_dev := d\<rparr>))) \<Longrightarrow> safe good (memwrite ops gpa val sz st \<bind> f)"
  using write_ok [of "e_dev st" gpa val sz] by (auto simp: memwrite_def)

lemma write_safe: "good (e_dev st) \<Longrightarrow> safe good (memwrite ops gpa val sz st)"
  using write_ok [of "e_dev st" gpa val sz] by (auto simp: memwrite_def)

lemmas device_safe = read_bind write_bind write_safe

lemma mov_safe: "good (e_dev st) \<Longrightarrow> safe good (emulate_mov ops gpa vie st)"
  unfolding emulate_mov_def Let_def by (auto intro!: device_safe safe_Some_snd split: prod.split)

lemma movx_safe: "good (e_dev st) \<Longrightarrow> safe good (emulate_movx ops gpa vie st)"
  unfolding emulate_movx_def Let_def by (auto intro!: device_safe safe_Some_snd)

lemma bitop_safe:
  assumes "good (e_dev st)" "v_opsize vie \<in> {2, 4, 8}"
  shows "safe good (emulate_bitop f b ops gpa vie st)"
proof -
  have g: "getcc (v_opsize vie) r 0 = Some (sub_flags (8 * v_opsize vie) r 0)" for r using assms(2) by (auto simp: getcc_def)
  have E: "safe good (x \<bind> (\<lambda>(error, result, st). if error \<noteq> 0 then Some (error, st)
      else getcc (v_opsize vie) result 0 \<bind> (\<lambda>rflags2. Some (set_status k rflags2 st))))"
    if "\<exists>error result st'. x = Some (error, result, st') \<and> good (e_dev st')" for x :: "(int \<times> u64 \<times> 'd emul) option" and k
    using that by (auto simp: g intro!: safe_Some_snd)
  obtain e v d where R: "op_read ops (e_dev st) gpa (v_opsize vie) = Some (e, v, d)" "good d" using read_ok [OF assms(1)] by blast
  obtain e' d' where W: "op_write ops d gpa (f v (v_immediate vie)) (v_opsize vie) = Some (e', d')" "good d'" using write_ok [OF R(2)] by blast
  show ?thesis unfolding emulate_bitop_def Let_def
    by (rule E) (use assms(1) R W in \<open>simp add: memread_def memwrite_def set_reg_eq split: prod.split\<close>)
qed

lemma cmp_safe:
  assumes "good (e_dev st)" "v_opsize vie \<in> {2, 4, 8}"
  shows "safe good (emulate_cmp ops gpa vie st)"
proof -
  have g: "getcc sz x y = Some (sub_flags (8 * sz) x y)" if "sz = 1 \<or> sz = v_opsize vie" for sz x y
    using assms(2) that by (auto simp: getcc_def)
  define sz where "sz = (if op_byte (v_op vie) = 0x80 then 1 else v_opsize vie)"
  have "getcc sz x y = Some (sub_flags (8 * sz) x y)" for x y by (rule g) (simp add: sz_def)
  then show ?thesis using assms(1) unfolding emulate_cmp_def Let_def sz_def [symmetric]
    by (auto intro!: device_safe safe_Some_snd split: prod.split)
qed

lemma test_safe:
  assumes "good (e_dev st)" "v_opsize vie \<in> {2, 4, 8}"
  shows "safe good (emulate_test ops gpa vie st)"
proof -
  have "getandflags (v_opsize vie) x y = Some (and_flags (8 * v_opsize vie) x y)" for x y using assms(2) by (auto simp: getandflags_def)
  then show ?thesis using assms(1) unfolding emulate_test_def by (auto intro!: device_safe safe_Some_snd)
qed

lemma arith_safe:
  assumes "good (e_dev st)" "\<And>x y. flags (v_opsize vie) x y = Some (fl x y)"
  shows "safe good (emulate_arith f flags b ops gpa vie st)"
  using assms(1) unfolding emulate_arith_def Let_def
  by (auto simp: assms(2) set_reg_eq intro!: device_safe safe_Some_snd split: prod.split)

lemma bextr_safe: "good (e_dev st) \<Longrightarrow> safe good (emulate_bextr ops gpa vie paging st)"
  unfolding emulate_bextr_def Let_def by (auto simp: set_reg_eq intro!: device_safe split: prod.split)

lemma group1_safe: "good (e_dev st) \<Longrightarrow> v_opsize vie \<in> {2, 4, 8} \<Longrightarrow> safe good (emulate_group1 ops gpa vie st)"
  by (simp add: emulate_group1_def Let_def emulate_or_def emulate_and_def bitop_safe cmp_safe)

lemma bittest_safe: "good (e_dev st) \<Longrightarrow> safe good (emulate_bittest ops gpa vie st)"
  unfolding emulate_bittest_def
  by (auto intro!: device_safe set_reg_checked_bind simp: Let_def)

lemma twob_group15_safe: "good (e_dev st) \<Longrightarrow> safe good (emulate_twob_group15 ops gpa vie st)"
  unfolding emulate_twob_group15_def by (auto intro!: device_safe)

lemma stos_safe:
  assumes "good (e_dev st)" "v_addrsize vie \<in> {2, 4, 8}" "can_restart (e_vc st)"
  shows "safe good (emulate_stos ops gpa vie st)"
proof -
  obtain c where c: "rep_count vie st = Some c" using rep_count_Some [OF assms(2)] by blast
  show ?thesis
  proof (cases c)
    case None
    then show ?thesis using c assms(1) by (simp add: emulate_stos_def)
  next
    case (Some rcx)
    have "safe good (step_index VM_REG_GUEST_RDI k (v_addrsize vie) (st\<lparr>e_dev := d\<rparr>) \<bind> (\<lambda>st. step_count rep rcx (v_addrsize vie) st \<bind> (\<lambda>st. Some (0, st))))"
      if "good d" for d k rep
      using that assms(2,3) by (intro step_index_bind step_count_bind) (simp_all add: can_restart_def)
    then show ?thesis using Some c assms(1) unfolding emulate_stos_def Let_def by (auto intro!: write_bind)
  qed
qed

lemma push_step:
  assumes "good (e_dev st)" "pieces_ok sz infos" "sz \<in> {1, 2, 4, 8}" "\<And>st' e. good (e_dev st') \<Longrightarrow> safe good (f (e, rsp, st'))"
  shows "safe good (memread ops gpa sz st \<bind> (\<lambda>(error, val, st). if error \<noteq> 0 then Some (error, rsp, st)
     else vm_copyout (e_mem st) (le_bytes sz (unat val)) infos \<bind> (\<lambda>m. Some (0, rsp, st\<lparr>e_mem := m\<rparr>))) \<bind> f)"
proof -
  obtain e v d where R: "op_read ops (e_dev st) gpa sz = Some (e, v, d)" "good d" using read_ok [OF assms(1)] by blast
  have "\<exists>m'. vm_copyout m (le_bytes sz (unat v)) infos = Some m'" for m
    using copy_pieces [of "le_bytes sz (unat v)" infos m] assms(2,3) by auto
  then obtain m' where "vm_copyout (e_mem st) (le_bytes sz (unat v)) infos = Some m'" by blast
  then show ?thesis using R assms(4) by (simp add: memread_def)
qed

lemma pop_step:
  assumes "good (e_dev st)" "pieces_ok sz infos" "\<And>st' e. good (e_dev st') \<Longrightarrow> safe good (f (e, rsp, st'))"
  shows "safe good (vm_copyin m infos sz \<bind> (\<lambda>bs. memwrite ops gpa (of_nat (le_val bs)) sz st \<bind>
     (\<lambda>(error, st). Some (error, rsp, st))) \<bind> f)"
proof -
  obtain bs where b: "vm_copyin m infos sz = Some bs" using copyin_pieces [OF assms(2)] by blast
  obtain e d where W: "op_write ops (e_dev st) gpa (of_nat (le_val bs)) sz = Some (e, d)" "good d" using write_ok [OF assms(1)] by blast
  then show ?thesis using b assms(3) by (simp add: memwrite_def)
qed

lemmas stack_steps = push_step [unfolded Option.bind_assoc] pop_step [unfolded Option.bind_assoc]

lemma stack_sizes_ok:
  assumes "mode \<noteq> CPU_MODE_REAL" "v_opsize vie \<in> (if mode = CPU_MODE_64BIT then {2, 4, 8} else {2, 4})" "segs_ok mode vc"
  obtains asz sz desc where "stack_sizes rm_desc vc mode vie = Some (asz, sz, desc)" "sz \<in> {1, 2, 4, 8}" "asz \<in> {2, 4, 8}"
    "asz \<in> (if mode = CPU_MODE_64BIT then {4, 8} else {2, 4})"
    "mode \<noteq> CPU_MODE_64BIT \<Longrightarrow> SEG_DESC_UNUSABLE (sd_access desc) \<or> SEG_DESC_PRESENT (sd_access desc) \<and> 16 \<le> SEG_DESC_TYPE (sd_access desc)"
proof -
  have ss: "data_segment VM_REG_GUEST_SS" by (simp add: data_segment_def)
  show ?thesis
  proof (cases "mode = CPU_MODE_64BIT")
    case True
    then show ?thesis by (intro that [of 8 "if v_opsize_override vie then 2 else 8" rm_desc]) (simp_all add: stack_sizes_def)
  next
    case False
    then show ?thesis
      by (intro that [of "if SEG_DESC_DEF32 (sd_access (vc_segs vc VM_REG_GUEST_SS)) then 4 else 2" "v_opsize vie" "vc_segs vc VM_REG_GUEST_SS"])
        (use assms ss in \<open>auto simp: stack_sizes_def data_segment_desc segs_ok_def\<close>)
  qed
qed

lemma stack_op_safe:
  assumes "good (e_dev st)" "emul_ready paging (e_vc st)" "pg_cpu_mode paging \<noteq> CPU_MODE_REAL"
    "v_opsize vie \<in> (if pg_cpu_mode paging = CPU_MODE_64BIT then {2, 4, 8} else {2, 4})"
  shows "safe good (emulate_stack_op rm_desc H vm ops gpa vie paging st)"
proof -
  define pushop where "pushop = (op_type (v_op vie) = VIE_OP_TYPE_PUSH)"
  define prot where "prot = (if pushop then PROT_WRITE else PROT_READ)"
  have i: "injectable (e_vc st)" "pg_cpl paging \<le> 3" "segs_ok (pg_cpu_mode paging) (e_vc st)" using assms(2) by (simp_all add: emul_ready_def)
  obtain asz sz desc where s: "stack_sizes rm_desc (e_vc st) (pg_cpu_mode paging) vie = Some (asz, sz, desc)" "sz \<in> {1, 2, 4, 8}" "asz \<in> {2, 4, 8}"
    "asz \<in> (if pg_cpu_mode paging = CPU_MODE_64BIT then {4, 8} else {2, 4})"
    "pg_cpu_mode paging \<noteq> CPU_MODE_64BIT \<Longrightarrow> SEG_DESC_UNUSABLE (sd_access desc) \<or> SEG_DESC_PRESENT (sd_access desc) \<and> 16 \<le> SEG_DESC_TYPE (sd_access desc)"
    using stack_sizes_ok [OF assms(3,4) i(3)] by blast
  define rsp where "rsp = (if pushop then vc_regs (e_vc st) VM_REG_GUEST_RSP - of_nat sz else vc_regs (e_vc st) VM_REG_GUEST_RSP)"
  have "vie_calculate_gla (pg_cpu_mode paging) VM_REG_GUEST_SS desc rsp sz asz prot \<noteq> None"
    by (rule calculate_gla_Some [OF _ s(2) _ s(4,5)]) (simp_all add: data_segment_def prot_def)
  then obtain r where r: "vie_calculate_gla (pg_cpu_mode paging) VM_REG_GUEST_SS desc rsp sz asz prot = Some r" by blast
  obtain ssv where ssv: "vm_inject_ss (e_vc st) 0 = Some ssv" using inject_Some(2) [OF i(1)] by blast
  obtain acv where acv: "vm_inject_ac (e_vc st) 0 = Some acv" using inject_Some(3) [OF i(1)] by blast
  note unf = emulate_stack_op_def Let_def pushop_def [symmetric] prot_def [symmetric] s(1)
  show ?thesis
  proof (cases "r = None \<or> (\<exists>gla. r = Some gla \<and> vie_canonical_check (pg_cpu_mode paging) gla)")
    case True
    then show ?thesis using r ssv assms(1) unfolding unf by (auto simp: rsp_def [symmetric])
  next
    case False
    then obtain gla where gla: "r = Some gla" "\<not> vie_canonical_check (pg_cpu_mode paging) gla" by (cases r) simp_all
    obtain mis where mis: "vie_alignment_check (pg_cpl paging) sz (vc_regs (e_vc st) VM_REG_GUEST_CR0) (vc_regs (e_vc st) VM_REG_GUEST_RFLAGS) gla = Some mis"
      using alignment_Some [OF i(2) s(2)] by blast
    have sz: "sz \<le> 4096" using s(2) by auto
    obtain error fault infos vc' m' where cs: "vm_copy_setup H vm paging gla sz prot (e_vc st, e_mem st) = Some (error, fault, infos, vc', m')"
      by (rule ends_wellE [OF copy_setup_end [OF i(1) sz]])
    have pc: "pieces_ok sz infos" if "error = 0" "\<not> fault" using copy_setup_pieces [OF _ sz] cs that by auto
    have fin: "safe good (if e \<noteq> 0 then Some (e, st') else set_reg_checked VM_REG_GUEST_RSP x asz st' \<bind> (\<lambda>st. Some (0, st)))"
      if "good (e_dev st')" for e x and st' :: "'d emul"
      using that s(3) by (auto intro!: set_reg_checked_bind)
    show ?thesis
    proof (cases "mis \<or> error \<noteq> 0 \<or> fault")
      case True
      then show ?thesis using r gla mis acv cs assms(1) unfolding unf by (cases mis) (simp_all add: rsp_def [symmetric])
    next
      case False
      then have ok: "\<not> mis" "error = 0" "\<not> fault" by simp_all
      note head = r [unfolded gla(1) rsp_def] gla(2) mis cs
      show ?thesis
      proof (cases pushop)
        case True
        then show ?thesis using ok head unfolding unf by simp (rule stack_steps(1), simp add: assms(1), rule pc [OF ok(2,3)], rule s(2), simp add: fin)
      next
        case False
        then show ?thesis using ok head unfolding unf by simp (rule stack_steps(2), simp add: assms(1), rule pc [OF ok(2,3)], simp add: fin)
      qed
    qed
  qed
qed

text \<open>Every instruction other than MOVS, which needs more of the device.\<close>

lemma emulate_safe_but_movs:
  assumes "good (e_dev st)" "emul_ready paging (e_vc st)" "decoded_ok (pg_cpu_mode paging) vie"
    "op_type (v_op vie) = VIE_OP_TYPE_MOVS \<Longrightarrow> safe good (emulate_movs H vm ops gpa vie paging st)"
  shows "safe good (vmm_emulate_instruction rm_desc H vm ops gpa vie paging st)"
proof -
  have o: "v_opsize vie \<in> {2, 4, 8}" "v_opsize vie \<in> (if pg_cpu_mode paging = CPU_MODE_64BIT then {2, 4, 8} else {2, 4})"
    "v_addrsize vie \<in> {2, 4, 8}" "v_decoded vie"
    using assms(3) by (auto simp: decoded_ok_def split: if_split_asm)
  have c: "can_restart (e_vc st)" using assms(2) injectable_restart by (simp add: emul_ready_def)
  have stack: "safe good (emulate_stack_op rm_desc H vm ops gpa vie paging st)"
    if "op_type (v_op vie) = VIE_OP_TYPE_PUSH \<or> op_type (v_op vie) = VIE_OP_TYPE_POP"
  proof -
    have "pg_cpu_mode paging \<noteq> CPU_MODE_REAL" using assms(3) stack_modrm [OF _ that] by (auto simp: decoded_ok_def)
    then show ?thesis using stack_op_safe [OF assms(1,2) _ o(2)] by blast
  qed
  have flags: "getcc (v_opsize vie) x y = Some (sub_flags (8 * v_opsize vie) x y)" "getaddflags (v_opsize vie) x y = Some (add_flags (8 * v_opsize vie) x y)"
    for x y using o(1) by (auto simp: getcc_def getaddflags_def)
  note handlers = mov_safe movx_safe bittest_safe twob_group15_safe bextr_safe group1_safe cmp_safe test_safe bitop_safe stos_safe
  show ?thesis
  proof (cases "op_type (v_op vie)")
    case VIE_OP_TYPE_ADD
    then show ?thesis using o(4) arith_safe [OF assms(1), of getaddflags vie "add_flags (8 * v_opsize vie)", OF flags(2)] by (simp add: vmm_emulate_instruction_def emulate_add_def)
  next
    case VIE_OP_TYPE_SUB
    then show ?thesis using o(4) arith_safe [OF assms(1), of getcc vie "sub_flags (8 * v_opsize vie)", OF flags(1)] by (simp add: vmm_emulate_instruction_def emulate_sub_def)
  qed (use o(1,3,4) c assms(1,4) stack in \<open>simp_all add: vmm_emulate_instruction_def emulate_push_def emulate_pop_def emulate_and_def emulate_or_def handlers\<close>)
qed

end

section \<open>MOVS\<close>

text \<open>The outcome of a transfer: done with the vcpu as it was, or left early with an error that the final assertion allows.\<close>

definition moved :: "('d \<Rightarrow> bool) \<Rightarrow> vcpu \<Rightarrow> (int \<times> bool \<times> 'd emul) option \<Rightarrow> bool" where
  "moved good vc r \<longleftrightarrow> (case r of None \<Rightarrow> False
     | Some (error, ok, st) \<Rightarrow> good (e_dev st) \<and> error \<in> {0, EFAULT} \<and> (ok \<longrightarrow> error = 0 \<and> e_vc st = vc))"

lemma moved_Some [simp]: "moved good vc (Some (error, ok, st)) \<longleftrightarrow> good (e_dev st) \<and> error \<in> {0, EFAULT} \<and> (ok \<longrightarrow> error = 0 \<and> e_vc st = vc)"
  by (simp add: moved_def)

lemma get_gla_bind:
  assumes "emul_ready paging vc" "data_segment seg" "opsize \<in> {1, 2, 4, 8}" "prot \<in> {PROT_READ, PROT_WRITE}"
    "asz \<in> (if pg_cpu_mode paging = CPU_MODE_64BIT then {4, 8} else {2, 4})" "gpr \<noteq> VM_REG_LAST"
    "\<And>gla. moved good vc0 (f (False, gla, vc))" "\<And>gla vc'. moved good vc0 (f (True, gla, vc'))"
  shows "moved good vc0 (get_gla vc paging opsize asz prot seg gpr \<bind> f)"
  using get_gla_Some [OF assms(1-6)] assms(7,8) by (metis (full_types) bind.bind_lunit)

lemma copy_setup_bind:
  assumes "injectable vc" "len \<le> 4096"
    "\<And>infos m'. moved good vc0 (f (EFAULT, False, infos, vc, m'))" "\<And>infos vc' m'. moved good vc0 (f (0, True, infos, vc', m'))"
    "\<And>infos m'. pieces_ok len infos \<Longrightarrow> moved good vc0 (f (0, False, infos, vc, m'))"
  shows "moved good vc0 (vm_copy_setup H vm paging gla len prot (vc, m) \<bind> f)"
proof -
  obtain error fault infos vc' m' where c: "vm_copy_setup H vm paging gla len prot (vc, m) = Some (error, fault, infos, vc', m')"
    "error \<in> {0, EFAULT} \<and> (error \<noteq> 0 \<longrightarrow> \<not> fault)" "if fault then exception_pending vc' else vc' = vc"
    by (rule ends_wellE [OF copy_setup_end [OF assms(1,2)]])
  show ?thesis
  proof (cases "error = 0 \<and> \<not> fault")
    case True
    then have "pieces_ok len infos" using copy_setup_pieces [OF _ assms(2)] c(1) by simp
    then show ?thesis using True c assms(5) by simp
  next
    case False
    then show ?thesis using c assms(3,4) by (cases fault) auto
  qed
qed

lemma gla2gpa_bind:
  assumes "injectable vc" "\<And>gpa m'. moved good vc0 (f (EFAULT, False, gpa, vc, m'))" "\<And>gpa vc' m'. moved good vc0 (f (0, True, gpa, vc', m'))"
    "\<And>gpa m'. moved good vc0 (f (0, False, gpa, vc, m'))"
  shows "moved good vc0 (vm_gla2gpa H vm paging gla prot (vc, m) \<bind> f)"
proof -
  obtain error fault gpa vc' m' where c: "vm_gla2gpa H vm paging gla prot (vc, m) = Some (error, fault, gpa, vc', m')"
    "error \<in> {0, EFAULT} \<and> (error \<noteq> 0 \<longrightarrow> \<not> fault)" "if fault then exception_pending vc' else vc' = vc"
    by (rule ends_wellE [OF gla2gpa_end [OF assms(1)]])
  then show ?thesis using assms(2-4) by (cases fault) auto
qed

lemma copyin_bind: "pieces_ok len infos \<Longrightarrow> (\<And>bs. moved good vc0 (f bs)) \<Longrightarrow> moved good vc0 (vm_copyin m infos len \<bind> f)"
  using copyin_pieces [of len infos m] by auto

lemma copyout_bind:
  assumes "pieces_ok len infos" "len \<le> 4096" "\<And>m'. moved good vc0 (f m')"
  shows "moved good vc0 (vm_copyout m (le_bytes len n) infos \<bind> f)"
  using copy_pieces [of "le_bytes len n" infos m] assms by auto

text \<open>On any device, a string move that returns leaves it consistent.\<close>

lemma set_reg_checked_dev: "set_reg_checked reg val sz st = Some st' \<Longrightarrow> e_dev st' = e_dev st"
  by (auto simp: set_reg_checked_def set_reg_eq Let_def split: if_splits prod.splits)

lemma steps_dev: "step_index reg opsize asz st = Some st' \<Longrightarrow> e_dev st' = e_dev st" "step_count rep rcx asz st = Some st' \<Longrightarrow> e_dev st' = e_dev st"
  subgoal unfolding step_index_def bind_eq_Some_conv by (blast dest: set_reg_checked_dev)
  subgoal by (auto simp: step_count_def bind_eq_Some_conv dest!: set_reg_checked_dev split: if_splits)
  done

definition all_good :: "('d \<Rightarrow> bool) \<Rightarrow> (int \<times> bool \<times> 'd emul) option \<Rightarrow> bool" where
  "all_good good r \<longleftrightarrow> (\<forall>error ok st. r = Some (error, ok, st) \<longrightarrow> good (e_dev st))"

lemma all_good_Some [simp]: "all_good good (Some (error, ok, st)) = good (e_dev st)"
  by (simp add: all_good_def)

lemma all_good_bind: "(\<And>x. all_good good (f x)) \<Longrightarrow> all_good good (r \<bind> f)"
  by (cases r) (simp_all add: all_good_def)

lemmas all_good_binds =
  all_good_bind [where r = "get_gla a b c d e f g" for a b c d e f g] all_good_bind [where r = "vm_copy_setup a b c d e f g" for a b c d e f g]
  all_good_bind [where r = "vm_gla2gpa a b c d e f" for a b c d e f] all_good_bind [where r = "vm_copyin a b c" for a b c]
  all_good_bind [where r = "vm_copyout a b c" for a b c]

context mmio_device
begin

lemma read_all_good: "good (e_dev st) \<Longrightarrow> (\<And>error val st'. good (e_dev st') \<Longrightarrow> all_good good (f (error, val, st'))) \<Longrightarrow> all_good good (memread ops gpa sz st \<bind> f)"
  using read_ok [of "e_dev st" gpa sz] by (auto simp: memread_def)

lemma write_all_good: "good (e_dev st) \<Longrightarrow> (\<And>error st'. good (e_dev st') \<Longrightarrow> all_good good (f (error, st'))) \<Longrightarrow> all_good good (memwrite ops gpa val sz st \<bind> f)"
  using write_ok [of "e_dev st" gpa val sz] by (auto simp: memwrite_def)

lemma transfer_good: "good (e_dev st) \<Longrightarrow> all_good good (movs_transfer H vm ops gpa vie paging opsize st)"
  unfolding movs_transfer_def Let_def by (auto intro!: all_good_binds read_all_good write_all_good split: prod.split)

lemma movs_good: "good (e_dev st) \<Longrightarrow> emulate_movs H vm ops gpa vie paging st = Some (error, st') \<Longrightarrow> good (e_dev st')"
  using transfer_good [of st] unfolding emulate_movs_def Let_def all_good_def
  by (fastforce simp: bind_eq_Some_conv split: if_split_asm option.splits dest!: steps_dev)

end

locale quiet_device = mmio_device +
  assumes read_errors: "good d \<Longrightarrow> op_read ops d gpa sz = Some (error, val, d') \<Longrightarrow> error \<in> {0, EFAULT}"
    and write_errors: "good d \<Longrightarrow> op_write ops d gpa val sz = Some (error, d') \<Longrightarrow> error \<in> {0, EFAULT}"
begin

lemma read_moved:
  assumes "good (e_dev st)" "\<And>error val d. good d \<Longrightarrow> error \<in> {0, EFAULT} \<Longrightarrow> moved good vc0 (f (error, val, st\<lparr>e_dev := d\<rparr>))"
  shows "moved good vc0 (memread ops gpa sz st \<bind> f)"
proof -
  obtain error val d where r: "op_read ops (e_dev st) gpa sz = Some (error, val, d)" "good d" using read_ok [OF assms(1)] by blast
  then show ?thesis using assms(2) [OF r(2) read_errors [OF assms(1) r(1)]] by (simp add: memread_def)
qed

lemma write_moved:
  assumes "good (e_dev st)" "\<And>error d. good d \<Longrightarrow> error \<in> {0, EFAULT} \<Longrightarrow> moved good vc0 (f (error, st\<lparr>e_dev := d\<rparr>))"
  shows "moved good vc0 (memwrite ops gpa val sz st \<bind> f)"
proof -
  obtain error d where r: "op_write ops (e_dev st) gpa val sz = Some (error, d)" "good d" using write_ok [OF assms(1)] by blast
  then show ?thesis using assms(2) [OF r(2) write_errors [OF assms(1) r(1)]] by (simp add: memwrite_def)
qed

lemma transfer_moved:
  assumes "good (e_dev st)" "emul_ready paging (e_vc st)" "opsize \<in> {1, 2, 4, 8}" "v_segment_override vie \<longrightarrow> data_segment (v_segment_register vie)"
    "v_addrsize vie \<in> (if pg_cpu_mode paging = CPU_MODE_64BIT then {4, 8} else {2, 4})"
  shows "moved good (e_vc st) (movs_transfer H vm ops gpa vie paging opsize st)"
proof -
  have i: "injectable (e_vc st)" using assms(2) by (simp add: emul_ready_def)
  have l: "opsize \<le> 4096" using assms(3) by auto
  define sreg where "sreg = (if v_segment_override vie then v_segment_register vie else VM_REG_GUEST_DS)"
  have seg: "data_segment sreg" "data_segment VM_REG_GUEST_ES" using assms(4) by (simp_all add: sreg_def data_segment_def)
  note binds = get_gla_bind [OF assms(2) seg(1) assms(3) _ assms(5)] get_gla_bind [OF assms(2) seg(2) assms(3) _ assms(5)]
    copy_setup_bind [OF i l] gla2gpa_bind [OF i] copyin_bind copyout_bind read_moved write_moved
  show ?thesis unfolding movs_transfer_def Let_def sreg_def [symmetric] by (auto simp: assms(1) l intro!: binds)
qed

lemma movs_safe:
  assumes "good (e_dev st)" "emul_ready paging (e_vc st)" "decoded_ok (pg_cpu_mode paging) vie"
  shows "safe good (emulate_movs H vm ops gpa vie paging st)"
proof -
  have a: "v_addrsize vie \<in> {2, 4, 8}" "v_addrsize vie \<in> (if pg_cpu_mode paging = CPU_MODE_64BIT then {4, 8} else {2, 4})"
    "v_segment_override vie \<longrightarrow> data_segment (v_segment_register vie)" "v_opsize vie \<in> {1, 2, 4, 8}"
    using assms(3) by (auto simp: decoded_ok_def split: if_split_asm)
  define opsize where "opsize = (if op_byte (v_op vie) = 0xA4 then 1 else v_opsize vie)"
  have o: "opsize \<in> {1, 2, 4, 8}" using a(4) by (simp add: opsize_def)
  have c: "can_restart (e_vc st)" using assms(2) injectable_restart by (simp add: emul_ready_def)
  obtain error ok st' where m: "movs_transfer H vm ops gpa vie paging opsize st = Some (error, ok, st')" "good (e_dev st')" "error \<in> {0, EFAULT}"
    "ok \<Longrightarrow> e_vc st' = e_vc st"
    using transfer_moved [OF assms(1,2) o a(3,2), of H vm gpa] unfolding moved_def by (auto split: option.splits)
  have "safe good (step_index VM_REG_GUEST_RSI opsize (v_addrsize vie) st' \<bind> (\<lambda>st. step_index VM_REG_GUEST_RDI opsize (v_addrsize vie) st \<bind>
      (\<lambda>st. step_count rep rcx (v_addrsize vie) st \<bind> (\<lambda>st. Some (0, st)))))" if "ok" for rep rcx
    using a(1) m(2) c m(4) [OF that] by (intro step_index_bind step_count_bind) (simp_all add: can_restart_def)
  then have step: "safe good (do { (error, ok, st) \<leftarrow> movs_transfer H vm ops gpa vie paging opsize st;
      if \<not> ok then (if error = 0 \<or> error = EFAULT then Some (error, st) else None)
      else do { st \<leftarrow> step_index VM_REG_GUEST_RSI opsize (v_addrsize vie) st; st \<leftarrow> step_index VM_REG_GUEST_RDI opsize (v_addrsize vie) st;
        st \<leftarrow> step_count rep rcx (v_addrsize vie) st; Some (0, st) } })" for rep rcx
    using m(2,3) unfolding m(1) by (cases ok) auto
  obtain k where k: "rep_count vie st = Some k" using rep_count_Some [OF a(1)] by blast
  show ?thesis unfolding emulate_movs_def opsize_def [symmetric] Let_def k
    by (cases k) (use assms(1) step in simp_all)
qed

lemma emulate_safe:
  assumes "good (e_dev st)" "emul_ready paging (e_vc st)" "decoded_ok (pg_cpu_mode paging) vie"
  shows "safe good (vmm_emulate_instruction rm_desc H vm ops gpa vie paging st)"
  by (rule emulate_safe_but_movs [OF assms]) (rule movs_safe [OF assms])

end

end
