(* ===== verification/Vhpet.thy ===== *)
theory Vhpet
  imports Vioapic Kernel_Time
begin

text \<open>
  The high-precision event timer of \<^verbatim>\<open>vmm/io/vhpet.c\<close>: a 32-bit counter that runs off the uptime, eight comparators
  with callouts, and the register window. The structure keeps the I/O APIC, and through it the local APICs, of the machine that it
  interrupts. The uptime \<^verbatim>\<open>sbinuptime\<close> during an operation is the argument \<open>now\<close>. A failed assertion, a panic or a
  division by zero is \<open>None\<close>. The register layout is that of \<^verbatim>\<open>acpi_hpet.h\<close>. Locks and traces are left out.
\<close>

section \<open>State\<close>

record hpet_timer =
  ht_cap_config :: u64
  ht_msireg :: u64
  ht_compval :: u32
  ht_comprate :: u32
  ht_callout :: callout
  ht_callout_sbt :: int

record vhpet =
  vh_vio :: vioapic
  vh_freq_sbt :: int
  vh_config :: u64
  vh_isr :: u64
  vh_countbase :: u32
  vh_countbase_sbt :: int
  vh_timer :: "nat \<Rightarrow> hpet_timer"

abbreviation (input) HPET_FREQ :: nat where "HPET_FREQ \<equiv> 16777216"
abbreviation (input) FS_PER_S :: nat where "FS_PER_S \<equiv> 1000000000000000"
abbreviation (input) VHPET_NUM_TIMERS :: nat where "VHPET_NUM_TIMERS \<equiv> 8"
abbreviation (input) VHPET_BASE :: u64 where "VHPET_BASE \<equiv> 0xfed00000"
abbreviation (input) HPET_CAPABILITIES :: u32 where "HPET_CAPABILITIES \<equiv> 0"
abbreviation (input) HPET_CONFIG :: u32 where "HPET_CONFIG \<equiv> 0x10"
abbreviation (input) HPET_ISR :: u32 where "HPET_ISR \<equiv> 0x20"
abbreviation (input) HPET_MAIN_COUNTER :: u32 where "HPET_MAIN_COUNTER \<equiv> 0xf0"
abbreviation (input) HPET_TIMER_CAP_CNF :: "nat \<Rightarrow> u32" where "HPET_TIMER_CAP_CNF x \<equiv> of_nat x * 0x20 + 0x100"
abbreviation (input) HPET_TIMER_COMPARATOR :: "nat \<Rightarrow> u32" where "HPET_TIMER_COMPARATOR x \<equiv> of_nat x * 0x20 + 0x108"
abbreviation (input) HPET_TIMER_FSB_VAL :: "nat \<Rightarrow> u32" where "HPET_TIMER_FSB_VAL x \<equiv> of_nat x * 0x20 + 0x110"
abbreviation (input) HPET_TIMER_FSB_ADDR :: "nat \<Rightarrow> u32" where "HPET_TIMER_FSB_ADDR x \<equiv> of_nat x * 0x20 + 0x114"
abbreviation (input) HPET_CAP_COUNT_SIZE :: u64 where "HPET_CAP_COUNT_SIZE \<equiv> 0x2000"
abbreviation (input) HPET_CNF_ENABLE :: u64 where "HPET_CNF_ENABLE \<equiv> 0x1"
abbreviation (input) HPET_CNF_LEG_RT :: u64 where "HPET_CNF_LEG_RT \<equiv> 0x2"
abbreviation (input) HPET_TCAP_INT_ROUTE :: u64 where "HPET_TCAP_INT_ROUTE \<equiv> 0xffffffff00000000"
abbreviation (input) HPET_TCAP_FSB_INT_DEL :: u64 where "HPET_TCAP_FSB_INT_DEL \<equiv> 0x8000"
abbreviation (input) HPET_TCNF_FSB_EN :: u64 where "HPET_TCNF_FSB_EN \<equiv> 0x4000"
abbreviation (input) HPET_TCNF_INT_ROUTE :: u64 where "HPET_TCNF_INT_ROUTE \<equiv> 0x3e00"
abbreviation (input) HPET_TCNF_32MODE :: u64 where "HPET_TCNF_32MODE \<equiv> 0x100"
abbreviation (input) HPET_TCNF_VAL_SET :: u64 where "HPET_TCNF_VAL_SET \<equiv> 0x40"
abbreviation (input) HPET_TCAP_SIZE :: u64 where "HPET_TCAP_SIZE \<equiv> 0x20"
abbreviation (input) HPET_TCAP_PER_INT :: u64 where "HPET_TCAP_PER_INT \<equiv> 0x10"
abbreviation (input) HPET_TCNF_TYPE :: u64 where "HPET_TCNF_TYPE \<equiv> 0x8"
abbreviation (input) HPET_TCNF_INT_ENB :: u64 where "HPET_TCNF_INT_ENB \<equiv> 0x4"
abbreviation (input) HPET_TCNF_INT_TYPE :: u64 where "HPET_TCNF_INT_TYPE \<equiv> 0x2"
abbreviation (input) HPET_TCAP_RO_MASK :: u64 where
  "HPET_TCAP_RO_MASK \<equiv> HPET_TCAP_INT_ROUTE OR HPET_TCAP_FSB_INT_DEL OR HPET_TCAP_SIZE OR HPET_TCAP_PER_INT"

definition upd_timer :: "nat \<Rightarrow> (hpet_timer \<Rightarrow> hpet_timer) \<Rightarrow> vhpet \<Rightarrow> vhpet" where
  "upd_timer n f vh = vh\<lparr>vh_timer := (vh_timer vh)(n := f (vh_timer vh n))\<rparr>"

section \<open>Counter and timers\<close>

definition vhpet_capabilities :: u64 where
  "vhpet_capabilities =
     (let cap = push_bit 16 0x8086 OR push_bit 8 (of_nat (VHPET_NUM_TIMERS - 1)) OR 1;
          cap = cap AND NOT HPET_CAP_COUNT_SIZE
      in (cap AND 0xffffffff) OR push_bit 32 (of_nat (FS_PER_S div HPET_FREQ)))"

definition vhpet_counter_enabled :: "vhpet \<Rightarrow> bool" where
  "vhpet_counter_enabled vh \<longleftrightarrow> vh_config vh AND HPET_CNF_ENABLE \<noteq> 0"

definition vhpet_timer_msi_enabled :: "vhpet \<Rightarrow> nat \<Rightarrow> bool" where
  "vhpet_timer_msi_enabled vh n \<longleftrightarrow>
     (let msi_enable = HPET_TCAP_FSB_INT_DEL OR HPET_TCNF_FSB_EN in ht_cap_config (vh_timer vh n) AND msi_enable = msi_enable)"

definition vhpet_timer_ioapic_pin :: "vhpet \<Rightarrow> nat \<Rightarrow> nat" where
  "vhpet_timer_ioapic_pin vh n =
     (if vhpet_timer_msi_enabled vh n then 0 else unat (drop_bit 9 (ht_cap_config (vh_timer vh n) AND HPET_TCNF_INT_ROUTE)))"

text \<open>\<open>want_now\<close> says whether the caller passes a \<open>nowptr\<close>.\<close>

definition vhpet_counter :: "int \<Rightarrow> vhpet \<Rightarrow> bool \<Rightarrow> u32 option" where
  "vhpet_counter now vh want_now =
     (if vhpet_counter_enabled vh
      then let delta = now - vh_countbase_sbt vh
           in if delta < 0 \<or> vh_freq_sbt vh = 0 then None else Some (vh_countbase vh + of_int (delta div vh_freq_sbt vh))
      else if want_now then None
      else Some (vh_countbase vh))"

definition vhpet_timer_clear_isr :: "nat \<Rightarrow> vhpet \<Rightarrow> vhpet option" where
  "vhpet_timer_clear_isr n vh =
     (if bit (vh_isr vh) n
      then let pin = vhpet_timer_ioapic_pin vh n
           in if pin = 0 then None
              else do {
                (_, vio) \<leftarrow> vioapic_deassert_irq (vh_vio vh) (int pin);
                Some (vh\<lparr>vh_vio := vio, vh_isr := unset_bit n (vh_isr vh)\<rparr>)
              }
      else Some vh)"

definition vhpet_periodic_timer :: "vhpet \<Rightarrow> nat \<Rightarrow> bool" where
  "vhpet_periodic_timer vh n \<longleftrightarrow> ht_cap_config (vh_timer vh n) AND HPET_TCNF_TYPE \<noteq> 0"

definition vhpet_timer_interrupt_enabled :: "vhpet \<Rightarrow> nat \<Rightarrow> bool" where
  "vhpet_timer_interrupt_enabled vh n \<longleftrightarrow> ht_cap_config (vh_timer vh n) AND HPET_TCNF_INT_ENB \<noteq> 0"

definition vhpet_timer_edge_trig :: "vhpet \<Rightarrow> nat \<Rightarrow> bool option" where
  "vhpet_timer_edge_trig vh n =
     (if vhpet_timer_msi_enabled vh n then None else Some (ht_cap_config (vh_timer vh n) AND HPET_TCNF_INT_TYPE = 0))"

definition vhpet_timer_interrupt :: "nat \<Rightarrow> vhpet \<Rightarrow> vhpet option" where
  "vhpet_timer_interrupt n vh =
     (if \<not> vhpet_timer_interrupt_enabled vh n then Some vh
      else if bit (vh_isr vh) n then Some vh
      else if vhpet_timer_msi_enabled vh n
      then do {
        let msireg = ht_msireg (vh_timer vh n);
        (_, vm) \<leftarrow> lapic_intr_msi (vi_vm (vh_vio vh)) (drop_bit 32 msireg) (msireg AND 0xffffffff);
        Some (vh\<lparr>vh_vio := (vh_vio vh)\<lparr>vi_vm := vm\<rparr>\<rparr>)
      }
      else let pin = vhpet_timer_ioapic_pin vh n
           in if pin = 0 then Some vh
              else do {
                edge \<leftarrow> vhpet_timer_edge_trig vh n;
                if edge then do { (_, vio) \<leftarrow> vioapic_pulse_irq (vh_vio vh) (int pin); Some (vh\<lparr>vh_vio := vio\<rparr>) }
                else do {
                  (_, vio) \<leftarrow> vioapic_assert_irq (vh_vio vh) (int pin);
                  Some (vh\<lparr>vh_vio := vio, vh_isr := set_bit n (vh_isr vh)\<rparr>)
                }
              })"

definition vhpet_adjust_compval :: "nat \<Rightarrow> u32 \<Rightarrow> vhpet \<Rightarrow> vhpet option" where
  "vhpet_adjust_compval n counter vh =
     (let compval = ht_compval (vh_timer vh n); comprate = ht_comprate (vh_timer vh n)
      in if comprate = 0 then None
         else Some (upd_timer n (\<lambda>t. t\<lparr>ht_compval := compval + ((counter - compval) div comprate + 1) * comprate\<rparr>) vh))"

definition vhpet_start_timer :: "nat \<Rightarrow> u32 \<Rightarrow> int \<Rightarrow> vhpet \<Rightarrow> vhpet option" where
  "vhpet_start_timer n counter now vh = do {
     vh \<leftarrow> (if ht_comprate (vh_timer vh n) \<noteq> 0 then vhpet_adjust_compval n counter vh else Some vh);
     let delta = uint (ht_compval (vh_timer vh n) - counter) * vh_freq_sbt vh;
     Some (upd_timer n (\<lambda>t. t\<lparr>ht_callout_sbt := now + delta, ht_callout := callout_reset_sbt (ht_callout t) (now + delta)\<rparr>) vh)
   }"

definition vhpet_handler :: "int \<Rightarrow> nat \<Rightarrow> vhpet \<Rightarrow> vhpet option" where
  "vhpet_handler now n vh =
     (let callout = ht_callout (vh_timer vh n)
      in if co_pending callout then Some vh
         else if \<not> co_active callout then Some vh
         else do {
           let vh = upd_timer n (\<lambda>t. t\<lparr>ht_callout := callout_deactivate (ht_callout t)\<rparr>) vh;
           if \<not> vhpet_counter_enabled vh then None
           else do {
             counter \<leftarrow> vhpet_counter now vh True;
             vh \<leftarrow> vhpet_start_timer n counter now vh;
             vhpet_timer_interrupt n vh
           }
         })"

definition vhpet_stop_timer :: "nat \<Rightarrow> int \<Rightarrow> vhpet \<Rightarrow> vhpet option" where
  "vhpet_stop_timer n now vh =
     (let vh = upd_timer n (\<lambda>t. t\<lparr>ht_callout := callout_stop (ht_callout t)\<rparr>) vh
      in if ht_callout_sbt (vh_timer vh n) < now then vhpet_timer_interrupt n vh else Some vh)"

text \<open>A loop over timers, each of which may panic.\<close>

fun for_timers :: "(nat \<Rightarrow> vhpet \<Rightarrow> vhpet option) \<Rightarrow> nat list \<Rightarrow> vhpet \<Rightarrow> vhpet option" where
  "for_timers f [] vh = Some vh"
| "for_timers f (n # ns) vh = do { vh \<leftarrow> f n vh; for_timers f ns vh }"

definition vhpet_start_counting :: "int \<Rightarrow> vhpet \<Rightarrow> vhpet option" where
  "vhpet_start_counting now vh =
     for_timers (\<lambda>i. vhpet_start_timer i (vh_countbase vh) now) [0..<VHPET_NUM_TIMERS] (vh\<lparr>vh_countbase_sbt := now\<rparr>)"

definition vhpet_stop_counting :: "u32 \<Rightarrow> int \<Rightarrow> vhpet \<Rightarrow> vhpet option" where
  "vhpet_stop_counting counter now vh =
     for_timers (\<lambda>i. vhpet_stop_timer i now) [0..<VHPET_NUM_TIMERS] (vh\<lparr>vh_countbase := counter\<rparr>)"

section \<open>Registers\<close>

definition update_register :: "u64 \<Rightarrow> u64 \<Rightarrow> u64 \<Rightarrow> u64" where
  "update_register reg data msk = (reg AND NOT msk) OR (data AND msk)"

text \<open>The value of a configuration register after a write, before its routing is validated.\<close>

definition config_value :: "u64 \<Rightarrow> u64 \<Rightarrow> u64 \<Rightarrow> u64" where
  "config_value oldval data msk =
     (update_register oldval data msk AND NOT (HPET_TCAP_RO_MASK OR HPET_TCNF_32MODE)) OR (oldval AND HPET_TCAP_RO_MASK)"

text \<open>Whether the asserted line of a timer goes down after a change of its configuration.\<close>

definition config_clears_isr :: "nat \<Rightarrow> nat \<Rightarrow> vhpet \<Rightarrow> bool option" where
  "config_clears_isr n old_pin vh =
     (if \<not> vhpet_timer_interrupt_enabled vh n then Some True
      else if vhpet_timer_msi_enabled vh n then Some True
      else do {
        edge \<leftarrow> vhpet_timer_edge_trig vh n;
        Some (edge \<or> vhpet_timer_ioapic_pin vh n \<noteq> old_pin)
      })"

text \<open>The new value with its routing validated; a one-shot timer has no rate.\<close>

definition apply_config :: "nat \<Rightarrow> u64 \<Rightarrow> vhpet \<Rightarrow> vhpet" where
  "apply_config n newval vh =
     (let vh = upd_timer n (\<lambda>t. t\<lparr>ht_cap_config := newval\<rparr>) vh;
          allowed_irqs = (ucast (drop_bit 32 newval) :: u32);
          new_pin = vhpet_timer_ioapic_pin vh n;
          vh = (if new_pin \<noteq> 0 \<and> \<not> bit allowed_irqs new_pin
                then upd_timer n (\<lambda>t. t\<lparr>ht_cap_config := newval AND NOT HPET_TCNF_INT_ROUTE\<rparr>) vh else vh)
      in if \<not> vhpet_periodic_timer vh n then upd_timer n (\<lambda>t. t\<lparr>ht_comprate := 0\<rparr>) vh else vh)"

definition vhpet_timer_update_config :: "nat \<Rightarrow> u64 \<Rightarrow> u64 \<Rightarrow> vhpet \<Rightarrow> vhpet option" where
  "vhpet_timer_update_config n data msk vh = do {
     edge_or_msi \<leftarrow> (if vhpet_timer_msi_enabled vh n then Some True else vhpet_timer_edge_trig vh n);
     if edge_or_msi \<and> bit (vh_isr vh) n then None
     else
       let old_pin = vhpet_timer_ioapic_pin vh n;
           oldval = ht_cap_config (vh_timer vh n);
           newval = config_value oldval data msk
       in if newval = oldval then Some vh
          else do {
            let vh = apply_config n newval vh;
            if bit (vh_isr vh) n
            then if old_pin = 0 then None
                 else do {
                   clear_isr \<leftarrow> config_clears_isr n old_pin vh;
                   if clear_isr
                   then do {
                     (_, vio) \<leftarrow> vioapic_deassert_irq (vh_vio vh) (int old_pin);
                     Some (vh\<lparr>vh_vio := vio, vh_isr := unset_bit n (vh_isr vh)\<rparr>)
                   }
                   else Some vh
                 }
            else Some vh
          }
   }"

definition write_config :: "int \<Rightarrow> u64 \<Rightarrow> u64 \<Rightarrow> vhpet \<Rightarrow> vhpet option" where
  "write_config now data msk vh = do {
     counter \<leftarrow> vhpet_counter now vh (vhpet_counter_enabled vh);
     let oldval = vh_config vh;
     let vh = vh\<lparr>vh_config := update_register oldval data msk AND NOT HPET_CNF_LEG_RT\<rparr>;
     if (oldval XOR vh_config vh) AND HPET_CNF_ENABLE \<noteq> 0
     then if vhpet_counter_enabled vh then vhpet_start_counting now vh else vhpet_stop_counting counter now vh
     else Some vh
   }"

definition write_isr :: "u64 \<Rightarrow> vhpet \<Rightarrow> vhpet option" where
  "write_isr data vh =
     (let isr_clear_mask = (ucast (vh_isr vh AND data) :: u32)
      in for_timers (\<lambda>i vh. if bit isr_clear_mask i then vhpet_timer_clear_isr i vh else Some vh) [0..<VHPET_NUM_TIMERS] vh)"

definition write_main_counter :: "int \<Rightarrow> u64 \<Rightarrow> u64 \<Rightarrow> vhpet \<Rightarrow> vhpet option" where
  "write_main_counter now data msk vh = do {
     counter \<leftarrow> vhpet_counter now vh False;
     let vh = vh\<lparr>vh_countbase := ucast (update_register (ucast counter) data msk)\<rparr>;
     if vhpet_counter_enabled vh then vhpet_start_counting now vh else Some vh
   }"

text \<open>The comparator and the rate after a write to the comparator register.\<close>

definition comparator_value :: "vhpet \<Rightarrow> nat \<Rightarrow> u64 \<Rightarrow> u64 \<Rightarrow> (u32 \<times> u32) option" where
  "comparator_value vh i data msk =
     (let t = vh_timer vh i
      in if vhpet_periodic_timer vh i
         then let val64 = update_register (ucast (ht_comprate t)) data msk
              in Some (if ht_cap_config t AND HPET_TCNF_VAL_SET \<noteq> 0 then ucast val64 else ht_compval t, ucast val64)
         else if ht_comprate t \<noteq> 0 then None
         else Some (ucast (update_register (ucast (ht_compval t)) data msk), 0))"

definition write_comparator :: "int \<Rightarrow> nat \<Rightarrow> u64 \<Rightarrow> u64 \<Rightarrow> vhpet \<Rightarrow> vhpet option" where
  "write_comparator now i data msk vh = do {
     let t = vh_timer vh i;
     (compval, comprate) \<leftarrow> comparator_value vh i data msk;
     let vh = upd_timer i (\<lambda>t. t\<lparr>ht_compval := compval, ht_comprate := comprate,
                                ht_cap_config := ht_cap_config t AND NOT HPET_TCNF_VAL_SET\<rparr>) vh;
     if (compval \<noteq> ht_compval t \<or> comprate \<noteq> ht_comprate t) \<and> vhpet_counter_enabled vh
     then do { counter \<leftarrow> vhpet_counter now vh True; vhpet_start_timer i counter now vh }
     else Some vh
   }"

text \<open>The registers of timer \<open>i\<close>.\<close>

definition is_cap_cnf :: "u32 \<Rightarrow> nat \<Rightarrow> bool" where
  "is_cap_cnf offset i \<longleftrightarrow> offset = HPET_TIMER_CAP_CNF i \<or> offset = HPET_TIMER_CAP_CNF i + 4"

definition is_comparator :: "u32 \<Rightarrow> nat \<Rightarrow> bool" where
  "is_comparator offset i \<longleftrightarrow> offset = HPET_TIMER_COMPARATOR i \<or> offset = HPET_TIMER_COMPARATOR i + 4"

definition is_fsb :: "u32 \<Rightarrow> nat \<Rightarrow> bool" where
  "is_fsb offset i \<longleftrightarrow> offset = HPET_TIMER_FSB_VAL i \<or> offset = HPET_TIMER_FSB_ADDR i"

text \<open>The iteration of the loops over timers that handles the access, if any.\<close>

definition timer_at :: "u32 \<Rightarrow> nat option" where
  "timer_at offset = find (\<lambda>i. is_cap_cnf offset i \<or> is_comparator offset i \<or> is_fsb offset i) [0..<VHPET_NUM_TIMERS]"

text \<open>The data and the mask of an access, if its width and alignment are accepted.\<close>

definition access_mask :: "u32 \<Rightarrow> u64 \<Rightarrow> nat \<Rightarrow> (u64 \<times> u64) option" where
  "access_mask offset val sz =
     (if sz = 8 then if offset AND 7 \<noteq> 0 then None else Some (val, -1)
      else if sz = 4 then if offset AND 3 \<noteq> 0 then None
        else Some (if offset AND 4 \<noteq> 0 then (push_bit 32 val, push_bit 32 0xffffffff) else (val, 0xffffffff))
      else None)"

definition vhpet_mmio_write :: "int \<Rightarrow> vhpet \<Rightarrow> u64 \<Rightarrow> u64 \<Rightarrow> nat \<Rightarrow> (int \<times> vhpet) option" where
  "vhpet_mmio_write now vh gpa val sz =
     (let offset = (ucast (gpa - VHPET_BASE) :: u32)
      in case access_mask offset val sz of
           None \<Rightarrow> Some (0, vh)
         | Some (data, msk) \<Rightarrow>
             map_option (Pair 0)
               (if offset = HPET_CONFIG \<or> offset = HPET_CONFIG + 4 then write_config now data msk vh
                else if offset = HPET_ISR \<or> offset = HPET_ISR + 4 then write_isr data vh
                else if offset = HPET_MAIN_COUNTER \<or> offset = HPET_MAIN_COUNTER + 4 then write_main_counter now data msk vh
                else case timer_at offset of
                       None \<Rightarrow> Some vh
                     | Some i \<Rightarrow>
                         if is_cap_cnf offset i then vhpet_timer_update_config i data msk vh
                         else if is_comparator offset i then write_comparator now i data msk vh
                         else Some (upd_timer i (\<lambda>t. t\<lparr>ht_msireg := update_register (ht_msireg t) data msk\<rparr>) vh)))"

definition vhpet_read_reg :: "int \<Rightarrow> vhpet \<Rightarrow> u32 \<Rightarrow> u64 option" where
  "vhpet_read_reg now vh offset =
     (if offset = HPET_CAPABILITIES \<or> offset = HPET_CAPABILITIES + 4 then Some vhpet_capabilities
      else if offset = HPET_CONFIG \<or> offset = HPET_CONFIG + 4 then Some (vh_config vh)
      else if offset = HPET_ISR \<or> offset = HPET_ISR + 4 then Some (vh_isr vh)
      else if offset = HPET_MAIN_COUNTER \<or> offset = HPET_MAIN_COUNTER + 4 then map_option ucast (vhpet_counter now vh False)
      else case timer_at offset of
             None \<Rightarrow> Some 0
           | Some i \<Rightarrow>
               Some (if is_cap_cnf offset i then ht_cap_config (vh_timer vh i)
                     else if is_comparator offset i then ucast (ht_compval (vh_timer vh i))
                     else ht_msireg (vh_timer vh i)))"

definition vhpet_mmio_read :: "int \<Rightarrow> vhpet \<Rightarrow> u64 \<Rightarrow> nat \<Rightarrow> (int \<times> u64) option" where
  "vhpet_mmio_read now vh gpa sz =
     (let offset = (ucast (gpa - VHPET_BASE) :: u32)
      in do {
        data \<leftarrow> (if access_mask offset 0 sz = None then Some 0 else vhpet_read_reg now vh offset);
        Some (0, if sz = 4 \<and> offset AND 4 \<noteq> 0 then drop_bit 32 data else data)
      })"

section \<open>Initialisation\<close>

definition timer_init :: "u64 \<Rightarrow> hpet_timer" where
  "timer_init allowed_irqs =
     \<lparr>ht_cap_config = push_bit 32 allowed_irqs OR HPET_TCAP_PER_INT OR HPET_TCAP_FSB_INT_DEL, ht_msireg = 0, ht_compval = 0xffffffff,
      ht_comprate = 0, ht_callout = callout_init, ht_callout_sbt = 0\<rparr>"

definition vhpet_init :: "time_ops \<Rightarrow> vioapic \<Rightarrow> vhpet" where
  "vhpet_init T vio =
     (let pincount = vioapic_pincount;
          allowed_irqs = (if pincount \<ge> 32 then 0xff000000 else if pincount \<ge> 20 then push_bit (pincount - 4) 0xf else 0)
      in \<lparr>vh_vio = vio, vh_freq_sbt = bttosbt T (FREQ2BT T HPET_FREQ), vh_config = 0, vh_isr = 0, vh_countbase = 0, vh_countbase_sbt = 0,
          vh_timer = (\<lambda>_. timer_init allowed_irqs)\<rparr>)"

section \<open>Lines of the timers\<close>

text \<open>The timers whose level interrupt holds pin \<open>p\<close> of the I/O APIC up, and the asserts of the pin that are not theirs.\<close>

definition hpet_line :: "vhpet \<Rightarrow> nat \<Rightarrow> int" where
  "hpet_line vh p = (\<Sum>n<VHPET_NUM_TIMERS. of_bool (bit (vh_isr vh) n \<and> vhpet_timer_ioapic_pin vh n = p))"

definition others :: "vhpet \<Rightarrow> nat \<Rightarrow> int" where
  "others vh p = pin_acnt (vh_vio vh) p - hpet_line vh p"

lemma irqstate_acnt:
  assumes "vioapic_set_irqstate vio (int pin) st = Some (ret, vio')" "pin < 32"
  shows "pin_acnt vio' q = pin_acnt vio q + (case st of IRQSTATE_ASSERT \<Rightarrow> of_bool (q = pin) | IRQSTATE_DEASSERT \<Rightarrow> - of_bool (q = pin) | IRQSTATE_PULSE \<Rightarrow> 0)"
proof -
  have P: "pin_acnt w q = pin_acnt v q + line_delta (pin, b) q" if "vioapic_set_pinstate v pin b = Some w" for v w b
    by (rule set_pinstate_spec [of v pin b]) (use that in \<open>simp add: pin_acnt_def\<close>)
  obtain w where "vioapic_set_pinstate vio pin True = Some w" by (rule set_pinstate_spec [of vio pin True])
  then show ?thesis using assms by (cases st) (auto simp: vioapic_set_irqstate_def line_delta_def bind_eq_Some_conv dest!: P)
qed

lemma irqstate_obtain:
  assumes "pin < 32"
  obtains ret vio' where "vioapic_set_irqstate vio (int pin) st = Some (ret, vio')"
    "\<And>q. pin_acnt vio' q = pin_acnt vio q + (case st of IRQSTATE_ASSERT \<Rightarrow> of_bool (q = pin) | IRQSTATE_DEASSERT \<Rightarrow> - of_bool (q = pin) | IRQSTATE_PULSE \<Rightarrow> 0)"
  using set_irqstate_Some [of vio "int pin" st] irqstate_acnt [OF _ assms] by blast

lemma pin_less: "vhpet_timer_ioapic_pin vh n < 32"
proof -
  define w where "w = ht_cap_config (vh_timer vh n) AND HPET_TCNF_INT_ROUTE"
  have "unat w \<le> 0x3e00" using unat_and_mask_le [of "ht_cap_config (vh_timer vh n)" HPET_TCNF_INT_ROUTE] by (simp add: w_def)
  then have "unat (drop_bit 9 w) < 32" unfolding unsigned_drop_bit_eq by (simp add: drop_bit_eq_div take_bit_nat_eq_self)
  then show ?thesis by (simp add: vhpet_timer_ioapic_pin_def w_def)
qed

lemma sum_one_change:
  fixes f g :: "nat \<Rightarrow> int"
  assumes "n < k" "\<And>i. i < k \<Longrightarrow> i \<noteq> n \<Longrightarrow> f i = g i"
  shows "(\<Sum>i<k. f i) = (\<Sum>i<k. g i) + f n - g n"
proof -
  have "(\<Sum>i\<in>{..<k} - {n}. f i) = (\<Sum>i\<in>{..<k} - {n}. g i)" by (rule sum.cong) (use assms(2) in auto)
  then show ?thesis using assms(1) by (simp add: sum.remove [of "{..<k}" n])
qed

lemma timer_view [simp]:
  "vhpet_timer_msi_enabled (vh\<lparr>vh_vio := vio\<rparr>) n = vhpet_timer_msi_enabled vh n" "vhpet_timer_ioapic_pin (vh\<lparr>vh_vio := vio\<rparr>) n = vhpet_timer_ioapic_pin vh n"
  "vhpet_periodic_timer (vh\<lparr>vh_vio := vio\<rparr>) n = vhpet_periodic_timer vh n" "vhpet_timer_edge_trig (vh\<lparr>vh_vio := vio\<rparr>) n = vhpet_timer_edge_trig vh n"
  "vhpet_counter_enabled (vh\<lparr>vh_vio := vio\<rparr>) = vhpet_counter_enabled vh"
  "vhpet_timer_msi_enabled (vh\<lparr>vh_isr := isr\<rparr>) n = vhpet_timer_msi_enabled vh n" "vhpet_timer_ioapic_pin (vh\<lparr>vh_isr := isr\<rparr>) n = vhpet_timer_ioapic_pin vh n"
  "vhpet_periodic_timer (vh\<lparr>vh_isr := isr\<rparr>) n = vhpet_periodic_timer vh n" "vhpet_timer_edge_trig (vh\<lparr>vh_isr := isr\<rparr>) n = vhpet_timer_edge_trig vh n"
  "vhpet_counter_enabled (vh\<lparr>vh_isr := isr\<rparr>) = vhpet_counter_enabled vh"
  by (simp_all add: vhpet_timer_msi_enabled_def vhpet_timer_ioapic_pin_def vhpet_periodic_timer_def vhpet_timer_edge_trig_def vhpet_counter_enabled_def)

text \<open>States that agree on everything that the lines depend on.\<close>

definition same_lines :: "vhpet \<Rightarrow> vhpet \<Rightarrow> bool" where
  "same_lines vh vh' \<longleftrightarrow> vh_vio vh' = vh_vio vh \<and> vh_isr vh' = vh_isr vh \<and>
     (\<forall>k. ht_cap_config (vh_timer vh' k) = ht_cap_config (vh_timer vh k))"

lemma same_lines_refl [simp]: "same_lines vh vh"
  by (simp add: same_lines_def)

lemma same_lines_fields:
  assumes "same_lines vh vh'"
  shows "vhpet_timer_msi_enabled vh' n = vhpet_timer_msi_enabled vh n" "vhpet_timer_ioapic_pin vh' n = vhpet_timer_ioapic_pin vh n"
    "vhpet_periodic_timer vh' n = vhpet_periodic_timer vh n" "vhpet_timer_edge_trig vh' n = vhpet_timer_edge_trig vh n"
    "others vh' p = others vh p"
  using assms by (simp_all add: same_lines_def vhpet_timer_msi_enabled_def vhpet_timer_ioapic_pin_def vhpet_periodic_timer_def
    vhpet_timer_edge_trig_def others_def hpet_line_def)

section \<open>Invariant\<close>

text \<open>A timer whose interrupt is asserted is routed to a pin as a level interrupt.\<close>

definition line_up :: "vhpet \<Rightarrow> nat \<Rightarrow> bool" where
  "line_up vh n \<longleftrightarrow> n < VHPET_NUM_TIMERS \<and> vhpet_timer_edge_trig vh n = Some False \<and> vhpet_timer_ioapic_pin vh n \<noteq> 0"

definition hpet_base :: "int \<Rightarrow> vhpet \<Rightarrow> bool" where
  "hpet_base now vh \<longleftrightarrow> 0 < vh_freq_sbt vh \<and> (vhpet_counter_enabled vh \<longrightarrow> vh_countbase_sbt vh \<le> now) \<and>
     (\<forall>n. bit (vh_isr vh) n \<longrightarrow> line_up vh n) \<and>
     (\<forall>n<VHPET_NUM_TIMERS. \<not> vhpet_periodic_timer vh n \<longrightarrow> ht_comprate (vh_timer vh n) = 0)"

text \<open>Without the counter no callout is armed.\<close>

definition callouts_ok :: "vhpet \<Rightarrow> bool" where
  "callouts_ok vh \<longleftrightarrow> (\<not> vhpet_counter_enabled vh \<longrightarrow> (\<forall>n<VHPET_NUM_TIMERS. \<not> co_active (ht_callout (vh_timer vh n))))"

definition hpet_ok :: "int \<Rightarrow> vhpet \<Rightarrow> bool" where
  "hpet_ok now vh \<longleftrightarrow> hpet_base now vh \<and> callouts_ok vh"

lemma line_up_not_msi: "line_up vh n \<Longrightarrow> \<not> vhpet_timer_msi_enabled vh n"
  by (auto simp: line_up_def vhpet_timer_edge_trig_def split: if_splits)

lemma hpet_base_frame:
  assumes "hpet_base now vh" "same_lines vh vh'" "vh_freq_sbt vh' = vh_freq_sbt vh" "vhpet_counter_enabled vh' \<Longrightarrow> vh_countbase_sbt vh' \<le> now"
    "\<And>n. n < VHPET_NUM_TIMERS \<Longrightarrow> \<not> vhpet_periodic_timer vh n \<Longrightarrow> ht_comprate (vh_timer vh' n) = 0"
  shows "hpet_base now vh'"
  using assms(1,3-5) same_lines_fields [OF assms(2)] assms(2) unfolding hpet_base_def line_up_def by (simp add: same_lines_def)

lemma hpet_base_later: "hpet_base now vh \<Longrightarrow> now \<le> t \<Longrightarrow> hpet_base t vh"
  by (auto simp: hpet_base_def)

lemma hpet_ok_later: "hpet_ok now vh \<Longrightarrow> now \<le> t \<Longrightarrow> hpet_ok t vh"
  by (auto simp: hpet_ok_def hpet_base_later)

lemma counter_Some:
  "hpet_base now vh \<Longrightarrow> (want \<Longrightarrow> vhpet_counter_enabled vh) \<Longrightarrow> \<exists>c. vhpet_counter now vh want = Some c"
  by (auto simp: hpet_base_def vhpet_counter_def Let_def)

section \<open>Every operation keeps it\<close>

lemma upd_timer_simps [simp]:
  "vh_vio (upd_timer n f vh) = vh_vio vh" "vh_freq_sbt (upd_timer n f vh) = vh_freq_sbt vh" "vh_config (upd_timer n f vh) = vh_config vh"
  "vh_isr (upd_timer n f vh) = vh_isr vh" "vh_countbase (upd_timer n f vh) = vh_countbase vh" "vh_countbase_sbt (upd_timer n f vh) = vh_countbase_sbt vh"
  "vh_timer (upd_timer n f vh) k = (if k = n then f (vh_timer vh n) else vh_timer vh k)"
  "vhpet_counter_enabled (upd_timer n f vh) = vhpet_counter_enabled vh"
  by (simp_all add: upd_timer_def vhpet_counter_enabled_def)

text \<open>Starting a timer changes its comparator and its callout only.\<close>

lemma start_timer_form:
  obtains x c where "vhpet_start_timer n counter now vh = Some (upd_timer n (\<lambda>t. t\<lparr>ht_compval := x, ht_callout_sbt := c, ht_callout := callout_reset_sbt (ht_callout t) c\<rparr>) vh)"
proof (cases "ht_comprate (vh_timer vh n) = 0")
  case True
  then show ?thesis using that [where x = "ht_compval (vh_timer vh n)"] by (simp add: vhpet_start_timer_def upd_timer_def Let_def)
next
  case False
  then show ?thesis using that by (simp add: vhpet_start_timer_def vhpet_adjust_compval_def upd_timer_def Let_def)
qed

lemma start_timer_ok:
  assumes "hpet_base now vh"
  obtains vh' where "vhpet_start_timer n counter t vh = Some vh'" "hpet_base now vh'" "\<And>p. others vh' p = others vh p"
    "vhpet_counter_enabled vh' = vhpet_counter_enabled vh" "vh_countbase_sbt vh' = vh_countbase_sbt vh"
proof -
  obtain x c where v: "vhpet_start_timer n counter t vh =
      Some (upd_timer n (\<lambda>t. t\<lparr>ht_compval := x, ht_callout_sbt := c, ht_callout := callout_reset_sbt (ht_callout t) c\<rparr>) vh)" (is "_ = Some ?v")
    by (rule start_timer_form)
  have s: "same_lines vh ?v" by (simp add: same_lines_def)
  have "hpet_base now ?v" by (rule hpet_base_frame [OF assms s]) (use assms in \<open>auto simp: hpet_base_def\<close>)
  then show ?thesis using that [OF v] same_lines_fields(5) [OF s] by simp
qed

lemma for_timers_induct:
  assumes "I vh" "\<And>n vh. n \<in> set ns \<Longrightarrow> I vh \<Longrightarrow> \<exists>vh'. f n vh = Some vh' \<and> I vh'"
  shows "\<exists>vh'. for_timers f ns vh = Some vh' \<and> I vh'"
  using assms
proof (induction ns arbitrary: vh)
  case (Cons n ns)
  obtain vh1 where "f n vh = Some vh1" "I vh1" using Cons.prems by auto
  moreover obtain vh2 where "for_timers f ns vh1 = Some vh2" "I vh2" using Cons.IH [OF \<open>I vh1\<close>] Cons.prems(2) by auto
  ultimately show ?case by simp
qed simp

lemma start_counting_ok:
  assumes "hpet_base now (vh\<lparr>vh_countbase_sbt := now\<rparr>)" "vhpet_counter_enabled vh"
  shows "\<exists>vh'. vhpet_start_counting now vh = Some vh' \<and> hpet_ok now vh' \<and> (\<forall>p. others vh' p = others vh p)"
proof -
  define I where "I v \<longleftrightarrow> hpet_base now v \<and> vhpet_counter_enabled v \<and> (\<forall>p. others v p = others vh p)" for v
  have e: "vhpet_counter_enabled (vh\<lparr>vh_countbase_sbt := now\<rparr>)" using assms(2) by (simp add: vhpet_counter_enabled_def)
  have "others (vh\<lparr>vh_countbase_sbt := now\<rparr>) p = others vh p" for p by (rule same_lines_fields) (simp add: same_lines_def)
  then have "I (vh\<lparr>vh_countbase_sbt := now\<rparr>)" using assms(1) e by (simp add: I_def)
  then have "\<exists>vh'. vhpet_start_counting now vh = Some vh' \<and> I vh'" unfolding vhpet_start_counting_def
  proof (rule for_timers_induct)
    fix n v assume "I v"
    then have b: "hpet_base now v" by (simp add: I_def)
    show "\<exists>v'. vhpet_start_timer n (vh_countbase vh) now v = Some v' \<and> I v'"
      by (rule start_timer_ok [OF b, of n "vh_countbase vh" now]) (use \<open>I v\<close> in \<open>simp add: I_def\<close>)
  qed
  then show ?thesis by (auto simp: I_def hpet_ok_def callouts_ok_def)
qed

lemma interrupt_ok:
  assumes "hpet_base now vh" "n < VHPET_NUM_TIMERS"
  obtains vh' where "vhpet_timer_interrupt n vh = Some vh'" "hpet_base now vh'" "\<And>p. others vh' p = others vh p"
    "vh_timer vh' = vh_timer vh" "vhpet_counter_enabled vh' = vhpet_counter_enabled vh"
proof (cases "\<not> vhpet_timer_interrupt_enabled vh n \<or> bit (vh_isr vh) n \<or> \<not> vhpet_timer_msi_enabled vh n \<and> vhpet_timer_ioapic_pin vh n = 0")
  case True
  then have "vhpet_timer_interrupt n vh = Some vh" by (auto simp: vhpet_timer_interrupt_def)
  then show ?thesis using that assms(1) by simp
next
  case False
  have base: "hpet_base now (vh\<lparr>vh_vio := vio\<rparr>)" for vio
    using assms(1) by (simp add: hpet_base_def line_up_def)
  have oth: "others (vh\<lparr>vh_vio := vio\<rparr>) p = others vh p" if "pin_acnt vio p = pin_acnt (vh_vio vh) p" for vio p
    using that by (simp add: others_def hpet_line_def)
  show ?thesis
  proof (cases "vhpet_timer_msi_enabled vh n")
    case True
    obtain r vm where "lapic_intr_msi (vi_vm (vh_vio vh)) (drop_bit 32 (ht_msireg (vh_timer vh n))) (ht_msireg (vh_timer vh n) AND 0xffffffff) = Some (r, vm)"
      using msi_Some by blast
    then have "vhpet_timer_interrupt n vh = Some (vh\<lparr>vh_vio := (vh_vio vh)\<lparr>vi_vm := vm\<rparr>\<rparr>)"
      using False True by (simp add: vhpet_timer_interrupt_def Let_def)
    then show ?thesis by (rule that) (use base oth in \<open>simp_all add: pin_acnt_def\<close>)
  next
    case nomsi: False
    define pin where "pin = vhpet_timer_ioapic_pin vh n"
    have p: "pin < 32" "pin \<noteq> 0" using False nomsi pin_less by (simp_all add: pin_def)
    show ?thesis
    proof (cases "vhpet_timer_edge_trig vh n = Some True")
      case True
      obtain r vio where v: "vioapic_set_irqstate (vh_vio vh) (int pin) IRQSTATE_PULSE = Some (r, vio)" "\<And>q. pin_acnt vio q = pin_acnt (vh_vio vh) q"
        by (rule irqstate_obtain [OF p(1), of "vh_vio vh" IRQSTATE_PULSE]) simp
      have "vhpet_timer_interrupt n vh = Some (vh\<lparr>vh_vio := vio\<rparr>)"
        using False nomsi True v(1) p by (simp add: vhpet_timer_interrupt_def pin_def vioapic_pulse_irq_def)
      then show ?thesis by (rule that) (use base oth v(2) in simp_all)
    next
      case level: False
      then have lv: "vhpet_timer_edge_trig vh n = Some False" using nomsi by (simp add: vhpet_timer_edge_trig_def)
      obtain r vio where v: "vioapic_set_irqstate (vh_vio vh) (int pin) IRQSTATE_ASSERT = Some (r, vio)"
          "\<And>q. pin_acnt vio q = pin_acnt (vh_vio vh) q + of_bool (q = pin)"
        by (rule irqstate_obtain [OF p(1), of "vh_vio vh" IRQSTATE_ASSERT]) simp
      define vh' where "vh' = vh\<lparr>vh_vio := vio, vh_isr := set_bit n (vh_isr vh)\<rparr>"
      have i: "vhpet_timer_interrupt n vh = Some vh'"
        using False nomsi lv v(1) p by (simp add: vhpet_timer_interrupt_def pin_def vioapic_assert_irq_def vh'_def)
      have same: "vhpet_timer_ioapic_pin vh' k = vhpet_timer_ioapic_pin vh k" "vhpet_timer_edge_trig vh' k = vhpet_timer_edge_trig vh k"
        "vhpet_periodic_timer vh' k = vhpet_periodic_timer vh k" "vhpet_counter_enabled vh' = vhpet_counter_enabled vh" for k
        by (simp_all add: vh'_def)
      have n64: "n < LENGTH(64)" using assms(2) by simp
      have "hpet_line vh' q = hpet_line vh q + of_bool (q = pin)" for q
        unfolding hpet_line_def by (subst sum_one_change [OF assms(2)]) (use False n64 in \<open>auto simp: same vh'_def bit_set_bit_word pin_def\<close>)
      then have o: "others vh' q = others vh q" for q using v(2) by (simp add: others_def vh'_def)
      have "bit (vh_isr vh') k = (bit (vh_isr vh) k \<or> k = n)" for k using n64 by (auto simp: vh'_def bit_set_bit_word)
      then have "hpet_base now vh'" using assms lv p(2) unfolding hpet_base_def line_up_def same pin_def by (auto simp: vh'_def)
      then show ?thesis using that [OF i] o same(4) by (simp add: vh'_def)
    qed
  qed
qed

lemma stop_timer_ok:
  assumes "hpet_base now vh" "n < VHPET_NUM_TIMERS"
  obtains vh' where "vhpet_stop_timer n now vh = Some vh'" "hpet_base now vh'" "\<And>p. others vh' p = others vh p"
    "vhpet_counter_enabled vh' = vhpet_counter_enabled vh"
    "\<And>k. ht_callout (vh_timer vh' k) = (if k = n then callout_stop (ht_callout (vh_timer vh n)) else ht_callout (vh_timer vh k))"
proof -
  define v where "v = upd_timer n (\<lambda>t. t\<lparr>ht_callout := callout_stop (ht_callout t)\<rparr>) vh"
  have s: "same_lines vh v" by (simp add: same_lines_def v_def)
  have b: "hpet_base now v" by (rule hpet_base_frame [OF assms(1) s]) (use assms(1) in \<open>auto simp: hpet_base_def v_def\<close>)
  obtain w where w: "vhpet_timer_interrupt n v = Some w" "hpet_base now w" "\<And>p. others w p = others v p" "vh_timer w = vh_timer v"
      "vhpet_counter_enabled w = vhpet_counter_enabled v"
    by (rule interrupt_ok [OF b assms(2)]) (rule that)
  define r where "r = (if ht_callout_sbt (vh_timer v n) < now then w else v)"
  have "vhpet_stop_timer n now vh = Some r" using w(1) by (simp add: vhpet_stop_timer_def v_def [symmetric] r_def)
  then show ?thesis by (rule that) (use b w same_lines_fields(5) [OF s] in \<open>auto simp: r_def v_def\<close>)
qed

lemma stop_timers_ok:
  assumes "hpet_base now vh" "set ns \<subseteq> {..<VHPET_NUM_TIMERS}"
  shows "\<exists>vh'. for_timers (\<lambda>i. vhpet_stop_timer i now) ns vh = Some vh' \<and> hpet_base now vh' \<and> (\<forall>p. others vh' p = others vh p) \<and>
    vhpet_counter_enabled vh' = vhpet_counter_enabled vh \<and>
    (\<forall>k. co_active (ht_callout (vh_timer vh' k)) \<longrightarrow> k \<notin> set ns \<and> co_active (ht_callout (vh_timer vh k)))"
  using assms
proof (induction ns arbitrary: vh)
  case (Cons n ns)
  have n: "n < VHPET_NUM_TIMERS" "set ns \<subseteq> {..<VHPET_NUM_TIMERS}" using Cons.prems(2) by auto
  obtain v where v: "vhpet_stop_timer n now vh = Some v" "hpet_base now v" "\<And>p. others v p = others vh p"
      "vhpet_counter_enabled v = vhpet_counter_enabled vh"
      "\<And>k. ht_callout (vh_timer v k) = (if k = n then callout_stop (ht_callout (vh_timer vh n)) else ht_callout (vh_timer vh k))"
    by (rule stop_timer_ok [OF Cons.prems(1) n(1)]) (rule that)
  obtain w where w: "for_timers (\<lambda>i. vhpet_stop_timer i now) ns v = Some w" "hpet_base now w" "\<forall>p. others w p = others v p"
      "vhpet_counter_enabled w = vhpet_counter_enabled v"
      "\<forall>k. co_active (ht_callout (vh_timer w k)) \<longrightarrow> k \<notin> set ns \<and> co_active (ht_callout (vh_timer v k))"
    using Cons.IH [OF v(2) n(2)] by blast
  have "co_active (ht_callout (vh_timer w k)) \<Longrightarrow> k \<notin> set (n # ns) \<and> co_active (ht_callout (vh_timer vh k))" for k
    using w(5) [rule_format, of k] v(5) [of k] by (auto simp: callout_stop_def split: if_splits)
  then show ?case using v(1,3,4) w(1-4) by simp
qed simp

lemma stop_counting_ok:
  assumes "hpet_base now vh" "\<not> vhpet_counter_enabled vh"
  shows "\<exists>vh'. vhpet_stop_counting counter now vh = Some vh' \<and> hpet_ok now vh' \<and> (\<forall>p. others vh' p = others vh p)"
proof -
  define v where "v = vh\<lparr>vh_countbase := counter\<rparr>"
  have s: "same_lines vh v" by (simp add: same_lines_def v_def)
  have e: "\<not> vhpet_counter_enabled v" using assms(2) by (simp add: v_def vhpet_counter_enabled_def)
  have b: "hpet_base now v" by (rule hpet_base_frame [OF assms(1) s]) (use assms(1) e in \<open>auto simp: hpet_base_def v_def\<close>)
  obtain w where w: "for_timers (\<lambda>i. vhpet_stop_timer i now) [0..<VHPET_NUM_TIMERS] v = Some w" "hpet_base now w" "\<forall>p. others w p = others v p"
      "vhpet_counter_enabled w = vhpet_counter_enabled v"
      "\<forall>k. co_active (ht_callout (vh_timer w k)) \<longrightarrow> k \<notin> set [0..<VHPET_NUM_TIMERS] \<and> co_active (ht_callout (vh_timer v k))"
    using stop_timers_ok [OF b, of "[0..<VHPET_NUM_TIMERS]"] by (auto simp: lessThan_atLeast0)
  have "callouts_ok w" using w(5) by (auto simp: callouts_ok_def)
  then show ?thesis using w same_lines_fields(5) [OF s] unfolding vhpet_stop_counting_def v_def [symmetric] hpet_ok_def by simp
qed

text \<open>Taking an asserted line down.\<close>

lemma deassert_ok:
  assumes "bit (vh_isr vh) n" "n < VHPET_NUM_TIMERS" "vhpet_timer_ioapic_pin vh n = pin"
  obtains ret vio where "vioapic_deassert_irq (vh_vio vh) (int pin) = Some (ret, vio)"
    "\<And>p. others (vh\<lparr>vh_vio := vio, vh_isr := unset_bit n (vh_isr vh)\<rparr>) p = others vh p"
proof -
  have p: "pin < 32" using assms(3) pin_less by blast
  obtain ret vio where v: "vioapic_set_irqstate (vh_vio vh) (int pin) IRQSTATE_DEASSERT = Some (ret, vio)"
      "\<And>q. pin_acnt vio q = pin_acnt (vh_vio vh) q - of_bool (q = pin)"
    by (rule irqstate_obtain [OF p, of "vh_vio vh" IRQSTATE_DEASSERT]) simp
  have "hpet_line (vh\<lparr>vh_vio := vio, vh_isr := unset_bit n (vh_isr vh)\<rparr>) q = hpet_line vh q - of_bool (q = pin)" for q
    unfolding hpet_line_def by (subst sum_one_change [OF assms(2)]) (use assms(1,3) in \<open>auto simp: bit_unset_bit_word\<close>)
  then show ?thesis using that v by (simp add: vioapic_deassert_irq_def others_def)
qed

lemma unset_isr_base: "hpet_base now vh \<Longrightarrow> hpet_base now (vh\<lparr>vh_vio := vio, vh_isr := unset_bit n (vh_isr vh)\<rparr>)"
  by (simp add: hpet_base_def line_up_def bit_unset_bit_word)

lemma clear_isr_ok:
  assumes "hpet_ok now vh" "n < VHPET_NUM_TIMERS"
  shows "\<exists>vh'. vhpet_timer_clear_isr n vh = Some vh' \<and> hpet_ok now vh' \<and> (\<forall>p. others vh' p = others vh p)"
proof (cases "bit (vh_isr vh) n")
  case True
  then have pin: "vhpet_timer_ioapic_pin vh n \<noteq> 0" using assms(1) by (auto simp: hpet_ok_def hpet_base_def line_up_def)
  obtain ret vio where v: "vioapic_deassert_irq (vh_vio vh) (int (vhpet_timer_ioapic_pin vh n)) = Some (ret, vio)"
      "\<And>p. others (vh\<lparr>vh_vio := vio, vh_isr := unset_bit n (vh_isr vh)\<rparr>) p = others vh p"
    by (rule deassert_ok [OF True assms(2) refl]) (rule that)
  then show ?thesis using True pin assms(1) unset_isr_base by (simp add: vhpet_timer_clear_isr_def hpet_ok_def callouts_ok_def)
next
  case False
  then show ?thesis using assms(1) by (simp add: vhpet_timer_clear_isr_def)
qed

lemma write_isr_ok:
  assumes "hpet_ok now vh"
  shows "\<exists>vh'. write_isr data vh = Some vh' \<and> hpet_ok now vh' \<and> (\<forall>p. others vh' p = others vh p)"
  unfolding write_isr_def Let_def
proof (rule for_timers_induct)
  show "hpet_ok now vh \<and> (\<forall>p. others vh p = others vh p)" using assms by simp
  fix n v assume "n \<in> set [0..<VHPET_NUM_TIMERS]" and v: "hpet_ok now v \<and> (\<forall>p. others v p = others vh p)"
  then have "n < VHPET_NUM_TIMERS" by simp
  then show "\<exists>v'. (if bit (ucast (vh_isr vh AND data) :: u32) n then vhpet_timer_clear_isr n v else Some v) = Some v' \<and>
      hpet_ok now v' \<and> (\<forall>p. others v' p = others vh p)"
    using clear_isr_ok [of now v n] v by auto
qed

text \<open>A change of one timer, and of its interrupt status.\<close>

definition one_timer :: "nat \<Rightarrow> vhpet \<Rightarrow> vhpet \<Rightarrow> bool" where
  "one_timer n vh v \<longleftrightarrow> (\<forall>k. k \<noteq> n \<longrightarrow> vh_timer v k = vh_timer vh k \<and> bit (vh_isr v) k = bit (vh_isr vh) k) \<and>
     ht_callout (vh_timer v n) = ht_callout (vh_timer vh n) \<and> vh_freq_sbt v = vh_freq_sbt vh \<and> vh_countbase_sbt v = vh_countbase_sbt vh \<and>
     vhpet_counter_enabled v = vhpet_counter_enabled vh"

lemma one_timer_views:
  assumes "one_timer n vh v" "k \<noteq> n"
  shows "vhpet_timer_ioapic_pin v k = vhpet_timer_ioapic_pin vh k" "line_up v k = line_up vh k" "vhpet_periodic_timer v k = vhpet_periodic_timer vh k"
  using assms by (simp_all add: one_timer_def vhpet_timer_ioapic_pin_def vhpet_timer_msi_enabled_def vhpet_timer_edge_trig_def vhpet_periodic_timer_def line_up_def)

lemma one_timer_ok:
  assumes "hpet_ok now vh" "one_timer n vh v" "bit (vh_isr v) n \<Longrightarrow> line_up v n" "\<not> vhpet_periodic_timer v n \<Longrightarrow> ht_comprate (vh_timer v n) = 0"
  shows "hpet_ok now v"
proof -
  have "line_up v k" if "bit (vh_isr v) k" for k
    using assms(1-3) that one_timer_views [OF assms(2)] by (cases "k = n") (auto simp: hpet_ok_def hpet_base_def one_timer_def)
  moreover have "ht_comprate (vh_timer v k) = 0" if "k < VHPET_NUM_TIMERS" "\<not> vhpet_periodic_timer v k" for k
    using assms(1,2,4) that one_timer_views [OF assms(2)] by (cases "k = n") (auto simp: hpet_ok_def hpet_base_def one_timer_def)
  moreover have "ht_callout (vh_timer v k) = ht_callout (vh_timer vh k)" for k using assms(2) by (cases "k = n") (simp_all add: one_timer_def)
  ultimately show ?thesis using assms(1,2) by (simp add: hpet_ok_def hpet_base_def one_timer_def callouts_ok_def)
qed

lemma one_timer_line:
  assumes "one_timer n vh v" "n < VHPET_NUM_TIMERS"
  shows "hpet_line v p = hpet_line vh p + of_bool (bit (vh_isr v) n \<and> vhpet_timer_ioapic_pin v n = p) -
    of_bool (bit (vh_isr vh) n \<and> vhpet_timer_ioapic_pin vh n = p)"
  unfolding hpet_line_def by (rule sum_one_change [OF assms(2)]) (use assms(1) one_timer_views(1) [OF assms(1)] in \<open>simp add: one_timer_def\<close>)

lemma apply_config_frame:
  "one_timer n vh (apply_config n newval vh)" "vh_isr (apply_config n newval vh) = vh_isr vh" "vh_vio (apply_config n newval vh) = vh_vio vh"
  "\<not> vhpet_periodic_timer (apply_config n newval vh) n \<Longrightarrow> ht_comprate (vh_timer (apply_config n newval vh) n) = 0"
  by (auto simp: apply_config_def Let_def one_timer_def vhpet_periodic_timer_def split: if_splits)

lemma update_config_line_up:
  assumes "hpet_ok now vh" "n < VHPET_NUM_TIMERS" "bit (vh_isr vh) n" "v = apply_config n newval vh"
  shows "\<exists>clear vh'. config_clears_isr n (vhpet_timer_ioapic_pin vh n) v = Some clear \<and>
    (if clear then vioapic_deassert_irq (vh_vio v) (int (vhpet_timer_ioapic_pin vh n)) \<bind> (\<lambda>(_, vio). Some (v\<lparr>vh_vio := vio, vh_isr := unset_bit n (vh_isr v)\<rparr>))
     else Some v) = Some vh' \<and> hpet_ok now vh' \<and> (\<forall>p. others vh' p = others vh p)"
proof -
  note A = apply_config_frame [where n = n and vh = vh and newval = newval, folded assms(4)]
  define pin where "pin = vhpet_timer_ioapic_pin vh n"
  have pin: "pin \<noteq> 0" using assms(1,3) by (auto simp: hpet_ok_def hpet_base_def line_up_def pin_def)
  have "config_clears_isr n pin v \<noteq> None" by (auto simp: config_clears_isr_def vhpet_timer_edge_trig_def)
  then obtain clear where c: "config_clears_isr n pin v = Some clear" by blast
  show ?thesis
  proof (cases clear)
    case True
    obtain ret vio where d: "vioapic_deassert_irq (vh_vio vh) (int pin) = Some (ret, vio)"
        "\<And>p. others (vh\<lparr>vh_vio := vio, vh_isr := unset_bit n (vh_isr vh)\<rparr>) p = others vh p"
      by (rule deassert_ok [OF assms(3,2) pin_def [symmetric]]) (rule that)
    define w where "w = v\<lparr>vh_vio := vio, vh_isr := unset_bit n (vh_isr v)\<rparr>"
    have ow: "one_timer n vh w" using A(1) by (auto simp: one_timer_def w_def bit_unset_bit_word A(2))
    have "one_timer n vh (vh\<lparr>vh_vio := vio, vh_isr := unset_bit n (vh_isr vh)\<rparr>)" by (simp add: one_timer_def bit_unset_bit_word)
    note L = one_timer_line [OF this assms(2)] one_timer_line [OF ow assms(2)]
    have "others w p = others vh p" for p using d(2) [of p] L [of p] by (simp add: others_def w_def bit_unset_bit_word)
    moreover have "hpet_ok now w" by (rule one_timer_ok [OF assms(1) ow]) (use A(4) in \<open>simp_all add: w_def bit_unset_bit_word vhpet_periodic_timer_def\<close>)
    ultimately show ?thesis using True c d(1) by (intro exI [of _ True] exI [of _ w]) (simp add: pin_def [symmetric] A(3) w_def [symmetric])
  next
    case False
    then have l: "line_up v n" "vhpet_timer_ioapic_pin v n = pin"
      using c pin assms(2) by (auto simp: config_clears_isr_def line_up_def vhpet_timer_edge_trig_def bind_eq_Some_conv split: if_splits)
    have "hpet_ok now v" by (rule one_timer_ok [OF assms(1) A(1)]) (use l A(4) in simp_all)
    moreover have "others v p = others vh p" for p using one_timer_line [OF A(1) assms(2), of p] l(2) by (simp add: others_def A(2,3) pin_def)
    ultimately show ?thesis using False c by (intro exI [of _ False] exI [of _ v]) (simp add: pin_def [symmetric])
  qed
qed

lemma update_config_ok:
  assumes "hpet_ok now vh" "n < VHPET_NUM_TIMERS"
  shows "\<exists>vh'. vhpet_timer_update_config n data msk vh = Some vh' \<and> hpet_ok now vh' \<and> (\<forall>p. others vh' p = others vh p)"
proof -
  define v where "v = apply_config n (config_value (ht_cap_config (vh_timer vh n)) data msk) vh"
  note A = apply_config_frame [where n = n and vh = vh and newval = "config_value (ht_cap_config (vh_timer vh n)) data msk", folded v_def]
  have up: "line_up vh n" if "bit (vh_isr vh) n" using assms(1) that by (simp add: hpet_ok_def hpet_base_def)
  obtain eom where eom: "(if vhpet_timer_msi_enabled vh n then Some True else vhpet_timer_edge_trig vh n) = Some eom" "\<not> (eom \<and> bit (vh_isr vh) n)"
    using up line_up_not_msi [of vh n] by (cases "vhpet_timer_msi_enabled vh n") (auto simp: vhpet_timer_edge_trig_def line_up_def)
  note U = vhpet_timer_update_config_def Let_def v_def [symmetric] eom(1)
  show ?thesis
  proof (cases "config_value (ht_cap_config (vh_timer vh n)) data msk = ht_cap_config (vh_timer vh n)")
    case True
    then show ?thesis using eom assms(1) by (simp add: vhpet_timer_update_config_def)
  next
    case changed: False
    show ?thesis
    proof (cases "bit (vh_isr vh) n")
      case True
      then show ?thesis using changed eom(2) up update_config_line_up [OF assms True v_def] unfolding U by (auto simp: A(2) line_up_def)
    next
      case False
      have "hpet_ok now v" by (rule one_timer_ok [OF assms(1) A(1)]) (use False A(2,4) in simp_all)
      moreover have "others v p = others vh p" for p using one_timer_line [OF A(1) assms(2), of p] False by (simp add: others_def A(2,3))
      ultimately show ?thesis using changed False unfolding U by (simp add: A(2))
    qed
  qed
qed

lemma and_1_bit: "(x AND 1 \<noteq> 0) = bit x 0" for x :: u64
  using and_push_bit_1_neq_0 [of x 0] by (simp add: bit_0)

lemma write_config_ok:
  assumes "hpet_ok now vh"
  shows "\<exists>vh'. write_config now data msk vh = Some vh' \<and> hpet_ok now vh' \<and> (\<forall>p. others vh' p = others vh p)"
proof -
  have b: "hpet_base now vh" using assms by (simp add: hpet_ok_def)
  obtain counter where c: "vhpet_counter now vh (vhpet_counter_enabled vh) = Some counter" using counter_Some [OF b] by blast
  define v where "v = vh\<lparr>vh_config := update_register (vh_config vh) data msk AND NOT HPET_CNF_LEG_RT\<rparr>"
  have s: "same_lines vh v" by (simp add: same_lines_def v_def)
  have on: "hpet_base now (v\<lparr>vh_countbase_sbt := now\<rparr>)"
    by (rule hpet_base_frame [OF b]) (use b in \<open>auto simp: hpet_base_def same_lines_def v_def\<close>)
  have same: "hpet_base now v" if "vhpet_counter_enabled v \<Longrightarrow> vhpet_counter_enabled vh"
    by (rule hpet_base_frame [OF b s]) (use b that in \<open>auto simp: hpet_base_def v_def\<close>)
  have e: "((vh_config vh XOR vh_config v) AND HPET_CNF_ENABLE \<noteq> 0) = (vhpet_counter_enabled v \<noteq> vhpet_counter_enabled vh)"
    unfolding vhpet_counter_enabled_def and_1_bit bit_xor_iff by blast
  have W: "write_config now data msk vh = (if vhpet_counter_enabled v \<noteq> vhpet_counter_enabled vh
      then if vhpet_counter_enabled v then vhpet_start_counting now v else vhpet_stop_counting counter now v else Some v)"
    unfolding write_config_def Let_def c Option.bind.bind_lunit v_def [symmetric] e ..
  have o: "others v p = others vh p" for p by (rule same_lines_fields [OF s])
  have k: "hpet_ok now v" if "vhpet_counter_enabled v = vhpet_counter_enabled vh"
    using same assms that by (auto simp: hpet_ok_def callouts_ok_def v_def)
  show ?thesis unfolding W using start_counting_ok [OF on] stop_counting_ok [OF same] o k by auto
qed

lemma write_main_counter_ok:
  assumes "hpet_ok now vh"
  shows "\<exists>vh'. write_main_counter now data msk vh = Some vh' \<and> hpet_ok now vh' \<and> (\<forall>p. others vh' p = others vh p)"
proof -
  have b: "hpet_base now vh" using assms by (simp add: hpet_ok_def)
  obtain counter where c: "vhpet_counter now vh False = Some counter" using counter_Some [OF b, of False] by auto
  define v where "v = vh\<lparr>vh_countbase := ucast (update_register (ucast counter) data msk)\<rparr>"
  have s: "same_lines vh v" and e: "vhpet_counter_enabled v = vhpet_counter_enabled vh" by (simp_all add: same_lines_def v_def vhpet_counter_enabled_def)
  have o: "others v p = others vh p" for p by (rule same_lines_fields [OF s])
  have on: "hpet_base now (v\<lparr>vh_countbase_sbt := now\<rparr>)" by (rule hpet_base_frame [OF b]) (use b in \<open>auto simp: hpet_base_def same_lines_def v_def\<close>)
  have "hpet_base now v" by (rule hpet_base_frame [OF b s]) (use b e in \<open>auto simp: hpet_base_def v_def\<close>)
  then have "hpet_ok now v" using assms e by (simp add: hpet_ok_def callouts_ok_def v_def)
  then show ?thesis using start_counting_ok [OF on] c o by (cases "vhpet_counter_enabled v") (auto simp: write_main_counter_def v_def [symmetric])
qed

lemma start_running_ok:
  assumes "hpet_base now vh" "vhpet_counter_enabled vh"
  shows "\<exists>vh'. vhpet_start_timer n counter t vh = Some vh' \<and> hpet_ok now vh' \<and> (\<forall>p. others vh' p = others vh p)"
  by (rule start_timer_ok [OF assms(1), of n counter t]) (use assms(2) in \<open>simp add: hpet_ok_def callouts_ok_def\<close>)

lemma comparator_rate:
  assumes "hpet_base now vh" "i < VHPET_NUM_TIMERS"
  obtains compval comprate where "comparator_value vh i data msk = Some (compval, comprate)" "\<not> vhpet_periodic_timer vh i \<Longrightarrow> comprate = 0"
  using assms that by (cases "vhpet_periodic_timer vh i") (auto simp: comparator_value_def Let_def hpet_base_def)

lemma write_comparator_ok:
  assumes "hpet_ok now vh" "i < VHPET_NUM_TIMERS"
  shows "\<exists>vh'. write_comparator now i data msk vh = Some vh' \<and> hpet_ok now vh' \<and> (\<forall>p. others vh' p = others vh p)"
proof -
  have b: "hpet_base now vh" using assms(1) by (simp add: hpet_ok_def)
  obtain compval comprate where c: "comparator_value vh i data msk = Some (compval, comprate)" "\<not> vhpet_periodic_timer vh i \<Longrightarrow> comprate = 0"
    by (rule comparator_rate [OF b assms(2), of data msk]) (rule that)
  define v where "v = upd_timer i (\<lambda>t. t\<lparr>ht_compval := compval, ht_comprate := comprate, ht_cap_config := ht_cap_config t AND NOT HPET_TCNF_VAL_SET\<rparr>) vh"
  have views: "vhpet_timer_ioapic_pin v i = vhpet_timer_ioapic_pin vh i" "vhpet_timer_edge_trig v i = vhpet_timer_edge_trig vh i"
    "vhpet_periodic_timer v i = vhpet_periodic_timer vh i"
    by (simp_all add: v_def vhpet_timer_ioapic_pin_def vhpet_timer_msi_enabled_def vhpet_timer_edge_trig_def vhpet_periodic_timer_def and.assoc)
  have v1: "one_timer i vh v" "vh_isr v = vh_isr vh" "vh_vio v = vh_vio vh" by (simp_all add: one_timer_def v_def)
  have ok: "hpet_ok now v" by (rule one_timer_ok [OF assms(1) v1(1)]) (use b c(2) views v1(2) in \<open>auto simp: hpet_base_def line_up_def v_def\<close>)
  have o: "others v p = others vh p" for p using one_timer_line [OF v1(1) assms(2), of p] by (simp add: others_def views v1)
  have bv: "hpet_base now v" using ok by (simp add: hpet_ok_def)
  have "\<exists>x. vhpet_counter now v True = Some x" if "vhpet_counter_enabled v" using counter_Some [OF bv] that by blast
  then show ?thesis using start_running_ok [OF bv] ok o
    unfolding write_comparator_def Let_def c(1) Option.bind.bind_lunit prod.case v_def [symmetric] by auto
qed

lemma timer_at_less: "timer_at offset = Some i \<Longrightarrow> i < VHPET_NUM_TIMERS"
  by (auto simp: timer_at_def find_Some_iff)

lemma mmio_write_ok:
  assumes "hpet_ok now vh"
  shows "\<exists>vh'. vhpet_mmio_write now vh gpa val sz = Some (0, vh') \<and> hpet_ok now vh' \<and> (\<forall>p. others vh' p = others vh p)"
proof -
  have msi: "hpet_ok now (upd_timer i (\<lambda>t. t\<lparr>ht_msireg := x t\<rparr>) vh) \<and> (\<forall>p. others (upd_timer i (\<lambda>t. t\<lparr>ht_msireg := x t\<rparr>) vh) p = others vh p)" (is "hpet_ok now ?v \<and> _") for i x
  proof -
    have s: "same_lines vh ?v" by (simp add: same_lines_def)
    have "hpet_base now ?v" by (rule hpet_base_frame [OF _ s]) (use assms in \<open>auto simp: hpet_ok_def hpet_base_def\<close>)
    then show ?thesis using assms same_lines_fields(5) [OF s] by (simp add: hpet_ok_def callouts_ok_def)
  qed
  define offset where "offset = (ucast (gpa - VHPET_BASE) :: u32)"
  show ?thesis
  proof (cases "access_mask offset val sz")
    case None
    then show ?thesis using assms by (simp add: vhpet_mmio_write_def offset_def [symmetric])
  next
    case (Some dm)
    obtain data msk where "dm = (data, msk)" by fastforce
    note reg = write_config_ok [OF assms, of data msk] write_isr_ok [OF assms, of data] write_main_counter_ok [OF assms, of data msk]
    have timer: "\<exists>vh'. (case timer_at offset of None \<Rightarrow> Some vh | Some i \<Rightarrow> if is_cap_cnf offset i then vhpet_timer_update_config i data msk vh
        else if is_comparator offset i then write_comparator now i data msk vh
        else Some (upd_timer i (\<lambda>t. t\<lparr>ht_msireg := update_register (ht_msireg t) data msk\<rparr>) vh)) = Some vh' \<and> hpet_ok now vh' \<and> (\<forall>p. others vh' p = others vh p)"
      using assms update_config_ok [OF assms timer_at_less] write_comparator_ok [OF assms timer_at_less] msi by (cases "timer_at offset") auto
    show ?thesis unfolding vhpet_mmio_write_def Let_def offset_def [symmetric] Some \<open>dm = _\<close> option.case prod.case
      using reg timer by (auto split: if_split)
  qed
qed

lemma mmio_read_ok:
  assumes "hpet_ok now vh"
  shows "\<exists>val. vhpet_mmio_read now vh gpa sz = Some (0, val)"
proof -
  obtain c where "vhpet_counter now vh False = Some c" using assms counter_Some [of now vh False] by (auto simp: hpet_ok_def)
  then have "\<exists>d. vhpet_read_reg now vh offset = Some d" for offset by (auto simp: vhpet_read_reg_def split: option.split)
  then show ?thesis by (auto simp: vhpet_mmio_read_def Let_def bind_eq_Some_conv)
qed

lemma handler_ok:
  assumes "hpet_ok now vh" "n < VHPET_NUM_TIMERS"
  shows "\<exists>vh'. vhpet_handler now n vh = Some vh' \<and> hpet_ok now vh' \<and> (\<forall>p. others vh' p = others vh p)"
proof (cases "co_pending (ht_callout (vh_timer vh n)) \<or> \<not> co_active (ht_callout (vh_timer vh n))")
  case True
  then show ?thesis using assms(1) by (cases "co_pending (ht_callout (vh_timer vh n))") (simp_all add: vhpet_handler_def)
next
  case False
  then have e: "vhpet_counter_enabled vh" using assms by (auto simp: hpet_ok_def callouts_ok_def)
  define v where "v = upd_timer n (\<lambda>t. t\<lparr>ht_callout := callout_deactivate (ht_callout t)\<rparr>) vh"
  have s: "same_lines vh v" by (simp add: same_lines_def v_def)
  have b: "hpet_base now v" by (rule hpet_base_frame [OF _ s]) (use assms(1) in \<open>auto simp: hpet_ok_def hpet_base_def v_def\<close>)
  obtain c where c: "vhpet_counter now v True = Some c" using counter_Some [OF b, of True] e by (auto simp: v_def)
  obtain w where w: "vhpet_start_timer n c now v = Some w" "hpet_base now w" "\<And>p. others w p = others v p" "vhpet_counter_enabled w = vhpet_counter_enabled v"
    by (rule start_timer_ok [OF b, of n c now]) (rule that)
  obtain x where x: "vhpet_timer_interrupt n w = Some x" "hpet_base now x" "\<And>p. others x p = others w p" "vhpet_counter_enabled x = vhpet_counter_enabled w"
    by (rule interrupt_ok [OF w(2) assms(2)]) (rule that)
  have "vhpet_handler now n vh = Some x" using False e c w(1) x(1) by (simp add: vhpet_handler_def v_def [symmetric]) (simp add: v_def)
  moreover have "hpet_ok now x" using x(2,4) w(4) e by (simp add: hpet_ok_def callouts_ok_def v_def)
  ultimately show ?thesis using x(3) w(3) same_lines_fields(5) [OF s] by auto
qed

section \<open>Reachable states\<close>

text \<open>The clock takes a callout off its queue; its handler runs some time later.\<close>

definition expire :: "nat \<Rightarrow> vhpet \<Rightarrow> vhpet" where
  "expire n = upd_timer n (\<lambda>t. t\<lparr>ht_callout := (ht_callout t)\<lparr>co_pending := False\<rparr>\<rparr>)"

text \<open>The states at an uptime: register writes and handlers at increasing times, and anything that the rest of the machine does to the
  interrupt controllers.\<close>

inductive hpet_reachable :: "time_ops \<Rightarrow> int \<Rightarrow> vhpet \<Rightarrow> bool" for T where
  init: "hpet_reachable T now (vhpet_init T vio)"
| mmio: "hpet_reachable T now vh \<Longrightarrow> now \<le> t \<Longrightarrow> vhpet_mmio_write t vh gpa val sz = Some (ret, vh') \<Longrightarrow> hpet_reachable T t vh'"
| expire: "hpet_reachable T now vh \<Longrightarrow> hpet_reachable T now (expire n vh)"
| handler: "hpet_reachable T now vh \<Longrightarrow> now \<le> t \<Longrightarrow> n < VHPET_NUM_TIMERS \<Longrightarrow> vhpet_handler t n vh = Some vh' \<Longrightarrow> hpet_reachable T t vh'"
| machine: "hpet_reachable T now vh \<Longrightarrow> hpet_reachable T now (vh\<lparr>vh_vio := vio\<rparr>)"

lemma init_ok: "0 < bttosbt T (FREQ2BT T HPET_FREQ) \<Longrightarrow> hpet_ok now (vhpet_init T vio)"
  by (simp add: vhpet_init_def Let_def hpet_ok_def hpet_base_def callouts_ok_def vhpet_counter_enabled_def timer_init_def callout_init_def)

lemma expire_ok: "hpet_ok now vh \<Longrightarrow> hpet_ok now (expire n vh)"
proof -
  assume ok: "hpet_ok now vh"
  have s: "same_lines vh (expire n vh)" by (simp add: same_lines_def expire_def)
  have "hpet_base now (expire n vh)" by (rule hpet_base_frame [OF _ s]) (use ok in \<open>auto simp: hpet_ok_def hpet_base_def expire_def\<close>)
  then show ?thesis using ok by (simp add: hpet_ok_def callouts_ok_def expire_def)
qed

lemma machine_ok: "hpet_ok now vh \<Longrightarrow> hpet_ok now (vh\<lparr>vh_vio := vio\<rparr>)"
  by (simp add: hpet_ok_def hpet_base_def callouts_ok_def line_up_def)

lemma hpet_reachable_ok:
  assumes "hpet_reachable T now vh" "0 < bttosbt T (FREQ2BT T HPET_FREQ)"
  shows "hpet_ok now vh"
  using assms(1)
proof induction
  case (mmio now vh t gpa val sz ret vh')
  then show ?case using mmio_write_ok [OF hpet_ok_later [OF mmio.IH mmio.hyps(2)], of gpa val sz] by auto
next
  case (handler now vh t n vh')
  then show ?case using handler_ok [OF hpet_ok_later [OF handler.IH handler.hyps(2)], of n] by auto
qed (use init_ok [OF assms(2)] expire_ok machine_ok in auto)

section \<open>Properties\<close>

text \<open>C9. The HPET never panics. In every state that guest accesses, expiring callouts, their handlers in any interleaving and the rest of the machine
  can bring about, as long as the uptime does not run backwards, every register access of any address and width returns 0 and every callout handler
  returns: no assertion on the routing of an asserted interrupt, on the rate of a one-shot timer or on a callout of a stopped counter fails.\<close>

theorem hpet_never_panics:
  assumes "0 < bttosbt T (FREQ2BT T HPET_FREQ)" "hpet_reachable T now vh" "now \<le> t" "n < VHPET_NUM_TIMERS"
  shows "(\<exists>vh'. vhpet_mmio_write t vh gpa val sz = Some (0, vh')) \<and> (\<exists>val. vhpet_mmio_read t vh gpa sz = Some (0, val)) \<and> (\<exists>vh'. vhpet_handler t n vh = Some vh')"
proof -
  have "hpet_ok t vh" by (rule hpet_ok_later [OF hpet_reachable_ok [OF assms(2,1)] assms(3)])
  then show ?thesis using mmio_write_ok mmio_read_ok handler_ok assms(4) by blast
qed

text \<open>A machine whose guest has enabled the counter.\<close>

definition hpet_demo :: vhpet where
  "hpet_demo = vhpet_init fixed_point_time vio_demo"

lemma fixed_point_freq: "bttosbt fixed_point_time (FREQ2BT fixed_point_time HPET_FREQ) = 256"
  by (simp add: fixed_point_time_def nat_bt_def bt_nat_def unat_of_nat)

lemma hpet_demo_reachable: "hpet_reachable fixed_point_time 0 hpet_demo"
  unfolding hpet_demo_def by (rule hpet_reachable.init)

theorem hpet_never_panics_witness:
  "(\<exists>vh'. vhpet_mmio_write 1000 hpet_demo 0xfed00010 1 4 = Some (0, vh')) \<and> (\<exists>val. vhpet_mmio_read 1000 hpet_demo 0xfed00010 4 = Some (0, val)) \<and>
   (\<exists>vh'. vhpet_handler 1000 3 hpet_demo = Some vh')"
  by (rule hpet_never_panics [OF _ hpet_demo_reachable]) (simp_all add: fixed_point_freq)

text \<open>C8. The lines of the HPET balance. Whatever a register write or a callout handler does, it changes the assert count of a pin of the I/O APIC by exactly
  the change in the number of timers that hold the pin with a level interrupt, and a timer with its status bit set is always routed to a pin as a level
  interrupt; so a line never stays up without a timer that a guest can clear, and no timer takes down the line of another.\<close>

theorem hpet_lines_balance:
  assumes "0 < bttosbt T (FREQ2BT T HPET_FREQ)" "hpet_reachable T now vh" "now \<le> t"
    "vhpet_mmio_write t vh gpa val sz = Some (ret, vh') \<or> n < VHPET_NUM_TIMERS \<and> vhpet_handler t n vh = Some vh'"
  shows "pin_acnt (vh_vio vh') p - pin_acnt (vh_vio vh) p = hpet_line vh' p - hpet_line vh p \<and> (bit (vh_isr vh') k \<longrightarrow> line_up vh' k)"
proof -
  have ok: "hpet_ok t vh" by (rule hpet_ok_later [OF hpet_reachable_ok [OF assms(2,1)] assms(3)])
  have "hpet_ok t vh' \<and> (\<forall>p. others vh' p = others vh p)" using assms(4) mmio_write_ok [OF ok, of gpa val sz] handler_ok [OF ok, of n] by auto
  then show ?thesis by (auto simp: others_def hpet_ok_def hpet_base_def dest!: spec [of _ p])
qed

theorem hpet_lines_balance_witness:
  "\<exists>vh'. vhpet_mmio_write 1000 hpet_demo 0xfed00100 0x3006 4 = Some (0, vh') \<and>
     pin_acnt (vh_vio vh') 24 - pin_acnt (vh_vio hpet_demo) 24 = hpet_line vh' 24 - hpet_line hpet_demo 24 \<and> (bit (vh_isr vh') 0 \<longrightarrow> line_up vh' 0)"
proof -
  have ok: "hpet_ok 1000 hpet_demo" unfolding hpet_demo_def by (rule init_ok) (simp add: fixed_point_freq)
  obtain vh' where w: "vhpet_mmio_write 1000 hpet_demo 0xfed00100 0x3006 4 = Some (0, vh')"
    using mmio_write_ok [OF ok, of "0xfed00100" "0x3006" 4] by auto
  have "pin_acnt (vh_vio vh') 24 - pin_acnt (vh_vio hpet_demo) 24 = hpet_line vh' 24 - hpet_line hpet_demo 24 \<and> (bit (vh_isr vh') 0 \<longrightarrow> line_up vh' 0)"
    by (rule hpet_lines_balance [OF _ hpet_demo_reachable, of 1000 "0xfed00100" "0x3006" 4 0]) (simp_all add: fixed_point_freq w)
  with w show ?thesis by blast
qed

text \<open>C37. A periodic timer is re-armed in phase and without missing its period. Starting it moves the comparator by a whole number of periods to the first
  value after the counter, at most one period ahead, whatever wraps around in 32 bits, and sets the callout to the time at which the counter gets there.\<close>

theorem hpet_periodic_phase:
  assumes "ht_comprate (vh_timer vh n) \<noteq> 0"
  shows "\<exists>vh' k. vhpet_start_timer n counter now vh = Some vh' \<and>
    ht_compval (vh_timer vh' n) = ht_compval (vh_timer vh n) + of_nat k * ht_comprate (vh_timer vh n) \<and>
    0 < uint (ht_compval (vh_timer vh' n) - counter) \<and> uint (ht_compval (vh_timer vh' n) - counter) \<le> uint (ht_comprate (vh_timer vh n)) \<and>
    ht_callout (vh_timer vh' n) = callout_reset_sbt (ht_callout (vh_timer vh n)) (now + uint (ht_compval (vh_timer vh' n) - counter) * vh_freq_sbt vh)"
proof -
  define c where "c = ht_compval (vh_timer vh n)"
  define r where "r = ht_comprate (vh_timer vh n)"
  define d where "d = counter - c"
  define x where "x = c + (d div r + 1) * r"
  have "uint r \<noteq> 0" "0 \<le> uint r" using assms by (simp_all add: r_def unsigned_eq_0_iff)
  then have r0: "0 < uint r" by linarith
  have "x - counter = r - d mod r" unfolding x_def using word_mod_div_equality [of d r] by (simp add: d_def algebra_simps)
  moreover have m: "uint (d mod r) = uint d mod uint r" by (simp add: uint_mod)
  moreover have "uint d mod uint r < uint r" "0 \<le> uint d mod uint r" using r0 by simp_all
  ultimately have u: "uint (x - counter) = uint r - uint d mod uint r" using uint_sub_lem [of "d mod r" r] by simp
  define v where "v = upd_timer n (\<lambda>t. t\<lparr>ht_callout_sbt := now + uint (x - counter) * vh_freq_sbt vh,
      ht_callout := callout_reset_sbt (ht_callout t) (now + uint (x - counter) * vh_freq_sbt vh)\<rparr>) (upd_timer n (\<lambda>t. t\<lparr>ht_compval := x\<rparr>) vh)"
  have S: "vhpet_start_timer n counter now vh = Some v"
    using assms by (simp add: vhpet_start_timer_def vhpet_adjust_compval_def Let_def v_def x_def d_def c_def r_def)
  have "ht_compval (vh_timer v n) = x" "x = c + of_nat (unat (d div r + 1)) * r"
    "ht_callout (vh_timer v n) = callout_reset_sbt (ht_callout (vh_timer vh n)) (now + uint (x - counter) * vh_freq_sbt vh)"
    by (simp_all add: v_def x_def)
  moreover have "0 < uint (x - counter)" "uint (x - counter) \<le> uint r" using u r0 by simp_all
  ultimately show ?thesis using S unfolding c_def [symmetric] r_def [symmetric] by metis
qed

text \<open>A timer of rate 100 whose counter has run past its comparator.\<close>

theorem hpet_periodic_phase_witness:
  "\<exists>vh' k. vhpet_start_timer 0 0x20 1000 (upd_timer 0 (\<lambda>t. t\<lparr>ht_comprate := 100\<rparr>) hpet_demo) = Some vh' \<and>
     ht_compval (vh_timer vh' 0) = 0xffffffff + of_nat k * 100 \<and> 0 < uint (ht_compval (vh_timer vh' 0) - 0x20) \<and> uint (ht_compval (vh_timer vh' 0) - 0x20) \<le> 100"
proof -
  have "ht_comprate (vh_timer (upd_timer 0 (\<lambda>t. t\<lparr>ht_comprate := 100\<rparr>) hpet_demo) 0) \<noteq> 0" by simp
  from hpet_periodic_phase [OF this, of "0x20" 1000] show ?thesis
    by (auto simp: hpet_demo_def vhpet_init_def Let_def timer_init_def)
qed

section \<open>The counter over a stop\<close>

text \<open>What the value of the counter depends on.\<close>

definition clock_part :: "vhpet \<Rightarrow> u64 \<times> int \<times> u32 \<times> int" where
  "clock_part vh = (vh_config vh, vh_freq_sbt vh, vh_countbase vh, vh_countbase_sbt vh)"

lemma interrupt_clock: "vhpet_timer_interrupt n vh = Some vh' \<Longrightarrow> clock_part vh' = clock_part vh"
  by (auto simp: vhpet_timer_interrupt_def clock_part_def Let_def bind_eq_Some_conv split: if_splits)

lemma stop_timer_clock: "vhpet_stop_timer n now vh = Some vh' \<Longrightarrow> clock_part vh' = clock_part vh"
  by (auto simp: vhpet_stop_timer_def Let_def clock_part_def [of "upd_timer _ _ _"] clock_part_def [of vh] dest: interrupt_clock split: if_splits)

lemma start_timer_clock: "vhpet_start_timer n counter now vh = Some vh' \<Longrightarrow> clock_part vh' = clock_part vh"
  by (rule start_timer_form [of n counter now vh]) (auto simp: clock_part_def)

lemma for_timers_clock:
  assumes "\<And>n vh vh'. f n vh = Some vh' \<Longrightarrow> clock_part vh' = clock_part vh" "for_timers f ns vh = Some vh'"
  shows "clock_part vh' = clock_part vh"
  using assms(2) by (induction ns arbitrary: vh) (auto simp: bind_eq_Some_conv dest: assms(1))

text \<open>Stopping the counter freezes it and starting it goes on from there. When a guest clears the enable bit at one time and sets it again at a later
  one, the counter read after that is the value at the stop plus the ticks since the restart, none lost and none added, truncated to 32 bits.\<close>

theorem hpet_counter_resumes:
  assumes "vhpet_counter_enabled vh" "vh_freq_sbt vh \<noteq> 0" "vhpet_counter t1 vh False = Some c" "vhpet_mmio_write t1 vh 0xfed00010 0 4 = Some (r1, vh1)"
    "vhpet_mmio_write t2 vh1 0xfed00010 1 4 = Some (r2, vh2)" "t2 \<le> t3"
  shows "vhpet_mmio_read t3 vh2 0xfed000f0 4 = Some (0, ucast (c + of_int ((t3 - t2) div vh_freq_sbt vh)))"
proof -
  have c: "vhpet_counter t1 vh True = Some c" using assms(1,3) by (simp add: vhpet_counter_def)
  have u: "\<not> bit (update_register x 0 0xffffffff AND NOT HPET_CNF_LEG_RT) 0" "bit (update_register x 1 0xffffffff AND NOT HPET_CNF_LEG_RT) 0" for x
    by (simp_all add: update_register_def bit_or_iff bit_and_iff bit_not_iff)
  note en = vhpet_counter_enabled_def and_1_bit
  have a: "access_mask (ucast (0xfed00010 - VHPET_BASE)) v 4 = Some (v, 0xffffffff)" "(ucast (0xfed00010 - VHPET_BASE) :: u32) = HPET_CONFIG" for v
    by (simp_all add: access_mask_def)
  have w: "vhpet_mmio_write t v 0xfed00010 x 4 = map_option (Pair 0) (write_config t x 0xffffffff v)" for t v x
    by (simp add: vhpet_mmio_write_def access_mask_def)
  define v1 where "v1 = vh\<lparr>vh_config := update_register (vh_config vh) 0 0xffffffff AND NOT HPET_CNF_LEG_RT\<rparr>"
  have "write_config t1 0 0xffffffff vh = Some vh1" using assms(4) unfolding w by auto
  then have "vhpet_stop_counting c t1 v1 = Some vh1"
    using assms(1) c u(1) [of "vh_config vh"] unfolding write_config_def Let_def v1_def [symmetric] by (simp add: en bit_xor_iff v1_def)
  then have p1: "clock_part vh1 = clock_part (v1\<lparr>vh_countbase := c\<rparr>)" unfolding vhpet_stop_counting_def by (rule for_timers_clock [rotated]) (rule stop_timer_clock)
  have e1: "\<not> vhpet_counter_enabled vh1" "vh_countbase vh1 = c" "vh_freq_sbt vh1 = vh_freq_sbt vh" using p1 u(1) by (simp_all add: clock_part_def en v1_def)
  define v2 where "v2 = vh1\<lparr>vh_config := update_register (vh_config vh1) 1 0xffffffff AND NOT HPET_CNF_LEG_RT\<rparr>"
  have "write_config t2 1 0xffffffff vh1 = Some vh2" using assms(5) unfolding w by auto
  then have "vhpet_start_counting t2 v2 = Some vh2"
    using e1 u(2) [of "vh_config vh1"] unfolding write_config_def Let_def v2_def [symmetric] by (simp add: en bit_xor_iff v2_def vhpet_counter_def)
  then have p2: "clock_part vh2 = clock_part (v2\<lparr>vh_countbase_sbt := t2\<rparr>)" unfolding vhpet_start_counting_def by (rule for_timers_clock [rotated]) (rule start_timer_clock)
  have e2: "vhpet_counter_enabled vh2" "vh_countbase vh2 = c" "vh_freq_sbt vh2 = vh_freq_sbt vh" "vh_countbase_sbt vh2 = t2"
    using p2 u(2) e1 by (simp_all add: clock_part_def en v2_def)
  then have "vhpet_counter t3 vh2 False = Some (c + of_int ((t3 - t2) div vh_freq_sbt vh))" using assms(2,6) by (simp add: vhpet_counter_def)
  then show ?thesis by (simp add: vhpet_mmio_read_def access_mask_def vhpet_read_reg_def)
qed

theorem hpet_counter_resumes_witness:
  "\<exists>vh1 vh2. vhpet_mmio_write 2560 (hpet_demo\<lparr>vh_config := 1\<rparr>) 0xfed00010 0 4 = Some (0, vh1) \<and> vhpet_mmio_write 10000 vh1 0xfed00010 1 4 = Some (0, vh2) \<and>
     vhpet_mmio_read 10512 vh2 0xfed000f0 4 = Some (0, 12)"
proof -
  define v where "v = hpet_demo\<lparr>vh_config := 1\<rparr>"
  have f: "vh_freq_sbt v = 256" "vhpet_counter_enabled v" "vhpet_counter 2560 v False = Some 10"
    by (simp_all add: v_def hpet_demo_def vhpet_init_def Let_def fixed_point_freq vhpet_counter_def vhpet_counter_enabled_def)
  have ok: "hpet_ok 2560 v" by (simp add: v_def hpet_demo_def vhpet_init_def Let_def fixed_point_freq hpet_ok_def hpet_base_def callouts_ok_def timer_init_def vhpet_counter_enabled_def)
  obtain vh1 where w1: "vhpet_mmio_write 2560 v 0xfed00010 0 4 = Some (0, vh1)" "hpet_ok 2560 vh1" using mmio_write_ok [OF ok, of "0xfed00010" 0 4] by auto
  obtain vh2 where w2: "vhpet_mmio_write 10000 vh1 0xfed00010 1 4 = Some (0, vh2)"
    using mmio_write_ok [OF hpet_ok_later [OF w1(2)], of 10000 "0xfed00010" 1 4] by auto
  have "vhpet_mmio_read 10512 vh2 0xfed000f0 4 = Some (0, ucast (10 + of_int ((10512 - 10000) div vh_freq_sbt v) :: u32))"
    by (rule hpet_counter_resumes [OF f(2) _ f(3) w1(1) w2]) (simp_all add: f)
  then have "vhpet_mmio_read 10512 vh2 0xfed000f0 4 = Some (0, 12)" unfolding f by simp
  then show ?thesis using w1(1) w2 unfolding v_def by blast
qed

end
