(* ===== verification/Kernel_Mmio.thy ===== *)
theory Kernel_Mmio
  imports Emul_Safe Vhpet
begin

text \<open>
  The devices that \<^verbatim>\<open>vm_handle_inst_emul\<close> of \<^verbatim>\<open>vmm/vmm.c\<close> serves in the kernel, behind the emulation of
  instructions: local APIC, I/O APIC and HPET of one machine, as callbacks over its state. The EOI of a level-triggered interrupt that
  a write to the local APIC records is carried out on the I/O APIC. The locales of \<open>Emul_Safe\<close> are interpreted here.
\<close>

section \<open>Callbacks\<close>

record kernel_devices =
  kd_hpet :: vhpet
  kd_retu :: bool

text \<open>The end-of-interrupt messages among the events of a vcpu.\<close>

fun eoi_vectors :: "Vlapic.vcpu_event list \<Rightarrow> nat list" where
  "eoi_vectors [] = []"
| "eoi_vectors (Ioapic_eoi v # evs) = v # eoi_vectors evs"
| "eoi_vectors (_ # evs) = eoi_vectors evs"

fun process_eois :: "nat list \<Rightarrow> vioapic \<Rightarrow> vioapic option" where
  "process_eois [] vio = Some vio"
| "process_eois (v # vs) vio = do { vio \<leftarrow> vioapic_process_eoi vio v; process_eois vs vio }"

definition lapic_ops :: "time_ops \<Rightarrow> bintime \<Rightarrow> nat \<Rightarrow> kernel_devices memops" where
  "lapic_ops T now cpu =
     \<lparr>op_read = (\<lambda>d gpa sz. case lapic_mmio_read T now (vi_vm (vh_vio (kd_hpet d))) cpu gpa of
                   (error, val) \<Rightarrow> Some (error, case val of Some v \<Rightarrow> v | None \<Rightarrow> 0, d)),
      op_write = (\<lambda>d gpa val sz. do {
        let vh = kd_hpet d;
        let vio = vh_vio vh;
        let old = vl_events (vm_lapics (vi_vm vio) cpu);
        (error, retu, vm) \<leftarrow> lapic_mmio_write T now (vi_vm vio) cpu gpa val sz;
        vio \<leftarrow> process_eois (eoi_vectors (drop (length old) (vl_events (vm_lapics vm cpu)))) (vio\<lparr>vi_vm := vm\<rparr>);
        Some (error, d\<lparr>kd_hpet := vh\<lparr>vh_vio := vio\<rparr>, kd_retu := kd_retu d \<or> retu\<rparr>)
      }),
      op_retu = kd_retu\<rparr>"

definition vioapic_ops :: "kernel_devices memops" where
  "vioapic_ops =
     \<lparr>op_read = (\<lambda>d gpa sz. do { (error, val) \<leftarrow> vioapic_mmio_read (vh_vio (kd_hpet d)) gpa sz; Some (error, val, d) }),
      op_write = (\<lambda>d gpa val sz. do {
        (error, vio) \<leftarrow> vioapic_mmio_write (vh_vio (kd_hpet d)) gpa val sz;
        Some (error, d\<lparr>kd_hpet := (kd_hpet d)\<lparr>vh_vio := vio\<rparr>\<rparr>)
      }),
      op_retu = kd_retu\<rparr>"

definition hpet_ops :: "int \<Rightarrow> kernel_devices memops" where
  "hpet_ops now =
     \<lparr>op_read = (\<lambda>d gpa sz. do { (error, val) \<leftarrow> vhpet_mmio_read now (kd_hpet d) gpa sz; Some (error, val, d) }),
      op_write = (\<lambda>d gpa val sz. do { (error, vh) \<leftarrow> vhpet_mmio_write now (kd_hpet d) gpa val sz; Some (error, d\<lparr>kd_hpet := vh\<rparr>) }),
      op_retu = kd_retu\<rparr>"

section \<open>The controllers keep the local APICs consistent\<close>

abbreviation vio_keeps :: "vioapic \<Rightarrow> vioapic \<Rightarrow> bool" where
  "vio_keeps vio vio' \<equiv> vm_keeps (vi_vm vio) (vi_vm vio')"

lemma send_intr_keeps: "vioapic_send_intr vio pin = Some vio' \<Longrightarrow> vio_keeps vio vio'"
  by (rule send_intr_spec [of vio pin]) (auto simp: pin_deliver_def dest: deliver_vm_keeps split: if_splits)

lemma set_pinstate_keeps: "vioapic_set_pinstate vio pin b = Some vio' \<Longrightarrow> vio_keeps vio vio'"
  by (auto simp: vioapic_set_pinstate_def Let_def dest!: send_intr_keeps split: if_splits)

lemma set_irqstate_keeps: "vioapic_set_irqstate vio irq st = Some (ret, vio') \<Longrightarrow> vio_keeps vio vio'"
  by (cases st) (auto simp: vioapic_set_irqstate_def bind_eq_Some_conv dest: set_pinstate_keeps intro: vm_keeps_trans split: if_splits)

lemma update_tmr_pins_keeps: "update_tmr_pins vio cpu pins vm = Some vm' \<Longrightarrow> vm_keeps vm vm'"
  by (induction pins arbitrary: vm) (auto simp: Let_def bind_eq_Some_conv dest: set_tmr_level_vm_keeps intro: vm_keeps_trans split: if_splits)

lemma rendezvous_keeps: "rendezvous_update_tmr cpus vio = Some vio' \<Longrightarrow> vio_keeps vio vio'"
proof (induction cpus arbitrary: vio)
  case (Cons cpu cpus)
  obtain vm where u: "update_tmr_pins vio cpu [0..<REDIR_ENTRIES] (upd_lapic cpu vlapic_reset_tmr (vi_vm vio)) = Some vm"
      "rendezvous_update_tmr cpus (vio\<lparr>vi_vm := vm\<rparr>) = Some vio'"
    using Cons.prems by (auto simp: vioapic_update_tmr_def bind_eq_Some_conv)
  have "vm_keeps (vi_vm vio) (upd_lapic cpu vlapic_reset_tmr (vi_vm vio))" by (rule vm_keeps_upd) (rule reset_tmr_keeps)
  then have "vm_keeps (vi_vm vio) vm" using update_tmr_pins_keeps [OF u(1)] vm_keeps_trans by blast
  then show ?case using Cons.IH [OF u(2)] vm_keeps_trans by simp
qed simp

lemma rtbl_write_keeps: "rtbl_write vio pin lshift data = Some vio' \<Longrightarrow> vio_keeps vio vio'"
  by (auto simp: rtbl_write_def Let_def bind_eq_Some_conv dest!: send_intr_keeps rendezvous_keeps intro: vm_keeps_trans split: if_splits)

lemma vioapic_write_keeps: "vioapic_write vio addr data = Some vio' \<Longrightarrow> vio_keeps vio vio'"
  by (auto simp: vioapic_write_def Let_def dest!: rtbl_write_keeps split: if_splits)

lemma vioapic_mmio_write_keeps: "vioapic_mmio_write vio gpa val sz = Some (ret, vio') \<Longrightarrow> ret = 0 \<and> vio_keeps vio vio'"
  by (auto simp: vioapic_mmio_write_def vioapic_mmio_rw_def Let_def bind_eq_Some_conv dest!: vioapic_write_keeps split: if_splits)

lemma eoi_pins_keeps: "eoi_pins v pins vio = Some vio' \<Longrightarrow> vio_keeps vio vio'"
proof (induction pins arbitrary: vio)
  case (Cons pin pins)
  show ?case
  proof (cases "rt_reg (vi_rtbl vio pin) AND IOART_REM_IRR = 0 \<or> rtbl_vector (rt_reg (vi_rtbl vio pin)) \<noteq> v")
    case True
    then show ?thesis using Cons by (auto split: if_splits)
  next
    case False
    obtain w x where x: "(if rt_acnt (vi_rtbl vio pin) > 0 then vioapic_send_intr w pin else Some w) = Some x" "eoi_pins v pins x = Some vio'"
        "vi_vm w = vi_vm vio"
      using Cons.prems False by (auto simp: Let_def bind_eq_Some_conv)
    have "vio_keeps w x" using x(1) by (auto dest: send_intr_keeps split: if_splits)
    then show ?thesis using Cons.IH [OF x(2)] x(3) vm_keeps_trans by metis
  qed
qed simp

lemma process_eois_ok: "\<exists>vio'. process_eois vs vio = Some vio' \<and> vio_keeps vio vio'"
proof (induction vs arbitrary: vio)
  case (Cons v vs)
  obtain w where w: "vioapic_process_eoi vio v = Some w" by (rule process_eoi_spec [of vio v])
  then have "vio_keeps vio w" by (simp add: vioapic_process_eoi_def eoi_pins_keeps)
  then show ?case using w Cons.IH [of w] vm_keeps_trans by auto
qed simp

section \<open>So does the HPET\<close>

abbreviation hpet_keeps :: "vhpet \<Rightarrow> vhpet \<Rightarrow> bool" where
  "hpet_keeps vh vh' \<equiv> vio_keeps (vh_vio vh) (vh_vio vh')"

lemma msi_keeps: "lapic_intr_msi vm addr msg = Some (ret, vm') \<Longrightarrow> vm_keeps vm vm'"
  by (auto simp: lapic_intr_msi_def Let_def bind_eq_Some_conv dest: deliver_vm_keeps split: if_splits)

lemma interrupt_keeps: "vhpet_timer_interrupt n vh = Some vh' \<Longrightarrow> hpet_keeps vh vh'"
  by (auto simp: vhpet_timer_interrupt_def Let_def bind_eq_Some_conv vioapic_pulse_irq_def vioapic_assert_irq_def
    dest: set_irqstate_keeps msi_keeps split: if_splits)

lemma clear_isr_keeps: "vhpet_timer_clear_isr n vh = Some vh' \<Longrightarrow> hpet_keeps vh vh'"
  by (auto simp: vhpet_timer_clear_isr_def Let_def bind_eq_Some_conv vioapic_deassert_irq_def dest: set_irqstate_keeps split: if_splits)

lemma stop_timer_keeps: "vhpet_stop_timer n now vh = Some vh' \<Longrightarrow> hpet_keeps vh vh'"
  by (auto simp: vhpet_stop_timer_def Let_def dest: interrupt_keeps split: if_splits)

lemma start_timer_keeps: "vhpet_start_timer n counter now vh = Some vh' \<Longrightarrow> hpet_keeps vh vh'"
  by (rule start_timer_form [of n counter now vh]) auto

lemma for_timers_keeps:
  assumes "\<And>n vh vh'. f n vh = Some vh' \<Longrightarrow> hpet_keeps vh vh'" "for_timers f ns vh = Some vh'"
  shows "hpet_keeps vh vh'"
  using assms(2) by (induction ns arbitrary: vh) (auto simp: bind_eq_Some_conv intro: vm_keeps_trans dest: assms(1))

lemma counting_keeps:
  "vhpet_start_counting now vh = Some vh' \<Longrightarrow> hpet_keeps vh vh'" "vhpet_stop_counting counter now vh = Some vh' \<Longrightarrow> hpet_keeps vh vh'"
  unfolding vhpet_start_counting_def vhpet_stop_counting_def
  using for_timers_keeps [of "\<lambda>i. vhpet_start_timer i (vh_countbase vh) now", OF start_timer_keeps] for_timers_keeps [of "\<lambda>i. vhpet_stop_timer i now", OF stop_timer_keeps]
  by fastforce+

lemma update_config_keeps: "vhpet_timer_update_config n data msk vh = Some vh' \<Longrightarrow> hpet_keeps vh vh'"
  by (auto simp: vhpet_timer_update_config_def Let_def bind_eq_Some_conv vioapic_deassert_irq_def apply_config_frame dest!: set_irqstate_keeps split: if_splits)

lemma register_keeps:
  "write_config now data msk vh = Some vh' \<Longrightarrow> hpet_keeps vh vh'" "write_isr data vh = Some vh' \<Longrightarrow> hpet_keeps vh vh'"
  "write_main_counter now data msk vh = Some vh' \<Longrightarrow> hpet_keeps vh vh'" "write_comparator now i data msk vh = Some vh' \<Longrightarrow> hpet_keeps vh vh'"
  subgoal by (auto simp: write_config_def Let_def bind_eq_Some_conv dest!: counting_keeps split: if_splits)
  subgoal unfolding write_isr_def Let_def by (rule for_timers_keeps [rotated]) (auto dest: clear_isr_keeps split: if_splits)
  subgoal by (auto simp: write_main_counter_def Let_def bind_eq_Some_conv dest!: counting_keeps split: if_splits)
  subgoal by (auto simp: write_comparator_def Let_def bind_eq_Some_conv dest!: start_timer_keeps split: if_splits)
  done

lemma hpet_mmio_write_keeps: "vhpet_mmio_write now vh gpa val sz = Some (ret, vh') \<Longrightarrow> hpet_keeps vh vh'"
  by (auto simp: vhpet_mmio_write_def Let_def dest: register_keeps update_config_keeps split: if_splits option.splits)

section \<open>The devices meet the contract\<close>

definition kernel_ok :: "int \<Rightarrow> kernel_devices \<Rightarrow> bool" where
  "kernel_ok now d \<longleftrightarrow> hpet_ok now (kd_hpet d) \<and> lapic_vm_inv (vi_vm (vh_vio (kd_hpet d)))"

lemma lapic_mmio_write_ok:
  assumes "lapic_vm_inv vm"
  shows "\<exists>error retu vm'. lapic_mmio_write T now vm cpu gpa val sz = Some (error, retu, vm') \<and> lapic_vm_inv vm'"
proof -
  obtain error retu vm' where "vlapic_write T now vm cpu True (unat (gpa - DEFAULT_APIC_BASE)) val = Some (error, retu, vm')"
    using write_None [OF assms, of T now cpu True "unat (gpa - DEFAULT_APIC_BASE)" val] by auto
  then show ?thesis using assms write_inv [OF assms] by (fastforce simp: lapic_mmio_write_def Let_def)
qed

lemma keeps_kernel_ok:
  assumes "kernel_ok now d" "hpet_ok now vh" "hpet_keeps (kd_hpet d) vh"
  shows "kernel_ok now (d\<lparr>kd_hpet := vh\<rparr>)"
  using assms vm_keeps_inv [OF assms(3)] by (simp add: kernel_ok_def)

lemma vioapic_mmio_read_ok: "\<exists>val. vioapic_mmio_read vio gpa sz = Some (0, val)"
  by (simp add: vioapic_mmio_read_def vioapic_mmio_rw_def Let_def)

interpretation lapic_dev: mmio_device "lapic_ops T bt cpu" "kernel_ok now"
proof
  fix d gpa sz val
  assume good: "kernel_ok now d"
  show "\<exists>error val d'. op_read (lapic_ops T bt cpu) d gpa sz = Some (error, val, d') \<and> kernel_ok now d'"
    using good by (simp add: lapic_ops_def split: prod.split)
  define vio where "vio = vh_vio (kd_hpet d)"
  obtain error retu vm where w: "lapic_mmio_write T bt (vi_vm vio) cpu gpa val sz = Some (error, retu, vm)" "lapic_vm_inv vm"
    using lapic_mmio_write_ok good unfolding kernel_ok_def vio_def by blast
  obtain vio' where e: "process_eois (eoi_vectors (drop (length (vl_events (vm_lapics (vi_vm vio) cpu))) (vl_events (vm_lapics vm cpu)))) (vio\<lparr>vi_vm := vm\<rparr>) = Some vio'"
      "vm_keeps vm (vi_vm vio')"
    using process_eois_ok [of _ "vio\<lparr>vi_vm := vm\<rparr>"] by fastforce
  show "\<exists>error d'. op_write (lapic_ops T bt cpu) d gpa val sz = Some (error, d') \<and> kernel_ok now d'"
    using w e good vm_keeps_inv [OF e(2)] by (simp add: lapic_ops_def vio_def Let_def kernel_ok_def machine_ok)
qed

interpretation vioapic_dev: quiet_device vioapic_ops "kernel_ok now"
proof
  fix d gpa sz val
  assume good: "kernel_ok now d"
  obtain val where r: "vioapic_mmio_read (vh_vio (kd_hpet d)) gpa sz = Some (0, val)" using vioapic_mmio_read_ok by blast
  then show "\<exists>error val d'. op_read vioapic_ops d gpa sz = Some (error, val, d') \<and> kernel_ok now d'"
    using good by (simp add: vioapic_ops_def)
  show "error \<in> {0, EFAULT}" if "op_read vioapic_ops d gpa sz = Some (error, val, d')" for error val d'
    using that r by (simp add: vioapic_ops_def)
next
  fix d gpa sz val
  assume good: "kernel_ok now d"
  obtain ret vio where w: "vioapic_mmio_write (vh_vio (kd_hpet d)) gpa val sz = Some (ret, vio)" using mmio_write_Some by blast
  then have k: "ret = 0" "vio_keeps (vh_vio (kd_hpet d)) vio" using vioapic_mmio_write_keeps by blast+
  then have "kernel_ok now (d\<lparr>kd_hpet := (kd_hpet d)\<lparr>vh_vio := vio\<rparr>\<rparr>)" using good by (intro keeps_kernel_ok) (simp_all add: kernel_ok_def machine_ok)
  then show "\<exists>error d'. op_write vioapic_ops d gpa val sz = Some (error, d') \<and> kernel_ok now d'" using w by (simp add: vioapic_ops_def)
  show "error \<in> {0, EFAULT}" if "op_write vioapic_ops d gpa val sz = Some (error, d')" for error d'
    using that w k(1) by (simp add: vioapic_ops_def)
qed

interpretation hpet_dev: quiet_device "hpet_ops now" "kernel_ok now"
proof
  fix d gpa sz
  assume good: "kernel_ok now d"
  obtain val where r: "vhpet_mmio_read now (kd_hpet d) gpa sz = Some (0, val)" using mmio_read_ok good unfolding kernel_ok_def by blast
  then show "\<exists>error val d'. op_read (hpet_ops now) d gpa sz = Some (error, val, d') \<and> kernel_ok now d'"
    using good by (simp add: hpet_ops_def)
  show "error \<in> {0, EFAULT}" if "op_read (hpet_ops now) d gpa sz = Some (error, val, d')" for error val d'
    using that r by (simp add: hpet_ops_def)
next
  fix d gpa sz val
  assume good: "kernel_ok now d"
  obtain vh where w: "vhpet_mmio_write now (kd_hpet d) gpa val sz = Some (0, vh)" "hpet_ok now vh"
    using mmio_write_ok good unfolding kernel_ok_def by blast
  then have "kernel_ok now (d\<lparr>kd_hpet := vh\<rparr>)" using keeps_kernel_ok [OF good] hpet_mmio_write_keeps by blast
  then show "\<exists>error d'. op_write (hpet_ops now) d gpa val sz = Some (error, d') \<and> kernel_ok now d'" using w by (simp add: hpet_ops_def)
  show "error \<in> {0, EFAULT}" if "op_write (hpet_ops now) d gpa val sz = Some (error, d')" for error d'
    using that w by (simp add: hpet_ops_def)
qed

section \<open>The handler of the exit\<close>

text \<open>The instruction that the handler decodes: fetched from the guest unless the exit brought its bytes.\<close>

definition current_insn :: "vm_host \<Rightarrow> vm_mem \<Rightarrow> inst_emul \<Rightarrow> vie \<Rightarrow> 'd emul \<Rightarrow> (int \<times> bool \<times> vie \<times> 'd emul) option" where
  "current_insn H vm ie vie st =
     (if v_num_valid vie = 0 then vmm_fetch_instruction H vm (ie_paging ie) (ie_rip ie + ie_cs_base ie) VIE_INST_SIZE vie st
      else Some (0, False, vie, st))"

definition lapic_page :: "u64 \<Rightarrow> bool" where
  "lapic_page gpa \<longleftrightarrow> DEFAULT_APIC_BASE \<le> gpa \<and> gpa < DEFAULT_APIC_BASE + 4096"

definition decodes_movs :: "vm_host \<Rightarrow> vm_mem \<Rightarrow> inst_emul \<Rightarrow> vie \<Rightarrow> 'd emul \<Rightarrow> bool" where
  "decodes_movs H vm ie vie st \<longleftrightarrow> (case current_insn H vm ie vie st of
     Some (error, fault, vie, st) \<Rightarrow> error = 0 \<and> \<not> fault \<and>
       (case vmm_decode_instruction (e_vc st) (ie_gla ie) (pg_cpu_mode (ie_paging ie)) (ie_cs_d ie) vie of
          Some (Some vie) \<Rightarrow> op_type (v_op vie) = VIE_OP_TYPE_MOVS | _ \<Rightarrow> False)
   | None \<Rightarrow> False)"

lemma current_insn_ok:
  assumes "injectable (e_vc st)" "vie_init bs = Some vie"
  obtains error fault vie' st' where "current_insn H vm ie vie st = Some (error, fault, vie', st')" "e_dev st' = e_dev st"
    "error = 0 \<and> \<not> fault \<Longrightarrow> e_vc st' = e_vc st \<and> (\<exists>bs. vie_init bs = Some vie')"
proof (cases "v_num_valid vie = 0")
  case False
  then show ?thesis using that [of 0 False vie st] assms(2) by (auto simp: current_insn_def)
next
  case True
  then have v: "vie_init [] = Some vie" using assms(2) by (auto simp: vie_init_def split: if_split_asm)
  have l: "VIE_INST_SIZE \<le> 4096" by simp
  obtain error fault infos vc m where c: "vm_copy_setup H vm (ie_paging ie) (ie_rip ie + ie_cs_base ie) VIE_INST_SIZE (PROT_READ OR PROT_EXEC) (e_vc st, e_mem st)
      = Some (error, fault, infos, vc, m)" "error \<in> {0, EFAULT} \<and> (error \<noteq> 0 \<longrightarrow> \<not> fault)" "if fault then exception_pending vc else vc = e_vc st"
    by (rule ends_wellE [OF copy_setup_end [OF assms(1) l]])
  show ?thesis
  proof (cases "error = 0 \<and> \<not> fault")
    case True
    then have "pieces_ok VIE_INST_SIZE infos" using copy_setup_pieces [OF _ l] c(1) by simp
    from copyin_pieces [OF this, of m] obtain bs where b: "vm_copyin m infos VIE_INST_SIZE = Some bs" "length bs = VIE_INST_SIZE" by blast
    have "vie_init bs = Some (vie\<lparr>v_inst := (\<lambda>i. if i < VIE_INST_SIZE then bs ! i else v_inst vie i), v_num_valid := VIE_INST_SIZE\<rparr>)" (is "_ = Some ?w")
      using v b(2) by (auto simp: vie_init_def fun_eq_iff)
    with b c True \<open>v_num_valid vie = 0\<close> show ?thesis
      by (intro that [of 0 False ?w "st\<lparr>e_mem := m\<rparr>"]) (auto simp: current_insn_def vmm_fetch_instruction_def)
  next
    case False
    with c \<open>v_num_valid vie = 0\<close> show ?thesis
      by (intro that [of error fault vie "st\<lparr>e_vc := vc, e_mem := m\<rparr>"]) (auto simp: current_insn_def vmm_fetch_instruction_def)
  qed
qed

lemma emul_ready_length: "emul_ready paging (vc\<lparr>exit_inst_length := n, nextrip := r\<rparr>) = emul_ready paging vc"
  by (simp add: emul_ready_def injectable_def segs_ok_def)

text \<open>On the device behind an address.\<close>

lemma kernel_device_safe:
  assumes "kernel_device (lapic_ops T bt cpu) vioapic_ops (hpet_ops now) gpa = Some ops" "kernel_ok now (e_dev s)" "emul_ready paging (e_vc s)"
    "decoded_ok (pg_cpu_mode paging) w"
  shows "case vmm_emulate_instruction rm_desc H vm ops gpa w paging s of
    Some (error, s') \<Rightarrow> kernel_ok now (e_dev s')
  | None \<Rightarrow> lapic_page gpa \<and> op_type (v_op w) = VIE_OP_TYPE_MOVS"
proof -
  have quiet: "safe (kernel_ok now) (vmm_emulate_instruction rm_desc H vm vioapic_ops gpa w paging s)"
    "safe (kernel_ok now) (vmm_emulate_instruction rm_desc H vm (hpet_ops now) gpa w paging s)"
    using vioapic_dev.emulate_safe [OF assms(2-4)] hpet_dev.emulate_safe [OF assms(2-4)] by blast+
  have lapic: "safe (kernel_ok now) (vmm_emulate_instruction rm_desc H vm (lapic_ops T bt cpu) gpa w paging s)" if "op_type (v_op w) \<noteq> VIE_OP_TYPE_MOVS"
    by (rule lapic_dev.emulate_safe_but_movs [OF assms(2-4)]) (simp add: that)
  have movs: "kernel_ok now (e_dev s')"
    if "vmm_emulate_instruction rm_desc H vm (lapic_ops T bt cpu) gpa w paging s = Some (e, s')" "op_type (v_op w) = VIE_OP_TYPE_MOVS" for e s'
    using lapic_dev.movs_good [OF assms(2)] that assms(2) by (auto simp: vmm_emulate_instruction_def split: if_split_asm)
  show ?thesis
    using assms(1) quiet lapic movs unfolding safe_def kernel_device_def lapic_page_def
    by (cases "op_type (v_op w) = VIE_OP_TYPE_MOVS") (auto split: option.splits if_split_asm)
qed


section \<open>A guest without paging\<close>

definition flat_paging :: vm_guest_paging where
  "flat_paging = \<lparr>pg_cr3 = 0, pg_cpl = 0, pg_cpu_mode = CPU_MODE_PROTECTED, pg_paging_mode = PAGING_MODE_FLAT\<rparr>"

definition emul_demo :: "kernel_devices emul" where
  "emul_demo = \<lparr>e_vc = vcpu_fresh, e_mem = (\<lambda>_. 0), e_dev = \<lparr>kd_hpet = hpet_demo, kd_retu = False\<rparr>\<rparr>"

definition exit_demo :: "u64 \<Rightarrow> inst_emul" where
  "exit_demo gpa = \<lparr>ie_rip = 0, ie_gla = gpa, ie_gpa = gpa, ie_cs_base = 0, ie_cs_d = True, ie_paging = flat_paging\<rparr>"

lemma emul_demo_ready:
  "kernel_ok 0 (e_dev emul_demo)" "emul_ready (ie_paging (exit_demo gpa)) (e_vc emul_demo)" "exit_inst_length (e_vc emul_demo) = 0"
proof -
  have "hpet_ok 0 hpet_demo" unfolding hpet_demo_def by (rule init_ok) (simp add: fixed_point_freq)
  then show "kernel_ok 0 (e_dev emul_demo)"
    using vm_demo_inv by (simp add: kernel_ok_def emul_demo_def) (simp add: hpet_demo_def vhpet_init_def Let_def vio_demo_def vioapic_init_def)
qed (simp_all add: emul_demo_def vcpu_fresh_def emul_ready_def injectable_def segs_ok_def exit_demo_def flat_paging_def
      SEG_DESC_PRESENT_def SEG_DESC_TYPE_def)


lemma flat_gla2gpa: "vm_gla2gpa H vm flat_paging gla prot (vc, m) = Some (0, False, gla, vc, m)"
  by (simp add: vm_gla2gpa_def gla2gpa_def flat_paging_def vie_canonical_check_def walk_passes.simps walk_pass_def numeral_2_eq_2)

lemma flat_copy_setup: "vm_copy_setup free_host flat_vm flat_paging 0 1 1 (vc, m) = Some (0, False, [(0, 1)], (vc, m))"
  by (simp add: vm_copy_setup_def copy_segments_1 flat_gla2gpa flat_hold)

lemma movsb_decodes:
  assumes "vie_init [0xA4] = Some vie"
  obtains w where "vmm_decode_instruction vc gla CPU_MODE_PROTECTED True vie = Some (Some w)" "v_op w = one_byte_opcodes 0xA4"
      "v_addrsize w = 4" "\<not> v_repz_present w" "\<not> v_repnz_present w" "\<not> v_segment_override w" "v_decoded w"
proof -
  have o: "op_type (one_byte_opcodes 0xA4) = VIE_OP_TYPE_MOVS" "op_flags (one_byte_opcodes 0xA4) AND VIE_OP_F_NO_MODRM \<noteq> 0"
      "op_flags (one_byte_opcodes 0xA4) AND VIE_OP_F_IMM = 0" "op_flags (one_byte_opcodes 0xA4) AND VIE_OP_F_IMM8 = 0"
      "op_flags (one_byte_opcodes 0xA4) AND VIE_OP_F_MOFFSET = 0" "op_flags (one_byte_opcodes 0xA4) AND VIE_OP_F_NO_GLA_VERIFICATION \<noteq> 0"
    by (simp_all add: one_byte_opcodes_def opcode_table_def one_byte_list_def)
  have v: "v_inst vie 0 = 0xA4" "v_num_valid vie = 1" "v_num_processed vie = 0" "v_op vie = op_none" "v_rm vie = 0" "v_disp_bytes vie = 0" "v_imm_bytes vie = 0"
      "\<not> v_repz_present vie" "\<not> v_repnz_present vie" "\<not> v_segment_override vie" "\<not> v_opsize_override vie" "\<not> v_addrsize_override vie"
    using assms by (auto simp: vie_init_def)
  have p: "vie_peek vie = Some 0xA4" using v(1-3) by (simp add: vie_peek_def)
  have "prefix_loop 1 vie = Some (0xA4, vie)" by (subst prefix_loop.simps) (simp add: p legacy_prefix_def segment_override_def)
  then have "decode_prefixes vie CPU_MODE_PROTECTED True = Some (Some (vie\<lparr>v_addrsize := 4, v_opsize := 4\<rparr>))"
    using v by (simp add: decode_prefixes_def rex_prefix_def default_sizes_def)
  moreover have "decode_opcode (vie\<lparr>v_addrsize := 4, v_opsize := 4\<rparr>) = Some (Some (vie\<lparr>v_addrsize := 4, v_opsize := 4, v_op := one_byte_opcodes 0xA4, v_num_processed := 1\<rparr>))"
    using v o(1) by (simp add: decode_opcode_def vie_peek_def op_none_def vie_advance_def Let_def)
  ultimately have "vmm_decode_instruction vc gla CPU_MODE_PROTECTED True vie =
      Some (Some (vie\<lparr>v_addrsize := 4, v_opsize := 4, v_op := one_byte_opcodes 0xA4, v_num_processed := 1, v_decoded := True\<rparr>))"
    using v o unfolding vmm_decode_instruction_def by (simp add: decode_modrm_def decode_sib_def decode_displacement_def decode_immediate_def decode_moffset_def Let_def)
  then show ?thesis using that v by simp
qed


end
