(* ===== verification/Vrtc.thy ===== *)
theory Vrtc
  imports Kernel_Time "HOL-Library.Monad_Syntax"
begin

text \<open>
  The real-time clock of \<^verbatim>\<open>vmm/io/vrtc.c\<close>: 128 bytes of registers and memory behind an index and a data port, a
  time that advances with the uptime, and periodic, alarm and update interrupts from one callout. The calendar of the kernel
  (\<^verbatim>\<open>clock_ts_to_ct\<close>, \<^verbatim>\<open>clock_ct_to_ts\<close>) is the parameter \<open>rtc_clock\<close>. The source writes the
  structure \<^verbatim>\<open>rtcdev\<close> through its fields and as an array of bytes; here it is the array, with the fields as offsets. A pulse of IRQ 8 at
  both controllers is counted. A failed assertion is \<open>None\<close>. Locks and traces are left out.
\<close>

section \<open>State\<close>

record clocktime =
  ct_year :: int
  ct_mon :: int
  ct_day :: int
  ct_hour :: int
  ct_min :: int
  ct_sec :: int
  ct_dow :: int

text \<open>\<open>ct_to_ts\<close> returns the error and the seconds.\<close>

record rtc_clock =
  ts_to_ct :: "int \<Rightarrow> clocktime"
  ct_to_ts :: "clocktime \<Rightarrow> int \<times> int"

type_synonym rtcdev = "nat \<Rightarrow> u8"

record vrtc =
  vr_callout :: callout
  vr_addr :: nat
  vr_base_uptime :: int
  vr_base_rtctime :: int
  vr_dev :: rtcdev
  vr_pulses :: nat

abbreviation (input) SBT_1S :: int where "SBT_1S \<equiv> 4294967296"
abbreviation (input) VRTC_BROKEN_TIME :: int where "VRTC_BROKEN_TIME \<equiv> - 1"
abbreviation (input) POSIX_BASE_YEAR :: int where "POSIX_BASE_YEAR \<equiv> 1970"
abbreviation (input) EBUSY :: int where "EBUSY \<equiv> 16"
abbreviation (input) RTC_SEC :: nat where "RTC_SEC \<equiv> 0"
abbreviation (input) RTC_SECALRM :: nat where "RTC_SECALRM \<equiv> 1"
abbreviation (input) RTC_MIN :: nat where "RTC_MIN \<equiv> 2"
abbreviation (input) RTC_MINALRM :: nat where "RTC_MINALRM \<equiv> 3"
abbreviation (input) RTC_HRS :: nat where "RTC_HRS \<equiv> 4"
abbreviation (input) RTC_HRSALRM :: nat where "RTC_HRSALRM \<equiv> 5"
abbreviation (input) RTC_WDAY :: nat where "RTC_WDAY \<equiv> 6"
abbreviation (input) RTC_DAY :: nat where "RTC_DAY \<equiv> 7"
abbreviation (input) RTC_MONTH :: nat where "RTC_MONTH \<equiv> 8"
abbreviation (input) RTC_YEAR :: nat where "RTC_YEAR \<equiv> 9"
abbreviation (input) RTC_STATUSA :: nat where "RTC_STATUSA \<equiv> 10"
abbreviation (input) RTC_STATUSB :: nat where "RTC_STATUSB \<equiv> 11"
abbreviation (input) RTC_INTR :: nat where "RTC_INTR \<equiv> 12"
abbreviation (input) RTC_STATUSD :: nat where "RTC_STATUSD \<equiv> 13"
abbreviation (input) RTC_NVRAM :: nat where "RTC_NVRAM \<equiv> 14"
abbreviation (input) RTC_CENTURY :: nat where "RTC_CENTURY \<equiv> 50"
abbreviation (input) RTCSA_TUP :: u8 where "RTCSA_TUP \<equiv> 0x80"
abbreviation (input) RTCSB_HALT :: u8 where "RTCSB_HALT \<equiv> 0x80"
abbreviation (input) RTCSB_PINTR :: u8 where "RTCSB_PINTR \<equiv> 0x40"
abbreviation (input) RTCSB_AINTR :: u8 where "RTCSB_AINTR \<equiv> 0x20"
abbreviation (input) RTCSB_UINTR :: u8 where "RTCSB_UINTR \<equiv> 0x10"
abbreviation (input) RTCSB_SQWE :: u8 where "RTCSB_SQWE \<equiv> 0x08"
abbreviation (input) RTCSB_BIN :: u8 where "RTCSB_BIN \<equiv> 0x04"
abbreviation (input) RTCSB_24HR :: u8 where "RTCSB_24HR \<equiv> 0x02"
abbreviation (input) RTCSB_ALL_INTRS :: u8 where "RTCSB_ALL_INTRS \<equiv> RTCSB_UINTR OR RTCSB_AINTR OR RTCSB_PINTR"
abbreviation (input) RTCIR_UPDATE :: u8 where "RTCIR_UPDATE \<equiv> 0x10"
abbreviation (input) RTCIR_ALARM :: u8 where "RTCIR_ALARM \<equiv> 0x20"
abbreviation (input) RTCIR_PERIOD :: u8 where "RTCIR_PERIOD \<equiv> 0x40"
abbreviation (input) RTCIR_INT :: u8 where "RTCIR_INT \<equiv> 0x80"
abbreviation (input) RTCSD_PWR :: u8 where "RTCSD_PWR \<equiv> 0x80"

abbreviation reg_b :: "vrtc \<Rightarrow> u8" where "reg_b v \<equiv> vr_dev v RTC_STATUSB"
abbreviation reg_c :: "vrtc \<Rightarrow> u8" where "reg_c v \<equiv> vr_dev v RTC_INTR"

definition set_dev :: "nat \<Rightarrow> u8 \<Rightarrow> vrtc \<Rightarrow> vrtc" where
  "set_dev offset val v = v\<lparr>vr_dev := (vr_dev v)(offset := val)\<rparr>"

definition rtc_halted :: "vrtc \<Rightarrow> bool" where
  "rtc_halted v \<longleftrightarrow> reg_b v AND RTCSB_HALT \<noteq> 0"

definition aintr_enabled :: "vrtc \<Rightarrow> bool" where
  "aintr_enabled v \<longleftrightarrow> reg_b v AND RTCSB_AINTR \<noteq> 0"

definition pintr_enabled :: "vrtc \<Rightarrow> bool" where
  "pintr_enabled v \<longleftrightarrow> reg_b v AND RTCSB_PINTR \<noteq> 0"

definition uintr_enabled :: "vrtc \<Rightarrow> bool" where
  "uintr_enabled v \<longleftrightarrow> reg_b v AND RTCSB_UINTR \<noteq> 0"

definition divider_enabled :: "u8 \<Rightarrow> bool" where
  "divider_enabled a \<longleftrightarrow> a AND 0x70 = 0x20"

definition update_enabled :: "vrtc \<Rightarrow> bool" where
  "update_enabled v \<longleftrightarrow> divider_enabled (vr_dev v RTC_STATUSA) \<and> \<not> rtc_halted v \<and> vr_base_rtctime v \<noteq> VRTC_BROKEN_TIME"

section \<open>Time and fields\<close>

text \<open>The current time and its base.\<close>

definition vrtc_curtime :: "int \<Rightarrow> vrtc \<Rightarrow> (int \<times> int) option" where
  "vrtc_curtime now v =
     (if update_enabled v
      then let delta = now - vr_base_uptime v; secs = delta div SBT_1S
           in if delta < 0 then None else Some (vr_base_rtctime v + secs, vr_base_uptime v + secs * SBT_1S)
      else Some (vr_base_rtctime v, vr_base_uptime v))"

text \<open>The table \<^verbatim>\<open>bin2bcd_data\<close> of the kernel.\<close>

definition bin2bcd :: "int \<Rightarrow> u8" where
  "bin2bcd n = of_int (n div 10 * 16 + n mod 10)"

definition rtcset :: "rtcdev \<Rightarrow> int \<Rightarrow> u8 option" where
  "rtcset rtc val =
     (if 0 \<le> val \<and> val < 100 then Some (if rtc RTC_STATUSB AND RTCSB_BIN \<noteq> 0 then of_int val else bin2bcd val) else None)"

definition ct_valid :: "clocktime \<Rightarrow> bool" where
  "ct_valid ct \<longleftrightarrow> 0 \<le> ct_sec ct \<and> ct_sec ct \<le> 59 \<and> 0 \<le> ct_min ct \<and> ct_min ct \<le> 59 \<and> 0 \<le> ct_hour ct \<and> ct_hour ct \<le> 23 \<and>
     0 \<le> ct_dow ct \<and> ct_dow ct \<le> 6 \<and> 1 \<le> ct_day ct \<and> ct_day ct \<le> 31 \<and> 1 \<le> ct_mon ct \<and> ct_mon ct \<le> 12 \<and> POSIX_BASE_YEAR \<le> ct_year ct"

definition rtc_hour12 :: "int \<Rightarrow> int" where
  "rtc_hour12 h = (if h = 0 \<or> h = 12 then 12 else h mod 12)"

definition set_fields :: "clocktime \<Rightarrow> rtcdev \<Rightarrow> rtcdev option" where
  "set_fields ct rtc =
     (let h24 = (rtc RTC_STATUSB AND RTCSB_24HR \<noteq> 0)
      in do {
        sec \<leftarrow> rtcset rtc (ct_sec ct);
        mn \<leftarrow> rtcset rtc (ct_min ct);
        hour \<leftarrow> rtcset rtc (if h24 then ct_hour ct else rtc_hour12 (ct_hour ct));
        let hour = (if \<not> h24 \<and> ct_hour ct \<ge> 12 then hour OR 0x80 else hour);
        wday \<leftarrow> rtcset rtc (ct_dow ct + 1);
        day \<leftarrow> rtcset rtc (ct_day ct);
        mon \<leftarrow> rtcset rtc (ct_mon ct);
        year \<leftarrow> rtcset rtc (ct_year ct mod 100);
        century \<leftarrow> rtcset rtc (ct_year ct div 100);
        Some (rtc(RTC_SEC := sec, RTC_MIN := mn, RTC_HRS := hour, RTC_WDAY := wday, RTC_DAY := day, RTC_MONTH := mon, RTC_YEAR := year, RTC_CENTURY := century))
      })"

definition secs_to_rtc :: "rtc_clock \<Rightarrow> int \<Rightarrow> bool \<Rightarrow> vrtc \<Rightarrow> vrtc option" where
  "secs_to_rtc C rtctime force_update v =
     (if rtctime < 0 then if rtctime = VRTC_BROKEN_TIME then Some v else None
      else if rtc_halted v \<and> \<not> force_update then Some v
      else let ct = ts_to_ct C rtctime
           in if \<not> ct_valid ct then None else map_option (\<lambda>rtc. v\<lparr>vr_dev := rtc\<rparr>) (set_fields ct (vr_dev v)))"

definition rtcget :: "rtcdev \<Rightarrow> u8 \<Rightarrow> int option" where
  "rtcget rtc val =
     (if rtc RTC_STATUSB AND RTCSB_BIN \<noteq> 0 then Some (uint val)
      else let lower = uint (val AND 0xf); upper = uint (drop_bit 4 val AND 0xf)
           in if lower > 9 \<or> upper > 9 then None else Some (upper * 10 + lower))"

definition rtc_field :: "rtcdev \<Rightarrow> nat \<Rightarrow> int \<Rightarrow> int \<Rightarrow> int option" where
  "rtc_field rtc offset lo hi = do { x \<leftarrow> rtcget rtc (rtc offset); if lo \<le> x \<and> x \<le> hi then Some x else None }"

definition rtc_hour :: "rtcdev \<Rightarrow> int option" where
  "rtc_hour rtc =
     (let h24 = (rtc RTC_STATUSB AND RTCSB_24HR \<noteq> 0);
          hour = rtc RTC_HRS;
          pm = (\<not> h24 \<and> hour AND 0x80 \<noteq> 0);
          hour = (if pm then hour AND NOT 0x80 else hour)
      in do {
        x \<leftarrow> rtcget rtc hour;
        x \<leftarrow> (if h24 then Some x
              else if 1 \<le> x \<and> x \<le> 12 then Some ((if x = 12 then 0 else x) + (if pm then 12 else 0)) else None);
        if 0 \<le> x \<and> x \<le> 23 then Some x else None
      })"

definition rtc_to_secs :: "rtc_clock \<Rightarrow> vrtc \<Rightarrow> int" where
  "rtc_to_secs C v =
     (let rtc = vr_dev v
      in case do {
           sec \<leftarrow> rtc_field rtc RTC_SEC 0 59;
           mn \<leftarrow> rtc_field rtc RTC_MIN 0 59;
           hour \<leftarrow> rtc_hour rtc;
           day \<leftarrow> rtc_field rtc RTC_DAY 1 31;
           mon \<leftarrow> rtc_field rtc RTC_MONTH 1 12;
           year \<leftarrow> rtc_field rtc RTC_YEAR 0 99;
           century \<leftarrow> rtcget rtc (rtc RTC_CENTURY);
           let year = century * 100 + year;
           if year < POSIX_BASE_YEAR then None
           else case ct_to_ts C \<lparr>ct_year = year, ct_mon = mon, ct_day = day, ct_hour = hour, ct_min = mn, ct_sec = sec, ct_dow = - 1\<rparr> of
                  (error, secs) \<Rightarrow> if error \<noteq> 0 \<or> secs < 0 then None else Some secs
         } of None \<Rightarrow> VRTC_BROKEN_TIME | Some secs \<Rightarrow> secs)"

section \<open>Interrupts and the passing of time\<close>

definition vrtc_set_reg_c :: "u8 \<Rightarrow> vrtc \<Rightarrow> vrtc" where
  "vrtc_set_reg_c newval v =
     (let newval = newval AND (RTCIR_ALARM OR RTCIR_PERIOD OR RTCIR_UPDATE);
          oldirqf = reg_c v AND RTCIR_INT;
          newirqf = (if aintr_enabled v \<and> newval AND RTCIR_ALARM \<noteq> 0 \<or> pintr_enabled v \<and> newval AND RTCIR_PERIOD \<noteq> 0 \<or>
                        uintr_enabled v \<and> newval AND RTCIR_UPDATE \<noteq> 0 then RTCIR_INT else 0);
          v = set_dev RTC_INTR (newirqf OR newval) v
      in if oldirqf = 0 \<and> newirqf \<noteq> 0 then v\<lparr>vr_pulses := vr_pulses v + 1\<rparr> else v)"

type_synonym alarm = "u8 \<times> u8 \<times> u8"

definition alarm_matches :: "alarm \<Rightarrow> rtcdev \<Rightarrow> bool" where
  "alarm_matches alarm rtc \<longleftrightarrow> (case alarm of (alarm_sec, alarm_min, alarm_hour) \<Rightarrow>
     (alarm_sec \<ge> 0xC0 \<or> alarm_sec = rtc RTC_SEC) \<and> (alarm_min \<ge> 0xC0 \<or> alarm_min = rtc RTC_MIN) \<and>
     (alarm_hour \<ge> 0xC0 \<or> alarm_hour = rtc RTC_HRS))"

definition alarm_step :: "rtc_clock \<Rightarrow> alarm \<Rightarrow> int \<Rightarrow> vrtc \<Rightarrow> vrtc option" where
  "alarm_step C alarm t v = do {
     v \<leftarrow> secs_to_rtc C t False (v\<lparr>vr_base_rtctime := t\<rparr>);
     Some (if alarm_matches alarm (vr_dev v) then vrtc_set_reg_c (reg_c v OR RTCIR_ALARM) v else v)
   }"

text \<open>The increment of a \<^verbatim>\<open>time_t\<close> of 64 bits.\<close>

definition time_inc :: "int \<Rightarrow> int" where
  "time_inc t = signed_take_bit 63 (t + 1)"

lemma alarm_step_base: "alarm_step C alarm t v = Some v' \<Longrightarrow> vr_base_rtctime v' = t \<and> - 1 \<le> t"
  by (auto simp: alarm_step_def secs_to_rtc_def vrtc_set_reg_c_def set_dev_def Let_def bind_eq_Some_conv split: if_splits)

function alarm_loop :: "rtc_clock \<Rightarrow> alarm \<Rightarrow> int \<Rightarrow> vrtc \<Rightarrow> vrtc option" where
  "alarm_loop C alarm newtime v = do {
     v \<leftarrow> alarm_step C alarm (time_inc (vr_base_rtctime v)) v;
     if vr_base_rtctime v \<noteq> newtime then alarm_loop C alarm newtime v else Some v
   }"
  by pat_completeness auto

lemma time_inc_cases:
  "t < 2 ^ 63 - 1 \<Longrightarrow> - (2 ^ 63) \<le> t \<Longrightarrow> time_inc t = t + 1" "time_inc (2 ^ 63 - 1) = - (2 ^ 63)" "- (2 ^ 63) \<le> time_inc t" "time_inc t < 2 ^ 63"
  subgoal unfolding time_inc_def by (rule signed_take_bit_int_eq_self) simp_all
  subgoal by (simp add: time_inc_def signed_take_bit_eq_take_bit_shift)
  subgoal unfolding time_inc_def by (rule signed_take_bit_int_greater_eq_minus_exp)
  subgoal unfolding time_inc_def by (rule signed_take_bit_int_less_exp)
  done

text \<open>Every round moves the time forward until it would wrap around to a time before the epoch, which \<^verbatim>\<open>secs_to_rtc\<close> refuses.\<close>

definition rounds_left :: "int \<Rightarrow> nat" where
  "rounds_left t = (if t < 2 ^ 63 then nat (2 ^ 63 - t) else 2 ^ 64 + 1)"

lemma rounds_left_inc: "- 1 \<le> time_inc t \<Longrightarrow> rounds_left (time_inc t) < rounds_left t"
  using time_inc_cases(1,4) [of t] time_inc_cases(2) unfolding rounds_left_def by (cases "t < 2 ^ 63 - 1 \<and> - (2 ^ 63) \<le> t"; cases "t = 2 ^ 63 - 1") auto

termination alarm_loop
  by (relation "measure (\<lambda>(C, alarm, newtime, v). rounds_left (vr_base_rtctime v))") (auto dest!: alarm_step_base simp: rounds_left_inc)

declare alarm_loop.simps [simp del]

definition vrtc_time_update :: "rtc_clock \<Rightarrow> int \<Rightarrow> int \<Rightarrow> vrtc \<Rightarrow> (int \<times> vrtc) option" where
  "vrtc_time_update C newtime newbase v =
     (let alarm = (vr_dev v RTC_SECALRM, vr_dev v RTC_MINALRM, vr_dev v RTC_HRSALRM);
          oldtime = vr_base_rtctime v;
          v = v\<lparr>vr_base_uptime := newbase\<rparr>
      in if newtime = oldtime then Some (0, v)
         else if newtime = VRTC_BROKEN_TIME then Some (0, v\<lparr>vr_base_rtctime := VRTC_BROKEN_TIME\<rparr>)
         else if rtc_halted v then Some (EBUSY, v)
         else do {
           v \<leftarrow> (if aintr_enabled v
                 then if oldtime \<noteq> VRTC_BROKEN_TIME then alarm_loop C alarm newtime v else alarm_step C alarm newtime v
                 else Some (v\<lparr>vr_base_rtctime := newtime\<rparr>));
           Some (0, if uintr_enabled v then vrtc_set_reg_c (reg_c v OR RTCIR_UPDATE) v else v)
         })"

definition pf :: "int list" where
  "pf = [0, SBT_1S div 256, SBT_1S div 128, SBT_1S div 8192, SBT_1S div 4096, SBT_1S div 2048, SBT_1S div 1024, SBT_1S div 512,
     SBT_1S div 256, SBT_1S div 128, SBT_1S div 64, SBT_1S div 32, SBT_1S div 16, SBT_1S div 8, SBT_1S div 4, SBT_1S div 2]"

definition vrtc_freq :: "vrtc \<Rightarrow> int" where
  "vrtc_freq v =
     (if pintr_enabled v \<and> divider_enabled (vr_dev v RTC_STATUSA) then pf ! unat (vr_dev v RTC_STATUSA AND 0xf)
      else if aintr_enabled v \<and> update_enabled v then SBT_1S
      else if uintr_enabled v \<and> update_enabled v then SBT_1S
      else 0)"

definition vrtc_callout_reset :: "int \<Rightarrow> vrtc \<Rightarrow> vrtc" where
  "vrtc_callout_reset freqsbt v =
     (if freqsbt = 0 then if co_active (vr_callout v) then v\<lparr>vr_callout := callout_stop (vr_callout v)\<rparr> else v
      else v\<lparr>vr_callout := callout_reset_sbt (vr_callout v) freqsbt\<rparr>)"

definition vrtc_callout_handler :: "rtc_clock \<Rightarrow> int \<Rightarrow> vrtc \<Rightarrow> vrtc option" where
  "vrtc_callout_handler C now v =
     (if co_pending (vr_callout v) then Some v
      else if \<not> co_active (vr_callout v) then Some v
      else do {
        let v = v\<lparr>vr_callout := callout_deactivate (vr_callout v)\<rparr>;
        if reg_b v AND RTCSB_ALL_INTRS = 0 then None
        else do {
          let v = (if pintr_enabled v then vrtc_set_reg_c (reg_c v OR RTCIR_PERIOD) v else v);
          v \<leftarrow> (if aintr_enabled v \<or> uintr_enabled v
                then do {
                  (rtctime, basetime) \<leftarrow> vrtc_curtime now v;
                  (error, v) \<leftarrow> vrtc_time_update C rtctime basetime v;
                  if error = 0 then Some v else None
                }
                else Some v);
          let freqsbt = vrtc_freq v;
          if freqsbt = 0 then None else Some (vrtc_callout_reset freqsbt v)
        }
      })"

definition vrtc_callout_check :: "vrtc \<Rightarrow> int \<Rightarrow> bool" where
  "vrtc_callout_check v freq \<longleftrightarrow> freq = 0 \<and> \<not> co_active (vr_callout v) \<or> freq \<noteq> 0 \<and> co_active (vr_callout v)"

text \<open>The end of both writes to control registers.\<close>

definition freq_changed :: "int \<Rightarrow> vrtc \<Rightarrow> vrtc option" where
  "freq_changed oldfreq v =
     (let newfreq = vrtc_freq v
      in if newfreq \<noteq> oldfreq then Some (vrtc_callout_reset newfreq v) else if vrtc_callout_check v newfreq then Some v else None)"

section \<open>Control registers\<close>

text \<open>What a change of the HALT bit does; \<open>None\<close> inside is the return of \<open>-1\<close>. The flag is \<^verbatim>\<open>rtc_flag_broken_time\<close>.\<close>

definition halt_changed :: "rtc_clock \<Rightarrow> bool \<Rightarrow> int \<Rightarrow> vrtc \<Rightarrow> vrtc option option" where
  "halt_changed C flag now v =
     (if \<not> rtc_halted v
      then let rtctime = rtc_to_secs C v
           in if rtctime = VRTC_BROKEN_TIME \<and> flag then Some None
              else do { (error, v) \<leftarrow> vrtc_time_update C rtctime now v; if error = 0 then Some (Some v) else None }
      else do {
        (curtime, basetime) \<leftarrow> vrtc_curtime now v;
        if curtime \<noteq> vr_base_rtctime v then None
        else do {
          v \<leftarrow> secs_to_rtc C curtime True v;
          (error, v) \<leftarrow> vrtc_time_update C VRTC_BROKEN_TIME basetime (set_dev RTC_STATUSB (reg_b v AND NOT RTCSB_UINTR) v);
          if error = 0 then Some (Some v) else None
        }
      })"

definition vrtc_set_reg_b :: "rtc_clock \<Rightarrow> bool \<Rightarrow> int \<Rightarrow> u8 \<Rightarrow> vrtc \<Rightarrow> (int \<times> vrtc) option" where
  "vrtc_set_reg_b C flag now newval v =
     (let oldval = reg_b v;
          oldfreq = vrtc_freq v;
          v = set_dev RTC_STATUSB newval v;
          changed = oldval XOR newval
      in do {
        r \<leftarrow> (if changed AND RTCSB_HALT \<noteq> 0 then halt_changed C flag now v else Some (Some v));
        case r of
          None \<Rightarrow> Some (- 1, v)
        | Some v \<Rightarrow> do {
            let v = (if changed AND RTCSB_ALL_INTRS \<noteq> 0 then vrtc_set_reg_c (reg_c v) v else v);
            v \<leftarrow> freq_changed oldfreq v;
            Some (0, v)
          }
      })"

definition vrtc_set_reg_a :: "int \<Rightarrow> u8 \<Rightarrow> vrtc \<Rightarrow> vrtc option" where
  "vrtc_set_reg_a now newval v =
     (let newval = newval AND NOT RTCSA_TUP;
          oldval = vr_dev v RTC_STATUSA;
          oldfreq = vrtc_freq v;
          v = (if \<not> divider_enabled oldval \<and> divider_enabled newval then v\<lparr>vr_base_uptime := now\<rparr> else v)
      in freq_changed oldfreq (set_dev RTC_STATUSA newval v))"

section \<open>Entry points\<close>

definition vrtc_set_time :: "rtc_clock \<Rightarrow> int \<Rightarrow> int \<Rightarrow> vrtc \<Rightarrow> (int \<times> vrtc) option" where
  "vrtc_set_time C now secs v = vrtc_time_update C secs now v"

definition vrtc_get_time :: "int \<Rightarrow> vrtc \<Rightarrow> int option" where
  "vrtc_get_time now v = map_option fst (vrtc_curtime now v)"

definition vrtc_nvram_write :: "int \<Rightarrow> u8 \<Rightarrow> vrtc \<Rightarrow> int \<times> vrtc" where
  "vrtc_nvram_write offset val v =
     (if offset < int RTC_NVRAM \<or> offset = int RTC_CENTURY \<or> offset \<ge> 128 then (EINVAL, v) else (0, set_dev (nat offset) val v))"

definition vrtc_nvram_read :: "rtc_clock \<Rightarrow> int \<Rightarrow> int \<Rightarrow> vrtc \<Rightarrow> (int \<times> u8 option \<times> vrtc) option" where
  "vrtc_nvram_read C now offset v =
     (if offset < 0 \<or> offset \<ge> 128 then Some (EINVAL, None, v)
      else do {
        v \<leftarrow> (if offset < 10 \<or> offset = int RTC_CENTURY then do { (curtime, _) \<leftarrow> vrtc_curtime now v; secs_to_rtc C curtime False v } else Some v);
        Some (0, Some (vr_dev v (nat offset)), v)
      })"

text \<open>The value of a port, read or written, is passed and returned.\<close>

definition vrtc_addr_handler :: "bool \<Rightarrow> int \<Rightarrow> u32 \<Rightarrow> vrtc \<Rightarrow> int \<times> u32 \<times> vrtc" where
  "vrtc_addr_handler inp bytes val v =
     (if bytes \<noteq> 1 then (- 1, val, v)
      else if inp then (0, 0xff, v)
      else (0, val, v\<lparr>vr_addr := unat (val AND 0x7f)\<rparr>))"

text \<open>A write to a register, and its effect on the time. The uptime is read again, as \<open>now'\<close>.\<close>

definition rtc_write :: "rtc_clock \<Rightarrow> bool \<Rightarrow> int \<Rightarrow> u8 \<Rightarrow> vrtc \<Rightarrow> (int \<times> vrtc) option" where
  "rtc_write C flag now' val v =
     (let offset = vr_addr v
      in if offset = RTC_STATUSA then map_option (Pair 0) (vrtc_set_reg_a now' val v)
         else if offset = RTC_STATUSB then vrtc_set_reg_b C flag now' val v
         else if offset = RTC_INTR \<or> offset = RTC_STATUSD then Some (0, v)
         else Some (0, set_dev offset val v))"

definition century_written :: "rtc_clock \<Rightarrow> bool \<Rightarrow> int \<Rightarrow> vrtc \<Rightarrow> (int \<times> vrtc) option" where
  "century_written C flag now' v =
     (let curtime = rtc_to_secs C v
      in do {
        (error, v) \<leftarrow> vrtc_time_update C curtime now' v;
        if error \<noteq> 0 then None else Some (if curtime = VRTC_BROKEN_TIME \<and> flag then - 1 else 0, v)
      })"

definition vrtc_data_handler :: "rtc_clock \<Rightarrow> bool \<Rightarrow> int \<Rightarrow> int \<Rightarrow> bool \<Rightarrow> int \<Rightarrow> u32 \<Rightarrow> vrtc \<Rightarrow> (int \<times> u32 \<times> vrtc) option" where
  "vrtc_data_handler C flag now now' inp bytes val v =
     (if bytes \<noteq> 1 \<or> vr_addr v \<ge> 128 then Some (- 1, val, v)
      else do {
        let offset = vr_addr v;
        (curtime, basetime) \<leftarrow> vrtc_curtime now v;
        (_, v) \<leftarrow> vrtc_time_update C curtime basetime v;
        v \<leftarrow> (if offset < 10 \<or> offset = RTC_CENTURY then secs_to_rtc C curtime False v else Some v);
        if inp
        then if offset = RTC_INTR then Some (0, ucast (reg_c v), vrtc_set_reg_c 0 v) else Some (0, ucast (vr_dev v offset), v)
        else do {
          let val = (if offset = RTC_SEC then val AND 0x7f else val);
          (error, v) \<leftarrow> rtc_write C flag now' (ucast val) v;
          (error, v) \<leftarrow> (if offset = RTC_CENTURY \<and> \<not> rtc_halted v then century_written C flag now' v else Some (error, v));
          Some (error, val, v)
        }
      })"

definition vrtc_reset :: "rtc_clock \<Rightarrow> bool \<Rightarrow> int \<Rightarrow> vrtc \<Rightarrow> vrtc option" where
  "vrtc_reset C flag now v = do {
     (_, v) \<leftarrow> vrtc_set_reg_b C flag now (reg_b v AND NOT (RTCSB_ALL_INTRS OR RTCSB_SQWE)) v;
     let v = vrtc_set_reg_c 0 v;
     if co_active (vr_callout v) then None else Some v
   }"

definition vrtc_init :: "rtc_clock \<Rightarrow> int \<Rightarrow> vrtc option" where
  "vrtc_init C now = do {
     let v = \<lparr>vr_callout = callout_init, vr_addr = RTC_STATUSD, vr_base_uptime = 0, vr_base_rtctime = VRTC_BROKEN_TIME,
              vr_dev = (\<lambda>_. 0)(RTC_STATUSA := 0x20, RTC_STATUSB := RTCSB_24HR, RTC_INTR := 0, RTC_STATUSD := RTCSD_PWR), vr_pulses = 0\<rparr>;
     (_, v) \<leftarrow> vrtc_time_update C 0 now v;
     secs_to_rtc C 0 False v
   }"

section \<open>Encoding of the fields\<close>

text \<open>What the calendar of the kernel promises up to the time \<open>e\<close> at which the year 10000 begins: valid fields, and that converting back, whatever the day of the week,
  gives the time again.\<close>

definition clock_ok :: "rtc_clock \<Rightarrow> int \<Rightarrow> bool" where
  "clock_ok C e \<longleftrightarrow> 0 < e \<and> e < 2 ^ 63 \<and> (\<forall>t\<ge>0. ct_valid (ts_to_ct C t) \<and> (ct_year (ts_to_ct C t) < 10000 \<longleftrightarrow> t < e) \<and>
     (\<forall>d. ct_to_ts C ((ts_to_ct C t)\<lparr>ct_dow := d\<rparr>) = (0, t)))"

lemma bin2bcd_uint:
  assumes "0 \<le> n" "n < 100"
  shows "uint (bin2bcd n) = n div 10 * 16 + n mod 10"
proof -
  have "0 \<le> n div 10 * 16 + n mod 10" using assms by simp
  moreover have "n div 10 * 16 + n mod 10 < 256" using assms by linarith
  then have "n div 10 * 16 + n mod 10 < 2 ^ LENGTH(8)" by simp
  ultimately show ?thesis unfolding bin2bcd_def uint_word_of_int_eq by (rule take_bit_int_eq_self)
qed

lemma bin2bcd_digits:
  assumes "0 \<le> n" "n < 100"
  shows "uint (bin2bcd n AND 0xf) = n mod 10" "uint (drop_bit 4 (bin2bcd n) AND 0xf) = n div 10"
proof -
  have u: "uint (bin2bcd n) = n div 10 * 16 + n mod 10" by (rule bin2bcd_uint [OF assms])
  have m: "x AND 0xf = take_bit 4 x" for x :: u8 by (simp add: take_bit_eq_mask mask_eq_exp_minus_1)
  have "0 \<le> n mod 10" "n mod 10 < 10" by simp_all
  then have "(n div 10 * 16 + n mod 10) mod 16 = n mod 10" "(n div 10 * 16 + n mod 10) div 16 = n div 10" by (simp_all add: div_mult_self3)
  then show "uint (bin2bcd n AND 0xf) = n mod 10" "uint (drop_bit 4 (bin2bcd n) AND 0xf) = n div 10"
    unfolding m using assms by (simp_all add: take_bit_eq_mod drop_bit_eq_div uint_mod uint_div u)
qed

lemma rtcset_get:
  assumes "rtcset rtc n = Some w" "rtc' RTC_STATUSB = rtc RTC_STATUSB"
  shows "rtcget rtc' w = Some n"
proof -
  have n: "0 \<le> n" "n < 100" using assms(1) by (auto simp: rtcset_def split: if_splits)
  have "n mod 10 \<le> 9" "n div 10 \<le> 9" using n by linarith+
  moreover have "n div 10 * 10 + n mod 10 = n" by (rule div_mult_mod_eq)
  ultimately show ?thesis using assms n bin2bcd_digits [OF n]
    by (auto simp: rtcset_def rtcget_def Let_def unsigned_of_int take_bit_int_eq_self split: if_splits)
qed

lemma rtcset_Some: "0 \<le> n \<Longrightarrow> n < 100 \<Longrightarrow> \<exists>w. rtcset rtc n = Some w"
  by (simp add: rtcset_def)

lemma hour_code:
  assumes "rtcset rtc h = Some w" "0 \<le> h" "h \<le> 23"
  shows "w AND 0x80 = 0" "(w OR 0x80) AND 0x80 \<noteq> 0" "(w OR 0x80) AND NOT 0x80 = w"
proof -
  have "h div 10 * 16 + h mod 10 < 128" using assms(2,3) by linarith
  then have "uint w < 128"
    using assms bin2bcd_uint [of h] by (auto simp: rtcset_def unsigned_of_int take_bit_int_eq_self split: if_splits)
  then have "take_bit 7 w = w" by (simp add: take_bit_eq_mod word_uint_eq_iff uint_mod)
  then have b: "\<not> bit w n" if "7 \<le> n" for n using that by (metis bit_take_bit_iff linorder_not_le)
  have "w AND push_bit 7 1 = 0" unfolding and_push_bit_1 using b by simp
  moreover have "(w OR push_bit 7 1) AND push_bit 7 1 = push_bit 7 1" unfolding or_push_bit_1 and_push_bit_1 by (simp add: bv_simps)
  moreover have "(w OR push_bit 7 1) AND NOT (push_bit 7 1) = w"
    unfolding or_push_bit_1 and_not_push_bit_1 by (rule bit_word_eqI) (use b in \<open>auto simp: bv_simps\<close>)
  ultimately show "w AND 0x80 = 0" "(w OR 0x80) AND 0x80 \<noteq> 0" "(w OR 0x80) AND NOT 0x80 = w" by simp_all
qed

lemma set_fields_Some:
  assumes "ct_valid ct" "ct_year ct < 10000"
  shows "\<exists>rtc'. set_fields ct rtc = Some rtc'"
proof -
  have "ct_hour ct mod 12 < 12" by simp
  then have "0 \<le> rtc_hour12 (ct_hour ct)" "rtc_hour12 (ct_hour ct) < 100" by (auto simp: rtc_hour12_def)
  moreover have "0 \<le> ct_year ct div 100" "ct_year ct div 100 < 100" "0 \<le> ct_year ct mod 100" "ct_year ct mod 100 < 100"
    using assms by (auto simp: ct_valid_def)
  ultimately show ?thesis using assms(1) by (auto simp: set_fields_def Let_def rtcset_def ct_valid_def)
qed

lemma set_fields_hour:
  assumes "set_fields ct rtc = Some rtc'" "ct_valid ct"
  shows "rtc_hour rtc' = Some (ct_hour ct)"
proof -
  define h where "h = (if rtc RTC_STATUSB AND RTCSB_24HR \<noteq> 0 then ct_hour ct else rtc_hour12 (ct_hour ct))"
  have c: "0 \<le> ct_hour ct" "ct_hour ct \<le> 23" using assms(2) by (simp_all add: ct_valid_def)
  then have h: "0 \<le> h" "h \<le> 23" "\<not> rtc RTC_STATUSB AND RTCSB_24HR \<noteq> 0 \<Longrightarrow> 1 \<le> h \<and> h \<le> 12 \<and> (if h = 12 then 0 else h) + (if 12 \<le> ct_hour ct then 12 else 0) = ct_hour ct"
    unfolding h_def rtc_hour12_def by (auto split: if_splits) presburger+
  obtain w where w: "rtcset rtc h = Some w" "rtc' RTC_HRS = (if \<not> rtc RTC_STATUSB AND RTCSB_24HR \<noteq> 0 \<and> 12 \<le> ct_hour ct then w OR 0x80 else w)"
      "rtc' RTC_STATUSB = rtc RTC_STATUSB"
    using assms(1) unfolding h_def by (auto simp: set_fields_def Let_def bind_eq_Some_conv)
  note g = rtcset_get [where rtc = rtc and rtc' = rtc', OF w(1,3)] and b = hour_code [OF w(1) h(1,2)]
  show ?thesis using w(2,3) g b h c by (cases "rtc RTC_STATUSB AND RTCSB_24HR \<noteq> 0") (auto simp: rtc_hour_def Let_def h_def split: if_splits)
qed

lemma set_fields_get:
  assumes "set_fields ct rtc = Some rtc'"
  shows "rtcget rtc' (rtc' RTC_SEC) = Some (ct_sec ct)" "rtcget rtc' (rtc' RTC_MIN) = Some (ct_min ct)" "rtcget rtc' (rtc' RTC_DAY) = Some (ct_day ct)"
    "rtcget rtc' (rtc' RTC_MONTH) = Some (ct_mon ct)" "rtcget rtc' (rtc' RTC_YEAR) = Some (ct_year ct mod 100)"
    "rtcget rtc' (rtc' RTC_CENTURY) = Some (ct_year ct div 100)"
proof -
  have s: "rtc' RTC_STATUSB = rtc RTC_STATUSB" using assms by (auto simp: set_fields_def Let_def bind_eq_Some_conv)
  have "rtcset rtc (ct_sec ct) = Some (rtc' RTC_SEC)" "rtcset rtc (ct_min ct) = Some (rtc' RTC_MIN)" "rtcset rtc (ct_day ct) = Some (rtc' RTC_DAY)"
    "rtcset rtc (ct_mon ct) = Some (rtc' RTC_MONTH)" "rtcset rtc (ct_year ct mod 100) = Some (rtc' RTC_YEAR)"
    "rtcset rtc (ct_year ct div 100) = Some (rtc' RTC_CENTURY)"
    using assms by (auto simp: set_fields_def Let_def bind_eq_Some_conv)
  then show "rtcget rtc' (rtc' RTC_SEC) = Some (ct_sec ct)" "rtcget rtc' (rtc' RTC_MIN) = Some (ct_min ct)" "rtcget rtc' (rtc' RTC_DAY) = Some (ct_day ct)"
    "rtcget rtc' (rtc' RTC_MONTH) = Some (ct_mon ct)" "rtcget rtc' (rtc' RTC_YEAR) = Some (ct_year ct mod 100)"
    "rtcget rtc' (rtc' RTC_CENTURY) = Some (ct_year ct div 100)"
    by (blast intro: rtcset_get [where rtc = rtc and rtc' = rtc', OF _ s])+
qed

text \<open>C11. Halting the clock and setting it going again loses no time. The fields that are stored when the guest halts the clock, in binary or BCD and in 12-hour or 24-hour
  format as the control register says, are those from which the same time is computed when it lets the clock run again, for every time before the year 10000.\<close>

theorem rtc_time_roundtrip:
  assumes "clock_ok C e" "0 \<le> t" "t < e"
  shows "\<exists>v'. secs_to_rtc C t True v = Some v' \<and> rtc_to_secs C v' = t"
proof -
  have c: "ct_valid (ts_to_ct C t)" "ct_year (ts_to_ct C t) < 10000" "ct_to_ts C ((ts_to_ct C t)\<lparr>ct_dow := - 1\<rparr>) = (0, t)"
    using assms by (auto simp: clock_ok_def)
  obtain rtc' where r: "set_fields (ts_to_ct C t) (vr_dev v) = Some rtc'" using set_fields_Some [OF c(1,2)] by blast
  have y: "ct_year (ts_to_ct C t) div 100 * 100 + ct_year (ts_to_ct C t) mod 100 = ct_year (ts_to_ct C t)" by (rule div_mult_mod_eq)
  have "ct_year (ts_to_ct C t) mod 100 < 100" by simp
  then have m: "ct_year (ts_to_ct C t) mod 100 \<le> 99" by linarith
  have "ct\<lparr>ct_dow := - 1\<rparr> = \<lparr>ct_year = ct_year ct, ct_mon = ct_mon ct, ct_day = ct_day ct, ct_hour = ct_hour ct, ct_min = ct_min ct, ct_sec = ct_sec ct, ct_dow = - 1\<rparr>" for ct
    by simp
  then have ts: "ct_to_ts C \<lparr>ct_year = ct_year (ts_to_ct C t), ct_mon = ct_mon (ts_to_ct C t), ct_day = ct_day (ts_to_ct C t), ct_hour = ct_hour (ts_to_ct C t),
      ct_min = ct_min (ts_to_ct C t), ct_sec = ct_sec (ts_to_ct C t), ct_dow = - 1\<rparr> = (0, t)" using c(3) by metis
  have "rtc_to_secs C (v\<lparr>vr_dev := rtc'\<rparr>) = t"
    using c(1,2) ts y m assms(2) set_fields_get [OF r] set_fields_hour [OF r c(1)] by (simp add: rtc_to_secs_def rtc_field_def ct_valid_def)
  then show ?thesis using r c(1) assms(2) by (simp add: secs_to_rtc_def)
qed

section \<open>The alarm\<close>

text \<open>What updates of the time leave alone.\<close>

definition kept :: "vrtc \<Rightarrow> vrtc \<Rightarrow> bool" where
  "kept v v' \<longleftrightarrow> vr_addr v' = vr_addr v \<and> vr_callout v' = vr_callout v \<and> vr_base_uptime v' = vr_base_uptime v \<and>
     (\<forall>k. k \<notin> {RTC_SEC, RTC_MIN, RTC_HRS, RTC_WDAY, RTC_DAY, RTC_MONTH, RTC_YEAR, RTC_CENTURY, RTC_INTR} \<longrightarrow> vr_dev v' k = vr_dev v k)"

lemma kept_refl [simp]: "kept v v"
  by (simp add: kept_def)

lemma kept_trans: "kept u v \<Longrightarrow> kept v w \<Longrightarrow> kept u w"
  by (simp add: kept_def)

lemma kept_base [simp]: "kept v (v'\<lparr>vr_base_rtctime := t\<rparr>) = kept v v'" "kept (v\<lparr>vr_base_rtctime := t\<rparr>) v' = kept v v'"
  by (simp_all add: kept_def)

lemma kept_flags:
  assumes "kept v v'"
  shows "rtc_halted v' = rtc_halted v" "aintr_enabled v' = aintr_enabled v" "uintr_enabled v' = uintr_enabled v" "pintr_enabled v' = pintr_enabled v"
  using assms by (simp_all add: kept_def rtc_halted_def aintr_enabled_def uintr_enabled_def pintr_enabled_def)

lemma set_reg_c_frame [simp]:
  "vr_base_rtctime (vrtc_set_reg_c x v) = vr_base_rtctime v" "vr_base_uptime (vrtc_set_reg_c x v) = vr_base_uptime v"
  "vr_addr (vrtc_set_reg_c x v) = vr_addr v" "vr_callout (vrtc_set_reg_c x v) = vr_callout v"
  "k \<noteq> RTC_INTR \<Longrightarrow> vr_dev (vrtc_set_reg_c x v) k = vr_dev v k"
  by (simp_all add: vrtc_set_reg_c_def set_dev_def Let_def)

lemma set_reg_c_kept: "kept v (vrtc_set_reg_c x v)"
  by (simp add: kept_def)

lemma and_or_mask: "(a OR (x AND m)) AND k = x AND k" if "a AND k = 0" "m AND k = k" for a x m k :: "'a::len word"
  using that by (simp add: bit.conj_disj_distrib2 and.assoc)

lemma set_reg_c_flag:
  "reg_c (vrtc_set_reg_c x v) AND RTCIR_ALARM = x AND RTCIR_ALARM" "reg_c (vrtc_set_reg_c x v) AND RTCIR_UPDATE = x AND RTCIR_UPDATE"
  by (simp_all add: vrtc_set_reg_c_def set_dev_def Let_def and_or_mask)

definition alarm_of :: "vrtc \<Rightarrow> alarm" where
  "alarm_of v = (vr_dev v RTC_SECALRM, vr_dev v RTC_MINALRM, vr_dev v RTC_HRSALRM)"

text \<open>The fields shown at time \<open>t\<close> match the alarm.\<close>

definition alarm_due :: "rtc_clock \<Rightarrow> vrtc \<Rightarrow> int \<Rightarrow> bool" where
  "alarm_due C v t \<longleftrightarrow> (case set_fields (ts_to_ct C t) (vr_dev v) of Some rtc \<Rightarrow> alarm_matches (alarm_of v) rtc | None \<Rightarrow> False)"

lemma set_fields_cong:
  assumes "set_fields ct rtc = Some r" "rtc' RTC_STATUSB = rtc RTC_STATUSB"
  shows "\<exists>r'. set_fields ct rtc' = Some r' \<and> r' RTC_SEC = r RTC_SEC \<and> r' RTC_MIN = r RTC_MIN \<and> r' RTC_HRS = r RTC_HRS"
proof -
  have "rtcset rtc' = rtcset rtc" using assms(2) by (intro ext) (simp add: rtcset_def)
  then show ?thesis using assms by (auto simp: set_fields_def Let_def bind_eq_Some_conv)
qed

lemma set_fields_frame:
  "set_fields ct rtc = Some r \<Longrightarrow> k \<notin> {RTC_SEC, RTC_MIN, RTC_HRS, RTC_WDAY, RTC_DAY, RTC_MONTH, RTC_YEAR, RTC_CENTURY} \<Longrightarrow> r k = rtc k"
  by (auto simp: set_fields_def Let_def bind_eq_Some_conv)

lemma alarm_due_kept:
  assumes "kept v v'" "set_fields (ts_to_ct C t) (vr_dev v) \<noteq> None"
  shows "alarm_due C v' t = alarm_due C v t"
proof -
  obtain r where r: "set_fields (ts_to_ct C t) (vr_dev v) = Some r" using assms(2) by blast
  have "vr_dev v' RTC_STATUSB = vr_dev v RTC_STATUSB" "alarm_of v' = alarm_of v" using assms(1) by (simp_all add: kept_def alarm_of_def)
  then show ?thesis using set_fields_cong [OF r, of "vr_dev v'"] r by (auto simp: alarm_due_def alarm_matches_def)
qed

lemma clock_fields: "clock_ok C e \<Longrightarrow> 0 \<le> t \<Longrightarrow> t < e \<Longrightarrow> ct_valid (ts_to_ct C t) \<and> (\<exists>r. set_fields (ts_to_ct C t) rtc = Some r)"
  using set_fields_Some by (auto simp: clock_ok_def)

lemma secs_to_rtc_kept: "secs_to_rtc C t force v = Some v' \<Longrightarrow> kept v v' \<and> vr_base_rtctime v' = vr_base_rtctime v \<and> reg_c v' = reg_c v"
proof -
  assume "secs_to_rtc C t force v = Some v'"
  then have "v' = v \<or> (\<exists>r. set_fields (ts_to_ct C t) (vr_dev v) = Some r \<and> v' = v\<lparr>vr_dev := r\<rparr>)"
    unfolding secs_to_rtc_def Let_def by (cases "set_fields (ts_to_ct C t) (vr_dev v)") (simp_all split: if_split_asm)
  then consider "v' = v" | r where "set_fields (ts_to_ct C t) (vr_dev v) = Some r" "v' = v\<lparr>vr_dev := r\<rparr>" by blast
  then show ?thesis
  proof cases
    case 2
    then show ?thesis using set_fields_frame [OF 2(1)] by (simp add: kept_def)
  qed simp
qed

lemma secs_to_rtc_Some:
  assumes "clock_ok C e" "t = - 1 \<or> 0 \<le> t" "t < e"
  shows "\<exists>v'. secs_to_rtc C t force v = Some v'"
  using clock_fields [OF assms(1) _ assms(3), of "vr_dev v"] assms(2) by (auto simp: secs_to_rtc_def Let_def)

lemma alarm_step_spec:
  assumes "clock_ok C e" "0 \<le> t" "t < e" "\<not> rtc_halted v"
  obtains v' where "alarm_step C (alarm_of v) t v = Some v'" "kept v v'" "vr_base_rtctime v' = t"
    "reg_c v' AND RTCIR_ALARM \<noteq> 0 \<longleftrightarrow> reg_c v AND RTCIR_ALARM \<noteq> 0 \<or> alarm_due C v t"
proof -
  obtain r where r: "ct_valid (ts_to_ct C t)" "set_fields (ts_to_ct C t) (vr_dev v) = Some r" using clock_fields [OF assms(1-3), of "vr_dev v"] by blast
  have h: "\<not> rtc_halted (v\<lparr>vr_base_rtctime := t\<rparr>)" using assms(4) by (simp add: rtc_halted_def)
  define w where "w = v\<lparr>vr_base_rtctime := t, vr_dev := r\<rparr>"
  have w: "secs_to_rtc C t False (v\<lparr>vr_base_rtctime := t\<rparr>) = Some w" using r h assms(2) by (simp add: secs_to_rtc_def w_def)
  have k: "kept v w" "reg_c w = reg_c v" using secs_to_rtc_kept [OF w] by simp_all
  define v' where "v' = (if alarm_matches (alarm_of v) r then vrtc_set_reg_c (reg_c w OR RTCIR_ALARM) w else w)"
  show ?thesis
  proof (rule that [of v'])
    show "alarm_step C (alarm_of v) t v = Some v'" using w by (simp add: alarm_step_def v'_def w_def)
    show "kept v v'" using k(1) set_reg_c_kept kept_trans by (simp add: v'_def)
    show "vr_base_rtctime v' = t" by (simp add: v'_def w_def)
    have "(reg_c w OR RTCIR_ALARM) AND RTCIR_ALARM \<noteq> 0" by (simp add: bit.conj_disj_distrib2)
    then show "reg_c v' AND RTCIR_ALARM \<noteq> 0 \<longleftrightarrow> reg_c v AND RTCIR_ALARM \<noteq> 0 \<or> alarm_due C v t"
      using k(2) r(2) set_reg_c_flag(1) by (simp add: v'_def alarm_due_def)
  qed
qed

lemma alarm_loop_spec:
  assumes "clock_ok C e" "newtime < e" "\<not> rtc_halted v" "0 \<le> vr_base_rtctime v" "vr_base_rtctime v < newtime"
  shows "\<exists>v'. alarm_loop C (alarm_of v) newtime v = Some v' \<and> kept v v' \<and> vr_base_rtctime v' = newtime \<and>
    (reg_c v' AND RTCIR_ALARM \<noteq> 0 \<longleftrightarrow> reg_c v AND RTCIR_ALARM \<noteq> 0 \<or> (\<exists>t. vr_base_rtctime v < t \<and> t \<le> newtime \<and> alarm_due C v t))"
  using assms(3-5)
proof (induction "nat (newtime - vr_base_rtctime v)" arbitrary: v rule: less_induct)
  case less
  define t where "t = vr_base_rtctime v + 1"
  have t: "time_inc (vr_base_rtctime v) = t" "0 \<le> t" "t \<le> newtime" "t < e"
    using less.prems(2,3) assms(1,2) by (auto simp: t_def clock_ok_def intro!: time_inc_cases(1))
  obtain w where w: "alarm_step C (alarm_of v) t v = Some w" "kept v w" "vr_base_rtctime w = t"
      "reg_c w AND RTCIR_ALARM \<noteq> 0 \<longleftrightarrow> reg_c v AND RTCIR_ALARM \<noteq> 0 \<or> alarm_due C v t"
    by (rule alarm_step_spec [OF assms(1) t(2,4) less.prems(1)]) (rule that)
  have loop: "alarm_loop C (alarm_of v) newtime v = (if t \<noteq> newtime then alarm_loop C (alarm_of v) newtime w else Some w)"
    by (subst alarm_loop.simps) (simp add: t(1) w(1,3))
  show ?case
  proof (cases "t = newtime")
    case True
    have range: "(vr_base_rtctime v < s \<and> s \<le> newtime) = (s = t)" for s using True by (auto simp: t_def)
    have "(\<exists>s. vr_base_rtctime v < s \<and> s \<le> newtime \<and> alarm_due C v s) = alarm_due C v t" unfolding conj_assoc [symmetric] range by simp
    then show ?thesis using w True loop by (intro exI [of _ w]) simp
  next
    case False
    have a: "alarm_of w = alarm_of v" "\<not> rtc_halted w" using w(2) kept_flags(1) [OF w(2)] less.prems(1) by (simp_all add: kept_def alarm_of_def)
    obtain v' where v': "alarm_loop C (alarm_of w) newtime w = Some v'" "kept w v'" "vr_base_rtctime v' = newtime"
        "reg_c v' AND RTCIR_ALARM \<noteq> 0 \<longleftrightarrow> reg_c w AND RTCIR_ALARM \<noteq> 0 \<or> (\<exists>s. vr_base_rtctime w < s \<and> s \<le> newtime \<and> alarm_due C w s)"
    proof -
      have "nat (newtime - vr_base_rtctime w) < nat (newtime - vr_base_rtctime v)" "0 \<le> vr_base_rtctime w" "vr_base_rtctime w < newtime"
        using t(2,3) w(3) False less.prems(3) by (simp_all add: t_def)
      from less.hyps [OF this(1) a(2) this(2,3)] show ?thesis using that by blast
    qed
    have due: "alarm_due C w s = alarm_due C v s" if "t < s" "s \<le> newtime" for s
      using alarm_due_kept [OF w(2)] clock_fields [OF assms(1), of s "vr_dev v"] that t(2) assms(2) by fastforce
    have range: "(vr_base_rtctime v < s \<and> s \<le> newtime) = (s = t \<or> t < s \<and> s \<le> newtime)" for s using t(3) by (auto simp: t_def)
    have "(\<exists>s. vr_base_rtctime v < s \<and> s \<le> newtime \<and> alarm_due C v s) = (alarm_due C v t \<or> (\<exists>s. t < s \<and> s \<le> newtime \<and> alarm_due C v s))"
      unfolding conj_assoc [symmetric] range by auto
    moreover have "(\<exists>s. t < s \<and> s \<le> newtime \<and> alarm_due C v s) = (\<exists>s. t < s \<and> s \<le> newtime \<and> alarm_due C w s)" by (rule ex_cong1) (use due in auto)
    ultimately show ?thesis using v' w(3,4) kept_trans [OF w(2) v'(2)] loop False a(1) by (intro exI [of _ v']) simp
  qed
qed

text \<open>C12. An alarm is neither missed nor invented. When the clock moves forward with the alarm interrupt enabled, by however many seconds since it was looked at last, the update returns, the clock
  shows the new time, and the alarm flag is set exactly if it was set before or the fields of one of the seconds passed match the alarm registers.\<close>

theorem rtc_alarm_exact:
  assumes "clock_ok C e" "newtime < e" "\<not> rtc_halted v" "aintr_enabled v" "0 \<le> vr_base_rtctime v" "vr_base_rtctime v < newtime"
  shows "\<exists>v'. vrtc_time_update C newtime base v = Some (0, v') \<and> vr_base_rtctime v' = newtime \<and> vr_base_uptime v' = base \<and>
    (reg_c v' AND RTCIR_ALARM \<noteq> 0 \<longleftrightarrow> reg_c v AND RTCIR_ALARM \<noteq> 0 \<or> (\<exists>t. vr_base_rtctime v < t \<and> t \<le> newtime \<and> alarm_due C v t))"
proof -
  define u where "u = v\<lparr>vr_base_uptime := base\<rparr>"
  have u: "\<not> rtc_halted u" "aintr_enabled u" "vr_base_rtctime u = vr_base_rtctime v" "reg_c u = reg_c v" "alarm_of u = alarm_of v"
    using assms(3,4) by (simp_all add: u_def rtc_halted_def aintr_enabled_def alarm_of_def)
  have "vr_dev u = vr_dev v" by (simp add: u_def)
  then have due: "alarm_due C u = alarm_due C v" by (intro ext) (simp only: alarm_due_def u(5))
  obtain w where w: "alarm_loop C (alarm_of u) newtime u = Some w" "kept u w" "vr_base_rtctime w = newtime"
      "reg_c w AND RTCIR_ALARM \<noteq> 0 \<longleftrightarrow> reg_c v AND RTCIR_ALARM \<noteq> 0 \<or> (\<exists>t. vr_base_rtctime v < t \<and> t \<le> newtime \<and> alarm_due C v t)"
    using alarm_loop_spec [OF assms(1,2) u(1)] assms(5,6) unfolding u(3,4) due by blast
  define v' where "v' = (if uintr_enabled w then vrtc_set_reg_c (reg_c w OR RTCIR_UPDATE) w else w)"
  have "vrtc_time_update C newtime base v = Some (0, v')"
    using w(1) u assms(5,6) unfolding vrtc_time_update_def Let_def u_def [symmetric] alarm_of_def [symmetric] by (simp add: v'_def)
  moreover have "reg_c v' AND RTCIR_ALARM = reg_c w AND RTCIR_ALARM"
    using set_reg_c_flag(1) by (simp add: v'_def bit.conj_disj_distrib2)
  moreover have "vr_base_uptime v' = base" using w(2) by (simp add: v'_def kept_def u_def)
  ultimately show ?thesis using w(3,4) by (simp add: v'_def)
qed

lemma alarm_loop_forward:
  assumes "alarm_loop C alarm newtime v = Some v'" "0 \<le> vr_base_rtctime v" "vr_base_rtctime v < 2 ^ 63"
  shows "vr_base_rtctime v < newtime"
  using assms
proof (induction C alarm newtime v rule: alarm_loop.induct)
  case (1 C alarm newtime v)
  obtain w where w: "alarm_step C alarm (time_inc (vr_base_rtctime v)) v = Some w"
      "(if vr_base_rtctime w \<noteq> newtime then alarm_loop C alarm newtime w else Some w) = Some v'"
    using 1(2) by (subst (asm) alarm_loop.simps) (auto simp: bind_eq_Some_conv)
  have b: "vr_base_rtctime w = time_inc (vr_base_rtctime v)" "- 1 \<le> time_inc (vr_base_rtctime v)" using alarm_step_base [OF w(1)] by simp_all
  have "vr_base_rtctime v < 2 ^ 63 - 1"
  proof (rule ccontr)
    assume "\<not> vr_base_rtctime v < 2 ^ 63 - 1"
    then have "vr_base_rtctime v = 2 ^ 63 - 1" using 1(4) by simp
    then show False using b(2) time_inc_cases(2) by simp
  qed
  then have i: "vr_base_rtctime w = vr_base_rtctime v + 1" "vr_base_rtctime w < 2 ^ 63" using b(1) time_inc_cases(1) 1(3) by simp_all
  show ?case
  proof (cases "vr_base_rtctime w = newtime")
    case False
    then show ?thesis using 1(1) [OF w(1) False] w(2) i 1(3) by simp
  qed (use i in simp)
qed

text \<open>C40. A clock whose alarm interrupt is enabled cannot be set back. The update visits the seconds one by one and upwards only, so that it never arrives at an earlier time: it
  runs, with the lock held, until the conversion to fields fails an assertion. A guest gets there by writing an earlier century while the clock runs.\<close>

theorem rtc_backwards_panics:
  assumes "aintr_enabled v" "\<not> rtc_halted v" "0 \<le> newtime" "newtime < vr_base_rtctime v" "vr_base_rtctime v < 2 ^ 63"
  shows "vrtc_time_update C newtime base v = None"
proof -
  define u where "u = v\<lparr>vr_base_uptime := base\<rparr>"
  have u: "\<not> rtc_halted u" "aintr_enabled u" "vr_base_rtctime u = vr_base_rtctime v"
    using assms(1,2) by (simp_all add: u_def rtc_halted_def aintr_enabled_def)
  have "alarm_loop C alarm newtime u = None" for alarm
    using alarm_loop_forward [of C alarm newtime u] u(3) assms(3-5) by (cases "alarm_loop C alarm newtime u") auto
  then show ?thesis using u assms(3,4) unfolding vrtc_time_update_def Let_def u_def [symmetric] by simp
qed

section \<open>The callout follows the control registers\<close>

definition rtc_ok :: "int \<Rightarrow> vrtc \<Rightarrow> bool" where
  "rtc_ok now v \<longleftrightarrow> vr_addr v < 128 \<and> vr_base_uptime v \<le> now \<and> - 1 \<le> vr_base_rtctime v \<and> (rtc_halted v \<longrightarrow> vr_base_rtctime v = VRTC_BROKEN_TIME) \<and>
     vrtc_callout_check v (vrtc_freq v)"

lemma kept_freq:
  assumes "kept v v'" "vr_base_rtctime v' = - 1 \<longleftrightarrow> vr_base_rtctime v = - 1"
  shows "vrtc_freq v' = vrtc_freq v"
  using assms kept_flags [OF assms(1)] by (simp add: vrtc_freq_def update_enabled_def kept_def)

lemma uptime_flags [simp]:
  "rtc_halted (v\<lparr>vr_base_uptime := b\<rparr>) = rtc_halted v" "aintr_enabled (v\<lparr>vr_base_uptime := b\<rparr>) = aintr_enabled v" "vrtc_freq (v\<lparr>vr_base_uptime := b\<rparr>) = vrtc_freq v"
  by (simp_all add: rtc_halted_def aintr_enabled_def pintr_enabled_def uintr_enabled_def update_enabled_def vrtc_freq_def)

lemma time_update_ok:
  assumes "clock_ok C e" "- 1 \<le> newtime" "newtime < e" "- 1 \<le> vr_base_rtctime v" "newtime = - 1 \<or> vr_base_rtctime v \<le> newtime"
    "rtc_halted v \<Longrightarrow> newtime = - 1 \<or> newtime = vr_base_rtctime v"
  obtains v' where "vrtc_time_update C newtime nb v = Some (0, v')" "kept (v\<lparr>vr_base_uptime := nb\<rparr>) v'" "vr_base_rtctime v' = newtime"
    "rtc_halted v \<Longrightarrow> v' = v\<lparr>vr_base_uptime := nb, vr_base_rtctime := newtime\<rparr>"
proof (cases "newtime = vr_base_rtctime v \<or> newtime = - 1")
  case True
  then show ?thesis using that by (cases "newtime = vr_base_rtctime v") (auto simp: vrtc_time_update_def Let_def)
next
  case False
  define u where "u = v\<lparr>vr_base_uptime := nb\<rparr>"
  have h: "\<not> rtc_halted u" "\<not> rtc_halted v" using assms(6) False by (auto simp: u_def)
  have n: "0 \<le> newtime" "vr_base_rtctime u < newtime" using False assms(2,5) by (auto simp: u_def)
  have "\<exists>w. (if aintr_enabled u then if vr_base_rtctime v \<noteq> VRTC_BROKEN_TIME then alarm_loop C (alarm_of u) newtime u else alarm_step C (alarm_of u) newtime u
      else Some (u\<lparr>vr_base_rtctime := newtime\<rparr>)) = Some w \<and> kept u w \<and> vr_base_rtctime w = newtime"
  proof (cases "aintr_enabled u \<and> vr_base_rtctime v \<noteq> - 1")
    case True
    then have "0 \<le> vr_base_rtctime u" using assms(4) by (simp add: u_def)
    then show ?thesis using alarm_loop_spec [OF assms(1,3) h(1) _ n(2)] True by auto
  next
    case False
    obtain w where "alarm_step C (alarm_of u) newtime u = Some w" "kept u w" "vr_base_rtctime w = newtime"
      by (rule alarm_step_spec [OF assms(1) n(1) assms(3) h(1)])
    then show ?thesis using False by (cases "aintr_enabled u") auto
  qed
  then obtain w where w: "(if aintr_enabled u then if vr_base_rtctime v \<noteq> VRTC_BROKEN_TIME then alarm_loop C (alarm_of u) newtime u else alarm_step C (alarm_of u) newtime u
      else Some (u\<lparr>vr_base_rtctime := newtime\<rparr>)) = Some w" "kept u w" "vr_base_rtctime w = newtime" by blast
  have a: "alarm_of u = (vr_dev v RTC_SECALRM, vr_dev v RTC_MINALRM, vr_dev v RTC_HRSALRM)" by (simp add: u_def alarm_of_def)
  define v' where "v' = (if uintr_enabled w then vrtc_set_reg_c (reg_c w OR RTCIR_UPDATE) w else w)"
  have "vrtc_time_update C newtime nb v = Some (0, v')"
    using w(1) h(1) False unfolding vrtc_time_update_def Let_def u_def [symmetric] a [symmetric] by (simp add: v'_def)
  moreover have "kept u v'" using w(2) set_reg_c_kept kept_trans by (simp add: v'_def)
  ultimately show ?thesis using that w(3) h(2) by (simp add: v'_def u_def)
qed

lemma checked_secs: "(case p of (error, secs) \<Rightarrow> if error \<noteq> 0 \<or> secs < 0 then None else Some secs) = Some x \<Longrightarrow> 0 \<le> x" for p :: "int \<times> int"
  by (cases p) (auto split: if_splits)

lemma rtc_to_secs_ge: "- 1 \<le> rtc_to_secs C v"
  unfolding rtc_to_secs_def Let_def by (auto simp: bind_eq_Some_conv simp del: not_less dest!: checked_secs [simplified] split: option.split if_splits)

lemma freq_changed_ok:
  assumes "vrtc_callout_check v freq" "vr_callout w = vr_callout v"
  obtains c where "freq_changed freq w = Some (w\<lparr>vr_callout := c\<rparr>)" "vrtc_callout_check (w\<lparr>vr_callout := c\<rparr>) (vrtc_freq w)"
proof -
  have "\<exists>c. freq_changed freq w = Some (w\<lparr>vr_callout := c\<rparr>) \<and> vrtc_callout_check (w\<lparr>vr_callout := c\<rparr>) (vrtc_freq w)"
  proof (cases "vrtc_freq w = freq")
    case True
    then show ?thesis using assms by (intro exI [of _ "vr_callout w"]) (simp add: freq_changed_def vrtc_callout_check_def Let_def)
  next
    case False
    define c where "c = (if vrtc_freq w = 0 then if co_active (vr_callout w) then callout_stop (vr_callout w) else vr_callout w else callout_reset_sbt (vr_callout w) (vrtc_freq w))"
    have "freq_changed freq w = Some (w\<lparr>vr_callout := c\<rparr>)" using False by (simp add: freq_changed_def vrtc_callout_reset_def Let_def c_def)
    moreover have "vrtc_callout_check (w\<lparr>vr_callout := c\<rparr>) (vrtc_freq w)" by (simp add: vrtc_callout_check_def c_def callout_stop_def callout_reset_sbt_def)
    ultimately show ?thesis by blast
  qed
  then show ?thesis using that by blast
qed

lemma callout_flags [simp]:
  "rtc_halted (v\<lparr>vr_callout := c\<rparr>) = rtc_halted v" "vrtc_freq (v\<lparr>vr_callout := c\<rparr>) = vrtc_freq v"
  by (simp_all add: rtc_halted_def aintr_enabled_def pintr_enabled_def uintr_enabled_def update_enabled_def vrtc_freq_def)

text \<open>The time as it is now.\<close>

lemma curtime_ok:
  assumes "rtc_ok now v" "vrtc_get_time now v = Some t"
  obtains b where "vrtc_curtime now v = Some (t, b)" "b \<le> now" "- 1 \<le> t" "vr_base_rtctime v \<le> t" "t = - 1 \<longleftrightarrow> vr_base_rtctime v = - 1" "rtc_halted v \<Longrightarrow> t = - 1 \<and> b = vr_base_uptime v"
proof -
  obtain b where b: "vrtc_curtime now v = Some (t, b)" using assms(2) by (auto simp: vrtc_get_time_def)
  have r: "vr_base_uptime v \<le> now" "- 1 \<le> vr_base_rtctime v" "rtc_halted v \<Longrightarrow> vr_base_rtctime v = - 1" using assms(1) by (auto simp: rtc_ok_def)
  have "0 \<le> (now - vr_base_uptime v) div SBT_1S" using r(1) by (simp add: pos_imp_zdiv_nonneg_iff)
  moreover have "(now - vr_base_uptime v) div SBT_1S * SBT_1S \<le> now - vr_base_uptime v"
    using Euclidean_Rings.pos_mod_sign [of SBT_1S "now - vr_base_uptime v"] div_mult_mod_eq [of "now - vr_base_uptime v" SBT_1S] by linarith
  ultimately have "b \<le> now \<and> - 1 \<le> t \<and> vr_base_rtctime v \<le> t \<and> (t = - 1 \<longleftrightarrow> vr_base_rtctime v = - 1) \<and> (rtc_halted v \<longrightarrow> t = - 1 \<and> b = vr_base_uptime v)"
    using b r by (auto simp: vrtc_curtime_def Let_def update_enabled_def split: if_splits)
  then show ?thesis using that b by blast
qed

lemma rtc_ok_kept:
  assumes "rtc_ok now v" "kept (v\<lparr>vr_base_uptime := b\<rparr>) v'" "b \<le> now'" "- 1 \<le> vr_base_rtctime v'" "vr_base_rtctime v' = - 1 \<longleftrightarrow> vr_base_rtctime v = - 1"
  shows "rtc_ok now' v'"
proof -
  have "vrtc_freq v' = vrtc_freq v" using kept_freq [OF assms(2)] assms(5) by simp
  moreover have "rtc_halted v' = rtc_halted v" using kept_flags(1) [OF assms(2)] by simp
  ultimately show ?thesis using assms by (simp add: rtc_ok_def kept_def vrtc_callout_check_def)
qed

text \<open>The part of an access to the data port that is common to reads and writes.\<close>

lemma catch_up_ok:
  assumes "clock_ok C e" "rtc_ok now v" "vrtc_get_time now v = Some t" "t < e"
  obtains b v' where "vrtc_curtime now v = Some (t, b)" "vrtc_time_update C t b v = Some (0, v')" "rtc_ok now v'" "vr_addr v' = vr_addr v" "vr_base_rtctime v' = t"
    "rtc_halted v' = rtc_halted v" "rtc_halted v \<Longrightarrow> v' = v" "kept (v\<lparr>vr_base_uptime := b\<rparr>) v'"
proof -
  obtain b where b: "vrtc_curtime now v = Some (t, b)" "b \<le> now" "- 1 \<le> t" "vr_base_rtctime v \<le> t" "t = - 1 \<longleftrightarrow> vr_base_rtctime v = - 1" "rtc_halted v \<Longrightarrow> t = - 1 \<and> b = vr_base_uptime v"
    by (rule curtime_ok [OF assms(2,3)]) (rule that)
  have r: "- 1 \<le> vr_base_rtctime v" using assms(2) by (simp add: rtc_ok_def)
  obtain v' where v': "vrtc_time_update C t b v = Some (0, v')" "kept (v\<lparr>vr_base_uptime := b\<rparr>) v'" "vr_base_rtctime v' = t"
    "rtc_halted v \<Longrightarrow> v' = v\<lparr>vr_base_uptime := b, vr_base_rtctime := t\<rparr>"
    by (rule time_update_ok [OF assms(1) b(3) assms(4) r, of b]) (use b in auto)
  have "v' = v" if h: "rtc_halted v"
  proof -
    have "vr_base_rtctime v = t" "b = vr_base_uptime v" using b(5,6) h by simp_all
    then show ?thesis using v'(4) [OF h] by simp
  qed
  moreover have "rtc_ok now v'" by (rule rtc_ok_kept [OF assms(2) v'(2) b(2)]) (use v'(3) b(3,5) in simp_all)
  moreover have "vr_addr v' = vr_addr v" "rtc_halted v' = rtc_halted v" using v'(2) kept_flags(1) [OF v'(2)] by (simp_all add: kept_def)
  ultimately show ?thesis using that b(1) v' by blast
qed

lemma set_dev_simps [simp]:
  "vr_callout (set_dev k x v) = vr_callout v" "vr_base_rtctime (set_dev k x v) = vr_base_rtctime v" "vr_base_uptime (set_dev k x v) = vr_base_uptime v"
  "vr_addr (set_dev k x v) = vr_addr v" "vr_dev (set_dev k x v) = (vr_dev v)(k := x)"
  by (simp_all add: set_dev_def)

lemma set_data_ok: "rtc_ok now v \<Longrightarrow> k \<noteq> RTC_STATUSA \<Longrightarrow> k \<noteq> RTC_STATUSB \<Longrightarrow> rtc_ok now (set_dev k x v)"
proof -
  assume "rtc_ok now v" "k \<noteq> RTC_STATUSA" "k \<noteq> RTC_STATUSB"
  moreover from this(2,3) have "rtc_halted (set_dev k x v) = rtc_halted v" "vrtc_freq (set_dev k x v) = vrtc_freq v"
    by (simp_all add: rtc_halted_def vrtc_freq_def pintr_enabled_def aintr_enabled_def uintr_enabled_def update_enabled_def)
  ultimately show ?thesis by (simp add: rtc_ok_def vrtc_callout_check_def)
qed

lemma set_reg_a_ok:
  assumes "rtc_ok now v" "now \<le> now'"
  shows "\<exists>v'. vrtc_set_reg_a now' val v = Some v' \<and> rtc_ok now' v'"
proof -
  define w where "w = set_dev RTC_STATUSA (val AND NOT RTCSA_TUP) (if \<not> divider_enabled (vr_dev v RTC_STATUSA) \<and> divider_enabled (val AND NOT RTCSA_TUP) then v\<lparr>vr_base_uptime := now'\<rparr> else v)"
  have c: "vrtc_callout_check v (vrtc_freq v)" "vr_callout w = vr_callout v" using assms(1) by (simp_all add: rtc_ok_def w_def)
  obtain c where f: "freq_changed (vrtc_freq v) w = Some (w\<lparr>vr_callout := c\<rparr>)" "vrtc_callout_check (w\<lparr>vr_callout := c\<rparr>) (vrtc_freq w)"
    by (rule freq_changed_ok [OF c]) (rule that)
  have "rtc_halted w = rtc_halted v" "vr_addr w = vr_addr v" "vr_base_rtctime w = vr_base_rtctime v" "vr_base_uptime w \<le> now'"
    using assms by (simp_all add: w_def rtc_halted_def rtc_ok_def)
  then have "rtc_ok now' (w\<lparr>vr_callout := c\<rparr>)" using f(2) assms(1) by (simp add: rtc_ok_def)
  then show ?thesis using f(1) unfolding vrtc_set_reg_a_def Let_def w_def [symmetric] by blast
qed

lemma flag_bits: "x AND RTCSB_HALT \<noteq> 0 \<longleftrightarrow> bit x 7" for x :: u8
  using and_push_bit_1_neq_0 [of x 7] by simp

text \<open>What is left of a state before the callout is looked at.\<close>

definition pre_ok :: "int \<Rightarrow> vrtc \<Rightarrow> bool" where
  "pre_ok now v \<longleftrightarrow> vr_addr v < 128 \<and> vr_base_uptime v \<le> now \<and> - 1 \<le> vr_base_rtctime v \<and> (rtc_halted v \<longrightarrow> vr_base_rtctime v = VRTC_BROKEN_TIME)"

lemma freq_tail_ok:
  assumes "vrtc_callout_check v freq" "vr_callout w = vr_callout v" "pre_ok now w"
  shows "\<exists>v'. freq_changed freq (if b then vrtc_set_reg_c x w else w) = Some v' \<and> rtc_ok now v'"
proof -
  define z where "z = (if b then vrtc_set_reg_c x w else w)"
  have "vr_callout z = vr_callout v" using assms(2) by (simp add: z_def)
  then obtain c where f: "freq_changed freq z = Some (z\<lparr>vr_callout := c\<rparr>)" "vrtc_callout_check (z\<lparr>vr_callout := c\<rparr>) (vrtc_freq z)"
    by (rule freq_changed_ok [OF assms(1)])
  have k: "kept w z" using set_reg_c_kept by (simp add: z_def)
  have "rtc_halted z = rtc_halted w" "vr_base_rtctime z = vr_base_rtctime w" using kept_flags(1) [OF k] by (simp_all add: z_def)
  then have "pre_ok now z" using assms(3) k by (simp add: pre_ok_def kept_def)
  then have "rtc_ok now (z\<lparr>vr_callout := c\<rparr>)" using f(2) by (simp add: rtc_ok_def pre_ok_def)
  then show ?thesis using f(1) unfolding z_def by blast
qed

lemma halt_changed_ok:
  assumes "clock_ok C e" "- 1 \<le> vr_base_rtctime w" "vr_base_rtctime w < e" "vr_addr w < 128" "vr_base_uptime w \<le> now"
    "\<not> rtc_halted w \<Longrightarrow> vr_base_rtctime w = - 1 \<and> rtc_to_secs C w < e"
  shows "\<exists>r. halt_changed C flag now w = Some r \<and> (\<forall>z. r = Some z \<longrightarrow> pre_ok now z \<and> vr_callout z = vr_callout w)"
proof (cases "rtc_halted w")
  case True
  then have c: "vrtc_curtime now w = Some (vr_base_rtctime w, vr_base_uptime w)" by (simp add: vrtc_curtime_def update_enabled_def)
  obtain x where x: "secs_to_rtc C (vr_base_rtctime w) True w = Some x" using secs_to_rtc_Some [OF assms(1) _ assms(3)] assms(2) by force
  define y where "y = set_dev RTC_STATUSB (reg_b x AND NOT RTCSB_UINTR) x"
  have k: "kept w x" "vr_base_rtctime x = vr_base_rtctime w" using secs_to_rtc_kept [OF x] by simp_all
  have y: "vr_base_rtctime y = vr_base_rtctime w" "vr_addr y = vr_addr w" "vr_callout y = vr_callout w" using k by (simp_all add: y_def kept_def)
  have e: "- 1 < e" using assms(1) by (simp add: clock_ok_def)
  obtain z where z: "vrtc_time_update C VRTC_BROKEN_TIME (vr_base_uptime w) y = Some (0, z)" "kept (y\<lparr>vr_base_uptime := vr_base_uptime w\<rparr>) z" "vr_base_rtctime z = - 1"
    by (rule time_update_ok [OF assms(1) order_refl e, of y]) (use y(1) assms(2) in simp_all)
  have "pre_ok now z" "vr_callout z = vr_callout w" using z(2,3) y assms(4,5) by (simp_all add: pre_ok_def kept_def)
  then show ?thesis using True c x z(1) by (simp add: halt_changed_def y_def)
next
  case False
  note w = assms(6) [OF False]
  obtain z where z: "vrtc_time_update C (rtc_to_secs C w) now w = Some (0, z)" "kept (w\<lparr>vr_base_uptime := now\<rparr>) z" "vr_base_rtctime z = rtc_to_secs C w"
    by (rule time_update_ok [OF assms(1) rtc_to_secs_ge, of C w w now]) (use w False rtc_to_secs_ge [of C w] in simp_all)
  have "pre_ok now z" "vr_callout z = vr_callout w"
    using z(2,3) kept_flags(1) [OF z(2)] False assms(4) rtc_to_secs_ge [of C w] by (simp_all add: pre_ok_def kept_def)
  then show ?thesis using False z(1) by (simp add: halt_changed_def Let_def)
qed

lemma set_reg_b_ok:
  assumes "clock_ok C e" "rtc_ok now v" "now \<le> now'" "vr_base_rtctime v < e" "rtc_halted v \<Longrightarrow> rtc_to_secs C (set_dev RTC_STATUSB val v) < e"
  shows "\<exists>error v'. vrtc_set_reg_b C flag now' val v = Some (error, v') \<and> (error = - 1 \<or> error = 0 \<and> rtc_ok now' v')"
proof -
  define w where "w = set_dev RTC_STATUSB val v"
  define changed where "changed = reg_b v XOR val"
  have r: "vr_addr v < 128" "vr_base_uptime v \<le> now" "- 1 \<le> vr_base_rtctime v" "rtc_halted v \<Longrightarrow> vr_base_rtctime v = - 1" "vrtc_callout_check v (vrtc_freq v)"
    using assms(2) by (auto simp: rtc_ok_def)
  have ch: "changed AND RTCSB_HALT \<noteq> 0 \<longleftrightarrow> rtc_halted v \<noteq> rtc_halted w"
    by (simp add: flag_bits changed_def bit_xor_iff rtc_halted_def w_def del: not_None_eq)
  have "\<exists>r. (if changed AND RTCSB_HALT \<noteq> 0 then halt_changed C flag now' w else Some (Some w)) = Some r \<and>
      (\<forall>z. r = Some z \<longrightarrow> pre_ok now' z \<and> vr_callout z = vr_callout v)"
  proof (cases "changed AND RTCSB_HALT \<noteq> 0")
    case True
    then show ?thesis using halt_changed_ok [OF assms(1), of w now' flag] ch r assms(3,4,5) by (auto simp: w_def)
  next
    case False
    have "pre_ok now' w" using False ch r assms(3) by (simp add: pre_ok_def) (simp add: w_def)
    then show ?thesis using False by (simp add: w_def)
  qed
  then obtain r where h: "(if changed AND RTCSB_HALT \<noteq> 0 then halt_changed C flag now' w else Some (Some w)) = Some r"
      "\<And>z. r = Some z \<Longrightarrow> pre_ok now' z \<and> vr_callout z = vr_callout v" by blast
  show ?thesis
  proof (cases r)
    case None
    then show ?thesis using h(1) unfolding vrtc_set_reg_b_def Let_def w_def [symmetric] changed_def [symmetric] by simp
  next
    case (Some z)
    obtain v' where "freq_changed (vrtc_freq v) (if changed AND RTCSB_ALL_INTRS \<noteq> 0 then vrtc_set_reg_c (reg_c z) z else z) = Some v'" "rtc_ok now' v'"
      using freq_tail_ok [OF r(5), of z now'] h(2) [OF Some] by blast
    then show ?thesis using h(1) Some unfolding vrtc_set_reg_b_def Let_def w_def [symmetric] changed_def [symmetric] by simp
  qed
qed

section \<open>The data port and the callout\<close>

lemma rtc_write_ok:
  assumes "clock_ok C e" "rtc_ok now w" "now \<le> now'" "vr_base_rtctime w < e" "vr_addr w = RTC_STATUSB \<Longrightarrow> rtc_halted w \<Longrightarrow> rtc_to_secs C (set_dev RTC_STATUSB val w) < e"
  shows "\<exists>error v'. rtc_write C flag now' val w = Some (error, v') \<and> (error = - 1 \<and> vr_addr w = RTC_STATUSB \<or> rtc_ok now' v') \<and>
    (vr_addr w = RTC_CENTURY \<longrightarrow> rtc_halted v' = rtc_halted w)"
proof -
  have later: "rtc_ok now' w" using assms(2,3) by (simp add: rtc_ok_def)
  consider "vr_addr w = RTC_STATUSA" | "vr_addr w = RTC_STATUSB" | "vr_addr w = RTC_INTR \<or> vr_addr w = RTC_STATUSD"
    | "vr_addr w \<notin> {RTC_STATUSA, RTC_STATUSB, RTC_INTR, RTC_STATUSD}" by blast
  then show ?thesis
  proof cases
    case 1
    then show ?thesis using set_reg_a_ok [OF assms(2,3), of val] by (auto simp: rtc_write_def)
  next
    case 2
    then show ?thesis using set_reg_b_ok [OF assms(1-4), of val flag] assms(5) by (auto simp: rtc_write_def)
  next
    case 3
    then show ?thesis using later by (auto simp: rtc_write_def)
  next
    case 4
    then show ?thesis using set_data_ok [OF later, of "vr_addr w" val] by (auto simp: rtc_write_def rtc_halted_def)
  qed
qed

lemma data_handler_ok:
  assumes "clock_ok C e" "rtc_ok now v" "now \<le> now'" "vrtc_get_time now v = Some t" "t < e"
    "\<not> inp \<Longrightarrow> vr_addr v = RTC_CENTURY \<Longrightarrow> rtc_halted v" "\<not> inp \<Longrightarrow> vr_addr v = RTC_STATUSB \<Longrightarrow> rtc_halted v \<Longrightarrow> rtc_to_secs C (set_dev RTC_STATUSB (ucast val) v) < e"
  shows "\<exists>error val' v'. vrtc_data_handler C flag now now' inp bytes val v = Some (error, val', v') \<and> (error = - 1 \<and> \<not> inp \<and> vr_addr v = RTC_STATUSB \<or> rtc_ok now' v')"
proof (cases "bytes = 1")
  case False
  then show ?thesis using assms(2,3) by (auto simp: vrtc_data_handler_def rtc_ok_def)
next
  case True
  have a: "vr_addr v < 128" using assms(2) by (simp add: rtc_ok_def)
  obtain b u where u: "vrtc_curtime now v = Some (t, b)" "vrtc_time_update C t b v = Some (0, u)" "rtc_ok now u" "vr_addr u = vr_addr v" "vr_base_rtctime u = t"
      "rtc_halted u = rtc_halted v" "rtc_halted v \<Longrightarrow> u = v"
    by (rule catch_up_ok [OF assms(1,2,4,5)]) (rule that)
  have t: "t = - 1 \<or> 0 \<le> t" using u(3,5) by (auto simp: rtc_ok_def)
  obtain x where x: "secs_to_rtc C t False u = Some x" using secs_to_rtc_Some [OF assms(1) t assms(5)] by blast
  define w where "w = (if vr_addr v < 10 \<or> vr_addr v = RTC_CENTURY then x else u)"
  have k: "kept u w" "vr_base_rtctime w = t" using secs_to_rtc_kept [OF x] u(5) by (simp_all add: w_def)
  have k': "kept (u\<lparr>vr_base_uptime := vr_base_uptime u\<rparr>) w" using k(1) by simp
  have up: "vr_base_uptime u \<le> now" "vr_base_uptime u \<le> now'" using u(3) assms(3) by (auto simp: rtc_ok_def)
  have w: "rtc_ok now w" "rtc_ok now' w" "vr_addr w = vr_addr v" "rtc_halted w = rtc_halted v"
    using rtc_ok_kept [OF u(3) k'] up t k(1,2) u(4-6) kept_flags(1) [OF k(1)] by (auto simp: kept_def)
  have pre: "(if vr_addr v < 10 \<or> vr_addr v = RTC_CENTURY then secs_to_rtc C t False u else Some u) = Some w" using x by (simp add: w_def)
  have c0: "rtc_ok now' (vrtc_set_reg_c 0 w)"
    by (rule rtc_ok_kept [OF w(2), of "vr_base_uptime w"]) (use set_reg_c_kept w(2) in \<open>simp_all add: rtc_ok_def\<close>)
  show ?thesis
  proof (cases inp)
    case True
    then show ?thesis using \<open>bytes = 1\<close> a u(1,2) pre w(2) c0 by (cases "vr_addr v = RTC_INTR") (simp_all add: vrtc_data_handler_def)
  next
    case False
    define d where "d = (if vr_addr v = RTC_SEC then val AND 0x7f else val)"
    have "rtc_to_secs C (set_dev RTC_STATUSB (ucast d) w) < e" if "vr_addr w = RTC_STATUSB" "rtc_halted w"
      using assms(7) [OF False] that w(3,4) u(7) by (simp add: w_def d_def)
    then obtain error v' where v': "rtc_write C flag now' (ucast d) w = Some (error, v')" "error = - 1 \<and> vr_addr v = RTC_STATUSB \<or> rtc_ok now' v'"
        "vr_addr v = RTC_CENTURY \<Longrightarrow> rtc_halted v'"
      using rtc_write_ok [OF assms(1) w(1) assms(3), of "ucast d" flag] k(2) assms(5) assms(6) [OF False] unfolding w(3,4) by blast
    then show ?thesis using \<open>bytes = 1\<close> a u(1,2) pre False by (auto simp: vrtc_data_handler_def d_def [symmetric])
  qed
qed

lemma freq_intr: "vrtc_freq v \<noteq> 0 \<Longrightarrow> reg_b v AND RTCSB_ALL_INTRS \<noteq> 0"
proof -
  assume "vrtc_freq v \<noteq> 0"
  then have "pintr_enabled v \<or> aintr_enabled v \<or> uintr_enabled v" by (auto simp: vrtc_freq_def split: if_splits)
  moreover have "x AND k = 0" if "x AND m = 0" "m AND k = k" for x m k :: u8
    using that(1) and.assoc [of x m k] by (simp add: that(2))
  from this [of "reg_b v" RTCSB_ALL_INTRS] have "reg_b v AND 0x70 = 0 \<Longrightarrow> reg_b v AND 0x10 = 0 \<and> reg_b v AND 0x20 = 0 \<and> reg_b v AND 0x40 = 0" by simp
  ultimately show ?thesis by (auto simp: pintr_enabled_def aintr_enabled_def uintr_enabled_def)
qed

definition rtc_expire :: "vrtc \<Rightarrow> vrtc" where
  "rtc_expire v = v\<lparr>vr_callout := (vr_callout v)\<lparr>co_pending := False\<rparr>\<rparr>"

lemma callout_handler_ok:
  assumes "clock_ok C e" "rtc_ok now v" "vrtc_get_time now v = Some t" "t < e"
  shows "\<exists>v'. vrtc_callout_handler C now (rtc_expire v) = Some v' \<and> rtc_ok now v'"
proof (cases "co_active (vr_callout v)")
  case False
  then show ?thesis using assms(2) by (simp add: vrtc_callout_handler_def rtc_expire_def rtc_ok_def vrtc_callout_check_def)
next
  case True
  have f: "vrtc_freq v \<noteq> 0" using assms(2) True by (simp add: rtc_ok_def vrtc_callout_check_def)
  obtain b where b: "vrtc_curtime now v = Some (t, b)" "b \<le> now" "- 1 \<le> t" "vr_base_rtctime v \<le> t" "t = - 1 \<longleftrightarrow> vr_base_rtctime v = - 1" "rtc_halted v \<Longrightarrow> t = - 1 \<and> b = vr_base_uptime v"
    by (rule curtime_ok [OF assms(2,3)]) (rule that)
  define x where "x = v\<lparr>vr_callout := callout_deactivate ((vr_callout v)\<lparr>co_pending := False\<rparr>)\<rparr>"
  define y where "y = (if pintr_enabled x then vrtc_set_reg_c (reg_c x OR RTCIR_PERIOD) x else x)"
  have xy: "kept x y" "vr_base_rtctime y = vr_base_rtctime v" "vr_base_uptime y = vr_base_uptime v" using set_reg_c_kept by (simp_all add: y_def x_def)
  have fl: "rtc_halted y = rtc_halted v" "vrtc_freq y = vrtc_freq v" using kept_flags(1) [OF xy(1)] kept_freq [OF xy(1)] xy(2) by (simp_all add: x_def)
  have "update_enabled y = update_enabled v" using xy fl(1) by (simp add: update_enabled_def kept_def x_def)
  then have cur: "vrtc_curtime now y = Some (t, b)" using b(1) unfolding vrtc_curtime_def xy(2,3) by simp
  have base: "- 1 \<le> vr_base_rtctime y" using assms(2) xy(2) by (simp add: rtc_ok_def)
  obtain z0 where z0: "vrtc_time_update C t b y = Some (0, z0)" "kept (y\<lparr>vr_base_uptime := b\<rparr>) z0" "vr_base_rtctime z0 = t"
    by (rule time_update_ok [OF assms(1) b(3) assms(4) base, of b]) (use b(4-6) xy(2) fl(1) in auto)
  define z where "z = (if aintr_enabled y \<or> uintr_enabled y then z0 else y)"
  have z: "vrtc_freq z = vrtc_freq v" "rtc_halted z = rtc_halted v" "vr_addr z = vr_addr v" "vr_base_uptime z \<le> now" "- 1 \<le> vr_base_rtctime z" "rtc_halted v \<Longrightarrow> vr_base_rtctime z = - 1"
    using kept_freq [OF z0(2)] kept_flags(1) [OF z0(2)] z0(2,3) xy fl b assms(2) base by (auto simp: z_def kept_def x_def rtc_ok_def)
  have "vrtc_callout_handler C now (rtc_expire v) = Some (vrtc_callout_reset (vrtc_freq z) z)"
  proof -
    have "reg_b x = reg_b v" by (simp add: x_def)
    then show ?thesis using True f freq_intr [OF f] cur z0(1) z(1) unfolding vrtc_callout_handler_def rtc_expire_def
      by (cases "aintr_enabled y \<or> uintr_enabled y") (simp_all add: x_def [symmetric] y_def [symmetric] z_def Let_def)
  qed
  moreover have "rtc_ok now (vrtc_callout_reset (vrtc_freq z) z)"
    using z f assms(2) by (auto simp: vrtc_callout_reset_def rtc_ok_def vrtc_callout_check_def callout_reset_sbt_def)
  ultimately show ?thesis by blast
qed


lemma bad_century: "rtcget (vr_dev v) (vr_dev v RTC_CENTURY) = None \<Longrightarrow> rtc_to_secs C v = - 1"
  unfolding rtc_to_secs_def Let_def by (simp split: option.split bind_split)


section \<open>A calendar for examples\<close>

text \<open>Twelve months of 31 days: a calendar that keeps the promises of \<open>clock_ok\<close>.\<close>

definition even_months :: rtc_clock where
  "even_months =
     \<lparr>ts_to_ct = (\<lambda>t. let d = t div 86400; s = t mod 86400; m = d div 31
        in \<lparr>ct_year = 1970 + m div 12, ct_mon = m mod 12 + 1, ct_day = d mod 31 + 1, ct_hour = s div 3600, ct_min = s mod 3600 div 60, ct_sec = s mod 60, ct_dow = d mod 7\<rparr>),
      ct_to_ts = (\<lambda>ct. (0, ((((ct_year ct - 1970) * 12 + (ct_mon ct - 1)) * 31 + (ct_day ct - 1)) * 24 + ct_hour ct) * 3600 + ct_min ct * 60 + ct_sec ct))\<rparr>"

lemma digit_bounds: "0 < k \<Longrightarrow> j = k - 1 \<Longrightarrow> 0 \<le> n mod k \<and> n mod k \<le> j" for n k j :: int
  by (simp add: zle_diff1_eq)

lemma quotient_bounds:
  fixes n k m j K :: int
  assumes "0 \<le> n" "n < K" "K = k * m" "0 < k" "j = m - 1"
  shows "0 \<le> n div k \<and> n div k \<le> j"
proof -
  have "k * (n div k) \<le> n" using assms(4) mult_div_mod_eq [of k n] pos_mod_sign [of k n] by linarith
  then have "k * (n div k) < k * m" using assms(2,3) by linarith
  then have "n div k < m" using assms(4) by (simp add: mult_less_cancel_left_pos)
  then show ?thesis using assms by (simp add: pos_imp_zdiv_nonneg_iff)
qed

lemma even_months_valid:
  assumes "0 \<le> s \<and> s \<le> 59" "0 \<le> n \<and> n \<le> 59" "0 \<le> h \<and> h \<le> 23" "0 \<le> w \<and> w \<le> 6" "0 \<le> d \<and> d \<le> 30" "0 \<le> m \<and> m \<le> 11" "0 \<le> y"
  shows "ct_valid \<lparr>ct_year = 1970 + y, ct_mon = m + 1, ct_day = d + 1, ct_hour = h, ct_min = n, ct_sec = s, ct_dow = w\<rparr>"
  using assms by (simp add: ct_valid_def)

lemma calendar_digits:
  fixes t :: int
  assumes "q * 86400 + r = t" "h * 3600 + s = r" "n * 60 + c = s" "m * 31 + d = q" "y * 12 + k = m"
  shows "(((y * 12 + k) * 31 + d) * 24 + h) * 3600 + n * 60 + c = t"
  unfolding assms(5,4) using assms(1-3) by simp

lemma even_months_back:
  fixes t :: int
  shows "(((t div 86400 div 31 div 12 * 12 + t div 86400 div 31 mod 12) * 31 + t div 86400 mod 31) * 24 + t mod 86400 div 3600) * 3600 + t mod 86400 mod 3600 div 60 * 60 + t mod 86400 mod 60 = t"
proof -
  have c: "t mod 86400 mod 60 = t mod 86400 mod 3600 mod 60" by (rule mod_mod_cancel [symmetric]) simp
  show ?thesis unfolding c by (rule calendar_digits; rule div_mult_mod_eq)
qed

lemma even_months_ok: "clock_ok even_months 258090624000"
proof -
  have "ct_valid (ts_to_ct even_months t)" if "0 \<le> t" for t
  proof -
    have s: "0 \<le> t mod 86400" "t mod 86400 < 86400" "0 \<le> t mod 86400 mod 3600" "t mod 86400 mod 3600 < 3600" by simp_all
    have h: "0 \<le> t mod 86400 div 3600 \<and> t mod 86400 div 3600 \<le> 23" using s(1,2) by (rule quotient_bounds [where m = 24]) simp_all
    have m: "0 \<le> t mod 86400 mod 3600 div 60 \<and> t mod 86400 mod 3600 div 60 \<le> 59" using s(3,4) by (rule quotient_bounds [where m = 60]) simp_all
    have y: "0 \<le> t div 86400 div 31 div 12" using that by (simp add: pos_imp_zdiv_nonneg_iff)
    have d: "0 \<le> t mod 86400 mod 60 \<and> t mod 86400 mod 60 \<le> 59" "0 \<le> t div 86400 mod 7 \<and> t div 86400 mod 7 \<le> 6"
      "0 \<le> t div 86400 mod 31 \<and> t div 86400 mod 31 \<le> 30" "0 \<le> t div 86400 div 31 mod 12 \<and> t div 86400 div 31 mod 12 \<le> 11"
      by (rule digit_bounds; simp)+
    show ?thesis unfolding even_months_def Let_def rtc_clock.select_convs by (rule even_months_valid [OF d(1) m h d(2,3,4) y])
  qed
  moreover have "ct_year (ts_to_ct even_months t) < 10000 \<longleftrightarrow> t < 258090624000" for t
  proof -
    have "t div 86400 div 31 div 12 = t div (86400 * 31 * 12)" by (simp only: zdiv_zmult2_eq [symmetric] zero_le_numeral mult.assoc)
    then have d: "t div 86400 div 31 div 12 = t div 32140800" by simp
    have "t div 32140800 < 8030 \<longleftrightarrow> t < 258090624000" by linarith
    then have "1970 + t div 32140800 < 10000 \<longleftrightarrow> t < 258090624000" by simp
    then show ?thesis unfolding even_months_def Let_def by (simp only: rtc_clock.simps clocktime.simps d)
  qed
  moreover have "ct_to_ts even_months ((ts_to_ct even_months t)\<lparr>ct_dow := d\<rparr>) = (0, t)" for t d
    unfolding even_months_def Let_def by (simp only: rtc_clock.simps clocktime.simps add_diff_cancel_left' add_diff_cancel_right' even_months_back)
  ultimately show ?thesis by (simp add: clock_ok_def)
qed

text \<open>A running clock with the alarm interrupt enabled and an alarm at every second.\<close>

definition rtc_demo :: vrtc where
  "rtc_demo = \<lparr>vr_callout = \<lparr>co_active = True, co_pending = True, co_sbt = SBT_1S\<rparr>, vr_addr = RTC_CENTURY, vr_base_uptime = 0, vr_base_rtctime = 1000,
     vr_dev = (\<lambda>_. 0)(RTC_SECALRM := 0xC0, RTC_MINALRM := 0xC0, RTC_HRSALRM := 0xC0, RTC_STATUSA := 0x20, RTC_STATUSB := RTCSB_AINTR OR RTCSB_24HR), vr_pulses = 0\<rparr>"

lemma rtc_demo_flags:
  "\<not> rtc_halted rtc_demo" "aintr_enabled rtc_demo" "\<not> pintr_enabled rtc_demo" "update_enabled rtc_demo" "vr_base_rtctime rtc_demo = 1000" "vr_addr rtc_demo = RTC_CENTURY"
  by (simp_all add: rtc_demo_def rtc_halted_def aintr_enabled_def pintr_enabled_def update_enabled_def divider_enabled_def)

lemma rtc_demo_ok: "rtc_ok 0 rtc_demo" "vrtc_get_time 0 rtc_demo = Some 1000"
  using rtc_demo_flags unfolding rtc_ok_def vrtc_callout_check_def vrtc_freq_def vrtc_get_time_def vrtc_curtime_def by (simp_all, simp_all add: rtc_demo_def)

theorem rtc_time_roundtrip_witness: "\<exists>v'. secs_to_rtc even_months 1000000 True rtc_demo = Some v' \<and> rtc_to_secs even_months v' = 1000000"
  using rtc_time_roundtrip [OF even_months_ok, of 1000000 rtc_demo] by simp

theorem rtc_alarm_exact_witness:
  "\<exists>v'. vrtc_time_update even_months 1002 0 rtc_demo = Some (0, v') \<and> vr_base_rtctime v' = 1002 \<and> vr_base_uptime v' = 0 \<and>
    (reg_c v' AND 0x20 \<noteq> 0 \<longleftrightarrow> reg_c rtc_demo AND 0x20 \<noteq> 0 \<or> (\<exists>t. 1000 < t \<and> t \<le> 1002 \<and> alarm_due even_months rtc_demo t))"
  using rtc_alarm_exact [OF even_months_ok _ rtc_demo_flags(1,2), of 1002 0] by (simp add: rtc_demo_flags(5))

theorem rtc_backwards_panics_witness: "vrtc_time_update even_months 500 0 rtc_demo = None"
  by (rule rtc_backwards_panics) (simp_all add: rtc_demo_flags)



end
