(* ===== verification/Spec2Isabelle.thy ===== *)
theory Spec2Isabelle
  imports Vatpic Vioapic Vatpit Memdisk Microbios Blockif_Proc Virtio Uart Atkbdc Page_Walk Decode_Roundtrip Emul_Flags Kernel_Mmio Vrtc
begin

text \<open>
  A verification library for the virtual machine monitor of this repository: the \<^verbatim>\<open>vmm\<close> kernel module
  (\<^verbatim>\<open>src/bios/vmm\<close>), the \<^verbatim>\<open>bhyve\<close> process (\<^verbatim>\<open>src/bios/bhyve\<close>) and
  the legacy BIOS that is split between a ROM and that process.

  \<^bold>\<open>The program.\<close> The kernel module runs the virtual processors and emulates the interrupt controllers and
  timers; the process emulates the other devices and serves the BIOS calls of the ROM. Devices raise lines at the two
  controllers; the I/O APIC turns them into messages for the local APICs; block requests go through the queues of the
  block backend to worker threads; paravirtual devices share rings of descriptors in guest memory with their drivers;
  characters pass through small FIFOs between a terminal, a keyboard or a mouse and the guest.

  \<^bold>\<open>Conventions.\<close> A C structure is a record, an enumeration a datatype, an integer of \<open>w\<close> bits a word
  (\<open>u8\<close> to \<open>u64\<close>) wherever its width matters. Operations take and return the state explicitly; a
  panic, a failed assertion or a null dereference is a value of an option or sum type, so that its absence is a theorem.
  Calls that leave the part being modelled (an interrupt to a vcpu, a pulse of a line, a callout) append to a list of
  events in the state. Locks are left out: one entry point is one step; the block backend, whose threads release the
  lock in the middle, has a step relation of its own. Reads of the clock, \<open>bintime\<close> arithmetic and system calls
  are parameters, with what the code relies on as named hypotheses.

  \<^bold>\<open>Theories.\<close>
  \<^item> \<open>Prelude\<close>: word types, error numbers, bit idioms; \<open>Guest_Mem\<close>: guest memory as bytes and
    little-endian fields; \<open>Kernel_Time\<close>: time stamps and callouts; \<open>Pin_Counter\<close>: the contract
    of counted interrupt pins (locale \<open>pin_counter\<close>, interpreted by both controllers); \<open>Byte_Fifo\<close>: the
    contract of bounded byte queues (locale \<open>byte_fifo\<close>, interpreted by the ring of the serial port, the keyboard, the
    mouse and the buffer of the keyboard controller).
  \<^item> \<open>Vatpic\<close> (\<^verbatim>\<open>vmm/io/vatpic.c\<close>): the 8259 pair. Priority resolution is exactly the rule of the
    chip; no request is lost; the acknowledge cycle; the recursion between the chips ends; an invariant of reachable states.
  \<^item> \<open>Vlapic\<close> and \<open>Lapic_Vm\<close> (\<^verbatim>\<open>vmm/io/vlapic.c\<close>, \<^verbatim>\<open>vmm/vmm_lapic.c\<close>): one local
    APIC (bitmaps of vectors under locale \<open>vector_bitmap\<close>, priorities, EOI, timer) and those of a whole machine with
    destination computation and interprocessor interrupts. Offered vectors are the highest deliverable ones, the stack of
    vectors in service agrees with the ISR, and the only panic left is named.
  \<^item> \<open>Vioapic\<close> (\<^verbatim>\<open>vmm/io/vioapic.c\<close>): redirection entries, delivery, EOI; an asserted level line is never
    forgotten.
  \<^item> \<open>Vatpit\<close> (\<^verbatim>\<open>vmm/io/vatpit.c\<close>): the interval timer; the one access that traps.
  \<^item> \<open>Memdisk\<close>, \<open>Blockif\<close>, \<open>Microbios\<close> (\<^verbatim>\<open>bhyve/memdisk.c\<close>, \<^verbatim>\<open>block_if.c\<close>,
    \<^verbatim>\<open>microbios.c\<close>): memory disks, the synchronous block interface (locale \<open>block_device\<close>) and the BIOS
    services: a write is read back through the whole protocol, the error paths, the memory map.
  \<^item> \<open>Blockif_Queue\<close> and \<open>Blockif_Proc\<close> (\<^verbatim>\<open>block_if.c\<close>): the request queues with their worker
    threads as an inductive step relation (requests are conserved, no wakeup is lost), and the transfer of one request,
    bounced or direct.
  \<^item> \<open>Virtio\<close> (\<^verbatim>\<open>bhyve/virtio.c\<close>): descriptor chains from hostile memory, the used ring as a refinement
    of a sequence, the legacy registers.
  \<^item> \<open>Uart\<close> (\<^verbatim>\<open>uart_emul.c\<close>), \<open>Ps2\<close> (\<^verbatim>\<open>ps2kbd.c\<close>, \<^verbatim>\<open>ps2mouse.c\<close>) and \<open>Atkbdc\<close>
    (\<^verbatim>\<open>atkbdc.c\<close>): the receive path of the serial port refines a queue; keys reach a polling guest as their scan
    codes in order; movement survives its encoding.
  \<^item> \<open>Vcpu\<close> and \<open>Vm_Mem\<close> (\<^verbatim>\<open>vmm/vmm.c\<close>): events of a vcpu up to the one that the next entry delivers,
    as a refinement of the rules for nested events; memory segments and mappings, which never overlap.
  \<^item> \<open>Guest_Paging\<close> and \<open>Page_Walk\<close> (\<^verbatim>\<open>vmm/vmm_instruction_emul.c\<close>, \<^verbatim>\<open>vmm/vmm.c\<close>): segment checks,
    page walks with their updates of guest memory and the copies over them; equivalence with a walk that marks its entries at the
    end (locale \<open>pt_layout\<close>, interpreted for 32-bit and 64-bit entries), permissions, termination, round trip of copies.
  \<^item> \<open>Instr_Decode\<close> and \<open>Decode_Roundtrip\<close> (\<^verbatim>\<open>vmm/vmm_instruction_emul.c\<close>): the decoder; it is safe
    on any bytes, its results have the types that the emulation needs, and it inverts an encoder.
  \<^item> \<open>Instr_Emul\<close> and \<open>Emul_Flags\<close> (\<^verbatim>\<open>vmm/vmm_instruction_emul.c\<close>, \<^verbatim>\<open>vmm/vmm.c\<close>): the handlers of all
    instructions over the callbacks of a device, and what the flags of a comparison mean.
  \<^item> \<open>Vhpet\<close> (\<^verbatim>\<open>vmm/io/vhpet.c\<close>): counter, comparators, callouts and registers of the HPET on top of the I/O
    APIC; no assertion fails in a reachable state, interrupt lines balance, periodic timers keep their phase, the counter survives a stop.
  \<^item> \<open>Emul_Safe\<close> and \<open>Kernel_Mmio\<close> (\<^verbatim>\<open>vmm_handle_inst_emul\<close>): the locales \<open>mmio_device\<close> and
    \<open>quiet_device\<close> say what the emulation needs of a device, and prove it safe; they are interpreted for local APIC, I/O APIC and HPET
    as the code connects them, so that no guest instruction panics the kernel but a string move at the local APIC.
  \<^item> \<open>Vrtc\<close> (\<^verbatim>\<open>vmm/io/vrtc.c\<close>): the real-time clock over an abstract calendar (\<open>clock_ok\<close>). Fields and time convert into
    each other in every format, alarms are exact, the callout follows the control registers; two ways to make the kernel panic are theorems.
  \<^item> This theory: the path of a level-triggered interrupt through I/O APIC and local APIC.

  \<^bold>\<open>Bounds.\<close> Loops are total functions. The mutual recursion of the 8259 pair and the loop over descriptor
  chains have explicit fuel; that it suffices is a theorem (\<open>vatpic_depth_enough\<close>) or part of one
  (\<open>vq_getchain_safe\<close>: the bound is the one the source tests).

  \<^bold>\<open>Not modelled.\<close> The VT-x and SVM backends, the IOMMU and passthrough code (their meaning is that of the
  processor), the run loop and ioctl surface of the kernel module, snapshots, network, USB, audio and graphics devices and
  the main program (host I/O), and firmware tables (constants). PCI configuration, the ACPI timer and the storage controllers are not modelled.
\<close>

section \<open>A level-triggered interrupt from the line to its EOI\<close>

definition set_lapic :: "nat \<Rightarrow> vlapic \<Rightarrow> vioapic \<Rightarrow> vioapic" where
  "set_lapic c vl vio = vio\<lparr>vi_vm := upd_lapic c (\<lambda>_. vl) (vi_vm vio)\<rparr>"

text \<open>What makes a pin deliver level-triggered interrupts with vector \<open>v\<close> to vcpu \<open>c\<close>.\<close>

definition level_route :: "vioapic \<Rightarrow> nat \<Rightarrow> nat \<Rightarrow> nat \<Rightarrow> bool" where
  "level_route vio pin c v \<longleftrightarrow> (let reg = rt_reg (vi_rtbl vio pin); vl = vm_lapics (vi_vm vio) c
     in \<not> masked reg \<and> level_trig reg \<and> reg AND IOART_DESTMOD = 0 \<and> rtbl_dest reg = of_nat c \<and> rtbl_delmode reg = 0 \<and>
        rtbl_vector reg = v \<and> 16 \<le> v \<and> c < 255 \<and> c < vm_maxcpus (vi_vm vio) \<and> vm_active_cpus (vi_vm vio) c \<and>
        lp_svr (vl_page vl) AND APIC_SVR_ENABLE \<noteq> 0 \<and> vec_test (lp_tmr (vl_page vl)) v)"

lemma rtbl_vector_le: "rtbl_vector reg \<le> 255"
  unfolding rtbl_vector_def using unat_and_mask_le [of reg "0xff"] by simp

lemma route_deliver:
  assumes "level_route vio pin c v"
  obtains vm' where "pin_deliver (vi_vm vio) (rt_reg (vi_rtbl vio pin)) = Some vm'"
    "vm_lapics vm' c = emit Vcpu_notify_event
       (upd_page (\<lambda>p. p\<lparr>lp_irr := vec_set v (lp_irr p)\<rparr>) (vm_lapics (vi_vm vio) c))"
proof -
  let ?reg = "rt_reg (vi_rtbl vio pin)" and ?vm = "vi_vm vio"
  have r: "\<not> masked ?reg" "level_trig ?reg" "?reg AND IOART_DESTMOD = 0" "rtbl_dest ?reg = of_nat c" "rtbl_delmode ?reg = 0"
    "rtbl_vector ?reg = v" "16 \<le> v" "c < 255" "c < vm_maxcpus ?vm" "vm_active_cpus ?vm c"
    "lp_svr (vl_page (vm_lapics ?vm c)) AND APIC_SVR_ENABLE \<noteq> 0"
    using assms by (simp_all add: level_route_def Let_def)
  have v: "v \<le> 255" using r(6) rtbl_vector_le [of ?reg] by simp
  have u: "unat (of_nat c :: u32) = c" using r(8) by (simp add: unsigned_of_nat take_bit_nat_eq_self)
  have s: "sint (of_nat c :: u32) = int c"
    using r(8) by (simp add: signed_of_nat signed_take_bit_int_eq_self)
  have ff: "(of_nat c :: u32) \<noteq> 0xff"
  proof
    assume "(of_nat c :: u32) = 0xff"
    then have "unat (of_nat c :: u32) = unat (0xff :: u32)" by (rule arg_cong)
    then show False using u r(8) by simp
  qed
  have d: "vlapic_calcdest ?vm (of_nat c) True ((0 :: u32) = APIC_DELMODE_LOWPRIO) False =
      Some (\<lambda>i. i = c \<and> int c < int (vm_maxcpus ?vm) \<and> vm_active_cpus ?vm i)"
    using ff s by (simp add: vlapic_calcdest_def vm_apicid2vcpuid_def)
  show ?thesis
    using deliver_spec [OF r(7) v _ d, of True] r that by (auto simp: pin_deliver_def)
qed

lemma eoi_pins_append: "eoi_pins v (xs @ ys) vio = eoi_pins v xs vio \<bind> eoi_pins v ys"
  by (induction xs arbitrary: vio) (auto simp: Let_def split: bind_split)

lemma eoi_pins_skip:
  "(\<And>q. q \<in> set pins \<Longrightarrow> \<not> (rem_irr (rt_reg (vi_rtbl vio q)) \<and> rtbl_vector (rt_reg (vi_rtbl vio q)) = v)) \<Longrightarrow>
    eoi_pins v pins vio = Some vio"
  by (induction pins) (auto simp: rem_irr_def)


lemma process_eoi_only:
  assumes "pin < 32" "rem_irr (rt_reg (vi_rtbl vio pin))" "rtbl_vector (rt_reg (vi_rtbl vio pin)) = v"
    and other: "\<And>q. q < 32 \<Longrightarrow> q \<noteq> pin \<Longrightarrow> rtbl_vector (rt_reg (vi_rtbl vio q)) \<noteq> v"
  shows "vioapic_process_eoi vio v =
    (let vio' = upd_reg pin (\<lambda>r. r AND NOT IOART_REM_IRR) vio
     in if rt_acnt (vi_rtbl vio pin) > 0 then vioapic_send_intr vio' pin else Some vio')"
proof -
  define vio' where "vio' = upd_reg pin (\<lambda>r. r AND NOT IOART_REM_IRR) vio"
  let ?res = "if rt_acnt (vi_rtbl vio pin) > 0 then vioapic_send_intr vio' pin else Some vio'"
  have upt: "[0..<32] = [0..<pin] @ pin # [pin + 1..<32]"
    using assms(1) by (metis Suc_eq_plus1 le_add1 add_0 less_imp_le upt_add_eq_append upt_conv_Cons le_add_diff_inverse)
  obtain vm1 vio1 where s: "vioapic_send_intr vio' pin = Some vio1"
    "\<And>q. rt_reg (vi_rtbl vio1 q) = (if q = pin then sent_reg (rt_reg (vi_rtbl vio' q)) else rt_reg (vi_rtbl vio' q))"
    by (rule send_intr_spec [of vio' pin]) blast
  have "eoi_pins v [0..<pin] vio = Some vio" by (rule eoi_pins_skip) (use other assms(1) in auto)
  moreover have "eoi_pins v [pin + 1..<32] vio1 = Some vio1" "eoi_pins v [pin + 1..<32] vio' = Some vio'"
    by (rule eoi_pins_skip; use other in \<open>auto simp: s(2) vio'_def\<close>)+
  ultimately show ?thesis
    using assms(2,3) s(1) unfolding vioapic_process_eoi_def upt eoi_pins_append
    by (simp add: rem_irr_def vio'_def Let_def)
qed

lemma route_fields:
  "(reg AND NOT 0x4000) AND 0x800 = reg AND 0x800" "(reg OR 0x4000) AND 0x800 = reg AND 0x800"
  "rtbl_dest (reg OR 0x4000) = rtbl_dest reg" "rtbl_dest (reg AND NOT 0x4000) = rtbl_dest reg"
  "rtbl_delmode (reg OR 0x4000) = rtbl_delmode reg" "rtbl_delmode (reg AND NOT 0x4000) = rtbl_delmode reg"
  "rtbl_vector (reg OR 0x4000) = rtbl_vector reg" "rtbl_vector (reg AND NOT 0x4000) = rtbl_vector reg"
  for reg :: u64
proof -
  have m: "NOT 0x4000 AND m = m" "0x4000 AND m = 0" if "m \<in> {0x800, 0x700, 0xff}" for m :: u64 using that by auto
  have a: "(reg AND NOT 0x4000) AND m = reg AND m" "(reg OR 0x4000) AND m = reg AND m" if "m \<in> {0x800, 0x700, 0xff}" for m :: u64
    using m [OF that] by (simp_all only: and.assoc bit.conj_disj_distrib2 or.right_neutral)
  show "(reg AND NOT 0x4000) AND 0x800 = reg AND 0x800" "(reg OR 0x4000) AND 0x800 = reg AND 0x800"
    "rtbl_delmode (reg OR 0x4000) = rtbl_delmode reg" "rtbl_delmode (reg AND NOT 0x4000) = rtbl_delmode reg"
    "rtbl_vector (reg OR 0x4000) = rtbl_vector reg" "rtbl_vector (reg AND NOT 0x4000) = rtbl_vector reg"
    unfolding rtbl_delmode_def rtbl_vector_def by (simp_all only: a insert_iff simp_thms)
  have "drop_bit 32 (0x4000 :: u64) = 0" by simp
  moreover have "drop_bit 32 (reg AND NOT 0x4000) = drop_bit 32 reg"
    by (rule bit_word_eqI) (simp only: bit_drop_bit_eq o_def bit_and_not_REM_IRR, simp)
  ultimately show "rtbl_dest (reg OR 0x4000) = rtbl_dest reg" "rtbl_dest (reg AND NOT 0x4000) = rtbl_dest reg"
    unfolding rtbl_dest_def drop_bit_or by simp_all
qed

lemma pending_frame: "vlapic_pending_intr vl = Some (r, vl1) \<Longrightarrow> \<exists>x. vl1 = upd_page (\<lambda>p. p\<lparr>lp_ppr := x\<rparr>) vl"
  by (auto simp: vlapic_pending_intr_def vlapic_update_ppr_def Let_def split: if_splits bind_splits)

lemma accepted_frame:
  "vlapic_intr_accepted vl v = Some vl' \<Longrightarrow> lp_svr (vl_page vl') = lp_svr (vl_page vl) \<and> lp_tmr (vl_page vl') = lp_tmr (vl_page vl)"
  by (auto simp: vlapic_intr_accepted_def Let_def split: if_splits)

lemma eoi_frame:
  "vlapic_process_eoi vl = Some vl' \<Longrightarrow> lp_svr (vl_page vl') = lp_svr (vl_page vl) \<and> lp_tmr (vl_page vl') = lp_tmr (vl_page vl) \<and>
    irr_set vl' = irr_set vl"
  by (auto simp: vlapic_process_eoi_def vlapic_update_ppr_def irr_set_def Let_def split: option.splits if_splits bind_splits)

lemma set_lapic_simps [simp]:
  "vi_rtbl (set_lapic c vl vio) = vi_rtbl vio" "vm_lapics (vi_vm (set_lapic c vl vio)) c = vl"
  "vm_active_cpus (vi_vm (set_lapic c vl vio)) = vm_active_cpus (vi_vm vio)" "vm_maxcpus (vi_vm (set_lapic c vl vio)) = vm_maxcpus (vi_vm vio)"
  by (simp_all add: set_lapic_def upd_lapic_def)

text \<open>A delivery keeps the set of vcpus and touches only request registers and events.\<close>

lemma deliver_cpus:
  assumes "pin_deliver vm reg = Some vm'"
  shows "vm_active_cpus vm' = vm_active_cpus vm" "vm_maxcpus vm' = vm_maxcpus vm"
  using deliver_vm_keeps [of vm "level_trig reg" "rtbl_dest reg" "reg AND IOART_DESTMOD = 0" "rtbl_delmode reg" "rtbl_vector reg" vm'] assms
  by (auto simp: pin_deliver_def vm_keeps_def split: if_splits)

text \<open>One vcpu takes the interrupt and signals its end: the vector that was just requested is offered, accepted and
  ended, and the I/O APIC hears of it.\<close>

lemma vcpu_service:
  assumes "isr_inv vl" "v < 256" "ppr_class vl < PRIO v" "\<And>w. w \<in> irr_set vl \<Longrightarrow> w \<le> v" "v \<in> irr_set vl" "vec_test (lp_tmr (vl_page vl)) v"
  obtains vl1 vl2 vl3 where "vlapic_pending_intr vl = Some (Some v, vl1)" "vlapic_intr_accepted vl1 v = Some vl2"
    "v \<in> isr_set vl2" "v \<notin> irr_set vl2" "vlapic_process_eoi vl2 = Some vl3" "vl_events vl3 = vl_events vl2 @ [Ioapic_eoi v]"
    "isr_set vl3 = isr_set vl" "v \<notin> irr_set vl3" "lp_svr (vl_page vl3) = lp_svr (vl_page vl)" "lp_tmr (vl_page vl3) = lp_tmr (vl_page vl)"
proof -
  have max: "Max (irr_set vl) = v" using assms(4,5) by (intro Max_eqI) (auto simp: irr_set_def)
  obtain vl1 where p: "vlapic_pending_intr vl = Some (Some v, vl1)"
    using pending_offer [OF assms(1)] max assms(3,5) by (metis empty_iff)
  obtain x where x: "vl1 = upd_page (\<lambda>p. p\<lparr>lp_ppr := x\<rparr>) vl" using pending_frame [OF p] by blast
  obtain vl2 vl3 where c: "vlapic_intr_accepted vl1 v = Some vl2" "isr_inv vl2" "isr_set vl2 = insert v (isr_set vl)" "Max (isr_set vl2) = v"
    "v \<notin> irr_set vl2" "vlapic_process_eoi vl2 = Some vl3" "isr_set vl3 = isr_set vl"
    using service_cycle [OF assms(1) p] by blast
  have t2: "vec_test (lp_tmr (vl_page vl2)) v" using accepted_frame [OF c(1)] x assms(6) by simp
  have "isr_set vl2 \<noteq> {}" using c(3) by blast
  then have "vl_events vl3 = vl_events vl2 @ [Ioapic_eoi v]"
    using eoi_ok [OF c(2)] c(4,6) t2 by (metis option.inject)
  then show ?thesis using that [OF p c(1) _ c(5,6)] c eoi_frame [OF c(6)] accepted_frame [OF c(1)] x by simp
qed

lemma rem_irr_clear:
  "\<not> rem_irr (r AND NOT 0x4000)" "masked (r AND NOT 0x4000) = masked r" "level_trig (r AND NOT 0x4000) = level_trig r"
  unfolding rtbl_bits bit_and_not_REM_IRR by simp_all

lemma rem_irr_set:
  "rem_irr (r OR 0x4000)" "masked (r OR 0x4000) = masked r" "level_trig (r OR 0x4000) = level_trig r"
  unfolding rtbl_bits bit_or_REM_IRR by simp_all

text \<open>The route does not depend on the remote IRR.\<close>

lemma level_route_cong:
  assumes "level_route vio pin c v" "rt_reg (vi_rtbl w pin) \<in> {rt_reg (vi_rtbl vio pin) OR 0x4000, rt_reg (vi_rtbl vio pin) AND NOT 0x4000}"
    and "vm_active_cpus (vi_vm w) = vm_active_cpus (vi_vm vio)" "vm_maxcpus (vi_vm w) = vm_maxcpus (vi_vm vio)"
    and "lp_svr (vl_page (vm_lapics (vi_vm w) c)) = lp_svr (vl_page (vm_lapics (vi_vm vio) c))"
    and "lp_tmr (vl_page (vm_lapics (vi_vm w) c)) = lp_tmr (vl_page (vm_lapics (vi_vm vio) c))"
  shows "level_route w pin c v"
  using assms unfolding level_route_def Let_def insert_iff empty_iff
  by (elim disjE) (simp_all only: route_fields rem_irr_clear rem_irr_set simp_thms)

text \<open>The EOI while the line is still asserted, and after it was released.\<close>

lemma eoi_redelivers:
  assumes "level_route vio pin c v" "pin < 32" "rem_irr (rt_reg (vi_rtbl vio pin))" "rt_acnt (vi_rtbl vio pin) > 0"
    and "\<And>q. q < 32 \<Longrightarrow> q \<noteq> pin \<Longrightarrow> rtbl_vector (rt_reg (vi_rtbl vio q)) \<noteq> v"
  shows "\<exists>vio'. vioapic_process_eoi vio v = Some vio' \<and> v \<in> irr_set (vm_lapics (vi_vm vio') c) \<and> rem_irr (rt_reg (vi_rtbl vio' pin))"
proof -
  let ?reg = "rt_reg (vi_rtbl vio pin)"
  have v: "rtbl_vector ?reg = v" "v < 256" "\<not> masked ?reg" "level_trig ?reg"
    using assms(1) rtbl_vector_le [of ?reg] by (auto simp: level_route_def Let_def)
  define w where "w = upd_reg pin (\<lambda>r. r AND NOT 0x4000) vio"
  have reg: "rt_reg (vi_rtbl w pin) = ?reg AND NOT 0x4000" and vm: "vi_vm w = vi_vm vio"
    by (simp_all only: w_def upd_reg_simps simp_thms if_True)
  have "level_route w pin c v" by (rule level_route_cong [OF assms(1)]) (simp_all add: reg vm)
  then obtain vm' where d: "pin_deliver (vi_vm w) (rt_reg (vi_rtbl w pin)) = Some vm'"
    "vm_lapics vm' c = emit Vcpu_notify_event (upd_page (\<lambda>p. p\<lparr>lp_irr := vec_set v (lp_irr p)\<rparr>) (vm_lapics (vi_vm w) c))"
    by (rule route_deliver)
  obtain vio' where s: "vioapic_send_intr w pin = Some vio'" "vi_vm vio' = vm'" "rt_reg (vi_rtbl vio' pin) = sent_reg (rt_reg (vi_rtbl w pin))"
    by (rule send_intr_spec [of w pin]) (use d(1) that in simp)
  have "vioapic_process_eoi vio v = Some vio'"
    using process_eoi_only [OF assms(2,3) v(1) assms(5)] assms(4) s(1) by (simp add: w_def)
  moreover have "v \<in> irr_set (vm_lapics (vi_vm vio') c)" using v(2) by (simp add: s(2) d(2) irr_set_def vec_test_set)
  moreover have "rem_irr (rt_reg (vi_rtbl vio' pin))" using v(3,4) unfolding s(3) sent_reg_bits reg rem_irr_clear by simp
  ultimately show ?thesis by blast
qed

lemma eoi_released:
  assumes "pin < 32" "rem_irr (rt_reg (vi_rtbl vio pin))" "rtbl_vector (rt_reg (vi_rtbl vio pin)) = v" "rt_acnt (vi_rtbl vio pin) = 0"
    and "\<And>q. q < 32 \<Longrightarrow> q \<noteq> pin \<Longrightarrow> rtbl_vector (rt_reg (vi_rtbl vio q)) \<noteq> v"
  shows "\<exists>vio'. vioapic_process_eoi vio v = Some vio' \<and> vi_vm vio' = vi_vm vio \<and> \<not> rem_irr (rt_reg (vi_rtbl vio' pin))"
  using process_eoi_only [OF assms(1-3,5)] assms(4) rem_irr_clear(1) by simp

text \<open>C1. The whole path of a level-triggered interrupt. A device asserts a line whose redirection entry is unmasked and
  addresses an enabled local APIC: the vector is requested there, offered to the vcpu, accepted, and its EOI reaches the
  I/O APIC. If the device still holds the line, the vector is requested again at once; if it has released the line,
  nothing stays behind: no request, and no interrupt waiting for an EOI.\<close>

theorem level_interrupt_cycle:
  assumes "lapic_vm_inv (vi_vm vio)" "level_route vio pin c v" "pin < 32" "rt_acnt (vi_rtbl vio pin) = 0"
    and "\<forall>q < 32. q \<noteq> pin \<longrightarrow> rtbl_vector (rt_reg (vi_rtbl vio q)) \<noteq> v"
    and "ppr_class (vm_lapics (vi_vm vio) c) < PRIO v" "\<forall>w \<in> irr_set (vm_lapics (vi_vm vio) c). w \<le> v"
  shows "\<exists>vio1 vl1 vl2 vl3. vioapic_assert_irq vio (int pin) = Some (0, vio1) \<and>
    vlapic_pending_intr (vm_lapics (vi_vm vio1) c) = Some (Some v, vl1) \<and>
    vlapic_intr_accepted vl1 v = Some vl2 \<and> v \<in> isr_set vl2 \<and> v \<notin> irr_set vl2 \<and>
    vlapic_process_eoi vl2 = Some vl3 \<and> vl_events vl3 = vl_events vl2 @ [Ioapic_eoi v] \<and>
    (\<exists>vio3. vioapic_process_eoi (set_lapic c vl3 vio1) v = Some vio3 \<and>
       v \<in> irr_set (vm_lapics (vi_vm vio3) c) \<and> rem_irr (rt_reg (vi_rtbl vio3 pin))) \<and>
    (\<exists>vio2 vio3. vioapic_deassert_irq vio1 (int pin) = Some (0, vio2) \<and>
       vioapic_process_eoi (set_lapic c vl3 vio2) v = Some vio3 \<and>
       v \<notin> irr_set (vm_lapics (vi_vm vio3) c) \<and> \<not> rem_irr (rt_reg (vi_rtbl vio3 pin)))"
proof -
  let ?reg = "rt_reg (vi_rtbl vio pin)" and ?vl = "vm_lapics (vi_vm vio) c"
  have v: "v < 256" "rtbl_vector ?reg = v" "\<not> masked ?reg" "level_trig ?reg" "vec_test (lp_tmr (vl_page ?vl)) v"
    using assms(2) rtbl_vector_le [of ?reg] by (auto simp: level_route_def Let_def)
  obtain vm1 where d: "pin_deliver (vi_vm vio) ?reg = Some vm1"
    "vm_lapics vm1 c = emit Vcpu_notify_event (upd_page (\<lambda>p. p\<lparr>lp_irr := vec_set v (lp_irr p)\<rparr>) ?vl)"
    by (rule route_deliver [OF assms(2)])
  obtain vio1 where s: "vioapic_set_pinstate vio pin True = Some vio1" "rt_acnt (vi_rtbl vio1 pin) = 1" "vi_vm vio1 = vm1"
    "rt_reg (vi_rtbl vio1 pin) = ?reg OR 0x4000" "\<And>q. q \<noteq> pin \<Longrightarrow> rt_reg (vi_rtbl vio1 q) = rt_reg (vi_rtbl vio q)"
    by (rule set_pinstate_spec [of vio pin True]) (use d(1) assms(4) v that in \<open>simp add: line_delta_def sent_reg_def\<close>)
  obtain vio2 where s2: "vioapic_set_pinstate vio1 pin False = Some vio2" "rt_acnt (vi_rtbl vio2 pin) = 0"
    "\<And>q. rt_reg (vi_rtbl vio2 q) = rt_reg (vi_rtbl vio1 q)"
    by (rule set_pinstate_spec [of vio1 pin False]) (use s(2) that in \<open>simp add: line_delta_def\<close>)
  let ?vl' = "vm_lapics vm1 c"
  have irr: "irr_set ?vl' = insert v (irr_set ?vl)" using v(1) by (auto simp: d(2) irr_set_def vec_test_set)
  have fr: "isr_inv ?vl'" "ppr_class ?vl' = ppr_class ?vl" "lp_svr (vl_page ?vl') = lp_svr (vl_page ?vl)"
      "lp_tmr (vl_page ?vl') = lp_tmr (vl_page ?vl)"
    using assms(1) isr_inv_part [of ?vl' ?vl] by (simp_all add: d(2) lapic_vm_inv_def isr_part_def ppr_class_def isr_set_def)
  obtain vl1 vl2 vl3 where c: "vlapic_pending_intr ?vl' = Some (Some v, vl1)" "vlapic_intr_accepted vl1 v = Some vl2"
    "v \<in> isr_set vl2" "v \<notin> irr_set vl2" "vlapic_process_eoi vl2 = Some vl3" "vl_events vl3 = vl_events vl2 @ [Ioapic_eoi v]"
    "v \<notin> irr_set vl3" "lp_svr (vl_page vl3) = lp_svr (vl_page ?vl)" "lp_tmr (vl_page vl3) = lp_tmr (vl_page ?vl)"
    by (rule vcpu_service [of ?vl' v]) (use fr irr v assms(6,7) that in auto)
  have wait: "rem_irr (rt_reg (vi_rtbl vio1 pin))" "rtbl_vector (rt_reg (vi_rtbl vio1 pin)) = v"
    unfolding s(4) route_fields by (rule rem_irr_set, rule v(2))
  have "level_route (set_lapic c vl3 vio1) pin c v"
    by (rule level_route_cong [OF assms(2)]) (use s c deliver_cpus [OF d(1)] in simp_all)
  then have again: "\<exists>vio3. vioapic_process_eoi (set_lapic c vl3 vio1) v = Some vio3 \<and>
      v \<in> irr_set (vm_lapics (vi_vm vio3) c) \<and> rem_irr (rt_reg (vi_rtbl vio3 pin))"
    by (rule eoi_redelivers) (use assms(3,5) s wait in simp_all)
  have "\<exists>vio3. vioapic_process_eoi (set_lapic c vl3 vio2) v = Some vio3 \<and>
      vi_vm vio3 = vi_vm (set_lapic c vl3 vio2) \<and> \<not> rem_irr (rt_reg (vi_rtbl vio3 pin))"
    by (rule eoi_released) (use assms(3,5) s s2 wait in simp_all)
  then have released: "\<exists>vio3. vioapic_process_eoi (set_lapic c vl3 vio2) v = Some vio3 \<and>
      v \<notin> irr_set (vm_lapics (vi_vm vio3) c) \<and> \<not> rem_irr (rt_reg (vi_rtbl vio3 pin))" using c(7) by fastforce
  have "vioapic_assert_irq vio (int pin) = Some (0, vio1)" "vioapic_deassert_irq vio1 (int pin) = Some (0, vio2)"
    using s(1) s2(1) assms(3) by (simp_all add: vioapic_assert_irq_def vioapic_deassert_irq_def vioapic_set_irqstate_def)
  then show ?thesis using c again released s(3) by blast
qed

text \<open>Pin 4 delivers vector 0x50, level-triggered, to vcpu 0 of the machine \<open>vm_demo\<close>, which has requests 0x30 and
  0x41 waiting.\<close>

definition cycle_demo :: vioapic where
  "cycle_demo = (vioapic_init vm_demo)\<lparr>vi_vm := upd_lapic 0 (upd_page (\<lambda>p. p\<lparr>lp_tmr := vec_set 0x50 (\<lambda>_. 0)\<rparr>)) vm_demo,
     vi_rtbl := (vi_rtbl (vioapic_init vm_demo))(4 := \<lparr>rt_reg = 0x8050, rt_acnt = 0\<rparr>)\<rparr>"

theorem level_interrupt_cycle_witness:
  "\<exists>vio1 vl1. vioapic_assert_irq cycle_demo 4 = Some (0, vio1) \<and>
     vlapic_pending_intr (vm_lapics (vi_vm vio1) 0) = Some (Some 0x50, vl1)"
proof -
  have inv: "lapic_vm_inv (vi_vm cycle_demo)"
    by (rule vm_keeps_inv [THEN iffD2, OF _ vm_demo_inv]) (simp add: cycle_demo_def vm_keeps_upd keeps_defs)
  have lapic: "irr_set (vm_lapics (vi_vm cycle_demo) 0) = {0x30, 0x41}" "ppr_class (vm_lapics (vi_vm cycle_demo) 0) = 0"
    using lapic_demo_sets by (simp_all add: cycle_demo_def vm_demo_def irr_set_def ppr_class_def isr_set_def)
  have route: "level_route cycle_demo 4 0 0x50"
    by (simp add: level_route_def cycle_demo_def Let_def masked_def level_trig_def rtbl_dest_def rtbl_delmode_def rtbl_vector_def
        vm_demo_def lapic_demo_def vec_test_set)
  have other: "\<forall>q < 32. q \<noteq> 4 \<longrightarrow> rtbl_vector (rt_reg (vi_rtbl cycle_demo q)) \<noteq> 0x50"
    by (simp add: cycle_demo_def vioapic_init_def rtbl_vector_def)
  have "rt_acnt (vi_rtbl cycle_demo 4) = 0" by (simp add: cycle_demo_def)
  from level_interrupt_cycle [OF inv route _ this other] lapic show ?thesis by (auto simp: PRIO_def)
qed

end
